(* ===== verification/Prelude.thy ===== *)
theory Prelude
  imports Main "HOL-Library.Word"
begin

unbundle bit_operations_syntax

text \<open>
  Shared vocabulary of the development: machine integer types, the errno values the code
  returns (Linux numbering), buffers as byte lists with the C library's \<open>memcpy\<close> and
  \<open>memset\<close> as list updates, little-endian loads and stores, and the number parsers and
  printers of the C standard library (\<open>strtoul\<close>, \<open>strtol\<close>, \<open>%u\<close>) that the code uses.
  A C string is a \<open>char list\<close> without its terminating NUL.
\<close>

type_synonym u8 = "8 word"
type_synonym u16 = "16 word"
type_synonym u32 = "32 word"
type_synonym u64 = "64 word"

named_theorems buf_simps \<open>lengths and slices of buffers\<close>
named_theorems le_simps \<open>little-endian loads of stored values\<close>
named_theorems run_simps \<open>evaluation of the model on concrete inputs\<close>

subsection \<open>errno values\<close>

abbreviation ENOENT :: int where "ENOENT \<equiv> 2"
abbreviation EIO :: int where "EIO \<equiv> 5"
abbreviation EAGAIN :: int where "EAGAIN \<equiv> 11"
abbreviation ENOMEM :: int where "ENOMEM \<equiv> 12"
abbreviation EBUSY :: int where "EBUSY \<equiv> 16"
abbreviation EEXIST :: int where "EEXIST \<equiv> 17"
abbreviation ENODEV :: int where "ENODEV \<equiv> 19"
abbreviation EINVAL :: int where "EINVAL \<equiv> 22"
abbreviation ENAMETOOLONG :: int where "ENAMETOOLONG \<equiv> 36"
abbreviation ETIMEDOUT :: int where "ETIMEDOUT \<equiv> 110"

subsection \<open>Buffers\<close>

definition memcpy_at :: "'a list \<Rightarrow> nat \<Rightarrow> 'a list \<Rightarrow> 'a list" where
  "memcpy_at buf off src = take off buf @ src @ drop (off + length src) buf"

definition memset_at :: "'a list \<Rightarrow> nat \<Rightarrow> 'a \<Rightarrow> nat \<Rightarrow> 'a list" where
  "memset_at buf off v n = memcpy_at buf off (replicate n v)"

definition sub_buf :: "nat \<Rightarrow> nat \<Rightarrow> 'a list \<Rightarrow> 'a list" where
  "sub_buf off n xs = take n (drop off xs)"

lemma length_memcpy_at [simp, buf_simps]:
  "off + length src \<le> length buf \<Longrightarrow> length (memcpy_at buf off src) = length buf"
  by (simp add: memcpy_at_def)

lemma length_memset_at [simp, buf_simps]:
  "off + n \<le> length buf \<Longrightarrow> length (memset_at buf off v n) = length buf"
  by (simp add: memset_at_def)

lemma memcpy_at_0: "length src \<le> length buf \<Longrightarrow> take (length src) (memcpy_at buf 0 src) = src"
  by (simp add: memcpy_at_def)

lemma length_sub_buf [simp, buf_simps]: "length (sub_buf off n xs) = min n (length xs - off)"
  by (simp add: sub_buf_def)

lemma sub_buf_0 [simp]: "sub_buf off 0 xs = []"
  by (simp add: sub_buf_def)

lemma sub_buf_all: "sub_buf 0 (length xs) xs = xs"
  by (simp add: sub_buf_def)

lemma sub_buf_append: "sub_buf off n xs @ sub_buf (off + n) m xs = sub_buf off (n + m) xs"
  by (simp add: sub_buf_def take_add) (simp add: add.commute)

lemma sub_buf_memcpy_at:
  "off + length src \<le> length buf \<Longrightarrow> sub_buf off (length src) (memcpy_at buf off src) = src"
  by (simp add: sub_buf_def memcpy_at_def)

lemma unat_u8_less [simp]: "unat (b :: u8) < 256"
  using unsigned_less [of b, where ?'a = nat] by simp

lemma unat_u16_less [simp]: "unat (w :: u16) < 65536"
  using unsigned_less [of w, where ?'a = nat] by simp

lemma unat_u32_less [simp]: "unat (w :: u32) < 4294967296"
  using unsigned_less [of w, where ?'a = nat] by simp

lemma unat_u64_less [simp]: "unat (w :: u64) < 18446744073709551616"
  using unsigned_less [of w, where ?'a = nat] by simp

lemma sint_of_nat_small: "n < 2 ^ 63 \<Longrightarrow> sint (of_nat n :: u64) = int n"
  by (simp add: signed_of_nat signed_take_bit_int_eq_self)

subsection \<open>Little-endian loads and stores\<close>

text \<open>
  The structures that travel over the wire are written and read through C structs on a
  little-endian host; a field is the little-endian value of its bytes.
\<close>

fun le_nat :: "u8 list \<Rightarrow> nat" where
  "le_nat [] = 0"
| "le_nat (b # bs) = unat b + 256 * le_nat bs"

fun le_enc :: "nat \<Rightarrow> nat \<Rightarrow> u8 list" where
  "le_enc 0 v = []"
| "le_enc (Suc n) v = of_nat (v mod 256) # le_enc n (v div 256)"

abbreviation put_le16 :: "u16 \<Rightarrow> u8 list" where "put_le16 w \<equiv> le_enc 2 (unat w)"
abbreviation put_le32 :: "u32 \<Rightarrow> u8 list" where "put_le32 w \<equiv> le_enc 4 (unat w)"
abbreviation put_le64 :: "u64 \<Rightarrow> u8 list" where "put_le64 w \<equiv> le_enc 8 (unat w)"

definition get_le16 :: "nat \<Rightarrow> u8 list \<Rightarrow> u16" where
  "get_le16 off buf = of_nat (le_nat (sub_buf off 2 buf))"

definition get_le32 :: "nat \<Rightarrow> u8 list \<Rightarrow> u32" where
  "get_le32 off buf = of_nat (le_nat (sub_buf off 4 buf))"

definition get_le64 :: "nat \<Rightarrow> u8 list \<Rightarrow> u64" where
  "get_le64 off buf = of_nat (le_nat (sub_buf off 8 buf))"

lemma length_le_enc [simp, buf_simps]: "length (le_enc n v) = n"
  by (induction n arbitrary: v) auto

lemma le_nat_less: "le_nat bs < 256 ^ length bs"
proof (induction bs)
  case Nil
  then show ?case by simp
next
  case (Cons b bs)
  have "unat b < 256" by simp
  moreover have "le_nat bs + 1 \<le> 256 ^ length bs" using Cons.IH by simp
  ultimately have "unat b + 256 * le_nat bs < 256 * 256 ^ length bs" by linarith
  then show ?case by simp
qed

lemma le_nat_le_enc [le_simps]: "le_nat (le_enc n v) = v mod 256 ^ n"
proof (induction n arbitrary: v)
  case 0
  then show ?case by simp
next
  case (Suc n)
  have "unat (of_nat (v mod 256) :: u8) = v mod 256"
    by (simp add: unat_of_nat)
  with Suc show ?case
    by (simp add: mod_mult2_eq)
qed

lemma get_put_le32 [le_simps]:
  "get_le32 (length pre) (pre @ put_le32 w @ post) = w"
  by (simp add: get_le32_def sub_buf_def le_nat_le_enc)

lemma get_put_le64 [le_simps]:
  "get_le64 (length pre) (pre @ put_le64 w @ post) = w"
  by (simp add: get_le64_def sub_buf_def le_nat_le_enc)

lemmas le_enc_numeral [run_simps] = le_enc.simps(2) [of "pred_numeral k" for k, folded numeral_eq_Suc]

declare get_le16_def [run_simps] get_le32_def [run_simps] get_le64_def [run_simps]
  sub_buf_def [run_simps] memcpy_at_def [run_simps]

subsection \<open>Characters\<close>

definition c_isdigit :: "char \<Rightarrow> bool" where
  "c_isdigit c \<longleftrightarrow> 48 \<le> (of_char c :: nat) \<and> (of_char c :: nat) \<le> 57"

definition c_isspace :: "char \<Rightarrow> bool" where
  "c_isspace c \<longleftrightarrow> (of_char c :: nat) = 32 \<or> (9 \<le> (of_char c :: nat) \<and> (of_char c :: nat) \<le> 13)"

definition c_isxdigit :: "char \<Rightarrow> bool" where
  "c_isxdigit c \<longleftrightarrow> c_isdigit c \<or> (97 \<le> (of_char c :: nat) \<and> (of_char c :: nat) \<le> 102)
     \<or> (65 \<le> (of_char c :: nat) \<and> (of_char c :: nat) \<le> 70)"

definition c_isprint :: "u8 \<Rightarrow> bool" where
  "c_isprint b \<longleftrightarrow> 32 \<le> unat b \<and> unat b \<le> 126"

text \<open>The value of a digit in bases up to 16, 16 for a character that is no digit.\<close>

definition digit_val :: "char \<Rightarrow> nat" where
  "digit_val c =
     (if c_isdigit c then of_char c - 48
      else if 97 \<le> (of_char c :: nat) \<and> (of_char c :: nat) \<le> 102 then of_char c - 87
      else if 65 \<le> (of_char c :: nat) \<and> (of_char c :: nat) \<le> 70 then of_char c - 55
      else 16)"

text \<open>Bytes and characters; a C string held in a byte array ends before its first NUL.\<close>

definition bytes_of :: "string \<Rightarrow> u8 list" where
  "bytes_of s = map of_char s"

definition chars_of :: "u8 list \<Rightarrow> string" where
  "chars_of bs = map (\<lambda>b. char_of (unat b)) bs"

definition cstr_of :: "u8 list \<Rightarrow> string" where
  "cstr_of bs = chars_of (takeWhile (\<lambda>b. b \<noteq> 0) bs)"

lemma length_bytes_of [simp, buf_simps]: "length (bytes_of s) = length s"
  by (simp add: bytes_of_def)

lemma length_chars_of [simp, buf_simps]: "length (chars_of bs) = length bs"
  by (simp add: chars_of_def)

text \<open>\<open>snprintf\<close> into a buffer of \<open>n\<close> bytes keeps the first \<open>n - 1\<close> characters.\<close>

definition PATH_MAX :: nat where "PATH_MAX = 4096"

definition path_join :: "string \<Rightarrow> string \<Rightarrow> string" where
  "path_join dir name = take (PATH_MAX - 1) (dir @ ''/'' @ name)"

text \<open>\<open>strtok_r\<close> with the single delimiter \<open>,\<close>: the maximal non-empty runs without it.\<close>

fun split_comma :: "string \<Rightarrow> string \<Rightarrow> string list" where
  "split_comma acc [] = (if acc = [] then [] else [acc])"
| "split_comma acc (c # s) =
     (if c = CHR '','' then (if acc = [] then split_comma [] s else acc # split_comma [] s)
      else split_comma (acc @ [c]) s)"

definition strtok_comma :: "string \<Rightarrow> string list" where
  "strtok_comma s = split_comma [] s"

lemma split_comma_tokens:
  "CHR '','' \<notin> set acc \<Longrightarrow> t \<in> set (split_comma acc s) \<Longrightarrow> t \<noteq> [] \<and> CHR '','' \<notin> set t"
  by (induction acc s rule: split_comma.induct) (auto split: if_splits)

subsection \<open>The C library's number parsers\<close>

text \<open>
  \<open>scan_digits b acc s\<close> consumes the longest prefix of digits of base \<open>b\<close>: the number of
  digits, their value (unbounded) and what is left.
\<close>

fun scan_digits :: "nat \<Rightarrow> nat \<Rightarrow> nat \<Rightarrow> string \<Rightarrow> nat \<times> nat \<times> string" where
  "scan_digits b k acc [] = (k, acc, [])"
| "scan_digits b k acc (c # s) =
     (if digit_val c < b then scan_digits b (Suc k) (b * acc + digit_val c) s
      else (k, acc, c # s))"

definition scan_sign :: "string \<Rightarrow> bool \<times> string" where
  "scan_sign s = (case s of
       c # r \<Rightarrow> if c = CHR ''-'' then (True, r) else if c = CHR ''+'' then (False, r) else (False, s)
     | [] \<Rightarrow> (False, []))"

text \<open>Base 0 and 16 accept a \<open>0x\<close> prefix when a hex digit follows; base 0 reads a leading 0 as octal.\<close>

definition scan_prefix :: "nat \<Rightarrow> string \<Rightarrow> nat \<times> string" where
  "scan_prefix base s =
     (let hex = (case s of c0 # c1 # c2 # _ \<Rightarrow>
                   c0 = CHR ''0'' \<and> (c1 = CHR ''x'' \<or> c1 = CHR ''X'') \<and> c_isxdigit c2 | _ \<Rightarrow> False)
      in if (base = 0 \<or> base = 16) \<and> hex then (16, drop 2 s)
         else if base = 0 then
           (if s \<noteq> [] \<and> hd s = CHR ''0'' then (8, s) else (10, s))
         else (base, s))"

text \<open>
  The result of a conversion: \<open>None\<close> when there is no number (the C functions then return 0
  and leave \<open>end\<close> at the start), else the sign, the magnitude and the rest of the string.
\<close>

definition scan_number :: "nat \<Rightarrow> string \<Rightarrow> (bool \<times> nat \<times> string) option" where
  "scan_number base s =
     (let (neg, s1) = scan_sign (dropWhile c_isspace s);
          (b, s2) = scan_prefix base s1;
          (k, v, r) = scan_digits b 0 0 s2
      in if k = 0 then None else Some (neg, v, r))"

definition ulong_max :: nat where "ulong_max = 2 ^ 64 - 1"

text \<open>\<open>strtoul\<close>: the value, whether \<open>errno\<close> became \<open>ERANGE\<close>, and the rest after the number.\<close>

definition c_strtoul :: "nat \<Rightarrow> string \<Rightarrow> u64 \<times> bool \<times> string option" where
  "c_strtoul base s =
     (case scan_number base s of
        None \<Rightarrow> (0, False, None)
      | Some (neg, v, r) \<Rightarrow>
          if v > ulong_max then (of_nat ulong_max, True, Some r)
          else ((if neg then - of_nat v else of_nat v), False, Some r))"

text \<open>\<open>strtol\<close> likewise, on a 64-bit \<open>long\<close>.\<close>

definition c_strtol :: "nat \<Rightarrow> string \<Rightarrow> int \<times> bool \<times> string option" where
  "c_strtol base s =
     (case scan_number base s of
        None \<Rightarrow> (0, False, None)
      | Some (neg, v, r) \<Rightarrow>
          let i = (if neg then - int v else int v)
          in if i > 2 ^ 63 - 1 then (2 ^ 63 - 1, True, Some r)
             else if i < - (2 ^ 63) then (- (2 ^ 63), True, Some r)
             else (i, False, Some r))"

text \<open>A call \<open>strtoul(s, NULL, base)\<close> keeps the value only.\<close>

abbreviation strtoul_val :: "nat \<Rightarrow> string \<Rightarrow> u64" where
  "strtoul_val base s \<equiv> fst (c_strtoul base s)"

subsection \<open>Printing decimal numbers\<close>

fun show_dec :: "nat \<Rightarrow> string" where
  "show_dec n = (if n < 10 then [char_of (48 + n)]
                 else show_dec (n div 10) @ [char_of (48 + n mod 10)])"

declare show_dec.simps [simp del]

text \<open>\<open>%d\<close> of a signed value.\<close>

definition show_int :: "int \<Rightarrow> string" where
  "show_int i = (if i < 0 then CHR ''-'' # show_dec (nat (- i)) else show_dec (nat i))"

lemma digit_val_char_of: "d < 10 \<Longrightarrow> digit_val (char_of (48 + d)) = d"
  by (simp add: digit_val_def c_isdigit_def)

lemma c_isdigit_char_of [simp]: "(d :: nat) < 10 \<Longrightarrow> c_isdigit (char_of (48 + d))"
  by (simp add: c_isdigit_def)

lemma scan_digits_append:
  "(\<forall>c \<in> set xs. digit_val c < b) \<Longrightarrow>
   scan_digits b k acc (xs @ ys) = scan_digits b (k + length xs) (foldl (\<lambda>a c. b * a + digit_val c) acc xs) ys"
  by (induction xs arbitrary: k acc) auto

lemma show_dec_nonempty: "show_dec n \<noteq> []"
  by (subst show_dec.simps) simp

lemma show_dec_digits: "c \<in> set (show_dec n) \<Longrightarrow> c_isdigit c"
proof (induction n rule: show_dec.induct)
  case (1 n)
  then show ?case
    by (subst (asm) (2) show_dec.simps) (auto split: if_splits)
qed

lemma digit_val_isdigit: "c_isdigit c \<Longrightarrow> digit_val c < 10"
  unfolding digit_val_def c_isdigit_def by (auto simp: less_diff_conv2)

lemma show_dec_value: "foldl (\<lambda>a c. 10 * a + digit_val c) 0 (show_dec n) = n"
proof (induction n rule: show_dec.induct)
  case (1 n)
  show ?case
  proof (cases "n < 10")
    case True
    then show ?thesis by (subst show_dec.simps) (simp add: digit_val_char_of)
  next
    case False
    with 1 show ?thesis
      by (subst show_dec.simps) (simp add: digit_val_char_of)
  qed
qed

lemma show_dec_hd_not_zero: "n > 0 \<Longrightarrow> hd (show_dec n) \<noteq> CHR ''0''"
proof (induction n rule: show_dec.induct)
  case (1 n)
  show ?case
  proof (cases "n < 10")
    case True
    have "digit_val (char_of (48 + n)) \<noteq> digit_val (CHR ''0'')"
      using True 1 by (simp add: digit_val_char_of) (simp add: digit_val_def c_isdigit_def)
    with True show ?thesis by (subst show_dec.simps) auto
  next
    case False
    with 1 show ?thesis by (subst show_dec.simps) (simp add: show_dec_nonempty)
  qed
qed

subsection \<open>Parsing printed numbers\<close>

definition no_digit :: "string \<Rightarrow> bool" where
  "no_digit s \<longleftrightarrow> (case s of [] \<Rightarrow> True | c # _ \<Rightarrow> digit_val c \<ge> 10)"

lemma scan_digits_stop: "no_digit s \<Longrightarrow> b \<le> 10 \<Longrightarrow> scan_digits b k acc s = (k, acc, s)"
  by (cases s) (auto simp: no_digit_def)

lemma show_dec_Cons: "\<exists>c cs. show_dec n = c # cs \<and> c_isdigit c"
  using show_dec_nonempty [of n] show_dec_digits [of _ n] by (cases "show_dec n") auto

lemma scan_show_dec:
  assumes "no_digit rest"
  shows "scan_digits 10 0 0 (show_dec n @ rest) = (length (show_dec n), n, rest)"
proof -
  have "\<forall>c \<in> set (show_dec n). digit_val c < 10"
    using show_dec_digits digit_val_isdigit by blast
  then show ?thesis
    by (simp add: scan_digits_append show_dec_value scan_digits_stop assms)
qed

lemma digit_no_space: "c_isdigit c \<Longrightarrow> \<not> c_isspace c \<and> c \<noteq> CHR ''-'' \<and> c \<noteq> CHR ''+'' \<and> c \<noteq> CHR ''x'' \<and> c \<noteq> CHR ''X''"
  by (auto simp: c_isdigit_def c_isspace_def)

lemma scan_number_prefix:
  "scan_number b (show_dec n @ rest)
     = (let (b', s2) = scan_prefix b (show_dec n @ rest); (k, v, r) = scan_digits b' 0 0 s2
        in if k = 0 then None else Some (False, v, r))"
proof -
  obtain c cs where c: "show_dec n = c # cs" "c_isdigit c" using show_dec_Cons by blast
  then show ?thesis
    using digit_no_space [OF c(2)] by (simp add: scan_number_def scan_sign_def Let_def split: prod.splits)
qed

lemma scan_number_dec:
  assumes "no_digit rest"
  shows "scan_number 10 (show_dec n @ rest) = Some (False, n, rest)"
  unfolding scan_number_prefix
  using scan_show_dec [OF assms, of n] show_dec_nonempty [of n] by (simp add: scan_prefix_def)

lemma show_dec_0: "show_dec 0 = ''0''"
  by (subst show_dec.simps) (simp add: char_of_def bit_Suc_0_iff)

text \<open>Base 0 reads a printed number back as well: only \<open>0\<close> itself starts with a zero.\<close>

lemma scan_number_dec0: "scan_number 0 (show_dec n) = Some (False, n, [])"
proof (cases "n = 0")
  case True
  have "scan_number 0 ''0'' = Some (False, 0, [])"
    by (simp add: scan_number_def scan_sign_def scan_prefix_def c_isspace_def digit_val_def c_isdigit_def)
  with True show ?thesis by (simp add: show_dec_0)
next
  case False
  obtain c cs where c: "show_dec n = c # cs" "c_isdigit c" using show_dec_Cons by blast
  have "c \<noteq> CHR ''0''" using show_dec_hd_not_zero [of n] c False by simp
  then have "scan_prefix 0 (show_dec n @ []) = (10, show_dec n @ [])"
    using c by (simp add: scan_prefix_def split: list.splits)
  then show ?thesis
    using scan_number_prefix [of 0 n "[]"] scan_show_dec [of "[]" n] show_dec_nonempty [of n]
    by (simp add: no_digit_def)
qed

lemma show_dec_inj: "show_dec m = show_dec n \<longleftrightarrow> m = n"
  by (metis show_dec_value)

lemma show_dec_length: "n < 10 ^ Suc k \<Longrightarrow> length (show_dec n) \<le> Suc k"
proof (induction k arbitrary: n)
  case 0
  then show ?case by (subst show_dec.simps) simp
next
  case (Suc k)
  have "length (show_dec (n div 10)) \<le> Suc k" using Suc by simp
  then show ?case by (subst show_dec.simps) simp
qed

text \<open>A path that fits the buffer is not cut.\<close>

lemma path_join_fits: "length dir + length name < PATH_MAX - 1 \<Longrightarrow> path_join dir name = dir @ ''/'' @ name"
  by (simp add: path_join_def)

subsection \<open>State with a result\<close>

text \<open>
  Code that may not return: from a state to a result and a new state, or \<open>None\<close> when the fuel of a
  waiting loop has run out.
\<close>

type_synonym ('s, 'a) som = "'s \<Rightarrow> ('a \<times> 's) option"

definition sret :: "'a \<Rightarrow> ('s, 'a) som" where
  "sret a = (\<lambda>s. Some (a, s))"

definition sbind :: "('s, 'a) som \<Rightarrow> ('a \<Rightarrow> ('s, 'b) som) \<Rightarrow> ('s, 'b) som" where
  "sbind m f = (\<lambda>s. case m s of None \<Rightarrow> None | Some (a, s') \<Rightarrow> f a s')"

lemma sbind_sret [simp]: "sbind (sret a) f = f a"
  by (simp add: sbind_def sret_def)

lemma sbind_assoc: "sbind (sbind m f) g = sbind m (\<lambda>a. sbind (f a) g)"
  by (auto simp: sbind_def split: option.splits prod.splits)

lemma sbind_Some:
  "sbind m f s = Some r \<longleftrightarrow> (\<exists>a s'. m s = Some (a, s') \<and> f a s' = Some r)"
  by (auto simp: sbind_def split: option.splits)

lemma sret_Some [simp]: "sret a s = Some (b, s') \<longleftrightarrow> b = a \<and> s' = s"
  by (auto simp: sret_def)

text \<open>
  What holds of the result and the state when the code returns; sequencing passes an intermediate
  assertion on.
\<close>

definition post :: "('a \<Rightarrow> 's \<Rightarrow> bool) \<Rightarrow> ('a \<times> 's) option \<Rightarrow> bool" where
  "post Q r \<longleftrightarrow> (case r of None \<Rightarrow> True | Some (a, s) \<Rightarrow> Q a s)"

abbreviation kept :: "('s \<Rightarrow> bool) \<Rightarrow> ('a \<times> 's) option \<Rightarrow> bool" where
  "kept P \<equiv> post (\<lambda>_. P)"

named_theorems kept_intros \<open>operations that keep an invariant of the session state\<close>

lemma post_None [simp]: "post Q None"
  by (simp add: post_def)

lemma post_Some [simp]: "post Q (Some (a, s)) = Q a s"
  by (simp add: post_def)

lemma post_sret [simp]: "post Q (sret a s) = Q a s"
  by (simp add: post_def sret_def)

lemma post_sbind:
  "post R (m s) \<Longrightarrow> (\<And>a s'. R a s' \<Longrightarrow> post Q (f a s')) \<Longrightarrow> post Q (sbind m f s)"
  by (cases "m s") (auto simp: sbind_def)

lemma post_mono: "post Q r \<Longrightarrow> (\<And>a s. Q a s \<Longrightarrow> Q' a s) \<Longrightarrow> post Q' r"
  by (auto simp: post_def split: option.splits)

lemma post_conj: "post Q r \<Longrightarrow> post Q' r \<Longrightarrow> post (\<lambda>a s. Q a s \<and> Q' a s) r"
  by (auto simp: post_def split: option.splits)

lemma postD: "post Q r \<Longrightarrow> r = Some (a, s) \<Longrightarrow> Q a s"
  by (simp add: post_def)

lemma kept_sbind:
  "kept P (m s) \<Longrightarrow> (\<And>a s'. P s' \<Longrightarrow> kept P (f a s')) \<Longrightarrow> kept P (sbind m f s)"
  by (rule post_sbind)

lemma kept_sret: "P s \<Longrightarrow> kept P (sret a s)"
  by simp

lemma post_if: "(b \<Longrightarrow> post Q x) \<Longrightarrow> (\<not> b \<Longrightarrow> post Q y) \<Longrightarrow> post Q (if b then x else y)"
  by simp

lemma post_if_fun: "(b \<Longrightarrow> post Q (x s)) \<Longrightarrow> (\<not> b \<Longrightarrow> post Q (y s)) \<Longrightarrow> post Q ((if b then x else y) s)"
  by simp

lemma post_prod: "(\<And>x y. p = (x, y) \<Longrightarrow> post Q (f x y s)) \<Longrightarrow> post Q ((case p of (x, y) \<Rightarrow> f x y) s)"
  by (cases p) simp

lemma post_prod2: "(\<And>x y. p = (x, y) \<Longrightarrow> post Q (f x y)) \<Longrightarrow> post Q (case p of (x, y) \<Rightarrow> f x y)"
  by (cases p) simp

lemma post_option:
  "(v = None \<Longrightarrow> post Q x) \<Longrightarrow> (\<And>a. v = Some a \<Longrightarrow> post Q (f a)) \<Longrightarrow>
   post Q (case v of None \<Rightarrow> x | Some a \<Rightarrow> f a)"
  by (cases v) simp_all

lemma post_option_fun:
  "(v = None \<Longrightarrow> post Q (x s)) \<Longrightarrow> (\<And>a. v = Some a \<Longrightarrow> post Q (f a s)) \<Longrightarrow>
   post Q ((case v of None \<Rightarrow> x | Some a \<Rightarrow> f a) s)"
  by (cases v) simp_all

lemmas kept_rules = kept_sbind kept_sret post_if post_if_fun post_prod post_prod2 post_option post_option_fun

subsection \<open>Words from digits and characters\<close>

lemma shift_digit:
  assumes "y = take_bit n y"
  shows "push_bit n x OR y = push_bit n x + (y :: u32)"
proof -
  have "push_bit n x AND take_bit n y = 0" by (rule bit_eqI) (auto simp: bit_simps)
  then show ?thesis using assms disjunctive_add_eq_or [of "push_bit n x" y] by simp
qed

lemma shift_nat:
  assumes "a < 2 ^ n"
  shows "push_bit n (of_nat m) OR of_nat a = (of_nat (m * 2 ^ n + a) :: u32)"
proof -
  have "of_nat a = (take_bit n (of_nat a) :: u32)"
    using assms by (simp add: take_bit_of_nat take_bit_nat_eq_self)
  from shift_digit [OF this, of "of_nat m"] show ?thesis by (simp add: push_bit_eq_mult)
qed

lemma u32_of_nat: "n < 2 ^ 32 \<Longrightarrow> unat (of_nat n :: u32) = n"
  by (simp add: unsigned_of_nat take_bit_nat_eq_self)

lemma unat_of_char: "unat (of_char c :: u8) = of_char c"
proof -
  have "(of_char c :: u8) = of_nat (of_char c)" by (simp add: of_nat_of_char)
  also have "unat \<dots> = of_char c" using nat_of_char_less_256 [of c] by (simp add: unsigned_of_nat take_bit_nat_eq_self)
  finally show ?thesis .
qed

lemma chars_bytes [simp]: "chars_of (bytes_of s) = s"
  by (simp add: chars_of_def bytes_of_def comp_def unat_of_char)

lemma bytes_chars [simp]: "bytes_of (chars_of bs) = bs"
proof -
  have "(of_char (char_of (unat b)) :: u8) = b" for b
    using unat_u8_less [of b] by (simp add: word_unat_eq_iff unat_of_char)
  then show ?thesis by (simp add: chars_of_def bytes_of_def comp_def)
qed

end
