(* ===== verification/Device.thy ===== *)
theory Device
  imports Prelude
begin

text \<open>
  The device handle of \<open>include/qdl.h\<close> and the transport wrapper of \<open>src/io.c\<close>. The
  transport behind the function pointers \<open>qdl->read\<close> and \<open>qdl->write\<close> is a record of
  functions over an unspecified transport state \<open>'d\<close>, so every definition that talks to a
  device is stated for all backends. A read returns the negative errno or the bytes it
  stored, whose number is the C return value; a write returns the C return value and sees
  the bytes handed to it.
\<close>

subsection \<open>Types\<close>

datatype dev_kind = QDL_DEVICE_USB | QDL_DEVICE_SIM | QDL_DEVICE_QUD | QDL_DEVICE_AUTO

datatype storage_type =
    QDL_STORAGE_UNKNOWN | QDL_STORAGE_EMMC | QDL_STORAGE_NAND | QDL_STORAGE_UFS
  | QDL_STORAGE_NVME | QDL_STORAGE_SPINOR

datatype skipblock_mode = QDL_SKIPBLOCK_NONE | QDL_SKIPBLOCK_SHA256

datatype vip_state = VIP_DISABLED | VIP_INIT | VIP_SEND_NEXT_TABLE | VIP_SEND_DATA

text \<open>
  \<open>struct vip_transfer_data\<close>: an open table file is its read position and its content, so
  \<open>signed_table\<close> and \<open>chained_tables\<close> stand for \<open>signed_table_fd\<close> and the first
  \<open>chained_num\<close> entries of \<open>chained_fds\<close>.
\<close>

type_synonym vip_fd = "nat \<times> u8 list"

record vip_transfer_data =
  vip_st :: vip_state
  signed_table :: vip_fd
  chained_tables :: "vip_fd list"
  chained_cur :: nat
  frames_sent :: nat
  frames_left :: nat
  fh_parse_status :: bool
  sending_table :: bool
  programmer_requires_vip :: bool

definition chained_num :: "vip_transfer_data \<Rightarrow> nat" where
  "chained_num v = length (chained_tables v)"

definition vip_zero :: vip_transfer_data where
  "vip_zero = \<lparr>vip_st = VIP_DISABLED, signed_table = (0, []), chained_tables = [], chained_cur = 0,
     frames_sent = 0, frames_left = 0, fh_parse_status = False, sending_table = False,
     programmer_requires_vip = False\<rparr>"

record 'd qdl_device =
  dev_type :: dev_kind
  max_payload_size :: nat
  sector_size :: nat
  current_storage_type :: storage_type
  skipblock :: skipblock_mode
  slot_id :: u32
  vip_data :: vip_transfer_data
  pending_buf :: "u8 list option"
  pending_len :: nat
  pending_off :: nat
  link :: 'd

record 'd transport =
  tr_read :: "'d \<Rightarrow> nat \<Rightarrow> nat \<Rightarrow> (int + u8 list) \<times> 'd"
  tr_write :: "'d \<Rightarrow> u8 list \<Rightarrow> nat \<Rightarrow> int \<times> 'd"

subsection \<open>The pushback buffer\<close>

definition qdl_read ::
  "'d transport \<Rightarrow> 'd qdl_device \<Rightarrow> nat \<Rightarrow> nat \<Rightarrow> (int + u8 list) \<times> 'd qdl_device" where
  "qdl_read T q len timeout =
     (case pending_buf q of
        Some buf \<Rightarrow>
          let available = pending_len q - pending_off q;
              copy = (if available < len then available else len);
              data = sub_buf (pending_off q) copy buf;
              off' = pending_off q + copy
          in if off' \<ge> pending_len q
             then (Inr data, q\<lparr>pending_buf := None, pending_len := 0, pending_off := 0\<rparr>)
             else (Inr data, q\<lparr>pending_off := off'\<rparr>)
      | None \<Rightarrow> (case tr_read T (link q) len timeout of (r, d) \<Rightarrow> (r, q\<lparr>link := d\<rparr>)))"

text \<open>
  \<open>qdl_push_back\<close>: the served prefix is dropped, then the bytes are appended. Memory
  exhaustion (\<open>-ENOMEM\<close>) is not modelled.
\<close>

definition qdl_push_back :: "'d qdl_device \<Rightarrow> u8 list \<Rightarrow> int \<times> 'd qdl_device" where
  "qdl_push_back q buf =
     (if buf = [] then (0, q)
      else
        let old = (case pending_buf q of None \<Rightarrow> [] | Some b \<Rightarrow> b);
            (old', plen) = (if pending_off q > 0
               then (sub_buf (pending_off q) (pending_len q - pending_off q) old,
                     pending_len q - pending_off q)
               else (old, pending_len q));
            total = plen + length buf;
            grown = take plen old' @ buf
        in (0, q\<lparr>pending_buf := Some grown, pending_len := total, pending_off := 0\<rparr>))"

definition qdl_write ::
  "'d transport \<Rightarrow> 'd qdl_device \<Rightarrow> u8 list \<Rightarrow> nat \<Rightarrow> int \<times> 'd qdl_device" where
  "qdl_write T q buf timeout =
     (case tr_write T (link q) buf timeout of (r, d) \<Rightarrow> (r, q\<lparr>link := d\<rparr>))"

subsection \<open>The pushback buffer as a byte queue\<close>

text \<open>The bytes still to be served, and the invariant that ties the three fields together.\<close>

definition pending :: "'d qdl_device \<Rightarrow> u8 list" where
  "pending q = (case pending_buf q of None \<Rightarrow> [] | Some b \<Rightarrow> drop (pending_off q) b)"

definition pending_ok :: "'d qdl_device \<Rightarrow> bool" where
  "pending_ok q =
     (case pending_buf q of
        None \<Rightarrow> pending_len q = 0 \<and> pending_off q = 0
      | Some b \<Rightarrow> pending_len q = length b \<and> pending_off q < pending_len q)"

lemma qdl_read_pending:
  assumes "pending_ok q" "pending q \<noteq> []"
  shows "fst (qdl_read T q len tmo) = Inr (take len (pending q))"
    and "pending (snd (qdl_read T q len tmo)) = drop len (pending q)"
    and "link (snd (qdl_read T q len tmo)) = link q"
  using assms
  by (auto simp: qdl_read_def pending_def pending_ok_def sub_buf_def Let_def min_def add.commute
           split: option.splits)

lemma qdl_read_direct:
  assumes "pending_ok q" "pending q = []"
  shows "qdl_read T q len tmo = (case tr_read T (link q) len tmo of (r, d) \<Rightarrow> (r, q\<lparr>link := d\<rparr>))"
  using assms by (auto simp: qdl_read_def pending_def pending_ok_def split: option.splits)

lemma qdl_read_pending_ok:
  "pending_ok q \<Longrightarrow> pending_ok (snd (qdl_read T q len tmo))"
  by (auto simp: qdl_read_def pending_ok_def Let_def split: option.splits prod.splits)

lemma qdl_push_back_pending:
  "pending_ok q \<Longrightarrow> pending (snd (qdl_push_back q buf)) = pending q @ buf"
  by (auto simp: qdl_push_back_def pending_def pending_ok_def sub_buf_def Let_def
           split: option.splits)

lemma qdl_push_back_ok:
  "pending_ok q \<Longrightarrow> pending_ok (snd (qdl_push_back q buf))"
  by (auto simp: qdl_push_back_def pending_ok_def sub_buf_def Let_def split: option.splits)

lemma qdl_push_back_link [simp]: "link (snd (qdl_push_back q buf)) = link q"
  by (auto simp: qdl_push_back_def Let_def split: option.splits)

text \<open>What a write or a read leaves alone.\<close>

lemma qdl_write_frame [simp]:
  "dev_type (snd (qdl_write T q b t)) = dev_type q"
  "vip_data (snd (qdl_write T q b t)) = vip_data q"
  "pending (snd (qdl_write T q b t)) = pending q"
  "pending_ok (snd (qdl_write T q b t)) = pending_ok q"
  "max_payload_size (snd (qdl_write T q b t)) = max_payload_size q"
  by (auto simp: qdl_write_def pending_def pending_ok_def split: prod.splits option.splits)

lemma qdl_read_frame [simp]:
  "dev_type (snd (qdl_read T q n t)) = dev_type q"
  "vip_data (snd (qdl_read T q n t)) = vip_data q"
  "max_payload_size (snd (qdl_read T q n t)) = max_payload_size q"
  by (simp_all add: qdl_read_def Let_def split: option.splits prod.splits)

subsection \<open>A scripted device\<close>

text \<open>
  A transport for examples: each read takes the next entry of a list (a packet is delivered
  whole), an exhausted list times out; every write succeeds completely.
\<close>

definition script_read :: "(int + u8 list) list \<Rightarrow> (int + u8 list) \<times> (int + u8 list) list" where
  "script_read s = (case s of [] \<Rightarrow> (Inl (- ETIMEDOUT), []) | r # s' \<Rightarrow> (r, s'))"

definition script_transport :: "(int + u8 list) list transport" where
  "script_transport = \<lparr>tr_read = (\<lambda>s n t. script_read s), tr_write = (\<lambda>s m t. (int (length m), s))\<rparr>"

definition fresh_device :: "dev_kind \<Rightarrow> 'd \<Rightarrow> 'd qdl_device" where
  "fresh_device k d = \<lparr>dev_type = k, max_payload_size = 1048576, sector_size = 0,
     current_storage_type = QDL_STORAGE_UNKNOWN, skipblock = QDL_SKIPBLOCK_NONE, slot_id = -1,
     vip_data = vip_zero, pending_buf = None, pending_len = 0, pending_off = 0, link = d\<rparr>"

declare script_transport_def [run_simps] script_read_def [run_simps] fresh_device_def [run_simps]
  qdl_read_def [run_simps] qdl_write_def [run_simps]

subsection \<open>The interface the protocol layers use\<close>

text \<open>
  A pushback reader serves what was pushed back before anything new: the laws that
  \<open>firehose_read\<close> relies on when it hands back the binary tail of a response, and what
  follows from them for any provider.
\<close>

locale pushback_reader =
  fixes rd :: "'s \<Rightarrow> nat \<Rightarrow> nat \<Rightarrow> (int + u8 list) \<times> 's"
    and pb :: "'s \<Rightarrow> u8 list \<Rightarrow> int \<times> 's"
    and stash :: "'s \<Rightarrow> u8 list"
    and inv :: "'s \<Rightarrow> bool"
  assumes rd_stash: "inv s \<Longrightarrow> stash s \<noteq> [] \<Longrightarrow>
      \<exists>s'. rd s n t = (Inr (take n (stash s)), s') \<and> stash s' = drop n (stash s)"
    and rd_inv: "inv s \<Longrightarrow> inv (snd (rd s n t))"
    and pb_stash: "inv s \<Longrightarrow> stash (snd (pb s bs)) = stash s @ bs"
    and pb_inv: "inv s \<Longrightarrow> inv (snd (pb s bs))"
begin

text \<open>A tail pushed back onto an empty stash is what the next read of its length returns.\<close>

lemma push_back_then_read:
  assumes "inv s" "stash s = []" "bs \<noteq> []" "length bs \<le> n"
  shows "fst (rd (snd (pb s bs)) n t) = Inr bs"
    and "stash (snd (rd (snd (pb s bs)) n t)) = []"
proof -
  have st: "stash (snd (pb s bs)) = bs" using assms pb_stash by simp
  have iv: "inv (snd (pb s bs))" using assms pb_inv by simp
  obtain s' where "rd (snd (pb s bs)) n t = (Inr (take n bs), s')" "stash s' = drop n bs"
    using rd_stash [OF iv, of n t] st assms(3) by auto
  then show "fst (rd (snd (pb s bs)) n t) = Inr bs"
    and "stash (snd (rd (snd (pb s bs)) n t)) = []"
    using assms(4) by auto
qed

text \<open>Reading the stash in two pieces is reading it once.\<close>

lemma read_twice:
  assumes "inv s" "n < length (stash s)" "m \<le> length (stash s) - n" "0 < m"
  shows "fst (rd (snd (rd s n t)) m t') = Inr (take m (drop n (stash s)))"
proof -
  obtain s' where 1: "rd s n t = (Inr (take n (stash s)), s')" "stash s' = drop n (stash s)"
    using rd_stash [OF assms(1), of n t] assms(2) by force
  have "inv s'" using rd_inv [OF assms(1), of n t] 1 by simp
  moreover have "stash s' \<noteq> []" using 1 assms(2) by simp
  ultimately show ?thesis using rd_stash [of s' m t'] 1 by auto
qed

end

interpretation io_pb: pushback_reader "qdl_read T" qdl_push_back pending pending_ok
  by unfold_locales
    (auto simp: qdl_read_pending_ok qdl_push_back_pending qdl_push_back_ok
          intro!: prod_eqI qdl_read_pending)

end
