(* ===== verification/SaharaPkt.thy ===== *)
theory SaharaPkt
  imports Device
begin

text \<open>
  The packets of \<open>src/sahara.c\<close> and the handlers that answer one request of the device:
  \<open>sahara_hello\<close>, \<open>sahara_read\<close>, \<open>sahara_read64\<close>, \<open>sahara_eoi\<close>, \<open>sahara_done\<close> and the
  senders they use. A packet is the byte buffer it arrived in; a field of \<open>struct
  sahara_pkt\<close> is the little-endian load at its offset (the union starts at offset 8).
\<close>

subsection \<open>Constants\<close>

abbreviation SAHARA_HELLO_CMD :: u32 where "SAHARA_HELLO_CMD \<equiv> 0x1"
abbreviation SAHARA_HELLO_RESP_CMD :: u32 where "SAHARA_HELLO_RESP_CMD \<equiv> 0x2"
abbreviation SAHARA_READ_DATA_CMD :: u32 where "SAHARA_READ_DATA_CMD \<equiv> 0x3"
abbreviation SAHARA_END_OF_IMAGE_CMD :: u32 where "SAHARA_END_OF_IMAGE_CMD \<equiv> 0x4"
abbreviation SAHARA_DONE_CMD :: u32 where "SAHARA_DONE_CMD \<equiv> 0x5"
abbreviation SAHARA_DONE_RESP_CMD :: u32 where "SAHARA_DONE_RESP_CMD \<equiv> 0x6"
abbreviation SAHARA_RESET_CMD :: u32 where "SAHARA_RESET_CMD \<equiv> 0x7"
abbreviation SAHARA_RESET_RESP_CMD :: u32 where "SAHARA_RESET_RESP_CMD \<equiv> 0x8"
abbreviation SAHARA_CMD_READY_CMD :: u32 where "SAHARA_CMD_READY_CMD \<equiv> 0xb"
abbreviation SAHARA_SWITCH_MODE_CMD :: u32 where "SAHARA_SWITCH_MODE_CMD \<equiv> 0xc"
abbreviation SAHARA_EXECUTE_CMD :: u32 where "SAHARA_EXECUTE_CMD \<equiv> 0xd"
abbreviation SAHARA_EXECUTE_RESP_CMD :: u32 where "SAHARA_EXECUTE_RESP_CMD \<equiv> 0xe"
abbreviation SAHARA_EXECUTE_DATA_CMD :: u32 where "SAHARA_EXECUTE_DATA_CMD \<equiv> 0xf"
abbreviation SAHARA_MEM_DEBUG64_CMD :: u32 where "SAHARA_MEM_DEBUG64_CMD \<equiv> 0x10"
abbreviation SAHARA_MEM_READ64_CMD :: u32 where "SAHARA_MEM_READ64_CMD \<equiv> 0x11"
abbreviation SAHARA_READ_DATA64_CMD :: u32 where "SAHARA_READ_DATA64_CMD \<equiv> 0x12"

abbreviation SAHARA_VERSION :: u32 where "SAHARA_VERSION \<equiv> 2"
abbreviation SAHARA_MODE_IMAGE_TX_PENDING :: u32 where "SAHARA_MODE_IMAGE_TX_PENDING \<equiv> 0"
abbreviation SAHARA_MODE_MEMORY_DEBUG :: u32 where "SAHARA_MODE_MEMORY_DEBUG \<equiv> 2"
abbreviation SAHARA_MODE_COMMAND :: u32 where "SAHARA_MODE_COMMAND \<equiv> 3"

abbreviation SAHARA_HELLO_LENGTH :: u32 where "SAHARA_HELLO_LENGTH \<equiv> 0x30"
abbreviation SAHARA_READ_DATA_LENGTH :: u32 where "SAHARA_READ_DATA_LENGTH \<equiv> 0x14"
abbreviation SAHARA_READ_DATA64_LENGTH :: u32 where "SAHARA_READ_DATA64_LENGTH \<equiv> 0x20"
abbreviation SAHARA_END_OF_IMAGE_LENGTH :: u32 where "SAHARA_END_OF_IMAGE_LENGTH \<equiv> 0x10"
abbreviation SAHARA_MEM_READ64_LENGTH :: u32 where "SAHARA_MEM_READ64_LENGTH \<equiv> 0x18"
abbreviation SAHARA_MEM_DEBUG64_LENGTH :: u32 where "SAHARA_MEM_DEBUG64_LENGTH \<equiv> 0x18"
abbreviation SAHARA_DONE_LENGTH :: u32 where "SAHARA_DONE_LENGTH \<equiv> 0x8"
abbreviation SAHARA_DONE_RESP_LENGTH :: u32 where "SAHARA_DONE_RESP_LENGTH \<equiv> 0xc"
abbreviation SAHARA_RESET_LENGTH :: u32 where "SAHARA_RESET_LENGTH \<equiv> 0x8"
abbreviation SAHARA_EXECUTE_LENGTH :: u32 where "SAHARA_EXECUTE_LENGTH \<equiv> 0xc"
abbreviation SAHARA_SWITCH_MODE_LENGTH :: u32 where "SAHARA_SWITCH_MODE_LENGTH \<equiv> 0xc"

abbreviation SAHARA_CMD_TIMEOUT_MS :: nat where "SAHARA_CMD_TIMEOUT_MS \<equiv> 1000"
abbreviation SAHARA_RESET_VERIFY_TIMEOUT_MS :: nat where "SAHARA_RESET_VERIFY_TIMEOUT_MS \<equiv> 3000"

definition MAPPING_SZ :: nat where "MAPPING_SZ = 128"
definition SAHARA_ID_EHOSTDL_IMG :: nat where "SAHARA_ID_EHOSTDL_IMG = 13"

subsection \<open>Packet fields\<close>

abbreviation pkt_cmd :: "u8 list \<Rightarrow> u32" where "pkt_cmd \<equiv> get_le32 0"
abbreviation pkt_length :: "u8 list \<Rightarrow> u32" where "pkt_length \<equiv> get_le32 4"
abbreviation hello_version :: "u8 list \<Rightarrow> u32" where "hello_version \<equiv> get_le32 8"
abbreviation hello_mode :: "u8 list \<Rightarrow> u32" where "hello_mode \<equiv> get_le32 20"
abbreviation read_image :: "u8 list \<Rightarrow> u32" where "read_image \<equiv> get_le32 8"
abbreviation read_offset :: "u8 list \<Rightarrow> u32" where "read_offset \<equiv> get_le32 12"
abbreviation read_length :: "u8 list \<Rightarrow> u32" where "read_length \<equiv> get_le32 16"
abbreviation read64_image :: "u8 list \<Rightarrow> u64" where "read64_image \<equiv> get_le64 8"
abbreviation read64_offset :: "u8 list \<Rightarrow> u64" where "read64_offset \<equiv> get_le64 16"
abbreviation read64_length :: "u8 list \<Rightarrow> u64" where "read64_length \<equiv> get_le64 24"
abbreviation eoi_status :: "u8 list \<Rightarrow> u32" where "eoi_status \<equiv> get_le32 12"
abbreviation done_status :: "u8 list \<Rightarrow> u32" where "done_status \<equiv> get_le32 8"
abbreviation debug64_addr :: "u8 list \<Rightarrow> u64" where "debug64_addr \<equiv> get_le64 8"
abbreviation debug64_length :: "u8 list \<Rightarrow> u64" where "debug64_length \<equiv> get_le64 16"
abbreviation exec_resp_length :: "u8 list \<Rightarrow> u32" where "exec_resp_length \<equiv> get_le32 12"

text \<open>The packets the host builds, as the bytes handed to \<open>qdl_write\<close>.\<close>

definition reset_pkt :: "u8 list" where
  "reset_pkt = put_le32 SAHARA_RESET_CMD @ put_le32 SAHARA_RESET_LENGTH"

definition hello_resp_pkt :: "u32 \<Rightarrow> u32 \<Rightarrow> u8 list" where
  "hello_resp_pkt version mode =
     put_le32 SAHARA_HELLO_RESP_CMD @ put_le32 SAHARA_HELLO_LENGTH @
     put_le32 version @ put_le32 1 @ put_le32 0 @ put_le32 mode @ replicate 24 0"

definition done_pkt :: "u8 list" where
  "done_pkt = put_le32 SAHARA_DONE_CMD @ put_le32 SAHARA_DONE_LENGTH"

definition mem_read64_pkt :: "u64 \<Rightarrow> u64 \<Rightarrow> u8 list" where
  "mem_read64_pkt addr n =
     put_le32 SAHARA_MEM_READ64_CMD @ put_le32 SAHARA_MEM_READ64_LENGTH @ put_le64 addr @ put_le64 n"

definition exec_pkt :: "u32 \<Rightarrow> u32 \<Rightarrow> u8 list" where
  "exec_pkt cmd client =
     put_le32 cmd @ put_le32 SAHARA_EXECUTE_LENGTH @ put_le32 client"

definition switch_mode_pkt :: "u32 \<Rightarrow> u8 list" where
  "switch_mode_pkt mode =
     put_le32 SAHARA_SWITCH_MODE_CMD @ put_le32 SAHARA_SWITCH_MODE_LENGTH @ put_le32 mode"

text \<open>Every packet is as long as its own length field says.\<close>

lemma pkt_lengths [buf_simps]:
  "length reset_pkt = unat SAHARA_RESET_LENGTH"
  "length (hello_resp_pkt v m) = unat SAHARA_HELLO_LENGTH"
  "length done_pkt = unat SAHARA_DONE_LENGTH"
  "length (mem_read64_pkt a n) = unat SAHARA_MEM_READ64_LENGTH"
  "length (exec_pkt c cl) = unat SAHARA_EXECUTE_LENGTH"
  "length (switch_mode_pkt m) = unat SAHARA_SWITCH_MODE_LENGTH"
  by (simp_all add: reset_pkt_def hello_resp_pkt_def done_pkt_def mem_read64_pkt_def exec_pkt_def
      switch_mode_pkt_def)

subsection \<open>Images\<close>

text \<open>\<open>struct sahara_image\<close>; \<open>img_ptr = None\<close> is a NULL pointer.\<close>

record sahara_image =
  img_name :: "string option"
  img_ptr :: "u8 list option"
  img_len :: nat

definition no_image :: sahara_image where
  "no_image = \<lparr>img_name = None, img_ptr = None, img_len = 0\<rparr>"

type_synonym images = "sahara_image list"

text \<open>
  What the loaders establish: an array of \<open>MAPPING_SZ\<close> images, each recorded with the
  length of its content (\<open>load_sahara_image\<close> sets both together).
\<close>

definition image_ok :: "sahara_image \<Rightarrow> bool" where
  "image_ok i \<longleftrightarrow> (case img_ptr i of None \<Rightarrow> True | Some d \<Rightarrow> img_len i = length d)"

definition images_ok :: "images \<Rightarrow> bool" where
  "images_ok imgs \<longleftrightarrow> length imgs = MAPPING_SZ \<and> list_all image_ok imgs"

subsection \<open>Senders\<close>

definition sahara_send_reset :: "'d transport \<Rightarrow> 'd qdl_device \<Rightarrow> 'd qdl_device" where
  "sahara_send_reset T q = snd (qdl_write T q reset_pkt SAHARA_CMD_TIMEOUT_MS)"

definition sahara_send_hello_resp ::
  "'d transport \<Rightarrow> 'd qdl_device \<Rightarrow> u32 \<Rightarrow> u32 \<Rightarrow> int \<times> 'd qdl_device" where
  "sahara_send_hello_resp T q version mode =
     (0, snd (qdl_write T q (hello_resp_pkt version mode) SAHARA_CMD_TIMEOUT_MS))"

definition sahara_send_switch_mode :: "'d transport \<Rightarrow> 'd qdl_device \<Rightarrow> u32 \<Rightarrow> 'd qdl_device" where
  "sahara_send_switch_mode T q mode = snd (qdl_write T q (switch_mode_pkt mode) SAHARA_CMD_TIMEOUT_MS)"

subsection \<open>Handlers\<close>

definition sahara_hello :: "'d transport \<Rightarrow> 'd qdl_device \<Rightarrow> u8 list \<Rightarrow> int \<times> 'd qdl_device" where
  "sahara_hello T q pkt =
     (if pkt_length pkt \<noteq> SAHARA_HELLO_LENGTH then (-1, sahara_send_reset T q)
      else sahara_send_hello_resp T q SAHARA_VERSION (hello_mode pkt))"

text \<open>
  The part \<open>sahara_read\<close> and \<open>sahara_read64\<close> have in common, after the length check:
  \<open>image_idx\<close> is the C variable of type \<open>unsigned int\<close>.
\<close>

definition sahara_send_range ::
  "'d transport \<Rightarrow> 'd qdl_device \<Rightarrow> images option \<Rightarrow> u32 \<Rightarrow> nat \<Rightarrow> nat \<Rightarrow> int \<times> 'd qdl_device" where
  "sahara_send_range T q images image_idx offset len =
     (case images of
        None \<Rightarrow> (-1, sahara_send_reset T q)
      | Some imgs \<Rightarrow>
          if unat image_idx \<ge> MAPPING_SZ then (-1, sahara_send_reset T q)
          else case img_ptr (imgs ! unat image_idx) of
            None \<Rightarrow> (-1, sahara_send_reset T q)
          | Some ptr \<Rightarrow>
              let ilen = img_len (imgs ! unat image_idx) in
              if offset > ilen \<or> len > ilen - offset then (-1, q)
              else case qdl_write T q (sub_buf offset len ptr) SAHARA_CMD_TIMEOUT_MS of
                (ret, q') \<Rightarrow> if ret < 0 \<or> nat ret \<noteq> len then (-1, q') else (0, q'))"

definition sahara_read ::
  "'d transport \<Rightarrow> 'd qdl_device \<Rightarrow> u8 list \<Rightarrow> images option \<Rightarrow> int \<times> 'd qdl_device" where
  "sahara_read T q pkt images =
     (if pkt_length pkt \<noteq> SAHARA_READ_DATA_LENGTH then (-1, sahara_send_reset T q)
      else sahara_send_range T q images (read_image pkt) (unat (read_offset pkt)) (unat (read_length pkt)))"

definition sahara_read64 ::
  "'d transport \<Rightarrow> 'd qdl_device \<Rightarrow> u8 list \<Rightarrow> images option \<Rightarrow> int \<times> 'd qdl_device" where
  "sahara_read64 T q pkt images =
     (if pkt_length pkt \<noteq> SAHARA_READ_DATA64_LENGTH then (-1, sahara_send_reset T q)
      else sahara_send_range T q images (ucast (read64_image pkt))
             (unat (read64_offset pkt)) (unat (read64_length pkt)))"

definition sahara_eoi :: "'d transport \<Rightarrow> 'd qdl_device \<Rightarrow> u8 list \<Rightarrow> int \<times> 'd qdl_device" where
  "sahara_eoi T q pkt =
     (if pkt_length pkt \<noteq> SAHARA_END_OF_IMAGE_LENGTH then (-1, sahara_send_reset T q)
      else if eoi_status pkt \<noteq> 0 then (-1, q)
      else (0, snd (qdl_write T q done_pkt SAHARA_CMD_TIMEOUT_MS)))"

text \<open>The status is returned through an \<open>int\<close>, so its top bit makes it negative.\<close>

definition sahara_done :: "'d transport \<Rightarrow> 'd qdl_device \<Rightarrow> u8 list \<Rightarrow> int \<times> 'd qdl_device" where
  "sahara_done T q pkt =
     (if pkt_length pkt \<noteq> SAHARA_DONE_RESP_LENGTH then (-1, sahara_send_reset T q)
      else (sint (done_status pkt), q))"

definition sahara_has_done_pending_quirk :: "images option \<Rightarrow> bool" where
  "sahara_has_done_pending_quirk images =
     (case images of
        None \<Rightarrow> False
      | Some imgs \<Rightarrow>
          length (filter (\<lambda>i. img_ptr (imgs ! i) \<noteq> None) [0..<MAPPING_SZ]) = 1
          \<and> img_ptr (imgs ! SAHARA_ID_EHOSTDL_IMG) \<noteq> None)"

subsection \<open>The messages of a session\<close>

text \<open>
  What the host may send while it serves images: a control packet, or a slice of one of the
  loaded images.
\<close>

definition image_slice :: "images option \<Rightarrow> u8 list \<Rightarrow> bool" where
  "image_slice images m \<longleftrightarrow>
     (case images of None \<Rightarrow> False
      | Some imgs \<Rightarrow> \<exists>i off n d. i < MAPPING_SZ \<and> img_ptr (imgs ! i) = Some d
            \<and> off + n \<le> img_len (imgs ! i) \<and> m = sub_buf off n d)"

definition sahara_msg :: "images option \<Rightarrow> u8 list \<Rightarrow> bool" where
  "sahara_msg images m \<longleftrightarrow>
     m = reset_pkt \<or> m = done_pkt \<or> (\<exists>v md. m = hello_resp_pkt v md)
     \<or> (\<exists>a n. m = mem_read64_pkt a n) \<or> image_slice images m"

text \<open>
  A predicate on the transport state that reads keep and that writes of acceptable messages
  keep: the shape of every statement about what reaches the device.
\<close>

locale guarded_link =
  fixes T :: "'d transport" and ok :: "'d \<Rightarrow> bool" and msg :: "u8 list \<Rightarrow> bool"
  assumes read_ok: "ok d \<Longrightarrow> ok (snd (tr_read T d n t))"
    and write_ok: "ok d \<Longrightarrow> msg m \<Longrightarrow> ok (snd (tr_write T d m t))"
begin

lemma qdl_write_ok: "ok (link q) \<Longrightarrow> msg m \<Longrightarrow> ok (link (snd (qdl_write T q m t)))"
  using write_ok [of "link q" m t] by (auto simp: qdl_write_def split: prod.splits)

lemma qdl_read_ok: "ok (link q) \<Longrightarrow> ok (link (snd (qdl_read T q n t)))"
  using read_ok [of "link q" n t]
  by (auto simp: qdl_read_def Let_def split: option.splits prod.splits)

end

text \<open>The instance: the transport with a log of everything written to it.\<close>

definition tap :: "'d transport \<Rightarrow> ('d \<times> u8 list list) transport" where
  "tap T = \<lparr>tr_read = (\<lambda>(d, log) n t. case tr_read T d n t of (r, d') \<Rightarrow> (r, (d', log))),
            tr_write = (\<lambda>(d, log) m t. case tr_write T d m t of (r, d') \<Rightarrow> (r, (d', log @ [m])))\<rparr>"

definition log_ok :: "(u8 list \<Rightarrow> bool) \<Rightarrow> 'd \<times> u8 list list \<Rightarrow> bool" where
  "log_ok msg s \<longleftrightarrow> list_all msg (snd s)"

interpretation tapped: guarded_link "tap T" "log_ok msg" msg
  by unfold_locales (auto simp: tap_def log_ok_def split: prod.splits)

lemma link_split: "snd (case (r, q) of (a, b) \<Rightarrow> (f a, b)) = q"
  by simp

text \<open>The senders and handlers only ever send session messages.\<close>

locale sahara_link = guarded_link T ok msg
  for T :: "'d transport" and ok msg +
  fixes images :: "images option"
  assumes session_msg: "sahara_msg images m \<Longrightarrow> msg m"
begin

lemma send_reset_ok: "ok (link q) \<Longrightarrow> ok (link (sahara_send_reset T q))"
  by (simp add: sahara_send_reset_def qdl_write_ok session_msg sahara_msg_def)

lemma send_hello_resp_ok: "ok (link q) \<Longrightarrow> ok (link (snd (sahara_send_hello_resp T q v m)))"
  unfolding sahara_send_hello_resp_def snd_conv
  by (intro qdl_write_ok session_msg) (auto simp: sahara_msg_def)

lemma hello_ok: "ok (link q) \<Longrightarrow> ok (link (snd (sahara_hello T q pkt)))"
  by (simp add: sahara_hello_def send_reset_ok send_hello_resp_ok)

lemma send_range_ok:
  "ok (link q) \<Longrightarrow> ok (link (snd (sahara_send_range T q images idx off n)))"
proof -
  assume q: "ok (link q)"
  have w: "ok (link (snd (qdl_write T q (sub_buf off n d) t)))"
    if "images = Some imgs" "unat idx < MAPPING_SZ" "img_ptr (imgs ! unat idx) = Some d"
       "off + n \<le> img_len (imgs ! unat idx)" for imgs d t
  proof (rule qdl_write_ok [OF q session_msg])
    have "image_slice images (sub_buf off n d)"
      unfolding image_slice_def using that by simp blast
    then show "sahara_msg images (sub_buf off n d)" by (simp add: sahara_msg_def)
  qed
  show ?thesis
    using q w by (auto simp: sahara_send_range_def send_reset_ok Let_def not_le not_less
        split: option.splits prod.splits) (metis le_diff_conv2 add.commute snd_conv)+
qed

lemma eoi_ok: "ok (link q) \<Longrightarrow> ok (link (snd (sahara_eoi T q pkt)))"
  by (simp add: sahara_eoi_def send_reset_ok qdl_write_ok session_msg sahara_msg_def)

lemma done_ok: "ok (link q) \<Longrightarrow> ok (link (snd (sahara_done T q pkt)))"
  by (simp add: sahara_done_def send_reset_ok)

lemma read_pkt_ok: "ok (link q) \<Longrightarrow> ok (link (snd (sahara_read T q pkt images)))"
  by (simp add: sahara_read_def send_reset_ok send_range_ok)

lemma read64_pkt_ok: "ok (link q) \<Longrightarrow> ok (link (snd (sahara_read64 T q pkt images)))"
  by (simp add: sahara_read64_def send_reset_ok send_range_ok)

end

interpretation sahara_tap: sahara_link "tap T" "log_ok (sahara_msg images)" "sahara_msg images" images
  by unfold_locales simp

end
