(* ===== verification/Host.thy ===== *)
theory Host
  imports Prelude
begin

text \<open>
  The host's file system as the code sees it: the content of each path, which paths can be
  opened for writing, the return values of \<open>write\<close> and \<open>fwrite\<close>, and how many blocks one copy of a
  file can write before the disk is full. The operating system decides the latter four, so they are
  fields of the state that no operation changes.
\<close>

record host =
  h_files :: "string \<Rightarrow> u8 list option"
  h_open :: "string \<Rightarrow> bool"
  h_write :: "string \<Rightarrow> nat \<Rightarrow> int"
  h_fwrite :: "string \<Rightarrow> nat \<Rightarrow> bool"
  h_room :: nat

definition h_append :: "host \<Rightarrow> string \<Rightarrow> u8 list \<Rightarrow> host" where
  "h_append h p bs =
     h\<lparr>h_files := (h_files h)(p \<mapsto> (case h_files h p of None \<Rightarrow> bs | Some c \<Rightarrow> c @ bs))\<rparr>"

text \<open>\<open>open(path, O_WRONLY | O_CREAT | O_TRUNC)\<close> and \<open>fopen(path, "wb")\<close>.\<close>

definition h_create :: "host \<Rightarrow> string \<Rightarrow> host option" where
  "h_create h p = (if h_open h p then Some (h\<lparr>h_files := (h_files h)(p \<mapsto> [])\<rparr>) else None)"

text \<open>A loop around \<open>write\<close>, which may write less than it was given.\<close>

function write_all :: "host \<Rightarrow> string \<Rightarrow> u8 list \<Rightarrow> bool \<times> host" where
  "write_all h p bs =
     (if bs = [] then (True, h)
      else let w = h_write h p (length bs)
           in if w \<le> 0 then (False, h)
              else write_all (h_append h p (take (nat w) bs)) p (drop (nat w) bs))"
  by pat_completeness auto
termination
  by (relation "measure (\<lambda>(h, p, bs). length bs)") auto

declare write_all.simps [simp del]

text \<open>One \<open>fwrite\<close> call: all the bytes or an error.\<close>

definition f_write :: "host \<Rightarrow> string \<Rightarrow> u8 list \<Rightarrow> bool \<times> host" where
  "f_write h p bs = (if h_fwrite h p (length bs) then (True, h_append h p bs) else (False, h))"

text \<open>Two hosts agree outside a set of paths.\<close>

definition same_outside :: "string set \<Rightarrow> host \<Rightarrow> host \<Rightarrow> bool" where
  "same_outside P h h' \<longleftrightarrow>
     (\<forall>p. p \<notin> P \<longrightarrow> h_files h' p = h_files h p) \<and> h_open h' = h_open h
     \<and> h_write h' = h_write h \<and> h_fwrite h' = h_fwrite h \<and> h_room h' = h_room h"

lemma same_outside_refl [simp, intro]: "same_outside P h h"
  by (simp add: same_outside_def)

lemma same_outside_trans: "same_outside P h h' \<Longrightarrow> same_outside P h' h'' \<Longrightarrow> same_outside P h h''"
  by (simp add: same_outside_def)

lemma same_outside_mono: "same_outside P h h' \<Longrightarrow> P \<subseteq> Q \<Longrightarrow> same_outside Q h h'"
  by (auto simp: same_outside_def)

lemma h_append_outside [intro]: "p \<in> P \<Longrightarrow> same_outside P h (h_append h p bs)"
  by (auto simp: same_outside_def h_append_def)

lemma h_create_outside: "h_create h p = Some h' \<Longrightarrow> p \<in> P \<Longrightarrow> same_outside P h h'"
  by (auto simp: same_outside_def h_create_def split: if_splits)

lemma f_write_outside: "f_write h p bs = (b, h') \<Longrightarrow> p \<in> P \<Longrightarrow> same_outside P h h'"
  by (auto simp: f_write_def split: if_splits)

lemma write_all_outside: "write_all h p bs = (b, h') \<Longrightarrow> p \<in> P \<Longrightarrow> same_outside P h h'"
proof (induction h p bs arbitrary: b h' rule: write_all.induct)
  case (1 h p bs)
  show ?case
  proof (cases "bs = [] \<or> h_write h p (length bs) \<le> 0")
    case True
    with "1.prems" show ?thesis by (subst (asm) write_all.simps) (auto split: if_splits)
  next
    case False
    let ?n = "nat (h_write h p (length bs))"
    from False "1.prems" have "write_all (h_append h p (take ?n bs)) p (drop ?n bs) = (b, h')"
      by (subst (asm) write_all.simps) (simp add: Let_def)
    with False 1 have "same_outside P (h_append h p (take ?n bs)) h'" by simp
    moreover have "same_outside P h (h_append h p (take ?n bs))" using "1.prems" by blast
    ultimately show ?thesis by (blast intro: same_outside_trans)
  qed
qed

lemma h_append_append: "h_append (h_append h p a) p b = h_append h p (a @ b)"
  by (auto simp: h_append_def split: option.splits)

text \<open>A successful loop has appended exactly the bytes, however short the single writes were.\<close>

lemma write_all_appends:
  assumes "write_all h p bs = (True, h')" "h_files h p \<noteq> None"
  shows "h' = h_append h p bs"
  using assms
proof (induction h p bs arbitrary: h' rule: write_all.induct)
  case (1 h p bs)
  show ?case
  proof (cases "bs = []")
    case True
    with "1.prems" show ?thesis
      by (subst (asm) write_all.simps) (auto simp: h_append_def fun_upd_idem split: option.splits)
  next
    case False
    let ?n = "nat (h_write h p (length bs))"
    from False "1.prems"(1) have w: "\<not> h_write h p (length bs) \<le> 0"
      and r: "write_all (h_append h p (take ?n bs)) p (drop ?n bs) = (True, h')"
      by (subst (asm) write_all.simps; simp add: Let_def split: if_splits)+
    have "h_files (h_append h p (take ?n bs)) p \<noteq> None" by (simp add: h_append_def)
    with 1(1) [OF False refl w r] show ?thesis by (simp add: h_append_append)
  qed
qed

text \<open>A host for examples: no files, every operation succeeds.\<close>

definition ex_host :: host where
  "ex_host = \<lparr>h_files = (\<lambda>_. None), h_open = (\<lambda>_. True), h_write = (\<lambda>_ n. int n), h_fwrite = (\<lambda>_ _. True),
     h_room = 2 ^ 20\<rparr>"

end
