(* ===== verification/SaharaDump.thy ===== *)
theory SaharaDump
  imports SaharaPkt Host
begin

text \<open>
  The memory-dump half of \<open>src/sahara.c\<close>: the region table the device announces, the segment
  filter with its glob matcher, the download of one region (\<open>sahara_debug64_one\<close>), the
  assembly of \<open>minidump.elf\<close> and the handler \<open>sahara_debug64\<close>. The loops that wait for the
  device take a fuel argument and return \<open>None\<close> when it runs out.
\<close>

definition DEBUG_BLOCK_SIZE :: nat where "DEBUG_BLOCK_SIZE = 512 * 1024"

subsection \<open>The region table\<close>

record region =
  rg_addr :: u64
  rg_length :: u64
  rg_region :: string
  rg_filename :: string

text \<open>
  Entry \<open>i\<close> of the table: 64 bytes each, the two name fields of 20 bytes cut at the NUL that
  \<open>sahara_debug64\<close> forces into their last byte.
\<close>

definition region_at :: "u8 list \<Rightarrow> nat \<Rightarrow> region" where
  "region_at tbl i =
     \<lparr>rg_addr = get_le64 (64 * i + 8) tbl, rg_length = get_le64 (64 * i + 16) tbl,
      rg_region = cstr_of (sub_buf (64 * i + 24) 19 tbl),
      rg_filename = cstr_of (sub_buf (64 * i + 44) 19 tbl)\<rparr>"

subsection \<open>The segment filter\<close>

fun pattern_match :: "string \<Rightarrow> string \<Rightarrow> bool" where
  "pattern_match [] [] = True"
| "pattern_match [] (c # s) = False"
| "pattern_match (p # ps) [] = (if p = CHR ''*'' then pattern_match ps [] else False)"
| "pattern_match (p # ps) (c # s) =
     (if p = CHR ''*'' then pattern_match ps (c # s) \<or> pattern_match (p # ps) s
      else if p = CHR ''?'' then pattern_match ps s
      else if p = c then pattern_match ps s else False)"

text \<open>What a pattern means: \<open>*\<close> any run of characters, \<open>?\<close> any one character.\<close>

inductive glob :: "string \<Rightarrow> string \<Rightarrow> bool" where
  glob_nil: "glob [] []"
| glob_star: "glob ps s \<Longrightarrow> glob (CHR ''*'' # ps) (r @ s)"
| glob_any: "glob ps s \<Longrightarrow> glob (CHR ''?'' # ps) (c # s)"
| glob_lit: "p \<noteq> CHR ''*'' \<Longrightarrow> p \<noteq> CHR ''?'' \<Longrightarrow> glob ps s \<Longrightarrow> glob (p # ps) (p # s)"

inductive_cases glob_nilE: "glob [] s"
inductive_cases glob_consE: "glob (p # ps) s"
inductive_simps glob_cons_nil: "glob (p # ps) []"

lemma glob_star_skip: "glob (CHR ''*'' # ps) s \<Longrightarrow> glob (CHR ''*'' # ps) (c # s)"
proof (erule glob_consE)
  fix s' r assume "s = r @ s'" "glob ps s'"
  then show ?thesis using glob_star [of ps s' "c # r"] by simp
qed auto

lemma pattern_match_sound: "pattern_match ps s \<Longrightarrow> glob ps s"
proof (induction ps s rule: pattern_match.induct)
  case (3 p ps)
  then show ?case using glob_star [of ps "[]" "[]"] by (auto split: if_splits)
next
  case (4 p ps c s)
  then show ?case
    using glob_star [of ps "c # s" "[]"] by (auto split: if_splits intro: glob.intros glob_star_skip)
qed (auto intro: glob.intros)

lemma pattern_match_star: "pattern_match ps s \<Longrightarrow> pattern_match (CHR ''*'' # ps) (r @ s)"
proof (induction r)
  case Nil
  then show ?case by (cases s) auto
qed simp

lemma pattern_match_complete: "glob ps s \<Longrightarrow> pattern_match ps s"
  by (induction rule: glob.induct) (auto intro: pattern_match_star)

text \<open>\<open>strrchr\<close> as the index of the last occurrence.\<close>

fun last_index :: "char \<Rightarrow> string \<Rightarrow> nat option" where
  "last_index c [] = None"
| "last_index c (x # xs) =
     (case last_index c xs of Some i \<Rightarrow> Some (Suc i) | None \<Rightarrow> if x = c then Some 0 else None)"

definition dump_stem :: "string \<Rightarrow> string" where
  "dump_stem filename =
     (case last_index (CHR ''.'') filename of
        Some n \<Rightarrow> if n \<noteq> 0 \<and> n < PATH_MAX then take n filename else []
      | None \<Rightarrow> [])"

text \<open>True means the file is left out.\<close>

definition sahara_debug64_filter :: "string \<Rightarrow> string option \<Rightarrow> bool" where
  "sahara_debug64_filter filename filt =
     (case filt of
        None \<Rightarrow> False
      | Some f \<Rightarrow>
          let stem = dump_stem filename in
          \<not> list_ex (\<lambda>s. pattern_match s filename \<or> (stem \<noteq> [] \<and> pattern_match s stem)) (strtok_comma f))"

subsection \<open>Downloading one region\<close>

text \<open>The inner loop: read and append until \<open>remain\<close> bytes of the request have arrived.\<close>

fun dump_chunk :: "nat \<Rightarrow> 'd transport \<Rightarrow> 'd qdl_device \<Rightarrow> host \<Rightarrow> string \<Rightarrow> nat \<Rightarrow> nat
    \<Rightarrow> (bool \<times> 'd qdl_device \<times> host) option" where
  "dump_chunk 0 T q h p remain offset = None"
| "dump_chunk (Suc fuel) T q h p remain offset =
     (if offset < remain then
        (case qdl_read T q DEBUG_BLOCK_SIZE 30000 of
           (Inl e, q') \<Rightarrow> Some (False, q', h)
         | (Inr d, q') \<Rightarrow>
             (case write_all h p d of
                (False, h') \<Rightarrow> Some (False, q', h')
              | (True, h') \<Rightarrow> dump_chunk fuel T q' h' p remain (offset + length d)))
      else Some (True, q, h))"

text \<open>The outer loop over the region; \<open>chunk\<close> is a \<open>size_t\<close>.\<close>

fun dump_region :: "nat \<Rightarrow> 'd transport \<Rightarrow> 'd qdl_device \<Rightarrow> host \<Rightarrow> string \<Rightarrow> region \<Rightarrow> nat
    \<Rightarrow> (bool \<times> 'd qdl_device \<times> host) option" where
  "dump_region 0 T q h p rg chunk = None"
| "dump_region (Suc fuel) T q h p rg chunk =
     (if chunk < unat (rg_length rg) then
        let remain = min (unat (rg_length rg) - chunk) DEBUG_BLOCK_SIZE in
        (case qdl_write T q (mem_read64_pkt (rg_addr rg + of_nat chunk) (of_nat remain)) SAHARA_CMD_TIMEOUT_MS of
           (n, q1) \<Rightarrow>
             if n < 0 then Some (False, q1, h)
             else case dump_chunk fuel T q1 h p remain 0 of
                 None \<Rightarrow> None
               | Some (False, q2, h2) \<Rightarrow> Some (False, q2, h2)
               | Some (True, q2, h2) \<Rightarrow>
                   let q3 = snd (qdl_read T q2 DEBUG_BLOCK_SIZE 10)
                   in dump_region fuel T q3 h2 p rg ((chunk + DEBUG_BLOCK_SIZE) mod 2 ^ 64))
      else Some (True, q, h))"

definition unsafe_name :: "string \<Rightarrow> bool" where
  "unsafe_name s \<longleftrightarrow> s = [] \<or> CHR ''/'' \<in> set s \<or> CHR 0x5C \<in> set s"

definition sahara_debug64_one ::
  "nat \<Rightarrow> 'd transport \<Rightarrow> 'd qdl_device \<Rightarrow> host \<Rightarrow> region \<Rightarrow> string
    \<Rightarrow> (int \<times> 'd qdl_device \<times> host) option" where
  "sahara_debug64_one fuel T q h rg ramdump_path =
     (if unsafe_name (rg_filename rg) then Some (-1, q, h)
      else let path = path_join ramdump_path (rg_filename rg) in
        (case h_create h path of
           None \<Rightarrow> Some (-1, q, h)
         | Some h1 \<Rightarrow>
             (case dump_region fuel T q h1 path rg 0 of
                None \<Rightarrow> None
              | Some (ok, q', h') \<Rightarrow> Some (if ok then 0 else -1, q', h'))))"

subsection \<open>Assembling the minidump\<close>

text \<open>\<open>write_zeroes\<close> and \<open>copy_file_to\<close>, in blocks of 4096 and 65536 bytes.\<close>

function write_zeroes :: "host \<Rightarrow> string \<Rightarrow> nat \<Rightarrow> int \<times> host" where
  "write_zeroes h out count =
     (if count > 0 then
        let chunk = (if count > 4096 then 4096 else count) in
        (case f_write h out (replicate chunk 0) of
           (False, h') \<Rightarrow> (-1, h')
         | (True, h') \<Rightarrow> write_zeroes h' out (count - chunk))
      else (0, h))"
  by pat_completeness auto
termination
  by (relation "measure (\<lambda>(h, out, count). count)") auto

declare write_zeroes.simps [simp del]

text \<open>
  The copy reads the file as it is when each block is read: a region the device has called
  \<open>minidump.elf\<close> is copied onto itself and grows ahead of the reader until the disk is full, which
  \<open>room\<close> blocks make it. A short block sets the end-of-file indicator of the stream, so it is the
  last one. What the streams still buffer is not modelled.
\<close>

fun copy_blocks :: "nat \<Rightarrow> host \<Rightarrow> string \<Rightarrow> string \<Rightarrow> nat \<Rightarrow> int \<times> host" where
  "copy_blocks room h out path pos =
     (let buf = take 65536 (drop pos (case h_files h path of None \<Rightarrow> [] | Some c \<Rightarrow> c)) in
      if buf = [] then (int pos, h)
      else case room of
        0 \<Rightarrow> (-1, h)
      | Suc room' \<Rightarrow>
          (case f_write h out buf of
             (False, h') \<Rightarrow> (-1, h')
           | (True, h') \<Rightarrow>
               if length buf < 65536 then (int (pos + length buf), h')
               else copy_blocks room' h' out path (pos + length buf)))"

declare copy_blocks.simps [simp del]

definition copy_file_to :: "host \<Rightarrow> string \<Rightarrow> string \<Rightarrow> int \<times> host" where
  "copy_file_to h out path =
     (if h_files h path = None then (-1, h) else copy_blocks (h_room h) h out path 0)"

definition elf_ident_ok :: "u8 list \<Rightarrow> bool" where
  "elf_ident_ok k \<longleftrightarrow> take 4 k = [0x7f, 0x45, 0x4c, 0x46]"

abbreviation e_phoff :: "u8 list \<Rightarrow> nat" where "e_phoff k \<equiv> unat (get_le64 32 k)"
abbreviation e_phnum :: "u8 list \<Rightarrow> nat" where "e_phnum k \<equiv> unat (get_le16 56 k)"

text \<open>The check of the ELF core header, in the order of the source.\<close>

definition kelf_ok :: "u8 list \<Rightarrow> bool" where
  "kelf_ok k \<longleftrightarrow>
     \<not> (length k < 64 \<or> \<not> elf_ident_ok k \<or> get_le16 16 k \<noteq> 4 \<or> get_le16 54 k \<noteq> 56
        \<or> e_phoff k > length k \<or> e_phnum k * 56 > length k - e_phoff k)"

definition p_type :: "u8 list \<Rightarrow> nat \<Rightarrow> u32" where "p_type k j = get_le32 (e_phoff k + 56 * j) k"
definition p_paddr :: "u8 list \<Rightarrow> nat \<Rightarrow> u64" where "p_paddr k j = get_le64 (e_phoff k + 56 * j + 24) k"
definition p_filesz :: "u8 list \<Rightarrow> nat \<Rightarrow> u64" where "p_filesz k j = get_le64 (e_phoff k + 56 * j + 32) k"

abbreviation PT_LOAD :: u32 where "PT_LOAD \<equiv> 1"

definition find_index :: "('a \<Rightarrow> bool) \<Rightarrow> 'a list \<Rightarrow> nat option" where
  "find_index P xs = find (\<lambda>i. P (xs ! i)) [0..<length xs]"

definition vmcore_region :: "u8 list \<Rightarrow> region list \<Rightarrow> nat \<Rightarrow> nat option" where
  "vmcore_region k table kelf_idx =
     find (\<lambda>i. \<not> (i = kelf_idx \<or> take 4 (rg_region (table ! i)) \<noteq> ''md_K'')
            \<and> \<not> list_ex (\<lambda>j. p_type k j = PT_LOAD \<and> p_paddr k j = rg_addr (table ! i)) [0..<e_phnum k])
          [0..<length table]"

text \<open>
  The PT_LOAD loop: each segment takes the first region with its physical address; a missing
  file is skipped, a short one is padded with zeroes. \<open>False\<close> is the jump to \<open>out_close\<close>.
\<close>

fun write_segments :: "host \<Rightarrow> string \<Rightarrow> string \<Rightarrow> u8 list \<Rightarrow> region list \<Rightarrow> nat list \<Rightarrow> bool \<times> host" where
  "write_segments h out dir k table [] = (True, h)"
| "write_segments h out dir k table (j # js) =
     (if p_type k j \<noteq> PT_LOAD then write_segments h out dir k table js
      else case find (\<lambda>r. rg_addr r = p_paddr k j) table of
          None \<Rightarrow> write_segments h out dir k table js
        | Some r \<Rightarrow>
            (case copy_file_to h out (path_join dir (rg_filename r)) of
               (written, h1) \<Rightarrow>
                 if written < 0 then write_segments h1 out dir k table js
                 else if nat written < unat (p_filesz k j) then
                   (case write_zeroes h1 out (unat (p_filesz k j) - nat written) of
                      (z, h2) \<Rightarrow> if z \<noteq> 0 then (False, h2) else write_segments h2 out dir k table js)
                 else write_segments h1 out dir k table js))"

text \<open>The part after the header check: create the output file and write its pieces.\<close>

definition write_minidump :: "host \<Rightarrow> string \<Rightarrow> u8 list \<Rightarrow> region list \<Rightarrow> nat \<Rightarrow> host" where
  "write_minidump h dir k table kelf_idx =
     (let out = path_join dir ''minidump.elf'' in
      (case h_create h out of
         None \<Rightarrow> h
       | Some h1 \<Rightarrow>
           (case f_write h1 out k of
              (False, h2) \<Rightarrow> h2
            | (True, h2) \<Rightarrow>
                let h3 = (case vmcore_region k table kelf_idx of
                      None \<Rightarrow> h2
                    | Some v \<Rightarrow> snd (copy_file_to h2 out (path_join dir (rg_filename (table ! v)))))
                in snd (write_segments h3 out dir k table [0..<e_phnum k]))))"

definition sahara_build_minidump_elf :: "host \<Rightarrow> string \<Rightarrow> string option \<Rightarrow> region list \<Rightarrow> host" where
  "sahara_build_minidump_elf h dir filt table =
     (case find_index (\<lambda>r. take 7 (rg_region r) = ''md_KELF'') table of
        None \<Rightarrow> h
      | Some ki \<Rightarrow>
          if sahara_debug64_filter (rg_filename (table ! ki)) filt then h
          else case h_files h (path_join dir (rg_filename (table ! ki))) of
            None \<Rightarrow> h
          | Some k \<Rightarrow>
              if length k = 0 then h
              else if \<not> kelf_ok k then h
              else write_minidump h dir k table ki)"

subsection \<open>The MEM_DEBUG64 handler\<close>

fun dump_regions :: "nat \<Rightarrow> 'd transport \<Rightarrow> 'd qdl_device \<Rightarrow> host \<Rightarrow> string \<Rightarrow> string option \<Rightarrow> region list
    \<Rightarrow> ('d qdl_device \<times> host) option" where
  "dump_regions fuel T q h dir filt [] = Some (q, h)"
| "dump_regions fuel T q h dir filt (r # rs) =
     (if sahara_debug64_filter (rg_filename r) filt then dump_regions fuel T q h dir filt rs
      else case sahara_debug64_one fuel T q h r dir of
          None \<Rightarrow> None
        | Some (n, q', h') \<Rightarrow> if n < 0 then Some (q', h') else dump_regions fuel T q' h' dir filt rs)"

definition sahara_debug64 ::
  "nat \<Rightarrow> 'd transport \<Rightarrow> 'd qdl_device \<Rightarrow> host \<Rightarrow> u8 list \<Rightarrow> string \<Rightarrow> string option
    \<Rightarrow> ('d qdl_device \<times> host) option" where
  "sahara_debug64 fuel T q h pkt ramdump_path filt =
     (if pkt_length pkt \<noteq> SAHARA_MEM_DEBUG64_LENGTH then Some (sahara_send_reset T q, h)
      else case qdl_write T q (mem_read64_pkt (debug64_addr pkt) (debug64_length pkt)) SAHARA_CMD_TIMEOUT_MS of
        (n, q1) \<Rightarrow>
          if n < 0 then Some (q1, h)
          else if unat (debug64_length pkt) > 64 * 1024 then Some (q1, h)
          else case qdl_read T q1 (unat (debug64_length pkt)) SAHARA_CMD_TIMEOUT_MS of
              (Inl e, q2) \<Rightarrow> Some (q2, h)
            | (Inr d, q2) \<Rightarrow>
                let tbl = memcpy_at (replicate (unat (debug64_length pkt)) 0) 0 d;
                    table = map (region_at tbl) [0..<length d div 64]
                in case dump_regions fuel T q2 h ramdump_path filt table of
                    None \<Rightarrow> None
                  | Some (q3, h3) \<Rightarrow>
                      Some (sahara_send_reset T q3, sahara_build_minidump_elf h3 ramdump_path filt table))"

subsection \<open>Where a dump writes\<close>

text \<open>The files a dump into \<open>dir\<close> may touch: direct children of \<open>dir\<close>.\<close>

definition dump_paths :: "string \<Rightarrow> string set" where
  "dump_paths dir = {path_join dir f | f. \<not> unsafe_name f}"

lemma dump_pathsI [intro]: "\<not> unsafe_name f \<Longrightarrow> path_join dir f \<in> dump_paths dir"
  by (auto simp: dump_paths_def)

lemma minidump_path [intro, simp]: "path_join dir ''minidump.elf'' \<in> dump_paths dir"
  by (rule dump_pathsI) (simp add: unsafe_name_def)

lemma dump_chunk_outside:
  "dump_chunk fuel T q h p remain offset = Some (b, q', h') \<Longrightarrow> same_outside {p} h h'"
proof (induction fuel T q h p remain offset arbitrary: b q' h' rule: dump_chunk.induct)
  case (2 fuel T q h p remain offset)
  then show ?case
    by (auto split: if_splits prod.splits sum.splits bool.splits
        dest: write_all_outside [where P = "{p}"] intro: same_outside_trans)
qed simp

lemma dump_region_outside:
  "dump_region fuel T q h p rg chunk = Some (b, q', h') \<Longrightarrow> same_outside {p} h h'"
proof (induction fuel T q h p rg chunk arbitrary: b q' h' rule: dump_region.induct)
  case (2 fuel T q h p rg chunk)
  then show ?case
    by (auto simp: Let_def split: if_splits prod.splits option.splits bool.splits
        dest!: dump_chunk_outside intro: same_outside_trans)
qed simp

lemma debug64_one_outside:
  assumes "sahara_debug64_one fuel T q h rg dir = Some (n, q', h')"
  shows "same_outside (dump_paths dir) h h'"
proof (cases "unsafe_name (rg_filename rg)")
  case True
  with assms show ?thesis by (simp add: sahara_debug64_one_def)
next
  case False
  let ?p = "path_join dir (rg_filename rg)"
  have p: "?p \<in> dump_paths dir" using False by blast
  show ?thesis
  proof (cases "h_create h ?p")
    case None
    with assms False show ?thesis by (simp add: sahara_debug64_one_def)
  next
    case (Some h1)
    with assms False obtain b where "dump_region fuel T q h1 ?p rg 0 = Some (b, q', h')"
      by (auto simp: sahara_debug64_one_def split: option.splits)
    then have "same_outside {?p} h1 h'" by (rule dump_region_outside)
    then have "same_outside (dump_paths dir) h1 h'" using p by (auto elim: same_outside_mono)
    then show ?thesis using h_create_outside [OF Some p] by (blast intro: same_outside_trans)
  qed
qed

lemma write_zeroes_outside:
  "write_zeroes h out n = (r, h') \<Longrightarrow> out \<in> P \<Longrightarrow> same_outside P h h'"
proof (induction h out n arbitrary: r h' rule: write_zeroes.induct)
  case (1 h out count)
  then show ?case
    by (subst (asm) (2) write_zeroes.simps)
      (auto simp: Let_def split: if_splits prod.splits bool.splits
        dest: f_write_outside intro: same_outside_trans)
qed

lemma copy_blocks_outside:
  "copy_blocks room h out path pos = (r, h') \<Longrightarrow> out \<in> P \<Longrightarrow> same_outside P h h'"
proof (induction room h out path pos arbitrary: r h' rule: copy_blocks.induct)
  case (1 room h out path pos)
  then show ?case
    by (subst (asm) (2) copy_blocks.simps)
      (auto simp: Let_def split: if_splits prod.splits bool.splits nat.splits
        dest: f_write_outside intro: same_outside_trans)
qed

text \<open>A copy to another file appends the whole file, when the disk has room and the writes succeed.\<close>

lemma copy_blocks_appends:
  assumes "path \<noteq> out" "\<And>n. h_fwrite h out n"
  shows "h_files h path = Some c \<Longrightarrow> h_files h out = Some x \<Longrightarrow> length c \<le> pos + 65536 * room \<Longrightarrow> pos \<le> length c \<Longrightarrow>
    copy_blocks room h out path pos = (int (length c), if pos = length c then h else h_append h out (drop pos c))"
  using assms(2)
proof (induction room arbitrary: h pos x)
  case 0
  then show ?case by (subst copy_blocks.simps) simp
next
  case (Suc room)
  let ?buf = "take 65536 (drop pos c)"
  have w: "f_write h out ?buf = (True, h_append h out ?buf)" using Suc.prems(5) by (simp add: f_write_def)
  have keep: "h_files (h_append h out ?buf) path = Some c" "\<exists>y. h_files (h_append h out ?buf) out = Some y"
    "\<And>n. h_fwrite (h_append h out ?buf) out n"
    using Suc.prems(1,2,5) assms(1) by (auto simp: h_append_def)
  show ?case
  proof (cases "65536 \<le> length c - pos")
    case True
    then have l: "length ?buf = 65536" "?buf \<noteq> []" by auto
    obtain y where y: "h_files (h_append h out ?buf) out = Some y" using keep(2) by blast
    have "copy_blocks room (h_append h out ?buf) out path (pos + 65536)
        = (int (length c), if pos + 65536 = length c then h_append h out ?buf
            else h_append (h_append h out ?buf) out (drop (pos + 65536) c))"
      using Suc.IH [OF keep(1) y _ _ keep(3), of "pos + 65536"] Suc.prems(3,4) True by simp
    moreover have "?buf @ drop (pos + 65536) c = drop pos c"
      by (metis add.commute append_take_drop_id drop_drop)
    ultimately show ?thesis
      using w l True Suc.prems(1) by (subst copy_blocks.simps) (auto simp: h_append_append Let_def)
  next
    case False
    then have t: "?buf = drop pos c" by simp
    have "length (drop pos c) < 65536" using False by simp
    then show ?thesis using w Suc.prems(1,4) unfolding t
      by (subst copy_blocks.simps) (auto simp: t Let_def)
  qed
qed

text \<open>A copy of a long file to itself only ends when the disk is full.\<close>

lemma copy_blocks_self:
  "h_files h out = Some c \<Longrightarrow> pos + 65536 \<le> length c \<Longrightarrow> (\<And>n. h_fwrite h out n) \<Longrightarrow>
   fst (copy_blocks room h out out pos) = -1"
proof (induction room arbitrary: h pos c)
  case 0
  then have "drop pos c \<noteq> []" by simp
  then show ?case using 0(1) by (subst copy_blocks.simps) simp
next
  case (Suc room)
  let ?buf = "take 65536 (drop pos c)"
  have l: "length ?buf = 65536" using Suc.prems(2) by simp
  then have ne: "?buf \<noteq> []" by (metis list.size(3) zero_neq_numeral)
  have w: "f_write h out ?buf = (True, h_append h out ?buf)" using Suc.prems(3) by (simp add: f_write_def)
  have f: "h_files (h_append h out ?buf) out = Some (c @ ?buf)" using Suc.prems(1) by (simp add: h_append_def)
  have "h_fwrite (h_append h out ?buf) out n" for n using Suc.prems(3) by (simp add: h_append_def)
  moreover have "pos + 65536 + 65536 \<le> length (c @ ?buf)" using Suc.prems(2) l by simp
  ultimately have "fst (copy_blocks room (h_append h out ?buf) out out (pos + 65536)) = -1"
    using Suc.IH [OF f] by blast
  then show ?case using Suc.prems(1) w l ne by (subst copy_blocks.simps) (simp add: Let_def del: length_take)
qed

lemma minidump_copies_itself:
  assumes "h_files h out = Some c" "65536 \<le> length c" "\<And>n. h_fwrite h out n"
  shows "fst (copy_file_to h out out) = -1"
  using copy_blocks_self [OF assms(1), of 0] assms by (simp add: copy_file_to_def)

lemma copy_file_outside:
  "copy_file_to h out path = (r, h') \<Longrightarrow> out \<in> P \<Longrightarrow> same_outside P h h'"
  by (auto simp: copy_file_to_def split: if_splits dest: copy_blocks_outside)

lemma write_segments_outside:
  "write_segments h out dir k table js = (r, h') \<Longrightarrow> out \<in> P \<Longrightarrow> same_outside P h h'"
proof (induction js arbitrary: h)
  case (Cons j js)
  have copy: "same_outside P h h1" if "copy_file_to h out f = (w, h1)" for f w h1
    using copy_file_outside [OF that Cons.prems(2)] .
  have pad: "same_outside P h1 h2" if "write_zeroes h1 out n = (z, h2)" for h1 n z h2
    using write_zeroes_outside [OF that Cons.prems(2)] .
  have rest: "same_outside P h1 h'" if "write_segments h1 out dir k table js = (r, h')" for h1
    using Cons.IH [OF that Cons.prems(2)] .
  show ?case
    using Cons.prems(1) copy pad rest
    by (auto split: if_splits prod.splits option.splits) (meson same_outside_trans)+
qed simp

lemma build_minidump_outside:
  "same_outside (dump_paths dir) h (sahara_build_minidump_elf h dir filt table)"
proof -
  let ?out = "path_join dir ''minidump.elf''" and ?P = "dump_paths dir"
  have "same_outside ?P h (write_minidump h dir k table ki)" for k ki
  proof (cases "h_create h ?out")
    case None
    then show ?thesis by (simp add: write_minidump_def)
  next
    case (Some h1)
    obtain b h2 where w: "f_write h1 ?out k = (b, h2)" by fastforce
    define h3 where "h3 = (case vmcore_region k table ki of None \<Rightarrow> h2
        | Some v \<Rightarrow> snd (copy_file_to h2 ?out (path_join dir (rg_filename (table ! v)))))"
    have 3: "same_outside ?P h2 h3"
      by (auto simp: h3_def split: option.splits intro: copy_file_outside [OF prod.collapse [symmetric]])
    have 4: "same_outside ?P h3 (snd (write_segments h3 ?out dir k table [0..<e_phnum k]))"
      by (rule write_segments_outside [OF prod.collapse [symmetric]]) simp
    have 12: "same_outside ?P h h2"
      using h_create_outside [OF Some minidump_path] f_write_outside [OF w minidump_path]
      by (rule same_outside_trans)
    show ?thesis
    proof (cases b)
      case True
      then have "write_minidump h dir k table ki = snd (write_segments h3 ?out dir k table [0..<e_phnum k])"
        by (simp add: write_minidump_def Some w h3_def Let_def)
      then show ?thesis using 12 3 4 by (metis same_outside_trans)
    next
      case False
      then show ?thesis using 12 by (simp add: write_minidump_def Some w Let_def)
    qed
  qed
  then show ?thesis
    by (auto simp: sahara_build_minidump_elf_def split: option.splits)
qed

lemma dump_regions_outside:
  "dump_regions fuel T q h dir filt rs = Some (q', h') \<Longrightarrow> same_outside (dump_paths dir) h h'"
proof (induction rs arbitrary: q h)
  case (Cons r rs)
  then show ?case
    by (auto split: if_splits option.splits prod.splits dest: debug64_one_outside)
      (meson debug64_one_outside same_outside_trans)
qed simp

lemma debug64_outside:
  assumes "sahara_debug64 fuel T q h pkt dir filt = Some (q', h')"
  shows "same_outside (dump_paths dir) h h'"
  using assms
  by (auto simp: sahara_debug64_def Let_def split: if_splits prod.splits sum.splits option.splits
      dest!: dump_regions_outside intro: same_outside_trans build_minidump_outside)

subsection \<open>The messages of a dump\<close>

text \<open>Steps of the dump loops keep any guarded-link predicate: they send read requests and resets.\<close>

context sahara_link
begin

lemma mem_read64_msg [simp]: "msg (mem_read64_pkt a n)"
  by (rule session_msg) (auto simp: sahara_msg_def)

lemma dump_chunk_ok:
  "dump_chunk fuel T q h p remain offset = Some (b, q', h') \<Longrightarrow> ok (link q) \<Longrightarrow> ok (link q')"
proof (induction fuel arbitrary: q h offset)
  case (Suc fuel)
  have rd: "ok (link q1)" if "qdl_read T q DEBUG_BLOCK_SIZE 30000 = (x, q1)" for x q1
    using qdl_read_ok [OF Suc.prems(2), of DEBUG_BLOCK_SIZE 30000] that by simp
  show ?case
    using Suc.prems rd by (auto split: if_splits prod.splits sum.splits bool.splits intro: Suc.IH)
qed simp

lemma dump_region_ok:
  "dump_region fuel T q h p rg chunk = Some (b, q', h') \<Longrightarrow> ok (link q) \<Longrightarrow> ok (link q')"
proof (induction fuel arbitrary: q h chunk)
  case (Suc fuel)
  have wr: "ok (link q1)" if "qdl_write T q (mem_read64_pkt a n) t = (x, q1)" for a n t x q1
    using qdl_write_ok [OF Suc.prems(2), of "mem_read64_pkt a n" t] that
    by auto
  show ?case
    using Suc.prems
    by (auto simp: Let_def split: if_splits prod.splits option.splits bool.splits
        dest!: wr intro: Suc.IH qdl_read_ok dest: dump_chunk_ok)
qed simp

lemma dump_regions_ok:
  "dump_regions fuel T q h dir filt rs = Some (q', h') \<Longrightarrow> ok (link q) \<Longrightarrow> ok (link q')"
proof (induction rs arbitrary: q h)
  case (Cons r rs)
  have one: "ok (link q1)" if "sahara_debug64_one fuel T q h r dir = Some (n, q1, h1)" for n q1 h1
    using that Cons.prems(2)
    by (auto simp: sahara_debug64_one_def Let_def split: if_splits option.splits prod.splits
        dest: dump_region_ok)
  show ?case
    using Cons.prems one by (auto split: if_splits option.splits prod.splits intro: Cons.IH)
qed simp

lemma debug64_ok:
  assumes "sahara_debug64 fuel T q h pkt dir filt = Some (q', h')" "ok (link q)"
  shows "ok (link q')"
proof -
  have wr: "ok (link q1)" if "qdl_write T q (mem_read64_pkt a n) t = (x, q1)" for a n t x q1
    using qdl_write_ok [OF assms(2), of "mem_read64_pkt a n" t] that
    by auto
  have rd: "ok (link q2)" if "qdl_read T q1 n t = (x, q2)" "ok (link q1)" for q1 n t x q2
    using qdl_read_ok [OF that(2), of n t] that(1) by simp
  show ?thesis
    using assms
    by (auto simp: sahara_debug64_def Let_def split: if_splits prod.splits sum.splits option.splits
        dest!: wr intro!: send_reset_ok dest: rd dump_regions_ok)
qed

end

end
