(* ===== verification/Sahara.thy ===== *)
theory Sahara
  imports SaharaDump
begin

text \<open>
  The sessions of \<open>src/sahara.c\<close>: the image-transfer loop \<open>sahara_run\<close>, the command-mode
  queries behind \<open>sahara_chipinfo\<close> and the reset sequence \<open>sahara_device_reset\<close>. The stack
  buffer \<open>buf\<close> of each session is kept as a byte list that reads overwrite from the front, so a
  short packet leaves the bytes of an earlier one behind it, as in the code; its initial
  content is a parameter. What the code prints is returned where it carries information.
\<close>

subsection \<open>Helpers of command mode\<close>

text \<open>\<open>sahara_hexstr\<close>: the characters stored before the terminating NUL.\<close>

definition hex_digit :: "nat \<Rightarrow> char" where
  "hex_digit d = ''0123456789abcdef'' ! d"

fun hex_loop :: "u8 list \<Rightarrow> nat \<Rightarrow> nat \<Rightarrow> string" where
  "hex_loop [] i out_sz = []"
| "hex_loop (b # bs) i out_sz =
     (if 2 * i + 2 < out_sz
      then hex_digit (unat b div 16) # hex_digit (unat b mod 16) # hex_loop bs (Suc i) out_sz
      else [])"

definition sahara_hexstr :: "u8 list \<Rightarrow> nat \<Rightarrow> string" where
  "sahara_hexstr buf out_sz = hex_loop buf 0 out_sz"

text \<open>\<open>sahara_pkhash_trim\<close>: first repetition, trailing zeroes, rounding up.\<close>

definition pkhash_period :: "u8 list \<Rightarrow> nat" where
  "pkhash_period buf =
     (case find (\<lambda>i. take i buf = take i (drop i buf)) [4..<length buf div 2 + 1] of
        Some i \<Rightarrow> i | None \<Rightarrow> length buf)"

fun strip_zeroes :: "u8 list \<Rightarrow> nat \<Rightarrow> nat" where
  "strip_zeroes buf 0 = 0"
| "strip_zeroes buf (Suc n) = (if buf ! n = 0 then strip_zeroes buf n else Suc n)"

definition digest_sizes :: "nat list" where
  "digest_sizes = [32, 48, 64]"

definition round_up_digest :: "nat \<Rightarrow> nat \<Rightarrow> nat" where
  "round_up_digest s m =
     (case find (\<lambda>e. s \<le> e \<and> e \<le> m) digest_sizes of Some e \<Rightarrow> e | None \<Rightarrow> s)"

definition sahara_pkhash_trim :: "u8 list \<Rightarrow> nat" where
  "sahara_pkhash_trim buf = round_up_digest (strip_zeroes buf (pkhash_period buf)) (length buf)"

text \<open>\<open>sahara_read_payload\<close>: stops early on an empty read, fails on an error.\<close>

function sahara_read_payload ::
  "'d transport \<Rightarrow> 'd qdl_device \<Rightarrow> nat \<Rightarrow> u8 list \<Rightarrow> u8 list option \<times> 'd qdl_device" where
  "sahara_read_payload T q len got =
     (if length got < len then
        (case qdl_read T q (len - length got) SAHARA_CMD_TIMEOUT_MS of
           (Inl e, q') \<Rightarrow> (None, q')
         | (Inr d, q') \<Rightarrow> if d = [] then (Some got, q') else sahara_read_payload T q' len (got @ d))
      else (Some got, q))"
  by pat_completeness auto
termination
  by (relation "measure (\<lambda>(T, q, len, got). len - length got)") (auto intro!: diff_less_mono2)

declare sahara_read_payload.simps [simp del]

definition sahara_command_exec ::
  "'d transport \<Rightarrow> 'd qdl_device \<Rightarrow> u32 \<Rightarrow> nat \<Rightarrow> u8 list option \<times> 'd qdl_device" where
  "sahara_command_exec T q client_cmd buf_len =
     (case qdl_write T q (exec_pkt SAHARA_EXECUTE_CMD client_cmd) SAHARA_CMD_TIMEOUT_MS of
        (w, q1) \<Rightarrow>
          if w < 0 then (None, q1)
          else case qdl_read T q1 64 SAHARA_CMD_TIMEOUT_MS of
            (Inl e, q2) \<Rightarrow> (None, q2)
          | (Inr rx, q2) \<Rightarrow>
              if length rx < 16 \<or> pkt_cmd rx \<noteq> SAHARA_EXECUTE_RESP_CMD then (None, q2)
              else let data_len = unat (exec_resp_length rx) in
                if data_len = 0 \<or> data_len > buf_len then (None, q2)
                else (case qdl_write T q2 (exec_pkt SAHARA_EXECUTE_DATA_CMD client_cmd) SAHARA_CMD_TIMEOUT_MS of
                  (w2, q3) \<Rightarrow>
                    if w2 < 0 then (None, q3)
                    else (case sahara_read_payload T q3 data_len [] of
                      (None, q4) \<Rightarrow> (None, q4)
                    | (Some d, q4) \<Rightarrow>
                        if length d < data_len then (None, q4) else (Some (take data_len d), q4))))"

text \<open>The chip identity \<open>sahara_command_info\<close> prints.\<close>

record chip_info =
  ci_version :: u32
  ci_serial :: "u32 option"
  ci_hwid :: "(u64 \<times> u32 \<times> u32 \<times> u32) option"
  ci_pkhash :: "string option"

definition hwid_legacy :: "u8 list \<Rightarrow> u64 \<times> u32 \<times> u32 \<times> u32" where
  "hwid_legacy p =
     (let hwid = get_le64 0 p
      in (hwid, ucast (drop_bit 32 hwid), ucast (drop_bit 16 hwid AND 0xffff), ucast (hwid AND 0xffff)))"

definition hwid_v3 :: "u8 list \<Rightarrow> u64 \<times> u32 \<times> u32 \<times> u32" where
  "hwid_v3 p =
     (let msm_id = get_le32 36 p;
          oem0 = (ucast (get_le16 40 p) :: u32);
          model_id = (ucast (get_le16 42 p) :: u32);
          oem_id = (if oem0 = 0 \<and> length p \<ge> 46 then ucast (get_le16 44 p) else oem0);
          hwid = (push_bit 32 (ucast msm_id) OR push_bit 16 (ucast oem_id) OR ucast model_id)
      in (hwid, msm_id, oem_id, model_id))"

definition sahara_command_info ::
  "'d transport \<Rightarrow> 'd qdl_device \<Rightarrow> u32 \<Rightarrow> (int \<times> chip_info) \<times> 'd qdl_device" where
  "sahara_command_info T q version =
     (case sahara_command_exec T q 0x01 512 of
        (p1, q1) \<Rightarrow>
          let serial = (case p1 of Some p \<Rightarrow> if length p \<ge> 4 then Some (get_le32 0 p) else None | None \<Rightarrow> None) in
          (case (if version < 3 then sahara_command_exec T q1 0x02 512
                 else sahara_command_exec T q1 0x0a 512) of
             (p2, q2) \<Rightarrow>
               let hwid = (if version < 3
                     then (case p2 of Some p \<Rightarrow> if length p \<ge> 8 then Some (hwid_legacy p) else None | None \<Rightarrow> None)
                     else (case p2 of Some p \<Rightarrow> if length p \<ge> 44 then Some (hwid_v3 p) else None | None \<Rightarrow> None)) in
               (case sahara_command_exec T q2 0x03 512 of
                  (p3, q3) \<Rightarrow>
                    let pkhash = (case p3 of
                          Some p \<Rightarrow> if length p > 0
                            then Some (sahara_hexstr (take (sahara_pkhash_trim p) p) (2 * 512 + 1)) else None
                        | None \<Rightarrow> None);
                        info = \<lparr>ci_version = version, ci_serial = serial, ci_hwid = hwid, ci_pkhash = pkhash\<rparr>
                    in ((if serial = None \<and> hwid = None \<and> pkhash = None then -1 else 0, info), q3))))"

abbreviation xml_banner :: "u8 list" where
  "xml_banner \<equiv> [0x3c, 0x3f, 0x78, 0x6d, 0x6c]"

definition is_firehose_banner :: "nat \<Rightarrow> u8 list \<Rightarrow> bool" where
  "is_firehose_banner n buf \<longleftrightarrow> n \<ge> 5 \<and> take 5 buf = xml_banner"

text \<open>\<open>sahara_chipinfo\<close> after a command-mode HELLO response has been sent.\<close>

definition chipinfo_ready ::
  "'d transport \<Rightarrow> 'd qdl_device \<Rightarrow> u8 list \<Rightarrow> u32 \<Rightarrow> (int \<times> chip_info option) \<times> 'd qdl_device" where
  "chipinfo_ready T q buf version =
     (case qdl_read T q 4096 SAHARA_CMD_TIMEOUT_MS of
        (Inl e, q1) \<Rightarrow> ((-1, None), q1)
      | (Inr d, q1) \<Rightarrow>
          if pkt_cmd (memcpy_at buf 0 d) \<noteq> SAHARA_CMD_READY_CMD then ((-1, None), q1)
          else case sahara_command_info T q1 version of
            ((ret, info), q2) \<Rightarrow>
              ((ret, if ret = 0 then Some info else None),
               sahara_send_switch_mode T q2 SAHARA_MODE_IMAGE_TX_PENDING))"

definition sahara_chipinfo ::
  "'d transport \<Rightarrow> 'd qdl_device \<Rightarrow> u8 list \<Rightarrow> (int \<times> chip_info option) \<times> 'd qdl_device" where
  "sahara_chipinfo T q stk =
     (if dev_type q = QDL_DEVICE_SIM then ((0, None), q)
      else case qdl_read T q 4096 SAHARA_CMD_TIMEOUT_MS of
        (Inl e, q1) \<Rightarrow>
          if e \<noteq> - ETIMEDOUT \<or> (dev_type q \<noteq> QDL_DEVICE_QUD \<and> dev_type q \<noteq> QDL_DEVICE_AUTO)
          then ((-1, None), q1)
          else chipinfo_ready T (snd (sahara_send_hello_resp T q1 SAHARA_VERSION SAHARA_MODE_COMMAND))
                 stk SAHARA_VERSION
      | (Inr d, q1) \<Rightarrow>
          let buf = memcpy_at stk 0 d in
          if is_firehose_banner (length d) buf then ((-1, None), q1)
          else if of_nat (length d) \<noteq> pkt_length buf \<or> pkt_cmd buf \<noteq> SAHARA_HELLO_CMD then ((-1, None), q1)
          else chipinfo_ready T
                 (snd (sahara_send_hello_resp T q1 (hello_version buf) SAHARA_MODE_COMMAND))
                 buf (hello_version buf))"

subsection \<open>Resetting the device\<close>

datatype reset_outcome = Reset_acked | Reset_rejected | Reset_exhausted

text \<open>The retry loop: \<open>k\<close> attempts are left.\<close>

fun reset_loop :: "nat \<Rightarrow> 'd transport \<Rightarrow> 'd qdl_device \<Rightarrow> u8 list \<Rightarrow> reset_outcome \<times> 'd qdl_device" where
  "reset_loop 0 T q buf = (Reset_exhausted, q)"
| "reset_loop (Suc k) T q buf =
     (case qdl_read T (sahara_send_reset T q) 4096 SAHARA_CMD_TIMEOUT_MS of
        (Inl e, q') \<Rightarrow> if e \<noteq> - ETIMEDOUT then (Reset_acked, q') else reset_loop k T q' buf
      | (Inr d, q') \<Rightarrow>
          let buf' = memcpy_at buf 0 d in
          if length d < 8 then reset_loop k T q' buf'
          else if pkt_cmd buf' = SAHARA_RESET_RESP_CMD then (Reset_acked, q')
          else if pkt_cmd buf' = SAHARA_END_OF_IMAGE_CMD then (Reset_rejected, q')
          else reset_loop k T q' buf')"

definition reset_and_verify :: "'d transport \<Rightarrow> 'd qdl_device \<Rightarrow> u8 list \<Rightarrow> int \<times> 'd qdl_device" where
  "reset_and_verify T q buf =
     (case reset_loop 5 T q buf of
        (Reset_rejected, q1) \<Rightarrow> (-1, q1)
      | (Reset_exhausted, q1) \<Rightarrow> (-1, q1)
      | (Reset_acked, q1) \<Rightarrow>
          (case qdl_read T q1 4096 SAHARA_RESET_VERIFY_TIMEOUT_MS of
             (Inr d, q2) \<Rightarrow> (-1, q2)
           | (Inl e, q2) \<Rightarrow> if e = - ETIMEDOUT then (-1, q2) else (0, q2)))"

definition sahara_device_reset :: "'d transport \<Rightarrow> 'd qdl_device \<Rightarrow> u8 list \<Rightarrow> int \<times> 'd qdl_device" where
  "sahara_device_reset T q stk =
     (if dev_type q = QDL_DEVICE_SIM then (0, q)
      else case qdl_read T q 4096 SAHARA_CMD_TIMEOUT_MS of
        (Inl e, q1) \<Rightarrow>
          if e \<noteq> - ETIMEDOUT then (-1, q1)
          else (case qdl_read T (snd (sahara_send_hello_resp T q1 SAHARA_VERSION SAHARA_MODE_IMAGE_TX_PENDING))
                       4096 SAHARA_CMD_TIMEOUT_MS of
              (Inl e2, q2) \<Rightarrow> reset_and_verify T q2 stk
            | (Inr d, q2) \<Rightarrow>
                if is_firehose_banner (length d) (memcpy_at stk 0 d) then (1, q2)
                else reset_and_verify T q2 (memcpy_at stk 0 d))
      | (Inr d, q1) \<Rightarrow>
          let buf = memcpy_at stk 0 d in
          if is_firehose_banner (length d) buf then (1, q1)
          else if of_nat (length d) = pkt_length buf \<and> pkt_cmd buf = SAHARA_HELLO_CMD then
            if hello_mode buf = SAHARA_MODE_MEMORY_DEBUG
            then reset_and_verify T
                   (snd (sahara_send_hello_resp T q1 (hello_version buf) SAHARA_MODE_MEMORY_DEBUG)) buf
            else (case qdl_read T (snd (sahara_send_hello_resp T q1 (hello_version buf) SAHARA_MODE_COMMAND))
                         4096 SAHARA_CMD_TIMEOUT_MS of
                (Inl e2, q2) \<Rightarrow> reset_and_verify T q2 buf
              | (Inr d2, q2) \<Rightarrow> reset_and_verify T q2 (memcpy_at buf 0 d2))
          else reset_and_verify T q1 buf)"

subsection \<open>The image-transfer loop\<close>

text \<open>
  The directory a memory dump goes to. \<open>sahara_run\<close> is also called with a NULL
  \<open>ramdump_path\<close> (when flashing), and then hands NULL to \<open>snprintf("%s")\<close>, which the GNU C
  library prints as \<open>(null)\<close>.
\<close>

definition dump_dir :: "string option \<Rightarrow> string" where
  "dump_dir ramdump_path = (case ramdump_path of None \<Rightarrow> ''(null)'' | Some p \<Rightarrow> p)"

text \<open>One packet: \<open>Inl\<close> is a return of \<open>sahara_run\<close>, \<open>Inr\<close> the new value of \<open>done\<close>.\<close>

definition sahara_handle ::
  "nat \<Rightarrow> 'd transport \<Rightarrow> images option \<Rightarrow> string option \<Rightarrow> string option \<Rightarrow> u8 list
    \<Rightarrow> 'd qdl_device \<Rightarrow> host \<Rightarrow> ((int + bool) \<times> 'd qdl_device \<times> host) option" where
  "sahara_handle fuel T images ramdump_path ramdump_filter pkt q h =
     (if pkt_cmd pkt = SAHARA_HELLO_CMD then
        (case sahara_hello T q pkt of (r, q') \<Rightarrow> Some (if r < 0 then Inl (-1) else Inr False, q', h))
      else if pkt_cmd pkt = SAHARA_READ_DATA_CMD then
        (case sahara_read T q pkt images of (r, q') \<Rightarrow> Some (if r < 0 then Inl (-1) else Inr False, q', h))
      else if pkt_cmd pkt = SAHARA_END_OF_IMAGE_CMD then
        (case sahara_eoi T q pkt of (r, q') \<Rightarrow> Some (if r < 0 then Inl (-1) else Inr False, q', h))
      else if pkt_cmd pkt = SAHARA_DONE_RESP_CMD then
        (case sahara_done T q pkt of (n, q') \<Rightarrow>
           Some (if n < 0 then Inl (-1)
                 else Inr (sahara_has_done_pending_quirk images \<or> n \<noteq> 0), q', h))
      else if pkt_cmd pkt = SAHARA_MEM_DEBUG64_CMD then
        (case sahara_debug64 fuel T q h pkt
                (dump_dir ramdump_path) ramdump_filter of
           None \<Rightarrow> None | Some (q', h') \<Rightarrow> Some (Inr False, q', h'))
      else if pkt_cmd pkt = SAHARA_READ_DATA64_CMD then
        (case sahara_read64 T q pkt images of (r, q') \<Rightarrow> Some (if r < 0 then Inl (-1) else Inr False, q', h))
      else if pkt_cmd pkt = SAHARA_RESET_RESP_CMD then
        (if pkt_length pkt \<noteq> SAHARA_RESET_LENGTH then Some (Inl (-1), q, h)
         else Some (Inr (ramdump_path \<noteq> None), q, h))
      else Some (Inr False, q, h))"

fun sahara_loop ::
  "nat \<Rightarrow> 'd transport \<Rightarrow> images option \<Rightarrow> string option \<Rightarrow> string option \<Rightarrow> u8 list \<Rightarrow> bool
    \<Rightarrow> 'd qdl_device \<Rightarrow> host \<Rightarrow> (int \<times> 'd qdl_device \<times> host) option" where
  "sahara_loop 0 T images ramdump_path ramdump_filter buf first_read q h = None"
| "sahara_loop (Suc fuel) T images ramdump_path ramdump_filter buf first_read q h =
     (let detect_firehose = (ramdump_path = None) in
      case qdl_read T q 4096 SAHARA_CMD_TIMEOUT_MS of
        (Inl e, q1) \<Rightarrow>
          if first_read \<and> detect_firehose \<and> e = - ETIMEDOUT then
            if dev_type q = QDL_DEVICE_QUD \<or> dev_type q = QDL_DEVICE_AUTO
            then sahara_loop fuel T images ramdump_path ramdump_filter buf first_read
                   (snd (sahara_send_hello_resp T q1 SAHARA_VERSION 0)) h
            else Some (0, q1, h)
          else Some (-1, q1, h)
      | (Inr d, q1) \<Rightarrow>
          let buf' = memcpy_at buf 0 d in
          if first_read \<and> detect_firehose \<and> is_firehose_banner (length d) buf' then Some (0, q1, h)
          else if of_nat (length d) \<noteq> pkt_length buf' then Some (- EINVAL, q1, h)
          else case sahara_handle fuel T images ramdump_path ramdump_filter buf' q1 h of
              None \<Rightarrow> None
            | Some (Inl r, q2, h2) \<Rightarrow> Some (r, q2, h2)
            | Some (Inr True, q2, h2) \<Rightarrow> Some (0, q2, h2)
            | Some (Inr False, q2, h2) \<Rightarrow>
                sahara_loop fuel T images ramdump_path ramdump_filter buf' False q2 h2)"

definition sahara_run ::
  "nat \<Rightarrow> 'd transport \<Rightarrow> images option \<Rightarrow> string option \<Rightarrow> string option \<Rightarrow> u8 list
    \<Rightarrow> 'd qdl_device \<Rightarrow> host \<Rightarrow> (int \<times> 'd qdl_device \<times> host) option" where
  "sahara_run fuel T images ramdump_path ramdump_filter stk q h =
     (if dev_type q = QDL_DEVICE_SIM then Some (0, q, h)
      else sahara_loop fuel T images ramdump_path ramdump_filter stk True q h)"

subsection \<open>Bounds of the helpers\<close>

lemma hex_loop_length: "length (hex_loop bs i out_sz) \<le> 2 * length bs"
  by (induction bs i out_sz rule: hex_loop.induct) auto

lemma hex_loop_fits: "2 * i < out_sz \<Longrightarrow> 2 * i + length (hex_loop bs i out_sz) < out_sz"
  by (induction bs i out_sz rule: hex_loop.induct) auto

lemma hex_loop_full:
  "2 * (i + length bs) < out_sz \<Longrightarrow>
   hex_loop bs i out_sz = concat (map (\<lambda>b. [hex_digit (unat b div 16), hex_digit (unat b mod 16)]) bs)"
  by (induction bs i out_sz rule: hex_loop.induct) auto

lemma strip_zeroes_le: "strip_zeroes buf n \<le> n"
  by (induction buf n rule: strip_zeroes.induct) auto

lemma strip_zeroes_id: "n > 0 \<Longrightarrow> buf ! (n - 1) \<noteq> 0 \<Longrightarrow> strip_zeroes buf n = n"
  by (cases n) auto

lemma find_upt_Some:
  "find P [a..<b] = Some i \<Longrightarrow> a \<le> i \<and> i < b \<and> P i \<and> (\<forall>j. a \<le> j \<and> j < i \<longrightarrow> \<not> P j)"
  by (auto simp: find_Some_iff nth_upt Suc_le_eq less_diff_conv)
    (metis add.commute add_diff_inverse_nat leD less_diff_conv2 nat_add_left_cancel_less)

lemma find_upt_first:
  assumes "a \<le> i" "i < b" "P i" "\<forall>j. a \<le> j \<and> j < i \<longrightarrow> \<not> P j"
  shows "find P [a..<b] = Some i"
proof -
  have "\<exists>k. find P [a..<b] = Some k"
    using assms(1-3) by (cases "find P [a..<b]") (auto simp: find_None_iff)
  then obtain k where k: "find P [a..<b] = Some k" by blast
  from find_upt_Some [OF this] assms have "\<not> k < i" "\<not> i < k" by auto
  with k show ?thesis by simp
qed

lemma pkhash_period_le: "pkhash_period buf \<le> length buf"
  by (auto simp: pkhash_period_def simp del: upt_Suc split: option.splits dest!: find_upt_Some)

lemma pkhash_trim_le: "sahara_pkhash_trim buf \<le> length buf"
  using strip_zeroes_le [of buf "pkhash_period buf"] pkhash_period_le [of buf]
  by (auto simp: sahara_pkhash_trim_def round_up_digest_def find_Some_iff split: option.splits)

subsection \<open>Guarded links through the sessions\<close>

context sahara_link
begin

lemma handle_ok:
  assumes "sahara_handle fuel T images rp rf pkt q h = Some (r, q', h')" "ok (link q)"
  shows "ok (link q')"
proof -
  note [simp] = hello_ok [OF assms(2), of pkt] read_pkt_ok [OF assms(2), of pkt]
    read64_pkt_ok [OF assms(2), of pkt] eoi_ok [OF assms(2), of pkt] done_ok [OF assms(2), of pkt]
  have [dest]: "ok (link q1)" if "f = (x, q1)" "ok (link (snd f))" for f :: "int \<times> 'd qdl_device" and x q1
    using that by simp
  show ?thesis
    using assms
    by (auto simp: sahara_handle_def split: if_splits prod.splits option.splits dest: debug64_ok)
qed

lemma loop_ok:
  "sahara_loop fuel T images rp rf buf first q h = Some (r, q', h') \<Longrightarrow> ok (link q) \<Longrightarrow> ok (link q')"
proof (induction fuel arbitrary: buf first q h)
  case (Suc fuel)
  have rd: "ok (link q1)" if "qdl_read T q 4096 SAHARA_CMD_TIMEOUT_MS = (x, q1)" for x q1
    using qdl_read_ok [OF Suc.prems(2), of 4096 SAHARA_CMD_TIMEOUT_MS] that by simp
  show ?case
    using Suc.prems
    by (auto simp: Let_def split: if_splits prod.splits sum.splits option.splits bool.splits
        dest!: rd dest: handle_ok intro: Suc.IH send_hello_resp_ok)
qed simp

lemma run_ok:
  "sahara_run fuel T images rp rf stk q h = Some (r, q', h') \<Longrightarrow> ok (link q) \<Longrightarrow> ok (link q')"
  by (auto simp: sahara_run_def split: if_splits dest: loop_ok)

end

subsection \<open>Files through the session\<close>

lemma handle_outside:
  assumes "sahara_handle fuel T images rp rf pkt q h = Some (r, q', h')"
  shows "same_outside (dump_paths (dump_dir rp)) h h'"
  using assms
  by (auto simp: sahara_handle_def split: if_splits prod.splits option.splits dest!: debug64_outside)

lemma loop_outside:
  "sahara_loop fuel T images rp rf buf first q h = Some (r, q', h') \<Longrightarrow>
   same_outside (dump_paths (dump_dir rp)) h h'"
proof (induction fuel arbitrary: buf first q h rp)
  case (Suc fuel)
  show ?case
    using Suc.prems
    by (auto simp: Let_def split: if_splits prod.splits sum.splits option.splits bool.splits
        dest!: handle_outside Suc.IH intro: same_outside_trans)
qed simp

end
