(* ===== verification/SaharaProps.thy ===== *)
theory SaharaProps
  imports Sahara
begin

text \<open>
  Properties of the Sahara sessions: what may reach the device and the file system, what a
  successful image request sends, the glob matcher, the PK-hash normalisation, the reset
  sequence, and two behaviours at the edges of the code.
\<close>

subsection \<open>Example devices\<close>

definition ex_hello :: "u8 list" where
  "ex_hello = put_le32 1 @ put_le32 0x30 @ put_le32 2 @ put_le32 1 @ put_le32 1024 @ put_le32 0 @ replicate 24 0"

definition ex_read :: "u32 \<Rightarrow> u32 \<Rightarrow> u32 \<Rightarrow> u8 list" where
  "ex_read img off n = put_le32 3 @ put_le32 0x14 @ put_le32 img @ put_le32 off @ put_le32 n"

definition ex_session :: "(int + u8 list) list" where
  "ex_session = [Inr ex_hello, Inr (ex_read 13 1 2),
     Inr (put_le32 4 @ put_le32 0x10 @ put_le32 13 @ put_le32 0),
     Inr (put_le32 6 @ put_le32 0xc @ put_le32 0)]"

definition ex_images :: images where
  "ex_images = (replicate 128 no_image)[13 := \<lparr>img_name = None, img_ptr = Some [7, 8, 9], img_len = 3\<rparr>]"

text \<open>A crashed device with one region of two bytes named \<open>a\<close>.\<close>

definition ex_dump :: "(int + u8 list) list" where
  "ex_dump = [Inr ex_hello,
     Inr (put_le32 0x10 @ put_le32 0x18 @ put_le64 4096 @ put_le64 64),
     Inr (replicate 8 0 @ put_le64 8192 @ put_le64 2 @ replicate 20 0 @ [0x61] @ replicate 19 0),
     Inr [1, 2], Inl (- ETIMEDOUT), Inr (put_le32 8 @ put_le32 8)]"

text \<open>Evaluation of the examples.\<close>

lemma ex_images_quirk [run_simps]: "sahara_has_done_pending_quirk (Some ex_images)"
proof -
  have *: "(\<exists>y. img_ptr (ex_images ! i) = Some y) = (i = 13)" if "i < 128" for i
    using that by (auto simp: ex_images_def no_image_def nth_list_update)
  have "length (filter (\<lambda>i. img_ptr (ex_images ! i) \<noteq> None) [0..<MAPPING_SZ])
        = card {i. i < MAPPING_SZ \<and> i = 13}"
    using * by (simp add: length_filter_conv_card MAPPING_SZ_def)
      (metis (mono_tags, lifting) add_0 nth_upt)
  also have "{i. i < MAPPING_SZ \<and> i = 13} = {13}" by (auto simp: MAPPING_SZ_def)
  finally show ?thesis
    using * [of 13] by (auto simp: sahara_has_done_pending_quirk_def SAHARA_ID_EHOSTDL_IMG_def)
qed

lemma ex_images_nth [run_simps]:
  "ex_images ! 13 = \<lparr>img_name = None, img_ptr = Some [7, 8, 9], img_len = 3\<rparr>"
  by (simp add: ex_images_def)

lemmas sahara_loop_numeral [run_simps] =
  sahara_loop.simps(2) [of "pred_numeral k" for k, folded numeral_eq_Suc]
lemmas dump_chunk_numeral [run_simps] =
  dump_chunk.simps(2) [of "pred_numeral k" for k, folded numeral_eq_Suc]
lemmas reset_loop_numeral [run_simps] =
  reset_loop.simps(2) [of "pred_numeral k" for k, folded numeral_eq_Suc]
lemmas dump_region_numeral [run_simps] =
  dump_region.simps(2) [of "pred_numeral k" for k, folded numeral_eq_Suc]

lemmas replicate_Suc_numeral =
  replicate_Suc [of "pred_numeral k" for k, folded numeral_eq_Suc]

lemmas session_evals = tap_def sahara_run_def sahara_handle_def sahara_hello_def
  sahara_send_hello_resp_def sahara_read_def sahara_send_range_def sahara_eoi_def sahara_done_def
  is_firehose_banner_def MAPPING_SZ_def ex_session_def ex_hello_def ex_read_def
  hello_resp_pkt_def done_pkt_def

lemmas dump_evals = sahara_run_def sahara_handle_def sahara_hello_def sahara_send_hello_resp_def
  is_firehose_banner_def ex_hello_def hello_resp_pkt_def ex_dump_def dump_dir_def
  sahara_debug64_def sahara_debug64_filter_def sahara_debug64_one_def region_at_def cstr_of_def
  chars_of_def unsafe_name_def path_join_def PATH_MAX_def h_create_def ex_host_def
  DEBUG_BLOCK_SIZE_def mem_read64_pkt_def sahara_build_minidump_elf_def find_index_def h_append_def
  write_all.simps Let_def char_of_def sahara_send_reset_def reset_pkt_def
  replicate_Suc_numeral bit_Suc_0_iff

subsection \<open>Messages and files\<close>

text \<open>
  C12: Whatever the device does, everything \<open>sahara_run\<close> writes to it is a control packet
  (reset, done, HELLO response, memory read request) or a slice of a loaded image.
\<close>

theorem sahara_run_sends:
  assumes "sahara_run fuel (tap T) images rp rf stk q h = Some (r, q', h')"
    and "snd (link q) = []"
  shows "list_all (sahara_msg images) (snd (link q'))"
  using sahara_tap.run_ok [OF assms(1)] assms(2) by (simp add: log_ok_def)

lemma sahara_run_sends_witness:
  "\<exists>q' h'. sahara_run 9 (tap script_transport) (Some ex_images) None None []
        (fresh_device QDL_DEVICE_USB (ex_session, [])) ex_host = Some (0, q', h')
     \<and> snd (link q') = [hello_resp_pkt 2 0, [8, 9], done_pkt]
     \<and> list_all (sahara_msg (Some ex_images)) (snd (link q'))"
proof -
  let ?run = "sahara_run 9 (tap script_transport) (Some ex_images) None None []
        (fresh_device QDL_DEVICE_USB (ex_session, [])) ex_host"
  have "case ?run of None \<Rightarrow> False
      | Some (r, q, h) \<Rightarrow> r = 0 \<and> snd (link q) = [hello_resp_pkt 2 0, [8, 9], done_pkt]"
    by (simp add: session_evals run_simps)
  then obtain q' h' where *: "?run = Some (0, q', h')"
      "snd (link q') = [hello_resp_pkt 2 0, [8, 9], done_pkt]"
    by (auto split: option.splits)
  moreover have "list_all (sahara_msg (Some ex_images)) (snd (link q'))"
    by (rule sahara_run_sends [OF *(1)]) (simp add: fresh_device_def)
  ultimately show ?thesis by blast
qed

text \<open>
  C13: A session that collects a memory dump creates and changes only files that are direct
  children of the dump directory: no name the device sends can reach another path.
\<close>

theorem sahara_run_files:
  assumes "sahara_run fuel T images (Some dir) rf stk q h = Some (r, q', h')"
    and "p \<notin> {path_join dir f | f. f \<noteq> [] \<and> CHR ''/'' \<notin> set f \<and> CHR 0x5C \<notin> set f}"
  shows "h_files h' p = h_files h p"
proof -
  have "same_outside (dump_paths dir) h h'"
    using assms(1) by (auto simp: sahara_run_def dump_dir_def split: if_splits dest!: loop_outside)
  moreover have "p \<notin> dump_paths dir"
    using assms(2) by (auto simp: dump_paths_def unsafe_name_def)
  ultimately show ?thesis by (simp add: same_outside_def)
qed

lemma sahara_run_files_witness:
  "\<exists>q' h'. sahara_run 9 script_transport None (Some ''d'') None []
        (fresh_device QDL_DEVICE_USB ex_dump) ex_host = Some (0, q', h')
     \<and> h_files h' ''d/a'' = Some [1, 2] \<and> h_files h' ''e'' = None"
proof -
  let ?run = "sahara_run 9 script_transport None (Some ''d'') None []
        (fresh_device QDL_DEVICE_USB ex_dump) ex_host"
  have "case ?run of None \<Rightarrow> False | Some (r, q, h) \<Rightarrow> r = 0 \<and> h_files h ''d/a'' = Some [1, 2]"
    by (simp add: dump_evals run_simps)
  then obtain q' h' where *: "?run = Some (0, q', h')" "h_files h' ''d/a'' = Some [1, 2]"
    by (auto split: option.splits)
  moreover have "h_files h' ''e'' = h_files ex_host ''e''"
    by (rule sahara_run_files [OF *(1)]) (auto simp: path_join_def PATH_MAX_def)
  ultimately show ?thesis by (auto simp: ex_host_def)
qed

subsection \<open>Serving an image\<close>

lemma send_range_served:
  assumes "images_ok imgs"
    and "sahara_send_range (tap T) q (Some imgs) idx off n = (r, q')"
  shows "if r = 0
     then \<exists>d. unat idx < MAPPING_SZ \<and> img_ptr (imgs ! unat idx) = Some d \<and> off + n \<le> length d
            \<and> snd (link q') = snd (link q) @ [take n (drop off d)]
     else r = -1"
proof (cases "unat idx < MAPPING_SZ")
  case True
  show ?thesis
  proof (cases "img_ptr (imgs ! unat idx)")
    case (Some d)
    have "image_ok (imgs ! unat idx)"
      using assms(1) True by (simp add: images_ok_def list_all_length)
    then have "img_len (imgs ! unat idx) = length d" using Some by (simp add: image_ok_def)
    then show ?thesis
      using assms(2) True Some
      by (auto simp: sahara_send_range_def Let_def qdl_write_def tap_def sub_buf_def
          split: if_splits prod.splits)
  qed (use assms(2) True in \<open>auto simp: sahara_send_range_def\<close>)
qed (use assms(2) in \<open>auto simp: sahara_send_range_def\<close>)

text \<open>
  C14: A READ_DATA request is answered with exactly the requested bytes of the requested image,
  or fails with -1: \<open>sahara_read\<close> returns 0 only if the range lies inside the image, and then
  one write went out, holding that range; in every other case it returns -1.
\<close>

theorem sahara_read_serves:
  assumes "images_ok imgs"
    and "sahara_read (tap T) q pkt (Some imgs) = (r, q')"
  shows "if r = 0
     then \<exists>d. unat (read_image pkt) < MAPPING_SZ
            \<and> img_ptr (imgs ! unat (read_image pkt)) = Some d
            \<and> unat (read_offset pkt) + unat (read_length pkt) \<le> length d
            \<and> snd (link q') = snd (link q)
                @ [take (unat (read_length pkt)) (drop (unat (read_offset pkt)) d)]
     else r = -1"
proof (cases "pkt_length pkt = SAHARA_READ_DATA_LENGTH")
  case True
  then have "sahara_send_range (tap T) q (Some imgs) (read_image pkt) (unat (read_offset pkt))
      (unat (read_length pkt)) = (r, q')"
    using assms(2) by (simp add: sahara_read_def)
  from send_range_served [OF assms(1) this] show ?thesis by (simp split: if_splits)
qed (use assms(2) in \<open>auto simp: sahara_read_def\<close>)

lemma ex_images_ok: "images_ok ex_images"
  by (auto simp: images_ok_def ex_images_def MAPPING_SZ_def list_all_length image_ok_def no_image_def
      nth_list_update)

lemma sahara_read_serves_witness:
  "\<exists>q'. sahara_read (tap script_transport) (fresh_device QDL_DEVICE_USB ([], [])) (ex_read 13 1 2)
      (Some ex_images) = (0, q')
    \<and> (\<exists>d. img_ptr (ex_images ! 13) = Some d \<and> 3 \<le> length d \<and> snd (link q') = [take 2 (drop 1 d)])"
proof -
  let ?call = "sahara_read (tap script_transport) (fresh_device QDL_DEVICE_USB ([], [])) (ex_read 13 1 2)
      (Some ex_images)"
  have "fst ?call = 0" by (simp add: session_evals run_simps)
  then obtain q' where q': "?call = (0, q')" by (cases ?call) auto
  have f: "unat (read_image (ex_read 13 1 2)) = 13" "unat (read_offset (ex_read 13 1 2)) = 1"
      "unat (read_length (ex_read 13 1 2)) = 2"
    by (simp_all add: ex_read_def run_simps)
  show ?thesis
    using sahara_read_serves [OF ex_images_ok q'] q' unfolding f by (auto simp: fresh_device_def numeral_3_eq_3)
qed

text \<open>
  C34: The 64-bit READ_DATA request is answered on every branch. The image number is the low 32 bits of
  the identifier in the packet, which \<open>sahara_read64\<close> keeps in an \<open>unsigned int\<close>. A packet of the wrong
  length and a number without an image are answered with a reset; a range that leaves the image, however
  large its offset and length, is refused and nothing is sent; any other range is sent as it is, in one
  write, and the result is 0 exactly when that write took all of it.
\<close>

theorem sahara_read64_range:
  assumes "images_ok imgs" "sahara_read64 (tap T) q pkt (Some imgs) = (r, q')"
    and "idx = unat (read64_image pkt) mod 2 ^ 32" "off = unat (read64_offset pkt)" "n = unat (read64_length pkt)"
  shows "case if pkt_length pkt = SAHARA_READ_DATA64_LENGTH \<and> idx < MAPPING_SZ then img_ptr (imgs ! idx) else None of
      None \<Rightarrow> r = -1 \<and> snd (link q') = snd (link q) @ [reset_pkt]
    | Some d \<Rightarrow>
        if length d < off + n then r = -1 \<and> snd (link q') = snd (link q)
        else snd (link q') = snd (link q) @ [take n (drop off d)]
          \<and> r = (if fst (tr_write T (fst (link q)) (take n (drop off d)) SAHARA_CMD_TIMEOUT_MS) = int n then 0 else -1)"
proof -
  have i: "unat (ucast (read64_image pkt) :: u32) = idx"
    by (simp add: assms(3) unsigned_ucast_eq take_bit_eq_mod)
  have reset: "snd (link (sahara_send_reset (tap T) q)) = snd (link q) @ [reset_pkt]"
    by (simp add: sahara_send_reset_def qdl_write_def tap_def split: prod.split)
  note run = assms(2) [unfolded sahara_read64_def sahara_send_range_def i assms(4,5) [symmetric] option.case]
  show ?thesis
  proof (cases "if pkt_length pkt = SAHARA_READ_DATA64_LENGTH \<and> idx < MAPPING_SZ then img_ptr (imgs ! idx) else None")
    case None
    then show ?thesis using run reset by (auto split: if_splits option.splits)
  next
    case (Some d)
    then have d: "pkt_length pkt = SAHARA_READ_DATA64_LENGTH" "idx < MAPPING_SZ" "img_ptr (imgs ! idx) = Some d"
      by (simp_all split: if_splits)
    then have "image_ok (imgs ! idx)" using assms(1) by (simp add: images_ok_def list_all_length)
    then have len: "img_len (imgs ! idx) = length d" using d(3) by (simp add: image_ok_def)
    obtain w t where w: "tr_write T (fst (link q)) (take n (drop off d)) SAHARA_CMD_TIMEOUT_MS = (w, t)" by fastforce
    then have "qdl_write (tap T) q (sub_buf off n d) SAHARA_CMD_TIMEOUT_MS
        = (w, q\<lparr>link := (t, snd (link q) @ [take n (drop off d)])\<rparr>)"
      by (cases "link q") (simp add: qdl_write_def tap_def sub_buf_def)
    then show ?thesis
      using run d len w by (auto simp: Let_def split: if_splits)
  qed
qed

definition ex_read64 :: "nat \<Rightarrow> u64 \<Rightarrow> u64 \<Rightarrow> u8 list" where
  "ex_read64 img off n = put_le32 0x12 @ put_le32 0x20 @ put_le64 (of_nat img) @ put_le64 off @ put_le64 n"

lemma ex_read64_fields:
  "pkt_length (ex_read64 i off n) = 0x20" "read64_image (ex_read64 i off n) = of_nat i"
  "read64_offset (ex_read64 i off n) = off" "read64_length (ex_read64 i off n) = n"
proof -
  show "pkt_length (ex_read64 i off n) = 0x20"
    using get_put_le32 [of "put_le32 0x12" "0x20"] by (simp add: ex_read64_def)
  show "read64_image (ex_read64 i off n) = of_nat i"
    using get_put_le64 [of "put_le32 0x12 @ put_le32 0x20"] by (simp add: ex_read64_def)
  show "read64_offset (ex_read64 i off n) = off"
    using get_put_le64 [of "put_le32 0x12 @ put_le32 0x20 @ put_le64 (of_nat i)"] by (simp add: ex_read64_def)
  show "read64_length (ex_read64 i off n) = n"
    using get_put_le64 [of "put_le32 0x12 @ put_le32 0x20 @ put_le64 (of_nat i) @ put_le64 off" n "[]"]
    by (simp add: ex_read64_def)
qed

lemma sahara_read64_range_witness:
  "\<exists>q'. sahara_read64 (tap script_transport) (fresh_device QDL_DEVICE_USB ([], [])) (ex_read64 (2 ^ 32 + 13) 1 2)
      (Some ex_images) = (0, q')
    \<and> (\<exists>d. img_ptr (ex_images ! 13) = Some d \<and> snd (link q') = [take 2 (drop 1 d)])"
proof -
  let ?call = "sahara_read64 (tap script_transport) (fresh_device QDL_DEVICE_USB ([], [])) (ex_read64 (2 ^ 32 + 13) 1 2)
      (Some ex_images)"
  obtain r q' where c: "?call = (r, q')" by fastforce
  obtain d where d: "img_ptr (ex_images ! 13) = Some d" "3 \<le> length d"
    by (simp add: ex_images_def nth_append)
  have "(of_nat (2 ^ 32 + 13) :: u64) = 0x10000000D" by simp
  then have i: "unat (of_nat (2 ^ 32 + 13) :: u64) mod 2 ^ 32 = 13" by simp
  show ?thesis
    using sahara_read64_range [OF ex_images_ok c refl refl refl] c d
    unfolding ex_read64_fields i by (auto simp: fresh_device_def script_transport_def MAPPING_SZ_def)
qed

subsection \<open>Segment filter and PK hash\<close>

text \<open>
  C33: The segment filter's matcher is the usual glob language: \<open>pattern_match\<close> accepts a name
  exactly when the declarative relation \<open>glob\<close> (a star for any run, a question mark for any one
  character) does.
\<close>

theorem pattern_match_glob: "pattern_match ps s \<longleftrightarrow> glob ps s"
  using pattern_match_sound pattern_match_complete by blast

lemma strip_zeroes_above: "i < n \<Longrightarrow> buf ! i \<noteq> 0 \<Longrightarrow> i < strip_zeroes buf n"
  by (induction n) (auto simp: less_Suc_eq)

lemma take_repeats:
  "0 < k \<Longrightarrow> take (length d) (concat (replicate k d) @ rest) = d"
  by (cases k) auto

lemma pkhash_period_repeats:
  assumes "buf = concat (replicate k d) @ rest" "2 \<le> k" "4 \<le> length d"
    and "\<And>i. 4 \<le> i \<Longrightarrow> i < length d \<Longrightarrow> take i buf \<noteq> take i (drop i buf)"
  shows "pkhash_period buf = length d"
proof -
  obtain j where j: "k = Suc (Suc j)" using assms(2) by (metis Suc_le_D numeral_2_eq_2 Suc_le_mono)
  have "find (\<lambda>i. take i buf = take i (drop i buf)) [4..<length buf div 2 + 1] = Some (length d)"
    using assms(3,4) by (intro find_upt_first) (auto simp: assms(1) j)
  then show ?thesis by (simp add: pkhash_period_def)
qed

lemma round_up_digest_cases:
  assumes "n \<in> {32, 48, 64}" "s \<le> n" "n = 32 \<or> n < s + 16" "2 * n \<le> m"
  shows "round_up_digest s m = n"
  using assms by (auto simp: round_up_digest_def digest_sizes_def)

text \<open>
  The PK-hash answer of older chips repeats the digest to fill the buffer; \<open>sahara_pkhash_trim\<close>
  cuts such an answer to one digest: for a SHA-256, SHA-384 or SHA-512 digest repeated at least
  twice that has no shorter repetition, and for the two longer ones does not end in sixteen zero
  bytes, the trimmed length is the length of the digest.
\<close>

theorem sahara_pkhash_trim_repeats:
  assumes "buf = concat (replicate k d) @ rest" "2 \<le> k" "length d \<in> {32, 48, 64}"
    and "\<And>i. 4 \<le> i \<Longrightarrow> i < length d \<Longrightarrow> take i buf \<noteq> take i (drop i buf)"
    and "length d = 32 \<or> (\<exists>i < length d. length d \<le> i + 16 \<and> d ! i \<noteq> 0)"
  shows "sahara_pkhash_trim buf = length d"
proof -
  let ?s = "strip_zeroes buf (length d)"
  have p: "pkhash_period buf = length d"
    using assms by (intro pkhash_period_repeats) auto
  have le: "?s \<le> length d" by (rule strip_zeroes_le)
  have lb: "2 * length d \<le> length buf"
    using assms(1,2) by (simp add: length_concat sum_list_replicate) (meson mult_le_mono1 trans_le_add1)
  have "length d = 32 \<or> length d < ?s + 16"
  proof (rule disjE [OF assms(5)])
    assume "\<exists>i < length d. length d \<le> i + 16 \<and> d ! i \<noteq> 0"
    then obtain i where i: "i < length d" "length d \<le> i + 16" "d ! i \<noteq> 0" by blast
    have "buf ! i = d ! i"
      using nth_take [OF i(1), of buf] take_repeats [of k d rest] assms(1,2) by simp
    then show ?thesis using strip_zeroes_above [of i "length d" buf] i by simp
  qed simp
  moreover have "sahara_pkhash_trim buf = round_up_digest ?s (length buf)"
    by (simp add: sahara_pkhash_trim_def p)
  ultimately show ?thesis
    using round_up_digest_cases [OF assms(3) le _ lb] by simp
qed

lemma sahara_pkhash_trim_repeats_witness:
  "sahara_pkhash_trim (concat (replicate 3 ((1 :: u8) # replicate 47 2)) @ [1]) = 48"
proof -
  let ?d = "(1 :: u8) # replicate 47 2"
  let ?buf = "concat (replicate 3 ?d) @ [1]"
  have "take i ?buf \<noteq> take i (drop i ?buf)" if "4 \<le> i" "i < length ?d" for i
  proof
    assume "take i ?buf = take i (drop i ?buf)"
    then have "take i ?buf ! 0 = take i (drop i ?buf) ! 0" by simp
    then show False using that
      by (simp add: numeral_3_eq_3 nth_Cons' nth_append split: if_splits)
  qed
  then have "sahara_pkhash_trim ?buf = length ?d"
    by (intro sahara_pkhash_trim_repeats) (auto intro!: exI [of _ 40])
  then show ?thesis by simp
qed

subsection \<open>Resetting\<close>

lemma tap_read_log [simp]: "snd (link (snd (qdl_read (tap T) q n t))) = snd (link q)"
  by (auto simp: qdl_read_def tap_def Let_def split: option.splits prod.splits)

lemma tap_write_log [simp]: "snd (link (snd (qdl_write (tap T) q m t))) = snd (link q) @ [m]"
  by (auto simp: qdl_write_def tap_def split: prod.splits)

lemma reset_loop_log:
  "reset_loop k (tap T) q buf = (res, q') \<Longrightarrow>
   \<exists>n \<le> k. snd (link q') = snd (link q) @ replicate n reset_pkt \<and> (res \<noteq> Reset_exhausted \<longrightarrow> 1 \<le> n)"
proof (induction k arbitrary: q buf)
  case (Suc k)
  let ?q0 = "sahara_send_reset (tap T) q"
  obtain x q1 where rd: "qdl_read (tap T) ?q0 4096 SAHARA_CMD_TIMEOUT_MS = (x, q1)" by fastforce
  have l: "snd (link q1) = snd (link q) @ [reset_pkt]"
    using tap_read_log [of T ?q0 4096 SAHARA_CMD_TIMEOUT_MS] unfolding rd
    by (simp add: sahara_send_reset_def)
  have again: ?case if r: "reset_loop k (tap T) q1 b = (res, q')" for b
  proof -
    obtain n where "n \<le> k" "snd (link q') = snd (link q1) @ replicate n reset_pkt"
      using Suc.IH [OF r] by blast
    then show ?thesis using l by (intro exI [of _ "Suc n"]) simp
  qed
  have stop: ?case if "q' = q1"
    using that l by (intro exI [of _ 1]) simp
  show ?case
    using Suc.prems rd again stop by (auto simp: Let_def split: sum.splits if_splits)
qed simp

lemma reset_and_verify_success:
  assumes "reset_and_verify (tap T) q buf = (0, q')"
  shows "(\<exists>n. 1 \<le> n \<and> n \<le> 5 \<and> snd (link q') = snd (link q) @ replicate n reset_pkt)
     \<and> (\<exists>q1 e. qdl_read (tap T) q1 4096 SAHARA_RESET_VERIFY_TIMEOUT_MS = (Inl e, q') \<and> e \<noteq> - ETIMEDOUT)"
proof -
  obtain q1 e where r: "reset_loop 5 (tap T) q buf = (Reset_acked, q1)"
      "qdl_read (tap T) q1 4096 SAHARA_RESET_VERIFY_TIMEOUT_MS = (Inl e, q')" "e \<noteq> - ETIMEDOUT"
    using assms by (auto simp: reset_and_verify_def split: prod.splits reset_outcome.splits sum.splits if_splits)
  have "snd (link q') = snd (link q1)"
    using tap_read_log [of T q1 4096 SAHARA_RESET_VERIFY_TIMEOUT_MS] r(2) by simp
  with reset_loop_log [OF r(1)] r(2,3) show ?thesis by fastforce
qed

lemma hello_resp_log [simp]:
  "snd (link (snd (sahara_send_hello_resp (tap T) q v m))) = snd (link q) @ [hello_resp_pkt v m]"
  by (simp add: sahara_send_hello_resp_def)

text \<open>
  \<open>sahara_device_reset\<close> reports success only for a device that is gone: it has sent at most
  one HELLO response, then between one and five resets, and the final read failed with an error
  that is not a timeout.
\<close>

theorem sahara_device_reset_verified:
  assumes "sahara_device_reset (tap T) q stk = (0, q')" "dev_type q \<noteq> QDL_DEVICE_SIM"
  shows "(\<exists>pre n. length pre \<le> 1 \<and> 1 \<le> n \<and> n \<le> 5
            \<and> snd (link q') = snd (link q) @ pre @ replicate n reset_pkt)
     \<and> (\<exists>q1 e. qdl_read (tap T) q1 4096 SAHARA_RESET_VERIFY_TIMEOUT_MS = (Inl e, q') \<and> e \<noteq> - ETIMEDOUT)"
proof -
  obtain x q1 where rd: "qdl_read (tap T) q 4096 SAHARA_CMD_TIMEOUT_MS = (x, q1)" by fastforce
  have l1: "snd (link q1) = snd (link q)"
    using tap_read_log [of T q 4096 SAHARA_CMD_TIMEOUT_MS] rd by simp
  define gone where "gone \<longleftrightarrow> ?thesis"
  have *: gone if v: "reset_and_verify (tap T) q2 buf = (0, q')"
      and l: "snd (link q2) = snd (link q) @ pre" and p: "length pre \<le> 1" for q2 buf pre
  proof -
    from reset_and_verify_success [OF v] obtain n where "1 \<le> n" "n \<le> 5"
        "snd (link q') = snd (link q) @ pre @ replicate n reset_pkt"
      using l by auto
    with p reset_and_verify_success [OF v] show ?thesis unfolding gone_def by blast
  qed
  have after: gone if "reset_and_verify (tap T) q2 buf = (0, q')"
      "qdl_read (tap T) (snd (sahara_send_hello_resp (tap T) q1 v m)) 4096 SAHARA_CMD_TIMEOUT_MS = (y, q2)"
    for q2 buf v m y
    using * [OF that(1), of "[hello_resp_pkt v m]"] that(2) l1
      tap_read_log [of T "snd (sahara_send_hello_resp (tap T) q1 v m)" 4096 SAHARA_CMD_TIMEOUT_MS] by simp
  have direct: gone if "reset_and_verify (tap T) q1 buf = (0, q')" for buf
    using * [OF that, of "[]"] l1 by simp
  have direct2: gone if "reset_and_verify (tap T) (snd (sahara_send_hello_resp (tap T) q1 v m)) buf = (0, q')"
    for buf v m using * [OF that, of "[hello_resp_pkt v m]"] l1 by simp
  have gone
    using assms rd
    by (auto simp: sahara_device_reset_def Let_def split: sum.splits if_splits prod.splits
        dest: after direct direct2)
  then show ?thesis unfolding gone_def .
qed

lemma sahara_device_reset_verified_witness:
  "\<exists>q' pre n. sahara_device_reset (tap script_transport)
        (fresh_device QDL_DEVICE_USB ([Inr ex_hello, Inl (- ETIMEDOUT), Inl (- ETIMEDOUT), Inl (- EIO), Inl (- ENODEV)], [])) []
      = (0, q') \<and> snd (link q') = pre @ replicate n reset_pkt \<and> n \<le> 5"
proof -
  let ?q = "fresh_device QDL_DEVICE_USB ([Inr ex_hello, Inl (- ETIMEDOUT), Inl (- ETIMEDOUT), Inl (- EIO), Inl (- ENODEV)], [])"
  let ?call = "sahara_device_reset (tap script_transport) ?q []"
  have "fst ?call = 0"
    by (simp add: session_evals run_simps sahara_device_reset_def reset_and_verify_def
        sahara_send_reset_def reset_pkt_def)
  then obtain q' where q': "?call = (0, q')" by (cases ?call) auto
  have "dev_type ?q \<noteq> QDL_DEVICE_SIM" by (simp add: fresh_device_def)
  from sahara_device_reset_verified [OF q' this] q' show ?thesis by (auto simp: fresh_device_def)
qed

end
