(* ===== verification/SaharaLive.thy ===== *)
theory SaharaLive
  imports Sahara
begin

text \<open>
  When the sessions of \<open>src/sahara.c\<close> return: against a device that delivers only finitely many
  packets every loop ends, with a bound on the fuel the model needs. A device that keeps sending
  packets can keep the host busy, and on the transports where the host polls with HELLO
  responses (QUD, AUTO) a silent device does so too.
\<close>

subsection \<open>Devices that drain\<close>

text \<open>
  A rank on the device state that a delivered packet decreases and nothing increases.
\<close>

locale draining_link =
  fixes T :: "'d transport" and rank :: "'d \<Rightarrow> nat"
  assumes read_drains: "tr_read T d n t = (Inr bs, d') \<Longrightarrow> rank d' < rank d"
    and read_keeps: "tr_read T d n t = (Inl e, d') \<Longrightarrow> rank d' \<le> rank d"
    and write_keeps: "tr_write T d m t = (r, d') \<Longrightarrow> rank d' \<le> rank d"
begin

definition left :: "'d qdl_device \<Rightarrow> nat \<Rightarrow> bool" where
  "left q n \<longleftrightarrow> pending_buf q = None \<and> rank (link q) \<le> n"

lemma left_mono: "left q n \<Longrightarrow> n \<le> m \<Longrightarrow> left q m"
  by (simp add: left_def)

lemma left_Suc [intro]: "left q n \<Longrightarrow> left q (Suc n)"
  by (simp add: left_def)

lemma read_Inr: "qdl_read T q n t = (Inr d, q') \<Longrightarrow> left q m \<Longrightarrow> \<exists>k. m = Suc k \<and> left q' k \<and> dev_type q' = dev_type q"
  by (auto simp: qdl_read_def left_def split: prod.splits option.splits dest!: read_drains intro: exI [of _ "m - 1"])

lemma read_Inl: "qdl_read T q n t = (Inl e, q') \<Longrightarrow> left q m \<Longrightarrow> left q' m \<and> dev_type q' = dev_type q"
  by (auto simp: qdl_read_def left_def split: prod.splits option.splits dest!: read_keeps)

lemma read_left: "left q m \<Longrightarrow> left (snd (qdl_read T q n t)) m"
  by (cases "qdl_read T q n t"; cases "fst (qdl_read T q n t)")
    (auto dest!: read_Inr read_Inl elim: left_mono)

lemma write_left: "qdl_write T q b t = (r, q') \<Longrightarrow> left q m \<Longrightarrow> left q' m \<and> dev_type q' = dev_type q"
  by (auto simp: qdl_write_def left_def split: prod.splits dest!: write_keeps)

lemma write_left_snd: "left q m \<Longrightarrow> left (snd (qdl_write T q b t)) m"
  using write_left by (metis prod.collapse)

lemma dump_chunk_returns:
  "left q m \<Longrightarrow> m < fuel \<Longrightarrow>
   \<exists>b q' h'. dump_chunk fuel T q h p remain offset = Some (b, q', h') \<and> left q' m \<and> dev_type q' = dev_type q
      \<and> (b \<and> offset < remain \<longrightarrow> (\<exists>k. m = Suc k \<and> left q' k))"
proof (induction fuel arbitrary: q h offset m)
  case (Suc fuel)
  show ?case
  proof (cases "offset < remain")
    case True
    obtain x q1 where rd: "qdl_read T q DEBUG_BLOCK_SIZE 30000 = (x, q1)" by fastforce
    show ?thesis
    proof (cases x)
      case (Inl e)
      with rd read_Inl [of q DEBUG_BLOCK_SIZE 30000 e q1 m] Suc.prems True show ?thesis
        by (auto intro: exI [of _ False])
    next
      case (Inr d)
      then obtain k where k: "m = Suc k" "left q1 k" "dev_type q1 = dev_type q"
        using rd read_Inr Suc.prems by blast
      obtain w h1 where w: "write_all h p d = (w, h1)" by fastforce
      have "k < fuel" using k Suc.prems by simp
      from Suc.IH [OF k(2) this, of h1 "offset + length d"] k w rd Inr True show ?thesis
        by (cases w) (auto elim: left_mono)
    qed
  qed (use Suc.prems in auto)
qed simp

lemma dump_region_returns:
  "left q m \<Longrightarrow> m + 1 < fuel \<Longrightarrow>
   \<exists>b q' h'. dump_region fuel T q h p rg chunk = Some (b, q', h') \<and> left q' m \<and> dev_type q' = dev_type q"
proof (induction fuel arbitrary: q h chunk m)
  case (Suc fuel)
  show ?case
  proof (cases "chunk < unat (rg_length rg)")
    case True
    let ?remain = "min (unat (rg_length rg) - chunk) DEBUG_BLOCK_SIZE"
    let ?pkt = "mem_read64_pkt (rg_addr rg + of_nat chunk) (of_nat ?remain)"
    have pos: "0 < ?remain" using True by (simp add: DEBUG_BLOCK_SIZE_def)
    obtain n q1 where w: "qdl_write T q ?pkt SAHARA_CMD_TIMEOUT_MS = (n, q1)" by fastforce
    have q1: "left q1 m" "dev_type q1 = dev_type q" using write_left [OF w] Suc.prems by auto
    have mf: "m < fuel" using Suc.prems by simp
    obtain b q2 h2 where c: "dump_chunk fuel T q1 h p ?remain 0 = Some (b, q2, h2)"
        "left q2 m" "dev_type q2 = dev_type q1" "b \<Longrightarrow> \<exists>k. m = Suc k \<and> left q2 k"
      using dump_chunk_returns [OF q1(1) mf, of h p ?remain 0] pos by blast
    show ?thesis
    proof (cases "n < 0 \<or> \<not> b")
      case False
      then obtain k where k: "m = Suc k" "left q2 k" using c(4) by blast
      define q3 where "q3 = snd (qdl_read T q2 DEBUG_BLOCK_SIZE 10)"
      have q3: "left q3 k" "dev_type q3 = dev_type q2"
        unfolding q3_def using read_left [OF k(2)] by simp_all
      have kf: "k + 1 < fuel" using k Suc.prems by simp
      show ?thesis
        using Suc.IH [OF q3(1) kf, of h2 "(chunk + DEBUG_BLOCK_SIZE) mod 2 ^ 64"]
          False True w c q1 q3 k
        by (auto simp: Let_def q3_def [symmetric] simp del: power_numeral)
    qed (use True w c q1 in \<open>auto simp: Let_def\<close>)
  qed (use Suc.prems in auto)
qed simp

lemma debug64_one_returns:
  "left q m \<Longrightarrow> m + 1 < fuel \<Longrightarrow>
   \<exists>b q' h'. sahara_debug64_one fuel T q h rg dir = Some (b, q', h') \<and> left q' m \<and> dev_type q' = dev_type q"
proof -
  assume *: "left q m" "m + 1 < fuel"
  let ?p = "path_join dir (rg_filename rg)"
  have d: "\<exists>b q' h'. dump_region fuel T q h1 ?p rg 0 = Some (b, q', h') \<and> left q' m \<and> dev_type q' = dev_type q"
    for h1 by (rule dump_region_returns [OF *])
  show ?thesis
  proof (cases "h_create h ?p")
    case (Some h1)
    obtain b q' h' where "dump_region fuel T q h1 ?p rg 0 = Some (b, q', h')" "left q' m" "dev_type q' = dev_type q"
      using d by blast
    with Some * show ?thesis by (simp add: sahara_debug64_one_def)
  qed (use * in \<open>simp add: sahara_debug64_one_def\<close>)
qed

lemma dump_regions_returns:
  "left q m \<Longrightarrow> m + 1 < fuel \<Longrightarrow>
   \<exists>q' h'. dump_regions fuel T q h dir filt rs = Some (q', h') \<and> left q' m \<and> dev_type q' = dev_type q"
proof (induction rs arbitrary: q h)
  case (Cons r rs)
  obtain b q1 h1 where o: "sahara_debug64_one fuel T q h r dir = Some (b, q1, h1)" "left q1 m"
      "dev_type q1 = dev_type q"
    using debug64_one_returns [OF Cons.prems] by blast
  show ?case
    using Cons.IH [OF o(2) Cons.prems(2), of h1] Cons.IH [OF Cons.prems, of h] o by auto
qed simp

lemma send_reset_left: "left q m \<Longrightarrow> left (sahara_send_reset T q) m"
  by (simp add: sahara_send_reset_def write_left_snd)

lemma debug64_returns:
  assumes "left q m" "m + 1 < fuel"
  shows "\<exists>q' h'. sahara_debug64 fuel T q h pkt dir filt = Some (q', h') \<and> left q' m"
proof (cases "pkt_length pkt = SAHARA_MEM_DEBUG64_LENGTH")
  case True
  obtain n q1 where w: "qdl_write T q (mem_read64_pkt (debug64_addr pkt) (debug64_length pkt))
      SAHARA_CMD_TIMEOUT_MS = (n, q1)" by fastforce
  have q1: "left q1 m" using write_left [OF w] assms by auto
  obtain x q2 where r: "qdl_read T q1 (unat (debug64_length pkt)) SAHARA_CMD_TIMEOUT_MS = (x, q2)" by fastforce
  have q2: "left q2 m" using read_left [OF q1] r by (metis snd_conv)
  have *: "\<exists>q' h'. dump_regions fuel T q2 h dir filt rs = Some (q', h') \<and> left q' m" for rs
    using dump_regions_returns [OF q2 assms(2)] by blast
  show ?thesis
  proof (cases x)
    case (Inr d)
    define tbl where "tbl = memcpy_at (replicate (unat (debug64_length pkt)) 0) 0 d"
    obtain q3 h3 where "dump_regions fuel T q2 h dir filt (map (region_at tbl) [0..<length d div 64]) = Some (q3, h3)"
        "left q3 m" using * by blast
    then show ?thesis
      using True w r Inr q1 q2
      by (auto simp: sahara_debug64_def Let_def tbl_def send_reset_left)
  qed (use True w r q1 q2 in \<open>auto simp: sahara_debug64_def Let_def\<close>)
qed (use assms in \<open>simp add: sahara_debug64_def send_reset_left\<close>)

lemma handler_left:
  assumes "left q m"
  shows "left (snd (sahara_hello T q pkt)) m" "left (snd (sahara_send_range T q images idx off n)) m"
    "left (snd (sahara_read T q pkt images)) m" "left (snd (sahara_read64 T q pkt images)) m"
    "left (snd (sahara_eoi T q pkt)) m" "left (snd (sahara_done T q pkt)) m"
proof -
  have *: "left (snd (sahara_send_range T q images idx off n)) m" for idx off n
    using assms
    by (auto simp: sahara_send_range_def send_reset_left Let_def split: option.splits prod.splits dest: write_left)
  then show "left (snd (sahara_send_range T q images idx off n)) m" .
  show "left (snd (sahara_hello T q pkt)) m"
    using assms by (simp add: sahara_hello_def sahara_send_hello_resp_def send_reset_left write_left_snd)
  show "left (snd (sahara_read T q pkt images)) m" "left (snd (sahara_read64 T q pkt images)) m"
    using assms * by (simp_all add: sahara_read_def sahara_read64_def send_reset_left)
  show "left (snd (sahara_eoi T q pkt)) m" "left (snd (sahara_done T q pkt)) m"
    using assms by (simp_all add: sahara_eoi_def sahara_done_def send_reset_left write_left_snd)
qed

lemma handle_returns:
  assumes "left q m" "m + 1 < fuel"
  shows "\<exists>r q' h'. sahara_handle fuel T images rp rf pkt q h = Some (r, q', h') \<and> left q' m"
proof -
  have d: "\<exists>q' h'. sahara_debug64 fuel T q h pkt (dump_dir rp) rf = Some (q', h') \<and> left q' m"
    by (rule debug64_returns [OF assms])
  note [simp] = handler_left(1,3-6) [OF assms(1)]
  have [dest]: "left q1 m" if "g = (x, q1)" "left (snd g) m" for g :: "int \<times> 'd qdl_device" and x q1
    using that by simp
  show ?thesis
    using d assms(1) unfolding sahara_handle_def
    by (auto split: prod.splits)
qed

lemma loop_returns:
  "left q m \<Longrightarrow> m + 2 < fuel \<Longrightarrow> first \<longrightarrow> dev_type q \<noteq> QDL_DEVICE_QUD \<and> dev_type q \<noteq> QDL_DEVICE_AUTO
   \<Longrightarrow> sahara_loop fuel T images rp rf buf first q h \<noteq> None"
proof (induction fuel arbitrary: q h m buf first)
  case (Suc fuel)
  obtain x q1 where rd: "qdl_read T q 4096 SAHARA_CMD_TIMEOUT_MS = (x, q1)" by fastforce
  show ?case
  proof (cases x)
    case (Inl e)
    then show ?thesis using rd Suc.prems by (simp add: Let_def)
  next
    case (Inr d)
    then obtain k where k: "m = Suc k" "left q1 k" using rd read_Inr Suc.prems by blast
    obtain r q2 h2 where hd: "sahara_handle fuel T images rp rf (memcpy_at buf 0 d) q1 h = Some (r, q2, h2)"
        "left q2 k"
      using handle_returns [OF k(2), of fuel] k Suc.prems by fastforce
    have "sahara_loop fuel T images rp rf (memcpy_at buf 0 d) False q2 h2 \<noteq> None"
      using Suc.IH [OF hd(2), of False] k Suc.prems by simp
    then show ?thesis
      using rd Inr hd by (auto simp: Let_def split: sum.splits bool.splits)
  qed
qed simp

end

subsection \<open>A device with a packet budget\<close>

text \<open>Any transport, cut off after a number of delivered packets: from then on reads time out.\<close>

definition budgeted :: "'d transport \<Rightarrow> ('d \<times> nat) transport" where
  "budgeted T = \<lparr>tr_read = (\<lambda>(d, n) len t.
       case n of 0 \<Rightarrow> (Inl (- ETIMEDOUT), (d, 0))
       | Suc k \<Rightarrow> (case tr_read T d len t of
             (Inl e, d') \<Rightarrow> (Inl e, (d', n)) | (Inr bs, d') \<Rightarrow> (Inr bs, (d', k)))),
     tr_write = (\<lambda>(d, n) m t. case tr_write T d m t of (r, d') \<Rightarrow> (r, (d', n)))\<rparr>"

interpretation budget: draining_link "budgeted T" snd
  by unfold_locales (auto simp: budgeted_def split: prod.splits nat.splits sum.splits)

text \<open>
  C31: A Sahara session ends: on USB (and every transport where the host does not poll with HELLO
  responses), whatever the device sends, a session in which it delivers at most \<open>n\<close> packets
  returns, with or without a memory dump; fuel \<open>n + 3\<close> is enough for every loop of it.
\<close>

theorem sahara_run_returns:
  assumes "dev_type q \<noteq> QDL_DEVICE_QUD" "dev_type q \<noteq> QDL_DEVICE_AUTO"
    and "pending_buf q = None" "snd (link q) = n"
  shows "\<exists>r q' h'. sahara_run (n + 3) (budgeted T) images rp rf stk q h = Some (r, q', h')"
proof -
  have "budget.left q n" using assms by (simp add: budget.left_def)
  then have "sahara_loop (n + 3) (budgeted T) images rp rf stk True q h \<noteq> None"
    using assms by (intro budget.loop_returns) auto
  then show ?thesis by (auto simp: sahara_run_def)
qed

lemma sahara_run_returns_witness:
  "\<exists>r q' h'. sahara_run (2 + 3) (budgeted script_transport) None (Some ''d'') None []
     (fresh_device QDL_DEVICE_USB ([Inr [1], Inr [2]], 2)) ex_host = Some (r, q', h')"
  by (rule sahara_run_returns) (simp_all add: fresh_device_def)

text \<open>
  On QUD and AUTO transports a device that stays silent keeps the host in \<open>sahara_run\<close>
  for ever: every timeout of the first read is answered with another HELLO response, without a
  limit, so no amount of fuel makes the session return.
\<close>

theorem sahara_run_polls_forever:
  assumes "\<And>d n t. fst (tr_read T d n t) = Inl (- ETIMEDOUT)"
    and "dev_type q = QDL_DEVICE_QUD \<or> dev_type q = QDL_DEVICE_AUTO" "pending_buf q = None"
  shows "sahara_run fuel T images None rf stk q h = None"
proof -
  have "sahara_loop fuel T images None rf stk True q h = None"
    using assms(2,3)
  proof (induction fuel arbitrary: q)
    case (Suc fuel)
    obtain d' where "tr_read T (link q) 4096 SAHARA_CMD_TIMEOUT_MS = (Inl (- ETIMEDOUT), d')"
      using assms(1) [of "link q" 4096 SAHARA_CMD_TIMEOUT_MS] by (metis prod.collapse)
    then have rd: "qdl_read T q 4096 SAHARA_CMD_TIMEOUT_MS = (Inl (- ETIMEDOUT), q\<lparr>link := d'\<rparr>)"
      using Suc.prems by (simp add: qdl_read_def)
    define q2 where "q2 = snd (sahara_send_hello_resp T (q\<lparr>link := d'\<rparr>) SAHARA_VERSION 0)"
    have "dev_type q2 = dev_type q" "pending_buf q2 = None"
      using Suc.prems by (auto simp: q2_def sahara_send_hello_resp_def qdl_write_def split: prod.splits)
    then have "sahara_loop fuel T images None rf stk True q2 h = None"
      using Suc.IH [of q2] Suc.prems by simp
    with rd Suc.prems show ?case by (simp add: Let_def q2_def)
  qed simp
  then show ?thesis using assms(2) by (auto simp: sahara_run_def)
qed

definition silent_transport :: "unit transport" where
  "silent_transport = \<lparr>tr_read = (\<lambda>d n t. (Inl (- ETIMEDOUT), d)), tr_write = (\<lambda>d m t. (int (length m), d))\<rparr>"

lemma sahara_run_polls_forever_witness:
  "sahara_run 1000 silent_transport None None None [] (fresh_device QDL_DEVICE_QUD ()) ex_host = None"
  by (rule sahara_run_polls_forever) (simp_all add: silent_transport_def fresh_device_def)

end
