(* ===== verification/FileIo.thy ===== *)
theory FileIo
  imports Prelude
begin

text \<open>
  \<open>src/file.c\<close> and \<open>src/sparse.c\<close>: files on disk or in a zip archive, read through one
  interface, and the parser of the Android sparse format's headers. The operating system and
  libzip decide how many bytes one read delivers; that is the field \<open>ff_get\<close> of a file, a
  parameter of everything proved here.
\<close>

subsection \<open>Files\<close>

datatype qdl_file_type = QDL_FILE_TYPE_UNKNOWN | QDL_FILE_TYPE_POSIX | QDL_FILE_TYPE_ZIP

text \<open>
  \<open>ff_get pos len\<close> is what the operating system or libzip lets a read of \<open>len\<close> bytes at
  \<open>pos\<close> deliver: \<open>None\<close> for an error, else a number of bytes, which the end of the file and
  \<open>len\<close> cap.
\<close>

record qdl_file =
  ff_type :: qdl_file_type
  ff_size :: nat
  ff_data :: "u8 list"
  ff_pos :: nat
  ff_get :: "nat \<Rightarrow> nat \<Rightarrow> nat option"

definition os_read :: "qdl_file \<Rightarrow> nat \<Rightarrow> u8 list option \<times> qdl_file" where
  "os_read f len =
     (case ff_get f (ff_pos f) len of
        None \<Rightarrow> (None, f)
      | Some k \<Rightarrow>
          let n = min k (min len (length (ff_data f) - ff_pos f))
          in (Some (sub_buf (ff_pos f) n (ff_data f)), f\<lparr>ff_pos := ff_pos f + n\<rparr>))"

text \<open>\<open>qdl_file_read\<close>; \<open>None\<close> is the return value -1.\<close>

definition qdl_file_read :: "qdl_file \<Rightarrow> nat \<Rightarrow> u8 list option \<times> qdl_file" where
  "qdl_file_read f len =
     (case ff_type f of
        QDL_FILE_TYPE_UNKNOWN \<Rightarrow> (None, f)
      | QDL_FILE_TYPE_POSIX \<Rightarrow> os_read f len
      | QDL_FILE_TYPE_ZIP \<Rightarrow> os_read f len)"

lemma qdl_file_read_length: "qdl_file_read f len = (Some d, f') \<Longrightarrow> length d \<le> len"
  by (auto simp: qdl_file_read_def os_read_def Let_def split: qdl_file_type.splits option.splits)

text \<open>\<open>qdl_file_read_exact\<close>: reads on until \<open>len\<close> bytes are there or a read delivers nothing.\<close>

function read_exact_loop :: "qdl_file \<Rightarrow> nat \<Rightarrow> u8 list \<Rightarrow> u8 list option \<times> qdl_file" where
  "read_exact_loop f len got =
     (if length got < len then
        (case qdl_file_read f (len - length got) of
           (None, f') \<Rightarrow> (None, f')
         | (Some d, f') \<Rightarrow> if d = [] then (Some got, f') else read_exact_loop f' len (got @ d))
      else (Some got, f))"
  by pat_completeness auto
termination
  by (relation "measure (\<lambda>(f, len, got). len - length got)") (auto intro!: diff_less_mono2)

declare read_exact_loop.simps [simp del]

definition qdl_file_read_exact :: "qdl_file \<Rightarrow> nat \<Rightarrow> u8 list option \<times> qdl_file" where
  "qdl_file_read_exact f len = read_exact_loop f len []"

datatype whence = SEEK_SET | SEEK_CUR | SEEK_END

text \<open>
  \<open>lseek\<close> on a regular file: a position before the start or beyond \<open>off_t\<close> is refused; one past
  the end is allowed.
\<close>

definition lseek :: "qdl_file \<Rightarrow> int \<Rightarrow> whence \<Rightarrow> int \<times> qdl_file" where
  "lseek f off wh =
     (let base = (case wh of SEEK_SET \<Rightarrow> 0 | SEEK_CUR \<Rightarrow> int (ff_pos f) | SEEK_END \<Rightarrow> int (length (ff_data f)));
          p = base + off
      in if p < 0 \<or> p \<ge> 2 ^ 63 then (-1, f) else (p, f\<lparr>ff_pos := nat p\<rparr>))"

definition qdl_file_seek :: "qdl_file \<Rightarrow> int \<Rightarrow> whence \<Rightarrow> int \<times> qdl_file" where
  "qdl_file_seek f off wh =
     (case ff_type f of
        QDL_FILE_TYPE_UNKNOWN \<Rightarrow> (-1, f)
      | QDL_FILE_TYPE_POSIX \<Rightarrow> lseek f off wh
      | QDL_FILE_TYPE_ZIP \<Rightarrow> if off = 0 \<and> wh = SEEK_SET then (0, f) else (-1, f))"

definition qdl_file_load :: "qdl_file \<Rightarrow> u8 list option \<times> qdl_file" where
  "qdl_file_load f =
     (case ff_type f of
        QDL_FILE_TYPE_UNKNOWN \<Rightarrow> (None, f)
      | _ \<Rightarrow> (case os_read f (ff_size f) of
            (None, f') \<Rightarrow> (None, f')
          | (Some d, f') \<Rightarrow> if length d \<noteq> ff_size f then (None, f') else (Some d, f')))"

text \<open>
  \<open>qdl_file_open\<close>: \<open>fs\<close> gives the file behind a name on disk (content and read behaviour), an
  archive the member's; opening starts at position 0 and records the size.
\<close>

type_synonym file_system = "string \<Rightarrow> (u8 list \<times> (nat \<Rightarrow> nat \<Rightarrow> nat option)) option"

definition qdl_file_open :: "file_system option \<Rightarrow> file_system \<Rightarrow> string \<Rightarrow> qdl_file option" where
  "qdl_file_open archive fs name =
     (case archive of
        Some z \<Rightarrow> (case z name of None \<Rightarrow> None
          | Some (d, g) \<Rightarrow> Some \<lparr>ff_type = QDL_FILE_TYPE_ZIP, ff_size = length d, ff_data = d, ff_pos = 0, ff_get = g\<rparr>)
      | None \<Rightarrow> (case fs name of None \<Rightarrow> None
          | Some (d, g) \<Rightarrow> Some \<lparr>ff_type = QDL_FILE_TYPE_POSIX, ff_size = length d, ff_data = d, ff_pos = 0, ff_get = g\<rparr>))"

definition qdl_file_close :: "qdl_file \<Rightarrow> qdl_file" where
  "qdl_file_close f = f\<lparr>ff_type := QDL_FILE_TYPE_UNKNOWN\<rparr>"

definition qdl_file_getsize :: "qdl_file \<Rightarrow> nat" where
  "qdl_file_getsize f = ff_size f"

subsection \<open>Reading through short reads\<close>

text \<open>
  A readable file: of a known type, whose reads for at least one byte never fail and deliver at
  least one before the end of the file.
\<close>

definition readable :: "qdl_file \<Rightarrow> bool" where
  "readable f \<longleftrightarrow> ff_type f \<noteq> QDL_FILE_TYPE_UNKNOWN
     \<and> (\<forall>pos len. 0 < len \<longrightarrow> (\<exists>k. ff_get f pos len = Some k \<and> 0 < k))"

lemma readable_pos [simp]: "readable (f\<lparr>ff_pos := p\<rparr>) = readable f"
  by (simp add: readable_def)

lemma qdl_file_read_progress:
  assumes "readable f" "0 < len"
  shows "\<exists>n. qdl_file_read f len = (Some (sub_buf (ff_pos f) n (ff_data f)), f\<lparr>ff_pos := ff_pos f + n\<rparr>)
      \<and> n \<le> len \<and> n \<le> length (ff_data f) - ff_pos f
      \<and> (n = 0 \<longrightarrow> length (ff_data f) \<le> ff_pos f)"
proof -
  obtain k where k: "ff_get f (ff_pos f) len = Some k" "0 < k"
    using assms unfolding readable_def by blast
  show ?thesis
    using k assms
    by (cases "ff_type f")
      (auto simp: qdl_file_read_def os_read_def Let_def readable_def
        intro!: exI [of _ "min k (min len (length (ff_data f) - ff_pos f))"])
qed

lemma read_exact_loop_content:
  "readable f \<Longrightarrow> length got \<le> len \<Longrightarrow>
   read_exact_loop f len got =
     (Some (got @ sub_buf (ff_pos f) (len - length got) (ff_data f)),
      f\<lparr>ff_pos := ff_pos f + min (len - length got) (length (ff_data f) - ff_pos f)\<rparr>)"
proof (induction f len got rule: read_exact_loop.induct)
  case (1 f len got)
  show ?case
  proof (cases "length got < len")
    case True
    let ?m = "len - length got"
    obtain n where n: "qdl_file_read f ?m = (Some (sub_buf (ff_pos f) n (ff_data f)), f\<lparr>ff_pos := ff_pos f + n\<rparr>)"
        "n \<le> ?m" "n \<le> length (ff_data f) - ff_pos f" "n = 0 \<longrightarrow> length (ff_data f) \<le> ff_pos f"
      using qdl_file_read_progress [OF "1.prems"(1), of ?m] True by auto
    let ?d = "sub_buf (ff_pos f) n (ff_data f)"
    have ld: "length ?d = n" using n(3) by simp
    show ?thesis
    proof (cases "n = 0")
      case True
      then show ?thesis
        using n \<open>length got < len\<close> by (subst read_exact_loop.simps) (simp add: sub_buf_def)
    next
      case False
      have ih: "read_exact_loop (f\<lparr>ff_pos := ff_pos f + n\<rparr>) len (got @ ?d) =
          (Some ((got @ ?d) @ sub_buf (ff_pos f + n) (len - length (got @ ?d)) (ff_data f)),
           f\<lparr>ff_pos := ff_pos f + n + min (len - length (got @ ?d)) (length (ff_data f) - (ff_pos f + n))\<rparr>)"
        using "1.IH" [OF True n(1) [symmetric] refl] False ld "1.prems" n(2) by (auto simp: sub_buf_def)
      have "?d @ sub_buf (ff_pos f + n) (?m - n) (ff_data f) = sub_buf (ff_pos f) ?m (ff_data f)"
        using sub_buf_append [of "ff_pos f" n "ff_data f" "?m - n"]
      by (simp only: le_add_diff_inverse [OF n(2)])
      moreover have "n + min (?m - n) (length (ff_data f) - (ff_pos f + n)) = min ?m (length (ff_data f) - ff_pos f)"
        using n(2,3) by auto
      moreover have "?d \<noteq> []" using ld False by (metis list.size(3))
      ultimately show ?thesis
        using ih n True ld by (subst read_exact_loop.simps) (simp add: add.assoc)
    qed
  qed (use "1.prems" in \<open>subst read_exact_loop.simps, simp\<close>)
qed

lemma qdl_file_read_exact_content:
  assumes "readable f"
  shows "qdl_file_read_exact f len =
    (Some (sub_buf (ff_pos f) len (ff_data f)),
     f\<lparr>ff_pos := ff_pos f + min len (length (ff_data f) - ff_pos f)\<rparr>)"
  using read_exact_loop_content [OF assms, of "[]" len] by (simp add: qdl_file_read_exact_def)

text \<open>Whole reads: the operating system returns all that was asked for, as for a local disk file.\<close>

definition whole_reads :: "qdl_file \<Rightarrow> bool" where
  "whole_reads f \<longleftrightarrow> ff_type f = QDL_FILE_TYPE_POSIX \<and> (\<forall>pos len. ff_get f pos len = Some len)"

lemma whole_reads_pos [simp]: "whole_reads (f\<lparr>ff_pos := p\<rparr>) = whole_reads f"
  by (simp add: whole_reads_def)

lemma whole_read:
  "whole_reads f \<Longrightarrow> ff_pos f + n \<le> length (ff_data f) \<Longrightarrow>
   qdl_file_read f n = (Some (sub_buf (ff_pos f) n (ff_data f)), f\<lparr>ff_pos := ff_pos f + n\<rparr>)"
  by (simp add: qdl_file_read_def os_read_def whole_reads_def Let_def)

lemma whole_seek_cur:
  "whole_reads f \<Longrightarrow> ff_pos f + n < 2 ^ 63 \<Longrightarrow>
   qdl_file_seek f (int n) SEEK_CUR = (int (ff_pos f + n), f\<lparr>ff_pos := ff_pos f + n\<rparr>)"
  by (simp add: qdl_file_seek_def lseek_def whole_reads_def Let_def nat_add_distrib)

end
