(* ===== verification/Util.thy ===== *)
theory Util
  imports Device FileIo SaharaPkt
begin

text \<open>
  \<open>src/util.c\<close>: attribute access on XML nodes, storage type names, the parsers of command-line
  arguments, the hex dump, and the loader of Sahara images. An XML node is what the code
  observes of it through libxml2's accessors, so the fields of \<open>xml_node\<close> are the answers of
  \<open>xmlGetProp\<close> and \<open>xmlHasProp\<close>; memory exhaustion in \<open>strdup\<close> is not modelled.
\<close>

subsection \<open>Attributes\<close>

record xml_node =
  xn_element :: bool
  xn_name :: string
  xn_get :: "string \<Rightarrow> string option"
  xn_has :: "string \<Rightarrow> bool"

text \<open>Each accessor returns its value and the updated error count.\<close>

definition attr_as_unsigned :: "xml_node \<Rightarrow> string \<Rightarrow> nat \<Rightarrow> u32 \<times> nat" where
  "attr_as_unsigned node attr errors =
     (case xn_get node attr of
        None \<Rightarrow> (0, errors + 1)
      | Some v \<Rightarrow> (ucast (strtoul_val 0 v), errors))"

definition attr_as_string :: "xml_node \<Rightarrow> string \<Rightarrow> nat \<Rightarrow> string option \<times> nat" where
  "attr_as_string node attr errors =
     (case xn_get node attr of
        None \<Rightarrow> (None, errors + 1)
      | Some v \<Rightarrow> (if v \<noteq> [] then Some v else None, errors))"

definition attr_as_bool :: "xml_node \<Rightarrow> string \<Rightarrow> nat \<Rightarrow> bool \<times> nat" where
  "attr_as_bool node attr errors =
     (if \<not> xn_has node attr then (False, errors)
      else case xn_get node attr of
        None \<Rightarrow> (False, errors + 1)
      | Some v \<Rightarrow> (v = ''true'', errors))"

lemma attr_errors_mono:
  "errors \<le> snd (attr_as_unsigned node a errors)"
  "errors \<le> snd (attr_as_string node a errors)"
  "errors \<le> snd (attr_as_bool node a errors)"
  by (auto simp: attr_as_unsigned_def attr_as_string_def attr_as_bool_def split: option.splits)

subsection \<open>Storage types\<close>

definition storage_types :: "(storage_type \<times> string) list" where
  "storage_types = [(QDL_STORAGE_EMMC, ''emmc''), (QDL_STORAGE_NAND, ''nand''), (QDL_STORAGE_UFS, ''ufs''),
     (QDL_STORAGE_NVME, ''nvme''), (QDL_STORAGE_SPINOR, ''spinor'')]"

definition encode_storage_type :: "storage_type \<Rightarrow> string option" where
  "encode_storage_type storage = map_of storage_types storage"

definition decode_storage_type :: "string option \<Rightarrow> storage_type" where
  "decode_storage_type storage =
     (case storage of
        None \<Rightarrow> QDL_STORAGE_UNKNOWN
      | Some s \<Rightarrow> (case find (\<lambda>(t, n). s = n) storage_types of
            Some (t, n) \<Rightarrow> t | None \<Rightarrow> QDL_STORAGE_UNKNOWN))"

lemma decode_encode_storage:
  "encode_storage_type t = Some n \<Longrightarrow> decode_storage_type (Some n) = t"
  by (cases t) (auto simp: encode_storage_type_def decode_storage_type_def storage_types_def)

lemma decode_storage_known:
  "decode_storage_type (Some n) = t \<Longrightarrow> t \<noteq> QDL_STORAGE_UNKNOWN \<Longrightarrow> encode_storage_type t = Some n"
  by (auto simp: encode_storage_type_def decode_storage_type_def storage_types_def split: if_splits)

subsection \<open>Storage addresses\<close>

definition long_max :: int where "long_max = 2 ^ 63 - 1"

text \<open>The assignment of a \<open>long\<close> to an \<open>int\<close> keeps its low 32 bits.\<close>

definition to_int :: "int \<Rightarrow> int" where
  "to_int i = sint (word_of_int i :: u32)"

text \<open>The result is the physical partition, the start sector, the number of sectors and the GPT name.\<close>

type_synonym storage_address = "int \<times> u32 \<times> u32 \<times> string option"

definition parse_storage_address :: "string \<Rightarrow> storage_address option" where
  "parse_storage_address address =
     (case c_strtol 10 address of
        (_, _, None) \<Rightarrow> Some (-1, 0, 0, Some address)
      | (part, erange, Some end1) \<Rightarrow>
          if (erange \<and> part = long_max) \<or> part < 0 then None
          else (case end1 of
            [] \<Rightarrow> Some (to_int part, 0, 0, None)
          | c # ptr \<Rightarrow>
              if c \<noteq> CHR ''/'' then None
              else (case c_strtoul 10 ptr of
                (_, _, None) \<Rightarrow> Some (to_int part, 0, 0, Some ptr)
              | (sector, erange2, Some end2) \<Rightarrow>
                  if erange2 \<and> sector = of_nat ulong_max then None
                  else (case end2 of
                    [] \<Rightarrow> Some (to_int part, ucast sector, 0, None)
                  | c2 # ptr2 \<Rightarrow>
                      if c2 \<noteq> CHR ''+'' then None
                      else (case c_strtoul 10 ptr2 of
                        (_, _, None) \<Rightarrow> None
                      | (len, erange3, Some end3) \<Rightarrow>
                          if erange3 \<and> len = of_nat ulong_max then None
                          else if len = 0 then None
                          else if end3 \<noteq> [] then None
                          else Some (to_int part, ucast sector, ucast len, None))))))"

subsection \<open>Command-line arguments\<close>

definition decode_backend :: "string option \<Rightarrow> dev_kind option" where
  "decode_backend name =
     (if name = None \<or> name = Some ''auto'' then Some QDL_DEVICE_AUTO
      else if name = Some ''usb'' then Some QDL_DEVICE_USB
      else if name = Some ''qud'' then Some QDL_DEVICE_QUD
      else None)"

datatype ux_color_mode = UX_COLOR_AUTO | UX_COLOR_ALWAYS | UX_COLOR_NEVER

definition decode_color_mode :: "string option \<Rightarrow> ux_color_mode option" where
  "decode_color_mode name =
     (if name = None \<or> name = Some ''always'' then Some UX_COLOR_ALWAYS
      else if name = Some ''auto'' then Some UX_COLOR_AUTO
      else if name = Some ''never'' then Some UX_COLOR_NEVER
      else None)"

text \<open>\<open>strstr(s, "::")\<close>: the text before the first occurrence and the text after it.\<close>

fun split_colons :: "string \<Rightarrow> (string \<times> string) option" where
  "split_colons (c # d # s) =
     (if c = CHR '':'' \<and> d = CHR '':'' then Some ([], s)
      else map_option (\<lambda>(a, b). (c # a, b)) (split_colons (d # s)))"
| "split_colons s = None"

definition qdl_split_specifier :: "string option \<Rightarrow> (string \<times> string option) option" where
  "qdl_split_specifier param =
     (case param of
        None \<Rightarrow> None
      | Some p \<Rightarrow>
          if p = [] then None
          else case split_colons p of
            None \<Rightarrow> Some (p, None)
          | Some (filename, rest) \<Rightarrow>
              if split_colons rest \<noteq> None then None
              else if filename = [] \<or> rest = [] then None
              else Some (filename, Some rest))"


lemma split_colons_eq: "split_colons s = Some (a, b) \<Longrightarrow> s = a @ ''::'' @ b"
  by (induction s arbitrary: a rule: split_colons.induct) (auto split: if_splits)

lemma split_specifier_sound:
  "qdl_split_specifier (Some p) = Some (f, Some s) \<Longrightarrow>
   p = f @ ''::'' @ s \<and> f \<noteq> [] \<and> s \<noteq> [] \<and> split_colons s = None"
  using split_colons_eq
  by (cases "split_colons s") (auto simp: qdl_split_specifier_def split: if_splits option.splits)

subsection \<open>The hex dump\<close>

definition to_hex :: "nat \<Rightarrow> char" where
  "to_hex ch = (let d = ch mod 16 in if d \<le> 9 then char_of (48 + d) else char_of (97 + d - 10))"

definition hex_dump_line :: "u8 list \<Rightarrow> string" where
  "hex_dump_line bs =
     concat (map (\<lambda>b. [to_hex (unat b div 16), to_hex (unat b), CHR '' '']) bs)
     @ replicate (3 * (16 - length bs)) (CHR '' '')
     @ map (\<lambda>b. if c_isprint b then char_of (unat b) else CHR ''.'') bs"

text \<open>The lines printed, each with the offset of its first byte (for buffers below 4 GiB).\<close>

fun hex_dump_from :: "nat \<Rightarrow> nat \<Rightarrow> u8 list \<Rightarrow> (nat \<times> string) list" where
  "hex_dump_from 0 i bs = []"
| "hex_dump_from (Suc k) i bs =
     (if bs = [] then [] else (i, hex_dump_line (take 16 bs)) # hex_dump_from k (i + 16) (drop 16 bs))"

definition print_hex_dump :: "u8 list \<Rightarrow> (nat \<times> string) list" where
  "print_hex_dump buf = hex_dump_from (length buf) 0 buf"

text \<open>The array \<open>line\<close> of 65 bytes holds every line with its NUL.\<close>

lemma hex_dump_line_length: "length bs \<le> 16 \<Longrightarrow> length (hex_dump_line bs) = 48 + length bs"
  by (simp add: hex_dump_line_def length_concat comp_def sum_list_triv)

lemma hex_dump_lines_fit: "(i, l) \<in> set (hex_dump_from k j bs) \<Longrightarrow> length l < 65"
  by (induction k j bs rule: hex_dump_from.induct)
    (auto simp: hex_dump_line_length split: if_splits)

subsection \<open>Loading images\<close>

definition load_sahara_image ::
  "file_system option \<Rightarrow> file_system \<Rightarrow> string \<Rightarrow> sahara_image option" where
  "load_sahara_image archive fs filename =
     (case qdl_file_open archive fs filename of
        None \<Rightarrow> None
      | Some f \<Rightarrow>
          (case qdl_file_load f of
             (None, f') \<Rightarrow> None
           | (Some d, f') \<Rightarrow>
               if length d = 0 then None
               else Some \<lparr>img_name = Some filename, img_ptr = Some d, img_len = length d\<rparr>))"

text \<open>
  A store into the array of images at an index from the input. The array has no room behind its last
  entry: a store there is no update of it, and what it overwrites shows as a table that is too long.
\<close>

definition store_image :: "images \<Rightarrow> nat \<Rightarrow> sahara_image \<Rightarrow> images" where
  "store_image imgs i im =
     (if i < length imgs then imgs[i := im] else imgs @ replicate (i - length imgs) no_image @ [im])"

definition sahara_images_free :: "images \<Rightarrow> nat \<Rightarrow> images" where
  "sahara_images_free imgs count = replicate count no_image @ drop count imgs"

lemma load_sahara_image_ok: "load_sahara_image z fs n = Some i \<Longrightarrow> image_ok i"
  by (auto simp: load_sahara_image_def image_ok_def split: option.splits prod.splits if_splits)

lemma images_free_ok: "images_ok imgs \<Longrightarrow> count \<le> MAPPING_SZ \<Longrightarrow> images_ok (sahara_images_free imgs count)"
  by (auto simp: images_ok_def sahara_images_free_def list_all_iff image_ok_def no_image_def
      dest: in_set_dropD)

text \<open>Storing a loaded image keeps the array well formed, so the loaders establish \<open>images_ok\<close>.\<close>

lemma images_update_ok:
  "images_ok imgs \<Longrightarrow> load_sahara_image z fs n = Some i \<Longrightarrow> images_ok (imgs[k := i])"
  using load_sahara_image_ok set_update_subset_insert [of imgs k i]
  by (fastforce simp: images_ok_def list_all_iff)

lemma store_image_inside [simp]: "i < length imgs \<Longrightarrow> store_image imgs i im = imgs[i := im]"
  by (simp add: store_image_def)

lemma store_image_ok: "images_ok imgs \<Longrightarrow> i < MAPPING_SZ \<Longrightarrow> image_ok im \<Longrightarrow> images_ok (store_image imgs i im)"
  using set_update_subset_insert [of imgs i im] by (fastforce simp: images_ok_def list_all_iff)

lemma store_image_bad: "images_ok imgs \<Longrightarrow> MAPPING_SZ \<le> i \<Longrightarrow> \<not> images_ok (store_image imgs i im)"
  by (simp add: images_ok_def store_image_def)

lemma store_image_0: "0 < i \<Longrightarrow> imgs \<noteq> [] \<Longrightarrow> store_image imgs i im ! 0 = imgs ! 0"
  by (simp add: store_image_def nth_append)

subsection \<open>Properties\<close>

lemma c_strtol_dec:
  "p < 2 ^ 63 \<Longrightarrow> no_digit rest \<Longrightarrow> c_strtol 10 (show_dec p @ rest) = (int p, False, Some rest)"
  by (simp add: c_strtol_def scan_number_dec)

lemma c_strtoul_dec:
  "n < 2 ^ 64 \<Longrightarrow> no_digit rest \<Longrightarrow> c_strtoul 10 (show_dec n @ rest) = (of_nat n, False, Some rest)"
  by (simp add: c_strtoul_def scan_number_dec ulong_max_def)

text \<open>
  A full address \<open>N/S+L\<close> parses to its three numbers, cut to the widths of the variables they
  are stored in: the partition to a signed and the sector and length to an unsigned 32-bit value.
\<close>

theorem parse_storage_address_range:
  assumes "p < 2 ^ 63" "s < 2 ^ 64" "0 < l" "l < 2 ^ 64"
  shows "parse_storage_address (show_dec p @ ''/'' @ show_dec s @ ''+'' @ show_dec l)
    = Some (to_int (int p), of_nat s, of_nat l, None)"
proof -
  have *: "(ucast (of_nat n :: u64) :: u32) = of_nat n" if "n < 2 ^ 64" for n
    using that by (simp add: unsigned_of_nat take_bit_nat_eq_self)
  have nz: "(of_nat l :: u64) \<noteq> 0"
    using assms(3,4) by (simp add: word_of_nat_eq_0_iff nat_dvd_not_less)
  show ?thesis
    using assms nz c_strtoul_dec [of l "[]"]
    by (simp add: parse_storage_address_def c_strtol_dec c_strtoul_dec no_digit_def c_isdigit_def
        digit_val_def * ulong_max_def)
qed

lemma parse_storage_address_range_witness:
  "parse_storage_address (show_dec 1 @ ''/'' @ show_dec (2 ^ 32 + 5) @ ''+'' @ show_dec 8)
     = Some (1, 5, 8, None)"
  using parse_storage_address_range [of 1 "2 ^ 32 + 5" 8] by (simp add: to_int_def)

end
