(* ===== verification/Sparse.thy ===== *)
theory Sparse
  imports FileIo
begin

text \<open>
  \<open>src/sparse.c\<close>: the headers of Android sparse images. Beside the parsers stands a
  description of the format from the writer's side (\<open>encode_chunk\<close>), and the lemma that parsing
  a written chunk gives back its kind, its size and where its data lies.
\<close>

record sparse_header =
  sh_magic :: u32
  sh_major :: u16
  sh_minor :: u16
  sh_file_hdr_sz :: u16
  sh_chunk_hdr_sz :: u16
  sh_blk_sz :: u32
  sh_total_blks :: u32
  sh_total_chunks :: u32

abbreviation SPARSE_HEADER_MAGIC :: u32 where "SPARSE_HEADER_MAGIC \<equiv> 0xed26ff3a"
abbreviation SPARSE_HEADER_SIZE :: nat where "SPARSE_HEADER_SIZE \<equiv> 28"
abbreviation CHUNK_HEADER_SIZE :: nat where "CHUNK_HEADER_SIZE \<equiv> 12"

definition decode_sparse_header :: "u8 list \<Rightarrow> sparse_header" where
  "decode_sparse_header b =
     \<lparr>sh_magic = get_le32 0 b, sh_major = get_le16 4 b, sh_minor = get_le16 6 b,
      sh_file_hdr_sz = get_le16 8 b, sh_chunk_hdr_sz = get_le16 10 b, sh_blk_sz = get_le32 12 b,
      sh_total_blks = get_le32 16 b, sh_total_chunks = get_le32 20 b\<rparr>"

text \<open>\<open>sparse_header_parse\<close>: the result of the first two seeks is ignored, as in the code.\<close>

definition sparse_header_parse :: "qdl_file \<Rightarrow> (int + sparse_header) \<times> qdl_file" where
  "sparse_header_parse f0 =
     (let f = snd (qdl_file_seek f0 0 SEEK_SET) in
      case qdl_file_read f SPARSE_HEADER_SIZE of
        (None, f1) \<Rightarrow> (Inl (- EINVAL), f1)
      | (Some b, f1) \<Rightarrow>
          if length b \<noteq> SPARSE_HEADER_SIZE then (Inl (- EINVAL), f1)
          else let h = decode_sparse_header b in
            if sh_magic h \<noteq> SPARSE_HEADER_MAGIC then (Inl (- EINVAL), f1)
            else if sh_major h \<noteq> 1 then (Inl (- EINVAL), f1)
            else if sh_minor h \<noteq> 0 then (Inl (- EINVAL), f1)
            else if unat (sh_file_hdr_sz h) > SPARSE_HEADER_SIZE
              then (Inr h, snd (qdl_file_seek f1 (int (unat (sh_file_hdr_sz h) - SPARSE_HEADER_SIZE)) SEEK_CUR))
              else (Inr h, f1))"

datatype chunk_kind = CHUNK_TYPE_RAW | CHUNK_TYPE_FILL | CHUNK_TYPE_DONT_CARE

text \<open>
  What \<open>sparse_chunk_header_parse\<close> hands back through its out parameters: the chunk's size in
  the output image, the fill value, and the offset of raw data in the file.
\<close>

record chunk_info =
  ck_kind :: chunk_kind
  ck_size :: u64
  ck_value :: u32
  ck_offset :: int

definition sparse_chunk_header_parse ::
  "qdl_file \<Rightarrow> sparse_header \<Rightarrow> (int + chunk_info) \<times> qdl_file" where
  "sparse_chunk_header_parse f h =
     (case qdl_file_read f CHUNK_HEADER_SIZE of
        (None, f1) \<Rightarrow> (Inl (- EINVAL), f1)
      | (Some b, f1) \<Rightarrow>
          if length b \<noteq> CHUNK_HEADER_SIZE then (Inl (- EINVAL), f1)
          else
            let ext = unat (sh_chunk_hdr_sz h) - CHUNK_HEADER_SIZE;
                (sk, f2) = (if unat (sh_chunk_hdr_sz h) > CHUNK_HEADER_SIZE
                  then qdl_file_seek f1 (int ext) SEEK_CUR else (0, f1))
            in if sk < 0 then (Inl (- EINVAL), f2)
            else
              let type = get_le16 0 b;
                  chunk_size = (ucast (get_le32 4 b) * ucast (sh_blk_sz h) :: u64);
                  total_sz = (ucast (get_le32 8 b) :: u64);
                  hdr_sz = (ucast (sh_chunk_hdr_sz h) :: u64)
              in if type = 0xCAC1 then
                   (if total_sz \<noteq> hdr_sz + chunk_size then (Inl (- EINVAL), f2)
                    else case qdl_file_seek f2 0 SEEK_CUR of
                      (offset, f3) \<Rightarrow>
                        if offset < 0 then (Inl (- EINVAL), f3)
                        else case qdl_file_seek f3 (sint chunk_size) SEEK_CUR of
                          (r, f4) \<Rightarrow>
                            if r < 0 then (Inl (- EINVAL), f4)
                            else (Inr \<lparr>ck_kind = CHUNK_TYPE_RAW, ck_size = chunk_size, ck_value = 0, ck_offset = offset\<rparr>, f4))
                 else if type = 0xCAC3 then
                   (if total_sz \<noteq> hdr_sz then (Inl (- EINVAL), f2)
                    else (Inr \<lparr>ck_kind = CHUNK_TYPE_DONT_CARE, ck_size = chunk_size, ck_value = 0, ck_offset = 0\<rparr>, f2))
                 else if type = 0xCAC2 then
                   (if total_sz \<noteq> hdr_sz + 4 then (Inl (- EINVAL), f2)
                    else case qdl_file_read f2 4 of
                      (None, f3) \<Rightarrow> (Inl (- EINVAL), f3)
                    | (Some v, f3) \<Rightarrow>
                        if length v \<noteq> 4 then (Inl (- EINVAL), f3)
                        else (Inr \<lparr>ck_kind = CHUNK_TYPE_FILL, ck_size = chunk_size, ck_value = get_le32 0 v, ck_offset = 0\<rparr>, f3))
                 else (Inl (- EINVAL), f2))"

subsection \<open>The format from the writer's side\<close>

text \<open>A chunk of \<open>n\<close> blocks: literal data, a repeated 32-bit value, or a hole.\<close>

datatype chunk = Raw nat "u8 list" | Fill nat u32 | Skip nat

fun chunk_blocks :: "chunk \<Rightarrow> nat" where
  "chunk_blocks (Raw n d) = n"
| "chunk_blocks (Fill n v) = n"
| "chunk_blocks (Skip n) = n"

definition chunk_head :: "nat \<Rightarrow> nat \<Rightarrow> nat \<Rightarrow> u8 list" where
  "chunk_head ty n tsz = le_enc 2 ty @ le_enc 2 0 @ le_enc 4 n @ le_enc 4 tsz"

fun encode_chunk :: "chunk \<Rightarrow> u8 list" where
  "encode_chunk (Raw n d) = chunk_head 0xCAC1 n (12 + length d) @ d"
| "encode_chunk (Fill n v) = chunk_head 0xCAC2 n 16 @ put_le32 v"
| "encode_chunk (Skip n) = chunk_head 0xCAC3 n 12"

text \<open>A chunk the format can hold, for a block size \<open>bs\<close>.\<close>

fun chunk_ok :: "nat \<Rightarrow> chunk \<Rightarrow> bool" where
  "chunk_ok bs (Raw n d) = (length d = n * bs \<and> n < 2 ^ 32 \<and> 12 + n * bs < 2 ^ 32)"
| "chunk_ok bs (Fill n v) = (n < 2 ^ 32)"
| "chunk_ok bs (Skip n) = (n < 2 ^ 32)"

text \<open>What parsing such a chunk, written at offset \<open>pos\<close>, should give.\<close>

fun chunk_view :: "nat \<Rightarrow> nat \<Rightarrow> chunk \<Rightarrow> chunk_info" where
  "chunk_view bs pos (Raw n d) =
     \<lparr>ck_kind = CHUNK_TYPE_RAW, ck_size = of_nat (n * bs), ck_value = 0, ck_offset = int (pos + 12)\<rparr>"
| "chunk_view bs pos (Fill n v) =
     \<lparr>ck_kind = CHUNK_TYPE_FILL, ck_size = of_nat (n * bs), ck_value = v, ck_offset = 0\<rparr>"
| "chunk_view bs pos (Skip n) =
     \<lparr>ck_kind = CHUNK_TYPE_DONT_CARE, ck_size = of_nat (n * bs), ck_value = 0, ck_offset = 0\<rparr>"

lemma length_chunk_head [simp]: "length (chunk_head ty n tsz) = 12"
  by (simp add: chunk_head_def)

lemma chunk_head_fields:
  "ty < 2 ^ 16 \<Longrightarrow> get_le16 0 (chunk_head ty n tsz) = of_nat ty"
  "n < 2 ^ 32 \<Longrightarrow> get_le32 4 (chunk_head ty n tsz) = of_nat n"
  "tsz < 2 ^ 32 \<Longrightarrow> get_le32 8 (chunk_head ty n tsz) = of_nat tsz"
  by (simp_all add: chunk_head_def get_le16_def get_le32_def sub_buf_def le_nat_le_enc)

lemma get_put_le32_0: "get_le32 0 (put_le32 w) = w"
  using get_put_le32 [of "[]" w "[]"] by simp

text \<open>The place of a piece of the file, and reading there.\<close>

definition file_has :: "qdl_file \<Rightarrow> u8 list \<Rightarrow> bool" where
  "file_has f bs \<longleftrightarrow> (\<exists>pre post. ff_data f = pre @ bs @ post \<and> length pre = ff_pos f)"

lemma file_has_read:
  assumes "whole_reads f" "file_has f (a @ b)"
  shows "qdl_file_read f (length a) = (Some a, f\<lparr>ff_pos := ff_pos f + length a\<rparr>)"
    and "file_has (f\<lparr>ff_pos := ff_pos f + length a\<rparr>) b"
proof -
  obtain pre post where p: "ff_data f = pre @ a @ b @ post" "length pre = ff_pos f"
    using assms(2) by (auto simp: file_has_def)
  then have "sub_buf (ff_pos f) (length a) (ff_data f) = a" by (simp add: sub_buf_def)
  then show "qdl_file_read f (length a) = (Some a, f\<lparr>ff_pos := ff_pos f + length a\<rparr>)"
    using whole_read [OF assms(1), of "length a"] p by simp
  show "file_has (f\<lparr>ff_pos := ff_pos f + length a\<rparr>) b"
    unfolding file_has_def using p by (intro exI [of _ "pre @ a"] exI [of _ post]) simp
qed

lemma file_has_split: "file_has f (a @ b) \<Longrightarrow> file_has f a"
  by (auto simp: file_has_def)

lemma chunk_size_word:
  "n < 2 ^ 32 \<Longrightarrow> (ucast (of_nat n :: u32) :: u64) * ucast bs = of_nat (n * unat bs)"
proof -
  assume "n < 2 ^ 32"
  then have "(ucast (of_nat n :: u32) :: u64) = of_nat n"
    by (simp add: unsigned_of_nat take_bit_nat_eq_self)
  then show ?thesis by simp
qed

text \<open>Parsing a written chunk: the out parameters, and the position right behind the chunk.\<close>

lemma parse_chunk:
  assumes f: "whole_reads f" "file_has f (encode_chunk c @ rest)"
    and h: "sh_chunk_hdr_sz h = 12" "chunk_ok (unat (sh_blk_sz h)) c"
    and sz: "length (ff_data f) < 2 ^ 62"
  shows "sparse_chunk_header_parse f h =
      (Inr (chunk_view (unat (sh_blk_sz h)) (ff_pos f) c), f\<lparr>ff_pos := ff_pos f + length (encode_chunk c)\<rparr>)
    \<and> file_has (f\<lparr>ff_pos := ff_pos f + length (encode_chunk c)\<rparr>) rest"
proof -
  have pos: "ff_pos f + length (encode_chunk c) < 2 ^ 62"
    using f(2) sz by (auto simp: file_has_def)
  show ?thesis
  proof (cases c)
    case (Skip n)
    have r: "file_has f (chunk_head 0xCAC3 n 12 @ rest)" using f(2) Skip by simp
    show ?thesis
      using file_has_read [OF f(1) r] h Skip chunk_size_word [of n "sh_blk_sz h"]
      by (simp add: sparse_chunk_header_parse_def chunk_head_fields Let_def)
  next
    case (Fill n v)
    have r: "file_has f (chunk_head 0xCAC2 n 16 @ put_le32 v @ rest)" using f(2) Fill by simp
    have r2: "file_has (f\<lparr>ff_pos := ff_pos f + 12\<rparr>) (put_le32 v @ rest)"
      using file_has_read(2) [OF f(1) r] by simp
    show ?thesis
      using file_has_read [OF f(1) r] file_has_read [OF _ r2] f(1) h Fill
        chunk_size_word [of n "sh_blk_sz h"]
      by (simp add: sparse_chunk_header_parse_def chunk_head_fields Let_def get_put_le32_0
          add.commute [of 16])
  next
    case (Raw n d)
    let ?f1 = "f\<lparr>ff_pos := ff_pos f + 12\<rparr>"
    have r: "file_has f (chunk_head 0xCAC1 n (12 + length d) @ d @ rest)" using f(2) Raw by simp
    have r2: "file_has ?f1 (d @ rest)"
      using file_has_read(2) [OF f(1) r] by simp
    have ld: "length d = n * unat (sh_blk_sz h)" "n < 2 ^ 32" "12 + length d < 2 ^ 32"
      using h(2) Raw by auto
    have sk0: "qdl_file_seek ?f1 0 SEEK_CUR = (int (ff_pos f + 12), ?f1)"
      using whole_seek_cur [of ?f1 0] f(1) pos Raw by simp
    have sk: "qdl_file_seek ?f1 (int (length d)) SEEK_CUR
        = (int (ff_pos f + 12 + length d), f\<lparr>ff_pos := ff_pos f + 12 + length d\<rparr>)"
      using whole_seek_cur [of ?f1 "length d"] f(1) pos Raw by simp
    have cs: "(ucast (of_nat n :: u32) :: u64) * ucast (sh_blk_sz h) = of_nat (length d)"
      using chunk_size_word [OF ld(2), of "sh_blk_sz h"] ld(1) by simp
    have si: "sint (of_nat (length d) :: u64) = int (length d)"
      using ld(3) by (intro sint_of_nat_small) simp
    have tot: "(ucast (of_nat (12 + length d) :: u32) :: u64) = 12 + of_nat (length d)"
      using ld(3) by (simp add: unsigned_of_nat take_bit_nat_eq_self del: of_nat_add) simp
    show ?thesis
      using file_has_read [OF f(1) r] file_has_read(2) [OF _ r2] f(1) h(1) Raw sk0 sk ld(2,3)
      by (simp add: sparse_chunk_header_parse_def chunk_head_fields Let_def cs si tot add.assoc
          ld(1) [symmetric] del: of_nat_mult of_nat_add)
  qed
qed

end
