(* ===== verification/QdlList.thy ===== *)
theory QdlList
  imports Prelude
begin

text \<open>
  \<open>src/list.h\<close>: the intrusive circular doubly linked list every queue of operations is kept
  in. Nodes are addresses, the heap holds the two link fields of each, and the operations
  perform the code's stores in the code's order. \<open>linked h l xs\<close> says that the list headed by
  \<open>l\<close> is the sequence \<open>xs\<close>; the contract the loaders rely on is a locale over that relation, so
  that the rest of the development can treat a queue as an Isabelle list.
\<close>

type_synonym addr = nat

record links =
  l_next :: "addr \<Rightarrow> addr"
  l_prev :: "addr \<Rightarrow> addr"

abbreviation set_next :: "addr \<Rightarrow> addr \<Rightarrow> links \<Rightarrow> links" where
  "set_next a v h \<equiv> h\<lparr>l_next := (l_next h)(a := v)\<rparr>"

abbreviation set_prev :: "addr \<Rightarrow> addr \<Rightarrow> links \<Rightarrow> links" where
  "set_prev a v h \<equiv> h\<lparr>l_prev := (l_prev h)(a := v)\<rparr>"

subsection \<open>Operations\<close>

definition list_init :: "links \<Rightarrow> addr \<Rightarrow> links" where
  "list_init h l = set_next l l (set_prev l l h)"

definition list_empty :: "links \<Rightarrow> addr \<Rightarrow> bool" where
  "list_empty h l \<longleftrightarrow> l_next h l = l"

definition list_prepend :: "links \<Rightarrow> addr \<Rightarrow> addr \<Rightarrow> links" where
  "list_prepend h l item =
     (let first = l_next h l;
          h1 = set_next item first h;
          h2 = set_prev item l h1;
          h3 = set_next l item h2
      in set_prev first item h3)"

definition list_append :: "links \<Rightarrow> addr \<Rightarrow> addr \<Rightarrow> links" where
  "list_append h l item =
     (let prev = l_prev h l;
          h1 = set_next item l h;
          h2 = set_prev item prev h1;
          h3 = set_next prev item h2
      in set_prev l item h3)"

definition list_del :: "links \<Rightarrow> addr \<Rightarrow> links" where
  "list_del h item =
     (let h1 = set_next (l_prev h item) (l_next h item) h
      in set_prev (l_next h1 item) (l_prev h1 item) h1)"

text \<open>
  \<open>list_for_each\<close>: the nodes visited from \<open>item\<close> on until the head comes round; the fuel bounds
  the number of steps, \<open>None\<close> means the walk had not ended.
\<close>

fun list_walk :: "nat \<Rightarrow> links \<Rightarrow> addr \<Rightarrow> addr \<Rightarrow> addr list option" where
  "list_walk 0 h l item = None"
| "list_walk (Suc n) h l item =
     (if item = l then Some [] else map_option (Cons item) (list_walk n h l (l_next h item)))"

definition list_for_each :: "nat \<Rightarrow> links \<Rightarrow> addr \<Rightarrow> addr list option" where
  "list_for_each n h l = list_walk n h l (l_next h l)"

subsection \<open>The sequence a heap represents\<close>

fun seg :: "links \<Rightarrow> addr \<Rightarrow> addr list \<Rightarrow> addr \<Rightarrow> bool" where
  "seg h a [] b = (l_next h a = b \<and> l_prev h b = a)"
| "seg h a (x # xs) b = (l_next h a = x \<and> l_prev h x = a \<and> seg h x xs b)"

definition linked :: "links \<Rightarrow> addr \<Rightarrow> addr list \<Rightarrow> bool" where
  "linked h l xs \<longleftrightarrow> distinct (l # xs) \<and> seg h l xs l"

lemma seg_append: "seg h a (xs @ y # ys) b \<longleftrightarrow> seg h a xs y \<and> seg h y ys b"
  by (induction xs arbitrary: a) auto

lemma seg_frame:
  assumes "seg h a xs b"
    and "\<And>n. n \<in> insert a (set xs) \<Longrightarrow> l_next h' n = l_next h n"
    and "\<And>n. n \<in> insert b (set xs) \<Longrightarrow> l_prev h' n = l_prev h n"
  shows "seg h' a xs b"
  using assms by (induction xs arbitrary: a) auto

lemma linked_init: "linked (list_init h l) l []"
  by (simp add: linked_def list_init_def)

lemma linked_empty: "linked h l xs \<Longrightarrow> list_empty h l \<longleftrightarrow> xs = []"
  by (cases xs) (auto simp: linked_def list_empty_def)

lemma linked_append:
  assumes "linked h l xs" "x \<notin> insert l (set xs)"
  shows "linked (list_append h l x) l (xs @ [x])"
proof (cases xs rule: rev_cases)
  case Nil
  with assms show ?thesis by (simp add: linked_def list_append_def Let_def)
next
  case (snoc zs p)
  have d: "distinct (l # zs @ [p])" "x \<notin> insert l (insert p (set zs))"
    using assms snoc by (auto simp: linked_def)
  have s: "seg h l zs p" "l_next h p = l" "l_prev h l = p"
    using assms(1) snoc seg_append [of h l zs p "[]" l] by (auto simp: linked_def)
  have "seg (list_append h l x) l zs p"
    by (rule seg_frame [OF s(1)]) (use d s in \<open>auto simp: list_append_def Let_def\<close>)
  then have "seg (list_append h l x) l (zs @ p # [x]) l"
    unfolding seg_append using d s by (auto simp: list_append_def Let_def)
  with d snoc show ?thesis by (auto simp: linked_def)
qed

lemma linked_prepend:
  assumes "linked h l xs" "x \<notin> insert l (set xs)"
  shows "linked (list_prepend h l x) l (x # xs)"
proof (cases xs)
  case Nil
  with assms show ?thesis by (auto simp: linked_def list_prepend_def Let_def)
next
  case (Cons y ys)
  have d: "distinct (l # y # ys)" "x \<notin> insert l (insert y (set ys))"
    using assms Cons by (auto simp: linked_def)
  have s: "l_next h l = y" "l_prev h y = l" "seg h y ys l"
    using assms(1) Cons by (auto simp: linked_def)
  have "seg (list_prepend h l x) y ys l"
    by (rule seg_frame [OF s(3)]) (use d s in \<open>auto simp: list_prepend_def Let_def\<close>)
  with d s Cons show ?thesis by (auto simp: linked_def list_prepend_def Let_def)
qed

lemma linked_del:
  assumes "linked h l (xs @ x # ys)"
  shows "linked (list_del h x) l (xs @ ys)"
proof -
  have d: "distinct (l # xs @ x # ys)" and s: "seg h l xs x" "seg h x ys l"
    using assms seg_append [of h l xs x ys l] by (auto simp: linked_def)
  define p where "p = last (l # xs)"
  define n where "n = hd (ys @ [l])"
  have p: "l_prev h x = p" using s(1) unfolding p_def by (induction xs arbitrary: l) auto
  have n: "l_next h x = n" using s(2) unfolding n_def by (cases ys) auto
  have pin: "p \<in> insert l (set xs)" by (simp add: p_def)
  have px: "p \<noteq> x" and nx: "n \<noteq> x"
    using d by (auto simp: p_def n_def hd_append split: if_splits list.splits)
  have del: "list_del h x = h\<lparr>l_next := (l_next h)(p := n), l_prev := (l_prev h)(n := p)\<rparr>"
    using px by (auto simp: list_del_def Let_def p n)
  have left: "seg h' l xs n"
    if "h' = list_del h x" for h'
  proof (cases xs rule: rev_cases)
    case Nil
    then show ?thesis using that del p_def by simp
  next
    case (snoc zs q)
    then have q: "p = q" "seg h l zs q" using s(1) seg_append [of h l zs q "[]" x] p_def by auto
    have "n \<notin> insert q (set zs)" using d snoc by (auto simp: n_def hd_append split: list.splits)
    then have "seg h' l zs q"
      by (intro seg_frame [OF q(2)]) (use d snoc q that del in auto)
    then show ?thesis using snoc q that del seg_append [of h' l zs q "[]" n] by simp
  qed
  show ?thesis
  proof (cases ys)
    case Nil
    then show ?thesis using left [OF refl] d by (simp add: linked_def n_def)
  next
    case (Cons y zs)
    then have y: "n = y" "seg h y zs l" using s(2) n_def by auto
    have "seg (list_del h x) y zs l"
      by (rule seg_frame [OF y(2)]) (use d Cons y pin del in auto)
    then show ?thesis using left [OF refl] d Cons y(1) by (simp add: linked_def seg_append)
  qed
qed

lemma walk_seg: "seg h a xs l \<Longrightarrow> l \<notin> set xs \<Longrightarrow> length xs < n \<Longrightarrow> list_walk n h l (l_next h a) = Some xs"
proof (induction xs arbitrary: a n)
  case Nil
  then show ?case by (cases n) auto
next
  case (Cons x xs)
  then show ?case by (cases n) auto
qed

lemma linked_walk: "linked h l xs \<Longrightarrow> length xs < n \<Longrightarrow> list_for_each n h l = Some xs"
  by (simp add: linked_def list_for_each_def walk_seg)

subsection \<open>The contract of a queue\<close>

locale node_queue =
  fixes repr :: "'h \<Rightarrow> addr \<Rightarrow> addr list \<Rightarrow> bool"
    and init :: "'h \<Rightarrow> addr \<Rightarrow> 'h"
    and app :: "'h \<Rightarrow> addr \<Rightarrow> addr \<Rightarrow> 'h"
    and del :: "'h \<Rightarrow> addr \<Rightarrow> 'h"
    and walk :: "nat \<Rightarrow> 'h \<Rightarrow> addr \<Rightarrow> addr list option"
  assumes repr_init: "repr (init h l) l []"
    and repr_app: "repr h l xs \<Longrightarrow> x \<notin> insert l (set xs) \<Longrightarrow> repr (app h l x) l (xs @ [x])"
    and repr_del: "repr h l (xs @ x # ys) \<Longrightarrow> repr (del h x) l (xs @ ys)"
    and repr_walk: "repr h l xs \<Longrightarrow> length xs < n \<Longrightarrow> walk n h l = Some xs"
begin

lemma repr_app_all:
  "repr h l xs \<Longrightarrow> distinct ys \<Longrightarrow> set ys \<inter> insert l (set xs) = {} \<Longrightarrow>
   repr (foldl (\<lambda>h x. app h l x) h ys) l (xs @ ys)"
proof (induction ys arbitrary: h xs)
  case (Cons y ys)
  have "repr (app h l y) l (xs @ [y])" using Cons.prems by (intro repr_app) auto
  from Cons.IH [OF this] Cons.prems show ?case by auto
qed simp

lemma walk_app_all:
  assumes "distinct ys" "l \<notin> set ys" "length ys < n"
  shows "walk n (foldl (\<lambda>h x. app h l x) (init h l) ys) l = Some ys"
  using repr_app_all [OF repr_init, of ys] assms by (auto intro: repr_walk)

lemma walk_del:
  assumes "distinct (l # xs @ x # ys)" "length (xs @ ys) < n"
  shows "walk n (del (foldl (\<lambda>h x. app h l x) (init h l) (xs @ x # ys)) x) l = Some (xs @ ys)"
proof -
  have "repr (foldl (\<lambda>h x. app h l x) (init h l) (xs @ x # ys)) l ([] @ xs @ x # ys)"
    using assms(1) by (intro repr_app_all repr_init) auto
  then show ?thesis using assms(2) by (intro repr_walk repr_del) auto
qed

end

interpretation qdl_list: node_queue linked list_init list_append list_del list_for_each
  by unfold_locales (auto simp: linked_init linked_append linked_del linked_walk)

text \<open>
  The intrusive list is a first-in first-out queue with removal: after \<open>list_init\<close> and
  appending distinct nodes, removing one of them and walking the list visits exactly the other
  nodes, in the order they were appended.
\<close>

theorem list_append_del_walk:
  assumes "distinct (l # xs @ x # ys)" "length (xs @ ys) < n"
  shows "list_for_each n (list_del (foldl (\<lambda>h y. list_append h l y) (list_init h l) (xs @ x # ys)) x) l
     = Some (xs @ ys)"
  using assms by (rule qdl_list.walk_del)

lemma list_append_del_walk_witness:
  "list_for_each 4 (list_del (foldl (\<lambda>h y. list_append h 9 y)
      (list_init \<lparr>l_next = \<lambda>_. 0, l_prev = \<lambda>_. 0\<rparr> 9) [1, 2, 3]) 2) 9 = Some [1, 3]"
  using list_append_del_walk [of 9 "[1]" 2 "[3]" 4] by simp

end
