(* ===== verification/FirehoseOp.thy ===== *)
theory FirehoseOp
  imports Util Sparse QdlList
begin

text \<open>
  \<open>struct firehose_op\<close> of \<open>src/firehose.h\<close>: one queued operation. A queue is the Isabelle list of
  its operations in order; \<open>QdlList\<close> shows that the intrusive list of the code is one. An archive
  handle is the archive's lookup function.
\<close>

datatype firehose_op_type =
    FIREHOSE_OP_NONE | FIREHOSE_OP_CONFIGURE | FIREHOSE_OP_PROGRAM | FIREHOSE_OP_ERASE
  | FIREHOSE_OP_READ | FIREHOSE_OP_PATCH | FIREHOSE_OP_SET_BOOTABLE | FIREHOSE_OP_RESET
  | FIREHOSE_OP_GET_SHA256_DIGEST

record firehose_op =
  op_type :: firehose_op_type
  op_partition :: int
  op_sector_size :: u32
  op_zip :: "file_system option"
  op_filename :: "string option"
  op_start_sector :: "string option"
  op_num_sectors :: u32
  op_gpt_partition :: "string option"
  op_pages_per_block :: u32
  op_file_offset :: u32
  op_label :: "string option"
  op_sparse :: bool
  op_last_sector :: u32
  op_is_nand :: bool
  op_sparse_chunk_type :: "chunk_kind option"
  op_sparse_fill_value :: u32
  op_sparse_offset :: int
  op_byte_offset :: u32
  op_size_in_bytes :: u32
  op_value :: "string option"
  op_what :: "string option"
  op_storage_type :: storage_type
  op_digest :: "u8 list"
  op_digest_valid :: bool

text \<open>\<open>firehose_alloc_op\<close>: all zero but the type.\<close>

definition firehose_alloc_op :: "firehose_op_type \<Rightarrow> firehose_op" where
  "firehose_alloc_op type =
     \<lparr>op_type = type, op_partition = 0, op_sector_size = 0, op_zip = None, op_filename = None,
      op_start_sector = None, op_num_sectors = 0, op_gpt_partition = None, op_pages_per_block = 0,
      op_file_offset = 0, op_label = None, op_sparse = False, op_last_sector = 0, op_is_nand = False,
      op_sparse_chunk_type = None, op_sparse_fill_value = 0, op_sparse_offset = 0, op_byte_offset = 0,
      op_size_in_bytes = 0, op_value = None, op_what = None, op_storage_type = QDL_STORAGE_UNKNOWN,
      op_digest = replicate 32 0, op_digest_valid = False\<rparr>"

text \<open>An unsigned 32-bit value stored in an \<open>int\<close>, and the decimal text \<open>sprintf("%u")\<close> makes of it.\<close>

definition int_of_u32 :: "u32 \<Rightarrow> int" where
  "int_of_u32 w = sint w"

abbreviation show_u32 :: "u32 \<Rightarrow> string" where
  "show_u32 w \<equiv> show_dec (unat w)"

lemma ucast_up_down [simp]: "ucast (ucast (w :: u32) :: u64) = w"
  by transfer (simp add: min_def)

text \<open>Reading back a printed sector, as the loaders do with \<open>strtoul(s, NULL, 0)\<close>.\<close>

lemma strtoul_show_u32: "ucast (strtoul_val 0 (show_u32 w)) = w"
proof -
  have "c_strtoul 0 (show_u32 w) = (of_nat (unat w), False, Some [])"
    using less_trans [OF unat_u32_less [of w], of "2 ^ 64"] scan_number_dec0 [of "unat w"]
    by (simp add: c_strtoul_def ulong_max_def not_less)
  then show ?thesis by simp
qed

subsection \<open>Loading a list of nodes\<close>

text \<open>
  The loaders walk the children of the root element, skip what is no element, hand each element
  to a function that may append operations, and stop at the first error.
\<close>

fun load_nodes :: "('op list \<Rightarrow> xml_node \<Rightarrow> int \<times> 'op list) \<Rightarrow> 'op list \<Rightarrow> xml_node list \<Rightarrow> int \<times> 'op list" where
  "load_nodes load ops [] = (0, ops)"
| "load_nodes load ops (node # nodes) =
     (if \<not> xn_element node then load_nodes load ops nodes
      else case load ops node of
        (r, ops') \<Rightarrow> if r \<noteq> 0 then (r, ops') else load_nodes load ops' nodes)"

text \<open>The contract they share: a loader only appends, whatever it returns.\<close>

locale appending_loader =
  fixes load :: "'op list \<Rightarrow> xml_node \<Rightarrow> int \<times> 'op list"
  assumes appends: "load ops node = (r, ops') \<Longrightarrow> \<exists>new. ops' = ops @ new"
begin

lemma load_nodes_appends: "load_nodes load ops ns = (r, ops') \<Longrightarrow> \<exists>new. ops' = ops @ new"
proof (induction ns arbitrary: ops)
  case (Cons n ns)
  obtain r1 ops1 where l: "load ops n = (r1, ops1)" by fastforce
  with appends obtain new1 where n1: "ops1 = ops @ new1" by blast
  show ?case
  proof (cases "xn_element n \<and> r1 = 0")
    case True
    then obtain new2 where "ops' = ops1 @ new2" using Cons.IH [of ops1] Cons.prems l by auto
    with n1 show ?thesis by simp
  qed (use Cons l n1 in \<open>auto split: if_splits\<close>)
qed simp

text \<open>Loading two batches is loading them one after the other.\<close>

lemma load_nodes_append:
  "load_nodes load ops (ns @ ms) =
     (case load_nodes load ops ns of (r, ops') \<Rightarrow> if r \<noteq> 0 then (r, ops') else load_nodes load ops' ms)"
  by (induction ns arbitrary: ops) (auto split: prod.splits)

end

end
