(* ===== verification/Program.thy ===== *)
theory Program
  imports FirehoseOp
begin

text \<open>
  \<open>src/program.c\<close>, \<open>src/patch.c\<close> and \<open>src/read.c\<close>: the loaders that turn XML descriptions and
  command-line addresses into queued operations, among them the expansion of sparse images.
  \<open>xmlReadFile\<close> and \<open>access\<close> are parameters, and so is the lookup in the contents database
  (\<open>contents_resolve_path\<close>), which gives a path when it finds the file.
\<close>

subsection \<open>Sparse images\<close>

definition sparse_op :: "firehose_op \<Rightarrow> u32 \<Rightarrow> chunk_info \<Rightarrow> firehose_op" where
  "sparse_op program num_sectors ck =
     (let o1 = (firehose_alloc_op FIREHOSE_OP_PROGRAM)
            \<lparr>op_pages_per_block := op_pages_per_block program, op_sector_size := op_sector_size program,
             op_file_offset := op_file_offset program, op_filename := op_filename program,
             op_label := op_label program, op_partition := op_partition program,
             op_sparse := op_sparse program, op_start_sector := op_start_sector program,
             op_last_sector := op_last_sector program, op_is_nand := op_is_nand program,
             op_sparse_chunk_type := Some (ck_kind ck), op_num_sectors := num_sectors\<rparr>
      in if ck_kind ck = CHUNK_TYPE_RAW then o1\<lparr>op_sparse_offset := ck_offset ck\<rparr>
         else o1\<lparr>op_sparse_fill_value := ck_value ck\<rparr>)"

text \<open>The loop over the chunks; \<open>n\<close> are left.\<close>

fun sparse_chunks ::
  "nat \<Rightarrow> sparse_header \<Rightarrow> firehose_op list \<Rightarrow> firehose_op \<Rightarrow> qdl_file
    \<Rightarrow> int \<times> firehose_op list \<times> firehose_op \<times> qdl_file" where
  "sparse_chunks 0 h ops program f = (0, ops, program, f)"
| "sparse_chunks (Suc n) h ops program f =
     (case sparse_chunk_header_parse f h of
        (Inl e, f') \<Rightarrow> (-1, ops, program, f')
      | (Inr ck, f') \<Rightarrow>
          let chunk_size = ck_size ck; ss = (ucast (op_sector_size program) :: u64) in
          if chunk_size = 0 then sparse_chunks n h ops program f'
          else if chunk_size mod ss \<noteq> 0 then (-1, ops, program, f')
          else if chunk_size div ss \<ge> 0xffffffff then (-1, ops, program, f')
          else
            let num = (ucast (chunk_size div ss) :: u32);
                ops' = (if ck_kind ck = CHUNK_TYPE_RAW \<or> ck_kind ck = CHUNK_TYPE_FILL
                        then ops @ [sparse_op program num ck] else ops);
                start = (case op_start_sector program of None \<Rightarrow> 0 | Some s \<Rightarrow> ucast (strtoul_val 0 s));
                program' = program\<lparr>op_start_sector := Some (show_u32 (start + num))\<rparr>
            in sparse_chunks n h ops' program' f')"

text \<open>
  \<open>program_load_sparse\<close>: 0 when the chunks were queued, 1 when the file turned out not to be
  sparse, -1 on an error.
\<close>

definition program_load_sparse ::
  "firehose_op list \<Rightarrow> firehose_op \<Rightarrow> qdl_file \<Rightarrow> int \<times> firehose_op list \<times> firehose_op \<times> qdl_file" where
  "program_load_sparse ops program file =
     (case sparse_header_parse file of
        (Inl e, f) \<Rightarrow>
          (case qdl_file_seek f 0 SEEK_END of
             (end_pos, f') \<Rightarrow>
               if int (unat (op_sector_size program)) * int (unat (op_num_sectors program)) = end_pos
               then (1, ops, program\<lparr>op_sparse := False\<rparr>, f')
               else (-1, ops, program, f'))
      | (Inr h, f) \<Rightarrow>
          if op_sector_size program = 0 then (-1, ops, program, f)
          else if op_start_sector program = None then (-1, ops, program, f)
          else sparse_chunks (unat (sh_total_chunks h)) h ops program f)"

subsection \<open>Program and erase tags\<close>

definition load_erase_tag :: "firehose_op list \<Rightarrow> xml_node \<Rightarrow> bool \<Rightarrow> int \<times> firehose_op list" where
  "load_erase_tag ops node is_nand =
     (let p = (firehose_alloc_op FIREHOSE_OP_ERASE)\<lparr>op_is_nand := is_nand\<rparr>;
          (ss, e1) = attr_as_unsigned node ''SECTOR_SIZE_IN_BYTES'' 0;
          (num, e2) = attr_as_unsigned node ''num_partition_sectors'' e1;
          (part, e3) = attr_as_unsigned node ''physical_partition_number'' e2;
          (start, e4) = attr_as_string node ''start_sector'' e3;
          (ppb, e5) = (if is_nand then attr_as_unsigned node ''PAGES_PER_BLOCK'' e4 else (0, e4));
          p' = p\<lparr>op_sector_size := ss, op_num_sectors := num, op_partition := int_of_u32 part,
                 op_start_sector := start, op_pages_per_block := ppb\<rparr>
      in if e5 \<noteq> 0 then (- EINVAL, ops)
         else if num = 0 then (- EINVAL, ops)
         else (0, ops @ [p']))"

text \<open>The C library's \<open>dirname\<close>.\<close>

definition strip_slashes :: "string \<Rightarrow> string" where
  "strip_slashes s = rev (dropWhile (\<lambda>c. c = CHR ''/'') (rev s))"

definition dirname :: "string \<Rightarrow> string" where
  "dirname p =
     (let s = strip_slashes p in
      if s = [] then (if p = [] then ''.'' else ''/'')
      else if CHR ''/'' \<notin> set s then ''.''
      else let d = strip_slashes (rev (dropWhile (\<lambda>c. c \<noteq> CHR ''/'') (rev s)))
           in if d = [] then ''/'' else d)"

text \<open>
  \<open>program_resolve_path\<close>: the contents database first, then the include directory, then the
  directory of the XML file; the name is kept when none of them has the file.
\<close>

definition program_resolve_path ::
  "firehose_op \<Rightarrow> string \<Rightarrow> (string \<Rightarrow> string option) \<Rightarrow> (string \<Rightarrow> bool) \<Rightarrow> string option
    \<Rightarrow> string \<Rightarrow> int \<times> firehose_op" where
  "program_resolve_path program program_file contents exists incdir filename =
     (if op_zip program \<noteq> None then (0, program)
      else case contents filename of
        Some resolved \<Rightarrow> (0, program\<lparr>op_filename := Some resolved\<rparr>)
      | None \<Rightarrow>
          (case (case incdir of None \<Rightarrow> None
                 | Some d \<Rightarrow> let c = path_join d filename in if exists c then Some c else None) of
             Some c \<Rightarrow> (0, program\<lparr>op_filename := Some c\<rparr>)
           | None \<Rightarrow>
               let d = dirname program_file in
               if d \<noteq> ''.'' then
                 (let c = d @ ''/'' @ filename in
                  if length c \<ge> PATH_MAX then (- ENAMETOOLONG, program)
                  else if exists c then (0, program\<lparr>op_filename := Some c\<rparr>)
                  else (0, program))
               else (0, program)))"

text \<open>The operation a program tag describes, and the number of missing attributes.\<close>

definition program_tag_op :: "xml_node \<Rightarrow> bool \<Rightarrow> file_system option \<Rightarrow> firehose_op \<times> nat" where
  "program_tag_op node is_nand archive =
     (let (ss, e1) = attr_as_unsigned node ''SECTOR_SIZE_IN_BYTES'' 0;
          (filename, e2) = attr_as_string node ''filename'' e1;
          (label, e3) = attr_as_string node ''label'' e2;
          (num, e4) = attr_as_unsigned node ''num_partition_sectors'' e3;
          (part, e5) = attr_as_unsigned node ''physical_partition_number'' e4;
          (sparse, e6) = attr_as_bool node ''sparse'' e5;
          (start, e7) = attr_as_string node ''start_sector'' e6;
          p = (firehose_alloc_op FIREHOSE_OP_PROGRAM)
              \<lparr>op_is_nand := is_nand, op_sector_size := ss, op_zip := archive, op_filename := filename,
               op_label := label, op_num_sectors := num, op_partition := int_of_u32 part,
               op_sparse := sparse, op_start_sector := start\<rparr>
      in if is_nand then
           (let (ppb, e8) = attr_as_unsigned node ''PAGES_PER_BLOCK'' e7;
                (last, e9) = (if xn_get node ''last_sector'' \<noteq> None
                  then attr_as_unsigned node ''last_sector'' e8 else (0, e8))
            in (p\<lparr>op_pages_per_block := ppb, op_last_sector := last\<rparr>, e9))
         else
           (let (off, e8) = attr_as_unsigned node ''file_sector_offset'' e7
            in (p\<lparr>op_file_offset := off\<rparr>, e8)))"

definition load_program_tag ::
  "firehose_op list \<Rightarrow> xml_node \<Rightarrow> bool \<Rightarrow> bool \<Rightarrow> file_system option \<Rightarrow> file_system \<Rightarrow> string
    \<Rightarrow> (string \<Rightarrow> string option) \<Rightarrow> (string \<Rightarrow> bool) \<Rightarrow> string option \<Rightarrow> int \<times> firehose_op list" where
  "load_program_tag ops node is_nand allow_missing archive fs program_file contents exists incdir =
     (let (program, errors) = program_tag_op node is_nand archive in
      if errors \<noteq> 0 then (-1, ops)
      else case op_filename program of
        None \<Rightarrow> (0, ops @ [program])
      | Some filename \<Rightarrow>
          (case program_resolve_path program program_file contents exists incdir filename of
             (ret, p1) \<Rightarrow>
               if ret < 0 then (-1, ops)
               else case qdl_file_open archive fs (the (op_filename p1)) of
                 None \<Rightarrow> if \<not> allow_missing then (-1, ops) else (0, ops @ [p1\<lparr>op_filename := None\<rparr>])
               | Some file \<Rightarrow>
                   if op_sparse p1 then
                     (case program_load_sparse ops p1 file of
                        (r, ops', p2, f') \<Rightarrow>
                          if r < 0 then (-1, ops')
                          else if r = 0 then (0, ops' @ [p2\<lparr>op_filename := None\<rparr>])
                          else (0, ops' @ [p2]))
                   else (0, ops @ [p1])))"

definition load_program_node ::
  "xml_node \<Rightarrow> bool \<Rightarrow> bool \<Rightarrow> file_system option \<Rightarrow> file_system \<Rightarrow> string
    \<Rightarrow> (string \<Rightarrow> string option) \<Rightarrow> (string \<Rightarrow> bool) \<Rightarrow> string option
    \<Rightarrow> firehose_op list \<Rightarrow> int \<times> firehose_op list" where
  "load_program_node node is_nand allow_missing archive fs program_file contents exists incdir ops =
     (if xn_name node = ''erase'' then load_erase_tag ops node is_nand
      else if xn_name node = ''program''
        then load_program_tag ops node is_nand allow_missing archive fs program_file contents exists incdir
      else (- EINVAL, ops))"

definition program_load_xml ::
  "firehose_op list \<Rightarrow> xml_node list \<Rightarrow> file_system option \<Rightarrow> file_system \<Rightarrow> string \<Rightarrow> bool \<Rightarrow> bool
    \<Rightarrow> (string \<Rightarrow> string option) \<Rightarrow> (string \<Rightarrow> bool) \<Rightarrow> string option \<Rightarrow> int \<times> firehose_op list" where
  "program_load_xml ops nodes archive fs program_file is_nand allow_missing contents exists incdir =
     load_nodes (\<lambda>ops node. load_program_node node is_nand allow_missing archive fs program_file
        contents exists incdir ops) ops nodes"

definition program_load ::
  "(string \<Rightarrow> xml_node list option) \<Rightarrow> firehose_op list \<Rightarrow> file_system \<Rightarrow> string \<Rightarrow> bool \<Rightarrow> bool
    \<Rightarrow> (string \<Rightarrow> string option) \<Rightarrow> (string \<Rightarrow> bool) \<Rightarrow> string option \<Rightarrow> int \<times> firehose_op list" where
  "program_load xmlReadFile ops fs program_file is_nand allow_missing contents exists incdir =
     (case xmlReadFile program_file of
        None \<Rightarrow> (- EINVAL, ops)
      | Some nodes \<Rightarrow> program_load_xml ops nodes None fs program_file is_nand allow_missing contents exists incdir)"

subsection \<open>Queries on the queue\<close>

definition program_find_partition :: "firehose_op list \<Rightarrow> string \<Rightarrow> firehose_op option" where
  "program_find_partition ops name =
     find (\<lambda>p. op_type p = FIREHOSE_OP_PROGRAM \<and> op_label p = Some name) ops"

text \<open>The partition number (or \<open>-ENOENT\<close>) and whether more than one label matched.\<close>

definition program_find_bootable_partition :: "firehose_op list \<Rightarrow> int \<times> bool" where
  "program_find_bootable_partition ops =
     (let part0 = (- ENOENT); multiple0 = False;
          part1 = (case program_find_partition ops ''xbl'' of Some p \<Rightarrow> op_partition p | None \<Rightarrow> part0);
          (part2, multiple2) = (case program_find_partition ops ''xbl_a'' of
              Some p \<Rightarrow> if part1 \<noteq> - ENOENT then (part1, True) else (op_partition p, multiple0)
            | None \<Rightarrow> (part1, multiple0))
      in (case program_find_partition ops ''sbl1'' of
              Some p \<Rightarrow> if part2 \<noteq> - ENOENT then (part2, True) else (op_partition p, multiple2)
            | None \<Rightarrow> (part2, multiple2)))"

definition program_is_sec_partition_flashed :: "firehose_op list \<Rightarrow> bool" where
  "program_is_sec_partition_flashed ops =
     (case program_find_partition ops ''secdata'' of
        None \<Rightarrow> False | Some p \<Rightarrow> op_filename p \<noteq> None)"

text \<open>\<open>erase_execute\<close> calls its callback and hands on the result.\<close>

definition erase_execute :: "('q \<Rightarrow> firehose_op \<Rightarrow> int \<times> 'q) \<Rightarrow> 'q \<Rightarrow> firehose_op \<Rightarrow> int \<times> 'q" where
  "erase_execute apply qdl op = apply qdl op"

subsection \<open>Commands\<close>

definition program_cmd_add :: "firehose_op list \<Rightarrow> string \<Rightarrow> string option \<Rightarrow> int \<times> firehose_op list" where
  "program_cmd_add ops address filename =
     (case parse_storage_address address of
        None \<Rightarrow> (-1, ops)
      | Some (part, start, num, gpt) \<Rightarrow>
          (0, ops @ [(firehose_alloc_op FIREHOSE_OP_PROGRAM)
             \<lparr>op_filename := filename, op_label := filename, op_num_sectors := num, op_partition := part,
              op_start_sector := Some (show_u32 start), op_gpt_partition := gpt\<rparr>]))"

definition erase_cmd_add :: "firehose_op list \<Rightarrow> string \<Rightarrow> int \<times> firehose_op list" where
  "erase_cmd_add ops address =
     (case parse_storage_address address of
        None \<Rightarrow> (-1, ops)
      | Some (part, start, num, gpt) \<Rightarrow>
          (0, ops @ [(firehose_alloc_op FIREHOSE_OP_ERASE)
             \<lparr>op_num_sectors := num, op_partition := part, op_start_sector := Some (show_u32 start),
              op_gpt_partition := gpt\<rparr>]))"

definition read_cmd_add :: "firehose_op list \<Rightarrow> string \<Rightarrow> string \<Rightarrow> int \<times> firehose_op list" where
  "read_cmd_add ops address filename =
     (case parse_storage_address address of
        None \<Rightarrow> (-1, ops)
      | Some (part, start, num, gpt) \<Rightarrow>
          if num = 0 \<and> gpt = None then (-1, ops)
          else (0, ops @ [(firehose_alloc_op FIREHOSE_OP_READ)
             \<lparr>op_filename := Some filename, op_partition := part, op_num_sectors := num,
              op_start_sector := Some (show_u32 start), op_gpt_partition := gpt\<rparr>]))"

definition sha256_cmd_add :: "firehose_op list \<Rightarrow> string \<Rightarrow> int \<times> firehose_op list" where
  "sha256_cmd_add ops address =
     (case parse_storage_address address of
        None \<Rightarrow> (-1, ops)
      | Some (part, start, num, gpt) \<Rightarrow>
          if num = 0 \<and> gpt = None then (-1, ops)
          else (0, ops @ [(firehose_alloc_op FIREHOSE_OP_GET_SHA256_DIGEST)
             \<lparr>op_partition := part, op_num_sectors := num,
              op_start_sector := Some (show_u32 start), op_gpt_partition := gpt\<rparr>]))"

subsection \<open>Patch and read files\<close>

definition load_patch_node :: "xml_node \<Rightarrow> firehose_op list \<Rightarrow> int \<times> firehose_op list" where
  "load_patch_node node ops =
     (if xn_name node \<noteq> ''patch'' then (0, ops)
      else
        let (ss, e1) = attr_as_unsigned node ''SECTOR_SIZE_IN_BYTES'' 0;
            (off, e2) = attr_as_unsigned node ''byte_offset'' e1;
            (filename, e3) = attr_as_string node ''filename'' e2;
            (part, e4) = attr_as_unsigned node ''physical_partition_number'' e3;
            (sz, e5) = attr_as_unsigned node ''size_in_bytes'' e4;
            (start, e6) = attr_as_string node ''start_sector'' e5;
            (val, e7) = attr_as_string node ''value'' e6;
            (what, e8) = attr_as_string node ''what'' e7
        in if e8 \<noteq> 0 then (- EINVAL, ops)
           else (0, ops @ [(firehose_alloc_op FIREHOSE_OP_PATCH)
              \<lparr>op_sector_size := ss, op_byte_offset := off, op_filename := filename,
               op_partition := int_of_u32 part, op_size_in_bytes := sz, op_start_sector := start,
               op_value := val, op_what := what\<rparr>]))"

definition patch_load_xml :: "firehose_op list \<Rightarrow> xml_node list \<Rightarrow> int \<times> firehose_op list" where
  "patch_load_xml ops nodes = load_nodes (\<lambda>ops node. load_patch_node node ops) ops nodes"

definition patch_load :: "(string \<Rightarrow> xml_node list option) \<Rightarrow> firehose_op list \<Rightarrow> string \<Rightarrow> int \<times> firehose_op list" where
  "patch_load xmlReadFile ops patch_file =
     (case xmlReadFile patch_file of None \<Rightarrow> (- EINVAL, ops) | Some nodes \<Rightarrow> patch_load_xml ops nodes)"

definition load_read_node ::
  "(string \<Rightarrow> bool) \<Rightarrow> string option \<Rightarrow> xml_node \<Rightarrow> firehose_op list \<Rightarrow> int \<times> firehose_op list" where
  "load_read_node exists incdir node ops =
     (if xn_name node \<noteq> ''read'' then (0, ops)
      else
        let (ss, e1) = attr_as_unsigned node ''SECTOR_SIZE_IN_BYTES'' 0;
            (filename, e2) = attr_as_string node ''filename'' e1;
            (part, e3) = attr_as_unsigned node ''physical_partition_number'' e2;
            (num, e4) = attr_as_unsigned node ''num_partition_sectors'' e3;
            (start, e5) = attr_as_string node ''start_sector'' e4;
            filename' = (case (incdir, filename) of
                (Some d, Some n) \<Rightarrow> if exists (path_join d n) then Some (path_join d n) else filename
              | _ \<Rightarrow> filename)
        in if e5 \<noteq> 0 then (- EINVAL, ops)
           else (0, ops @ [(firehose_alloc_op FIREHOSE_OP_READ)
              \<lparr>op_sector_size := ss, op_filename := filename', op_partition := int_of_u32 part,
               op_num_sectors := num, op_start_sector := start\<rparr>]))"

definition read_op_load ::
  "(string \<Rightarrow> xml_node list option) \<Rightarrow> (string \<Rightarrow> bool) \<Rightarrow> firehose_op list \<Rightarrow> string \<Rightarrow> string option
    \<Rightarrow> int \<times> firehose_op list" where
  "read_op_load xmlReadFile exists ops read_op_file incdir =
     (case xmlReadFile read_op_file of
        None \<Rightarrow> (- EINVAL, ops)
      | Some nodes \<Rightarrow> load_nodes (\<lambda>ops node. load_read_node exists incdir node ops) ops nodes)"

subsection \<open>The loaders only append\<close>

lemma sparse_chunks_append:
  "sparse_chunks n h ops p f = (r, ops', p', f') \<Longrightarrow> \<exists>new. ops' = ops @ new"
proof (induction n arbitrary: ops p f)
  case (Suc n)
  then show ?case
    by (auto simp: Let_def split: prod.splits sum.splits if_splits) (metis append.assoc Suc.IH)+
qed simp

lemma program_load_sparse_append:
  "program_load_sparse ops p f = (r, ops', p', f') \<Longrightarrow> \<exists>new. ops' = ops @ new"
  by (auto simp: program_load_sparse_def split: prod.splits sum.splits if_splits dest: sparse_chunks_append)

lemma load_program_tag_append:
  "load_program_tag ops node n a z fs pf cr ex inc = (r, ops') \<Longrightarrow> \<exists>new. ops' = ops @ new"
  by (auto simp: load_program_tag_def Let_def split: prod.splits option.splits if_splits
      dest!: program_load_sparse_append)

lemma load_program_node_append:
  "load_program_node node n a z fs pf cr ex inc ops = (r, ops') \<Longrightarrow> \<exists>new. ops' = ops @ new"
  by (auto simp: load_program_node_def load_erase_tag_def Let_def split: prod.splits if_splits
      dest: load_program_tag_append)

lemma load_patch_node_append: "load_patch_node node ops = (r, ops') \<Longrightarrow> \<exists>new. ops' = ops @ new"
  by (auto simp: load_patch_node_def Let_def split: prod.splits if_splits)

lemma load_read_node_append: "load_read_node ex inc node ops = (r, ops') \<Longrightarrow> \<exists>new. ops' = ops @ new"
  by (auto simp: load_read_node_def Let_def split: prod.splits if_splits)

interpretation program_loader: appending_loader
  "\<lambda>ops node. load_program_node node n a z fs pf cr ex inc ops" for n a z fs pf cr ex inc
  by unfold_locales (rule load_program_node_append)

interpretation patch_loader: appending_loader "\<lambda>ops node. load_patch_node node ops"
  by unfold_locales (rule load_patch_node_append)

interpretation read_loader: appending_loader "\<lambda>ops node. load_read_node ex inc node ops" for ex inc
  by unfold_locales (rule load_read_node_append)

end
