(* ===== verification/ProgramProps.thy ===== *)
theory ProgramProps
  imports Program
begin

text \<open>
  Properties of the loaders: the expansion of a sparse image writes exactly the image, command
  addresses reach the operations they should, and the bootable partition is the first label that
  matches in the order of the code.
\<close>

subsection \<open>Sparse images, refined\<close>

text \<open>
  What an image in the sparse format means: for each chunk that is no hole, the sector it starts
  at and the bytes to store there. \<open>bs\<close> is the block size of the image, \<open>ss\<close> the sector size.
\<close>

fun chunk_bytes :: "nat \<Rightarrow> chunk \<Rightarrow> u8 list" where
  "chunk_bytes bs (Raw n d) = d"
| "chunk_bytes bs (Fill n v) = concat (replicate (n * bs div 4) (put_le32 v))"
| "chunk_bytes bs (Skip n) = []"

fun is_hole :: "chunk \<Rightarrow> bool" where
  "is_hole (Skip n) = True"
| "is_hole c = False"

fun sparse_extents :: "nat \<Rightarrow> nat \<Rightarrow> u32 \<Rightarrow> chunk list \<Rightarrow> (u32 \<times> u8 list) list" where
  "sparse_extents bs ss s [] = []"
| "sparse_extents bs ss s (c # cs) =
     (if is_hole c \<or> chunk_blocks c * bs = 0 then [] else [(s, chunk_bytes bs c)])
     @ sparse_extents bs ss (s + of_nat (chunk_blocks c * bs div ss)) cs"

text \<open>What a queued operation stores: where it starts and the bytes, taken from the image file.\<close>

definition op_extent :: "u8 list \<Rightarrow> firehose_op \<Rightarrow> u32 \<times> u8 list" where
  "op_extent file o1 =
     (ucast (strtoul_val 0 (the (op_start_sector o1))),
      let n = unat (op_num_sectors o1) * unat (op_sector_size o1) in
      if op_sparse_chunk_type o1 = Some CHUNK_TYPE_RAW then sub_buf (nat (op_sparse_offset o1)) n file
      else concat (replicate (n div 4) (put_le32 (op_sparse_fill_value o1))))"

definition chunk_fits :: "nat \<Rightarrow> nat \<Rightarrow> chunk \<Rightarrow> bool" where
  "chunk_fits bs ss c \<longleftrightarrow> chunk_ok bs c \<and> ss dvd chunk_blocks c * bs \<and> chunk_blocks c * bs div ss < 2 ^ 32 - 1"

lemma of_nat_div_u64:
  "a < 2 ^ 64 \<Longrightarrow> b < 2 ^ 64 \<Longrightarrow> (of_nat a :: u64) div of_nat b = of_nat (a div b)"
  by (rule word_unat_eq_iff [THEN iffD2])
    (simp add: unat_div unat_of_nat div_less_dividend less_imp_diff_less le_less_trans [OF div_le_dividend])

lemma of_nat_mod_u64:
  "a < 2 ^ 64 \<Longrightarrow> b < 2 ^ 64 \<Longrightarrow> (of_nat a :: u64) mod of_nat b = of_nat (a mod b)"
  by (rule word_unat_eq_iff [THEN iffD2])
    (simp add: unat_mod unat_of_nat le_less_trans [OF mod_less_eq_dividend])

lemma of_nat_u64_0: "a < 2 ^ 64 \<Longrightarrow> (of_nat a :: u64) = 0 \<longleftrightarrow> a = 0"
  by (auto simp: word_of_nat_eq_0_iff dest: nat_dvd_not_less)

lemma chunk_blocks_less: "chunk_ok bs c \<Longrightarrow> chunk_blocks c < 2 ^ 32"
  by (cases c) auto

lemma chunk_view_fields [simp]:
  "ck_size (chunk_view bs pos c) = of_nat (chunk_blocks c * bs)"
  "ck_kind (chunk_view bs pos c) = CHUNK_TYPE_DONT_CARE \<longleftrightarrow> is_hole c"
  by (cases c; simp)+

lemma raw_or_fill: "(k = CHUNK_TYPE_RAW \<or> k = CHUNK_TYPE_FILL) \<longleftrightarrow> k \<noteq> CHUNK_TYPE_DONT_CARE"
  by (cases k) auto

text \<open>The operation queued for one chunk stores the chunk's bytes at the current sector.\<close>

lemma op_extent_sparse_op:
  assumes "file_has f (encode_chunk c @ rest)" "chunk_ok bs c" "\<not> is_hole c"
    and "unat (op_sector_size p) = ss" "ss dvd chunk_blocks c * bs" "unat num = chunk_blocks c * bs div ss"
    and "op_start_sector p = Some st"
  shows "op_extent (ff_data f) (sparse_op p num (chunk_view bs (ff_pos f) c))
     = (ucast (strtoul_val 0 st), chunk_bytes bs c)"
proof -
  have n: "unat num * ss = chunk_blocks c * bs" using assms(5,6) by simp
  obtain pre post where d: "ff_data f = pre @ encode_chunk c @ rest @ post" "length pre = ff_pos f"
    using assms(1) by (auto simp: file_has_def)
  show ?thesis
  proof (cases c)
    case (Raw k dat)
    have "sub_buf (ff_pos f + 12) (length dat) (ff_data f) = dat"
      using d Raw by (simp add: sub_buf_def)
    with Raw assms n show ?thesis
      by (simp add: op_extent_def sparse_op_def Let_def firehose_alloc_op_def nat_add_distrib)
  next
    case (Fill k v)
    with assms n show ?thesis
      by (simp add: op_extent_def sparse_op_def Let_def firehose_alloc_op_def)
  qed (use assms(3) in simp)
qed

lemma sparse_chunks_refine:
  assumes "sh_chunk_hdr_sz h = 12" "unat (sh_blk_sz h) = bs" "unat (op_sector_size p) = ss" "0 < ss"
    and "whole_reads f" "file_has f (concat (map encode_chunk cs) @ rest)" "length (ff_data f) < 2 ^ 62"
    and "list_all (chunk_fits bs ss) cs" "op_start_sector p = Some st"
  shows "\<exists>new p' f'. sparse_chunks (length cs) h ops p f = (0, ops @ new, p', f')
     \<and> map (op_extent (ff_data f)) new = sparse_extents bs ss (ucast (strtoul_val 0 st)) cs"
  using assms
proof (induction cs arbitrary: ops p f st)
  case Nil
  then show ?case by simp
next
  case (Cons c cs)
  let ?f' = "f\<lparr>ff_pos := ff_pos f + length (encode_chunk c)\<rparr>"
  let ?ck = "chunk_view bs (ff_pos f) c"
  let ?N = "chunk_blocks c * bs"
  have fits: "chunk_fits bs ss c" and cs: "list_all (chunk_fits bs ss) cs"
    using Cons.prems(8) by simp_all
  then have c: "chunk_ok bs c" "ss dvd ?N" "?N div ss < 2 ^ 32 - 1"
    by (simp_all add: chunk_fits_def)
  have enc: "file_has f (encode_chunk c @ concat (map encode_chunk cs) @ rest)"
    using Cons.prems(6) by simp
  have parse: "sparse_chunk_header_parse f h = (Inr ?ck, ?f')"
    and rest: "file_has ?f' (concat (map encode_chunk cs) @ rest)"
    using parse_chunk [OF Cons.prems(5) enc Cons.prems(1) _ Cons.prems(7)] c(1) Cons.prems(2) by auto
  have bs: "bs < 2 ^ 32" and ss: "ss < 2 ^ 32" "ss < 2 ^ 64"
    using unat_u32_less [of "sh_blk_sz h"] unat_u32_less [of "op_sector_size p"] Cons.prems(2,3)
    by simp_all
  have N: "?N < 2 ^ 64"
    using mult_strict_mono [OF chunk_blocks_less [OF c(1)] bs] by simp
  have ssw: "(ucast (op_sector_size p) :: u64) = of_nat ss" using Cons.prems(3) by (metis of_nat_unat)
  define s0 where "s0 = (ucast (strtoul_val 0 st) :: u32)"
  show ?case
  proof (cases "?N = 0")
    case True
    have cz: "ck_size ?ck = 0" using True by auto
    have step: "sparse_chunks (length (c # cs)) h ops p f = sparse_chunks (length cs) h ops p ?f'"
      using cz by (simp add: parse Let_def del: chunk_view_fields(1))
    have "sparse_extents bs ss s0 (c # cs) = sparse_extents bs ss s0 cs"
      using True by auto
    then show ?thesis
      using Cons.IH [of p ?f' st ops] Cons.prems rest cs unfolding step s0_def by simp
  next
    case False
    define num where "num = (of_nat (?N div ss) :: u32)"
    have num: "unat num = ?N div ss" using c(3) by (simp add: num_def unat_of_nat)
    have w: "ck_size ?ck \<noteq> 0" "ck_size ?ck mod of_nat ss = 0" "ck_size ?ck div of_nat ss = of_nat (?N div ss)"
      using False N ss of_nat_u64_0 [OF N] of_nat_mod_u64 [OF N ss(2)] of_nat_div_u64 [OF N ss(2)] c(2)
      by (simp_all only: chunk_view_fields) (simp_all add: dvd_eq_mod_eq_0)
    have lim: "\<not> (of_nat (?N div ss) :: u64) \<ge> 0xffffffff"
      using c(3) by (simp add: word_le_nat_alt unat_of_nat)
    have numw: "ucast (of_nat (?N div ss) :: u64) = num"
      using c(3) by (simp add: num_def unsigned_of_nat take_bit_nat_eq_self)
    let ?p' = "p\<lparr>op_start_sector := Some (show_u32 (s0 + num))\<rparr>"
    let ?ops = "if is_hole c then ops else ops @ [sparse_op p num ?ck]"
    have step: "sparse_chunks (length (c # cs)) h ops p f = sparse_chunks (length cs) h ?ops ?p' ?f'"
      using w lim Cons.prems(9) by (simp add: parse ssw numw Let_def raw_or_fill s0_def del: chunk_view_fields(1))
    obtain new p' f' where ih: "sparse_chunks (length cs) h ?ops ?p' ?f' = (0, ?ops @ new, p', f')"
        "map (op_extent (ff_data f)) new = sparse_extents bs ss (s0 + num) cs"
      using Cons.IH [of ?p' ?f' "show_u32 (s0 + num)" ?ops] Cons.prems rest cs
      by (auto simp: strtoul_show_u32)
    have "op_extent (ff_data f) (sparse_op p num ?ck) = (s0, chunk_bytes bs c)" if "\<not> is_hole c"
      using op_extent_sparse_op [OF enc c(1) that Cons.prems(3) c(2) num Cons.prems(9)] by (simp add: s0_def)
    then show ?thesis
      using ih False unfolding step s0_def [symmetric]
      by (auto simp: num_def intro!: exI [of _ "(if is_hole c then [] else [sparse_op p num ?ck]) @ new"])
  qed
qed

definition sparse_header_bytes :: "nat \<Rightarrow> nat \<Rightarrow> u8 list" where
  "sparse_header_bytes bs n =
     put_le32 SPARSE_HEADER_MAGIC @ le_enc 2 1 @ le_enc 2 0 @ le_enc 2 28 @ le_enc 2 12
     @ le_enc 4 bs @ le_enc 4 0 @ le_enc 4 n @ le_enc 4 0"

lemma decode_header_bytes:
  "bs < 2 ^ 32 \<Longrightarrow> n < 2 ^ 32 \<Longrightarrow>
   decode_sparse_header (sparse_header_bytes bs n) =
     \<lparr>sh_magic = SPARSE_HEADER_MAGIC, sh_major = 1, sh_minor = 0, sh_file_hdr_sz = 28, sh_chunk_hdr_sz = 12,
      sh_blk_sz = of_nat bs, sh_total_blks = 0, sh_total_chunks = of_nat n\<rparr>"
  by (simp add: decode_sparse_header_def sparse_header_bytes_def get_le32_def get_le16_def sub_buf_def
      le_nat_le_enc)

lemma length_header_bytes [simp]: "length (sparse_header_bytes bs n) = 28"
  by (simp add: sparse_header_bytes_def)

text \<open>
  C30: Loading a sparse image queues operations that store exactly the image: for every list of
  chunks the format can hold, written as a file with 28-byte and 12-byte headers, the new
  operations are, in order, one per data or fill chunk that is not empty, and each stores the
  chunk's bytes at the sector where the chunk lies in the expanded image.
\<close>

theorem program_load_sparse_refines:
  assumes "whole_reads f" "ff_data f = sparse_header_bytes bs (length cs) @ concat (map encode_chunk cs)"
    and "length (ff_data f) < 2 ^ 62" "bs < 2 ^ 32" "length cs < 2 ^ 32"
    and "op_sector_size p \<noteq> 0" "list_all (chunk_fits bs (unat (op_sector_size p))) cs"
    and "op_start_sector p = Some st"
  shows "\<exists>new p' f'. program_load_sparse ops p f = (0, ops @ new, p', f')
     \<and> map (op_extent (ff_data f)) new
       = sparse_extents bs (unat (op_sector_size p)) (ucast (strtoul_val 0 st)) cs"
proof -
  let ?f0 = "f\<lparr>ff_pos := 0\<rparr>" and ?f1 = "f\<lparr>ff_pos := 28\<rparr>"
  let ?h = "decode_sparse_header (sparse_header_bytes bs (length cs))"
  have s0: "qdl_file_seek f 0 SEEK_SET = (0, ?f0)"
    using assms(1) by (simp add: qdl_file_seek_def lseek_def whole_reads_def)
  have h0: "file_has ?f0 (sparse_header_bytes bs (length cs) @ concat (map encode_chunk cs))"
    using assms(2) by (simp add: file_has_def)
  have rd: "qdl_file_read ?f0 28 = (Some (sparse_header_bytes bs (length cs)), ?f1)"
    and h1: "file_has ?f1 (concat (map encode_chunk cs))"
    using file_has_read [OF _ h0] assms(1) by simp_all
  have parse: "sparse_header_parse f = (Inr ?h, ?f1)"
    using rd assms(4,5) by (simp add: sparse_header_parse_def s0 Let_def decode_header_bytes)
  have n: "unat (sh_total_chunks ?h) = length cs"
    using assms(4,5) by (simp add: decode_header_bytes unat_of_nat)
  have "\<exists>new p' f'. sparse_chunks (length cs) ?h ops p ?f1 = (0, ops @ new, p', f')
     \<and> map (op_extent (ff_data ?f1)) new
       = sparse_extents bs (unat (op_sector_size p)) (ucast (strtoul_val 0 st)) cs"
    using assms h1 by (intro sparse_chunks_refine [where rest = "[]"])
      (simp_all add: decode_header_bytes unat_of_nat unat_gt_0)
  then show ?thesis
    using assms(6,8) by (simp add: program_load_sparse_def parse n)
qed

definition ex_sparse :: "chunk list" where
  "ex_sparse = [Raw 1 [1, 2, 3, 4], Skip 2, Fill 1 5]"

definition ex_sparse_file :: qdl_file where
  "ex_sparse_file = \<lparr>ff_type = QDL_FILE_TYPE_POSIX, ff_size = 0,
     ff_data = sparse_header_bytes 4 3 @ concat (map encode_chunk ex_sparse), ff_pos = 0, ff_get = \<lambda>_ n. Some n\<rparr>"

lemma program_load_sparse_refines_witness:
  "\<exists>new p' f'. program_load_sparse [] ((firehose_alloc_op FIREHOSE_OP_PROGRAM)
        \<lparr>op_sector_size := 4, op_start_sector := Some ''7''\<rparr>) ex_sparse_file = (0, new, p', f')
     \<and> map (op_extent (ff_data ex_sparse_file)) new = [(7, [1, 2, 3, 4]), (10, [5, 0, 0, 0])]"
proof -
  let ?p = "(firehose_alloc_op FIREHOSE_OP_PROGRAM)\<lparr>op_sector_size := 4, op_start_sector := Some ''7''\<rparr>"
  have e: "sparse_extents 4 4 7 ex_sparse = [(7, [1, 2, 3, 4]), (10, [5, 0, 0, 0])]"
    by (simp add: ex_sparse_def run_simps)
  have st: "ucast (strtoul_val 0 ''7'') = (7 :: u32)"
    by (simp add: c_strtoul_def scan_number_def scan_sign_def scan_prefix_def c_isspace_def digit_val_def
        c_isdigit_def ulong_max_def)
  have "\<exists>new p' f'. program_load_sparse [] ?p ex_sparse_file = (0, [] @ new, p', f')
     \<and> map (op_extent (ff_data ex_sparse_file)) new
       = sparse_extents 4 (unat (op_sector_size ?p)) (ucast (strtoul_val 0 ''7'')) ex_sparse"
    by (rule program_load_sparse_refines)
      (simp_all add: ex_sparse_file_def whole_reads_def chunk_fits_def ex_sparse_def firehose_alloc_op_def
        numeral_3_eq_3)
  moreover have "unat (op_sector_size ?p) = 4" by (simp add: firehose_alloc_op_def)
  ultimately show ?thesis by (simp only: e st append_Nil)
qed

subsection \<open>Queue and queries\<close>

text \<open>
  The loader of program files only appends: whatever it returns, the operations queued before
  are still there, unchanged and in front.
\<close>

theorem program_load_xml_appends:
  assumes "program_load_xml ops nodes archive fs file is_nand allow_missing contents exists incdir = (r, ops')"
  shows "\<exists>new. ops' = ops @ new"
  using assms unfolding program_load_xml_def by (rule program_loader.load_nodes_appends)

definition ex_erase_node :: xml_node where
  "ex_erase_node = \<lparr>xn_element = True, xn_name = ''erase'', xn_get = (\<lambda>_. Some ''1''), xn_has = (\<lambda>_. True)\<rparr>"

lemma program_load_xml_appends_witness:
  "\<exists>new. snd (program_load_xml [firehose_alloc_op FIREHOSE_OP_RESET] [ex_erase_node] None (\<lambda>_. None)
       ''p.xml'' False False (\<lambda>_. None) (\<lambda>_. False) None)
     = [firehose_alloc_op FIREHOSE_OP_RESET] @ new"
  by (rule program_load_xml_appends [OF prod.collapse [symmetric]])

text \<open>
  The bootable partition is that of the first label found among xbl, xbl_a and sbl1, and the
  caller is told of an ambiguity exactly when more than one of the three labels is present.
\<close>

theorem program_find_bootable_partition_first:
  assumes "\<forall>p \<in> set ops. op_partition p \<noteq> - ENOENT"
  shows "program_find_bootable_partition ops =
     (let found = List.map_filter (program_find_partition ops) [''xbl'', ''xbl_a'', ''sbl1'']
      in (case found of [] \<Rightarrow> - ENOENT | p # _ \<Rightarrow> op_partition p, 1 < length found))"
proof -
  have "op_partition p \<noteq> - ENOENT" if "program_find_partition ops name = Some p" for name p
    using that assms by (auto simp: program_find_partition_def find_Some_iff)
  then show ?thesis
    by (auto simp: program_find_bootable_partition_def Let_def List.map_filter_def split: option.splits)
qed

lemma program_find_bootable_partition_first_witness:
  "program_find_bootable_partition
     [(firehose_alloc_op FIREHOSE_OP_PROGRAM)\<lparr>op_label := Some ''sbl1'', op_partition := 3\<rparr>,
      (firehose_alloc_op FIREHOSE_OP_PROGRAM)\<lparr>op_label := Some ''xbl_a'', op_partition := 1\<rparr>] = (1, True)"
  by (subst program_find_bootable_partition_first)
    (simp_all add: firehose_alloc_op_def program_find_partition_def List.map_filter_def)

end
