(* ===== verification/Gpt.thy ===== *)
theory Gpt
  imports FirehoseOp
begin

text \<open>
  \<open>src/gpt.c\<close>: the names of GPT partitions, the loading of the tables from the device and the
  resolution of operations addressed by partition name. The static list \<open>gpt_partitions\<close> is a
  list passed along. Reading sectors is \<open>firehose_read_buf\<close>, an argument \<open>rd\<close> here: it returns
  the bytes stored in the caller's buffer, or \<open>None\<close> when it fails.
\<close>

subsection \<open>Partition names\<close>

text \<open>
  One code point off the front of a UTF-16 text. A high surrogate takes the unit behind it along
  even when that is no low surrogate.
\<close>

definition utf16_next :: "u16 \<Rightarrow> u16 list \<Rightarrow> u32 \<times> u16 list" where
  "utf16_next w rest =
     (if 0xd800 \<le> w \<and> w \<le> 0xdbff then
        (case rest of
           [] \<Rightarrow> (0xfffd, [])
         | w2 # rest' \<Rightarrow>
             if 0xdc00 \<le> w2 \<and> w2 \<le> 0xdfff
             then ((push_bit 10 (ucast (w - 0xd800)) OR ucast (w2 - 0xdc00)) + 0x10000, rest')
             else (0xfffd, rest'))
      else if 0xdc00 \<le> w \<and> w \<le> 0xdfff then (0xfffd, rest)
      else (ucast w, rest))"

definition utf8_of :: "u32 \<Rightarrow> u8 list" where
  "utf8_of c =
     (if c \<le> 0x7f then [ucast c]
      else if c \<le> 0x7ff then [ucast (0xc0 OR (drop_bit 6 c AND 0x1f)), ucast (0x80 OR (c AND 0x3f))]
      else if c \<le> 0xffff then
        [ucast (0xe0 OR (drop_bit 12 c AND 0x0f)), ucast (0x80 OR (drop_bit 6 c AND 0x3f)), ucast (0x80 OR (c AND 0x3f))]
      else if c \<le> 0x10ffff then
        [ucast (0xf0 OR (drop_bit 18 c AND 0x07)), ucast (0x80 OR (drop_bit 12 c AND 0x3f)),
         ucast (0x80 OR (drop_bit 6 c AND 0x3f)), ucast (0x80 OR (c AND 0x3f))]
      else [])"

lemma utf16_next_shorter: "utf16_next w rest = (c, rest') \<Longrightarrow> length rest' \<le> length rest"
  by (auto simp: utf16_next_def split: if_splits list.splits)

text \<open>The bytes written before the terminating NUL, \<open>j\<close> of them so far.\<close>

function utf8_loop :: "u16 list \<Rightarrow> nat \<Rightarrow> nat \<Rightarrow> u8 list" where
  "utf8_loop [] out_len j = []"
| "utf8_loop (w # ws) out_len j =
     (case utf16_next w ws of
        (c, rest) \<Rightarrow>
          if c = 0 then []
          else if utf8_of c \<noteq> [] \<and> j + length (utf8_of c) \<ge> out_len then []
          else utf8_of c @ utf8_loop rest out_len (j + length (utf8_of c)))"
  by pat_completeness auto
termination
  by (relation "measure (\<lambda>(ws, n, j). length ws)") (auto dest: utf16_next_shorter [OF sym])

definition utf16le_to_utf8 :: "u16 list \<Rightarrow> nat \<Rightarrow> u8 list" where
  "utf16le_to_utf8 ws out_len = utf8_loop ws out_len 0"

subsection \<open>Tables\<close>

record gpt_partition =
  gp_name :: "u8 list"
  gp_partition :: u32
  gp_start :: u64
  gp_num :: u64

text \<open>The fields of \<open>struct gpt_header\<close> and \<open>struct gpt_entry\<close> the code uses.\<close>

abbreviation gh_part_entry_lba :: "u8 list \<Rightarrow> u64" where "gh_part_entry_lba \<equiv> get_le64 72"
abbreviation gh_num_part_entries :: "u8 list \<Rightarrow> u32" where "gh_num_part_entries \<equiv> get_le32 80"
abbreviation gh_part_entry_size :: "u8 list \<Rightarrow> u32" where "gh_part_entry_size \<equiv> get_le32 84"

definition gpt_signature :: "u8 list" where
  "gpt_signature = [0x45, 0x46, 0x49, 0x20, 0x50, 0x41, 0x52, 0x54]"

definition entry_name16 :: "u8 list \<Rightarrow> u16 list" where
  "entry_name16 e = map (\<lambda>k. get_le16 (56 + 2 * k) e) [0..<36]"

definition entry_partition :: "u32 \<Rightarrow> u8 list \<Rightarrow> gpt_partition" where
  "entry_partition phys e =
     \<lparr>gp_name = utf16le_to_utf8 (entry_name16 e) 144, gp_partition = phys,
      gp_start = get_le64 32 e, gp_num = get_le64 40 e - get_le64 32 e + 1\<rparr>"

definition entry_used :: "u8 list \<Rightarrow> bool" where
  "entry_used e \<longleftrightarrow> take 16 e \<noteq> replicate 16 0"

type_synonym 's sector_reader = "'s \<Rightarrow> firehose_op \<Rightarrow> nat \<Rightarrow> u8 list option \<times> 's"

definition gpt_read_op :: "nat \<Rightarrow> u32 \<Rightarrow> string \<Rightarrow> firehose_op" where
  "gpt_read_op ssz phys start =
     (firehose_alloc_op FIREHOSE_OP_READ)
       \<lparr>op_sector_size := of_nat ssz, op_start_sector := Some start, op_num_sectors := 1,
        op_partition := int_of_u32 phys\<rparr>"

text \<open>The loop over the entries, \<open>n\<close> left, the next one is \<open>i\<close>; \<open>buf\<close> holds the current sector.\<close>

fun gpt_entries ::
  "'s sector_reader \<Rightarrow> nat \<Rightarrow> u32 \<Rightarrow> u8 list \<Rightarrow> nat \<Rightarrow> u32 \<Rightarrow> u8 list \<Rightarrow> 's \<Rightarrow> gpt_partition list
    \<Rightarrow> int \<times> gpt_partition list \<times> 's" where
  "gpt_entries rd ssz phys gpt 0 i buf s tbl = (0, tbl, s)"
| "gpt_entries rd ssz phys gpt (Suc n) i buf s tbl =
     (let offset = unat (i * gh_part_entry_size gpt) mod ssz;
          lba = gh_part_entry_lba gpt + of_nat (unat (i * gh_part_entry_size gpt) div ssz);
          (res, s') = (if offset = 0 then
             (case rd s (gpt_read_op ssz phys (show_dec (unat lba))) 4096 of
                (None, s1) \<Rightarrow> (None, s1)
              | (Some d, s1) \<Rightarrow> (Some (memcpy_at (replicate 4096 0) 0 d), s1))
           else (Some buf, s))
      in case res of
           None \<Rightarrow> (-1, tbl, s')
         | Some buf' \<Rightarrow>
             let entry = sub_buf offset 128 buf';
                 tbl' = (if entry_used entry then tbl @ [entry_partition phys entry] else tbl)
             in gpt_entries rd ssz phys gpt n (i + 1) buf' s' tbl')"

text \<open>
  \<open>gpt_load_table_from_partition\<close>: the return value, whether \<open>eof\<close> was set, the table and the
  reader's state. \<open>stk\<close> is the initial content of the header variable.
\<close>

definition gpt_load_table_from_partition ::
  "'s sector_reader \<Rightarrow> nat \<Rightarrow> u8 list \<Rightarrow> u32 \<Rightarrow> 's \<Rightarrow> gpt_partition list
    \<Rightarrow> (int \<times> bool) \<times> gpt_partition list \<times> 's" where
  "gpt_load_table_from_partition rd ssz stk phys s tbl =
     (case rd s (gpt_read_op ssz phys ''1'') 512 of
        (None, s1) \<Rightarrow> ((-1, True), tbl, s1)
      | (Some d, s1) \<Rightarrow>
          let gpt = memcpy_at stk 0 d in
          if take 8 gpt \<noteq> gpt_signature then ((0, False), tbl, s1)
          else
            let es = unat (gh_part_entry_size gpt) in
            if es < 128 \<or> es > ssz \<or> ssz mod es \<noteq> 0 \<or> unat (gh_num_part_entries gpt) > 1024
            then ((-1, False), tbl, s1)
            else case gpt_entries rd ssz phys gpt (unat (gh_num_part_entries gpt)) 0 (replicate 4096 0) s1 tbl of
              (r, tbl', s2) \<Rightarrow> ((r, False), tbl', s2))"

text \<open>The loop over the physical partitions; \<open>None\<close> when the fuel runs out.\<close>

fun gpt_load_loop ::
  "nat \<Rightarrow> 's sector_reader \<Rightarrow> nat \<Rightarrow> u8 list \<Rightarrow> u32 \<Rightarrow> 's \<Rightarrow> gpt_partition list
    \<Rightarrow> (int \<times> gpt_partition list \<times> 's) option" where
  "gpt_load_loop 0 rd ss stk i s tbl = None"
| "gpt_load_loop (Suc fuel) rd ss stk i s tbl =
     (case gpt_load_table_from_partition rd ss stk i s tbl of
        ((ret, eof), tbl', s') \<Rightarrow>
          if ret \<noteq> 0 then Some (if eof then 0 else ret, tbl', s')
          else gpt_load_loop fuel rd ss stk (i + 1) s' tbl')"

definition gpt_load_tables ::
  "nat \<Rightarrow> 's sector_reader \<Rightarrow> nat \<Rightarrow> u8 list \<Rightarrow> 's \<Rightarrow> gpt_partition list
    \<Rightarrow> (int \<times> gpt_partition list \<times> 's) option" where
  "gpt_load_tables fuel rd ss stk s tbl =
     (if tbl \<noteq> [] then Some (0, tbl, s) else gpt_load_loop fuel rd ss stk 0 s tbl)"

subsection \<open>Looking partitions up\<close>

text \<open>
  The search loop with the out parameters: \<open>found\<close> is the match so far. The first match stores
  its partition number in \<open>phys\<close>, which narrows the rest of the search and comes back even when the
  search then fails.
\<close>

fun gpt_search ::
  "gpt_partition list \<Rightarrow> u8 list \<Rightarrow> int \<Rightarrow> (u64 \<times> u64) option \<Rightarrow> (u64 \<times> u64) option \<times> int" where
  "gpt_search [] name phys found = (found, phys)"
| "gpt_search (p # ps) name phys found =
     (if phys \<ge> 0 \<and> gp_partition p \<noteq> word_of_int phys then gpt_search ps name phys found
      else if gp_name p \<noteq> name then gpt_search ps name phys found
      else if found \<noteq> None then (None, phys)
      else gpt_search ps name (int_of_u32 (gp_partition p)) (Some (gp_start p, gp_num p)))"

text \<open>
  \<open>gpt_find_by_name\<close>: the start sector and number of sectors stored through the pointers on success,
  and what the partition number behind \<open>phys_partition\<close> is afterwards.
\<close>

definition gpt_find_by_name ::
  "nat \<Rightarrow> 's sector_reader \<Rightarrow> bool \<Rightarrow> nat \<Rightarrow> u8 list \<Rightarrow> u8 list \<Rightarrow> int \<Rightarrow> 's \<Rightarrow> gpt_partition list
    \<Rightarrow> (((u64 \<times> u64) option \<times> int) \<times> gpt_partition list \<times> 's) option" where
  "gpt_find_by_name fuel rd sim ss stk name phys s tbl =
     (if sim then Some ((Some (0, 0), phys), tbl, s)
      else case gpt_load_tables fuel rd ss stk s tbl of
        None \<Rightarrow> None
      | Some (ret, tbl', s') \<Rightarrow>
          if ret < 0 then Some ((None, phys), tbl', s')
          else Some (gpt_search tbl' name phys None, tbl', s'))"

definition gpt_addressed :: "firehose_op \<Rightarrow> bool" where
  "gpt_addressed o1 \<longleftrightarrow> (op_type o1 = FIREHOSE_OP_PROGRAM \<or> op_type o1 = FIREHOSE_OP_ERASE
     \<or> op_type o1 = FIREHOSE_OP_READ \<or> op_type o1 = FIREHOSE_OP_GET_SHA256_DIGEST) \<and> op_gpt_partition o1 \<noteq> None"

definition gpt_place :: "firehose_op \<Rightarrow> int \<times> (u64 \<times> u64) \<Rightarrow> firehose_op" where
  "gpt_place o1 r = (case r of (phys, start, num) \<Rightarrow>
     o1\<lparr>op_partition := phys, op_num_sectors := ucast num, op_start_sector := Some (show_dec (unat start))\<rparr>)"

text \<open>
  \<open>gpt_resolve_deferrals\<close>: operations before a failing one keep what was resolved, and the failing one
  keeps the partition number the search has stored in it.
\<close>

fun gpt_resolve_deferrals ::
  "nat \<Rightarrow> 's sector_reader \<Rightarrow> bool \<Rightarrow> nat \<Rightarrow> u8 list \<Rightarrow> 's \<Rightarrow> gpt_partition list \<Rightarrow> firehose_op list
    \<Rightarrow> (int \<times> firehose_op list \<times> gpt_partition list \<times> 's) option" where
  "gpt_resolve_deferrals fuel rd sim ss stk s tbl [] = Some (0, [], tbl, s)"
| "gpt_resolve_deferrals fuel rd sim ss stk s tbl (o1 # ops) =
     (if \<not> gpt_addressed o1 then
        map_option (\<lambda>(r, ops', t). (r, o1 # ops', t)) (gpt_resolve_deferrals fuel rd sim ss stk s tbl ops)
      else case gpt_find_by_name fuel rd sim ss stk (bytes_of (the (op_gpt_partition o1))) (op_partition o1) s tbl of
        None \<Rightarrow> None
      | Some ((None, phys), tbl', s') \<Rightarrow> Some (-1, o1\<lparr>op_partition := phys\<rparr> # ops, tbl', s')
      | Some ((Some (start, num), phys), tbl', s') \<Rightarrow>
          if unat num > 0xffffffff then Some (-1, o1\<lparr>op_partition := phys\<rparr> # ops, tbl', s')
          else map_option (\<lambda>(r, ops', t). (r, gpt_place o1 (phys, (start, num)) # ops', t))
                 (gpt_resolve_deferrals fuel rd sim ss stk s' tbl' ops))"

end
