(* ===== verification/GptProps.thy ===== *)
theory GptProps
  imports Gpt
begin

text \<open>
  Properties of the GPT code: the conversion of names against UTF-16 and UTF-8, the search by name
  against positions in the tables, the placing of a queue, and the entries of a table against the flat
  entry array on the disk.
\<close>

subsection \<open>Names\<close>

definition scalar :: "u32 \<Rightarrow> bool" where
  "scalar c \<longleftrightarrow> c \<noteq> 0 \<and> c \<le> 0x10ffff \<and> \<not> (0xd800 \<le> c \<and> c \<le> 0xdfff)"

definition utf16_of :: "u32 \<Rightarrow> u16 list" where
  "utf16_of c =
     (if c \<le> 0xffff then [ucast c]
      else [0xd800 + ucast (drop_bit 10 (c - 0x10000)), 0xdc00 + ucast ((c - 0x10000) AND 0x3ff)])"

text \<open>
  The UTF-8 encoding of a code point by the ranges of the standard, in arithmetic: the digits to the
  base 64, the last ones offset by 128, the first by the mark of the length.
\<close>

definition utf8_encoding :: "nat \<Rightarrow> nat list" where
  "utf8_encoding n =
     (if n < 128 then [n]
      else if n < 2048 then [192 + n div 64, 128 + n mod 64]
      else if n < 65536 then [224 + n div 4096, 128 + n div 64 mod 64, 128 + n mod 64]
      else [240 + n div 262144, 128 + n div 4096 mod 64, 128 + n div 64 mod 64, 128 + n mod 64])"

lemma ucast_u16_le: "c \<le> 0xffff \<Longrightarrow> unat (ucast c :: u16) = unat (c :: u32)"
  by (simp add: word_le_nat_alt unsigned_ucast_eq unsigned_take_bit_eq take_bit_nat_eq_self)

lemma ucast_u16_u32: "c \<le> 0xffff \<Longrightarrow> (ucast (ucast c :: u16) :: u32) = c"
  using ucast_u16_le [of c] by (simp add: word_unat_eq_iff unsigned_ucast_eq unsigned_take_bit_eq take_bit_nat_eq_self)

lemma utf16_next_utf16:
  assumes "scalar c"
  shows "\<exists>w ws. utf16_of c = w # ws \<and> utf16_next w (ws @ rest) = (c, rest)"
proof (cases "c \<le> 0xffff")
  case True
  have u: "unat (ucast c :: u16) = unat c" using ucast_u16_le [OF True] .
  show ?thesis
    using True assms ucast_u16_u32 [OF True] u
    by (auto simp: utf16_of_def utf16_next_def scalar_def word_le_nat_alt)
next
  case False
  define x where "x = c - 0x10000"
  have cx: "c = x + 0x10000" by (simp add: x_def)
  have xl: "unat x < 2 ^ 20"
    using False assms by (auto simp: x_def scalar_def word_le_nat_alt unat_sub)
  define hi where "hi = (ucast (drop_bit 10 x) :: u16)"
  define lo where "lo = (ucast (x AND 0x3ff) :: u16)"
  have dl: "unat (drop_bit 10 x) < 2 ^ 10" using xl by (simp add: unat_drop_bit_eq drop_bit_eq_div unat_div less_mult_imp_div_less)
  have m: "x AND 0x3ff = take_bit 10 x" by (simp add: take_bit_eq_mask mask_eq_exp_minus_1)
  have ml: "unat (x AND 0x3ff) < 2 ^ 10" unfolding m using take_bit_nat_less_exp [of 10 "unat x"] by (simp add: unsigned_take_bit_eq)
  have hil: "unat hi < 2 ^ 10" "(ucast hi :: u32) = drop_bit 10 x"
    using dl by (simp_all add: hi_def unsigned_ucast_eq unsigned_take_bit_eq take_bit_nat_eq_self word_unat_eq_iff)
  have lol: "unat lo < 2 ^ 10" "(ucast lo :: u32) = x AND 0x3ff"
    using ml unfolding lo_def m
    by (simp_all add: unsigned_ucast_eq unsigned_take_bit_eq take_bit_nat_eq_self)
  have h: "unat (0xd800 + hi) = 0xd800 + unat hi" "unat (0xdc00 + lo) = 0xdc00 + unat lo"
    using hil(1) lol(1) by (simp_all add: unat_word_ariths)
  have "push_bit 10 (drop_bit 10 x) OR (x AND 0x3ff) = x"
    unfolding m by (rule bit_word_eqI) (auto simp: bit_simps)
  then have "(push_bit 10 (ucast hi) OR ucast lo) + 0x10000 = c"
    unfolding hil(2) lol(2) by (simp add: cx)
  then show ?thesis
    using False h hil(1) lol(1)
    by (simp add: utf16_of_def utf16_next_def word_le_nat_alt x_def [symmetric] hi_def [symmetric] lo_def [symmetric])
qed

lemma utf8_length:
  assumes "scalar c"
  shows "utf8_of c \<noteq> []" and "length (utf8_of c) \<le> 3 * length (utf16_of c)"
  using assms by (auto simp: utf8_of_def utf16_of_def scalar_def)

lemma utf8_loop_scalars:
  assumes "list_all scalar cs" "rest = [] \<or> hd rest = 0" "j + 3 * length (concat (map utf16_of cs)) < n"
  shows "utf8_loop (concat (map utf16_of cs) @ rest) n j = concat (map utf8_of cs)"
  using assms
proof (induction cs arbitrary: j)
  case Nil
  then show ?case by (cases rest) (auto simp: utf16_next_def)
next
  case (Cons c cs)
  have c: "scalar c" using Cons.prems by simp
  obtain w ws where w: "utf16_of c = w # ws"
      "utf16_next w (ws @ concat (map utf16_of cs) @ rest) = (c, concat (map utf16_of cs) @ rest)"
    using utf16_next_utf16 [OF c, of "concat (map utf16_of cs) @ rest"] by blast
  have l: "j + length (utf8_of c) < n" using utf8_length(2) [OF c] Cons.prems(3) by simp
  have "utf8_loop (concat (map utf16_of cs) @ rest) n (j + length (utf8_of c)) = concat (map utf8_of cs)"
    using Cons.prems utf8_length(2) [OF c] by (intro Cons.IH) auto
  then show ?case
    using w l c by (simp add: scalar_def)
qed

lemma utf8_loop_fits: "j < n \<Longrightarrow> j + length (utf8_loop ws n j) < n"
  by (induction ws n j rule: utf8_loop.induct) (auto split: prod.splits)

text \<open>A byte of the encoder: a mark above the bits that it does not reach is added to them.\<close>

lemma unat_mark:
  fixes m x :: u32
  assumes "m AND mask k = 0" "unat m + 2 ^ k \<le> 256"
  shows "unat (ucast (m OR (x AND mask k)) :: u8) = unat m + unat x mod 2 ^ k"
proof -
  have d: "m AND (x AND mask k) = 0"
    using assms(1) by (metis and.commute and.left_commute and_zero_eq)
  have l: "unat (x AND mask k) = unat x mod 2 ^ k"
    by (simp only: take_bit_eq_mask [symmetric] unsigned_take_bit_eq) (simp only: take_bit_eq_mod)
  have "unat x mod 2 ^ k < 2 ^ k" by simp
  then have s: "unat m + unat (x AND mask k) < 256" using assms(2) l by linarith
  have o: "m OR (x AND mask k) = m + (x AND mask k)" using d by (simp add: disjunctive_add_eq_or)
  have "unat (m + (x AND mask k)) = unat m + unat (x AND mask k)"
    using s by (simp add: unat_word_ariths)
  then have "unat (m OR (x AND mask k)) = unat m + unat x mod 2 ^ k" unfolding o l .
  then show ?thesis using s l by (simp add: unsigned_ucast_eq unsigned_take_bit_eq take_bit_nat_eq_self)
qed

lemma unat_drop_u32: "unat (drop_bit k x) = unat x div 2 ^ k" for x :: u32
  unfolding unat_drop_bit_eq by (simp only: drop_bit_eq_div [where 'a = nat])

lemma utf8_of_encoding:
  assumes "c \<le> 0x10ffff"
  shows "map unat (utf8_of c) = utf8_encoding (unat c)"
proof -
  have k: "(0x1f :: u32) = mask 5" "(0x3f :: u32) = mask 6" "(0x0f :: u32) = mask 4" "(0x07 :: u32) = mask 3"
    by (simp_all add: mask_eq_exp_minus_1)
  have z: "(0xc0 :: u32) AND mask 5 = 0" "(0x80 :: u32) AND mask 6 = 0" "(0xe0 :: u32) AND mask 4 = 0"
    "(0xf0 :: u32) AND mask 3 = 0"
    by (simp_all add: mask_eq_exp_minus_1)
  have b: "unat (ucast (0xc0 OR (x AND mask 5)) :: u8) = 192 + unat x mod 32"
    "unat (ucast (0x80 OR (x AND mask 6)) :: u8) = 128 + unat x mod 64"
    "unat (ucast (0xe0 OR (x AND mask 4)) :: u8) = 224 + unat x mod 16"
    "unat (ucast (0xf0 OR (x AND mask 3)) :: u8) = 240 + unat x mod 8" for x :: u32
    using unat_mark [OF z(1), of x] unat_mark [OF z(2), of x] unat_mark [OF z(3), of x] unat_mark [OF z(4), of x]
    by simp_all
  have c7: "c \<le> 0x7f \<Longrightarrow> unat (ucast c :: u8) = unat c" by (simp add: unsigned_ucast_eq unsigned_take_bit_eq take_bit_nat_eq_self word_le_nat_alt)
  have m: "unat c < 2048 \<Longrightarrow> unat c div 64 mod 32 = unat c div 64"
    "unat c < 65536 \<Longrightarrow> unat c div 4096 mod 16 = unat c div 4096"
    "unat c < 2097152 \<Longrightarrow> unat c div 262144 mod 8 = unat c div 262144"
    by (auto simp: less_mult_imp_div_less)
  have l: "c \<le> 0x7f \<longleftrightarrow> unat c < 128" "c \<le> 0x7ff \<longleftrightarrow> unat c < 2048" "c \<le> 0xffff \<longleftrightarrow> unat c < 65536"
    "c \<le> 0x10ffff \<longleftrightarrow> unat c < 0x110000"
    by (simp_all add: word_le_nat_alt, linarith+)
  show ?thesis
    using assms unfolding utf8_of_def k utf8_encoding_def l
    using c7 by (simp add: b unat_drop_u32 m l)
qed

text \<open>
  C37: A partition name of Unicode scalar values that fits the 36 units of a GPT entry, padded with
  NUL units, is converted to exactly its UTF-8 encoding: nothing is truncated or replaced.
\<close>

theorem utf16le_to_utf8_correct:
  assumes "list_all scalar cs" "length (concat (map utf16_of cs)) \<le> 36" "rest = [] \<or> hd rest = 0"
  shows "map unat (utf16le_to_utf8 (concat (map utf16_of cs) @ rest) 144) = concat (map (utf8_encoding \<circ> unat) cs)"
proof -
  have "3 * length (concat (map utf16_of cs)) < 144" using assms(2) by simp
  then have "utf16le_to_utf8 (concat (map utf16_of cs) @ rest) 144 = concat (map utf8_of cs)"
    using utf8_loop_scalars [OF assms(1,3), of 0 144] by (simp add: utf16le_to_utf8_def)
  moreover have "map unat (concat (map utf8_of cs)) = concat (map (utf8_encoding \<circ> unat) cs)"
    using assms(1) by (induction cs) (simp_all add: scalar_def utf8_of_encoding)
  ultimately show ?thesis by simp
qed

lemma utf16le_to_utf8_correct_witness:
  "map unat (utf16le_to_utf8 [0x62, 0x20ac, 0xe9, 0xd83d, 0xde00, 0, 0] 144)
     = [0x62, 0xe2, 0x82, 0xac, 0xc3, 0xa9, 0xf0, 0x9f, 0x98, 0x80]"
  using utf16le_to_utf8_correct [of "[0x62, 0x20ac, 0xe9, 0x1f600]" "[0, 0]"]
  by (simp add: scalar_def utf16_of_def utf8_encoding_def)

subsection \<open>Searching by name\<close>

lemma sint_of_nat_u32: "n < 2 ^ 31 \<Longrightarrow> sint (of_nat n :: u32) = int n"
  by (simp add: signed_of_nat signed_take_bit_int_eq_self)

lemma int_of_u32_small: "unat w < 2 ^ 31 \<Longrightarrow> int_of_u32 w = int (unat w)"
  using sint_of_nat_u32 [of "unat w"] by (simp add: int_of_u32_def)

lemma gpt_search_found:
  assumes "phys \<ge> 0"
  shows "gpt_search ps name phys (Some r) =
    ((if \<exists>q \<in> set ps. gp_partition q = word_of_int phys \<and> gp_name q = name then None else Some r), phys)"
  using assms by (induction ps) auto

text \<open>
  The entry a name stands for, given as a position in the table: the first entry with that name, on the
  wanted physical partition when one is given, provided that no other entry with the name is on the same
  physical partition. A duplicate on another one is not noticed, although the search was for the name
  on any of them: the first match narrows the search.
\<close>

definition gpt_matches :: "gpt_partition list \<Rightarrow> u8 list \<Rightarrow> int \<Rightarrow> nat \<Rightarrow> bool" where
  "gpt_matches tbl name phys i \<longleftrightarrow> i < length tbl \<and> gp_name (tbl ! i) = name
     \<and> (0 \<le> phys \<longrightarrow> gp_partition (tbl ! i) = word_of_int phys)"

definition gpt_entry_for :: "gpt_partition list \<Rightarrow> u8 list \<Rightarrow> int \<Rightarrow> nat \<Rightarrow> bool" where
  "gpt_entry_for tbl name phys i \<longleftrightarrow> gpt_matches tbl name phys i
     \<and> (\<forall>j. gpt_matches tbl name phys j \<longrightarrow> i \<le> j \<and> (j = i \<or> gp_partition (tbl ! j) \<noteq> gp_partition (tbl ! i)))"

lemma matches_Cons:
  "gpt_matches (p # ps) name phys 0 \<longleftrightarrow> gp_name p = name \<and> (0 \<le> phys \<longrightarrow> gp_partition p = word_of_int phys)"
  "gpt_matches (p # ps) name phys (Suc k) \<longleftrightarrow> gpt_matches ps name phys k"
  by (simp_all add: gpt_matches_def)

lemma entry_for_Cons:
  "gpt_entry_for (p # ps) name phys i \<longleftrightarrow>
    (if gpt_matches (p # ps) name phys 0
     then i = 0 \<and> (\<forall>q \<in> set ps. gp_name q = name \<longrightarrow> gp_partition q \<noteq> gp_partition p)
     else \<exists>k. i = Suc k \<and> gpt_entry_for ps name phys k)"
proof (cases "gpt_matches (p # ps) name phys 0")
  case True
  have "gpt_entry_for (p # ps) name phys i \<longleftrightarrow> i = 0 \<and> (\<forall>k. gpt_matches ps name phys k \<longrightarrow> gp_partition (ps ! k) \<noteq> gp_partition p)"
  proof
    assume e: "gpt_entry_for (p # ps) name phys i"
    then have "i = 0" using True unfolding gpt_entry_for_def by blast
    moreover have "gp_partition (ps ! k) \<noteq> gp_partition p" if "gpt_matches ps name phys k" for k
      using e that \<open>i = 0\<close> matches_Cons(2) [of p ps name phys k]
      unfolding gpt_entry_for_def by (auto dest: spec [of _ "Suc k"])
    ultimately show "i = 0 \<and> (\<forall>k. gpt_matches ps name phys k \<longrightarrow> gp_partition (ps ! k) \<noteq> gp_partition p)"
      by blast
  next
    assume r: "i = 0 \<and> (\<forall>k. gpt_matches ps name phys k \<longrightarrow> gp_partition (ps ! k) \<noteq> gp_partition p)"
    have "j = 0 \<or> gp_partition ((p # ps) ! j) \<noteq> gp_partition p" if "gpt_matches (p # ps) name phys j" for j
      using r that matches_Cons(2) [of p ps name phys "j - 1"] by (cases j) auto
    then show "gpt_entry_for (p # ps) name phys i" using True r unfolding gpt_entry_for_def by simp
  qed
  also have "\<dots> \<longleftrightarrow> i = 0 \<and> (\<forall>q \<in> set ps. gp_name q = name \<longrightarrow> gp_partition q \<noteq> gp_partition p)"
    using True unfolding gpt_matches_def by (auto simp: all_set_conv_all_nth)
  finally show ?thesis using True by simp
next
  case False
  have all: "(\<forall>j. gpt_matches (p # ps) name phys j \<longrightarrow> R j) \<longleftrightarrow> (\<forall>k. gpt_matches ps name phys k \<longrightarrow> R (Suc k))" for R
    using False by (metis nat.exhaust matches_Cons(2))
  show ?thesis
  proof (cases i)
    case (Suc k)
    then show ?thesis using False unfolding gpt_entry_for_def all by (simp add: matches_Cons(2))
  qed (use False in \<open>simp add: gpt_entry_for_def\<close>)
qed

lemma gpt_search_entry:
  assumes "\<forall>p \<in> set tbl. unat (gp_partition p) < 2 ^ 31"
  shows "gpt_search tbl name phys None = (Some (start, num), phys') \<longleftrightarrow>
    (\<exists>i. gpt_entry_for tbl name phys i \<and> phys' = int (unat (gp_partition (tbl ! i)))
       \<and> start = gp_start (tbl ! i) \<and> num = gp_num (tbl ! i))"
  using assms
proof (induction tbl)
  case (Cons p ps)
  show ?case
  proof (cases "gpt_matches (p # ps) name phys 0")
    case True
    have n: "int_of_u32 (gp_partition p) = int (unat (gp_partition p))"
      using int_of_u32_small [of "gp_partition p"] Cons.prems by simp
    have "gpt_search (p # ps) name phys None
        = gpt_search ps name (int (unat (gp_partition p))) (Some (gp_start p, gp_num p))"
      using True n by (auto simp: matches_Cons(1))
    then show ?thesis
      using True gpt_search_found [of "int (unat (gp_partition p))" ps name]
      by (auto simp: entry_for_Cons)
  next
    case False
    then have "gpt_search (p # ps) name phys None = gpt_search ps name phys None" by (auto simp: matches_Cons(1))
    then show ?thesis using False Cons by (auto simp: entry_for_Cons)
  qed
qed (simp add: gpt_entry_for_def gpt_matches_def)

lemma gpt_entry_unique: "gpt_entry_for tbl name phys i \<Longrightarrow> gpt_entry_for tbl name phys j \<Longrightarrow> i = j"
  unfolding gpt_entry_for_def by (meson order_antisym)

definition ex_gpt :: "gpt_partition list" where
  "ex_gpt = [\<lparr>gp_name = [98], gp_partition = 0, gp_start = 6, gp_num = 4\<rparr>,
     \<lparr>gp_name = [98], gp_partition = 4, gp_start = 8, gp_num = 2\<rparr>]"

subsection \<open>Resolving a queue\<close>

text \<open>
  What has to become of one operation. A program, erase, read or digest operation with a partition name
  gets the number of the physical partition, the first sector in decimal and the number of sectors of
  the entry its name stands for, which has to fit 32 bits; any other stays as it is.
\<close>

definition gpt_resolved :: "gpt_partition list \<Rightarrow> firehose_op \<Rightarrow> firehose_op \<Rightarrow> bool" where
  "gpt_resolved tbl o1 o2 \<longleftrightarrow>
     (case op_gpt_partition o1 of
        None \<Rightarrow> o2 = o1
      | Some name \<Rightarrow>
          if op_type o1 \<notin> {FIREHOSE_OP_PROGRAM, FIREHOSE_OP_ERASE, FIREHOSE_OP_READ, FIREHOSE_OP_GET_SHA256_DIGEST}
          then o2 = o1
          else \<exists>i. gpt_entry_for tbl (bytes_of name) (op_partition o1) i
            \<and> unat (gp_num (tbl ! i)) < 2 ^ 32
            \<and> o2 = o1\<lparr>op_partition := int (unat (gp_partition (tbl ! i))),
                      op_num_sectors := of_nat (unat (gp_num (tbl ! i))),
                      op_start_sector := Some (show_dec (unat (gp_start (tbl ! i))))\<rparr>)"

lemma resolved_plain: "\<not> gpt_addressed o1 \<Longrightarrow> gpt_resolved tbl o1 o2 \<longleftrightarrow> o2 = o1"
  by (auto simp: gpt_resolved_def gpt_addressed_def split: option.splits)

lemma resolved_search:
  assumes "\<forall>p \<in> set tbl. unat (gp_partition p) < 2 ^ 31" "gpt_addressed o1"
  shows "gpt_resolved tbl o1 o2 \<longleftrightarrow>
    (\<exists>start num phys. gpt_search tbl (bytes_of (the (op_gpt_partition o1))) (op_partition o1) None = (Some (start, num), phys)
       \<and> unat num < 2 ^ 32 \<and> o2 = gpt_place o1 (phys, (start, num)))"
proof -
  obtain name where n: "op_gpt_partition o1 = Some name" using assms(2) by (auto simp: gpt_addressed_def)
  have "op_type o1 \<in> {FIREHOSE_OP_PROGRAM, FIREHOSE_OP_ERASE, FIREHOSE_OP_READ, FIREHOSE_OP_GET_SHA256_DIGEST}"
    using assms(2) by (auto simp: gpt_addressed_def)
  moreover have "(of_nat (unat num) :: u32) = ucast num" for num :: u64
    by (rule word_unat_eq_iff [THEN iffD2]) (simp add: unat_of_nat unsigned_ucast_eq take_bit_eq_mod)
  ultimately show ?thesis
    unfolding gpt_search_entry [OF assms(1)] by (auto simp: gpt_resolved_def gpt_place_def n)
qed

text \<open>
  C36: Partition names are resolved against the tables. Once tables with fewer than \<open>2 ^ 31\<close> physical
  partitions are loaded, \<open>gpt_resolve_deferrals\<close> returns without touching them or the device. It
  succeeds exactly when every operation addressed by a name has an entry that name stands for, of
  fewer than \<open>2 ^ 32\<close> sectors, and then each such operation has become the one on the sectors of its
  entry and every other operation is as it was.
\<close>

theorem gpt_resolve_deferrals_places:
  assumes "tbl \<noteq> []" "\<forall>p \<in> set tbl. unat (gp_partition p) < 2 ^ 31"
  shows "\<exists>r ops'. gpt_resolve_deferrals fuel rd False ssz stk s tbl ops = Some (r, ops', tbl, s)
    \<and> (if \<exists>placed. list_all2 (gpt_resolved tbl) ops placed
       then r = 0 \<and> list_all2 (gpt_resolved tbl) ops ops' else r = -1)"
proof (induction ops)
  case (Cons o1 ops)
  then obtain r ops' where ih: "gpt_resolve_deferrals fuel rd False ssz stk s tbl ops = Some (r, ops', tbl, s)"
    "if \<exists>placed. list_all2 (gpt_resolved tbl) ops placed
     then r = 0 \<and> list_all2 (gpt_resolved tbl) ops ops' else r = -1" by blast
  show ?case
  proof (cases "gpt_addressed o1")
    case False
    then show ?thesis using ih by (auto simp: list_all2_Cons1 resolved_plain split: if_splits)
  next
    case True
    let ?search = "gpt_search tbl (bytes_of (the (op_gpt_partition o1))) (op_partition o1) None"
    have f: "gpt_find_by_name fuel rd False ssz stk (bytes_of (the (op_gpt_partition o1))) (op_partition o1) s tbl
        = Some (?search, tbl, s)"
      using assms(1) by (simp add: gpt_find_by_name_def gpt_load_tables_def)
    note res = resolved_search [OF assms(2) True]
    obtain found phys where sr: "?search = (found, phys)" by fastforce
    show ?thesis
    proof (cases "found = None \<or> (\<exists>start num. found = Some (start, num) \<and> \<not> unat num < 2 ^ 32)")
      case bad: True
      then have "\<not> gpt_resolved tbl o1 o2" for o2 unfolding res sr by auto
      then show ?thesis using bad True by (auto simp: f sr list_all2_Cons1 not_less)
    next
      case False
      then obtain start num where o: "found = Some (start, num)" "unat num < 2 ^ 32" by (cases found) auto
      have "gpt_resolved tbl o1 o2 \<longleftrightarrow> o2 = gpt_place o1 (phys, (start, num))" for o2
        unfolding res sr using o by auto
      then show ?thesis using ih True o by (auto simp: f sr list_all2_Cons1 not_less split: if_splits)
    qed
  qed
qed simp

lemma gpt_resolve_deferrals_places_witness:
  "\<exists>ops'. gpt_resolve_deferrals 0 (\<lambda>s op n. (None, s)) False 512 [] () ex_gpt
      [(firehose_alloc_op FIREHOSE_OP_ERASE)\<lparr>op_partition := 4, op_gpt_partition := Some ''b''\<rparr>] = Some (0, ops', ex_gpt, ())
    \<and> list_all2 (\<lambda>o1 o2. op_num_sectors o2 = 2 \<and> op_start_sector o2 = Some ''8'')
        [(firehose_alloc_op FIREHOSE_OP_ERASE)\<lparr>op_partition := 4, op_gpt_partition := Some ''b''\<rparr>] ops'"
proof -
  let ?op = "(firehose_alloc_op FIREHOSE_OP_ERASE)\<lparr>op_partition := 4, op_gpt_partition := Some ''b''\<rparr>"
  have small: "\<forall>p \<in> set ex_gpt. unat (gp_partition p) < 2 ^ 31" "ex_gpt \<noteq> []" by (simp_all add: ex_gpt_def)
  have m: "gpt_matches ex_gpt (bytes_of ''b'') 4 i \<longleftrightarrow> i = 1" for i
    by (auto simp: gpt_matches_def ex_gpt_def bytes_of_def nth_Cons less_Suc_eq split: nat.splits)
  then have e: "gpt_entry_for ex_gpt (bytes_of ''b'') 4 i \<longleftrightarrow> i = 1" for i by (auto simp: gpt_entry_for_def)
  have n: "unat (gp_num (ex_gpt ! 1)) < 2 ^ 32" by (simp add: ex_gpt_def)
  have d: "show_dec 8 = ''8''" by code_simp
  have p: "gpt_resolved ex_gpt ?op o2 \<longleftrightarrow>
      o2 = ?op\<lparr>op_partition := 4, op_num_sectors := 2, op_start_sector := Some ''8''\<rparr>" for o2
    using n d by (simp add: gpt_resolved_def firehose_alloc_op_def e) (simp add: ex_gpt_def)
  have "\<exists>placed. list_all2 (gpt_resolved ex_gpt) [?op] placed" using p by (simp add: list_all2_Cons1)
  with gpt_resolve_deferrals_places [OF small(2,1), of 0 "\<lambda>s op n. (None, s)" 512 "[]" "()" "[?op]"] p
  show ?thesis by (auto simp: list_all2_Cons1)
qed

subsection \<open>Loading a table\<close>

text \<open>
  A reader that serves the sectors of a disk: a one-sector read of \<open>n\<close> bytes stores the first
  \<open>n\<close> bytes of the sector.
\<close>

definition serves :: "'s sector_reader \<Rightarrow> nat \<Rightarrow> u32 \<Rightarrow> (nat \<Rightarrow> u8 list) \<Rightarrow> bool" where
  "serves rd ssz phys disk \<longleftrightarrow>
     (\<forall>lba. length (disk lba) = ssz)
     \<and> (\<forall>s lba n. \<exists>s'. rd s (gpt_read_op ssz phys (show_dec lba)) n = (Some (take n (disk lba)), s'))"

text \<open>The bytes of entry \<open>i\<close> in the entry array that starts at sector \<open>lba0\<close>, read across sectors.\<close>

definition disk_bytes :: "(nat \<Rightarrow> u8 list) \<Rightarrow> nat \<Rightarrow> nat \<Rightarrow> u8 list" where
  "disk_bytes disk lba0 m = concat (map (\<lambda>k. disk (lba0 + k)) [0..<m])"

lemma sub_buf_concat:
  assumes "\<And>k. length (disk k) = ssz" "q < m" "off + n \<le> ssz"
  shows "sub_buf (q * ssz + off) n (disk_bytes disk lba0 m) = sub_buf off n (disk (lba0 + q))"
proof -
  let ?f = "\<lambda>k. disk (lba0 + k)"
  have l: "length (concat (map ?f [0..<q])) = q * ssz"
    using assms(1) by (simp add: length_concat comp_def sum_list_triv)
  have sp: "[0..<m] = [0..<q] @ q # [Suc q..<m]"
    using upt_add_eq_append [of 0 q "m - q"] upt_conv_Cons [OF assms(2)] assms(2) by simp
  have "disk_bytes disk lba0 m = concat (map ?f [0..<q]) @ ?f q @ concat (map ?f [Suc q..<m])"
    unfolding disk_bytes_def sp by simp
  then show ?thesis
    using l assms(1,3) by (simp add: sub_buf_def)
qed

lemma memcpy_zeroes_sub:
  "length d \<le> 4096 \<Longrightarrow> off + n \<le> length d \<Longrightarrow> sub_buf off n (memcpy_at (replicate 4096 0) 0 d) = sub_buf off n d"
  by (simp add: sub_buf_def memcpy_at_def)

text \<open>The entries, with sector size \<open>k * es\<close>: the loop decodes entry after entry of the array.\<close>

lemma gpt_entries_array:
  assumes rd: "serves rd (k * es) phys disk" and k: "0 < k" "128 \<le> es" "k * es \<le> 4096"
    and hdr: "unat (gh_part_entry_size gpt) = es" "unat (gh_part_entry_lba gpt) = lba0" "lba0 < 2 ^ 63"
    and m: "i + n \<le> m * k" "i + n \<le> 1024"
    and buf: "i mod k \<noteq> 0 \<longrightarrow> buf = memcpy_at (replicate 4096 0) 0 (disk (lba0 + i div k))"
  shows "\<exists>s'. gpt_entries rd (k * es) phys gpt n (of_nat i) buf s tbl =
    (0, tbl @ map (entry_partition phys) (filter entry_used
        (map (\<lambda>j. sub_buf (j * es) 128 (disk_bytes disk lba0 m)) [i..<i + n])), s')"
  using m buf
proof (induction n arbitrary: i buf s tbl)
  case (Suc n)
  have len: "length (disk lba) = k * es" for lba using rd by (simp add: serves_def)
  have "1 * es \<le> k * es" using k(1) by (intro mult_le_mono1) simp
  from le_trans [OF this k(3)] have es: "es \<le> 4096" by simp
  have "i * es \<le> 1023 * 4096" using Suc.prems(2) es by (intro mult_le_mono) simp_all
  then have ie: "i * es < 2 ^ 22" by simp
  have w: "unat (of_nat i * gh_part_entry_size gpt) = i * es"
  proof -
    have g: "gh_part_entry_size gpt = of_nat es" unfolding hdr(1) [symmetric] by simp
    show ?thesis unfolding g using ie by (simp add: unat_of_nat flip: of_nat_mult)
  qed
  have off: "i * es mod (k * es) = (i mod k) * es" and dv: "i * es div (k * es) = i div k"
    using k by (simp_all add: mult.commute [of k])
  have lba: "unat (gh_part_entry_lba gpt + of_nat (i div k)) = lba0 + i div k"
  proof -
    have "i div k \<le> 1024" using Suc.prems(2) by (meson div_le_dividend le_trans add_leD1)
    then show ?thesis using hdr(2,3) by (simp add: unat_word_ariths unat_of_nat)
  qed
  define b where "b = memcpy_at (replicate 4096 0) 0 (disk (lba0 + i div k))"
  obtain s1 where s1: "(if (i mod k) * es = 0 then
             (case rd s (gpt_read_op (k * es) phys (show_dec (lba0 + i div k))) 4096 of
                (None, s1) \<Rightarrow> (None, s1)
              | (Some d, s1) \<Rightarrow> (Some (memcpy_at (replicate 4096 0) 0 d), s1))
           else (Some buf, s)) = (Some b, s1)"
  proof (cases "i mod k = 0")
    case True
    obtain s1 where "rd s (gpt_read_op (k * es) phys (show_dec (lba0 + i div k))) 4096
        = (Some (take 4096 (disk (lba0 + i div k))), s1)"
      using rd unfolding serves_def by blast
    then show ?thesis using that True len k(3) by (simp add: b_def)
  next
    case False
    then show ?thesis using that Suc.prems(3) k(2) by (auto simp: b_def)
  qed
  have q: "i div k < m"
    using Suc.prems(1) k(1) by (metis Suc_le_lessD add_Suc_right add_leD1 less_mult_imp_div_less le_less_trans le_add1 less_le_trans lessI)
  have room: "(i mod k) * es + 128 \<le> k * es"
  proof -
    have "Suc (i mod k) * es \<le> k * es" using k(1) by (intro mult_le_mono1 Suc_leI) simp
    then show ?thesis using k(2) by simp
  qed
  have pos: "i * es = (i div k) * (k * es) + (i mod k) * es"
    by (metis add.commute distrib_right mod_mult_div_eq mult.assoc mult.commute)
  have entry: "sub_buf ((i mod k) * es) 128 b = sub_buf (i * es) 128 (disk_bytes disk lba0 m)"
    unfolding b_def pos
    using sub_buf_concat [where disk = disk, OF len q room] memcpy_zeroes_sub [of "disk (lba0 + i div k)"] len k(3) room
    by simp
  let ?tbl = "if entry_used (sub_buf ((i mod k) * es) 128 b)
    then tbl @ [entry_partition phys (sub_buf ((i mod k) * es) 128 b)] else tbl"
  have step: "gpt_entries rd (k * es) phys gpt (Suc n) (of_nat i) buf s tbl
      = gpt_entries rd (k * es) phys gpt n (of_nat (Suc i)) b s1 ?tbl"
    unfolding gpt_entries.simps(2) Let_def w off dv lba s1 by (simp add: add.commute)
  have "Suc i mod k \<noteq> 0 \<longrightarrow> b = memcpy_at (replicate 4096 0) 0 (disk (lba0 + Suc i div k))"
    by (auto simp: b_def mod_Suc div_Suc split: if_splits)
  then obtain s' where "gpt_entries rd (k * es) phys gpt n (of_nat (Suc i)) b s1 ?tbl =
      (0, ?tbl @ map (entry_partition phys) (filter entry_used
        (map (\<lambda>j. sub_buf (j * es) 128 (disk_bytes disk lba0 m)) [Suc i..<Suc i + n])), s')"
    using Suc.IH [of "Suc i" b s1 ?tbl] Suc.prems(1,2) by auto
  then show ?case
    unfolding step using upt_conv_Cons [of i "i + Suc n"] by (simp add: entry del: upt_Suc)
qed simp

lemma show_dec_1: "show_dec 1 = ''1''"
  by (subst show_dec.simps) (simp add: char_of_def bit_Suc_0_iff)

text \<open>
  C35: Loading the table of a physical partition with a valid header, on sectors of 512 to 4096
  bytes, appends exactly the used entries of the on-disk entry array, in order, each decoded from
  its own bytes of the array: reading sector by sector loses, repeats and shifts nothing.
\<close>

theorem gpt_load_table_entries:
  assumes "serves rd ssz phys disk" "512 \<le> ssz" "ssz \<le> 4096" "length stk = 512"
    and "hdr = take 512 (disk 1)" "take 8 hdr = gpt_signature"
    and "es = unat (gh_part_entry_size hdr)" "128 \<le> es" "es dvd ssz"
    and "n = unat (gh_num_part_entries hdr)" "n \<le> 1024"
    and "lba0 = unat (gh_part_entry_lba hdr)" "lba0 < 2 ^ 63"
  shows "\<exists>s'. gpt_load_table_from_partition rd ssz stk phys s tbl =
    ((0, False), tbl @ map (entry_partition phys) (filter entry_used
        (map (\<lambda>i. sub_buf (i * es) 128 (disk_bytes disk lba0 n)) [0..<n])), s')"
proof -
  from assms(9) obtain k where k0: "ssz = es * k" by (rule dvdE)
  have k: "ssz = k * es" "0 < k" using k0 assms(2) by (simp_all add: mult.commute, cases k, auto)
  have "length (disk 1) = ssz" using assms(1) by (simp add: serves_def)
  then have hd: "length hdr = 512" using assms(2,5) by simp
  obtain s1 where r: "rd s (gpt_read_op ssz phys ''1'') 512 = (Some hdr, s1)"
    using assms(1,5) show_dec_1 unfolding serves_def by metis
  have h: "memcpy_at stk 0 hdr = hdr" using assms(4) hd by (simp add: memcpy_at_def)
  have es: "es \<le> ssz" using assms(2,9) by (auto intro: dvd_imp_le)
  obtain s' where "gpt_entries rd (k * es) phys hdr n (of_nat 0) (replicate 4096 0) s1 tbl =
    (0, tbl @ map (entry_partition phys) (filter entry_used
        (map (\<lambda>j. sub_buf (j * es) 128 (disk_bytes disk lba0 n)) [0..<0 + n])), s')"
    using gpt_entries_array [of rd k es phys disk hdr lba0 0 n n "replicate 4096 0" s1 tbl]
      assms k by auto
  then show ?thesis
    using r h es assms(6-11) k by (simp add: gpt_load_table_from_partition_def)
qed

text \<open>A disk with one entry, \<open>a\<close> from sector 8 to 9, in a table at sector 2.\<close>

definition ex_header :: "u8 list" where
  "ex_header = gpt_signature @ replicate 64 0 @ put_le64 2 @ le_enc 4 1 @ le_enc 4 128 @ replicate 424 0"

definition ex_gpt_entry :: "u8 list" where
  "ex_gpt_entry = replicate 32 1 @ put_le64 8 @ put_le64 9 @ replicate 8 0 @ [97] @ replicate 71 0"

definition ex_gpt_disk :: "nat \<Rightarrow> u8 list" where
  "ex_gpt_disk lba = (if lba = 1 then ex_header else if lba = 2 then ex_gpt_entry @ replicate 384 0 else replicate 512 0)"

definition ex_gpt_rd :: "unit sector_reader" where
  "ex_gpt_rd s o1 n = (Some (take n (ex_gpt_disk (foldl (\<lambda>a c. 10 * a + digit_val c) 0 (the (op_start_sector o1))))), s)"

lemma gpt_load_table_entries_witness:
  "\<exists>s'. gpt_load_table_from_partition ex_gpt_rd 512 (replicate 512 0) 0 () []
     = ((0, False), map (entry_partition 0) (filter entry_used [ex_gpt_entry]), s')"
proof -
  have l: "length ex_header = 512" "length ex_gpt_entry = 128"
    by (simp_all add: ex_header_def ex_gpt_entry_def gpt_signature_def)
  have f: "take 8 ex_header = gpt_signature" "unat (gh_part_entry_size ex_header) = 128"
      "unat (gh_num_part_entries ex_header) = 1" "unat (gh_part_entry_lba ex_header) = 2"
    by (simp_all add: ex_header_def gpt_signature_def get_le32_def get_le64_def sub_buf_def le_nat_le_enc)
  have e: "sub_buf 0 128 (disk_bytes ex_gpt_disk 2 1) = ex_gpt_entry"
    using l by (simp add: disk_bytes_def ex_gpt_disk_def sub_buf_def)
  have sv: "serves ex_gpt_rd 512 0 ex_gpt_disk"
    using l by (auto simp: serves_def ex_gpt_rd_def ex_gpt_disk_def gpt_read_op_def show_dec_value)
  have hdr: "ex_header = take 512 (ex_gpt_disk 1)" using l by (simp add: ex_gpt_disk_def)
  show ?thesis
    using gpt_load_table_entries [OF sv _ _ _ hdr f(1) f(2) [symmetric] _ _ f(3) [symmetric] _ f(4) [symmetric],
        of "replicate 512 0" "()" "[]"] e by simp
qed

end
