(* ===== verification/Sha2.thy ===== *)
theory Sha2
  imports Prelude
begin

text \<open>
  \<open>src/sha2.c\<close>: SHA-256. The block transform exists twice in the code, as a rolled and as an
  unrolled loop over a 16-word circular message schedule; both are modelled and shown equal to the
  compression function of the standard, with its 64-word schedule. The streaming interface
  (\<open>SHA256Init\<close>, \<open>SHA256Update\<close>, \<open>SHA256Final\<close>) is shown to compute the standard's hash of the
  concatenated input, in whatever pieces it arrives.
\<close>

subsection \<open>Logical functions and constants\<close>

definition BE_8_TO_32 :: "u8 list \<Rightarrow> u32" where
  "BE_8_TO_32 cp = ucast (cp ! 3) OR push_bit 8 (ucast (cp ! 2)) OR push_bit 16 (ucast (cp ! 1))
     OR push_bit 24 (ucast (cp ! 0))"

definition BE_64_TO_8 :: "u64 \<Rightarrow> u8 list" where
  "BE_64_TO_8 src = [ucast (drop_bit 56 src), ucast (drop_bit 48 src), ucast (drop_bit 40 src),
     ucast (drop_bit 32 src), ucast (drop_bit 24 src), ucast (drop_bit 16 src), ucast (drop_bit 8 src), ucast src]"

definition BE_32_TO_8 :: "u32 \<Rightarrow> u8 list" where
  "BE_32_TO_8 src = [ucast (drop_bit 24 src), ucast (drop_bit 16 src), ucast (drop_bit 8 src), ucast src]"

definition S32 :: "nat \<Rightarrow> u32 \<Rightarrow> u32" where "S32 b x = drop_bit b x OR push_bit (32 - b) x"
definition Ch :: "u32 \<Rightarrow> u32 \<Rightarrow> u32 \<Rightarrow> u32" where "Ch x y z = (x AND y) XOR (NOT x AND z)"
definition Maj :: "u32 \<Rightarrow> u32 \<Rightarrow> u32 \<Rightarrow> u32" where "Maj x y z = (x AND y) XOR (x AND z) XOR (y AND z)"
definition Sigma0_256 :: "u32 \<Rightarrow> u32" where "Sigma0_256 x = S32 2 x XOR S32 13 x XOR S32 22 x"
definition Sigma1_256 :: "u32 \<Rightarrow> u32" where "Sigma1_256 x = S32 6 x XOR S32 11 x XOR S32 25 x"
definition sigma0_256 :: "u32 \<Rightarrow> u32" where "sigma0_256 x = S32 7 x XOR S32 18 x XOR drop_bit 3 x"
definition sigma1_256 :: "u32 \<Rightarrow> u32" where "sigma1_256 x = S32 17 x XOR S32 19 x XOR drop_bit 10 x"

definition K256 :: "u32 list" where
  "K256 =
     0x428a2f98 # 0x71374491 # 0xb5c0fbcf # 0xe9b5dba5 # 0x3956c25b # 0x59f111f1 # 0x923f82a4 # 0xab1c5ed5 #
     0xd807aa98 # 0x12835b01 # 0x243185be # 0x550c7dc3 # 0x72be5d74 # 0x80deb1fe # 0x9bdc06a7 # 0xc19bf174 #
     0xe49b69c1 # 0xefbe4786 # 0x0fc19dc6 # 0x240ca1cc # 0x2de92c6f # 0x4a7484aa # 0x5cb0a9dc # 0x76f988da #
     0x983e5152 # 0xa831c66d # 0xb00327c8 # 0xbf597fc7 # 0xc6e00bf3 # 0xd5a79147 # 0x06ca6351 # 0x14292967 #
     0x27b70a85 # 0x2e1b2138 # 0x4d2c6dfc # 0x53380d13 # 0x650a7354 # 0x766a0abb # 0x81c2c92e # 0x92722c85 #
     0xa2bfe8a1 # 0xa81a664b # 0xc24b8b70 # 0xc76c51a3 # 0xd192e819 # 0xd6990624 # 0xf40e3585 # 0x106aa070 #
     0x19a4c116 # 0x1e376c08 # 0x2748774c # 0x34b0bcb5 # 0x391c0cb3 # 0x4ed8aa4a # 0x5b9cca4f # 0x682e6ff3 #
     0x748f82ee # 0x78a5636f # 0x84c87814 # 0x8cc70208 # 0x90befffa # 0xa4506ceb # 0xbef9a3f7 # 0xc67178f2 # []"

text \<open>The working variables \<open>a\<close> to \<open>h\<close>; the chaining state has the same shape.\<close>

type_synonym regs = "u32 \<times> u32 \<times> u32 \<times> u32 \<times> u32 \<times> u32 \<times> u32 \<times> u32"

definition sha256_initial_hash_value :: regs where
  "sha256_initial_hash_value = (0x6a09e667, 0xbb67ae85, 0x3c6ef372, 0xa54ff53a,
     0x510e527f, 0x9b05688c, 0x1f83d9ab, 0x5be0cd19)"

definition add_regs :: "regs \<Rightarrow> regs \<Rightarrow> regs" where
  "add_regs s r = (case (s, r) of ((a, b, c, d, e, f, g, h), (a', b', c', d', e', f', g', h')) \<Rightarrow>
     (a + a', b + b', c + c', d + d', e + e', f + f', g + g', h + h'))"

subsection \<open>The rolled transform\<close>

definition sha_T1 :: "u32 \<Rightarrow> u32 \<Rightarrow> u32 \<Rightarrow> u32 \<Rightarrow> u32 \<Rightarrow> u32 \<Rightarrow> u32" where
  "sha_T1 h e f g k w = h + Sigma1_256 e + Ch e f g + k + w"

definition sha_T2 :: "u32 \<Rightarrow> u32 \<Rightarrow> u32 \<Rightarrow> u32" where
  "sha_T2 a b c = Sigma0_256 a + Maj a b c"

fun sha_step :: "u32 \<Rightarrow> u32 \<Rightarrow> regs \<Rightarrow> regs" where
  "sha_step k w (a, b, c, d, e, f, g, h) =
     (let T1 = sha_T1 h e f g k w; T2 = sha_T2 a b c in (T1 + T2, a, b, c, d + T1, e, f, g))"

definition load_word :: "u8 list \<Rightarrow> nat \<Rightarrow> u32 list \<Rightarrow> u32 list" where
  "load_word data j W = W[j := BE_8_TO_32 (drop (4 * j) data)]"

definition expand_word :: "nat \<Rightarrow> u32 list \<Rightarrow> u32 list" where
  "expand_word j W =
     (let s0 = sigma0_256 (W ! ((j + 1) mod 16)); s1 = sigma1_256 (W ! ((j + 14) mod 16))
      in W[j mod 16 := W ! (j mod 16) + (s1 + W ! ((j + 9) mod 16) + s0)])"

definition rolled_lo :: "u8 list \<Rightarrow> regs \<times> u32 list \<Rightarrow> nat \<Rightarrow> regs \<times> u32 list" where
  "rolled_lo data s j = (case s of (r, W) \<Rightarrow>
     let W' = load_word data j W in (sha_step (K256 ! j) (W' ! j) r, W'))"

definition rolled_hi :: "regs \<times> u32 list \<Rightarrow> nat \<Rightarrow> regs \<times> u32 list" where
  "rolled_hi s j = (case s of (r, W) \<Rightarrow>
     let W' = expand_word j W in (sha_step (K256 ! j) (W' ! (j mod 16)) r, W'))"

lemma rolled_pair:
  "rolled_lo data (r, W) j = (sha_step (K256 ! j) (load_word data j W ! j) r, load_word data j W)"
  "rolled_hi (r, W) j = (sha_step (K256 ! j) (expand_word j W ! (j mod 16)) r, expand_word j W)"
  by (simp_all add: rolled_lo_def rolled_hi_def Let_def)

text \<open>\<open>W0\<close> is the uninitialised array \<open>W256\<close>.\<close>

definition SHA256Transform_rolled :: "u32 list \<Rightarrow> regs \<Rightarrow> u8 list \<Rightarrow> regs" where
  "SHA256Transform_rolled W0 state data =
     (let s = foldl (rolled_lo data) (state, W0) [0..<16];
          s' = foldl rolled_hi s [16..<64]
      in add_regs state (fst s'))"

subsection \<open>The unrolled transform\<close>

text \<open>
  A round macro changes the schedule and its parameters \<open>d\<close> and \<open>h\<close> in place: the results are
  the new schedule, the new \<open>d\<close> and the new \<open>h\<close>.
\<close>

definition ROUND256_0_TO_15 ::
  "u8 list \<Rightarrow> nat \<Rightarrow> u32 list \<Rightarrow> u32 \<Rightarrow> u32 \<Rightarrow> u32 \<Rightarrow> u32 \<Rightarrow> u32 \<Rightarrow> u32 \<Rightarrow> u32 \<Rightarrow> u32 \<Rightarrow> u32 list \<times> u32 \<times> u32" where
  "ROUND256_0_TO_15 data j W a b c d e f g h =
     (let W' = load_word data j W;
          T1 = sha_T1 h e f g (K256 ! j) (W' ! j)
      in (W', d + T1, T1 + sha_T2 a b c))"

definition ROUND256 ::
  "nat \<Rightarrow> u32 list \<Rightarrow> u32 \<Rightarrow> u32 \<Rightarrow> u32 \<Rightarrow> u32 \<Rightarrow> u32 \<Rightarrow> u32 \<Rightarrow> u32 \<Rightarrow> u32 \<Rightarrow> u32 list \<times> u32 \<times> u32" where
  "ROUND256 j W a b c d e f g h =
     (let W' = expand_word j W;
          T1 = sha_T1 h e f g (K256 ! j) (W' ! (j mod 16))
      in (W', d + T1, T1 + sha_T2 a b c))"

text \<open>The eight macro calls of a loop body, for either macro.\<close>

definition eight_rounds ::
  "(nat \<Rightarrow> u32 list \<Rightarrow> u32 \<Rightarrow> u32 \<Rightarrow> u32 \<Rightarrow> u32 \<Rightarrow> u32 \<Rightarrow> u32 \<Rightarrow> u32 \<Rightarrow> u32 \<Rightarrow> u32 list \<times> u32 \<times> u32)
    \<Rightarrow> regs \<times> u32 list \<Rightarrow> nat \<Rightarrow> regs \<times> u32 list" where
  "eight_rounds RND s j =
     (case s of ((a, b, c, d, e, f, g, h), W) \<Rightarrow>
       let (W, d, h) = RND j W a b c d e f g h;
           (W, c, g) = RND (j + 1) W h a b c d e f g;
           (W, b, f) = RND (j + 2) W g h a b c d e f;
           (W, a, e) = RND (j + 3) W f g h a b c d e;
           (W, h, d) = RND (j + 4) W e f g h a b c d;
           (W, g, c) = RND (j + 5) W d e f g h a b c;
           (W, f, b) = RND (j + 6) W c d e f g h a b;
           (W, e, a) = RND (j + 7) W b c d e f g h a
       in ((a, b, c, d, e, f, g, h), W))"

definition SHA256Transform :: "u32 list \<Rightarrow> regs \<Rightarrow> u8 list \<Rightarrow> regs" where
  "SHA256Transform W0 state data =
     (let s = foldl (eight_rounds (ROUND256_0_TO_15 data)) (state, W0) [0, 8];
          s' = foldl (eight_rounds ROUND256) s [16, 24, 32, 40, 48, 56]
      in add_regs state (fst s'))"

text \<open>Eight macro calls are eight iterations of the rolled loop.\<close>

lemma eight_rounds_rolled:
  assumes "\<And>j W a b c d e f g h. \<exists>W' d' h'. RND j W a b c d e f g h = (W', d', h')
      \<and> step ((a, b, c, d, e, f, g, h), W) j = ((h', a, b, c, d', e, f, g), W')"
  shows "eight_rounds RND s j = foldl step s [j, j + 1, j + 2, j + 3, j + 4, j + 5, j + 6, j + 7]"
proof -
  obtain a b c d e f g h W where s: "s = ((a, b, c, d, e, f, g, h), W)"
    by (cases s) auto
  from assms [of j W a b c d e f g h] obtain W1 d1 h1 where
    1: "RND j W a b c d e f g h = (W1, d1, h1)"
       "step ((a, b, c, d, e, f, g, h), W) j = ((h1, a, b, c, d1, e, f, g), W1)" by blast
  from assms [of "j + 1" W1 h1 a b c d1 e f g] obtain W2 c1 g1 where
    2: "RND (j + 1) W1 h1 a b c d1 e f g = (W2, c1, g1)"
       "step ((h1, a, b, c, d1, e, f, g), W1) (j + 1) = ((g1, h1, a, b, c1, d1, e, f), W2)" by blast
  from assms [of "j + 2" W2 g1 h1 a b c1 d1 e f] obtain W3 b1 f1 where
    3: "RND (j + 2) W2 g1 h1 a b c1 d1 e f = (W3, b1, f1)"
       "step ((g1, h1, a, b, c1, d1, e, f), W2) (j + 2) = ((f1, g1, h1, a, b1, c1, d1, e), W3)" by blast
  from assms [of "j + 3" W3 f1 g1 h1 a b1 c1 d1 e] obtain W4 a1 e1 where
    4: "RND (j + 3) W3 f1 g1 h1 a b1 c1 d1 e = (W4, a1, e1)"
       "step ((f1, g1, h1, a, b1, c1, d1, e), W3) (j + 3) = ((e1, f1, g1, h1, a1, b1, c1, d1), W4)" by blast
  from assms [of "j + 4" W4 e1 f1 g1 h1 a1 b1 c1 d1] obtain W5 h2 d2 where
    5: "RND (j + 4) W4 e1 f1 g1 h1 a1 b1 c1 d1 = (W5, h2, d2)"
       "step ((e1, f1, g1, h1, a1, b1, c1, d1), W4) (j + 4) = ((d2, e1, f1, g1, h2, a1, b1, c1), W5)" by blast
  from assms [of "j + 5" W5 d2 e1 f1 g1 h2 a1 b1 c1] obtain W6 g2 c2 where
    6: "RND (j + 5) W5 d2 e1 f1 g1 h2 a1 b1 c1 = (W6, g2, c2)"
       "step ((d2, e1, f1, g1, h2, a1, b1, c1), W5) (j + 5) = ((c2, d2, e1, f1, g2, h2, a1, b1), W6)" by blast
  from assms [of "j + 6" W6 c2 d2 e1 f1 g2 h2 a1 b1] obtain W7 f2 b2 where
    7: "RND (j + 6) W6 c2 d2 e1 f1 g2 h2 a1 b1 = (W7, f2, b2)"
       "step ((c2, d2, e1, f1, g2, h2, a1, b1), W6) (j + 6) = ((b2, c2, d2, e1, f2, g2, h2, a1), W7)" by blast
  from assms [of "j + 7" W7 b2 c2 d2 e1 f2 g2 h2 a1] obtain W8 e2 a2 where
    8: "RND (j + 7) W7 b2 c2 d2 e1 f2 g2 h2 a1 = (W8, e2, a2)"
       "step ((b2, c2, d2, e1, f2, g2, h2, a1), W7) (j + 7) = ((a2, b2, c2, d2, e2, f2, g2, h2), W8)" by blast
  show ?thesis
    unfolding eight_rounds_def s using 1 2 3 4 5 6 7 8 by simp
qed

lemma unrolled_lo: "eight_rounds (ROUND256_0_TO_15 data) s j
    = foldl (rolled_lo data) s [j, j + 1, j + 2, j + 3, j + 4, j + 5, j + 6, j + 7]"
  by (rule eight_rounds_rolled) (auto simp: ROUND256_0_TO_15_def rolled_lo_def Let_def)

lemma unrolled_hi: "eight_rounds ROUND256 s j
    = foldl rolled_hi s [j, j + 1, j + 2, j + 3, j + 4, j + 5, j + 6, j + 7]"
  by (rule eight_rounds_rolled) (auto simp: ROUND256_def rolled_hi_def Let_def)

lemma transform_unrolled: "SHA256Transform W0 state data = SHA256Transform_rolled W0 state data"
proof -
  have lo: "foldl (eight_rounds (ROUND256_0_TO_15 data)) s [0, 8] = foldl (rolled_lo data) s [0..<16]" for s
  proof -
    have "[0..<16] = concat (map (\<lambda>j. [j, j + 1, j + 2, j + 3, j + 4, j + 5, j + 6, j + 7]) [0, 8 :: nat])"
      by code_simp
    then show ?thesis by (simp add: unrolled_lo)
  qed
  have hi: "foldl (eight_rounds ROUND256) s [16, 24, 32, 40, 48, 56] = foldl rolled_hi s [16..<64]" for s
  proof -
    have "[16..<64] = concat (map (\<lambda>j. [j, j + 1, j + 2, j + 3, j + 4, j + 5, j + 6, j + 7]) [16, 24, 32, 40, 48, 56 :: nat])"
      by code_simp
    then show ?thesis by (simp add: unrolled_hi)
  qed
  show ?thesis
    by (simp only: SHA256Transform_def SHA256Transform_rolled_def lo hi)
qed

subsection \<open>The compression function of the standard\<close>

text \<open>The 64-word schedule of a block of sixteen words, and 64 steps over it.\<close>

function fips_w :: "u32 list \<Rightarrow> nat \<Rightarrow> u32" where
  "fips_w M t =
     (if t < 16 then M ! t
      else sigma1_256 (fips_w M (t - 2)) + fips_w M (t - 7) + sigma0_256 (fips_w M (t - 15)) + fips_w M (t - 16))"
  by pat_completeness auto
termination by (relation "measure snd") auto

declare fips_w.simps [simp del]

definition block_words :: "u8 list \<Rightarrow> u32 list" where
  "block_words data = map (\<lambda>j. BE_8_TO_32 (drop (4 * j) data)) [0..<16]"

definition fips_compress :: "regs \<Rightarrow> u8 list \<Rightarrow> regs" where
  "fips_compress state data =
     add_regs state (foldl (\<lambda>r t. sha_step (K256 ! t) (fips_w (block_words data) t) r) state [0..<64])"

lemma fips_w_lo: "t < 16 \<Longrightarrow> fips_w (block_words data) t = BE_8_TO_32 (drop (4 * t) data)"
  by (simp add: fips_w.simps block_words_def)

lemma fips_w_hi:
  "16 \<le> t \<Longrightarrow> fips_w M t = sigma1_256 (fips_w M (t - 2)) + fips_w M (t - 7) + sigma0_256 (fips_w M (t - 15)) + fips_w M (t - 16)"
  by (simp add: fips_w.simps [of M t])

text \<open>The circular schedule holds the last sixteen words: slot \<open>i\<close> the newest index congruent to \<open>i\<close>.\<close>

definition window :: "u32 list \<Rightarrow> u32 list \<Rightarrow> nat \<Rightarrow> bool" where
  "window M W j \<longleftrightarrow> length W = 16 \<and> (\<forall>t. t < j \<and> j \<le> t + 16 \<longrightarrow> W ! (t mod 16) = fips_w M t)"

lemma window_lo:
  assumes "window (block_words data) W j" "j < 16"
  shows "window (block_words data) (load_word data j W) (Suc j)"
    and "load_word data j W ! j = fips_w (block_words data) j"
proof -
  have w: "length W = 16" "\<And>t. t < j \<Longrightarrow> W ! t = fips_w (block_words data) t"
  proof -
    show "length W = 16" using assms(1) by (simp add: window_def)
    fix t assume "t < j"
    then have "t mod 16 = t" "j \<le> t + 16" using assms(2) by auto
    then show "W ! t = fips_w (block_words data) t"
      using assms(1) \<open>t < j\<close> by (metis window_def)
  qed
  show *: "load_word data j W ! j = fips_w (block_words data) j"
    using w(1) assms(2) by (simp add: load_word_def fips_w_lo)
  have "load_word data j W ! t = fips_w (block_words data) t" if "t < Suc j" for t
    using that w * assms(2) by (cases "t = j") (auto simp: load_word_def)
  moreover have "t mod 16 = t" if "t < Suc j" for t using that assms(2) by simp
  ultimately show "window (block_words data) (load_word data j W) (Suc j)"
    using w(1) by (auto simp only: window_def load_word_def length_list_update)
qed

lemma mod_window: "t < j \<Longrightarrow> j < t + 16 \<Longrightarrow> t mod 16 \<noteq> j mod (16 :: nat)"
  using mod_eq_dvd_iff_nat [of t j 16] by (auto simp: less_diff_conv2 dest!: dvd_imp_le)

lemma window_hi:
  assumes "window M W j" "16 \<le> j"
  shows "window M (expand_word j W) (Suc j)"
    and "expand_word j W ! (j mod 16) = fips_w M j"
proof -
  have w: "length W = 16" "\<And>t. t < j \<Longrightarrow> j \<le> t + 16 \<Longrightarrow> W ! (t mod 16) = fips_w M t"
    using assms(1) by (auto simp: window_def)
  have i: "(j + 1) mod 16 = (j - 15) mod 16" "(j + 14) mod 16 = (j - 2) mod 16"
      "(j + 9) mod 16 = (j - 7) mod 16" "j mod 16 = (j - 16) mod 16"
  proof -
    obtain k where k: "j = k + 16" using assms(2) by (metis le_add_diff_inverse2)
    have m: "(k + 16 + a) mod 16 = (k + a) mod 16" for a
      using mod_add_self2 [of "k + a" 16] by (simp add: add_ac)
    have d: "k + 16 - 15 = k + 1" "k + 16 - 2 = k + 14" "k + 16 - 7 = k + 9" "k + 16 - 16 = k + 0"
      by simp_all
    show "(j + 1) mod 16 = (j - 15) mod 16" "(j + 14) mod 16 = (j - 2) mod 16"
      "(j + 9) mod 16 = (j - 7) mod 16" "j mod 16 = (j - 16) mod 16"
      unfolding k d using m [of 0] by (simp_all only: m add_0_right)
  qed
  have "W ! ((j + 1) mod 16) = fips_w M (j - 15)" "W ! ((j + 14) mod 16) = fips_w M (j - 2)"
      "W ! ((j + 9) mod 16) = fips_w M (j - 7)" "W ! (j mod 16) = fips_w M (j - 16)"
    unfolding i using assms(2) by (auto intro!: w(2))
  then have e: "expand_word j W = W[j mod 16 := fips_w M j]"
    using fips_w_hi [OF assms(2), of M] by (simp add: expand_word_def add_ac)
  show "expand_word j W ! (j mod 16) = fips_w M j"
    using w(1) by (simp add: e)
  show "window M (expand_word j W) (Suc j)"
    unfolding window_def
  proof (intro conjI allI impI)
    show "length (expand_word j W) = 16" using w(1) by (simp add: e)
    fix t assume t: "t < Suc j \<and> Suc j \<le> t + 16"
    show "expand_word j W ! (t mod 16) = fips_w M t"
    proof (cases "t = j")
      case False
      then have "t mod 16 \<noteq> j mod 16" using mod_window [of t j] t by auto
      then show ?thesis using t False w by (simp add: e)
    qed (use w(1) in \<open>simp add: e\<close>)
  qed
qed

lemma rolled_window:
  assumes "length W0 = 16"
  shows "j \<le> 64 \<Longrightarrow> \<exists>W. foldl rolled_hi (foldl (rolled_lo data) (state, W0) [0..<min j 16]) [16..<j]
      = (foldl (\<lambda>r t. sha_step (K256 ! t) (fips_w (block_words data) t) r) state [0..<j], W)
    \<and> window (block_words data) W j"
proof (induction j)
  case 0
  then show ?case using assms by (simp add: window_def)
next
  case (Suc j)
  then obtain W where W: "foldl rolled_hi (foldl (rolled_lo data) (state, W0) [0..<min j 16]) [16..<j]
      = (foldl (\<lambda>r t. sha_step (K256 ! t) (fips_w (block_words data) t) r) state [0..<j], W)"
      "window (block_words data) W j" by auto
  show ?case
  proof (cases "j < 16")
    case True
    then have "min (Suc j) 16 = Suc j" "min j 16 = j" by auto
    then show ?thesis
      using W True window_lo [OF W(2) True] by (simp add: rolled_pair)
  next
    case False
    then have "min (Suc j) 16 = 16" "min j 16 = 16" "16 \<le> j" by auto
    then show ?thesis
      using W window_hi [OF W(2)] by (simp add: rolled_pair)
  qed
qed

lemma transform_fips: "length W0 = 16 \<Longrightarrow> SHA256Transform W0 state data = fips_compress state data"
  using rolled_window [of W0 64 data state]
  by (auto simp: transform_unrolled SHA256Transform_rolled_def fips_compress_def Let_def)

subsection \<open>The streaming interface\<close>

text \<open>
  \<open>SHA2_CTX\<close>; of \<open>bitcount\<close> only element 0 is used. The transform is called with a zero
  schedule array, which \<open>transform_fips\<close> shows to make no difference.
\<close>

record sha2_ctx =
  st32 :: regs
  bitcount :: u64
  sbuffer :: "u8 list"

abbreviation sha_transform :: "regs \<Rightarrow> u8 list \<Rightarrow> regs" where
  "sha_transform \<equiv> SHA256Transform (replicate 16 0)"

definition SHA256Init :: sha2_ctx where
  "SHA256Init = \<lparr>st32 = sha256_initial_hash_value, bitcount = 0, sbuffer = replicate 64 0\<rparr>"

definition used_space :: "sha2_ctx \<Rightarrow> nat" where
  "used_space ctx = unat (drop_bit 3 (bitcount ctx)) mod 64"

text \<open>The loop over complete blocks and the copy of what is left.\<close>

function update_blocks :: "sha2_ctx \<Rightarrow> u8 list \<Rightarrow> sha2_ctx" where
  "update_blocks ctx data =
     (if length data \<ge> 64
      then update_blocks (ctx\<lparr>st32 := sha_transform (st32 ctx) (take 64 data),
                              bitcount := bitcount ctx + push_bit 3 64\<rparr>) (drop 64 data)
      else if data \<noteq> []
      then ctx\<lparr>sbuffer := memcpy_at (sbuffer ctx) 0 data, bitcount := bitcount ctx + push_bit 3 (of_nat (length data))\<rparr>
      else ctx)"
  by pat_completeness auto
termination by (relation "measure (\<lambda>(ctx, data). length data)") auto

declare update_blocks.simps [simp del]

definition SHA256Update :: "sha2_ctx \<Rightarrow> u8 list \<Rightarrow> sha2_ctx" where
  "SHA256Update ctx data =
     (if data = [] then ctx
      else let usedspace = used_space ctx in
        if usedspace > 0 then
          (let freespace = 64 - usedspace in
           if length data \<ge> freespace then
             (let buf = memcpy_at (sbuffer ctx) usedspace (take freespace data)
              in update_blocks
                   (ctx\<lparr>sbuffer := buf, bitcount := bitcount ctx + push_bit 3 (of_nat freespace),
                        st32 := sha_transform (st32 ctx) buf\<rparr>) (drop freespace data))
           else ctx\<lparr>sbuffer := memcpy_at (sbuffer ctx) usedspace data,
                    bitcount := bitcount ctx + push_bit 3 (of_nat (length data))\<rparr>)
        else update_blocks ctx data)"

definition SHA256Pad :: "sha2_ctx \<Rightarrow> sha2_ctx" where
  "SHA256Pad ctx =
     (let usedspace = used_space ctx;
          (st, buf) =
            (if usedspace > 0 then
               (let b1 = (sbuffer ctx)[usedspace := 0x80]; u = usedspace + 1 in
                if u \<le> 56 then (st32 ctx, memset_at b1 u 0 (56 - u))
                else let b2 = (if u < 64 then memset_at b1 u 0 (64 - u) else b1)
                     in (sha_transform (st32 ctx) b2, memset_at b2 0 0 56))
             else (st32 ctx, (memset_at (sbuffer ctx) 0 0 56)[0 := 0x80]));
          buf' = memcpy_at buf 56 (BE_64_TO_8 (bitcount ctx))
      in ctx\<lparr>st32 := sha_transform st buf', sbuffer := buf'\<rparr>)"

definition regs_bytes :: "regs \<Rightarrow> u8 list" where
  "regs_bytes r = (case r of (a, b, c, d, e, f, g, h) \<Rightarrow> concat (map BE_32_TO_8 [a, b, c, d, e, f, g, h]))"

definition SHA256Final :: "sha2_ctx \<Rightarrow> u8 list" where
  "SHA256Final ctx = regs_bytes (st32 (SHA256Pad ctx))"

subsection \<open>The standard's hash, and what a context represents\<close>

fun blocks_of :: "u8 list \<Rightarrow> u8 list list" where
  "blocks_of m = (if length m < 64 then [] else take 64 m # blocks_of (drop 64 m))"

declare blocks_of.simps [simp del]

definition compress_all :: "regs \<Rightarrow> u8 list \<Rightarrow> regs" where
  "compress_all s m = foldl fips_compress s (blocks_of m)"

definition sha256_pad :: "u8 list \<Rightarrow> u8 list" where
  "sha256_pad m = m @ [0x80] @ replicate ((119 - length m mod 64) mod 64) 0 @ BE_64_TO_8 (of_nat (8 * length m))"

definition sha256 :: "u8 list \<Rightarrow> u8 list" where
  "sha256 m = regs_bytes (compress_all sha256_initial_hash_value (sha256_pad m))"

definition ctx_repr :: "sha2_ctx \<Rightarrow> u8 list \<Rightarrow> bool" where
  "ctx_repr ctx m \<longleftrightarrow> (\<exists>a b. m = a @ b \<and> length a mod 64 = 0 \<and> length b < 64
     \<and> st32 ctx = compress_all sha256_initial_hash_value a
     \<and> length (sbuffer ctx) = 64 \<and> take (length b) (sbuffer ctx) = b
     \<and> bitcount ctx = of_nat (8 * length m))"

lemma blocks_of_block: "length d = 64 \<Longrightarrow> blocks_of (d @ m) = d # blocks_of m"
  by (simp add: blocks_of.simps [of "d @ m"])

lemma blocks_of_append: "length a mod 64 = 0 \<Longrightarrow> blocks_of (a @ b) = blocks_of a @ blocks_of b"
proof (induction a rule: blocks_of.induct)
  case (1 a)
  show ?case
  proof (cases "length a < 64")
    case True
    then have "a = []" using "1.prems" by simp
    then show ?thesis by (simp add: blocks_of.simps [of "[]"])
  next
    case False
    have "length (drop 64 a) mod 64 = 0"
      using "1.prems" False by (simp add: mod_if [of "length a"])
    then have ih: "blocks_of (drop 64 a @ b) = blocks_of (drop 64 a) @ blocks_of b"
      using 1 False by simp
    have "blocks_of (a @ b) = blocks_of (take 64 a @ (drop 64 a @ b))" by (simp flip: append_assoc)
    also have "\<dots> = take 64 a # blocks_of (drop 64 a @ b)" using False by (intro blocks_of_block) simp
    also have "\<dots> = blocks_of a @ blocks_of b" using False ih by (simp add: blocks_of.simps [of a])
    finally show ?thesis .
  qed
qed

lemma compress_all_append: "length a mod 64 = 0 \<Longrightarrow> compress_all s (a @ b) = compress_all (compress_all s a) b"
  by (simp add: compress_all_def blocks_of_append)

lemma compress_all_block: "length d = 64 \<Longrightarrow> compress_all s d = fips_compress s d"
  using blocks_of_block [of d "[]"] by (simp add: compress_all_def blocks_of.simps [of "[]"])

lemma used_space_length:
  assumes "bitcount ctx = of_nat (8 * n)" "n < 2 ^ 61"
  shows "used_space ctx = n mod 64"
proof -
  have "unat (of_nat (8 * n) :: u64) = 8 * n"
    using assms(2) by (simp add: unat_of_nat del: of_nat_mult)
  then show ?thesis by (simp add: used_space_def assms(1) drop_bit_eq_div unat_div)
qed

lemma bitcount_add: "of_nat (8 * n) + push_bit 3 (of_nat k) = (of_nat (8 * (n + k)) :: u64)"
  by (simp add: push_bit_eq_mult algebra_simps)

lemma take_memcpy: "k \<le> length buf \<Longrightarrow> length d + k \<le> length buf \<Longrightarrow> take (k + length d) (memcpy_at buf k d) = take k buf @ d"
  by (simp add: memcpy_at_def)

lemma ctx_repr_aligned:
  assumes "length a mod 64 = 0"
  shows "ctx_repr ctx a \<longleftrightarrow> st32 ctx = compress_all sha256_initial_hash_value a
     \<and> length (sbuffer ctx) = 64 \<and> bitcount ctx = of_nat (8 * length a)" (is "_ = ?R")
proof
  assume "ctx_repr ctx a"
  then obtain a' b where r: "a = a' @ b" "length a' mod 64 = 0" "length b < 64"
      "st32 ctx = compress_all sha256_initial_hash_value a'" "length (sbuffer ctx) = 64"
      "bitcount ctx = of_nat (8 * length a)"
    by (auto simp: ctx_repr_def)
  have "length b = length a mod 64" using r(1-3) by (simp add: mod_add_left_eq [symmetric])
  then have "b = []" using assms by simp
  then show ?R using r by simp
next
  assume ?R
  then show "ctx_repr ctx a"
    unfolding ctx_repr_def using assms by (intro exI [of _ a] exI [of _ "[]"]) simp
qed

lemma update_blocks_repr:
  "length a mod 64 = 0 \<Longrightarrow> ctx_repr ctx a \<Longrightarrow> ctx_repr (update_blocks ctx d) (a @ d)"
proof (induction ctx d arbitrary: a rule: update_blocks.induct)
  case (1 ctx d)
  have r: "st32 ctx = compress_all sha256_initial_hash_value a" "length (sbuffer ctx) = 64"
      "bitcount ctx = of_nat (8 * length a)"
    using "1.prems" ctx_repr_aligned by auto
  show ?case
  proof (cases "length d \<ge> 64")
    case True
    let ?ctx = "ctx\<lparr>st32 := sha_transform (st32 ctx) (take 64 d), bitcount := bitcount ctx + push_bit 3 64\<rparr>"
    have al: "length (a @ take 64 d) mod 64 = 0" using "1.prems"(1) True by (simp add: min_def)
    have "compress_all sha256_initial_hash_value (a @ take 64 d) = fips_compress (st32 ctx) (take 64 d)"
      using r(1) "1.prems"(1) True by (simp add: compress_all_append compress_all_block)
    then have "ctx_repr ?ctx (a @ take 64 d)"
      unfolding ctx_repr_aligned [OF al]
      using r True bitcount_add [of "length a" 64] by (simp add: transform_fips)
    then have "ctx_repr (update_blocks ?ctx (drop 64 d)) ((a @ take 64 d) @ drop 64 d)"
      using True "1.prems"(1) by (intro "1.IH") auto
    then show ?thesis using True by (subst update_blocks.simps) simp
  next
    case False
    have "ctx_repr (ctx\<lparr>sbuffer := memcpy_at (sbuffer ctx) 0 d, bitcount := bitcount ctx + push_bit 3 (of_nat (length d))\<rparr>) (a @ d)"
      unfolding ctx_repr_def
      using r "1.prems"(1) False bitcount_add [of "length a" "length d"] take_memcpy [of 0 "sbuffer ctx" d]
      by (intro exI [of _ a] exI [of _ d]) simp
    then show ?thesis using False "1.prems"(2) by (subst update_blocks.simps) simp
  qed
qed

lemma init_repr: "ctx_repr SHA256Init []"
  by (simp add: ctx_repr_def SHA256Init_def compress_all_def blocks_of.simps [of "[]"])

lemma update_repr:
  assumes "ctx_repr ctx m" "length m + length d < 2 ^ 61"
  shows "ctx_repr (SHA256Update ctx d) (m @ d)"
proof -
  obtain a b where r: "m = a @ b" "length a mod 64 = 0" "length b < 64"
      "st32 ctx = compress_all sha256_initial_hash_value a" "length (sbuffer ctx) = 64"
      "take (length b) (sbuffer ctx) = b" "bitcount ctx = of_nat (8 * length m)"
    using assms(1) by (auto simp: ctx_repr_def)
  have "length m mod 64 = length b" using r(1-3) by (simp add: mod_add_left_eq [symmetric])
  then have u: "used_space ctx = length b"
    using used_space_length [OF r(7)] assms(2) by simp
  consider (none) "d = []" | (aligned) "d \<noteq> []" "b = []"
    | (fill) "d \<noteq> []" "b \<noteq> []" "length d \<ge> 64 - length b" | (partial) "d \<noteq> []" "b \<noteq> []" "length d < 64 - length b"
    by linarith
  then show ?thesis
  proof cases
    case none
    then show ?thesis using assms(1) by (simp add: SHA256Update_def)
  next
    case aligned
    then have "ctx_repr (update_blocks ctx d) (m @ d)"
      using update_blocks_repr [of a ctx d] r assms(1) by simp
    then show ?thesis using aligned u by (simp add: SHA256Update_def)
  next
    case fill
    let ?k = "64 - length b"
    let ?buf = "memcpy_at (sbuffer ctx) (length b) (take ?k d)"
    let ?ctx = "ctx\<lparr>sbuffer := ?buf, bitcount := bitcount ctx + push_bit 3 (of_nat ?k),
        st32 := sha_transform (st32 ctx) ?buf\<rparr>"
    have lb: "length ?buf = 64" using r fill by simp
    have buf: "?buf = b @ take ?k d"
      using take_memcpy [of "length b" "sbuffer ctx" "take ?k d"] r fill lb by simp
    have al: "length (a @ b @ take ?k d) mod 64 = 0"
      using r(2,3) fill by (simp add: mod_add_left_eq [of "length a", symmetric])
    have "ctx_repr ?ctx (a @ b @ take ?k d)"
      unfolding ctx_repr_aligned [OF al]
    proof (intro conjI)
      show "st32 ?ctx = compress_all sha256_initial_hash_value (a @ b @ take ?k d)"
        using r(2,4) lb by (simp add: buf transform_fips compress_all_append compress_all_block)
      show "bitcount ?ctx = of_nat (8 * length (a @ b @ take ?k d))"
        using bitcount_add [of "length m" ?k] r fill by simp
    qed (use lb in simp)
    then have "ctx_repr (update_blocks ?ctx (drop ?k d)) ((a @ b @ take ?k d) @ drop ?k d)"
      using r fill by (intro update_blocks_repr) auto
    then show ?thesis using fill u r(1) by (simp add: SHA256Update_def Let_def)
  next
    case partial
    have "ctx_repr (ctx\<lparr>sbuffer := memcpy_at (sbuffer ctx) (length b) d,
        bitcount := bitcount ctx + push_bit 3 (of_nat (length d))\<rparr>) (m @ d)"
      unfolding ctx_repr_def
      using r partial bitcount_add [of "length m" "length d"] take_memcpy [of "length b" "sbuffer ctx" d]
      by (intro exI [of _ a] exI [of _ "b @ d"]) simp
    then show ?thesis using partial u by (simp add: SHA256Update_def Let_def)
  qed
qed

subsection \<open>Padding\<close>

lemma length_be64 [simp]: "length (BE_64_TO_8 w) = 8"
  by (simp add: BE_64_TO_8_def)

lemma compress_pad_one:
  assumes "length a mod 64 = 0" "length b < 56"
  shows "compress_all s (sha256_pad (a @ b))
    = fips_compress (compress_all s a)
        (b @ [0x80] @ replicate (55 - length b) 0 @ BE_64_TO_8 (of_nat (8 * length (a @ b))))"
proof -
  have m: "length (a @ b) mod 64 = length b" using assms by (simp add: mod_add_left_eq [symmetric])
  have z: "(119 - length b) mod 64 = 55 - length b"
  proof -
    have e: "119 - length b = 64 + (55 - length b)" using assms(2) by simp
    show ?thesis unfolding e mod_add_self1 using assms(2) by simp
  qed
  show ?thesis
    using assms by (simp only: sha256_pad_def m z append_assoc)
      (simp add: compress_all_append compress_all_block)
qed

lemma compress_all_two:
  "length a mod 64 = 0 \<Longrightarrow> length x = 64 \<Longrightarrow> length y = 64 \<Longrightarrow>
   compress_all s (a @ x @ y) = fips_compress (fips_compress (compress_all s a) x) y"
  by (simp add: compress_all_append compress_all_block)

lemma compress_pad_two:
  assumes "length a mod 64 = 0" "56 \<le> length b" "length b < 64"
  shows "compress_all s (sha256_pad (a @ b))
    = fips_compress (fips_compress (compress_all s a) (b @ [0x80] @ replicate (63 - length b) 0))
        (replicate 56 0 @ BE_64_TO_8 (of_nat (8 * length (a @ b))))"
proof -
  have m: "length (a @ b) mod 64 = length b" using assms by (simp add: mod_add_left_eq [symmetric])
  have z: "(119 - length b) mod 64 = (63 - length b) + 56"
    using assms(2,3) by simp
  let ?b1 = "b @ [0x80] @ replicate (63 - length b) 0"
  have "sha256_pad (a @ b) = a @ ?b1 @ (replicate 56 0 @ BE_64_TO_8 (of_nat (8 * length (a @ b))))"
    by (simp only: sha256_pad_def m z replicate_add append_assoc)
  then show ?thesis
    using compress_all_two [of a ?b1] assms by simp
qed

lemma memcpy_split: "length xs = k \<Longrightarrow> memcpy_at (xs @ ys) k d = xs @ d @ drop (length d) ys"
  by (simp add: memcpy_at_def)

lemma memset_tail:
  "u \<le> length buf \<Longrightarrow> u + k \<le> length buf \<Longrightarrow> memset_at buf u v k = take u buf @ replicate k v @ drop (u + k) buf"
  by (simp add: memset_at_def memcpy_at_def)

lemma take_set_byte: "u < length buf \<Longrightarrow> take (Suc u) (buf[u := v]) = take u buf @ [v]"
  by (simp add: take_Suc_conv_app_nth take_update_cancel)

lemma final_repr:
  assumes "ctx_repr ctx m" "length m < 2 ^ 61"
  shows "SHA256Final ctx = sha256 m"
proof -
  obtain a b where r: "m = a @ b" "length a mod 64 = 0" "length b < 64"
      "st32 ctx = compress_all sha256_initial_hash_value a" "length (sbuffer ctx) = 64"
      "take (length b) (sbuffer ctx) = b" "bitcount ctx = of_nat (8 * length m)"
    using assms(1) by (auto simp: ctx_repr_def)
  have "length m mod 64 = length b" using r(1-3) by (simp add: mod_add_left_eq [symmetric])
  then have u: "used_space ctx = length b" using used_space_length [OF r(7) assms(2)] by simp
  let ?b1 = "(sbuffer ctx)[length b := 0x80]"
  let ?len = "BE_64_TO_8 (of_nat (8 * length (a @ b)))"
  have b1: "take (Suc (length b)) ?b1 = b @ [0x80]" "length ?b1 = 64"
    using r(3,5,6) by (simp_all add: take_set_byte)
  consider (zero) "b = []" | (short) "b \<noteq> []" "length b < 56" | (long) "56 \<le> length b"
    by linarith
  then have "st32 (SHA256Pad ctx) = compress_all sha256_initial_hash_value (sha256_pad m)"
  proof cases
    case zero
    have "memcpy_at ((memset_at (sbuffer ctx) 0 0 56)[0 := 0x80]) 56 ?len = [0x80] @ replicate 55 0 @ ?len"
      using r(5) by (simp add: memset_tail memcpy_at_def numeral_eq_Suc)
    then show ?thesis
      using zero u compress_pad_one [OF r(2), of b] r(4,7)
      by (simp add: SHA256Pad_def Let_def transform_fips r(1))
  next
    case short
    have "memset_at ?b1 (Suc (length b)) 0 (55 - length b) = (b @ [0x80]) @ replicate (55 - length b) 0 @ drop 56 ?b1"
      using memset_tail [of "Suc (length b)" ?b1 "55 - length b" 0] b1 short by simp
    then have "memcpy_at (memset_at ?b1 (Suc (length b)) 0 (55 - length b)) 56 ?len
        = b @ [0x80] @ replicate (55 - length b) 0 @ ?len"
      using short b1(2) memcpy_split [of "(b @ [0x80]) @ replicate (55 - length b) 0" 56 "drop 56 ?b1" ?len] by simp
    then show ?thesis
      using short u compress_pad_one [OF r(2), of b] r(4,7)
      by (simp add: SHA256Pad_def Let_def transform_fips r(1))
  next
    case long
    let ?b2 = "if length b < 63 then memset_at ?b1 (Suc (length b)) 0 (63 - length b) else ?b1"
    have b2: "?b2 = b @ [0x80] @ replicate (63 - length b) 0"
    proof (cases "length b < 63")
      case True
      then show ?thesis
        using memset_tail [of "Suc (length b)" ?b1 "63 - length b" 0] b1 by simp
    next
      case False
      then have "length b = 63" using r(3) by simp
      then show ?thesis using b1 by simp
    qed
    have "memcpy_at (memset_at (b @ [0x80] @ replicate (63 - length b) 0) 0 0 56) 56 ?len = replicate 56 0 @ ?len"
      using long r(3) by (simp add: memset_tail memcpy_at_def)
    moreover have "b \<noteq> []" using long by auto
    ultimately show ?thesis
      using long u compress_pad_two [OF r(2) long r(3)] b2 r(4,7)
      by (cases "length b < 63") (simp_all add: SHA256Pad_def Let_def transform_fips r(1))
  qed
  then show ?thesis by (simp add: SHA256Final_def sha256_def)
qed

subsection \<open>The contract of a streaming hash\<close>

text \<open>
  What the clients (digest tables, region digests) rely on: the digest depends on the
  concatenation of the pieces only, up to a size.
\<close>

locale streaming_hash =
  fixes init :: 'c and upd :: "'c \<Rightarrow> u8 list \<Rightarrow> 'c" and fin :: "'c \<Rightarrow> u8 list"
    and hash :: "u8 list \<Rightarrow> u8 list" and repr :: "'c \<Rightarrow> u8 list \<Rightarrow> bool" and limit :: nat
  assumes repr_init: "repr init []"
    and repr_upd: "repr c m \<Longrightarrow> length m + length d < limit \<Longrightarrow> repr (upd c d) (m @ d)"
    and repr_fin: "repr c m \<Longrightarrow> length m < limit \<Longrightarrow> fin c = hash m"
begin

lemma repr_pieces:
  "repr c m \<Longrightarrow> length m + length (concat ds) < limit \<Longrightarrow> repr (foldl upd c ds) (m @ concat ds)"
proof (induction ds arbitrary: c m)
  case (Cons d ds)
  have "repr (upd c d) (m @ d)" using Cons.prems by (intro repr_upd) auto
  from Cons.IH [OF this] Cons.prems(2) show ?case by (simp add: add.assoc)
qed simp

lemma digest_pieces: "length (concat ds) < limit \<Longrightarrow> fin (foldl upd init ds) = hash (concat ds)"
  using repr_pieces [OF repr_init, of ds] by (auto intro: repr_fin)

end

interpretation sha: streaming_hash SHA256Init SHA256Update SHA256Final sha256 ctx_repr "2 ^ 61"
  by unfold_locales (use init_repr update_repr final_repr in auto)

text \<open>
  C28: The streaming interface computes SHA-256: for inputs below 2^61 bytes, initialising,
  updating with any sequence of pieces and finalising gives the digest the standard defines for
  their concatenation, with its padding, its 64-word message schedule and its 64 steps.
\<close>

theorem sha256_streaming:
  assumes "length (concat ds) < 2 ^ 61"
  shows "SHA256Final (foldl SHA256Update SHA256Init ds) = sha256 (concat ds)"
  using assms by (rule sha.digest_pieces)

lemma sha256_streaming_witness:
  "SHA256Final (foldl SHA256Update SHA256Init [[1, 2], [], replicate 100 7]) = sha256 ([1, 2] @ replicate 100 7)"
  using sha256_streaming [of "[[1, 2], [], replicate 100 7]"] by simp

text \<open>
  C29: The unrolled block transform, in which the eight register names rotate through the macro
  calls, computes the same function as the rolled loop, and both are the compression function of
  the standard, whatever the schedule array held before.
\<close>

theorem sha256_transform_compress:
  assumes "length W0 = 16"
  shows "SHA256Transform W0 state data = fips_compress state data
    \<and> SHA256Transform_rolled W0 state data = fips_compress state data"
  using transform_fips [OF assms] transform_unrolled by simp

lemma sha256_transform_compress_witness:
  "SHA256Transform (replicate 16 7) sha256_initial_hash_value (replicate 64 1)
     = SHA256Transform_rolled (replicate 16 0) sha256_initial_hash_value (replicate 64 1)"
  using sha256_transform_compress [of "replicate 16 7"] sha256_transform_compress [of "replicate 16 0"]
  by simp

end
