(* ===== verification/Vip.thy ===== *)
theory Vip
  imports Device Host Sha2
begin

text \<open>
  \<open>src/vip.c\<close>: the digest tables of validated image programming. The generator hashes the packets
  of a simulated session and lays their digests out in a signed table and a chain of further tables,
  each carrying the hash of the next; the transfer side sends the tables to a device, each just
  before the first packet it covers. An open file is its content, file system calls act on the
  \<open>host\<close> record.
\<close>

definition MAX_DIGESTS_PER_SIGNED_TABLE :: nat where "MAX_DIGESTS_PER_SIGNED_TABLE = 53"
definition MAX_DIGESTS_PER_CHAINED_TABLE :: nat where "MAX_DIGESTS_PER_CHAINED_TABLE = 255"
definition MAX_CHAINED_FILES :: nat where "MAX_CHAINED_FILES = 32"
definition DIGEST_BUF :: nat where "DIGEST_BUF = 16 * 32"

abbreviation DIGEST_FULL_TABLE_FILE :: string where "DIGEST_FULL_TABLE_FILE \<equiv> ''DIGEST_TABLE.bin''"
abbreviation DIGEST_TABLE_TO_SIGN_FILE :: string where "DIGEST_TABLE_TO_SIGN_FILE \<equiv> ''DigestsToSign.bin''"

definition chained_table_name :: "nat \<Rightarrow> string" where
  "chained_table_name i = ''ChainedTableOfDigests'' @ show_dec i @ ''.bin''"

subsection \<open>The generator\<close>

text \<open>\<open>struct vip_table_generator\<close>; \<open>vg_open\<close> is whether \<open>digest_table_fd\<close> is open.\<close>

record vip_table_generator =
  vg_ctx :: sha2_ctx
  vg_open :: bool
  vg_num :: nat
  vg_path :: string

text \<open>
  \<open>vip_gen_init\<close>: only in simulation and only into an existing directory (\<open>isdir\<close>);
  \<open>SHA2_CTX\<close> is not initialised before \<open>vip_gen_chunk_init\<close>, so its content is a parameter.
\<close>

definition vip_gen_init ::
  "dev_kind \<Rightarrow> (string \<Rightarrow> bool) \<Rightarrow> sha2_ctx \<Rightarrow> string \<Rightarrow> host \<Rightarrow> (vip_table_generator option) \<times> host" where
  "vip_gen_init kind isdir ctx path h =
     (if kind \<noteq> QDL_DEVICE_SIM then (None, h)
      else if \<not> isdir path then (None, h)
      else case h_create h (path_join path DIGEST_FULL_TABLE_FILE) of
        None \<Rightarrow> (None, h)
      | Some h' \<Rightarrow> (Some \<lparr>vg_ctx = ctx, vg_open = True, vg_num = 0, vg_path = path\<rparr>, h'))"

definition vip_gen_chunk_init :: "vip_table_generator option \<Rightarrow> vip_table_generator option" where
  "vip_gen_chunk_init gen = map_option (\<lambda>g. g\<lparr>vg_ctx := SHA256Init\<rparr>) gen"

definition vip_gen_chunk_update :: "vip_table_generator option \<Rightarrow> u8 list \<Rightarrow> vip_table_generator option" where
  "vip_gen_chunk_update gen buf = map_option (\<lambda>g. g\<lparr>vg_ctx := SHA256Update (vg_ctx g) buf\<rparr>) gen"

definition sha_zero :: sha2_ctx where
  "sha_zero = \<lparr>st32 = (0, 0, 0, 0, 0, 0, 0, 0), bitcount = 0, sbuffer = replicate 64 0\<rparr>"

definition vip_gen_chunk_store ::
  "vip_table_generator option \<Rightarrow> host \<Rightarrow> vip_table_generator option \<times> host" where
  "vip_gen_chunk_store gen h =
     (case gen of
        None \<Rightarrow> (None, h)
      | Some g \<Rightarrow>
          if \<not> vg_open g then (Some g, h)
          else
            let digest = SHA256Final (vg_ctx g); g' = g\<lparr>vg_ctx := sha_zero\<rparr> in
            (case f_write h (path_join (vg_path g) DIGEST_FULL_TABLE_FILE) digest of
               (True, h') \<Rightarrow> (Some (g'\<lparr>vg_num := vg_num g + 1\<rparr>), h')
             | (False, h') \<Rightarrow> (Some (g'\<lparr>vg_open := False\<rparr>), h')))"

text \<open>\<open>fopen(name, "ab")\<close> leaves an existing file as it is.\<close>

definition h_open_append :: "host \<Rightarrow> string \<Rightarrow> host option" where
  "h_open_append h p =
     (if h_open h p then Some (case h_files h p of None \<Rightarrow> h\<lparr>h_files := (h_files h)(p \<mapsto> [])\<rparr> | Some c \<Rightarrow> h)
      else None)"

definition write_output_file :: "host \<Rightarrow> string \<Rightarrow> bool \<Rightarrow> u8 list \<Rightarrow> int \<times> host" where
  "write_output_file h filename app data =
     (case (if app then h_open_append h filename else h_create h filename) of
        None \<Rightarrow> (-1, h)
      | Some h1 \<Rightarrow> (case f_write h1 filename data of (ok, h2) \<Rightarrow> (if ok then 0 else -1, h2)))"

text \<open>
  The copy loop of \<open>write_digests_to_table\<close>: \<open>pos\<close> is the read position in the source, \<open>todo\<close> the
  number of bytes left; a read that comes up short is an error.
\<close>

function copy_digests :: "u8 list \<Rightarrow> string \<Rightarrow> nat \<Rightarrow> nat \<Rightarrow> sha2_ctx option \<Rightarrow> host \<Rightarrow> int \<times> sha2_ctx option \<times> host" where
  "copy_digests src dest pos todo ctx h =
     (if todo = 0 then (0, ctx, h)
      else
        let to_read = (if todo > DIGEST_BUF then DIGEST_BUF else todo);
            buf = sub_buf pos to_read src
        in if length buf \<noteq> to_read then (-1, ctx, h)
           else case f_write h dest buf of
             (False, h1) \<Rightarrow> (-1, ctx, h1)
           | (True, h1) \<Rightarrow>
               copy_digests src dest (pos + to_read) (todo - to_read)
                 (map_option (\<lambda>c. SHA256Update c buf) ctx) h1)"
  by pat_completeness auto
termination
  by (relation "measure (\<lambda>(src, dest, pos, todo, ctx, h). todo)") (auto simp: DIGEST_BUF_def)

declare copy_digests.simps [simp del]

text \<open>
  \<open>write_digests_to_table\<close>; \<open>with_ctx\<close> is whether the caller passed a context, and the context
  comes back as it was when the function returned.
\<close>

definition write_digests_to_table ::
  "host \<Rightarrow> string \<Rightarrow> string \<Rightarrow> nat \<Rightarrow> nat \<Rightarrow> sha2_ctx option \<Rightarrow> int \<times> sha2_ctx option \<times> host" where
  "write_digests_to_table h src dest start count out_ctx =
     (case h_files h src of
        None \<Rightarrow> (-1, out_ctx, h)
      | Some _ \<Rightarrow>
          (case h_create h dest of
             None \<Rightarrow> (-1, out_ctx, h)
           | Some h1 \<Rightarrow>
               (case h_files h1 src of
                  None \<Rightarrow> (-1, map_option (\<lambda>_. SHA256Init) out_ctx, h1)
                | Some content \<Rightarrow>
                    copy_digests content dest (32 * start) (count * 32) (map_option (\<lambda>_. SHA256Init) out_ctx) h1)))"

text \<open>Step 2: the chained tables from index \<open>idx\<close> on, with the contexts kept so far.\<close>

function chain_step2 ::
  "host \<Rightarrow> string \<Rightarrow> nat \<Rightarrow> nat \<Rightarrow> nat \<Rightarrow> sha2_ctx list \<Rightarrow> int \<times> sha2_ctx list \<times> host" where
  "chain_step2 h path total_digests remaining idx ctxs =
     (if remaining = 0 then (0, ctxs, h)
      else
        let table_digests = (if remaining > MAX_DIGESTS_PER_CHAINED_TABLE
                             then MAX_DIGESTS_PER_CHAINED_TABLE else remaining);
            dest = path_join path (chained_table_name idx)
        in case write_digests_to_table h (path_join path DIGEST_FULL_TABLE_FILE) dest
                  (total_digests - remaining) table_digests (Some sha_zero) of
             (ret, ctx, h1) \<Rightarrow>
               if ret \<noteq> 0 then (ret, ctxs, h1)
               else if remaining - table_digests = 0 then
                 (case write_output_file h1 dest True [0] of
                    (ret2, h2) \<Rightarrow>
                      if ret2 < 0 then (ret2, ctxs, h2)
                      else (0, ctxs @ [SHA256Update (the ctx) [0]], h2))
               else chain_step2 h1 path total_digests (remaining - table_digests) (idx + 1) (ctxs @ [the ctx]))"
  by pat_completeness auto
termination
  by (relation "measure (\<lambda>(h, path, n, remaining, i, ctxs). remaining)")
    (auto simp: MAX_DIGESTS_PER_CHAINED_TABLE_def)

declare chain_step2.simps [simp del]

text \<open>Step 3 for table \<open>i\<close> and then the ones before it; \<open>next_hash\<close> is the hash of table \<open>i + 1\<close>.\<close>

fun chain_step3 :: "host \<Rightarrow> string \<Rightarrow> sha2_ctx list \<Rightarrow> nat \<Rightarrow> u8 list option \<Rightarrow> int \<times> host" where
  "chain_step3 h path ctxs 0 next_hash = (0, h)"
| "chain_step3 h path ctxs (Suc i) next_hash =
     (let ctx = (case next_hash of None \<Rightarrow> ctxs ! i | Some d \<Rightarrow> SHA256Update (ctxs ! i) d);
          hash = SHA256Final ctx;
          dest = path_join path (if i = 0 then DIGEST_TABLE_TO_SIGN_FILE else chained_table_name (i - 1))
      in case write_output_file h dest True hash of
           (ret, h1) \<Rightarrow> if ret < 0 then (ret, h1) else chain_step3 h1 path ctxs i (Some hash))"

definition create_chained_tables :: "vip_table_generator \<Rightarrow> host \<Rightarrow> int \<times> host" where
  "create_chained_tables g h =
     (let total_digests = vg_num g;
          path = vg_path g;
          tosign = (if total_digests < MAX_DIGESTS_PER_SIGNED_TABLE then total_digests
                    else MAX_DIGESTS_PER_SIGNED_TABLE)
      in case write_digests_to_table h (path_join path DIGEST_FULL_TABLE_FILE)
                (path_join path DIGEST_TABLE_TO_SIGN_FILE) 0 tosign None of
           (ret, _, h1) \<Rightarrow>
             if ret \<noteq> 0 then (ret, h1)
             else if total_digests > MAX_DIGESTS_PER_SIGNED_TABLE then
               (case chain_step2 h1 path total_digests (total_digests - MAX_DIGESTS_PER_SIGNED_TABLE) 0 [] of
                  (ret2, ctxs, h2) \<Rightarrow>
                    if ret2 \<noteq> 0 then (ret2, h2)
                    else chain_step3 h2 path ctxs (length ctxs) None)
             else (0, h1))"

text \<open>\<open>vip_gen_finalize\<close>: the outcome is only logged.\<close>

definition vip_gen_finalize :: "vip_table_generator option \<Rightarrow> host \<Rightarrow> vip_table_generator option \<times> host" where
  "vip_gen_finalize gen h =
     (case gen of None \<Rightarrow> (None, h) | Some g \<Rightarrow> (None, snd (create_chained_tables g h)))"

subsection \<open>The transfer\<close>

text \<open>
  \<open>vip_transfer_init\<close>; opening a table gives its content or an error number. \<open>open_chained\<close> is the loop
  over the chained files, which ends at the first one that does not exist. A failed
  initialisation closes what it opened and leaves the state as it was; the stale descriptors it
  leaves in the record are not represented.
\<close>

fun open_chained :: "(string \<Rightarrow> int + u8 list) \<Rightarrow> string \<Rightarrow> nat \<Rightarrow> nat \<Rightarrow> vip_fd list \<Rightarrow> vip_fd list option" where
  "open_chained opn path i 0 fds = Some fds"
| "open_chained opn path i (Suc n) fds =
     (case opn (path_join path (chained_table_name i)) of
        Inl e \<Rightarrow> if e = ENOENT then Some fds else None
      | Inr content \<Rightarrow> open_chained opn path (i + 1) n (fds @ [(0, content)]))"

definition vip_transfer_init :: "(string \<Rightarrow> int + u8 list) \<Rightarrow> string \<Rightarrow> 'd qdl_device \<Rightarrow> int \<times> 'd qdl_device" where
  "vip_transfer_init opn path q =
     (case opn (path_join path ''DigestsToSign.bin.mbn'') of
        Inl e \<Rightarrow> (-1, q)
      | Inr tbl \<Rightarrow>
          (case open_chained opn path 0 MAX_CHAINED_FILES [] of
             None \<Rightarrow> (-1, q)
           | Some fds \<Rightarrow>
               (0, q\<lparr>vip_data := (vip_data q)\<lparr>signed_table := (0, tbl), chained_tables := fds,
                      vip_st := VIP_INIT, chained_cur := 0\<rparr>\<rparr>)))"

definition upd_vip :: "(vip_transfer_data \<Rightarrow> vip_transfer_data) \<Rightarrow> 'd qdl_device \<Rightarrow> 'd qdl_device" where
  "upd_vip f q = q\<lparr>vip_data := f (vip_data q)\<rparr>"

text \<open>
  \<open>vip_transfer_send_raw\<close> on the file \<open>fd\<close>, which is \<open>signed_table_fd\<close> or an entry of
  \<open>chained_fds\<close>: the read starts at the file's position, so a table can be read once.
\<close>

definition vip_file :: "vip_transfer_data \<Rightarrow> nat option \<Rightarrow> vip_fd" where
  "vip_file v fd = (case fd of None \<Rightarrow> signed_table v | Some i \<Rightarrow> chained_tables v ! i)"

definition set_vip_file :: "nat option \<Rightarrow> vip_fd \<Rightarrow> vip_transfer_data \<Rightarrow> vip_transfer_data" where
  "set_vip_file fd x v =
     (case fd of None \<Rightarrow> v\<lparr>signed_table := x\<rparr> | Some i \<Rightarrow> v\<lparr>chained_tables := (chained_tables v)[i := x]\<rparr>)"

definition vip_transfer_send_raw :: "'d transport \<Rightarrow> 'd qdl_device \<Rightarrow> nat option \<Rightarrow> int \<times> 'd qdl_device" where
  "vip_transfer_send_raw T q fd =
     (case vip_file (vip_data q) fd of
        (pos, content) \<Rightarrow>
          let buf = drop pos content;
              q1 = upd_vip (set_vip_file fd (pos + length buf, content)) q
          in if length buf \<noteq> length content then (-1, q1)
             else case qdl_write T (upd_vip (\<lambda>v. v\<lparr>sending_table := True\<rparr>) q1) buf 1000 of
               (n, q2) \<Rightarrow> (if n < 0 then -1 else 0, upd_vip (\<lambda>v. v\<lparr>sending_table := False\<rparr>) q2))"

definition start_table :: "nat \<Rightarrow> vip_transfer_data \<Rightarrow> vip_transfer_data" where
  "start_table left v = v\<lparr>vip_st := VIP_SEND_DATA, frames_sent := 0, frames_left := left, fh_parse_status := True\<rparr>"

definition count_frame :: "vip_transfer_data \<Rightarrow> vip_transfer_data" where
  "count_frame v =
     (let n = frames_sent v + 1
      in v\<lparr>frames_sent := n, vip_st := (if n \<ge> frames_left v then VIP_SEND_NEXT_TABLE else vip_st v)\<rparr>)"

definition vip_transfer_handle_tables :: "'d transport \<Rightarrow> 'd qdl_device \<Rightarrow> int \<times> 'd qdl_device" where
  "vip_transfer_handle_tables T q =
     (if vip_st (vip_data q) = VIP_DISABLED then (0, q)
      else
        case (if vip_st (vip_data q) = VIP_INIT then
                (case vip_transfer_send_raw T q None of
                   (ret, q1) \<Rightarrow>
                     if ret \<noteq> 0 then (ret, q1)
                     else (0, upd_vip (start_table MAX_DIGESTS_PER_SIGNED_TABLE) q1))
              else (0, q)) of
          (ret, q1) \<Rightarrow>
            if ret \<noteq> 0 then (ret, q1)
            else
              case (if vip_st (vip_data q1) = VIP_SEND_NEXT_TABLE then
                      (if chained_cur (vip_data q1) \<ge> chained_num (vip_data q1) then (-1, q1)
                       else case vip_transfer_send_raw T q1 (Some (chained_cur (vip_data q1))) of
                         (ret2, q2) \<Rightarrow>
                           if ret2 \<noteq> 0 then (ret2, q2)
                           else (0, upd_vip (\<lambda>v. start_table MAX_DIGESTS_PER_CHAINED_TABLE v\<lparr>chained_cur := chained_cur v + 1\<rparr>) q2))
                    else (0, q1)) of
                (ret2, q2) \<Rightarrow> if ret2 \<noteq> 0 then (ret2, q2) else (0, upd_vip count_frame q2))"

definition vip_transfer_status_check_needed :: "'d qdl_device \<Rightarrow> bool" where
  "vip_transfer_status_check_needed q = fh_parse_status (vip_data q)"

definition vip_transfer_clear_status :: "'d qdl_device \<Rightarrow> 'd qdl_device" where
  "vip_transfer_clear_status q = upd_vip (\<lambda>v. v\<lparr>fh_parse_status := False\<rparr>) q"

end
