(* ===== verification/VipGen.thy ===== *)
theory VipGen
  imports Vip
begin

text \<open>
  What the digest-table generator writes: the digests in order, 53 in the table to sign and up to
  255 in each chained table, every table but the last followed by the SHA-256 of the complete next
  table, the last by a zero byte.
\<close>

subsection \<open>The tables, specified\<close>

function payloads :: "u8 list list \<Rightarrow> u8 list list" where
  "payloads ds =
     (if ds = [] then []
      else if length ds \<le> 255 then [concat ds @ [0]]
      else concat (take 255 ds) # payloads (drop 255 ds))"
  by pat_completeness auto
termination by (relation "measure length") auto

declare payloads.simps [simp del]

fun finals :: "u8 list list \<Rightarrow> u8 list list" where
  "finals [] = []"
| "finals (p # ps) = (case finals ps of [] \<Rightarrow> p | n # _ \<Rightarrow> p @ sha256 n) # finals ps"

definition chain_tables :: "u8 list list \<Rightarrow> u8 list list" where
  "chain_tables ds = finals (payloads ds)"

definition signed_content :: "u8 list list \<Rightarrow> u8 list" where
  "signed_content ds =
     concat (take 53 ds) @ (case chain_tables (drop 53 ds) of [] \<Rightarrow> [] | n # _ \<Rightarrow> sha256 n)"

lemma length_sha256 [simp]: "length (sha256 m) = 32"
  by (simp add: sha256_def regs_bytes_def BE_32_TO_8_def split: prod.split)

lemma length_finals [simp]: "length (finals ps) = length ps"
  by (induction ps) auto

lemma finals_nth:
  "i < length ps \<Longrightarrow> finals ps ! i = (if Suc i < length ps then ps ! i @ sha256 (finals ps ! Suc i) else ps ! i)"
proof (induction ps arbitrary: i)
  case (Cons p ps)
  show ?case
  proof (cases i)
    case 0
    then show ?thesis using length_finals [of ps] by (cases "finals ps") auto
  next
    case (Suc j)
    then show ?thesis using Cons by simp
  qed
qed simp

subsection \<open>A host where everything succeeds\<close>

definition host_ok :: "host \<Rightarrow> bool" where
  "host_ok h \<longleftrightarrow> (\<forall>p. h_open h p) \<and> (\<forall>p n. h_fwrite h p n)"

definition fset :: "host \<Rightarrow> string \<Rightarrow> u8 list \<Rightarrow> host" where
  "fset h p c = h\<lparr>h_files := (h_files h)(p \<mapsto> c)\<rparr>"

lemma fset_simps [simp]:
  "host_ok (fset h p c) = host_ok h"
  "h_files (fset h p c) p' = (if p' = p then Some c else h_files h p')"
  "fset (fset h p c) p c' = fset h p c'"
  by (auto simp: host_ok_def fset_def)

lemma f_write_ok: "host_ok h \<Longrightarrow> h_files h p = Some c \<Longrightarrow> f_write h p bs = (True, fset h p (c @ bs))"
  by (simp add: f_write_def host_ok_def h_append_def fset_def)

lemma h_create_ok: "host_ok h \<Longrightarrow> h_create h p = Some (fset h p [])"
  by (simp add: h_create_def host_ok_def fset_def)

lemma append_ok: "host_ok h \<Longrightarrow> h_files h p = Some c \<Longrightarrow> write_output_file h p True bs = (0, fset h p (c @ bs))"
  using f_write_ok by (simp add: write_output_file_def h_open_append_def host_ok_def)

text \<open>Copying: the destination grows by the bytes, and the context has hashed them.\<close>

lemma copy_digests_ok:
  "host_ok h \<Longrightarrow> pos + todo \<le> length src \<Longrightarrow> h_files h dest = Some c \<Longrightarrow>
   \<exists>ctx'. copy_digests src dest pos todo ctx h = (0, ctx', fset h dest (c @ sub_buf pos todo src))
     \<and> (\<forall>s m. ctx = Some s \<and> ctx_repr s m \<and> length m + todo < 2 ^ 61
          \<longrightarrow> (\<exists>s'. ctx' = Some s' \<and> ctx_repr s' (m @ sub_buf pos todo src)))"
proof (induction src dest pos todo ctx h arbitrary: c rule: copy_digests.induct)
  case (1 src dest pos todo ctx h)
  show ?case
  proof (cases "todo = 0")
    case True
    have "fset h dest (c @ []) = h" using "1.prems"(3) by (simp add: fset_def fun_upd_idem)
    then show ?thesis using True by (subst copy_digests.simps) simp
  next
    case False
    define k where "k = (if todo > DIGEST_BUF then DIGEST_BUF else todo)"
    have k: "k \<le> todo" by (simp add: k_def)
    let ?b = "sub_buf pos k src"
    let ?h1 = "fset h dest (c @ ?b)"
    have lb: "length ?b = k" using "1.prems"(2) k by simp
    have w: "f_write h dest ?b = (True, ?h1)" using "1.prems" by (intro f_write_ok) auto
    have app: "sub_buf pos k src @ sub_buf (pos + k) (todo - k) src = sub_buf pos todo src"
      using sub_buf_append [of pos k src "todo - k"] k by simp
    obtain ctx' where ih: "copy_digests src dest (pos + k) (todo - k) (map_option (\<lambda>c. SHA256Update c ?b) ctx) ?h1
        = (0, ctx', fset ?h1 dest ((c @ ?b) @ sub_buf (pos + k) (todo - k) src))"
      "\<forall>s m. map_option (\<lambda>c. SHA256Update c ?b) ctx = Some s \<and> ctx_repr s m \<and> length m + (todo - k) < 2 ^ 61
          \<longrightarrow> (\<exists>s'. ctx' = Some s' \<and> ctx_repr s' (m @ sub_buf (pos + k) (todo - k) src))"
      using "1.IH" [OF False k_def refl _ w [symmetric] refl, of "c @ ?b"] lb "1.prems"(1,2) k by auto
    have "copy_digests src dest pos todo ctx h = (0, ctx', fset h dest (c @ sub_buf pos todo src))"
      using False lb w ih(1) by (subst copy_digests.simps) (simp add: k_def [symmetric] app)
    moreover have "\<exists>s'. ctx' = Some s' \<and> ctx_repr s' (m @ sub_buf pos todo src)"
      if "ctx = Some s" "ctx_repr s m" "length m + todo < 2 ^ 61" for s m
    proof -
      have "ctx_repr (SHA256Update s ?b) (m @ ?b)" using that(2,3) lb k by (intro update_repr) auto
      then have pre: "map_option (\<lambda>c. SHA256Update c ?b) ctx = Some (SHA256Update s ?b)
          \<and> ctx_repr (SHA256Update s ?b) (m @ ?b) \<and> length (m @ ?b) + (todo - k) < 2 ^ 61"
        using that lb k by simp
      obtain s' where "ctx' = Some s'" "ctx_repr s' ((m @ ?b) @ sub_buf (pos + k) (todo - k) src)"
        using ih(2) [rule_format, OF pre] by blast
      then show ?thesis using app by auto
    qed
    ultimately show ?thesis by blast
  qed
qed

lemma write_digests_ok:
  assumes "host_ok h" "h_files h src = Some D" "dest \<noteq> src" "32 * (start + count) \<le> length D"
  shows "\<exists>ctx'. write_digests_to_table h src dest start count ctx
      = (0, ctx', fset h dest (sub_buf (32 * start) (count * 32) D))
    \<and> (ctx \<noteq> None \<and> count * 32 < 2 ^ 61 \<longrightarrow> (\<exists>s. ctx' = Some s \<and> ctx_repr s (sub_buf (32 * start) (count * 32) D)))"
proof -
  have l: "32 * start + count * 32 \<le> length D" using assms(4) by simp
  obtain ctx' where c: "copy_digests D dest (32 * start) (count * 32) (map_option (\<lambda>_. SHA256Init) ctx) (fset h dest [])
      = (0, ctx', fset (fset h dest []) dest ([] @ sub_buf (32 * start) (count * 32) D))"
    "\<forall>s m. map_option (\<lambda>_. SHA256Init) ctx = Some s \<and> ctx_repr s m \<and> length m + count * 32 < 2 ^ 61
          \<longrightarrow> (\<exists>s'. ctx' = Some s' \<and> ctx_repr s' (m @ sub_buf (32 * start) (count * 32) D))"
    using copy_digests_ok [of "fset h dest []" "32 * start" "count * 32" D dest "[]" "map_option (\<lambda>_. SHA256Init) ctx"]
      assms(1) l by auto
  have W: "write_digests_to_table h src dest start count ctx = (0, ctx', fset h dest (sub_buf (32 * start) (count * 32) D))"
    using c(1) assms(1-3) by (simp add: write_digests_to_table_def h_create_ok)
  have C: "\<exists>s. ctx' = Some s \<and> ctx_repr s (sub_buf (32 * start) (count * 32) D)"
    if "ctx \<noteq> None" "count * 32 < 2 ^ 61"
  proof -
    obtain s0 where "ctx = Some s0" using \<open>ctx \<noteq> None\<close> by blast
    then have pre: "map_option (\<lambda>_. SHA256Init) ctx = Some SHA256Init \<and> ctx_repr SHA256Init []
        \<and> length ([] :: u8 list) + count * 32 < 2 ^ 61"
      using that(2) init_repr by simp
    show ?thesis using c(2) [THEN spec, THEN spec, THEN mp, OF pre] by (simp only: append_Nil)
  qed
  show ?thesis
    by (intro exI [of _ ctx'] conjI impI W) (rule C; simp)
qed

subsection \<open>Names\<close>

definition table_path :: "string \<Rightarrow> nat \<Rightarrow> string" where
  "table_path path j = path_join path (chained_table_name j)"

abbreviation sign_path :: "string \<Rightarrow> string" where "sign_path path \<equiv> path_join path DIGEST_TABLE_TO_SIGN_FILE"
abbreviation full_path :: "string \<Rightarrow> string" where "full_path path \<equiv> path_join path DIGEST_FULL_TABLE_FILE"

lemma table_path_eq:
  assumes "length path < 4000" "j < 10 ^ 18"
  shows "table_path path j = path @ ''/ChainedTableOfDigests'' @ show_dec j @ ''.bin''"
proof -
  have "length (show_dec j) \<le> 18" using show_dec_length [of j 17] assms(2) by simp
  then show ?thesis
    using assms(1) by (simp add: table_path_def path_join_fits chained_table_name_def PATH_MAX_def)
qed

lemma paths_eq:
  "length path < 4000 \<Longrightarrow> sign_path path = path @ ''/DigestsToSign.bin''"
  "length path < 4000 \<Longrightarrow> full_path path = path @ ''/DIGEST_TABLE.bin''"
  by (simp_all add: path_join_fits PATH_MAX_def)

lemma paths_distinct:
  assumes "length path < 4000" "i < 10 ^ 18" "j < 10 ^ 18"
  shows "table_path path i = table_path path j \<longleftrightarrow> i = j"
    and "table_path path i \<noteq> sign_path path" "table_path path i \<noteq> full_path path"
    and "sign_path path \<noteq> full_path path"
proof -
  show "table_path path i = table_path path j \<longleftrightarrow> i = j"
    using table_path_eq [OF assms(1,2)] table_path_eq [OF assms(1,3)] show_dec_inj [of i j] by auto
  show "table_path path i \<noteq> sign_path path" "table_path path i \<noteq> full_path path"
    unfolding table_path_eq [OF assms(1,2)] paths_eq [OF assms(1)] by simp_all
  show "sign_path path \<noteq> full_path path"
    unfolding paths_eq [OF assms(1)] by simp
qed

subsection \<open>Writing the chain\<close>

text \<open>The digests \<open>ds\<close> as the content of the full table, and a slice of them.\<close>

definition digests_ok :: "u8 list list \<Rightarrow> bool" where
  "digests_ok ds \<longleftrightarrow> list_all (\<lambda>d. length d = 32) ds"

lemma length_concat_digests: "digests_ok ds \<Longrightarrow> length (concat ds) = 32 * length ds"
  by (induction ds) (auto simp: digests_ok_def)

lemma take_concat_digests: "digests_ok ds \<Longrightarrow> take (n * 32) (concat ds) = concat (take n ds)"
proof (induction ds arbitrary: n)
  case (Cons d ds)
  then show ?case by (cases n) (auto simp: digests_ok_def)
qed simp

lemma drop_concat_digests: "digests_ok ds \<Longrightarrow> drop (32 * n) (concat ds) = concat (drop n ds)"
proof (induction ds arbitrary: n)
  case (Cons d ds)
  then show ?case by (cases n) (auto simp: digests_ok_def)
qed simp

lemma digests_ok_drop: "digests_ok ds \<Longrightarrow> digests_ok (drop n ds)"
  by (auto simp: digests_ok_def list_all_iff dest: in_set_dropD)

lemma sub_concat_digests:
  "digests_ok ds \<Longrightarrow> sub_buf (32 * start) (count * 32) (concat ds) = concat (take count (drop start ds))"
  by (simp add: sub_buf_def drop_concat_digests take_concat_digests digests_ok_drop)

lemma payloads_count: "length (payloads ds) \<le> length ds"
proof (induction ds rule: payloads.induct)
  case (1 ds)
  show ?case
  proof (cases "ds = [] \<or> length ds \<le> 255")
    case True
    then show ?thesis by (subst payloads.simps) (cases ds; simp)
  next
    case False
    then have "length (payloads (drop 255 ds)) \<le> length ds - 255" using 1 by simp
    then have "length (payloads ds) = Suc (length (payloads (drop 255 ds)))"
      using False by (subst payloads.simps) simp
    then show ?thesis using False \<open>length (payloads (drop 255 ds)) \<le> length ds - 255\<close> by linarith
  qed
qed

text \<open>The host with a run of chained tables written into it.\<close>

fun set_tables :: "string \<Rightarrow> nat \<Rightarrow> u8 list list \<Rightarrow> host \<Rightarrow> host" where
  "set_tables path idx [] h = h"
| "set_tables path idx (p # ps) h = set_tables path (idx + 1) ps (fset h (table_path path idx) p)"

lemma set_tables_ok [simp]: "host_ok (set_tables path idx ps h) = host_ok h"
  by (induction ps arbitrary: idx h) auto

lemma set_tables_other:
  "(\<And>j. j < length ps \<Longrightarrow> p \<noteq> table_path path (idx + j)) \<Longrightarrow> h_files (set_tables path idx ps h) p = h_files h p"
proof (induction ps arbitrary: idx h)
  case (Cons q ps)
  have "p \<noteq> table_path path idx" using Cons.prems [of 0] by simp
  moreover have "p \<noteq> table_path path (idx + 1 + j)" if "j < length ps" for j
    using Cons.prems [of "Suc j"] that by simp
  ultimately show ?case using Cons.IH [of "idx + 1"] by simp
qed simp

lemma set_tables_nth:
  assumes "length path < 4000"
  shows "j < length ps \<Longrightarrow> idx + length ps < 10 ^ 18 \<Longrightarrow>
    h_files (set_tables path idx ps h) (table_path path (idx + j)) = Some (ps ! j)"
proof (induction ps arbitrary: idx h j)
  case (Cons q ps)
  show ?case
  proof (cases j)
    case 0
    have "table_path path idx \<noteq> table_path path (idx + 1 + i)" if "i < length ps" for i
      using paths_distinct(1) [OF assms, of idx "idx + 1 + i"] Cons.prems(2) that by simp
    then show ?thesis using 0 set_tables_other [of ps "table_path path idx" path "idx + 1"] by simp
  next
    case (Suc i)
    then show ?thesis using Cons.IH [of i "idx + 1"] Cons.prems by simp
  qed
qed simp

lemma fset_commute: "p \<noteq> p' \<Longrightarrow> fset (fset h p c) p' c' = fset (fset h p' c') p c"
  by (simp add: fset_def fun_upd_twist)

lemma fset_set_tables:
  "(\<And>j. j < length ps \<Longrightarrow> p \<noteq> table_path path (idx + j)) \<Longrightarrow>
   fset (set_tables path idx ps h) p c = set_tables path idx ps (fset h p c)"
proof (induction ps arbitrary: idx h)
  case (Cons q ps)
  have "p \<noteq> table_path path idx" using Cons.prems [of 0] by simp
  moreover have "p \<noteq> table_path path (idx + 1 + j)" if "j < length ps" for j
    using Cons.prems [of "Suc j"] that by simp
  ultimately show ?case using Cons.IH [of "idx + 1"] by (simp add: fset_commute [of p])
qed simp

lemma set_tables_update:
  assumes "length path < 4000"
  shows "j < length ps \<Longrightarrow> idx + length ps < 10 ^ 18 \<Longrightarrow>
    fset (set_tables path idx ps h) (table_path path (idx + j)) c = set_tables path idx (ps[j := c]) h"
proof (induction ps arbitrary: idx h j)
  case (Cons q ps)
  show ?case
  proof (cases j)
    case 0
    have "table_path path idx \<noteq> table_path path (idx + 1 + i)" if "i < length ps" for i
      using paths_distinct(1) [OF assms, of idx "idx + 1 + i"] Cons.prems(2) that by simp
    then show ?thesis using 0 fset_set_tables [of ps "table_path path idx" path "idx + 1"] by simp
  next
    case (Suc i)
    then show ?thesis using Cons.IH [of i "idx + 1"] Cons.prems by simp
  qed
qed simp

lemma chain_step2_ok:
  assumes "digests_ok ds" "length path < 4000" "length ds < 10 ^ 17"
  shows "host_ok h \<Longrightarrow> h_files h (full_path path) = Some (concat ds) \<Longrightarrow> remaining \<le> length ds \<Longrightarrow>
    idx + remaining \<le> length ds \<Longrightarrow>
    \<exists>cs. chain_step2 h path (length ds) remaining idx ctxs
        = (0, ctxs @ cs, set_tables path idx (payloads (drop (length ds - remaining) ds)) h)
      \<and> list_all2 ctx_repr cs (payloads (drop (length ds - remaining) ds))"
proof (induction remaining arbitrary: h idx ctxs rule: less_induct)
  case (less remaining)
  let ?n = "length ds"
  let ?rest = "drop (?n - remaining) ds"
  show ?case
  proof (cases "remaining = 0")
    case True
    then have "payloads ?rest = []" by (simp add: payloads.simps)
    then show ?thesis using True by (subst chain_step2.simps) simp
  next
    case False
    have ne: "?rest \<noteq> []" using False less.prems(3) by simp
    define t where "t = (if remaining > 255 then 255 else remaining)"
    let ?dest = "table_path path idx"
    have idx: "idx < 10 ^ 18" using less.prems(4) False assms(3) by simp
    note dist = paths_distinct [OF assms(2) idx idx]
    have sub: "sub_buf (32 * (?n - remaining)) (t * 32) (concat ds) = concat (take t ?rest)"
      using assms(1) by (rule sub_concat_digests)
    have len: "32 * (?n - remaining + t) \<le> length (concat ds)"
      using less.prems(3) assms(1) by (auto simp: length_concat_digests t_def)
    have small: "t * 32 < 2 ^ 61" by (simp add: t_def)
    obtain s where w: "write_digests_to_table h (full_path path) ?dest (?n - remaining) t (Some sha_zero)
        = (0, Some s, fset h ?dest (concat (take t ?rest)))"
      and s: "ctx_repr s (concat (take t ?rest))"
      using write_digests_ok [OF less.prems(1,2) dist(3) len, of "Some sha_zero"] small unfolding sub by auto
    show ?thesis
    proof (cases "remaining \<le> 255")
      case True
      have tr: "t = remaining" "take t ?rest = ?rest" using True less.prems(3) by (simp_all add: t_def)
      have pl: "payloads ?rest = [concat ?rest @ [0]]"
        using ne True less.prems(3) by (subst payloads.simps) simp
      have "length (concat ?rest) = 32 * length ?rest" using assms(1) by (intro length_concat_digests digests_ok_drop)
      then have "ctx_repr (SHA256Update s [0]) (concat ?rest @ [0])"
        using s tr True less.prems(3) by (intro update_repr) auto
      moreover have "write_output_file (fset h ?dest (concat ?rest)) ?dest True [0] = (0, fset h ?dest (concat ?rest @ [0]))"
        using less.prems(1) by (simp add: append_ok)
      then have "chain_step2 h path ?n remaining idx ctxs
          = (0, ctxs @ [SHA256Update s [0]], fset h ?dest (concat ?rest @ [0]))"
        using w tr False True
        by (subst chain_step2.simps) (simp add: t_def table_path_def MAX_DIGESTS_PER_CHAINED_TABLE_def)
      ultimately show ?thesis unfolding pl by auto
    next
      case False
      let ?rem = "remaining - 255" and ?h1 = "fset h ?dest (concat (take 255 ?rest))"
      have nrem: "?n - ?rem = 255 + (?n - remaining)" using False less.prems(3) by simp
      have pl: "payloads ?rest = concat (take 255 ?rest) # payloads (drop (?n - ?rem) ds)"
        unfolding nrem using ne False less.prems(3) by (subst payloads.simps) simp
      have tr: "t = 255" using False by (simp add: t_def)
      have "h_files ?h1 (full_path path) = Some (concat ds)" using less.prems(2) dist(3) by simp
      then have h0: "h_files ?h1 (full_path path) = Some (concat ds)" .
      have r1: "?rem < remaining" and r2: "?rem \<le> ?n" and r3: "idx + 1 + ?rem \<le> ?n"
        and h1: "host_ok ?h1"
        using less.prems False by auto
      obtain cs where ih: "chain_step2 ?h1 path ?n ?rem (idx + 1) (ctxs @ [s])
            = (0, (ctxs @ [s]) @ cs, set_tables path (idx + 1) (payloads (drop (?n - ?rem) ds)) ?h1)"
          "list_all2 ctx_repr cs (payloads (drop (?n - ?rem) ds))"
        using less.IH [OF r1 h1 h0 r2 r3, of "ctxs @ [s]"] by blast
      have "chain_step2 h path ?n remaining idx ctxs = chain_step2 ?h1 path ?n ?rem (idx + 1) (ctxs @ [s])"
        using w tr False \<open>remaining \<noteq> 0\<close>
        by (subst chain_step2.simps) (simp add: table_path_def MAX_DIGESTS_PER_CHAINED_TABLE_def)
      then show ?thesis unfolding pl using ih s tr by (intro exI [of _ "s # cs"]) simp
    qed
  qed
qed

text \<open>
  Going backwards: before table \<open>i - 1\<close> is hashed, tables \<open>i - 1\<close> and up are final and the ones before
  hold their digests only.
\<close>

lemma chain_step3_ok:
  assumes "length path < 4000" "list_all2 ctx_repr cs ps" "length ps < 10 ^ 17"
    "\<forall>p \<in> set ps. length p < 10 ^ 18"
  shows "i \<le> length ps \<Longrightarrow> host_ok h0 \<Longrightarrow> h_files h0 (sign_path path) = Some c \<Longrightarrow>
    chain_step3 (set_tables path 0 (take (i - 1) ps @ drop (i - 1) (finals ps)) h0) path cs i
        (if i = length ps then None else Some (sha256 (finals ps ! i)))
      = (0, set_tables path 0 (finals ps)
              (if i = 0 then h0 else fset h0 (sign_path path) (c @ sha256 (finals ps ! 0))))"
proof (induction i arbitrary: h0)
  case (Suc i)
  let ?F = "finals ps"
  have i: "i < length ps" using Suc.prems(1) by simp
  have ci: "ctx_repr (cs ! i) (ps ! i)" using assms(2) i by (simp add: list_all2_conv_all_nth)
  have li: "length (ps ! i) < 10 ^ 18" using assms(4) i by simp
  define ctx where "ctx = (if Suc i = length ps then cs ! i else SHA256Update (cs ! i) (sha256 (?F ! Suc i)))"
  have "ctx_repr ctx (?F ! i)"
  proof (cases "Suc i = length ps")
    case True
    then show ?thesis using ci finals_nth [OF i] by (simp add: ctx_def)
  next
    case False
    then have "ctx_repr ctx (ps ! i @ sha256 (?F ! Suc i))"
      using ci li by (simp add: ctx_def) (rule update_repr; simp add: length_sha256)
    then show ?thesis using finals_nth [OF i] False i by simp
  qed
  moreover have "length (?F ! i) < 2 ^ 61" using finals_nth [OF i] li by simp
  ultimately have hash: "SHA256Final ctx = sha256 (?F ! i)" by (rule final_repr)
  have hash': "SHA256Final (case (if Suc i = length ps then None else Some (sha256 (?F ! Suc i))) of
      None \<Rightarrow> cs ! i | Some d \<Rightarrow> SHA256Update (cs ! i) d) = sha256 (?F ! i)"
    using hash by (cases "Suc i = length ps") (simp_all add: ctx_def)
  have step: "chain_step3 h path cs (Suc i) (if Suc i = length ps then None else Some (sha256 (?F ! Suc i)))
      = (case write_output_file h (path_join path (if i = 0 then DIGEST_TABLE_TO_SIGN_FILE else chained_table_name (i - 1)))
                True (sha256 (?F ! i)) of
           (ret, h1) \<Rightarrow> if ret < 0 then (ret, h1) else chain_step3 h1 path cs i (Some (sha256 (?F ! i))))" for h
    unfolding chain_step3.simps Let_def hash' by (rule refl)
  show ?case
  proof (cases i)
    case 0
    have ns: "sign_path path \<noteq> table_path path (0 + j)" if "j < length ?F" for j
      using paths_distinct(2) [OF assms(1), of j j] that assms(3) by simp
    have "write_output_file (set_tables path 0 ?F h0) (sign_path path) True (sha256 (?F ! 0))
        = (0, set_tables path 0 ?F (fset h0 (sign_path path) (c @ sha256 (?F ! 0))))"
    proof -
      have ok: "host_ok (set_tables path 0 ?F h0)" using Suc.prems(2) by simp
      have src: "h_files (set_tables path 0 ?F h0) (sign_path path) = Some c"
        using set_tables_other [of ?F "sign_path path" path 0 h0, OF ns] Suc.prems(3) by simp
      show ?thesis using append_ok [OF ok src, of "sha256 (?F ! 0)"]
          fset_set_tables [of ?F "sign_path path" path 0 h0, OF ns] by simp
    qed
    then show ?thesis using step [of "set_tables path 0 ?F h0"] 0 by simp
  next
    case (Suc k)
    let ?L = "take i ps @ drop i ?F"
    have lL: "length ?L = length ps" using i by simp
    have nk: "?L ! k = ps ! k" using Suc i by (simp add: nth_append)
    have upd: "?L[k := ps ! k @ sha256 (?F ! i)] = take (i - 1) ps @ drop (i - 1) ?F"
    proof -
      have "take i ps = take k ps @ [ps ! k]" using Suc i by (simp add: take_Suc_conv_app_nth)
      moreover have "drop k ?F = (ps ! k @ sha256 (?F ! i)) # drop i ?F"
        using Suc i finals_nth [of k ps] by (simp add: Cons_nth_drop_Suc [symmetric])
      ultimately show ?thesis using Suc i by (simp add: list_update_append)
    qed
    have f: "h_files (set_tables path 0 ?L h0) (table_path path k) = Some (ps ! k)"
      using set_tables_nth [OF assms(1), of k ?L 0 h0] lL nk Suc i assms(3) by simp
    have w: "write_output_file (set_tables path 0 ?L h0) (table_path path k) True (sha256 (?F ! i))
        = (0, set_tables path 0 (take (i - 1) ps @ drop (i - 1) ?F) h0)"
      using append_ok [OF _ f] Suc.prems(2) set_tables_update [OF assms(1), of k ?L 0 h0] lL Suc i assms(3) upd
      by simp
    have "chain_step3 (set_tables path 0 (take (i - 1) ps @ drop (i - 1) ?F) h0) path cs i (Some (sha256 (?F ! i)))
        = (0, set_tables path 0 ?F (fset h0 (sign_path path) (c @ sha256 (?F ! 0))))"
      using Suc.IH Suc.prems Suc i by simp
    then show ?thesis using step [of "set_tables path 0 ?L h0"] w Suc by (simp add: table_path_def)
  qed
qed simp

lemma payload_length: "digests_ok ds \<Longrightarrow> p \<in> set (payloads ds) \<Longrightarrow> length p \<le> 8161"
proof (induction ds rule: payloads.induct)
  case (1 ds)
  show ?case
  proof (cases "ds = []")
    case False
    have l: "length (concat (take 255 ds)) = 32 * length (take 255 ds)"
      using 1(2) by (intro length_concat_digests) (auto simp: digests_ok_def list_all_iff dest: in_set_takeD)
    show ?thesis
    proof (cases "length ds \<le> 255")
      case True
      then have "payloads ds = [concat ds @ [0]]" using False by (subst payloads.simps) simp
      then show ?thesis using 1(3) l True by simp
    next
      case gt: False
      then have "payloads ds = concat (take 255 ds) # payloads (drop 255 ds)"
        using False by (subst payloads.simps) simp
      then have "p = concat (take 255 ds) \<or> p \<in> set (payloads (drop 255 ds))" using 1(3) by simp
      then show ?thesis using l 1(1) [OF False gt digests_ok_drop [OF 1(2)]] by auto
    qed
  next
    case True
    then show ?thesis using 1(3) by (simp add: payloads.simps)
  qed
qed

lemma chained_tables_written:
  assumes "host_ok h" "h_files h (path_join (vg_path g) DIGEST_FULL_TABLE_FILE) = Some (concat ds)"
    "digests_ok ds" "vg_num g = length ds" "length (vg_path g) < 4000" "length ds < 10 ^ 17"
  shows "\<exists>h'. create_chained_tables g h = (0, h')
    \<and> h_files h' (path_join (vg_path g) DIGEST_TABLE_TO_SIGN_FILE) = Some (signed_content ds)
    \<and> (\<forall>j < length (chain_tables (drop 53 ds)).
         h_files h' (path_join (vg_path g) (chained_table_name j)) = Some (chain_tables (drop 53 ds) ! j))
    \<and> (\<forall>p. p \<noteq> path_join (vg_path g) DIGEST_TABLE_TO_SIGN_FILE
         \<and> (\<forall>j < length (chain_tables (drop 53 ds)). p \<noteq> path_join (vg_path g) (chained_table_name j))
         \<longrightarrow> h_files h' p = h_files h p)"
proof -
  let ?path = "vg_path g" and ?n = "length ds" and ?ps = "payloads (drop 53 ds)"
  let ?F = "chain_tables (drop 53 ds)"
  define k where "k = (if ?n < 53 then ?n else 53)"
  let ?h1 = "fset h (sign_path ?path) (concat (take 53 ds))"
  note dist = paths_distinct [OF assms(5)]
  have np: "length ?ps \<le> ?n" using payloads_count [of "drop 53 ds"] by simp
  have lF: "length ?F = length ?ps" by (simp add: chain_tables_def)
  have k: "32 * (0 + k) \<le> length (concat ds)" using assms(3) by (simp add: k_def length_concat_digests)
  have tk: "sub_buf (32 * 0) (k * 32) (concat ds) = concat (take 53 ds)"
    using sub_concat_digests [OF assms(3), of 0 k] by (simp add: k_def)
  have sf: "sign_path ?path \<noteq> full_path ?path" using dist(4) [of 0 0] by simp
  obtain cx where w: "write_digests_to_table h (full_path ?path) (sign_path ?path) 0 k None = (0, cx, ?h1)"
    using write_digests_ok [OF assms(1,2) sf k, of None] unfolding tk by auto
  define h' where "h' = set_tables ?path 0 ?F (if ?F = [] then ?h1
      else fset ?h1 (sign_path ?path) (concat (take 53 ds) @ sha256 (?F ! 0)))"
  have run: "create_chained_tables g h = (0, h')"
  proof (cases "53 < ?n")
    case False
    then have "?F = []" by (simp add: chain_tables_def payloads.simps)
    then show ?thesis using w False assms(4)
      unfolding create_chained_tables_def MAX_DIGESTS_PER_SIGNED_TABLE_def
      by (simp add: k_def Let_def h'_def split del: if_split)
  next
    case True
    then have ne: "?ps \<noteq> []" by (subst payloads.simps) simp
    have ok1: "host_ok ?h1" "h_files ?h1 (full_path ?path) = Some (concat ds)"
      using assms(1,2) sf by simp_all
    have le: "?n - 53 \<le> ?n" "0 + (?n - 53) \<le> ?n" by simp_all
    have rest: "?n - (?n - 53) = 53" using True by simp
    obtain cs where s2: "chain_step2 ?h1 ?path ?n (?n - 53) 0 [] = (0, cs, set_tables ?path 0 ?ps ?h1)"
      and cs: "list_all2 ctx_repr cs ?ps"
      using chain_step2_ok [OF assms(3,5,6) ok1 le, of "[]"] unfolding rest by auto
    have lc: "length cs = length ?ps" using cs by (rule list_all2_lengthD)
    have bound: "\<forall>p \<in> set ?ps. length p < 10 ^ 18"
      using payload_length [OF digests_ok_drop [OF assms(3)]] by fastforce
    have lp: "length ?ps < 10 ^ 17" using np assms(6) by simp
    have last: "take (length ?ps - 1) ?ps @ drop (length ?ps - 1) (finals ?ps) = ?ps"
    proof (rule nth_equalityI)
      fix i assume "i < length (take (length ?ps - 1) ?ps @ drop (length ?ps - 1) (finals ?ps))"
      then have i: "i < length ?ps" using ne by (cases ?ps) auto
      show "(take (length ?ps - 1) ?ps @ drop (length ?ps - 1) (finals ?ps)) ! i = ?ps ! i"
      proof (cases "Suc i = length ?ps")
        case True
        then have n1: "length ?ps - 1 = i" by simp
        show ?thesis unfolding n1 using finals_nth [OF i] True by (simp add: nth_append)
      next
        case False
        then have "i < length ?ps - 1" using i by linarith
        then show ?thesis by (simp add: nth_append)
      qed
    qed (use ne in \<open>cases ?ps; simp\<close>)
    have "h_files ?h1 (sign_path ?path) = Some (concat (take 53 ds))" by simp
    from chain_step3_ok [OF assms(5) cs lp bound le_refl ok1(1) this]
    have "chain_step3 (set_tables ?path 0 ?ps ?h1) ?path cs (length cs) None = (0, h')"
      unfolding last h'_def chain_tables_def lc using ne by (auto dest: arg_cong [of _ _ length])
    then show ?thesis using w s2 True assms(4)
      unfolding create_chained_tables_def MAX_DIGESTS_PER_SIGNED_TABLE_def
      by (simp add: k_def Let_def split del: if_split)
  qed
  have F: "h_files (set_tables ?path 0 ?F x) (table_path ?path j) = Some (?F ! j)" if "j < length ?F" for j x
    using set_tables_nth [OF assms(5), of j ?F 0] that lF np assms(6) by simp
  have ns: "sign_path ?path \<noteq> table_path ?path (0 + j)" if "j < length ?F" for j
    using dist(2) [of j j] that lF np assms(6) by simp
  have "h_files h' (sign_path ?path) = Some (signed_content ds)"
    using set_tables_other [of ?F "sign_path ?path" ?path 0, OF ns]
    by (simp add: h'_def signed_content_def hd_conv_nth split: list.split)
  moreover have "h_files h' p = h_files h p"
    if "p \<noteq> sign_path ?path" "\<forall>j < length ?F. p \<noteq> table_path ?path j" for p
    using set_tables_other [of ?F p ?path 0] that by (simp add: h'_def)
  ultimately show ?thesis using run F by (intro exI [of _ h'] conjI) (simp_all add: h'_def table_path_def)
qed

end
