(* ===== verification/VipProps.thy ===== *)
theory VipProps
  imports VipGen
begin

text \<open>
  The transfer of the digest tables: which bytes a device receives when every packet is preceded by
  \<open>vip_transfer_handle_tables\<close>, as \<open>firehose_write\<close> and the raw transfers do, and that the tables
  the generator wrote are sent in front of exactly the packets they cover.
\<close>

subsection \<open>A packet's digest\<close>

definition gen_packet :: "u8 list list \<Rightarrow> vip_table_generator option \<times> host \<Rightarrow> vip_table_generator option \<times> host" where
  "gen_packet chunks s =
     (case s of (g, h) \<Rightarrow> vip_gen_chunk_store (foldl vip_gen_chunk_update (vip_gen_chunk_init g) chunks) h)"

lemma update_fold:
  "foldl vip_gen_chunk_update (Some g) chunks = Some (g\<lparr>vg_ctx := foldl SHA256Update (vg_ctx g) chunks\<rparr>)"
  by (induction chunks arbitrary: g) (simp_all add: vip_gen_chunk_update_def)

text \<open>
  Hashing a packet: from any state of the generator with its file open,
  \<open>vip_gen_chunk_init\<close>, one \<open>vip_gen_chunk_update\<close> per piece and \<open>vip_gen_chunk_store\<close> append the
  SHA-256 of the whole packet to the full digest table and count one digest.
\<close>

theorem vip_gen_packet_digest:
  assumes "vg_open g" "host_ok h" "h_files h (path_join (vg_path g) DIGEST_FULL_TABLE_FILE) = Some c"
    "length (concat chunks) < 2 ^ 61"
  shows "\<exists>g' h'. vip_gen_chunk_store (foldl vip_gen_chunk_update (vip_gen_chunk_init (Some g)) chunks) h = (Some g', h')
    \<and> vg_open g' \<and> vg_path g' = vg_path g \<and> vg_num g' = vg_num g + 1
    \<and> h' = h\<lparr>h_files := (h_files h)(path_join (vg_path g) DIGEST_FULL_TABLE_FILE \<mapsto> c @ sha256 (concat chunks))\<rparr>"
proof -
  have "SHA256Final (foldl SHA256Update SHA256Init chunks) = sha256 (concat chunks)"
    by (rule sha.digest_pieces [OF assms(4)])
  moreover have "f_write h (path_join (vg_path g) DIGEST_FULL_TABLE_FILE) d
      = (True, h\<lparr>h_files := (h_files h)(path_join (vg_path g) DIGEST_FULL_TABLE_FILE \<mapsto> c @ d)\<rparr>)" for d
    using f_write_ok [OF assms(2,3), of d] by (simp add: fset_def)
  ultimately show ?thesis
    using assms(1) by (simp add: vip_gen_chunk_init_def update_fold vip_gen_chunk_store_def Let_def)
qed

lemma vip_gen_packet_digest_witness:
  "\<exists>g' h'. vip_gen_chunk_store (foldl vip_gen_chunk_update (vip_gen_chunk_init
        (Some \<lparr>vg_ctx = sha_zero, vg_open = True, vg_num = 4, vg_path = ''d''\<rparr>)) [[97], [98, 99]])
        (fset ex_host ''d/DIGEST_TABLE.bin'' [1]) = (Some g', h')
    \<and> vg_num g' = 5 \<and> h_files h' ''d/DIGEST_TABLE.bin'' = Some (1 # sha256 [97, 98, 99])"
proof -
  define g where "g = \<lparr>vg_ctx = sha_zero, vg_open = True, vg_num = 4, vg_path = ''d''\<rparr>"
  define h where "h = fset ex_host ''d/DIGEST_TABLE.bin'' [1]"
  have p: "path_join (vg_path g) DIGEST_FULL_TABLE_FILE = ''d/DIGEST_TABLE.bin''"
    by (simp add: path_join_fits PATH_MAX_def g_def)
  have "vg_open g" "host_ok h" "h_files h (path_join (vg_path g) DIGEST_FULL_TABLE_FILE) = Some [1]"
      "length (concat [[97], [98, 99 :: u8]]) < 2 ^ 61"
    unfolding p by (simp_all add: h_def g_def host_ok_def ex_host_def fset_def)
  from vip_gen_packet_digest [OF this] obtain g' h' where
    "vip_gen_chunk_store (foldl vip_gen_chunk_update (vip_gen_chunk_init (Some g)) [[97], [98, 99]]) h = (Some g', h')"
    "vg_num g' = 5" "h_files h' ''d/DIGEST_TABLE.bin'' = Some (1 # sha256 [97, 98, 99])"
    unfolding p by (auto simp: g_def)
  then show ?thesis unfolding g_def h_def by blast
qed

subsection \<open>The transfer\<close>

text \<open>A link that takes everything and records it, and a client that sends packets.\<close>

definition recorder :: "u8 list list transport" where
  "recorder = \<lparr>tr_read = (\<lambda>d n t. (Inl (- ETIMEDOUT), d)), tr_write = (\<lambda>d m t. (int (length m), d @ [m]))\<rparr>"

fun send_packets :: "u8 list list \<Rightarrow> u8 list list qdl_device \<Rightarrow> int \<times> u8 list list qdl_device" where
  "send_packets [] q = (0, q)"
| "send_packets (f # fs) q =
     (case vip_transfer_handle_tables recorder q of
        (ret, q1) \<Rightarrow> if ret \<noteq> 0 then (ret, q1)
                    else case qdl_write recorder q1 f 1000 of (_, q2) \<Rightarrow> send_packets fs q2)"

text \<open>The bytes on the link: a table, as many packets as it covers, the next table, and so on.\<close>

fun schedule :: "u8 list list \<Rightarrow> nat \<Rightarrow> u8 list list \<Rightarrow> u8 list list" where
  "schedule [] n fs = []"
| "schedule (t # ts) n fs = (if fs = [] then [] else t # take n fs @ schedule ts 255 (drop n fs))"

definition allowance :: "vip_transfer_data \<Rightarrow> nat" where
  "allowance v = (if vip_st v = VIP_SEND_NEXT_TABLE then 0 else frames_left v - frames_sent v)"

text \<open>Inside the transfer, with the tables from \<open>chained_cur\<close> on unread.\<close>

definition under_way :: "vip_transfer_data \<Rightarrow> bool" where
  "under_way v \<longleftrightarrow>
     (vip_st v = VIP_SEND_NEXT_TABLE \<or> vip_st v = VIP_SEND_DATA \<and> frames_sent v < frames_left v)
     \<and> chained_cur v \<le> chained_num v
     \<and> list_all (\<lambda>f. fst f = 0) (drop (chained_cur v) (chained_tables v))"

lemmas tables_simps = vip_transfer_handle_tables_def vip_transfer_send_raw_def vip_file_def
  set_vip_file_def upd_vip_def start_table_def count_frame_def qdl_write_def
  MAX_DIGESTS_PER_SIGNED_TABLE_def MAX_DIGESTS_PER_CHAINED_TABLE_def chained_num_def

text \<open>One call: a packet of the current table, the next table, or a refusal.\<close>

lemma handle_in_table:
  assumes "under_way (vip_data q)" "allowance (vip_data q) = Suc r"
  shows "\<exists>v. vip_transfer_handle_tables T q = (0, q\<lparr>vip_data := v\<rparr>) \<and> under_way v \<and> allowance v = r
    \<and> chained_cur v = chained_cur (vip_data q) \<and> chained_tables v = chained_tables (vip_data q)
    \<and> sending_table v = sending_table (vip_data q)"
proof -
  have "vip_st (vip_data q) = VIP_SEND_DATA" using assms by (auto simp: under_way_def allowance_def)
  then have "vip_transfer_handle_tables T q = (0, q\<lparr>vip_data := count_frame (vip_data q)\<rparr>)"
    by (simp add: vip_transfer_handle_tables_def upd_vip_def)
  moreover have "under_way (count_frame (vip_data q))" "allowance (count_frame (vip_data q)) = r"
    using assms by (auto simp: count_frame_def under_way_def allowance_def chained_num_def Let_def)
  moreover have "chained_cur (count_frame v) = chained_cur v" "chained_tables (count_frame v) = chained_tables v"
      "sending_table (count_frame v) = sending_table v" for v
    by (simp_all add: count_frame_def Let_def)
  ultimately show ?thesis by blast
qed

lemma handle_next_table:
  assumes "under_way (vip_data q)" "allowance (vip_data q) = 0"
    "drop (chained_cur (vip_data q)) (chained_tables (vip_data q)) = (0, t) # ts"
    "tr_write T (link q) t 1000 = (n, d)" "n \<ge> 0"
  shows "\<exists>v. vip_transfer_handle_tables T q = (0, q\<lparr>vip_data := v, link := d\<rparr>) \<and> under_way v
    \<and> allowance v = 254 \<and> drop (chained_cur v) (chained_tables v) = ts \<and> \<not> sending_table v"
proof -
  let ?c = "chained_cur (vip_data q)" and ?T = "chained_tables (vip_data q)"
  have st: "vip_st (vip_data q) = VIP_SEND_NEXT_TABLE"
    using assms by (auto simp: under_way_def allowance_def)
  have c: "?c < length ?T" using assms(3) by (metis drop_all linorder_not_le list.distinct(1))
  then have f: "?T ! ?c = (0, t)" and ts: "drop (Suc ?c) ?T = ts"
    using assms(3) by (simp_all add: Cons_nth_drop_Suc [symmetric])
  define v where "v = (count_frame (start_table 255 ((vip_data q)\<lparr>chained_tables := ?T[?c := (length t, t)],
      sending_table := False, chained_cur := Suc ?c\<rparr>)))"
  have "vip_transfer_handle_tables T q = (0, q\<lparr>vip_data := v, link := d\<rparr>)"
    using st c f assms(4,5) by (simp add: tables_simps v_def Let_def)
  moreover have "under_way v" "allowance v = 254" "drop (chained_cur v) (chained_tables v) = ts" "\<not> sending_table v"
    using assms(1,3) c ts
    by (simp_all add: v_def count_frame_def start_table_def under_way_def allowance_def chained_num_def)
  ultimately show ?thesis by blast
qed

lemma handle_signed_table:
  assumes "vip_st (vip_data q) = VIP_INIT" "signed_table (vip_data q) = (0, s)"
    "chained_tables (vip_data q) = map (Pair 0) ts" "chained_cur (vip_data q) = 0"
    "tr_write T (link q) s 1000 = (n, d)" "n \<ge> 0"
  shows "\<exists>v. vip_transfer_handle_tables T q = (0, q\<lparr>vip_data := v, link := d\<rparr>) \<and> under_way v
    \<and> allowance v = 52 \<and> drop (chained_cur v) (chained_tables v) = map (Pair 0) ts \<and> \<not> sending_table v"
proof -
  define v where "v = count_frame (start_table 53 ((vip_data q)\<lparr>signed_table := (length s, s), sending_table := False\<rparr>))"
  have "vip_transfer_handle_tables T q = (0, q\<lparr>vip_data := v, link := d\<rparr>)"
    using assms by (simp add: tables_simps v_def Let_def)
  moreover have "under_way v" "allowance v = 52" "drop (chained_cur v) (chained_tables v) = map (Pair 0) ts" "\<not> sending_table v"
    using assms(3,4) by (simp_all add: v_def count_frame_def start_table_def under_way_def allowance_def
        chained_num_def list_all_iff)
  ultimately show ?thesis by blast
qed

lemma handle_no_table:
  assumes "under_way (vip_data q)" "allowance (vip_data q) = 0"
    "drop (chained_cur (vip_data q)) (chained_tables (vip_data q)) = []"
  shows "vip_transfer_handle_tables T q = (-1, q)"
  using assms by (auto simp: tables_simps under_way_def allowance_def)

lemma send_packets_under_way:
  "under_way (vip_data q) \<Longrightarrow> drop (chained_cur (vip_data q)) (chained_tables (vip_data q)) = map (Pair 0) ts \<Longrightarrow>
   \<exists>q'. send_packets fs q = (if length fs \<le> allowance (vip_data q) + 255 * length ts then 0 else -1, q')
     \<and> link q' = link q @ take (allowance (vip_data q)) fs @ schedule ts 255 (drop (allowance (vip_data q)) fs)"
proof (induction fs arbitrary: q ts)
  case Nil
  then show ?case by (cases ts) auto
next
  case (Cons f fs)
  let ?w = "\<lambda>q1. q1\<lparr>link := link q1 @ [f]\<rparr> :: u8 list list qdl_device"
  have wr: "qdl_write recorder q1 f 1000 = (int (length f), ?w q1)" for q1
    by (simp add: qdl_write_def recorder_def)
  show ?case
  proof (cases "allowance (vip_data q)")
    case (Suc r)
    from handle_in_table [OF Cons.prems(1) Suc, of recorder] obtain v where
      v: "vip_transfer_handle_tables recorder q = (0, q\<lparr>vip_data := v\<rparr>)" "under_way v" "allowance v = r"
        "chained_cur v = chained_cur (vip_data q)" "chained_tables v = chained_tables (vip_data q)" by blast
    show ?thesis
      using Cons.IH [of "?w (q\<lparr>vip_data := v\<rparr>)" ts] Cons.prems(2) v Suc by (simp add: wr)
  next
    case 0
    show ?thesis
    proof (cases ts)
      case Nil
      then show ?thesis using handle_no_table [OF Cons.prems(1) 0] Cons.prems(2) 0 by simp
    next
      case (Cons t ts')
      have rw: "tr_write recorder (link q) t 1000 = (int (length t), link q @ [t])" by (simp add: recorder_def)
      have dr: "drop (chained_cur (vip_data q)) (chained_tables (vip_data q)) = (0, t) # map (Pair 0) ts'"
        using Cons.prems(2) Cons by simp
      from handle_next_table [OF Cons.prems(1) 0 dr rw] obtain v where
        v: "vip_transfer_handle_tables recorder q = (0, q\<lparr>vip_data := v, link := link q @ [t]\<rparr>)" "under_way v"
          "allowance v = 254" "drop (chained_cur v) (chained_tables v) = map (Pair 0) ts'"
        by auto
      show ?thesis
        using Cons.IH [of "?w (q\<lparr>vip_data := v, link := link q @ [t]\<rparr>)" ts'] v 0 Cons by (simp add: wr)
    qed
  qed
qed

lemma send_packets_init:
  assumes "vip_st (vip_data q) = VIP_INIT" "signed_table (vip_data q) = (0, s)"
    "chained_tables (vip_data q) = map (Pair 0) ts" "chained_cur (vip_data q) = 0" "fs \<noteq> []"
  shows "\<exists>q'. send_packets fs q = (if length fs \<le> 53 + 255 * length ts then 0 else -1, q')
    \<and> link q' = link q @ schedule (s # ts) 53 fs"
proof -
  obtain f fs' where fs: "fs = f # fs'" using assms(5) by (cases fs) auto
  have rw: "tr_write recorder (link q) s 1000 = (int (length s), link q @ [s])" by (simp add: recorder_def)
  from handle_signed_table [OF assms(1-4) rw] obtain v where
    h: "vip_transfer_handle_tables recorder q = (0, q\<lparr>vip_data := v, link := link q @ [s]\<rparr>)" and
    v: "under_way v" "allowance v = 52" "drop (chained_cur v) (chained_tables v) = map (Pair 0) ts"
    by auto
  show ?thesis
    using send_packets_under_way [of "q\<lparr>vip_data := v, link := link q @ [s, f]\<rparr>" ts fs'] v h fs
    by (simp add: qdl_write_def recorder_def)
qed

text \<open>
  C27: The tables on the wire. From a freshly initialised transfer over \<open>chained_num\<close> tables, a
  device that is sent packets receives the signed table before the first packet, chained table \<open>j\<close>
  exactly before packet \<open>53 + 255 * j\<close>, and no table anywhere else; the transfer succeeds exactly
  when the tables cover the packets, and otherwise stops with an error after the last covered one.
\<close>

theorem vip_transfer_schedule:
  assumes "vip_st (vip_data q) = VIP_INIT" "signed_table (vip_data q) = (0, s)"
    "chained_tables (vip_data q) = map (Pair 0) ts" "chained_cur (vip_data q) = 0" "fs \<noteq> []"
  shows "\<exists>q'. send_packets fs q = (if length fs \<le> 53 + 255 * length ts then 0 else -1, q')
    \<and> link q' = link q @ schedule (s # ts) 53 fs"
  using send_packets_init [OF assms] .

text \<open>
  What \<open>create_chained_tables\<close> leaves on disk. When the full table holds the digests \<open>ds\<close> and
  every file operation succeeds, it returns 0, the table to sign holds the first 53 digests followed,
  if there are more, by the SHA-256 of the complete first chained table, chained table \<open>j\<close> is the
  \<open>j\<close>-th table of the specified chain (each carrying the hash of the complete next one, the last a
  zero byte), and no other file changes.
\<close>

theorem create_chained_tables_writes:
  assumes "host_ok h" "h_files h (path_join (vg_path g) DIGEST_FULL_TABLE_FILE) = Some (concat ds)"
    "digests_ok ds" "vg_num g = length ds" "length (vg_path g) < 4000" "length ds < 10 ^ 17"
  shows "\<exists>h'. create_chained_tables g h = (0, h')
    \<and> h_files h' (path_join (vg_path g) DIGEST_TABLE_TO_SIGN_FILE) = Some (signed_content ds)
    \<and> (\<forall>j < length (chain_tables (drop 53 ds)).
         h_files h' (path_join (vg_path g) (chained_table_name j)) = Some (chain_tables (drop 53 ds) ! j))
    \<and> (\<forall>p. p \<noteq> path_join (vg_path g) DIGEST_TABLE_TO_SIGN_FILE
         \<and> (\<forall>j < length (chain_tables (drop 53 ds)). p \<noteq> path_join (vg_path g) (chained_table_name j))
         \<longrightarrow> h_files h' p = h_files h p)"
  by (rule chained_tables_written [OF assms])

lemma create_chained_tables_writes_witness:
  "\<exists>h'. create_chained_tables \<lparr>vg_ctx = sha_zero, vg_open = True, vg_num = 54, vg_path = ''d''\<rparr>
        (fset ex_host ''d/DIGEST_TABLE.bin'' (concat (replicate 54 (replicate 32 7)))) = (0, h')
    \<and> h_files h' ''d/ChainedTableOfDigests0.bin'' = Some (replicate 32 7 @ [0])
    \<and> h_files h' ''d/DigestsToSign.bin'' = Some (concat (replicate 53 (replicate 32 7)) @ sha256 (replicate 32 7 @ [0]))"
proof -
  define ds where "ds = replicate 54 (replicate 32 (7 :: u8))"
  define g where "g = \<lparr>vg_ctx = sha_zero, vg_open = True, vg_num = 54, vg_path = ''d''\<rparr>"
  define h where "h = fset ex_host ''d/DIGEST_TABLE.bin'' (concat ds)"
  have p: "path_join (vg_path g) DIGEST_FULL_TABLE_FILE = ''d/DIGEST_TABLE.bin''"
      "path_join (vg_path g) DIGEST_TABLE_TO_SIGN_FILE = ''d/DigestsToSign.bin''"
      "path_join (vg_path g) (chained_table_name 0) = ''d/ChainedTableOfDigests0.bin''"
    by (simp_all add: path_join_fits PATH_MAX_def g_def chained_table_name_def show_dec.simps char_of_def bit_Suc_0_iff)
  have pre: "host_ok h" "h_files h (path_join (vg_path g) DIGEST_FULL_TABLE_FILE) = Some (concat ds)"
      "digests_ok ds" "vg_num g = length ds" "length (vg_path g) < 4000" "length ds < 10 ^ 17"
    unfolding p by (simp_all add: h_def g_def ds_def host_ok_def ex_host_def fset_def digests_ok_def list_all_iff)
  have d53: "drop 53 ds = [replicate 32 7]" "take 53 ds = replicate 53 (replicate 32 7)"
    by (simp_all add: ds_def)
  have c: "chain_tables [replicate 32 7] = [replicate 32 7 @ [0]]"
    unfolding chain_tables_def by (subst payloads.simps) simp
  from create_chained_tables_writes [OF pre] obtain h' where
    "create_chained_tables g h = (0, h')"
    "h_files h' ''d/ChainedTableOfDigests0.bin'' = Some (replicate 32 7 @ [0])"
    "h_files h' ''d/DigestsToSign.bin'' = Some (concat (replicate 53 (replicate 32 7)) @ sha256 (replicate 32 7 @ [0]))"
    unfolding p c signed_content_def d53 by (auto simp: p)
  then show ?thesis unfolding g_def h_def ds_def by blast
qed

lemma vip_transfer_schedule_witness:
  "\<exists>q'. send_packets (replicate 54 [1])
      ((fresh_device QDL_DEVICE_SIM [])\<lparr>vip_data := vip_zero\<lparr>vip_st := VIP_INIT, signed_table := (0, [8])\<rparr>\<rparr>) = (-1, q')
    \<and> link q' = [8] # replicate 53 [1]"
proof -
  let ?q = "(fresh_device QDL_DEVICE_SIM [])\<lparr>vip_data := vip_zero\<lparr>vip_st := VIP_INIT, signed_table := (0, [8])\<rparr>\<rparr>
    :: u8 list list qdl_device"
  have "vip_st (vip_data ?q) = VIP_INIT" "signed_table (vip_data ?q) = (0, [8])"
    "chained_tables (vip_data ?q) = map (Pair 0) []" "chained_cur (vip_data ?q) = 0"
    "replicate 54 [1 :: u8] \<noteq> []"
    by (simp_all add: vip_zero_def fresh_device_def)
  from vip_transfer_schedule [OF this] show ?thesis by (simp add: fresh_device_def)
qed

subsection \<open>Generator and transfer together\<close>

text \<open>The packets each table covers.\<close>

function covered :: "nat \<Rightarrow> u8 list list \<Rightarrow> u8 list list list" where
  "covered n fs = (if fs = [] \<or> n = 0 then [] else take n fs # covered 255 (drop n fs))"
  by pat_completeness auto
termination by (relation "measure (\<lambda>(n, fs). length fs)") auto

declare covered.simps [simp del]

lemma concat_covered: "0 < n \<Longrightarrow> concat (covered n fs) = fs"
proof (induction n fs rule: covered.induct)
  case (1 n fs)
  then show ?case by (subst covered.simps) (cases "fs = []"; simp)
qed

lemma schedule_covered:
  "0 < n \<Longrightarrow> schedule ts n fs = concat (map (\<lambda>(t, b). t # b) (List.zip ts (covered n fs)))"
proof (induction ts n fs rule: schedule.induct)
  case (2 t ts n fs)
  then show ?case by (subst covered.simps) auto
qed simp

text \<open>The chained tables, one by one: the digests of their packets and the hash of the next table, or a zero.\<close>

lemma payloads_covered:
  "length (payloads (map sha256 fs)) = length (covered 255 fs) \<and>
   (\<forall>i < length (covered 255 fs). payloads (map sha256 fs) ! i
      = concat (map sha256 (covered 255 fs ! i)) @ (if Suc i < length (covered 255 fs) then [] else [0]))"
proof (induction "255 :: nat" fs rule: covered.induct)
  case (1 fs)
  show ?case
  proof (cases "fs = []")
    case False
    then have c: "covered 255 fs = take 255 fs # covered 255 (drop 255 fs)" by (subst covered.simps) simp
    show ?thesis
    proof (cases "length fs \<le> 255")
      case True
      then have "payloads (map sha256 fs) = [concat (map sha256 fs) @ [0]]"
        using False by (subst payloads.simps) simp
      then show ?thesis using True unfolding c by (simp add: covered.simps)
    next
      case gt: False
      then have p: "payloads (map sha256 fs) = concat (map sha256 (take 255 fs)) # payloads (map sha256 (drop 255 fs))"
        using False by (subst payloads.simps) (simp add: take_map drop_map)
      have ne: "covered 255 (drop 255 fs) \<noteq> []" using gt by (subst covered.simps) simp
      have ih: "length (payloads (map sha256 (drop 255 fs))) = length (covered 255 (drop 255 fs))"
        "\<And>i. i < length (covered 255 (drop 255 fs)) \<Longrightarrow> payloads (map sha256 (drop 255 fs)) ! i
          = concat (map sha256 (covered 255 (drop 255 fs) ! i)) @ (if Suc i < length (covered 255 (drop 255 fs)) then [] else [0])"
        using 1 False by auto
      show ?thesis unfolding c p using ih ne by (auto simp: nth_Cons split: nat.split)
    qed
  qed (simp add: payloads.simps covered.simps)
qed

lemma chain_covered:
  assumes "i < length (covered 255 fs)"
  shows "chain_tables (map sha256 fs) ! i = concat (map sha256 (covered 255 fs ! i))
    @ (if Suc i < length (covered 255 fs) then sha256 (chain_tables (map sha256 fs) ! Suc i) else [0])"
proof -
  have l: "length (payloads (map sha256 fs)) = length (covered 255 fs)" using payloads_covered by blast
  have "i < length (payloads (map sha256 fs))" using assms l by simp
  from finals_nth [OF this] show ?thesis using payloads_covered [of fs] assms by (simp add: chain_tables_def l)
qed

lemma chain_length: "length (chain_tables (map sha256 fs)) = length (covered 255 fs)"
  using payloads_covered [of fs] by (simp add: chain_tables_def)

lemma covered_count: "length (covered 255 gs) = (length gs + 254) div 255"
proof (induction "255 :: nat" gs rule: covered.induct)
  case (1 gs)
  then show ?case
  proof (cases "length gs \<le> 255")
    case True
    have "length gs + 254 = 255 + (length gs - 1)" if "gs \<noteq> []" using that by (cases gs) auto
    with True show ?thesis
      by (subst covered.simps) (auto simp: covered.simps [of _ "[]"] div_add_self1 less_eq_Suc_le)
  next
    case False
    then have "length gs + 254 = 255 + (length gs - 255 + 254)" "gs \<noteq> []" by auto
    then show ?thesis using 1 by (subst covered.simps) (simp add: div_add_self1)
  qed
qed

text \<open>Opening the chained tables finds at least the ones that are there.\<close>

lemma open_chained_finds:
  "(\<And>j. opn (table_path path j) = Inl ENOENT \<or> (\<exists>c. opn (table_path path j) = Inr c)) \<Longrightarrow>
   (\<And>j. j < length ts \<Longrightarrow> opn (table_path path (i + j)) = Inr (ts ! j)) \<Longrightarrow> length ts \<le> n \<Longrightarrow>
   \<exists>ts'. open_chained opn path i n fds = Some (fds @ map (Pair 0) (ts @ ts'))"
proof (induction n arbitrary: i ts fds)
  case (Suc n)
  show ?case
  proof (cases ts)
    case Nil
    show ?thesis
    proof (cases "opn (table_path path i)")
      case (Inl e)
      then have "e = ENOENT" using Suc.prems(1) [of i] by simp
      then show ?thesis using Inl Nil by (auto simp: table_path_def)
    next
      case (Inr c)
      then show ?thesis
        using Suc.IH [OF Suc.prems(1), of "[]" "i + 1" "fds @ [(0, c)]"] Nil
        by (auto simp: table_path_def intro: exI [of _ "c # _"])
    qed
  next
    case (Cons t ts1)
    then have "opn (table_path path i) = Inr t" using Suc.prems(2) [of 0] by simp
    moreover have "opn (table_path path (i + 1 + j)) = Inr (ts1 ! j)" if "j < length ts1" for j
      using Suc.prems(2) [of "Suc j"] that Cons by simp
    ultimately show ?thesis
      using Suc.IH [OF Suc.prems(1), of ts1 "i + 1" "fds @ [(0, t)]"] Suc.prems(3) Cons
      by (auto simp: table_path_def)
  qed
qed simp

text \<open>
  The tables the generator writes are the ones that are sent, behind the signed file \<open>mbn\<close>, each in
  front of its packets.
\<close>

lemma generated_tables_sent:
  assumes "host_ok h" "h_files h (path_join (vg_path g) DIGEST_FULL_TABLE_FILE) = Some (concat (map sha256 fs))"
    "vg_num g = length fs" "length (vg_path g) < 4000" "fs \<noteq> []" "length fs \<le> 8213"
    "create_chained_tables g h = (ret, h')"
    "opn (path_join (vg_path g) ''DigestsToSign.bin.mbn'') = Inr mbn"
    "\<And>j. opn (path_join (vg_path g) (chained_table_name j))
       = (case h_files h' (path_join (vg_path g) (chained_table_name j)) of None \<Rightarrow> Inl ENOENT | Some c \<Rightarrow> Inr c)"
  shows "h_files h' (path_join (vg_path g) DIGEST_TABLE_TO_SIGN_FILE) = Some (signed_content (map sha256 fs))"
    and "\<exists>q1 q2. vip_transfer_init opn (vg_path g) q = (0, q1) \<and> send_packets fs q1 = (0, q2)
    \<and> link q2 = link q @ concat (map (\<lambda>(t, b). t # b) (List.zip (mbn # chain_tables (drop 53 (map sha256 fs))) (covered 53 fs)))"
proof -
  let ?ds = "map sha256 fs" and ?path = "vg_path g"
  let ?F = "chain_tables (drop 53 ?ds)"
  have ok: "digests_ok ?ds" by (simp add: digests_ok_def list_all_iff)
  have n: "vg_num g = length ?ds" "length ?ds < 10 ^ 17" using assms(3,6) by simp_all
  from chained_tables_written [OF assms(1,2) ok n(1) assms(4) n(2)] obtain
    sf: "h_files h' (path_join ?path DIGEST_TABLE_TO_SIGN_FILE) = Some (signed_content ?ds)" and
    ch: "\<And>j. j < length ?F \<Longrightarrow> h_files h' (table_path ?path j) = Some (?F ! j)"
    using assms(7) by (auto simp: table_path_def)
  from sf show "h_files h' (path_join (vg_path g) DIGEST_TABLE_TO_SIGN_FILE) = Some (signed_content (map sha256 fs))" .
  have lF: "length ?F = length (covered 255 (drop 53 fs))" by (simp add: drop_map chain_length)
  have lF32: "length ?F \<le> 32" using assms(6) unfolding lF covered_count by simp
  have opn: "opn (table_path ?path j) = (case h_files h' (table_path ?path j) of None \<Rightarrow> Inl ENOENT | Some c \<Rightarrow> Inr c)" for j
    using assms(9) [of j] by (simp add: table_path_def)
  obtain ts' where oc: "open_chained opn ?path 0 MAX_CHAINED_FILES [] = Some ([] @ map (Pair 0) (?F @ ts'))"
  proof -
    have "opn (table_path ?path j) = Inl ENOENT \<or> (\<exists>c. opn (table_path ?path j) = Inr c)" for j
      unfolding opn by (cases "h_files h' (table_path ?path j)") auto
    moreover have "opn (table_path ?path (0 + j)) = Inr (?F ! j)" if "j < length ?F" for j
      unfolding opn using ch [OF that] by simp
    ultimately show ?thesis
      using that open_chained_finds [of opn ?path ?F 0 MAX_CHAINED_FILES "[]"] lF32
      by (auto simp: MAX_CHAINED_FILES_def)
  qed
  define q1 where "q1 = q\<lparr>vip_data := (vip_data q)\<lparr>signed_table := (0, mbn),
      chained_tables := map (Pair 0) (?F @ ts'), vip_st := VIP_INIT, chained_cur := 0\<rparr>\<rparr>"
  have init: "vip_transfer_init opn ?path q = (0, q1)"
    using assms(8) oc by (simp add: vip_transfer_init_def q1_def)
  have cap: "length fs \<le> 53 + 255 * length (?F @ ts')"
  proof -
    have "length fs - 53 \<le> 255 * length ?F" unfolding lF covered_count by simp
    then show ?thesis by simp
  qed
  obtain q2 where sp: "send_packets fs q1 = (0, q2)" "link q2 = link q @ schedule (mbn # ?F @ ts') 53 fs"
    using send_packets_init [of q1 mbn "?F @ ts'" fs] assms(5) cap by (auto simp: q1_def)
  have cf: "covered 53 fs = take 53 fs # covered 255 (drop 53 fs)"
    using assms(5) by (subst covered.simps) simp
  have "List.zip ((mbn # ?F) @ ts') (covered 53 fs) = List.zip (mbn # ?F) (covered 53 fs)"
    unfolding zip_append1 using lF by (simp add: cf)
  then have "schedule (mbn # ?F @ ts') 53 fs = concat (map (\<lambda>(t, b). t # b) (List.zip (mbn # ?F) (covered 53 fs)))"
    using schedule_covered [of 53 "mbn # ?F @ ts'" fs] by simp
  then show "\<exists>q1 q2. vip_transfer_init opn (vg_path g) q = (0, q1) \<and> send_packets fs q1 = (0, q2)
    \<and> link q2 = link q @ concat (map (\<lambda>(t, b). t # b) (List.zip (mbn # chain_tables (drop 53 (map sha256 fs))) (covered 53 fs)))"
    using init sp by (intro exI [of _ q1] exI [of _ q2]) simp
qed

end
