(* ===== verification/Ufs.thy ===== *)
theory Ufs
  imports Util
begin

text \<open>
  \<open>src/ufs.c\<close>: the UFS provisioning description, its loader, and the two-pass protocol that first
  lets the device check the description and only then commits it.
\<close>

record ufs_common =
  bNumberLU :: u32
  bBootEnable :: bool
  bDescrAccessEn :: bool
  bInitPowerMode :: u32
  bHighPriorityLUN :: u32
  bSecureRemovalType :: u32
  bInitActiveICCLevel :: u32
  wPeriodicRTCUpdate :: u32
  bConfigDescrLock :: bool
  wb :: bool
  bWriteBoosterBufferPreserveUserSpaceEn :: bool
  bWriteBoosterBufferType :: bool
  shared_wb_buffer_size_in_kb :: u32

record ufs_body =
  LUNum :: u32
  bLUEnable :: bool
  bBootLunID :: u32
  size_in_kb :: u32
  bDataReliability :: u32
  bLUWriteProtect :: u32
  bMemoryType :: u32
  bLogicalBlockSize :: u32
  bProvisioningType :: u32
  wContextCapabilities :: u32
  desc :: "string option"

record ufs_epilogue =
  LUNtoGrow :: u32

record ufs_provisioning =
  ufs_common_tag :: "ufs_common option"
  ufs_epilogue_tag :: "ufs_epilogue option"
  ufs_bodies :: "ufs_body list"

definition ufs_provisioning_init :: ufs_provisioning where
  "ufs_provisioning_init = \<lparr>ufs_common_tag = None, ufs_epilogue_tag = None, ufs_bodies = []\<rparr>"

definition ufs_provisioning_cleanup :: "ufs_provisioning \<Rightarrow> ufs_provisioning" where
  "ufs_provisioning_cleanup u = \<lparr>ufs_common_tag = None, ufs_epilogue_tag = None, ufs_bodies = []\<rparr>"

definition ufs_need_provisioning :: "ufs_provisioning \<Rightarrow> bool" where
  "ufs_need_provisioning u \<longleftrightarrow> ufs_epilogue_tag u \<noteq> None"

subsection \<open>Loading\<close>

definition ufs_parse_common_params :: "xml_node \<Rightarrow> ufs_common option" where
  "ufs_parse_common_params node =
     (let (a, e1) = attr_as_unsigned node ''bNumberLU'' 0;
          (b, e2) = attr_as_unsigned node ''bBootEnable'' e1;
          (c, e3) = attr_as_unsigned node ''bDescrAccessEn'' e2;
          (d, e4) = attr_as_unsigned node ''bInitPowerMode'' e3;
          (e, e5) = attr_as_unsigned node ''bHighPriorityLUN'' e4;
          (f, e6) = attr_as_unsigned node ''bSecureRemovalType'' e5;
          (g, e7) = attr_as_unsigned node ''bInitActiveICCLevel'' e6;
          (h, e8) = attr_as_unsigned node ''wPeriodicRTCUpdate'' e7;
          (i, e9) = attr_as_unsigned node ''bConfigDescrLock'' e8
      in if e9 \<noteq> 0 then None
         else
           let (p, o1) = attr_as_unsigned node ''bWriteBoosterBufferPreserveUserSpaceEn'' 0;
               (t, o2) = attr_as_unsigned node ''bWriteBoosterBufferType'' o1;
               (k, o3) = attr_as_unsigned node ''shared_wb_buffer_size_in_kb'' o2
           in Some \<lparr>bNumberLU = a, bBootEnable = (b \<noteq> 0), bDescrAccessEn = (c \<noteq> 0), bInitPowerMode = d,
                 bHighPriorityLUN = e, bSecureRemovalType = f, bInitActiveICCLevel = g,
                 wPeriodicRTCUpdate = h, bConfigDescrLock = (i \<noteq> 0), wb = (o3 = 0),
                 bWriteBoosterBufferPreserveUserSpaceEn = (p \<noteq> 0), bWriteBoosterBufferType = (t \<noteq> 0),
                 shared_wb_buffer_size_in_kb = k\<rparr>)"

definition ufs_parse_body :: "xml_node \<Rightarrow> ufs_body option" where
  "ufs_parse_body node =
     (let (a, e1) = attr_as_unsigned node ''LUNum'' 0;
          (b, e2) = attr_as_unsigned node ''bLUEnable'' e1;
          (c, e3) = attr_as_unsigned node ''bBootLunID'' e2;
          (d, e4) = attr_as_unsigned node ''size_in_kb'' e3;
          (e, e5) = attr_as_unsigned node ''bDataReliability'' e4;
          (f, e6) = attr_as_unsigned node ''bLUWriteProtect'' e5;
          (g, e7) = attr_as_unsigned node ''bMemoryType'' e6;
          (h, e8) = attr_as_unsigned node ''bLogicalBlockSize'' e7;
          (i, e9) = attr_as_unsigned node ''bProvisioningType'' e8;
          (j, e10) = attr_as_unsigned node ''wContextCapabilities'' e9;
          (s, e11) = attr_as_string node ''desc'' e10
      in if e11 \<noteq> 0 then None
         else Some \<lparr>LUNum = a, bLUEnable = (b \<noteq> 0), bBootLunID = c, size_in_kb = d, bDataReliability = e,
                bLUWriteProtect = f, bMemoryType = g, bLogicalBlockSize = h, bProvisioningType = i,
                wContextCapabilities = j, desc = s\<rparr>)"

definition ufs_parse_epilogue :: "xml_node \<Rightarrow> ufs_epilogue option" where
  "ufs_parse_epilogue node =
     (let (a, e1) = attr_as_unsigned node ''LUNtoGrow'' 0
      in if e1 \<noteq> 0 then None else Some \<lparr>LUNtoGrow = a\<rparr>)"

text \<open>One \<open>ufs\<close> tag, and the loop over the tags.\<close>

definition ufs_load_tag :: "ufs_provisioning \<Rightarrow> xml_node \<Rightarrow> int \<times> ufs_provisioning" where
  "ufs_load_tag u node =
     (if xn_get node ''bNumberLU'' \<noteq> None then
        (if ufs_common_tag u \<noteq> None then (- EINVAL, u)
         else case ufs_parse_common_params node of
           None \<Rightarrow> (- EINVAL, u)
         | Some c \<Rightarrow> (0, u\<lparr>ufs_common_tag := Some c\<rparr>))
      else if xn_get node ''LUNum'' \<noteq> None then
        (case ufs_parse_body node of
           None \<Rightarrow> (- EINVAL, u)
         | Some b \<Rightarrow> (0, u\<lparr>ufs_bodies := ufs_bodies u @ [b]\<rparr>))
      else if xn_get node ''commit'' \<noteq> None then
        (if ufs_epilogue_tag u \<noteq> None then (- EINVAL, u)
         else case ufs_parse_epilogue node of
           None \<Rightarrow> (- EINVAL, u)
         | Some e \<Rightarrow> (0, u\<lparr>ufs_epilogue_tag := Some e\<rparr>))
      else (- EINVAL, u))"

fun ufs_load_nodes :: "ufs_provisioning \<Rightarrow> xml_node list \<Rightarrow> int \<times> ufs_provisioning" where
  "ufs_load_nodes u [] = (0, u)"
| "ufs_load_nodes u (node # nodes) =
     (if \<not> xn_element node then ufs_load_nodes u nodes
      else if xn_name node \<noteq> ''ufs'' then ufs_load_nodes u nodes
      else case ufs_load_tag u node of
        (r, u') \<Rightarrow> if r \<noteq> 0 then (r, u') else ufs_load_nodes u' nodes)"

text \<open>\<open>doc\<close> is what \<open>xmlReadFile\<close> gives: the children of the root element.\<close>

definition ufs_load :: "ufs_provisioning \<Rightarrow> xml_node list option \<Rightarrow> bool \<Rightarrow> int \<times> ufs_provisioning" where
  "ufs_load u doc finalize =
     (if ufs_common_tag u \<noteq> None then (- EEXIST, u)
      else case doc of
        None \<Rightarrow> (- EINVAL, u)
      | Some nodes \<Rightarrow>
          (case ufs_load_nodes u nodes of
             (r0, u1) \<Rightarrow>
               let r1 = (if r0 = 0 \<and> (ufs_common_tag u1 = None \<or> ufs_bodies u1 = [] \<or> ufs_epilogue_tag u1 = None)
                         then - EINVAL else r0);
                   r2 = (if r1 = 0 \<and> finalize \<noteq> bConfigDescrLock (the (ufs_common_tag u1)) then - EINVAL else r1)
               in (r2, if r2 \<noteq> 0 then ufs_provisioning_cleanup u1 else u1)))"

subsection \<open>Executing\<close>

text \<open>
  The callbacks are arguments; the five-second warning before a locking provisioning is output
  only. \<open>ufs_provisioning_execute\<close> is entered with a loaded description, so the tags are there.
\<close>

fun apply_bodies :: "(ufs_body \<Rightarrow> ('s, int) som) \<Rightarrow> ufs_body list \<Rightarrow> ('s, int) som" where
  "apply_bodies ab [] = sret 0"
| "apply_bodies ab (b # bs) = sbind (ab b) (\<lambda>ret. if ret \<noteq> 0 then sret ret else apply_bodies ab bs)"

definition ufs_pass ::
  "(ufs_common \<Rightarrow> ('s, int) som) \<Rightarrow> (ufs_body \<Rightarrow> ('s, int) som) \<Rightarrow> (ufs_epilogue \<Rightarrow> bool \<Rightarrow> ('s, int) som)
    \<Rightarrow> ufs_provisioning \<Rightarrow> bool \<Rightarrow> ('s, int) som" where
  "ufs_pass ac ab ae u commit =
     sbind (ac (the (ufs_common_tag u))) (\<lambda>ret.
       if ret \<noteq> 0 then sret ret
       else sbind (apply_bodies ab (ufs_bodies u)) (\<lambda>ret.
         if ret \<noteq> 0 then sret ret else ae (the (ufs_epilogue_tag u)) commit))"

definition ufs_provisioning_execute ::
  "ufs_provisioning \<Rightarrow> (ufs_common \<Rightarrow> ('s, int) som) \<Rightarrow> (ufs_body \<Rightarrow> ('s, int) som)
    \<Rightarrow> (ufs_epilogue \<Rightarrow> bool \<Rightarrow> ('s, int) som) \<Rightarrow> ('s, int) som" where
  "ufs_provisioning_execute u ac ab ae =
     sbind (ufs_pass ac ab ae u False) (\<lambda>ret. if ret \<noteq> 0 then sret ret else ufs_pass ac ab ae u True)"

end
