(* ===== verification/UfsProps.thy ===== *)
theory UfsProps
  imports Ufs
begin

text \<open>
  What \<open>ufs_load\<close> accepts, and the order of the two provisioning passes.
\<close>

subsection \<open>Loading a description\<close>

text \<open>The tags that count, and the three kinds of them, told apart by an attribute.\<close>

definition ufs_tags :: "xml_node list \<Rightarrow> xml_node list" where
  "ufs_tags nodes = filter (\<lambda>n. xn_element n \<and> xn_name n = ''ufs'') nodes"

definition common_tag :: "xml_node \<Rightarrow> bool" where
  "common_tag n \<longleftrightarrow> xn_get n ''bNumberLU'' \<noteq> None"

definition body_tag :: "xml_node \<Rightarrow> bool" where
  "body_tag n \<longleftrightarrow> \<not> common_tag n \<and> xn_get n ''LUNum'' \<noteq> None"

definition epilogue_tag :: "xml_node \<Rightarrow> bool" where
  "epilogue_tag n \<longleftrightarrow> \<not> common_tag n \<and> \<not> body_tag n \<and> xn_get n ''commit'' \<noteq> None"

text \<open>The description the tags give: every one must be of a kind and parse, none of the single ones twice.\<close>

definition parsed_tags :: "xml_node list \<Rightarrow> bool" where
  "parsed_tags tags \<longleftrightarrow> (\<forall>n \<in> set tags.
     if common_tag n then ufs_parse_common_params n \<noteq> None
     else if body_tag n then ufs_parse_body n \<noteq> None
     else epilogue_tag n \<and> ufs_parse_epilogue n \<noteq> None)"

definition described :: "xml_node list \<Rightarrow> ufs_provisioning" where
  "described tags =
     \<lparr>ufs_common_tag = (case filter common_tag tags of [] \<Rightarrow> None | n # _ \<Rightarrow> ufs_parse_common_params n),
      ufs_epilogue_tag = (case filter epilogue_tag tags of [] \<Rightarrow> None | n # _ \<Rightarrow> ufs_parse_epilogue n),
      ufs_bodies = map (\<lambda>n. the (ufs_parse_body n)) (filter body_tag tags)\<rparr>"

definition single_tags :: "xml_node list \<Rightarrow> bool" where
  "single_tags tags \<longleftrightarrow> length (filter common_tag tags) \<le> 1 \<and> length (filter epilogue_tag tags) \<le> 1"

lemma load_nodes_tags: "ufs_load_nodes u nodes = ufs_load_nodes u (ufs_tags nodes)"
  by (induction nodes arbitrary: u) (auto simp: ufs_tags_def split: prod.split)

lemma tag_kinds:
  "body_tag n \<Longrightarrow> \<not> common_tag n" "epilogue_tag n \<Longrightarrow> \<not> common_tag n \<and> \<not> body_tag n"
  by (auto simp: body_tag_def epilogue_tag_def)

lemma load_tag_cases:
  "ufs_load_tag u n =
     (if common_tag n then
        (if ufs_common_tag u \<noteq> None \<or> ufs_parse_common_params n = None then (- EINVAL, u)
         else (0, u\<lparr>ufs_common_tag := ufs_parse_common_params n\<rparr>))
      else if body_tag n then
        (if ufs_parse_body n = None then (- EINVAL, u)
         else (0, u\<lparr>ufs_bodies := ufs_bodies u @ [the (ufs_parse_body n)]\<rparr>))
      else if epilogue_tag n then
        (if ufs_epilogue_tag u \<noteq> None \<or> ufs_parse_epilogue n = None then (- EINVAL, u)
         else (0, u\<lparr>ufs_epilogue_tag := ufs_parse_epilogue n\<rparr>))
      else (- EINVAL, u))"
  by (auto simp: ufs_load_tag_def common_tag_def body_tag_def epilogue_tag_def split: option.splits)

lemma parsed_common: "parsed_tags tags \<Longrightarrow> n \<in> set tags \<Longrightarrow> common_tag n \<Longrightarrow> ufs_parse_common_params n \<noteq> None"
  unfolding parsed_tags_def by (drule (1) bspec) simp

lemma parsed_epilogue: "parsed_tags tags \<Longrightarrow> n \<in> set tags \<Longrightarrow> epilogue_tag n \<Longrightarrow> ufs_parse_epilogue n \<noteq> None"
  unfolding parsed_tags_def by (drule (1) bspec) (simp add: tag_kinds)

text \<open>The state after the tags \<open>pre\<close>, all of them accepted.\<close>

lemma described_snoc:
  assumes "single_tags pre" "parsed_tags pre"
  shows "ufs_load_tag (described pre) n =
    (if single_tags (pre @ [n]) \<and> parsed_tags (pre @ [n]) then (0, described (pre @ [n])) else (- EINVAL, described pre))"
proof -
  have c: "ufs_common_tag (described pre) = None \<longleftrightarrow> filter common_tag pre = []"
  proof (cases "filter common_tag pre")
    case (Cons m ms)
    then have "m \<in> set (filter common_tag pre)" by simp
    then have "ufs_parse_common_params m \<noteq> None" using parsed_common [OF assms(2)] by simp
    then show ?thesis using Cons by (simp add: described_def)
  qed (simp add: described_def)
  have e: "ufs_epilogue_tag (described pre) = None \<longleftrightarrow> filter epilogue_tag pre = []"
  proof (cases "filter epilogue_tag pre")
    case (Cons m ms)
    then have "m \<in> set (filter epilogue_tag pre)" by simp
    then have "ufs_parse_epilogue m \<noteq> None" using parsed_epilogue [OF assms(2)] by simp
    then show ?thesis using Cons by (simp add: described_def)
  qed (simp add: described_def)
  consider "common_tag n" | "body_tag n" "\<not> common_tag n" | "epilogue_tag n" "\<not> common_tag n" "\<not> body_tag n"
    | "\<not> common_tag n" "\<not> body_tag n" "\<not> epilogue_tag n"
    using tag_kinds by blast
  then show ?thesis
  proof cases
    case 1
    then have "\<not> body_tag n" "\<not> epilogue_tag n" using tag_kinds by blast+
    then show ?thesis using 1 c assms
      by (cases "filter common_tag pre")
        (auto simp: load_tag_cases single_tags_def parsed_tags_def described_def)
  next
    case 2
    then have "\<not> epilogue_tag n" using tag_kinds by blast
    then show ?thesis using 2 assms
      by (auto simp: load_tag_cases single_tags_def parsed_tags_def described_def)
  next
    case 3
    then show ?thesis using e assms
      by (cases "filter epilogue_tag pre")
        (auto simp: load_tag_cases single_tags_def parsed_tags_def described_def)
  next
    case 4
    then show ?thesis by (simp add: load_tag_cases parsed_tags_def)
  qed
qed

lemma single_prefix: "single_tags (pre @ rest) \<Longrightarrow> single_tags pre"
  by (auto simp: single_tags_def)

lemma parsed_prefix: "parsed_tags (pre @ rest) \<Longrightarrow> parsed_tags pre"
  by (simp add: parsed_tags_def)

lemma load_nodes_described:
  "\<forall>n \<in> set tags. xn_element n \<and> xn_name n = ''ufs'' \<Longrightarrow> single_tags pre \<Longrightarrow> parsed_tags pre \<Longrightarrow>
   (single_tags (pre @ tags) \<and> parsed_tags (pre @ tags)
      \<and> ufs_load_nodes (described pre) tags = (0, described (pre @ tags)))
   \<or> (\<not> (single_tags (pre @ tags) \<and> parsed_tags (pre @ tags)) \<and> fst (ufs_load_nodes (described pre) tags) = - EINVAL)"
proof (induction tags arbitrary: pre)
  case (Cons n tags)
  show ?case
  proof (cases "single_tags (pre @ [n]) \<and> parsed_tags (pre @ [n])")
    case True
    have "ufs_load_tag (described pre) n = (0, described (pre @ [n]))"
      using described_snoc [OF Cons.prems(2,3), of n] True by simp
    then have load: "ufs_load_nodes (described pre) (n # tags) = ufs_load_nodes (described (pre @ [n])) tags"
      using Cons.prems(1) by simp
    have "\<forall>n \<in> set tags. xn_element n \<and> xn_name n = ''ufs''" using Cons.prems(1) by simp
    from Cons.IH [OF this, of "pre @ [n]"] True show ?thesis unfolding load by simp
  next
    case False
    then have "\<not> (single_tags (pre @ n # tags) \<and> parsed_tags (pre @ n # tags))"
      using single_prefix [of "pre @ [n]" tags] parsed_prefix [of "pre @ [n]" tags] by auto
    moreover have "ufs_load_tag (described pre) n = (- EINVAL, described pre)"
      unfolding described_snoc [OF Cons.prems(2,3)] using False by (rule if_not_P)
    then have "fst (ufs_load_nodes (described pre) (n # tags)) = - EINVAL" using Cons.prems(1) by simp
    ultimately show ?thesis by blast
  qed
qed simp

text \<open>
  C25: What a provisioning file must be. Loading into an empty description succeeds exactly when every
  \<open>ufs\<close> tag is of one of the three kinds and complete, exactly one is the common tag, exactly one
  the commit tag and at least one a LUN, and the file's \<open>bConfigDescrLock\<close> is what the command line
  asked for; the description then holds the tags' values, the LUNs in file order. Otherwise the result
  is an error and the description is empty again, so nothing of a refused file is ever applied.
\<close>

theorem ufs_load_all_or_nothing:
  "ufs_load ufs_provisioning_init (Some nodes) finalize =
     (let tags = ufs_tags nodes in
      if parsed_tags tags \<and> length (filter common_tag tags) = 1 \<and> length (filter epilogue_tag tags) = 1
         \<and> filter body_tag tags \<noteq> []
         \<and> bConfigDescrLock (the (ufs_parse_common_params (hd (filter common_tag tags)))) = finalize
      then (0, described tags) else (- EINVAL, ufs_provisioning_init))"
proof -
  define tags where "tags = ufs_tags nodes"
  have init: "ufs_provisioning_init = described []" by (simp add: ufs_provisioning_init_def described_def)
  have cl: "ufs_provisioning_cleanup u = described []" for u
    by (simp add: ufs_provisioning_cleanup_def described_def)
  have ufs: "\<forall>n \<in> set tags. xn_element n \<and> xn_name n = ''ufs''" by (simp add: tags_def ufs_tags_def)
  obtain r u where ru: "ufs_load_nodes (described []) tags = (r, u)" by fastforce
  have "single_tags []" "parsed_tags []" by (simp_all add: single_tags_def parsed_tags_def)
  then consider (ok) "single_tags tags" "parsed_tags tags" "r = 0" "u = described tags"
    | (bad) "\<not> (single_tags tags \<and> parsed_tags tags)" "r = - EINVAL"
    using load_nodes_described [OF ufs, of "[]"] ru by auto
  then have "ufs_load (described []) (Some nodes) finalize =
     (if parsed_tags tags \<and> length (filter common_tag tags) = 1 \<and> length (filter epilogue_tag tags) = 1
         \<and> filter body_tag tags \<noteq> []
         \<and> bConfigDescrLock (the (ufs_parse_common_params (hd (filter common_tag tags)))) = finalize
      then (0, described tags) else (- EINVAL, described []))"
  proof cases
    case ok
    have c: "n \<in> set (filter common_tag tags) \<Longrightarrow> ufs_parse_common_params n \<noteq> None"
      and e: "n \<in> set (filter epilogue_tag tags) \<Longrightarrow> ufs_parse_epilogue n \<noteq> None" for n
      using parsed_common [OF ok(2)] parsed_epilogue [OF ok(2)] by simp_all
    show ?thesis
      using ok ru c e
      by (cases "filter common_tag tags"; cases "filter epilogue_tag tags")
        (auto simp: ufs_load_def load_nodes_tags [of _ nodes] tags_def [symmetric] cl described_def single_tags_def Let_def)
  next
    case bad
    then show ?thesis using ru
      by (auto simp: ufs_load_def load_nodes_tags [of _ nodes] tags_def [symmetric] cl described_def single_tags_def Let_def)
  qed
  then show ?thesis by (simp add: init tags_def Let_def)
qed

subsection \<open>The two passes\<close>

text \<open>The calls the execution makes to its three callbacks, and a callback that keeps a log of them.\<close>

datatype ufs_call = Call_Common ufs_common | Call_Body ufs_body | Call_Epilogue ufs_epilogue bool

definition pass_calls :: "ufs_provisioning \<Rightarrow> bool \<Rightarrow> ufs_call list" where
  "pass_calls u commit = Call_Common (the (ufs_common_tag u)) # map Call_Body (ufs_bodies u)
     @ [Call_Epilogue (the (ufs_epilogue_tag u)) commit]"

definition logged :: "(ufs_call \<Rightarrow> ('s, int) som) \<Rightarrow> ufs_call \<Rightarrow> ('s \<times> (ufs_call \<times> int) list, int) som" where
  "logged f c = (\<lambda>(s, L). case f c s of None \<Rightarrow> None | Some (r, s') \<Rightarrow> Some (r, (s', L @ [(c, r)])))"

definition provision_log ::
  "ufs_provisioning \<Rightarrow> (ufs_call \<Rightarrow> ('s, int) som) \<Rightarrow> 's \<Rightarrow> (int \<times> 's \<times> (ufs_call \<times> int) list) option" where
  "provision_log u f s =
     ufs_provisioning_execute u (\<lambda>c. logged f (Call_Common c)) (\<lambda>b. logged f (Call_Body b))
       (\<lambda>e commit. logged f (Call_Epilogue e commit)) (s, [])"

text \<open>Both passes are one script, run until a call refuses.\<close>

fun run_calls :: "(ufs_call \<Rightarrow> ('s, int) som) \<Rightarrow> ufs_call list \<Rightarrow> ('s, int) som" where
  "run_calls f [] s = Some (0, s)"
| "run_calls f (c # cs) s =
     (case f c s of None \<Rightarrow> None | Some (r, s') \<Rightarrow> if r \<noteq> 0 then Some (r, s') else run_calls f cs s')"

lemma run_calls_append:
  "run_calls f (xs @ ys) s =
     (case run_calls f xs s of None \<Rightarrow> None | Some (r, s') \<Rightarrow> if r \<noteq> 0 then Some (r, s') else run_calls f ys s')"
  by (induction xs arbitrary: s) (auto split: option.split prod.split)

lemma apply_bodies_calls: "apply_bodies (\<lambda>b. f (Call_Body b)) bs s = run_calls f (map Call_Body bs) s"
  by (induction bs arbitrary: s) (auto simp: sbind_def sret_def split: option.split prod.split)

lemma run_calls_single: "run_calls f [c] s = f c s"
  by (auto split: option.split prod.split)

lemma ufs_pass_calls:
  "ufs_pass (\<lambda>c. f (Call_Common c)) (\<lambda>b. f (Call_Body b)) (\<lambda>e commit. f (Call_Epilogue e commit)) u commit s
     = run_calls f (pass_calls u commit) s"
  by (auto simp: ufs_pass_def pass_calls_def run_calls_append apply_bodies_calls run_calls_single sbind_def sret_def
      simp del: run_calls.simps(2) split: option.split prod.split)
    (auto simp: run_calls_append run_calls_single split: option.splits prod.splits)

lemma provision_log_calls:
  "provision_log u f s = run_calls (logged f) (pass_calls u False @ pass_calls u True) (s, [])"
  by (auto simp: provision_log_def ufs_provisioning_execute_def sbind_def sret_def ufs_pass_calls run_calls_append
      split: option.split prod.split)

lemma logged_step: "logged f c (s, L) = (case f c s of None \<Rightarrow> None | Some (r, s') \<Rightarrow> Some (r, (s', L @ [(c, r)])))"
  by (simp add: logged_def)

text \<open>A run's log is a prefix of the script in which only the last call may refuse.\<close>

lemma run_calls_log:
  "run_calls (logged f) cs (s, L) = Some (ret, s', L') \<Longrightarrow>
   \<exists>M. L' = L @ M \<and> (\<exists>k \<le> length cs. map fst M = take k cs \<and> (ret = 0 \<longrightarrow> k = length cs))
     \<and> (\<forall>x \<in> set (butlast M). snd x = 0) \<and> (cs \<noteq> [] \<longrightarrow> M \<noteq> [] \<and> snd (last M) = ret)"
proof (induction cs arbitrary: s L)
  case (Cons c cs)
  obtain r t where f: "f c s = Some (r, t)"
    using Cons.prems by (auto simp: logged_def split: option.splits)
  show ?case
  proof (cases "r = 0")
    case False
    then have "L' = L @ [(c, r)]" "ret = r" using Cons.prems f by (auto simp: logged_def)
    then show ?thesis using False by (intro exI [of _ "[(c, r)]"]) (auto intro!: exI [of _ 1])
  next
    case True
    then have "run_calls (logged f) cs (t, L @ [(c, 0)]) = Some (ret, s', L')"
      using Cons.prems f logged_step [of f c s L] by simp
    from Cons.IH [OF this] obtain M k where M: "L' = (L @ [(c, 0)]) @ M" "k \<le> length cs" "map fst M = take k cs"
      "ret = 0 \<longrightarrow> k = length cs" "\<forall>x \<in> set (butlast M). snd x = 0" "cs \<noteq> [] \<longrightarrow> M \<noteq> [] \<and> snd (last M) = ret"
      by blast
    have "cs = [] \<Longrightarrow> ret = 0 \<and> M = []"
      using \<open>run_calls (logged f) cs (t, L @ [(c, 0)]) = Some (ret, s', L')\<close> M by simp
    then show ?thesis using M
      by (intro exI [of _ "(c, 0) # M"] conjI exI [of _ "Suc k"]) (auto split: if_splits)
  qed
qed simp

text \<open>
  C24: Commit only what the device has checked. Whatever the callbacks do, the calls of an execution
  are, in order, a prefix of the whole description with commit off and the whole description again
  with commit on; every call but the last returned 0 and the result is what the last returned, 0 only
  at the end of the script. So if the committing epilogue is sent at all, the checking pass was sent
  completely before it and every call of it was accepted.
\<close>

theorem ufs_commit_after_check:
  assumes "provision_log u f s = Some (ret, s', L)"
  shows "(\<exists>k. map fst L = take k (pass_calls u False @ pass_calls u True))
    \<and> L \<noteq> [] \<and> snd (last L) = ret \<and> (\<forall>x \<in> set (butlast L). snd x = 0)
    \<and> (ret = 0 \<longrightarrow> map fst L = pass_calls u False @ pass_calls u True)
    \<and> ((\<exists>e r. (Call_Epilogue e True, r) \<in> set L) \<longrightarrow>
         (\<exists>A B. L = A @ B \<and> B \<noteq> [] \<and> map fst A = pass_calls u False \<and> (\<forall>x \<in> set A. snd x = 0)))"
proof -
  let ?A = "pass_calls u False" and ?B = "pass_calls u True"
  have ne: "?A @ ?B \<noteq> []" by (simp add: pass_calls_def)
  obtain k where k: "k \<le> length (?A @ ?B)" "map fst L = take k (?A @ ?B)" "ret = 0 \<longrightarrow> k = length (?A @ ?B)"
    and L: "\<forall>x \<in> set (butlast L). snd x = 0" "L \<noteq> []" "snd (last L) = ret"
    using run_calls_log [of f "?A @ ?B" s "[]" ret s' L] assms ne unfolding provision_log_calls by auto
  have "\<exists>A B. L = A @ B \<and> B \<noteq> [] \<and> map fst A = ?A \<and> (\<forall>x \<in> set A. snd x = 0)"
    if c: "(Call_Epilogue e True, r) \<in> set L" for e r
  proof -
    have "Call_Epilogue e True \<in> set (take k (?A @ ?B))" using c k(2) by (metis fst_conv image_eqI list.set_map)
    moreover have "Call_Epilogue e True \<notin> set ?A" by (auto simp: pass_calls_def)
    ultimately have lk: "length ?A < k" by (metis append.right_neutral diff_is_0_eq in_set_takeD linorder_not_le take0 take_append)
    let ?M = "take (length ?A) L" and ?N = "drop (length ?A) L"
    have "length L = k" using k(1,2) by (metis length_map length_take min.absorb2)
    then have N: "?N \<noteq> []" using lk by simp
    have "map fst ?M = ?A" using k(2) lk by (metis append_eq_conv_conj less_imp_le_nat min.absorb1 take_map take_take)
    moreover have "snd x = 0" if "x \<in> set ?M" for x
    proof -
      have "L = ?M @ ?N" by simp
      then have "butlast L = ?M @ butlast ?N" using N by (metis butlast_append)
      then show ?thesis using L(1) that by auto
    qed
    ultimately show ?thesis using N by (intro exI [of _ ?M] exI [of _ ?N]) simp
  qed
  then show ?thesis using k L by auto
qed

text \<open>A device that refuses the second LUN while checking.\<close>

definition ex_lun :: "u32 \<Rightarrow> ufs_body" where
  "ex_lun n = \<lparr>LUNum = n, bLUEnable = True, bBootLunID = 0, size_in_kb = 4096, bDataReliability = 0, bLUWriteProtect = 0,
     bMemoryType = 0, bLogicalBlockSize = 12, bProvisioningType = 2, wContextCapabilities = 0, desc = None\<rparr>"

definition ex_ufs :: ufs_provisioning where
  "ex_ufs = \<lparr>ufs_common_tag = Some \<lparr>bNumberLU = 2, bBootEnable = True, bDescrAccessEn = False, bInitPowerMode = 1,
       bHighPriorityLUN = 0, bSecureRemovalType = 0, bInitActiveICCLevel = 0, wPeriodicRTCUpdate = 0,
       bConfigDescrLock = False, wb = False, bWriteBoosterBufferPreserveUserSpaceEn = False,
       bWriteBoosterBufferType = False, shared_wb_buffer_size_in_kb = 0\<rparr>,
     ufs_epilogue_tag = Some \<lparr>LUNtoGrow = 0\<rparr>, ufs_bodies = [ex_lun 0, ex_lun 1]\<rparr>"

definition ex_refuse :: "ufs_call \<Rightarrow> (unit, int) som" where
  "ex_refuse c s = Some (if c = Call_Body (ex_lun 1) then -1 else 0, s)"

lemma ufs_commit_after_check_witness:
  "\<exists>L. provision_log ex_ufs ex_refuse () = Some (-1, (), L) \<and> length L = 3 \<and> snd (last L) = -1
    \<and> (\<forall>x \<in> set (butlast L). snd x = 0)"
proof -
  have ne: "ex_lun 0 \<noteq> ex_lun 1" by (simp add: ex_lun_def)
  let ?L = "[(Call_Common (the (ufs_common_tag ex_ufs)), 0), (Call_Body (ex_lun 0), 0), (Call_Body (ex_lun 1), - 1 :: int)]"
  have r: "provision_log ex_ufs ex_refuse () = Some (-1, (), ?L)"
    using ne by (simp add: provision_log_calls pass_calls_def logged_def ex_refuse_def ex_ufs_def)
  from ufs_commit_after_check [OF r] show ?thesis unfolding r by auto
qed

end
