(* ===== verification/FhMsg.thy ===== *)
theory FhMsg
  imports Gpt Vip
begin

text \<open>
  The message layer of \<open>src/firehose.c\<close>: XML requests and responses over a device that may
  fragment, concatenate and delay them. libxml2, the transport and the clock are fields of an
  environment record; a session's state is the device handle with the digest generator, the host's
  files, the statistics and the loaded partition tables. Loops that wait for the device take fuel,
  and running out of it is the result \<open>None\<close>.
\<close>

subsection \<open>State and environment\<close>

record firehose_stats =
  st_flashed :: nat
  st_skipped :: nat
  st_read :: nat
  st_erased :: nat
  st_patches :: nat
  st_bytes_written :: nat

definition stats_zero :: firehose_stats where
  "stats_zero = \<lparr>st_flashed = 0, st_skipped = 0, st_read = 0, st_erased = 0, st_patches = 0, st_bytes_written = 0\<rparr>"

record 'd fh =
  fh_dev :: "'d qdl_device"
  fh_gen :: "vip_table_generator option"
  fh_host :: host
  fh_stats :: firehose_stats
  fh_gpt :: "gpt_partition list"

text \<open>
  A parsed document is the list of its top-level nodes, each with its children. \<open>env_dump\<close> is
  \<open>xmlDocDumpMemory\<close> of a document whose root \<open>data\<close> has one child with the given name and
  attributes; \<open>env_clock\<close> is the time \<open>gettimeofday\<close> gives, in microseconds; \<open>env_stk\<close> is what an
  uninitialised local buffer holds.
\<close>

type_synonym xml_doc = "(xml_node \<times> xml_node list) list"
type_synonym xml_attrs = "(string \<times> string) list"

record 'd fh_env =
  env_tr :: "'d transport"
  env_clock :: "'d \<Rightarrow> nat"
  env_xml :: "u8 list \<Rightarrow> xml_doc option"
  env_dump :: "string \<Rightarrow> xml_attrs \<Rightarrow> u8 list"
  env_fs :: file_system
  env_stk :: "u8 list"

definition FIREHOSE_ACK :: int where "FIREHOSE_ACK = 0"
definition FIREHOSE_NAK :: int where "FIREHOSE_NAK = 1"

subsection \<open>Response parsers\<close>

text \<open>\<open>strstr\<close>: the position of the first occurrence.\<close>

fun find_sub :: "'a list \<Rightarrow> 'a list \<Rightarrow> nat option" where
  "find_sub pat [] = (if pat = [] then Some 0 else None)"
| "find_sub pat (x # xs) =
     (if take (length pat) (x # xs) = pat then Some 0 else map_option Suc (find_sub pat xs))"

abbreviation VIP_PROGRAMMER_MARKER :: string where
  "VIP_PROGRAMMER_MARKER \<equiv> ''VIP is enabled, receiving the signed table''"

definition firehose_check_vip_marker :: "'d qdl_device \<Rightarrow> xml_node \<Rightarrow> 'd qdl_device" where
  "firehose_check_vip_marker q node =
     (if programmer_requires_vip (vip_data q) then q
      else if xn_name node \<noteq> ''log'' then q
      else case xn_get node ''value'' of
        None \<Rightarrow> q
      | Some v \<Rightarrow> if find_sub VIP_PROGRAMMER_MARKER v \<noteq> None
                  then upd_vip (\<lambda>v. v\<lparr>programmer_requires_vip := True\<rparr>) q else q)"

text \<open>\<open>firehose_response_parse\<close>: the first element below the \<open>data\<close> element, or an errno.\<close>

definition firehose_response_parse :: "'d fh_env \<Rightarrow> u8 list \<Rightarrow> int + xml_node" where
  "firehose_response_parse E buf =
     (case env_xml E buf of
        None \<Rightarrow> Inl (- EINVAL)
      | Some doc \<Rightarrow>
          (case find (\<lambda>(n, ch). xn_element n \<and> xn_name n = ''data'') doc of
             None \<Rightarrow> Inl (- EINVAL)
           | Some (n, ch) \<Rightarrow> (case find xn_element ch of None \<Rightarrow> Inl (- EINVAL) | Some e \<Rightarrow> Inr e)))"

text \<open>
  A response parser takes the data it accumulates, the node and the raw mode flag, and gives its
  return value and the updated data and flag.
\<close>

type_synonym 'a response_parser = "'a \<Rightarrow> xml_node \<Rightarrow> bool \<Rightarrow> int \<times> 'a \<times> bool"

definition firehose_generic_parser :: "'a response_parser" where
  "firehose_generic_parser data node rawmode =
     (case xn_get node ''value'' of
        None \<Rightarrow> (- EINVAL, data, rawmode)
      | Some v \<Rightarrow>
          (if xn_name node = ''log'' then - EAGAIN
           else if v = ''ACK'' then FIREHOSE_ACK
           else if v = ''NAK'' then FIREHOSE_NAK
           else - EINVAL,
           data,
           (case xn_get node ''rawmode'' of None \<Rightarrow> rawmode | Some r \<Rightarrow> rawmode \<or> r = ''true'')))"

text \<open>\<open>extract_sha256_hex\<close>: the first maximal run of hex digits with exactly 64 of them.\<close>

function extract_sha256_hex :: "string \<Rightarrow> u8 list option" where
  "extract_sha256_hex p =
     (let s = dropWhile (\<lambda>c. \<not> c_isxdigit c) p;
          run = takeWhile c_isxdigit s
      in if length run = 64
         then Some (map (\<lambda>i. of_nat (16 * digit_val (run ! (2 * i)) + digit_val (run ! (2 * i + 1)))) [0..<32])
         else if s = [] then None
         else extract_sha256_hex (dropWhile c_isxdigit s))"
  by pat_completeness auto
termination
proof (relation "measure length", goal_cases)
  case (2 p s run)
  have "c_isxdigit (hd s)" using 2 hd_dropWhile [of "\<lambda>c. \<not> c_isxdigit c" p] by (auto simp: dropWhile_eq_Nil_conv)
  then have "length (dropWhile c_isxdigit s) < length s"
    using 2(4) by (cases s) (auto simp: length_dropWhile_le le_imp_less_Suc)
  also have "\<dots> \<le> length p" using 2(1) by (simp add: length_dropWhile_le)
  finally show ?case by simp
qed simp

declare extract_sha256_hex.simps [simp del]

definition take_digest :: "firehose_op \<Rightarrow> string option \<Rightarrow> firehose_op" where
  "take_digest op v =
     (if op_digest_valid op then op
      else case v of
        None \<Rightarrow> op
      | Some s \<Rightarrow> (case extract_sha256_hex s of
            None \<Rightarrow> op | Some d \<Rightarrow> op\<lparr>op_digest := d, op_digest_valid := True\<rparr>))"

definition firehose_sha256_parser :: "firehose_op response_parser" where
  "firehose_sha256_parser op node rawmode =
     (if xn_name node = ''log'' then
        (case xn_get node ''value'' of
           None \<Rightarrow> (- EINVAL, op, rawmode)
         | Some v \<Rightarrow> (- EAGAIN, take_digest op (Some v), rawmode))
      else
        (case firehose_generic_parser op node rawmode of
           (ret, op1, raw1) \<Rightarrow>
             (ret, foldl (\<lambda>o1 a. take_digest o1 (xn_get node a)) op1 [''Digest'', ''SHA256'', ''sha256''], raw1)))"

definition firehose_configure_response_parser :: "nat response_parser" where
  "firehose_configure_response_parser data node rawmode =
     (case xn_get node ''value'' of
        None \<Rightarrow> (- EINVAL, data, rawmode)
      | Some v \<Rightarrow>
          if xn_name node = ''log'' then (- EAGAIN, data, rawmode)
          else case xn_get node ''MaxPayloadSizeToTargetInBytes'' of
            None \<Rightarrow> (- EINVAL, data, rawmode)
          | Some p \<Rightarrow>
              if v = ''ACK'' then
                (case xn_get node ''MaxPayloadSizeToTargetInBytesSupported'' of
                   None \<Rightarrow> (- EINVAL, data, rawmode)
                 | Some p2 \<Rightarrow> (FIREHOSE_ACK, unat (strtoul_val 10 p2), rawmode))
              else (FIREHOSE_ACK, unat (strtoul_val 10 p), rawmode))"

subsection \<open>Reading responses\<close>

text \<open>The C string at the front of a byte buffer, up to its first NUL.\<close>

definition c_bytes :: "u8 list \<Rightarrow> u8 list" where
  "c_bytes bs = takeWhile (\<lambda>b. b \<noteq> 0) bs"

abbreviation xml_open :: "u8 list" where "xml_open \<equiv> [60, 63, 120, 109, 108]"
abbreviation data_close :: "u8 list" where "data_close \<equiv> [60, 47, 100, 97, 116, 97, 62]"

text \<open>
  The next document in the buffer: the bytes from \<open><?xml\<close> through \<open></data>\<close>, or all the rest
  when the closing tag is missing, and what follows them.
\<close>

definition next_document :: "u8 list \<Rightarrow> (u8 list \<times> u8 list) option" where
  "next_document buf =
     (case find_sub xml_open (c_bytes buf) of
        None \<Rightarrow> None
      | Some i \<Rightarrow>
          let start = drop i buf;
              chunk = (case find_sub data_close (c_bytes start) of
                         Some j \<Rightarrow> j + 7 | None \<Rightarrow> length start)
          in Some (take chunk start, drop chunk start))"

lemma find_sub_less: "find_sub pat xs = Some i \<Longrightarrow> pat \<noteq> [] \<Longrightarrow> i + length pat \<le> length xs"
  by (induction xs arbitrary: i) (auto split: if_splits simp: min_def dest!: arg_cong [of _ _ length])

lemma next_document_shorter:
  assumes "next_document buf = Some (doc, rest)"
  shows "length rest < length buf"
proof -
  obtain i where i: "find_sub xml_open (c_bytes buf) = Some i"
    using assms by (auto simp: next_document_def split: option.splits)
  have "i + 5 \<le> length (c_bytes buf)" using find_sub_less [OF i] by simp
  also have "\<dots> \<le> length buf" by (simp add: c_bytes_def length_takeWhile_le)
  finally have "i < length buf" by simp
  then show ?thesis using assms i by (auto simp: next_document_def Let_def split: option.splits)
qed

text \<open>
  The walk over the documents of one read: an errno on a document that does not parse, else the
  response so far, the parser's data, the raw mode flag and the device, with the tail behind a raw
  mode response pushed back.
\<close>

function read_walk ::
  "'d fh_env \<Rightarrow> 'a response_parser \<Rightarrow> u8 list \<Rightarrow> int \<Rightarrow> 'a \<Rightarrow> 'd qdl_device
    \<Rightarrow> (int + int \<times> bool) \<times> 'a \<times> 'd qdl_device" where
  "read_walk E parser buf resp data q =
     (case next_document buf of
        None \<Rightarrow> (Inr (resp, False), data, q)
      | Some (doc, rest) \<Rightarrow>
          (case firehose_response_parse E doc of
             Inl e \<Rightarrow> (Inl e, data, q)
           | Inr node \<Rightarrow>
               let q1 = firehose_check_vip_marker q node in
               case parser data node False of
                 (ret, data', raw) \<Rightarrow>
                   let resp' = (if ret \<ge> 0 then ret else resp) in
                   if raw then (Inr (resp', True), data', snd (qdl_push_back q1 rest))
                   else read_walk E parser rest resp' data' q1))"
  by pat_completeness auto
termination
  by (relation "measure (\<lambda>(E, p, buf, r, d, q). length buf)") (auto dest: next_document_shorter)

declare read_walk.simps [simp del]

text \<open>
  The loop of \<open>firehose_read\<close> up to the time \<open>deadline\<close>. A negative return value of the transport
  other than the three the code knows makes it store a NUL before its buffer and go on; the stray
  store is not represented.
\<close>

fun firehose_read_loop ::
  "nat \<Rightarrow> 'd fh_env \<Rightarrow> nat \<Rightarrow> 'a response_parser \<Rightarrow> int \<Rightarrow> 'a \<Rightarrow> 'd qdl_device
    \<Rightarrow> (int \<times> 'a \<times> 'd qdl_device) option" where
  "firehose_read_loop 0 E deadline parser resp data q = None"
| "firehose_read_loop (Suc fuel) E deadline parser resp data q =
     (case qdl_read (env_tr E) q 4095 100 of
        (Inr buf, q1) \<Rightarrow>
          if buf = [] then
            (if env_clock E (link q1) < deadline
             then firehose_read_loop fuel E deadline parser resp data q1
             else Some (- ETIMEDOUT, data, q1))
          else
            (case read_walk E parser buf resp data q1 of
               (Inl e, data', q2) \<Rightarrow> Some (e, data', q2)
             | (Inr (resp', raw), data', q2) \<Rightarrow>
                 if raw then Some (resp', data', q2)
                 else firehose_read_loop fuel E deadline parser resp' data' q2)
      | (Inl n, q1) \<Rightarrow>
          if n = - ETIMEDOUT \<and> resp \<ge> 0 then Some (resp, data, q1)
          else if n = - EIO \<or> n = - ENODEV then Some (if resp < 0 then n else resp, data, q1)
          else if n = - ETIMEDOUT \<or> n = 0 then
            (if env_clock E (link q1) < deadline
             then firehose_read_loop fuel E deadline parser resp data q1
             else Some (- ETIMEDOUT, data, q1))
          else firehose_read_loop fuel E deadline parser resp data q1)"

definition firehose_read ::
  "nat \<Rightarrow> 'd fh_env \<Rightarrow> nat \<Rightarrow> 'a response_parser \<Rightarrow> 'a \<Rightarrow> 'd qdl_device \<Rightarrow> (int \<times> 'a \<times> 'd qdl_device) option" where
  "firehose_read fuel E timeout_ms parser data q =
     firehose_read_loop fuel E (env_clock E (link q) + 1000 * timeout_ms) parser (- EIO) data q"

end
