(* ===== verification/FhCmd.thy ===== *)
theory FhCmd
  imports FhMsg
begin

text \<open>
  \<open>src/firehose.c\<close>: sending a request, configuring the programmer, reading sectors. Every
  operation maps a session state to a result and a new state, or to \<open>None\<close> when its fuel runs
  out; \<open>sbind\<close> puts two of them in sequence.
\<close>

type_synonym ('d, 'a) fhm = "('d fh, 'a) som"

subsection \<open>Requests\<close>

definition fh_recv ::
  "nat \<Rightarrow> 'd fh_env \<Rightarrow> nat \<Rightarrow> 'a response_parser \<Rightarrow> 'a \<Rightarrow> ('d, int \<times> 'a) fhm" where
  "fh_recv fuel E timeout_ms parser data s =
     (case firehose_read fuel E timeout_ms parser data (fh_dev s) of
        None \<Rightarrow> None | Some (r, d, q) \<Rightarrow> Some ((r, d), s\<lparr>fh_dev := q\<rparr>))"

definition fh_recv_generic :: "nat \<Rightarrow> 'd fh_env \<Rightarrow> nat \<Rightarrow> ('d, int) fhm" where
  "fh_recv_generic fuel E timeout_ms =
     sbind (fh_recv fuel E timeout_ms firehose_generic_parser ()) (\<lambda>(r, _). sret r)"

definition firehose_vip_send_table :: "nat \<Rightarrow> 'd fh_env \<Rightarrow> ('d, int) fhm" where
  "firehose_vip_send_table fuel E s =
     (case vip_transfer_handle_tables (env_tr E) (fh_dev s) of
        (ret, q1) \<Rightarrow>
          let s1 = s\<lparr>fh_dev := q1\<rparr> in
          if ret \<noteq> 0 then Some (-1, s1)
          else if \<not> vip_transfer_status_check_needed q1 then Some (0, s1)
          else sbind (fh_recv_generic fuel E 30000)
                 (\<lambda>r. if r \<noteq> 0 then sret (-1)
                      else (\<lambda>s2. Some (0, s2\<lparr>fh_dev := vip_transfer_clear_status (fh_dev s2)\<rparr>))) s1)"

text \<open>The generator's hooks, and one transport write.\<close>

definition fh_chunk_init :: "('d, unit) fhm" where
  "fh_chunk_init s = Some ((), s\<lparr>fh_gen := vip_gen_chunk_init (fh_gen s)\<rparr>)"

definition fh_chunk_update :: "u8 list \<Rightarrow> ('d, unit) fhm" where
  "fh_chunk_update buf s = Some ((), s\<lparr>fh_gen := vip_gen_chunk_update (fh_gen s) buf\<rparr>)"

definition fh_chunk_store :: "('d, unit) fhm" where
  "fh_chunk_store s =
     (case vip_gen_chunk_store (fh_gen s) (fh_host s) of
        (g, h) \<Rightarrow> Some ((), s\<lparr>fh_gen := g, fh_host := h\<rparr>))"

definition fh_send :: "'d fh_env \<Rightarrow> u8 list \<Rightarrow> nat \<Rightarrow> ('d, int) fhm" where
  "fh_send E buf timeout s =
     (case qdl_write (env_tr E) (fh_dev s) buf timeout of (n, q) \<Rightarrow> Some (n, s\<lparr>fh_dev := q\<rparr>))"

text \<open>The retry loop of \<open>firehose_write\<close>: a write that times out is repeated after draining.\<close>

fun write_retry :: "nat \<Rightarrow> 'd fh_env \<Rightarrow> u8 list \<Rightarrow> ('d, int) fhm" where
  "write_retry 0 E buf = (\<lambda>s. None)"
| "write_retry (Suc fuel) E buf =
     sbind (fh_chunk_update buf) (\<lambda>_.
     sbind (fh_send E buf 1000) (\<lambda>ret.
       if ret = - ETIMEDOUT
       then sbind (fh_recv_generic fuel E 100) (\<lambda>_. write_retry fuel E buf)
       else sret ret))"

definition firehose_write :: "nat \<Rightarrow> 'd fh_env \<Rightarrow> u8 list \<Rightarrow> ('d, int) fhm" where
  "firehose_write fuel E buf =
     sbind (firehose_vip_send_table fuel E) (\<lambda>ret.
       if ret \<noteq> 0 then sret (-1)
       else sbind fh_chunk_init (\<lambda>_.
            sbind (write_retry fuel E buf) (\<lambda>n.
            sbind fh_chunk_store (\<lambda>_. sret (if n < 0 then n else 0)))))"

subsection \<open>Documents\<close>

text \<open>\<open>xml_setpropf\<close> formats into 128 bytes.\<close>

definition fh_doc :: "'d fh_env \<Rightarrow> string \<Rightarrow> xml_attrs \<Rightarrow> u8 list" where
  "fh_doc E tag attrs = env_dump E tag (map (\<lambda>(a, v). (a, take 127 v)) attrs)"

text \<open>\<open>%d\<close> of an unsigned argument, \<open>%s\<close> of a pointer that may be null, \<open>%d\<close> of a truth value.\<close>

abbreviation fmt_d :: "u32 \<Rightarrow> string" where "fmt_d w \<equiv> show_int (int_of_u32 w)"

definition fmt_s :: "string option \<Rightarrow> string" where
  "fmt_s s = (case s of None \<Rightarrow> ''(null)'' | Some v \<Rightarrow> v)"

definition fmt_b :: "bool \<Rightarrow> string" where
  "fmt_b b = (if b then ''1'' else ''0'')"

definition slot_attr :: "'d qdl_device \<Rightarrow> xml_attrs" where
  "slot_attr q = (if slot_id q \<noteq> - 1 then [(''slot'', show_u32 (slot_id q))] else [])"

definition opt_attr :: "string \<Rightarrow> string option \<Rightarrow> xml_attrs" where
  "opt_attr a v = (case v of None \<Rightarrow> [] | Some s \<Rightarrow> [(a, s)])"

definition eff_sector_size :: "firehose_op \<Rightarrow> 'd qdl_device \<Rightarrow> u32" where
  "eff_sector_size op q = (if op_sector_size op \<noteq> 0 then op_sector_size op else of_nat (sector_size q))"

subsection \<open>Reading sectors\<close>

text \<open>Where \<open>firehose_issue_read\<close> puts the data: an open file, or a caller's buffer of some size.\<close>

datatype read_dest = To_File string | To_Buf nat

definition read_attrs :: "firehose_op \<Rightarrow> u32 \<Rightarrow> 'd qdl_device \<Rightarrow> xml_attrs" where
  "read_attrs op ss q =
     [(''SECTOR_SIZE_IN_BYTES'', fmt_d ss), (''num_partition_sectors'', fmt_d (op_num_sectors op)),
      (''physical_partition_number'', show_int (op_partition op)), (''start_sector'', fmt_s (op_start_sector op))]
     @ slot_attr q @ opt_attr ''filename'' (op_filename op)"

text \<open>Accumulating one chunk across fragments; the inner \<open>None\<close> is a read error.\<close>

fun read_chunk :: "nat \<Rightarrow> 'd fh_env \<Rightarrow> nat \<Rightarrow> u8 list \<Rightarrow> ('d, u8 list option) fhm" where
  "read_chunk 0 E want got s = None"
| "read_chunk (Suc fuel) E want got s =
     (if length got \<ge> want then Some (Some got, s)
      else case qdl_read (env_tr E) (fh_dev s) (want - length got) 30000 of
        (Inl n, q) \<Rightarrow> if n < 0 then Some (None, s\<lparr>fh_dev := q\<rparr>)
                     else read_chunk fuel E want got (s\<lparr>fh_dev := q\<rparr>)
      | (Inr d, q) \<Rightarrow> read_chunk fuel E want (got @ d) (s\<lparr>fh_dev := q\<rparr>))"

text \<open>Storing a chunk: the return value of the step, what the buffer holds, the state.\<close>

definition store_chunk :: "read_dest \<Rightarrow> u8 list \<Rightarrow> u8 list \<Rightarrow> ('d, int \<times> u8 list) fhm" where
  "store_chunk dest out buf s =
     (case dest of
        To_Buf n \<Rightarrow> Some ((0, out @ take (n - length out) buf), s)
      | To_File p \<Rightarrow>
          let w = h_write (fh_host s) p (length buf);
              s' = (if w > 0 then s\<lparr>fh_host := h_append (fh_host s) p (take (nat w) buf)\<rparr> else s)
          in if w < 0 \<or> w \<noteq> int (length buf) then Some ((-1, out), s') else Some ((0, out), s'))"

fun read_chunks :: "nat \<Rightarrow> 'd fh_env \<Rightarrow> read_dest \<Rightarrow> nat \<Rightarrow> nat \<Rightarrow> u8 list \<Rightarrow> ('d, int \<times> u8 list) fhm" where
  "read_chunks 0 E dest ss left out s = None"
| "read_chunks (Suc fuel) E dest ss left out s =
     (if left = 0 then Some ((0, out), s)
      else
        let chunk_size = min (max_payload_size (fh_dev s) div ss) left in
        sbind (read_chunk fuel E (chunk_size * ss) [])
          (\<lambda>got. case got of
             None \<Rightarrow> sret (-1, out)
           | Some buf \<Rightarrow>
               sbind (store_chunk dest out buf) (\<lambda>(r, out').
                 if r \<noteq> 0 then sret (-1, out')
                 else read_chunks fuel E dest ss (left - chunk_size) out')) s)"

definition count_read :: "read_dest \<Rightarrow> ('d, unit) fhm" where
  "count_read dest s =
     Some ((), case dest of To_Buf _ \<Rightarrow> s
               | To_File _ \<Rightarrow> s\<lparr>fh_stats := (fh_stats s)\<lparr>st_read := st_read (fh_stats s) + 1\<rparr>\<rparr>)"

definition firehose_issue_read ::
  "nat \<Rightarrow> 'd fh_env \<Rightarrow> firehose_op \<Rightarrow> read_dest \<Rightarrow> ('d, int \<times> u8 list) fhm" where
  "firehose_issue_read fuel E op dest s =
     (let ss = eff_sector_size op (fh_dev s) in
      if ss = 0 then Some ((-1, []), s)
      else
        sbind (firehose_write fuel E (fh_doc E ''read'' (read_attrs op ss (fh_dev s)))) (\<lambda>ret.
          if ret < 0 then sret (ret, [])
          else sbind (fh_recv_generic fuel E 10000) (\<lambda>ret.
            if ret \<noteq> 0 then sret (-1, [])
            else sbind (read_chunks fuel E dest (unat ss) (unat (op_num_sectors op)) []) (\<lambda>(ret, out).
              if ret \<noteq> 0 then sret (ret, out)
              else sbind (fh_recv_generic fuel E 10000) (\<lambda>ret.
                if ret \<noteq> 0 then sret (-1, out)
                else sbind (count_read dest) (\<lambda>_. sret (0, out)))))) s)"

definition firehose_read_buf :: "nat \<Rightarrow> 'd fh_env \<Rightarrow> firehose_op \<Rightarrow> nat \<Rightarrow> ('d, int \<times> u8 list) fhm" where
  "firehose_read_buf fuel E op out_size = firehose_issue_read fuel E op (To_Buf out_size)"

definition firehose_read_op :: "nat \<Rightarrow> 'd fh_env \<Rightarrow> firehose_op \<Rightarrow> ('d, int) fhm" where
  "firehose_read_op fuel E op s =
     (case op_filename op of
        None \<Rightarrow> Some (-1, s)
      | Some f \<Rightarrow>
          (case h_create (fh_host s) f of
             None \<Rightarrow> Some (-1, s)
           | Some h \<Rightarrow> sbind (firehose_issue_read fuel E op (To_File f)) (\<lambda>(ret, _). sret ret) (s\<lparr>fh_host := h\<rparr>)))"

text \<open>The sector reader the partition table loader uses; a reader out of fuel stays that way.\<close>

definition fh_sector_reader :: "nat \<Rightarrow> 'd fh_env \<Rightarrow> 'd fh option sector_reader" where
  "fh_sector_reader fuel E so op n =
     (case so of
        None \<Rightarrow> (None, None)
      | Some s \<Rightarrow> (case firehose_read_buf fuel E op n s of
            None \<Rightarrow> (None, None)
          | Some ((ret, out), s') \<Rightarrow> (if ret = 0 then Some out else None, Some s')))"

subsection \<open>Configuring the programmer\<close>

definition configure_attrs :: "nat \<Rightarrow> bool \<Rightarrow> string \<Rightarrow> xml_attrs" where
  "configure_attrs payload skip_storage_init memory_name =
     [(''MemoryName'', memory_name), (''MaxPayloadSizeToTargetInBytes'', show_dec payload),
      (''Verbose'', ''0''), (''ZlpAwareHost'', ''1''), (''SkipStorageInit'', fmt_b skip_storage_init)]"

definition firehose_send_configure ::
  "nat \<Rightarrow> 'd fh_env \<Rightarrow> nat \<Rightarrow> bool \<Rightarrow> storage_type \<Rightarrow> nat \<Rightarrow> ('d, int \<times> nat) fhm" where
  "firehose_send_configure fuel E payload skip storage sz =
     (case encode_storage_type storage of
        None \<Rightarrow> sret (- EINVAL, sz)
      | Some name \<Rightarrow>
          sbind (firehose_write fuel E (fh_doc E ''configure'' (configure_attrs payload skip name))) (\<lambda>_.
            fh_recv fuel E 100 firehose_configure_response_parser sz))"

definition probe_op :: "nat \<Rightarrow> firehose_op" where
  "probe_op ss = (firehose_alloc_op FIREHOSE_OP_NONE)
     \<lparr>op_start_sector := Some ''1'', op_num_sectors := 1, op_sector_size := of_nat ss\<rparr>"

fun probe_sector_size :: "nat \<Rightarrow> 'd fh_env \<Rightarrow> nat list \<Rightarrow> ('d, unit) fhm" where
  "probe_sector_size fuel E [] = sret ()"
| "probe_sector_size fuel E (ss # sizes) =
     sbind (firehose_read_buf fuel E (probe_op ss) 4096) (\<lambda>(ret, _).
       if ret = 0 then (\<lambda>s. Some ((), s\<lparr>fh_dev := (fh_dev s)\<lparr>sector_size := ss\<rparr>\<rparr>))
       else probe_sector_size fuel E sizes)"

definition set_payload :: "nat \<Rightarrow> ('d, unit) fhm" where
  "set_payload sz s = Some ((), s\<lparr>fh_dev := (fh_dev s)\<lparr>max_payload_size := sz\<rparr>\<rparr>)"

definition probe_needed :: "bool \<Rightarrow> storage_type \<Rightarrow> 'd qdl_device \<Rightarrow> bool" where
  "probe_needed skip storage q \<longleftrightarrow> \<not> skip \<and> storage \<noteq> QDL_STORAGE_NAND
     \<and> vip_st (vip_data q) = VIP_DISABLED \<and> sector_size q = 0"

definition firehose_try_configure :: "nat \<Rightarrow> 'd fh_env \<Rightarrow> bool \<Rightarrow> storage_type \<Rightarrow> ('d, int) fhm" where
  "firehose_try_configure fuel E skip storage s0 =
     (let payload = max_payload_size (fh_dev s0);
          probe = (\<lambda>s. if probe_needed skip storage (fh_dev s)
                       then sbind (probe_sector_size fuel E [512, 4096]) (\<lambda>_. sret 0) s
                       else Some (0, s))
      in sbind (firehose_send_configure fuel E payload skip storage 0) (\<lambda>(ret, sz).
           if ret < 0 then sret ret
           else if sz \<noteq> payload then
             sbind (firehose_send_configure fuel E sz skip storage sz) (\<lambda>(ret, size2).
               if ret \<noteq> FIREHOSE_ACK then sret (-1)
               else sbind (set_payload size2) (\<lambda>_. probe))
           else probe) s0)"

text \<open>
  \<open>firehose_detect_and_configure\<close>: with a table path given, the start-up log decides whether VIP
  is really active; without one, configure is repeated until the programmer answers or \<open>timeout_s\<close>
  have passed.
\<close>

definition map_dev :: "('d qdl_device \<Rightarrow> 'd qdl_device) \<Rightarrow> ('d, unit) fhm" where
  "map_dev f s = Some ((), s\<lparr>fh_dev := f (fh_dev s)\<rparr>)"

fun configure_retry :: "nat \<Rightarrow> 'd fh_env \<Rightarrow> bool \<Rightarrow> storage_type \<Rightarrow> nat \<Rightarrow> ('d, int) fhm" where
  "configure_retry 0 E skip storage deadline = (\<lambda>s. None)"
| "configure_retry (Suc fuel) E skip storage deadline =
     sbind (firehose_try_configure fuel E skip storage) (\<lambda>ret s.
       if programmer_requires_vip (vip_data (fh_dev s)) then Some (-1, s)
       else if ret = FIREHOSE_ACK then Some (0, s)
       else if ret \<noteq> - ETIMEDOUT then Some (-1, s)
       else if env_clock E (link (fh_dev s)) > deadline then Some (-1, s)
       else configure_retry fuel E skip storage deadline s)"

definition demote_vip :: "'d qdl_device \<Rightarrow> 'd qdl_device" where
  "demote_vip q = (if programmer_requires_vip (vip_data q) then q
                   else upd_vip (\<lambda>v. v\<lparr>vip_st := VIP_DISABLED\<rparr>) q)"

definition firehose_detect_and_configure ::
  "nat \<Rightarrow> 'd fh_env \<Rightarrow> bool \<Rightarrow> storage_type \<Rightarrow> nat \<Rightarrow> ('d, int) fhm" where
  "firehose_detect_and_configure fuel E skip storage timeout_s =
     sbind (map_dev (\<lambda>q. q\<lparr>current_storage_type := storage\<rparr>)) (\<lambda>_ s.
       if vip_st (vip_data (fh_dev s)) \<noteq> VIP_DISABLED then
         sbind (fh_recv_generic fuel E (timeout_s * 1000)) (\<lambda>_.
         sbind (map_dev demote_vip) (\<lambda>_.
         sbind (firehose_try_configure fuel E skip storage) (\<lambda>ret.
           sret (if ret \<noteq> FIREHOSE_ACK then -1 else 0)))) s
       else configure_retry fuel E skip storage (env_clock E (link (fh_dev s)) + 1000000 * timeout_s) s)"

end
