(* ===== verification/FhProgram.thy ===== *)
theory FhProgram
  imports FhCmd
begin

text \<open>
  \<open>src/firehose.c\<close>: erasing, digests and programming. A file being programmed is passed along with
  its position; fuel bounds the loops over the device and over the data.
\<close>

definition count_stats :: "(firehose_stats \<Rightarrow> firehose_stats) \<Rightarrow> ('d, unit) fhm" where
  "count_stats f s = Some ((), s\<lparr>fh_stats := f (fh_stats s)\<rparr>)"

subsection \<open>Erase\<close>

definition erase_attrs :: "firehose_op \<Rightarrow> 'd qdl_device \<Rightarrow> xml_attrs" where
  "erase_attrs op q =
     [(''SECTOR_SIZE_IN_BYTES'', fmt_d (eff_sector_size op q)),
      (''physical_partition_number'', show_int (op_partition op))]
     @ (if op_num_sectors op > 0
        then [(''num_partition_sectors'', fmt_d (op_num_sectors op)), (''start_sector'', fmt_s (op_start_sector op))]
        else [])
     @ slot_attr q
     @ (if op_is_nand op then [(''PAGES_PER_BLOCK'', fmt_d (op_pages_per_block op))] else [])"

definition firehose_erase :: "nat \<Rightarrow> 'd fh_env \<Rightarrow> firehose_op \<Rightarrow> ('d, int) fhm" where
  "firehose_erase fuel E op s =
     sbind (firehose_write fuel E (fh_doc E ''erase'' (erase_attrs op (fh_dev s)))) (\<lambda>ret.
       if ret < 0 then sret (-1)
       else sbind (fh_recv_generic fuel E 30000) (\<lambda>ret.
         if ret \<noteq> 0 then sret (-1)
         else sbind (count_stats (\<lambda>st. st\<lparr>st_erased := st_erased st + 1\<rparr>)) (\<lambda>_. sret 0))) s"

subsection \<open>Digests\<close>

definition digest_attrs :: "firehose_op \<Rightarrow> 'd qdl_device \<Rightarrow> xml_attrs" where
  "digest_attrs op q =
     [(''SECTOR_SIZE_IN_BYTES'', fmt_d (eff_sector_size op q)), (''num_partition_sectors'', fmt_d (op_num_sectors op)),
      (''physical_partition_number'', show_int (op_partition op)), (''start_sector'', fmt_s (op_start_sector op))]
     @ slot_attr q"

definition firehose_getsha256digest :: "nat \<Rightarrow> 'd fh_env \<Rightarrow> firehose_op \<Rightarrow> ('d, int \<times> firehose_op) fhm" where
  "firehose_getsha256digest fuel E op s =
     (let op0 = op\<lparr>op_digest_valid := False\<rparr> in
      sbind (firehose_write fuel E (fh_doc E ''getsha256digest'' (digest_attrs op (fh_dev s)))) (\<lambda>ret.
        if ret < 0 then sret (ret, op0)
        else sbind (fh_recv fuel E 30000 firehose_sha256_parser op0) (\<lambda>(ret, op1).
          if ret \<noteq> FIREHOSE_ACK then sret (-1, op1)
          else if \<not> op_digest_valid op1 then sret (-1, op1)
          else sret (0, op1))) s)"

text \<open>
  \<open>firehose_region_local_digest\<close>: the digest of a region of the file, with zeros for what lies
  beyond its end. The first loop ends with the context and the number of bytes hashed.
\<close>

fun hash_file :: "nat \<Rightarrow> nat \<Rightarrow> nat \<Rightarrow> qdl_file \<Rightarrow> nat \<Rightarrow> sha2_ctx \<Rightarrow> ((sha2_ctx \<times> nat) option \<times> qdl_file) option" where
  "hash_file 0 mp region f hashed ctx = None"
| "hash_file (Suc fuel) mp region f hashed ctx =
     (if hashed < region then
        let want = min mp (region - hashed) in
        (case qdl_file_read_exact f want of
           (None, f') \<Rightarrow> Some (None, f')
         | (Some d, f') \<Rightarrow>
             let ctx' = (if d \<noteq> [] then SHA256Update ctx d else ctx) in
             if length d < want then Some (Some (ctx', hashed + length d), f')
             else hash_file fuel mp region f' (hashed + length d) ctx')
      else Some (Some (ctx, hashed), f))"

fun hash_zeros :: "nat \<Rightarrow> nat \<Rightarrow> nat \<Rightarrow> nat \<Rightarrow> sha2_ctx \<Rightarrow> sha2_ctx option" where
  "hash_zeros 0 mp region hashed ctx = None"
| "hash_zeros (Suc fuel) mp region hashed ctx =
     (if hashed < region then
        let pad = min mp (region - hashed)
        in hash_zeros fuel mp region (hashed + pad) (SHA256Update ctx (replicate pad 0))
      else Some ctx)"

definition firehose_region_local_digest ::
  "nat \<Rightarrow> nat \<Rightarrow> qdl_file \<Rightarrow> int \<Rightarrow> nat \<Rightarrow> (u8 list option \<times> qdl_file) option" where
  "firehose_region_local_digest fuel mp f off region =
     (case hash_file fuel mp region (snd (qdl_file_seek f off SEEK_SET)) 0 SHA256Init of
        None \<Rightarrow> None
      | Some (None, f') \<Rightarrow> Some (None, f')
      | Some (Some (ctx, hashed), f') \<Rightarrow>
          (case hash_zeros fuel mp region hashed ctx of
             None \<Rightarrow> None | Some ctx' \<Rightarrow> Some (Some (SHA256Final ctx'), f')))"

subsection \<open>Streaming sectors out\<close>

text \<open>
  The data of one packet: a prefix of the fill pattern, or the next bytes of the file padded with
  zeros; \<open>None\<close> is a read error.
\<close>

definition chunk_data :: "u8 list option \<Rightarrow> qdl_file \<Rightarrow> nat \<Rightarrow> u8 list option \<times> qdl_file" where
  "chunk_data fill f n =
     (case fill of
        Some pat \<Rightarrow> (Some (take n pat), f)
      | None \<Rightarrow> (case qdl_file_read_exact f n of
            (None, f') \<Rightarrow> (None, f')
          | (Some d, f') \<Rightarrow> (Some (d @ replicate (n - length d) 0), f')))"

text \<open>Sending one packet that is already hashed: 0, or -1 after the error handling of the code.\<close>

definition send_packet :: "nat \<Rightarrow> 'd fh_env \<Rightarrow> u8 list \<Rightarrow> nat \<Rightarrow> ('d, int) fhm" where
  "send_packet fuel E buf zlp_timeout =
     sbind (firehose_vip_send_table fuel E) (\<lambda>ret.
       if ret \<noteq> 0 then sret (-1)
       else sbind (fh_send E buf zlp_timeout) (\<lambda>n.
         if n < 0 then sbind (fh_recv_generic fuel E 30000) (\<lambda>_. sret (-1))
         else if n \<noteq> int (length buf) then sret (-1)
         else sret 0))"

fun firehose_stream_out ::
  "nat \<Rightarrow> 'd fh_env \<Rightarrow> u8 list option \<Rightarrow> nat \<Rightarrow> nat \<Rightarrow> nat \<Rightarrow> qdl_file \<Rightarrow> ('d, int \<times> qdl_file) fhm" where
  "firehose_stream_out 0 E fill ss zlp_timeout left f s = None"
| "firehose_stream_out (Suc fuel) E fill ss zlp_timeout left f s =
     (if left = 0 then Some ((0, f), s)
      else
        let chunk_size = min (max_payload_size (fh_dev s) div ss) left in
        sbind fh_chunk_init (\<lambda>_.
          case chunk_data fill f (chunk_size * ss) of
            (None, f') \<Rightarrow> sret (-1, f')
          | (Some buf, f') \<Rightarrow>
              sbind (fh_chunk_update buf) (\<lambda>_.
              sbind (send_packet fuel E buf zlp_timeout) (\<lambda>ret.
                if ret \<noteq> 0 then sret (-1, f')
                else sbind fh_chunk_store (\<lambda>_.
                  firehose_stream_out fuel E fill ss zlp_timeout (left - chunk_size) f')))) s)"

subsection \<open>Programming\<close>

definition program_attrs :: "firehose_op \<Rightarrow> string option \<Rightarrow> u32 \<Rightarrow> u32 \<Rightarrow> 'd qdl_device \<Rightarrow> xml_attrs" where
  "program_attrs op start num ss q =
     [(''SECTOR_SIZE_IN_BYTES'', fmt_d ss), (''num_partition_sectors'', fmt_d num),
      (''physical_partition_number'', show_int (op_partition op)), (''start_sector'', fmt_s start)]
     @ slot_attr q @ opt_attr ''filename'' (op_filename op)"

definition nand_attrs :: "firehose_op \<Rightarrow> xml_attrs" where
  "nand_attrs op =
     (if op_is_nand op
      then [(''PAGES_PER_BLOCK'', fmt_d (op_pages_per_block op)), (''last_sector'', fmt_d (op_last_sector op))]
           @ opt_attr ''label'' (op_label op)
      else [])"

definition firehose_program_raw_region ::
  "nat \<Rightarrow> 'd fh_env \<Rightarrow> firehose_op \<Rightarrow> qdl_file \<Rightarrow> string option \<Rightarrow> u32 \<Rightarrow> u32 \<Rightarrow> nat \<Rightarrow> ('d, int \<times> qdl_file) fhm" where
  "firehose_program_raw_region fuel E op f start num ss zlp_timeout s =
     sbind (firehose_write fuel E (fh_doc E ''program'' (program_attrs op start num ss (fh_dev s)))) (\<lambda>ret.
       if ret < 0 then sret (ret, f)
       else sbind (fh_recv_generic fuel E 10000) (\<lambda>ret.
         if ret \<noteq> 0 then sret (-1, f)
         else sbind (firehose_stream_out fuel E None (unat ss) zlp_timeout (unat num) f) (\<lambda>(ret, f').
           if ret \<noteq> 0 then sret (ret, f')
           else sbind (fh_recv_generic fuel E 120000) (\<lambda>ret.
             sret (if ret \<noteq> FIREHOSE_ACK then -1 else 0, f'))))) s"

definition SKIPBLOCK_CHUNK_BYTES :: nat where "SKIPBLOCK_CHUNK_BYTES = 512 * 1024 * 1024"

definition firehose_skipblock_enabled :: "'d qdl_device \<Rightarrow> firehose_op \<Rightarrow> bool" where
  "firehose_skipblock_enabled q op \<longleftrightarrow> skipblock q = QDL_SKIPBLOCK_SHA256 \<and> \<not> op_sparse op
     \<and> \<not> op_is_nand op \<and> vip_st (vip_data q) = VIP_DISABLED"

text \<open>
  One chunk of the skip-block walk at sector \<open>off\<close>: whether the device already holds the data.
\<close>

definition skip_digest_op :: "firehose_op \<Rightarrow> string option \<Rightarrow> u32 \<Rightarrow> u32 \<Rightarrow> firehose_op" where
  "skip_digest_op op start chunk_sectors ss =
     (firehose_alloc_op FIREHOSE_OP_GET_SHA256_DIGEST)
       \<lparr>op_sector_size := ss, op_num_sectors := chunk_sectors, op_partition := op_partition op,
        op_start_sector := start\<rparr>"

definition skip_match ::
  "nat \<Rightarrow> 'd fh_env \<Rightarrow> firehose_op \<Rightarrow> string option \<Rightarrow> u32 \<Rightarrow> u32 \<Rightarrow> u8 list option \<Rightarrow> ('d, bool) fhm" where
  "skip_match fuel E op start chunk_sectors ss local_digest =
     (case local_digest of
        None \<Rightarrow> sret False
      | Some d \<Rightarrow>
          sbind (firehose_getsha256digest fuel E (skip_digest_op op start chunk_sectors ss)) (\<lambda>(ret, dop).
            sret (ret = 0 \<and> op_digest dop = d)))"

text \<open>
  The walk; \<open>off\<close> is 32 bits wide and wraps. The result is the return value, the number of chunks and
  of bytes flashed, and the file.
\<close>

fun skip_walk ::
  "nat \<Rightarrow> 'd fh_env \<Rightarrow> firehose_op \<Rightarrow> u64 \<Rightarrow> u32 \<Rightarrow> u32 \<Rightarrow> u32 \<Rightarrow> nat \<Rightarrow> u32 \<Rightarrow> nat \<Rightarrow> nat \<Rightarrow> qdl_file
    \<Rightarrow> ('d, int \<times> nat \<times> nat \<times> qdl_file) fhm" where
  "skip_walk 0 E op base chunk_max num ss zlp_timeout off flashed flashed_bytes f s = None"
| "skip_walk (Suc fuel) E op base chunk_max num ss zlp_timeout off flashed flashed_bytes f s =
     (if \<not> off < num then Some ((0, flashed, flashed_bytes, f), s)
      else
        let chunk_sectors = min chunk_max (num - off);
            region = unat chunk_sectors * unat ss;
            byte_off = int (unat (op_file_offset op + off)) * int (unat ss);
            start = (if off = 0 then op_start_sector op else Some (show_dec (unat (base + ucast off))))
        in case firehose_region_local_digest fuel (max_payload_size (fh_dev s)) f byte_off region of
             None \<Rightarrow> None
           | Some (local_digest, f1) \<Rightarrow>
               sbind (skip_match fuel E op start chunk_sectors ss local_digest) (\<lambda>match.
                 if match then skip_walk fuel E op base chunk_max num ss zlp_timeout (off + chunk_max) flashed flashed_bytes f1
                 else
                   sbind (firehose_program_raw_region fuel E op (snd (qdl_file_seek f1 byte_off SEEK_SET))
                            start chunk_sectors ss zlp_timeout) (\<lambda>(ret, f2).
                     if ret < 0 then sret (-1, flashed, flashed_bytes, f2)
                     else skip_walk fuel E op base chunk_max num ss zlp_timeout (off + chunk_max)
                            (flashed + 1) (flashed_bytes + region) f2)) s)"

definition firehose_program_skipblock ::
  "nat \<Rightarrow> 'd fh_env \<Rightarrow> firehose_op \<Rightarrow> qdl_file \<Rightarrow> u32 \<Rightarrow> u32 \<Rightarrow> nat \<Rightarrow> ('d, int) fhm" where
  "firehose_program_skipblock fuel E op f num ss zlp_timeout =
     sbind (skip_walk fuel E op (strtoul_val 0 (fmt_s (op_start_sector op)))
              (of_nat (SKIPBLOCK_CHUNK_BYTES div unat ss)) num ss zlp_timeout 0 0 0 f)
       (\<lambda>(ret, flashed, flashed_bytes, f').
          if ret \<noteq> 0 then sret ret
          else sbind (count_stats (\<lambda>st.
                 if flashed = 0 then st\<lparr>st_skipped := st_skipped st + 1\<rparr>
                 else st\<lparr>st_flashed := st_flashed st + 1, st_bytes_written := st_bytes_written st + flashed_bytes\<rparr>))
               (\<lambda>_. sret 0))"

text \<open>
  The number of sectors to write: for a plain file what its size needs, cut to the room the
  description gives.
\<close>

definition program_num_sectors :: "firehose_op \<Rightarrow> qdl_file \<Rightarrow> u32 \<Rightarrow> u32" where
  "program_num_sectors op f ss =
     (if op_sparse op then op_num_sectors op
      else
        let n = of_nat ((qdl_file_getsize f + unat ss - 1) div unat ss) in
        if op_num_sectors op \<noteq> 0 \<and> n > op_num_sectors op then op_num_sectors op else n)"

text \<open>
  What filling the payload buffer of \<open>mp\<close> bytes writes, from its start: whole words, the last one across
  the end of the buffer when the payload size the device has asked for is no multiple of four.
\<close>

definition fill_pattern :: "nat \<Rightarrow> u32 \<Rightarrow> u8 list" where
  "fill_pattern mp v = concat (replicate ((mp + 3) div 4) (put_le32 v))"

lemma length_fill_pattern: "length (fill_pattern mp v) = (mp + 3) div 4 * 4"
  by (simp add: fill_pattern_def length_concat sum_list_replicate)

lemma fill_pattern_overruns: "\<not> 4 dvd mp \<Longrightarrow> mp < length (fill_pattern mp v)"
  unfolding length_fill_pattern by presburger

text \<open>
  Positioning the file or preparing the pattern: \<open>None\<close> for a chunk type that cannot be programmed.
\<close>

definition program_source :: "firehose_op \<Rightarrow> qdl_file \<Rightarrow> u32 \<Rightarrow> nat \<Rightarrow> (u8 list option \<times> qdl_file) option" where
  "program_source op f ss mp =
     (if \<not> op_sparse op
      then Some (None, snd (qdl_file_seek f (int (unat (op_file_offset op)) * int (unat ss)) SEEK_SET))
      else case op_sparse_chunk_type op of
        Some CHUNK_TYPE_RAW \<Rightarrow> Some (None, snd (qdl_file_seek f (op_sparse_offset op) SEEK_SET))
      | Some CHUNK_TYPE_FILL \<Rightarrow> Some (Some (fill_pattern mp (op_sparse_fill_value op)), f)
      | _ \<Rightarrow> None)"

definition firehose_program_plain ::
  "nat \<Rightarrow> 'd fh_env \<Rightarrow> firehose_op \<Rightarrow> qdl_file \<Rightarrow> u32 \<Rightarrow> u32 \<Rightarrow> nat \<Rightarrow> ('d, int) fhm" where
  "firehose_program_plain fuel E op f num ss zlp_timeout s =
     sbind (firehose_write fuel E (fh_doc E ''program''
              (program_attrs op (op_start_sector op) num ss (fh_dev s) @ nand_attrs op))) (\<lambda>ret.
       if ret < 0 then sret (-1)
       else sbind (fh_recv_generic fuel E 10000) (\<lambda>ret.
         if ret \<noteq> 0 then sret (-1)
         else (\<lambda>s1. case program_source op f ss (max_payload_size (fh_dev s1)) of
           None \<Rightarrow> Some (-1, s1)
         | Some (fill, f1) \<Rightarrow>
             sbind (firehose_stream_out fuel E fill (unat ss) zlp_timeout (unat num) f1) (\<lambda>(ret, _).
               if ret \<noteq> 0 then sret (-1)
               else sbind (fh_recv_generic fuel E 120000) (\<lambda>ret.
                 if ret \<noteq> FIREHOSE_ACK then sret (-1)
                 else sbind (count_stats (\<lambda>st. st\<lparr>st_flashed := st_flashed st + 1,
                               st_bytes_written := st_bytes_written st + unat ss * unat num\<rparr>))
                      (\<lambda>_. sret 0))) s1))) s"

definition firehose_program :: "nat \<Rightarrow> 'd fh_env \<Rightarrow> firehose_op \<Rightarrow> ('d, int) fhm" where
  "firehose_program fuel E op s =
     (let zlp_timeout = (if current_storage_type (fh_dev s) = QDL_STORAGE_SPINOR then 60000 else 10000) in
      case op_filename op of
        None \<Rightarrow> Some (0, s)
      | Some name \<Rightarrow>
          (case qdl_file_open (op_zip op) (env_fs E) name of
             None \<Rightarrow> Some (-1, s)
           | Some f \<Rightarrow>
               let ss = eff_sector_size op (fh_dev s) in
               if ss = 0 then Some (-1, s)
               else
                 let num = program_num_sectors op f ss in
                 if firehose_skipblock_enabled (fh_dev s) op
                 then firehose_program_skipblock fuel E op f num ss zlp_timeout s
                 else firehose_program_plain fuel E op f num ss zlp_timeout s))"

end
