(* ===== verification/FhRun.thy ===== *)
theory FhRun
  imports FhProgram Ufs
begin

text \<open>
  \<open>src/firehose.c\<close>: patches, UFS provisioning, reset, the execution of a queue of operations, and
  the block access the nbdkit plugin uses.
\<close>

subsection \<open>Patches\<close>

definition patch_attrs :: "firehose_op \<Rightarrow> 'd qdl_device \<Rightarrow> xml_attrs" where
  "patch_attrs op q =
     [(''SECTOR_SIZE_IN_BYTES'', fmt_d (op_sector_size op)), (''byte_offset'', fmt_d (op_byte_offset op)),
      (''filename'', fmt_s (op_filename op)), (''physical_partition_number'', show_int (op_partition op)),
      (''size_in_bytes'', fmt_d (op_size_in_bytes op)), (''start_sector'', fmt_s (op_start_sector op)),
      (''value'', fmt_s (op_value op))] @ slot_attr q"

definition firehose_apply_patch :: "nat \<Rightarrow> 'd fh_env \<Rightarrow> firehose_op \<Rightarrow> ('d, int) fhm" where
  "firehose_apply_patch fuel E op s =
     (if op_filename op \<noteq> Some ''DISK'' then Some (0, s)
      else sbind (firehose_write fuel E (fh_doc E ''patch'' (patch_attrs op (fh_dev s)))) (\<lambda>ret.
             if ret < 0 then sret (-1)
             else sbind (fh_recv_generic fuel E 5000) (\<lambda>ret. sret (if ret = FIREHOSE_ACK then 0 else -1))) s)"

subsection \<open>UFS provisioning\<close>

definition FIREHOSE_UFS_TAG_TIMEOUT_MS :: nat where "FIREHOSE_UFS_TAG_TIMEOUT_MS = 5000"
definition FIREHOSE_UFS_COMMIT_TIMEOUT_MS :: nat where "FIREHOSE_UFS_COMMIT_TIMEOUT_MS = 120000"

definition firehose_send_single_tag :: "nat \<Rightarrow> 'd fh_env \<Rightarrow> u8 list \<Rightarrow> nat \<Rightarrow> ('d, int) fhm" where
  "firehose_send_single_tag fuel E doc timeout_ms =
     sbind (firehose_write fuel E doc) (\<lambda>ret.
       if ret < 0 then sret ret
       else sbind (fh_recv_generic fuel E timeout_ms) (\<lambda>ret. sret (if ret \<noteq> 0 then - EINVAL else ret)))"

definition ufs_common_attrs :: "ufs_common \<Rightarrow> 'd qdl_device \<Rightarrow> xml_attrs" where
  "ufs_common_attrs u q =
     [(''bNumberLU'', fmt_d (bNumberLU u)), (''bBootEnable'', fmt_b (bBootEnable u)),
      (''bDescrAccessEn'', fmt_b (bDescrAccessEn u)), (''bInitPowerMode'', fmt_d (bInitPowerMode u)),
      (''bHighPriorityLUN'', fmt_d (bHighPriorityLUN u)), (''bSecureRemovalType'', fmt_d (bSecureRemovalType u)),
      (''bInitActiveICCLevel'', fmt_d (bInitActiveICCLevel u)), (''wPeriodicRTCUpdate'', fmt_d (wPeriodicRTCUpdate u)),
      (''bConfigDescrLock'', fmt_b (bConfigDescrLock u))]
     @ slot_attr q
     @ (if wb u
        then [(''bWriteBoosterBufferPreserveUserSpaceEn'', fmt_b (bWriteBoosterBufferPreserveUserSpaceEn u)),
              (''bWriteBoosterBufferType'', fmt_b (bWriteBoosterBufferType u)),
              (''shared_wb_buffer_size_in_kb'', fmt_d (shared_wb_buffer_size_in_kb u))]
        else [])"

definition firehose_apply_ufs_common :: "nat \<Rightarrow> 'd fh_env \<Rightarrow> ufs_common \<Rightarrow> ('d, int) fhm" where
  "firehose_apply_ufs_common fuel E u s =
     sbind (firehose_send_single_tag fuel E (fh_doc E ''ufs'' (ufs_common_attrs u (fh_dev s))) FIREHOSE_UFS_TAG_TIMEOUT_MS)
       (\<lambda>ret. sret (if ret = FIREHOSE_ACK then 0 else -1)) s"

definition ufs_body_attrs :: "ufs_body \<Rightarrow> 'd qdl_device \<Rightarrow> xml_attrs" where
  "ufs_body_attrs u q =
     [(''LUNum'', fmt_d (LUNum u)), (''bLUEnable'', fmt_b (bLUEnable u)), (''bBootLunID'', fmt_d (bBootLunID u)),
      (''size_in_kb'', fmt_d (size_in_kb u)), (''bDataReliability'', fmt_d (bDataReliability u)),
      (''bLUWriteProtect'', fmt_d (bLUWriteProtect u)), (''bMemoryType'', fmt_d (bMemoryType u)),
      (''bLogicalBlockSize'', fmt_d (bLogicalBlockSize u)), (''bProvisioningType'', fmt_d (bProvisioningType u)),
      (''wContextCapabilities'', fmt_d (wContextCapabilities u))]
     @ slot_attr q @ opt_attr ''desc'' (desc u)"

definition firehose_apply_ufs_body :: "nat \<Rightarrow> 'd fh_env \<Rightarrow> ufs_body \<Rightarrow> ('d, int) fhm" where
  "firehose_apply_ufs_body fuel E u s =
     sbind (firehose_send_single_tag fuel E (fh_doc E ''ufs'' (ufs_body_attrs u (fh_dev s))) FIREHOSE_UFS_TAG_TIMEOUT_MS)
       (\<lambda>ret. sret (if ret = FIREHOSE_ACK then 0 else -1)) s"

definition ufs_epilogue_attrs :: "ufs_epilogue \<Rightarrow> bool \<Rightarrow> 'd qdl_device \<Rightarrow> xml_attrs" where
  "ufs_epilogue_attrs u commit q =
     [(''LUNtoGrow'', fmt_d (LUNtoGrow u)), (''commit'', fmt_b commit)] @ slot_attr q"

text \<open>1 is the device that resets itself during the commit.\<close>

definition firehose_apply_ufs_epilogue :: "nat \<Rightarrow> 'd fh_env \<Rightarrow> ufs_epilogue \<Rightarrow> bool \<Rightarrow> ('d, int) fhm" where
  "firehose_apply_ufs_epilogue fuel E u commit s =
     sbind (firehose_write fuel E (fh_doc E ''ufs'' (ufs_epilogue_attrs u commit (fh_dev s)))) (\<lambda>ret.
       if ret < 0 then sret (-1)
       else sbind (fh_recv_generic fuel E (if commit then FIREHOSE_UFS_COMMIT_TIMEOUT_MS else FIREHOSE_UFS_TAG_TIMEOUT_MS))
              (\<lambda>ret. sret (if ret = FIREHOSE_ACK then 0
                           else if commit \<and> ret = - ENODEV then 1 else -1))) s"

subsection \<open>Boot partition and reset\<close>

definition firehose_set_bootable :: "nat \<Rightarrow> 'd fh_env \<Rightarrow> int \<Rightarrow> ('d, int) fhm" where
  "firehose_set_bootable fuel E part =
     sbind (firehose_write fuel E (fh_doc E ''setbootablestoragedrive'' [(''value'', show_int part)])) (\<lambda>ret.
       if ret < 0 then sret (-1)
       else sbind (fh_recv_generic fuel E 5000) (\<lambda>ret. sret (if ret \<noteq> 0 then -1 else 0)))"

definition firehose_reset :: "nat \<Rightarrow> 'd fh_env \<Rightarrow> ('d, int) fhm" where
  "firehose_reset fuel E =
     sbind (firehose_write fuel E (fh_doc E ''power'' [(''value'', ''reset''), (''DelayInSeconds'', ''10'')])) (\<lambda>ret.
       if ret < 0 then sret (-1)
       else sbind (fh_recv_generic fuel E 5000) (\<lambda>ret.
         if ret < 0 then sret (-1)
         else sbind (fh_recv_generic fuel E 1000) (\<lambda>_. sret (if ret = FIREHOSE_ACK then 0 else -1))))"

definition firehose_provision :: "nat \<Rightarrow> 'd fh_env \<Rightarrow> ufs_provisioning \<Rightarrow> bool \<Rightarrow> ('d, int) fhm" where
  "firehose_provision fuel E ufs skip_reset =
     sbind (firehose_detect_and_configure fuel E True QDL_STORAGE_UFS 5) (\<lambda>ret.
       if ret \<noteq> 0 then sret ret
       else sbind (ufs_provisioning_execute ufs (firehose_apply_ufs_common fuel E)
                     (firehose_apply_ufs_body fuel E) (firehose_apply_ufs_epilogue fuel E)) (\<lambda>ret.
         if ret > 0 then sret 0
         else if skip_reset then sret ret
         else sbind (firehose_reset fuel E) (\<lambda>_. sret ret)))"

subsection \<open>Executing a queue\<close>

definition fh_resolve :: "nat \<Rightarrow> 'd fh_env \<Rightarrow> firehose_op list \<Rightarrow> ('d, int \<times> firehose_op list) fhm" where
  "fh_resolve fuel E ops s =
     (case gpt_resolve_deferrals fuel (fh_sector_reader fuel E) (dev_type (fh_dev s) = QDL_DEVICE_SIM)
             (sector_size (fh_dev s)) (env_stk E) (Some s) (fh_gpt s) ops of
        Some (r, ops', tbl, Some s') \<Rightarrow> Some ((r, ops'), s'\<lparr>fh_gpt := tbl\<rparr>)
      | _ \<Rightarrow> None)"

text \<open>
  The operation at index \<open>i\<close>: a non-zero result ends the execution. Configuring resolves the whole
  queue, and a digest is stored in its operation.
\<close>

definition keep_ops :: "firehose_op list \<Rightarrow> int \<Rightarrow> ('d, int \<times> firehose_op list) fhm" where
  "keep_ops ops ret = sret (if ret < 0 then ret else 0, ops)"

definition firehose_execute_op :: "nat \<Rightarrow> 'd fh_env \<Rightarrow> firehose_op list \<Rightarrow> nat \<Rightarrow> ('d, int \<times> firehose_op list) fhm" where
  "firehose_execute_op fuel E ops i =
     (let op = ops ! i in
      case op_type op of
        FIREHOSE_OP_CONFIGURE \<Rightarrow>
          sbind (firehose_detect_and_configure fuel E False (op_storage_type op) 5) (\<lambda>ret.
            if ret \<noteq> 0 then sret (ret, ops) else fh_resolve fuel E ops)
      | FIREHOSE_OP_PROGRAM \<Rightarrow> sbind (firehose_program fuel E op) (keep_ops ops)
      | FIREHOSE_OP_ERASE \<Rightarrow> sbind (firehose_erase fuel E op) (keep_ops ops)
      | FIREHOSE_OP_READ \<Rightarrow> sbind (firehose_read_op fuel E op) (keep_ops ops)
      | FIREHOSE_OP_GET_SHA256_DIGEST \<Rightarrow>
          sbind (firehose_getsha256digest fuel E op) (\<lambda>(ret, op'). keep_ops (ops[i := op']) ret)
      | FIREHOSE_OP_PATCH \<Rightarrow>
          sbind (firehose_apply_patch fuel E op) (\<lambda>ret.
            if ret \<noteq> 0 then sret (ret, ops)
            else sbind (count_stats (\<lambda>st. if op_filename op = Some ''DISK''
                                            then st\<lparr>st_patches := st_patches st + 1\<rparr> else st))
                   (\<lambda>_. sret (0, ops)))
      | FIREHOSE_OP_SET_BOOTABLE \<Rightarrow> sbind (firehose_set_bootable fuel E (op_partition op)) (\<lambda>_. sret (0, ops))
      | FIREHOSE_OP_RESET \<Rightarrow> sbind (firehose_reset fuel E) (keep_ops ops)
      | FIREHOSE_OP_NONE \<Rightarrow> sret (-1, ops))"

fun firehose_execute_from :: "nat \<Rightarrow> 'd fh_env \<Rightarrow> firehose_op list \<Rightarrow> nat \<Rightarrow> nat \<Rightarrow> ('d, int \<times> firehose_op list) fhm" where
  "firehose_execute_from fuel E ops i 0 = sret (0, ops)"
| "firehose_execute_from fuel E ops i (Suc n) =
     sbind (firehose_execute_op fuel E ops i) (\<lambda>(ret, ops').
       if ret \<noteq> 0 then sret (ret, ops') else firehose_execute_from fuel E ops' (i + 1) n)"

definition firehose_execute_ops :: "nat \<Rightarrow> 'd fh_env \<Rightarrow> firehose_op list \<Rightarrow> ('d, int \<times> firehose_op list) fhm" where
  "firehose_execute_ops fuel E ops = firehose_execute_from fuel E ops 0 (length ops)"

definition firehose_run :: "nat \<Rightarrow> 'd fh_env \<Rightarrow> firehose_op list \<Rightarrow> ('d, int \<times> firehose_op list) fhm" where
  "firehose_run fuel E ops =
     sbind (count_stats (\<lambda>_. stats_zero)) (\<lambda>_. firehose_execute_ops fuel E ops)"

definition firehose_open :: "nat \<Rightarrow> 'd fh_env \<Rightarrow> storage_type \<Rightarrow> ('d, int) fhm" where
  "firehose_open fuel E storage = firehose_detect_and_configure fuel E False storage 5"

subsection \<open>Block access\<close>

definition pread_op :: "int \<Rightarrow> nat \<Rightarrow> nat \<Rightarrow> nat \<Rightarrow> firehose_op" where
  "pread_op lun offset ssz num =
     (firehose_alloc_op FIREHOSE_OP_NONE)\<lparr>op_partition := lun, op_start_sector := Some (show_dec offset),
        op_num_sectors := of_nat num, op_sector_size := of_nat ssz\<rparr>"

definition firehose_pread ::
  "nat \<Rightarrow> 'd fh_env \<Rightarrow> int \<Rightarrow> nat \<Rightarrow> nat \<Rightarrow> nat \<Rightarrow> ('d, int \<times> u8 list) fhm" where
  "firehose_pread fuel E lun offset ssz num =
     sbind (firehose_read_buf fuel E (pread_op lun offset ssz num) (num * ssz)) (\<lambda>(ret, out).
       sret (if ret < 0 then ret else int (num * ssz), out))"

text \<open>The data loop of \<open>firehose_pwrite\<close>: it has none of the VIP hooks of \<open>firehose_stream_out\<close>.\<close>

fun pwrite_chunks :: "nat \<Rightarrow> 'd fh_env \<Rightarrow> nat \<Rightarrow> nat \<Rightarrow> u8 list \<Rightarrow> ('d, int) fhm" where
  "pwrite_chunks 0 E ssz left p s = None"
| "pwrite_chunks (Suc fuel) E ssz left p s =
     (if left = 0 then Some (0, s)
      else
        let chunk = min (max_payload_size (fh_dev s) div ssz) left in
        sbind (fh_send E (take (chunk * ssz) p) 10000) (\<lambda>ret.
          if ret < 0 \<or> ret \<noteq> int (chunk * ssz) then sret (-1)
          else pwrite_chunks fuel E ssz (left - chunk) (drop (chunk * ssz) p)) s)"

definition pwrite_attrs :: "int \<Rightarrow> nat \<Rightarrow> nat \<Rightarrow> nat \<Rightarrow> xml_attrs" where
  "pwrite_attrs lun offset ssz num =
     [(''SECTOR_SIZE_IN_BYTES'', show_dec ssz), (''num_partition_sectors'', show_dec num),
      (''physical_partition_number'', show_int lun), (''start_sector'', show_dec offset)]"

definition firehose_pwrite ::
  "nat \<Rightarrow> 'd fh_env \<Rightarrow> int \<Rightarrow> nat \<Rightarrow> u8 list \<Rightarrow> nat \<Rightarrow> nat \<Rightarrow> ('d, int) fhm" where
  "firehose_pwrite fuel E lun offset buf ssz num =
     sbind (firehose_write fuel E (fh_doc E ''program'' (pwrite_attrs lun offset ssz num))) (\<lambda>ret.
       if ret < 0 then sret ret
       else sbind (fh_recv_generic fuel E 10000) (\<lambda>ret.
         if ret < 0 then sret ret
         else sbind (pwrite_chunks fuel E ssz num buf) (\<lambda>ret.
           if ret < 0 then sret ret
           else sbind (fh_recv_generic fuel E 120000) (\<lambda>ret.
             sret (if ret < 0 then ret else int (num * ssz))))))"

end
