(* ===== verification/FhEx.thy ===== *)
theory FhEx
  imports FhRun
begin

text \<open>
  A device for examples: it acknowledges everything written to it, one message per read, and times
  out after 100 ms when nothing is left to acknowledge. Its state is the number of outstanding
  acknowledgements and the time; its link also records what was written.
\<close>

definition ack_doc :: "u8 list" where "ack_doc = xml_open @ data_close"

definition ex_node :: "string \<Rightarrow> (string \<times> string) list \<Rightarrow> xml_node" where
  "ex_node name attrs = \<lparr>xn_element = True, xn_name = name, xn_get = map_of attrs, xn_has = (\<lambda>a. map_of attrs a \<noteq> None)\<rparr>"

definition reply_xml :: "string \<Rightarrow> u8 list \<Rightarrow> xml_doc option" where
  "reply_xml v b = (if b = ack_doc then Some [(ex_node ''data'' [], [ex_node ''response'' [(''value'', v)]])] else None)"

definition ack_transport :: "(nat \<times> nat) transport" where
  "ack_transport =
     \<lparr>tr_read = (\<lambda>(k, tm) n t. case k of 0 \<Rightarrow> (Inl (- ETIMEDOUT), (0, tm + 100000)) | Suc j \<Rightarrow> (Inr ack_doc, (j, tm))),
      tr_write = (\<lambda>(k, tm) m t. (int (length m), (Suc k, tm)))\<rparr>"

text \<open>Every reply carries the same value, an acknowledgement or a refusal.\<close>

definition reply_env :: "string \<Rightarrow> file_system \<Rightarrow> ((nat \<times> nat) \<times> u8 list list) fh_env" where
  "reply_env v fs = \<lparr>env_tr = tap ack_transport, env_clock = (\<lambda>((k, tm), L). tm), env_xml = reply_xml v,
     env_dump = (\<lambda>tag attrs. bytes_of tag), env_fs = fs, env_stk = replicate 512 0\<rparr>"

definition ex_fh :: "'d \<Rightarrow> 'd fh" where
  "ex_fh d = \<lparr>fh_dev = fresh_device QDL_DEVICE_USB d, fh_gen = None, fh_host = ex_host, fh_stats = stats_zero, fh_gpt = []\<rparr>"

definition set_link :: "'d \<Rightarrow> 'd fh \<Rightarrow> 'd fh" where
  "set_link d s = s\<lparr>fh_dev := (fh_dev s)\<lparr>link := d\<rparr>\<rparr>"

text \<open>A session of the example that is between two messages.\<close>

definition idle :: "'d fh \<Rightarrow> bool" where
  "idle s \<longleftrightarrow> pending_buf (fh_dev s) = None \<and> vip_st (vip_data (fh_dev s)) = VIP_DISABLED
     \<and> \<not> fh_parse_status (vip_data (fh_dev s)) \<and> fh_gen s = None"

lemma set_link_simps [simp]:
  "link (fh_dev (set_link d s)) = d" "set_link d' (set_link d s) = set_link d' s" "idle (set_link d s) = idle s"
  "max_payload_size (fh_dev (set_link d s)) = max_payload_size (fh_dev s)"
  "sector_size (fh_dev (set_link d s)) = sector_size (fh_dev s)"
  "slot_id (fh_dev (set_link d s)) = slot_id (fh_dev s)"
  "fh_host (set_link d s) = fh_host s" "fh_stats (set_link d s) = fh_stats s"
  by (simp_all add: set_link_def idle_def)

lemma ex_fh_idle [simp]: "idle (ex_fh d)" "link (fh_dev (ex_fh d)) = d"
  by (simp_all add: idle_def ex_fh_def fresh_device_def vip_zero_def)

definition reply_code :: "string \<Rightarrow> int" where
  "reply_code v = (if v = ''ACK'' then 0 else 1)"

lemma next_ack: "next_document ack_doc = Some (ack_doc, [])" "next_document [] = None"
  by (simp_all add: next_document_def ack_doc_def c_bytes_def Let_def)

lemma reply_walk:
  assumes "v = ''ACK'' \<or> v = ''NAK''"
  shows "read_walk (reply_env v fs) firehose_generic_parser ack_doc resp () q = (Inr (reply_code v, False), (), q)"
proof -
  have p: "firehose_response_parse (reply_env v fs) ack_doc = Inr (ex_node ''response'' [(''value'', v)])"
    by (simp add: firehose_response_parse_def reply_env_def reply_xml_def ex_node_def)
  have m: "firehose_check_vip_marker q (ex_node ''response'' [(''value'', v)]) = q"
    by (simp add: firehose_check_vip_marker_def ex_node_def)
  have g: "firehose_generic_parser () (ex_node ''response'' [(''value'', v)]) False = (reply_code v, (), False)"
    using assms by (auto simp: firehose_generic_parser_def ex_node_def reply_code_def FIREHOSE_ACK_def FIREHOSE_NAK_def)
  have e: "read_walk (reply_env v fs) firehose_generic_parser [] resp' () q = (Inr (resp', False), (), q)" for resp'
    by (subst read_walk.simps) (simp add: next_ack)
  show ?thesis
    by (subst read_walk.simps) (simp add: next_ack p m g e Let_def reply_code_def)
qed

lemma reply_loop:
  assumes "v = ''ACK'' \<or> v = ''NAK''"
  shows "k + 1 < fuel \<Longrightarrow> pending_buf q = None \<Longrightarrow> link q = ((k, tm), L) \<Longrightarrow> (k = 0 \<Longrightarrow> resp = reply_code v) \<Longrightarrow>
    firehose_read_loop fuel (reply_env v fs) dl firehose_generic_parser resp () q
      = Some (reply_code v, (), q\<lparr>link := ((0, tm + 100000), L)\<rparr>)"
proof (induction fuel arbitrary: k resp q)
  case (Suc fuel)
  show ?case
  proof (cases k)
    case 0
    have "0 \<le> reply_code v" by (simp add: reply_code_def)
    then show ?thesis using Suc.prems 0
      by (simp add: reply_env_def ack_transport_def tap_def qdl_read_def)
  next
    case (Suc j)
    have rd: "qdl_read (env_tr (reply_env v fs)) q 4095 100 = (Inr ack_doc, q\<lparr>link := ((j, tm), L)\<rparr>)"
      using Suc.prems Suc by (simp add: reply_env_def ack_transport_def tap_def qdl_read_def)
    have ne: "ack_doc \<noteq> []" by (simp add: ack_doc_def)
    show ?thesis
      using Suc.IH [of j "q\<lparr>link := ((j, tm), L)\<rparr>" "reply_code v"] Suc.prems Suc
      by (simp add: rd ne reply_walk [OF assms])
  qed
qed simp

lemma reply_recv:
  assumes "v = ''ACK'' \<or> v = ''NAK''" "idle s" "link (fh_dev s) = ((Suc k, tm), L)" "k + 2 < fuel"
  shows "fh_recv_generic fuel (reply_env v fs) t s = Some (reply_code v, set_link ((0, tm + 100000), L) s)"
  using reply_loop [OF assms(1), of "Suc k" fuel "fh_dev s" tm L] assms(2-4)
  by (simp add: fh_recv_generic_def sbind_def sret_def fh_recv_def firehose_read_def idle_def set_link_def)

lemma reply_write:
  assumes "idle s" "link (fh_dev s) = ((k, tm), L)" "0 < fuel"
  shows "firehose_write fuel (reply_env v fs) buf s = Some (0, set_link ((Suc k, tm), L @ [buf]) s)"
proof -
  obtain fu where "fuel = Suc fu" using assms(3) by (cases fuel) auto
  then show ?thesis using assms
    by (auto simp: firehose_write_def firehose_vip_send_table_def vip_transfer_handle_tables_def idle_def
        vip_transfer_status_check_needed_def sbind_def sret_def fh_chunk_init_def fh_chunk_update_def
        fh_chunk_store_def fh_send_def vip_gen_chunk_init_def vip_gen_chunk_update_def vip_gen_chunk_store_def
        qdl_write_def reply_env_def tap_def ack_transport_def set_link_def intro!: fh.equality)
qed

lemma reply_send:
  assumes "link (fh_dev s) = ((k, tm), L)"
  shows "fh_send (reply_env v fs) buf t s = Some (int (length buf), set_link ((Suc k, tm), L @ [buf]) s)"
  using assms by (simp add: fh_send_def qdl_write_def reply_env_def tap_def ack_transport_def set_link_def)

text \<open>With nothing outstanding a wait of \<open>n\<close> tenths of a second times out.\<close>

lemma silent_loop:
  "pending_buf q = None \<Longrightarrow> link q = ((0, tm), L) \<Longrightarrow> n < fuel \<Longrightarrow>
   firehose_read_loop fuel (reply_env v fs) (tm + 100000 * Suc n) firehose_generic_parser (- EIO) () q
     = Some (- ETIMEDOUT, (), q\<lparr>link := ((0, tm + 100000 * Suc n), L)\<rparr>)"
proof (induction n arbitrary: tm q fuel)
  case 0
  then obtain fu where fu: "fuel = Suc fu" by (cases fuel) auto
  have rd: "qdl_read (env_tr (reply_env v fs)) q 4095 100 = (Inl (- ETIMEDOUT), q\<lparr>link := ((0, tm + 100000), L)\<rparr>)"
    using "0.prems" by (simp add: reply_env_def ack_transport_def tap_def qdl_read_def)
  show ?case by (simp add: fu rd) (simp add: reply_env_def)
next
  case (Suc n)
  then obtain fu where fu: "fuel = Suc fu" by (cases fuel) auto
  have rd: "qdl_read (env_tr (reply_env v fs)) q 4095 100 = (Inl (- ETIMEDOUT), q\<lparr>link := ((0, tm + 100000), L)\<rparr>)"
    using Suc.prems by (simp add: reply_env_def ack_transport_def tap_def qdl_read_def)
  have ck: "env_clock (reply_env v fs) ((0, tm + 100000), L) < tm + 100000 * Suc (Suc n)"
    by (simp add: reply_env_def)
  have t: "tm + 100000 * Suc (Suc n) = (tm + 100000) + 100000 * Suc n" by simp
  have "firehose_read_loop fuel (reply_env v fs) (tm + 100000 * Suc (Suc n)) firehose_generic_parser (- EIO) () q
      = firehose_read_loop fu (reply_env v fs) (tm + 100000 * Suc (Suc n)) firehose_generic_parser (- EIO) ()
          (q\<lparr>link := ((0, tm + 100000), L)\<rparr>)"
    using ck by (simp add: fu rd del: mult_Suc_right)
  also have "\<dots> = Some (- ETIMEDOUT, (), q\<lparr>link := ((0, tm + 100000 * Suc (Suc n)), L)\<rparr>)"
    using Suc.IH [of "q\<lparr>link := ((0, tm + 100000), L)\<rparr>" "tm + 100000" fu] Suc.prems fu
    unfolding t by (simp del: mult_Suc_right)
  finally show ?case .
qed

lemma silent_recv:
  assumes "idle s" "link (fh_dev s) = ((0, tm), L)" "n < fuel"
  shows "fh_recv_generic fuel (reply_env v fs) (100 * Suc n) s
      = Some (- ETIMEDOUT, set_link ((0, tm + 100000 * Suc n), L) s)"
proof -
  have "env_clock (reply_env v fs) (link (fh_dev s)) + 1000 * (100 * Suc n) = tm + 100000 * Suc n"
    using assms(2) by (simp add: reply_env_def)
  then show ?thesis
    using silent_loop [of "fh_dev s" tm L n fuel] assms
    by (simp add: fh_recv_generic_def sbind_def sret_def fh_recv_def firehose_read_def idle_def set_link_def
        del: mult_Suc_right)
qed

end
