(* ===== verification/FhLink.thy ===== *)
theory FhLink
  imports FhEx
begin

text \<open>
  What every firehose operation keeps while VIP is not active: a predicate on the link that reads
  keep and that writes of acceptable messages keep. The predicate and the messages are parameters,
  so the same lemmas give both what a session may send and that waiting for a response sends
  nothing.
\<close>

definition novip :: "'d qdl_device \<Rightarrow> bool" where
  "novip q \<longleftrightarrow> vip_st (vip_data q) = VIP_DISABLED \<and> \<not> fh_parse_status (vip_data q)"

definition fh_good :: "('d \<Rightarrow> bool) \<Rightarrow> 'd fh \<Rightarrow> bool" where
  "fh_good ok s \<longleftrightarrow> novip (fh_dev s) \<and> ok (link (fh_dev s))"

lemma vip_data_read [simp]: "vip_data (snd (qdl_read T q n t)) = vip_data q"
  by (rule qdl_read_frame)

lemma novip_marker [simp]: "novip (firehose_check_vip_marker q node) = novip q"
  by (auto simp: firehose_check_vip_marker_def novip_def upd_vip_def split: option.splits)

lemma link_marker [simp]: "link (firehose_check_vip_marker q node) = link q"
  by (auto simp: firehose_check_vip_marker_def upd_vip_def split: option.splits)

lemma vip_push_back [simp]: "vip_data (snd (qdl_push_back q buf)) = vip_data q"
  by (auto simp: qdl_push_back_def Let_def split: option.splits)

lemma novip_push_back [simp]: "novip (snd (qdl_push_back q buf)) = novip q"
  by (simp add: novip_def)

lemma read_walk_frame:
  "read_walk E parser buf resp data q = (r, data', q') \<Longrightarrow> link q' = link q \<and> novip q' = novip q"
proof (induction E parser buf resp data q rule: read_walk.induct)
  case (1 E parser buf resp data q)
  from "1.prems" show ?case
    by (subst (asm) read_walk.simps)
      (auto simp: Let_def split: option.splits sum.splits prod.splits if_splits dest!: "1.IH")
qed

locale fh_link = guarded_link T ok msg
  for T :: "'d transport" and ok :: "'d \<Rightarrow> bool" and msg :: "u8 list \<Rightarrow> bool" +
  fixes E :: "'d fh_env"
  assumes env_tr: "env_tr E = T"
begin

lemma read_loop_good:
  "novip q \<Longrightarrow> ok (link q) \<Longrightarrow> firehose_read_loop fuel E dl parser resp data q = Some (r, data', q')
   \<Longrightarrow> novip q' \<and> ok (link q')"
proof (induction fuel arbitrary: resp data q)
  case (Suc fuel)
  obtain x q1 where rd: "qdl_read T q 4095 100 = (x, q1)" by fastforce
  have q1: "novip q1" "ok (link q1)"
    using Suc.prems(1,2) qdl_read_ok [of q 4095 100] vip_data_read [of T q 4095 100] rd by (auto simp: novip_def)
  show ?case
    using Suc.prems(3) rd q1 env_tr
    by (auto split: sum.splits if_splits prod.splits dest: Suc.IH [rotated 2] dest!: read_walk_frame)
qed simp

lemma recv_good [kept_intros]: "fh_good ok s \<Longrightarrow> kept (fh_good ok) (fh_recv fuel E t parser data s)"
  by (auto simp: fh_recv_def firehose_read_def post_def fh_good_def split: option.splits dest: read_loop_good)

lemma recv_generic_good [kept_intros]: "fh_good ok s \<Longrightarrow> kept (fh_good ok) (fh_recv_generic fuel E t s)"
  unfolding fh_recv_generic_def by (intro kept_rules recv_good)

lemma send_table_good [kept_intros]: "fh_good ok s \<Longrightarrow> kept (fh_good ok) (firehose_vip_send_table fuel E s)"
  by (simp add: firehose_vip_send_table_def vip_transfer_handle_tables_def fh_good_def novip_def
      vip_transfer_status_check_needed_def)

lemma gen_good [kept_intros]:
  "fh_good ok s \<Longrightarrow> kept (fh_good ok) (fh_chunk_init s)"
  "fh_good ok s \<Longrightarrow> kept (fh_good ok) (fh_chunk_update buf s)"
  "fh_good ok s \<Longrightarrow> kept (fh_good ok) (fh_chunk_store s)"
  by (auto simp: fh_chunk_init_def fh_chunk_update_def fh_chunk_store_def fh_good_def split: prod.split)

lemma send_good [kept_intros]: "fh_good ok s \<Longrightarrow> msg buf \<Longrightarrow> kept (fh_good ok) (fh_send E buf t s)"
proof -
  assume s: "fh_good ok s" and m: "msg buf"
  obtain n q1 where w: "qdl_write T (fh_dev s) buf t = (n, q1)" by fastforce
  have "vip_data q1 = vip_data (fh_dev s)" "ok (link q1)"
    using qdl_write_frame(2) [where T = T and q = "fh_dev s" and b = buf and t = t]
      qdl_write_ok [of "fh_dev s" buf t] s m w by (simp_all add: fh_good_def)
  then show ?thesis using s w by (simp add: fh_send_def fh_good_def novip_def env_tr)
qed

lemma write_retry_good [kept_intros]: "fh_good ok s \<Longrightarrow> msg buf \<Longrightarrow> kept (fh_good ok) (write_retry fuel E buf s)"
  by (induction fuel arbitrary: s) (auto intro!: kept_rules kept_intros)

lemma write_good [kept_intros]: "fh_good ok s \<Longrightarrow> msg buf \<Longrightarrow> kept (fh_good ok) (firehose_write fuel E buf s)"
  unfolding firehose_write_def by (intro kept_rules kept_intros)

lemma read_chunk_good [kept_intros]: "fh_good ok s \<Longrightarrow> kept (fh_good ok) (read_chunk fuel E want got s)"
proof (induction fuel arbitrary: got s)
  case (Suc fuel)
  obtain x q1 where rd: "qdl_read T (fh_dev s) (want - length got) 30000 = (x, q1)" by fastforce
  have "fh_good ok (s\<lparr>fh_dev := q1\<rparr>)"
    using Suc.prems qdl_read_ok [of "fh_dev s" "want - length got" 30000]
      vip_data_read [of T "fh_dev s" "want - length got" 30000] rd
    by (auto simp: novip_def fh_good_def)
  then show ?case using Suc rd env_tr by (auto split: sum.split)
qed simp

lemma store_chunk_good [kept_intros]: "fh_good ok s \<Longrightarrow> kept (fh_good ok) (store_chunk dest out buf s)"
  by (auto simp: store_chunk_def fh_good_def Let_def split: read_dest.split)

lemma read_chunks_good [kept_intros]: "fh_good ok s \<Longrightarrow> kept (fh_good ok) (read_chunks fuel E dest ss left out s)"
proof (induction fuel arbitrary: left out s)
  case (Suc fuel)
  then show ?case by (auto simp: Let_def intro!: kept_rules kept_intros split: option.split)
qed simp

lemma issue_read_good [kept_intros]:
  "fh_good ok s \<Longrightarrow> (\<And>attrs. msg (env_dump E ''read'' attrs)) \<Longrightarrow>
   kept (fh_good ok) (firehose_issue_read fuel E op dest s)"
  unfolding firehose_issue_read_def Let_def
  by (intro kept_rules kept_intros) (auto simp: fh_doc_def count_read_def fh_good_def split: read_dest.split)

lemma read_op_good [kept_intros]:
  "fh_good ok s \<Longrightarrow> (\<And>attrs. msg (env_dump E ''read'' attrs)) \<Longrightarrow>
   kept (fh_good ok) (firehose_read_op fuel E op s)"
  unfolding firehose_read_op_def
  by (intro kept_rules kept_intros) (auto simp: fh_good_def)

lemma send_configure_good [kept_intros]:
  "fh_good ok s \<Longrightarrow> (\<And>attrs. msg (env_dump E ''configure'' attrs)) \<Longrightarrow>
   kept (fh_good ok) (firehose_send_configure fuel E payload skip storage sz s)"
  unfolding firehose_send_configure_def
  by (intro kept_rules kept_intros) (auto simp: fh_doc_def)

lemma probe_good [kept_intros]:
  "fh_good ok s \<Longrightarrow> (\<And>attrs. msg (env_dump E ''read'' attrs)) \<Longrightarrow>
   kept (fh_good ok) (probe_sector_size fuel E sizes s)"
  by (induction sizes arbitrary: s)
    (auto simp: firehose_read_buf_def fh_good_def novip_def intro!: kept_rules kept_intros)

lemma try_configure_good [kept_intros]:
  "fh_good ok s \<Longrightarrow> (\<And>attrs. msg (env_dump E ''configure'' attrs)) \<Longrightarrow> (\<And>attrs. msg (env_dump E ''read'' attrs)) \<Longrightarrow>
   kept (fh_good ok) (firehose_try_configure fuel E skip storage s)"
  unfolding firehose_try_configure_def Let_def set_payload_def
  by (intro kept_rules kept_intros) (auto simp: fh_good_def novip_def intro!: kept_rules kept_intros)

lemma configure_retry_good [kept_intros]:
  "fh_good ok s \<Longrightarrow> (\<And>attrs. msg (env_dump E ''configure'' attrs)) \<Longrightarrow> (\<And>attrs. msg (env_dump E ''read'' attrs)) \<Longrightarrow>
   kept (fh_good ok) (configure_retry fuel E skip storage dl s)"
proof (induction fuel arbitrary: s)
  case (Suc fuel)
  show ?case unfolding configure_retry.simps
    by (intro kept_rules try_configure_good Suc) auto
qed simp

lemma detect_good [kept_intros]:
  "fh_good ok s \<Longrightarrow> (\<And>attrs. msg (env_dump E ''configure'' attrs)) \<Longrightarrow> (\<And>attrs. msg (env_dump E ''read'' attrs)) \<Longrightarrow>
   kept (fh_good ok) (firehose_detect_and_configure fuel E skip storage t s)"
  by (auto simp: firehose_detect_and_configure_def map_dev_def sbind_def fh_good_def novip_def
      intro!: configure_retry_good)

lemma erase_good [kept_intros]:
  "fh_good ok s \<Longrightarrow> (\<And>attrs. msg (env_dump E ''erase'' attrs)) \<Longrightarrow> kept (fh_good ok) (firehose_erase fuel E op s)"
  unfolding firehose_erase_def
  by (intro kept_rules kept_intros) (auto simp: fh_doc_def count_stats_def fh_good_def)

lemma digest_good [kept_intros]:
  "fh_good ok s \<Longrightarrow> (\<And>attrs. msg (env_dump E ''getsha256digest'' attrs)) \<Longrightarrow>
   kept (fh_good ok) (firehose_getsha256digest fuel E op s)"
  unfolding firehose_getsha256digest_def Let_def
  by (intro kept_rules kept_intros) (auto simp: fh_doc_def)

lemma patch_good [kept_intros]:
  "fh_good ok s \<Longrightarrow> (\<And>attrs. msg (env_dump E ''patch'' attrs)) \<Longrightarrow> kept (fh_good ok) (firehose_apply_patch fuel E op s)"
  unfolding firehose_apply_patch_def
  by (intro kept_rules kept_intros) (auto simp: fh_doc_def)

lemma set_bootable_good [kept_intros]:
  "fh_good ok s \<Longrightarrow> (\<And>attrs. msg (env_dump E ''setbootablestoragedrive'' attrs)) \<Longrightarrow>
   kept (fh_good ok) (firehose_set_bootable fuel E part s)"
  unfolding firehose_set_bootable_def
  by (intro kept_rules kept_intros) (auto simp: fh_doc_def)

lemma reset_good [kept_intros]:
  "fh_good ok s \<Longrightarrow> (\<And>attrs. msg (env_dump E ''power'' attrs)) \<Longrightarrow> kept (fh_good ok) (firehose_reset fuel E s)"
  unfolding firehose_reset_def
  by (intro kept_rules kept_intros) (auto simp: fh_doc_def)

end

end
