(* ===== verification/FhSession.thy ===== *)
theory FhSession
  imports FhLink GptProps
begin

text \<open>
  Whole sessions: the partition table loader on the firehose sector reader, the execution of a
  queue, and what a queue that only reads may send.
\<close>

subsection \<open>The reader under the partition tables\<close>

text \<open>A predicate that the sector reader keeps is kept by everything built on it.\<close>

locale kept_reader =
  fixes rd :: "'s sector_reader" and P :: "'s \<Rightarrow> bool"
  assumes rd_kept: "P s \<Longrightarrow> P (snd (rd s o1 n))"
begin

lemma entries_kept: "P s \<Longrightarrow> gpt_entries rd ssz phys gpt n i buf s tbl = (r, tbl', s') \<Longrightarrow> P s'"
proof (induction n arbitrary: i buf s tbl)
  case (Suc n)
  show ?case
    using Suc.prems rd_kept [OF Suc.prems(1)]
    by (auto simp: Let_def split: if_splits prod.splits option.splits dest: Suc.IH [rotated])
      (metis Suc.IH snd_conv)+
qed simp

lemma load_table_kept:
  "P s \<Longrightarrow> gpt_load_table_from_partition rd ssz stk phys s tbl = (r, tbl', s') \<Longrightarrow> P s'"
  using rd_kept [of s "gpt_read_op ssz phys ''1''" 512]
  by (auto simp: gpt_load_table_from_partition_def Let_def split: if_splits prod.splits option.splits
      dest: entries_kept)

lemma load_loop_kept:
  "P s \<Longrightarrow> gpt_load_loop fuel rd ssz stk i s tbl = Some (r, tbl', s') \<Longrightarrow> P s'"
proof (induction fuel arbitrary: i s tbl)
  case (Suc fuel)
  then show ?case
    by (auto split: prod.splits if_splits dest: load_table_kept Suc.IH [rotated])
qed simp

lemma load_tables_kept:
  "P s \<Longrightarrow> gpt_load_tables fuel rd ssz stk s tbl = Some (r, tbl', s') \<Longrightarrow> P s'"
  by (auto simp: gpt_load_tables_def split: if_splits dest: load_loop_kept)

lemma find_kept:
  "P s \<Longrightarrow> gpt_find_by_name fuel rd sim ssz stk name phys s tbl = Some (r, tbl', s') \<Longrightarrow> P s'"
  by (auto simp: gpt_find_by_name_def split: if_splits option.splits dest: load_tables_kept)

lemma resolve_kept:
  "P s \<Longrightarrow> gpt_resolve_deferrals fuel rd sim ssz stk s tbl ops = Some (r, ops', tbl', s') \<Longrightarrow> P s'"
proof (induction ops arbitrary: s tbl ops')
  case (Cons o1 ops)
  show ?case
  proof (cases "gpt_addressed o1")
    case False
    then obtain ops1 where "gpt_resolve_deferrals fuel rd sim ssz stk s tbl ops = Some (r, ops1, tbl', s')"
      using Cons.prems(2) by auto
    then show ?thesis by (rule Cons.IH [OF Cons.prems(1)])
  next
    case True
    let ?find = "gpt_find_by_name fuel rd sim ssz stk (bytes_of (the (op_gpt_partition o1))) (op_partition o1) s tbl"
    obtain x phys tbl1 s1 where f: "?find = Some ((x, phys), tbl1, s1)"
      using Cons.prems(2) True by (cases ?find) auto
    have s1: "P s1" by (rule find_kept [OF Cons.prems(1) f])
    show ?thesis
    proof (cases x)
      case None
      then show ?thesis using Cons.prems(2) True f s1 by simp
    next
      case (Some y)
      obtain start num where "y = (start, num)" by (cases y)
      then have "s' = s1 \<or> (\<exists>ops1. gpt_resolve_deferrals fuel rd sim ssz stk s1 tbl1 ops = Some (r, ops1, tbl', s'))"
        using Cons.prems(2) True f Some by (auto split: if_splits)
      then show ?thesis using s1 Cons.IH [OF s1] by blast
    qed
  qed
qed simp

end

text \<open>Resolution changes where an operation goes, not what it does.\<close>

lemma gpt_place_type [simp]: "op_type (gpt_place o1 r) = op_type o1" "op_filename (gpt_place o1 r) = op_filename o1"
  by (auto simp: gpt_place_def split: prod.split)

lemma resolve_types:
  "gpt_resolve_deferrals fuel rd sim ssz stk s tbl ops = Some (r, ops', tbl', s') \<Longrightarrow> map op_type ops' = map op_type ops"
  by (induction ops arbitrary: s tbl ops') (auto split: if_splits option.splits prod.splits)

definition fh_opt :: "('s \<Rightarrow> bool) \<Rightarrow> 's option \<Rightarrow> bool" where
  "fh_opt P so \<longleftrightarrow> (case so of None \<Rightarrow> True | Some s \<Rightarrow> P s)"

context fh_link begin

lemma sector_reader_kept:
  assumes "\<And>attrs. msg (env_dump E ''read'' attrs)" "fh_opt (fh_good ok) so"
  shows "fh_opt (fh_good ok) (snd (fh_sector_reader fuel E so o1 n))"
proof (cases so)
  case (Some s)
  then have "kept (fh_good ok) (firehose_read_buf fuel E o1 n s)"
    using assms unfolding firehose_read_buf_def by (intro issue_read_good) (simp_all add: fh_opt_def)
  then show ?thesis using Some
    by (auto simp: fh_sector_reader_def fh_opt_def post_def split: option.splits prod.splits)
qed (simp add: fh_sector_reader_def fh_opt_def)

lemma resolve_good:
  assumes "fh_good ok s" "\<And>attrs. msg (env_dump E ''read'' attrs)"
  shows "post (\<lambda>(r, ops') s'. fh_good ok s' \<and> map op_type ops' = map op_type ops) (fh_resolve fuel E ops s)"
proof -
  have K: "kept_reader (fh_sector_reader fuel E) (fh_opt (fh_good ok))"
    by unfold_locales (rule sector_reader_kept [OF assms(2)])
  have "fh_good ok s' \<and> map op_type ops' = map op_type ops"
    if "gpt_resolve_deferrals fuel (fh_sector_reader fuel E) sim ssz stk (Some s) tbl ops = Some (r, ops', tbl', Some s')"
    for sim ssz stk tbl r ops' tbl' s'
    using kept_reader.resolve_kept [OF K _ that] resolve_types [OF that] assms(1) by (simp add: fh_opt_def)
  then show ?thesis
    by (auto simp: fh_resolve_def post_def fh_good_def split: option.splits prod.splits)
qed

end

subsection \<open>A queue that only reads\<close>

definition reading_op :: "firehose_op_type \<Rightarrow> bool" where
  "reading_op t \<longleftrightarrow> t \<in> {FIREHOSE_OP_CONFIGURE, FIREHOSE_OP_READ, FIREHOSE_OP_GET_SHA256_DIGEST, FIREHOSE_OP_RESET}"

definition reading_queue :: "firehose_op list \<Rightarrow> bool" where
  "reading_queue ops \<longleftrightarrow> list_all reading_op (map op_type ops)"

definition reading_msg :: "'d fh_env \<Rightarrow> u8 list \<Rightarrow> bool" where
  "reading_msg E m \<longleftrightarrow> (\<exists>tag attrs. tag \<in> {''configure'', ''read'', ''getsha256digest'', ''power''} \<and> m = env_dump E tag attrs)"

lemma reading_msgs:
  "reading_msg E (env_dump E ''configure'' attrs)" "reading_msg E (env_dump E ''read'' attrs)"
  "reading_msg E (env_dump E ''getsha256digest'' attrs)" "reading_msg E (env_dump E ''power'' attrs)"
  by (auto simp: reading_msg_def)

locale reading_session = fh_link T ok "reading_msg E" E for T ok E
begin

lemma getsha_type: "post (\<lambda>(ret, op') s'. op_type op' = op_type op) (firehose_getsha256digest fuel E op s)"
proof -
  have p: "op_type (fst (snd (firehose_sha256_parser o1 node raw))) = op_type o1" for o1 node raw
    by (auto simp: firehose_sha256_parser_def firehose_generic_parser_def take_digest_def
        split: option.split prod.split)
  have w: "read_walk E firehose_sha256_parser buf resp o1 q = (x, o2, q') \<Longrightarrow> op_type o2 = op_type o1"
    for buf resp o1 q x o2 q'
  proof (induction buf arbitrary: resp o1 q rule: measure_induct_rule [of length])
    case (less buf)
    show ?case
    proof (cases "next_document buf")
      case (Some dr)
      obtain doc rest where dr: "dr = (doc, rest)" by fastforce
      have sh: "length rest < length buf" using next_document_shorter [of buf doc rest] Some dr by simp
      show ?thesis
      proof (cases "firehose_response_parse E doc")
        case (Inr node)
        obtain ret o3 raw where ps: "firehose_sha256_parser o1 node False = (ret, o3, raw)" by (metis prod_cases3)
        have "op_type o3 = op_type o1" using p [of o1 node False] ps by simp
        then show ?thesis using less.prems less.IH [OF sh] Some dr Inr ps
          by (subst (asm) read_walk.simps) (auto simp: Let_def split: if_splits)
      qed (use less.prems Some dr in \<open>subst (asm) read_walk.simps, simp\<close>)
    qed (use less.prems in \<open>subst (asm) read_walk.simps, simp\<close>)
  qed
  have l: "firehose_read_loop fu E dl firehose_sha256_parser resp o1 q = Some (r, o2, q') \<Longrightarrow> op_type o2 = op_type o1"
    for fu dl resp o1 q r o2 q'
    by (induction fu arbitrary: resp o1 q) (auto split: prod.splits sum.splits if_splits dest!: w)
  have r: "post (\<lambda>(ret, o2) s'. op_type o2 = op_type o1) (fh_recv fu E t firehose_sha256_parser o1 s)" for fu t o1 s
    by (auto simp: fh_recv_def firehose_read_def post_def split: option.splits dest: l)
  show ?thesis
    unfolding firehose_getsha256digest_def Let_def
  proof (rule post_sbind [where R = "\<lambda>_ _. True"], goal_cases)
    case (2 ret s1)
    show ?case
      by (rule post_if_fun; (rule post_sbind, rule r)?) (auto split: prod.split)
  qed (simp add: post_def split: option.split)
qed

lemma execute_op_good:
  assumes "fh_good ok s" "i < length ops" "reading_queue ops"
  shows "post (\<lambda>(ret, ops') s'. fh_good ok s' \<and> map op_type ops' = map op_type ops) (firehose_execute_op fuel E ops i s)"
proof -
  have ty: "op_type (ops ! i) \<in> {FIREHOSE_OP_CONFIGURE, FIREHOSE_OP_READ, FIREHOSE_OP_GET_SHA256_DIGEST, FIREHOSE_OP_RESET}"
    using assms(2,3) by (simp add: reading_queue_def list_all_length reading_op_def)
  note msgs = reading_msgs [of E]
  have keep: "post (\<lambda>(ret, ops') s'. fh_good ok s' \<and> map op_type ops' = map op_type ops) (sbind m (keep_ops ops) s)"
    if "kept (fh_good ok) (m s)" for m
    using that by (rule post_sbind) (simp add: keep_ops_def)
  show ?thesis
  proof (cases "op_type (ops ! i)")
    case FIREHOSE_OP_CONFIGURE
    have "kept (fh_good ok) (firehose_detect_and_configure fuel E False (op_storage_type (ops ! i)) 5 s)"
      by (intro detect_good assms(1) msgs)
    then show ?thesis unfolding firehose_execute_op_def Let_def FIREHOSE_OP_CONFIGURE firehose_op_type.case
      by (rule post_sbind) (intro post_if_fun resolve_good msgs; simp)
  next
    case FIREHOSE_OP_READ
    then show ?thesis by (simp add: firehose_execute_op_def) (intro keep read_op_good assms(1) msgs)
  next
    case FIREHOSE_OP_RESET
    then show ?thesis by (simp add: firehose_execute_op_def) (intro keep reset_good assms(1) msgs)
  next
    case FIREHOSE_OP_GET_SHA256_DIGEST
    have "post (\<lambda>(ret, op') s'. fh_good ok s' \<and> op_type op' = op_type (ops ! i)) (firehose_getsha256digest fuel E (ops ! i) s)"
      using post_conj [OF digest_good [OF assms(1) msgs(3), of fuel "ops ! i"] getsha_type [of "ops ! i" fuel s]]
      by (rule post_mono) auto
    then show ?thesis unfolding firehose_execute_op_def Let_def FIREHOSE_OP_GET_SHA256_DIGEST firehose_op_type.case
      by (rule post_sbind) (auto simp: keep_ops_def map_update list_update_same_conv assms(2) FIREHOSE_OP_GET_SHA256_DIGEST)
  qed (use ty in auto)
qed

lemma execute_from_good:
  "fh_good ok s \<Longrightarrow> i + n = length ops \<Longrightarrow> reading_queue ops \<Longrightarrow>
   kept (fh_good ok) (firehose_execute_from fuel E ops i n s)"
proof (induction n arbitrary: i ops s)
  case (Suc n)
  have R: "post (\<lambda>(ret, ops') s'. fh_good ok s' \<and> map op_type ops' = map op_type ops) (firehose_execute_op fuel E ops i s)"
    using Suc.prems by (intro execute_op_good) auto
  show ?case unfolding firehose_execute_from.simps
  proof (rule post_sbind, rule R, goal_cases)
    case (1 a s')
    obtain ret ops' where a: "a = (ret, ops')" by fastforce
    have len: "length ops' = length ops" using 1 a by (auto dest: map_eq_imp_length_eq)
    have "reading_queue ops'" using 1 a Suc.prems(3) by (simp add: reading_queue_def)
    then have "kept (fh_good ok) (firehose_execute_from fuel E ops' (i + 1) n s')"
      using 1 a len Suc.prems(2) by (intro Suc.IH) auto
    then show ?case using 1 a by simp
  qed
qed simp

lemma run_good:
  "fh_good ok s \<Longrightarrow> reading_queue ops \<Longrightarrow> kept (fh_good ok) (firehose_run fuel E ops s)"
  unfolding firehose_run_def firehose_execute_ops_def
  by (intro kept_sbind execute_from_good) (auto simp: count_stats_def fh_good_def)

end

interpretation reading_tap: reading_session "tap T" "log_ok (reading_msg (E\<lparr>env_tr := tap T\<rparr>))" "E\<lparr>env_tr := tap T\<rparr>"
  for T and E :: "('d \<times> u8 list list) fh_env"
  by unfold_locales simp

text \<open>
  C7: A queue that only reads is read-only on the wire. With VIP inactive, running a queue of configure,
  read, digest and reset operations, whatever the device answers and however it ends, writes
  nothing but configure, read, digest and power requests: no program, erase or patch request and
  no raw data ever leaves the host, not even while sector sizes are probed and partition names are
  resolved.
\<close>

theorem firehose_run_read_only:
  assumes "firehose_run fuel E ops s = Some (r, s')" "env_tr E = tap T" "novip (fh_dev s)" "reading_queue ops"
    and "list_all (reading_msg E) (snd (link (fh_dev s)))"
  shows "list_all (reading_msg E) (snd (link (fh_dev s')))"
proof -
  have E: "E\<lparr>env_tr := tap T\<rparr> = E" using assms(2) by simp
  have "kept (fh_good (log_ok (reading_msg E))) (firehose_run fuel E ops s)"
    using reading_tap.run_good [where T = T and E = E and s = s and ops = ops and fuel = fuel] assms(3-5) unfolding E
    by (simp add: fh_good_def log_ok_def)
  then show ?thesis using assms(1) by (auto simp: post_def fh_good_def log_ok_def)
qed

lemma firehose_run_read_only_witness:
  "\<exists>s'. firehose_run 12 (reply_env ''ACK'' (\<lambda>_. None)) [firehose_alloc_op FIREHOSE_OP_RESET] (ex_fh ((0, 0), []))
        = Some ((0, [firehose_alloc_op FIREHOSE_OP_RESET]), s')
    \<and> list_all (reading_msg (reply_env ''ACK'' (\<lambda>_. None))) (snd (link (fh_dev s')))"
proof -
  let ?E = "reply_env ''ACK'' (\<lambda>_. None)" and ?ops = "[firehose_alloc_op FIREHOSE_OP_RESET]"
  let ?s = "ex_fh ((0, 0), []) :: ((nat \<times> nat) \<times> u8 list list) fh"
  have t: "op_type (firehose_alloc_op FIREHOSE_OP_RESET) = FIREHOSE_OP_RESET" by (simp add: firehose_alloc_op_def)
  have "fh_recv_generic 12 ?E 1000 (set_link ((0, 100000), [fh_doc ?E ''power'' [(''value'', ''reset''), (''DelayInSeconds'', ''10'')]]) ?s)
      = Some (- ETIMEDOUT, set_link ((0, 1100000), [fh_doc ?E ''power'' [(''value'', ''reset''), (''DelayInSeconds'', ''10'')]]) ?s)"
    using silent_recv [of "set_link ((0, 100000), [fh_doc ?E ''power'' [(''value'', ''reset''), (''DelayInSeconds'', ''10'')]]) ?s"
        100000 _ 9 12 "''ACK''" "\<lambda>_. None"] by simp
  then have "firehose_reset 12 ?E ?s
      = Some (0, set_link ((0, 1100000), [fh_doc ?E ''power'' [(''value'', ''reset''), (''DelayInSeconds'', ''10'')]]) ?s)"
    by (simp add: firehose_reset_def sbind_def reply_write [where k = 0 and tm = 0 and L = "[]"]
        reply_recv [where k = 0 and tm = 0 and L = "[fh_doc ?E ''power'' [(''value'', ''reset''), (''DelayInSeconds'', ''10'')]]"]
        reply_code_def FIREHOSE_ACK_def sret_def)
  moreover have "count_stats (\<lambda>_. stats_zero) ?s = Some ((), ?s)" by (simp add: count_stats_def ex_fh_def)
  ultimately obtain s' where run: "firehose_run 12 ?E ?ops ?s = Some ((0, ?ops), s')"
    by (simp add: firehose_run_def firehose_execute_ops_def firehose_execute_op_def t sbind_def keep_ops_def sret_def)
  have "env_tr ?E = tap ack_transport" "novip (fh_dev ?s)" "reading_queue ?ops"
    "list_all (reading_msg ?E) (snd (link (fh_dev ?s)))"
    by (simp_all add: reply_env_def novip_def ex_fh_def fresh_device_def vip_zero_def reading_queue_def t reading_op_def)
  from firehose_run_read_only [OF run this] run show ?thesis by blast
qed

end
