(* ===== verification/FhData.thy ===== *)
theory FhData
  imports FhLink VipProps
begin

text \<open>
  The data that programming puts on the wire: the packets of a region, their digests, and the
  digest the skip-block check compares.
\<close>

subsection \<open>The bytes of a region\<close>

text \<open>\<open>n\<close> bytes of a file from \<open>pos\<close>, zeros beyond its end.\<close>

definition region_bytes :: "nat \<Rightarrow> nat \<Rightarrow> u8 list \<Rightarrow> u8 list" where
  "region_bytes pos n d = sub_buf pos n d @ replicate (n - (length d - pos)) 0"

lemma length_region_bytes [simp]: "length (region_bytes pos n d) = n"
  by (simp add: region_bytes_def)

lemma region_bytes_0 [simp]: "region_bytes pos 0 d = []"
  by (simp add: region_bytes_def)

text \<open>Splitting a region where a read has left the file position.\<close>

lemma region_bytes_split:
  "region_bytes pos (n + m) d = region_bytes pos n d @ region_bytes (pos + min n (length d - pos)) m d"
proof (cases "n \<le> length d - pos")
  case True
  have "region_bytes pos (n + m) d = (sub_buf pos n d @ sub_buf (pos + n) m d) @ replicate (n + m - (length d - pos)) 0"
    unfolding sub_buf_append region_bytes_def ..
  moreover have "n + m - (length d - pos) = m - (length d - (pos + n))" using True by simp
  ultimately show ?thesis using True by (simp add: region_bytes_def)
next
  case False
  then have "sub_buf pos (n + m) d = sub_buf pos n d" "sub_buf (pos + min n (length d - pos)) m d = []"
    by (simp_all add: sub_buf_def)
  then show ?thesis using False by (simp add: region_bytes_def replicate_add [symmetric])
qed

lemma chunk_data_file:
  assumes "readable f"
  shows "chunk_data None f n = (Some (region_bytes (ff_pos f) n (ff_data f)),
           f\<lparr>ff_pos := ff_pos f + min n (length (ff_data f) - ff_pos f)\<rparr>)"
  using qdl_file_read_exact_content [OF assms, of n]
  by (auto simp: chunk_data_def region_bytes_def min_def)

subsection \<open>One request, one packet\<close>

text \<open>The messages written so far, on a link that records them.\<close>

definition wlog :: "('d \<times> u8 list list) fh \<Rightarrow> u8 list list" where
  "wlog s = snd (link (fh_dev s))"

text \<open>Everything but the log, the untapped link and what was pushed back.\<close>

definition same_setup :: "'d fh \<Rightarrow> 'd fh \<Rightarrow> bool" where
  "same_setup s s' \<longleftrightarrow> max_payload_size (fh_dev s') = max_payload_size (fh_dev s) \<and> novip (fh_dev s')"

lemma send_table_novip: "novip (fh_dev s) \<Longrightarrow> firehose_vip_send_table fuel E s = Some (0, s)"
  by (simp add: firehose_vip_send_table_def vip_transfer_handle_tables_def novip_def
      vip_transfer_status_check_needed_def)

lemma mp_push_back [simp]: "max_payload_size (snd (qdl_push_back q buf)) = max_payload_size q"
  by (auto simp: qdl_push_back_def Let_def split: option.splits)

lemma mp_marker [simp]: "max_payload_size (firehose_check_vip_marker q node) = max_payload_size q"
  by (auto simp: firehose_check_vip_marker_def upd_vip_def split: option.splits)

lemma read_walk_mp:
  "read_walk E parser buf resp data q = (r, data', q') \<Longrightarrow> max_payload_size q' = max_payload_size q"
proof (induction E parser buf resp data q rule: read_walk.induct)
  case (1 E parser buf resp data q)
  from "1.prems" show ?case
    by (subst (asm) read_walk.simps)
      (auto simp: Let_def split: option.splits sum.splits prod.splits if_splits dest!: "1.IH")
qed

lemma read_loop_mp:
  "firehose_read_loop fuel E dl parser resp data q = Some (r, data', q') \<Longrightarrow> max_payload_size q' = max_payload_size q"
proof (induction fuel arbitrary: resp data q)
  case (Suc fuel)
  obtain x q1 where rd: "qdl_read (env_tr E) q 4095 100 = (x, q1)" by fastforce
  have "max_payload_size q1 = max_payload_size q"
    using qdl_read_frame(3) [of "env_tr E" q 4095 100] rd by (metis snd_conv)
  then show ?case
    using Suc.prems rd
    by (auto split: sum.splits if_splits prod.splits dest: Suc.IH dest!: read_walk_mp)
qed simp

interpretation quiet: fh_link "tap T" "\<lambda>d. snd d = L" "\<lambda>_. False" "E\<lparr>env_tr := tap T\<rparr>"
  for T L and E :: "('d \<times> u8 list list) fh_env"
  by unfold_locales (auto simp: tap_def split: prod.split)

text \<open>Waiting for a response writes nothing and leaves the generator alone.\<close>

lemma recv_quiet:
  assumes "env_tr E = tap T" "novip (fh_dev s)"
  shows "post (\<lambda>_ s'. wlog s' = wlog s \<and> same_setup s s' \<and> fh_gen s' = fh_gen s \<and> fh_host s' = fh_host s)
           (fh_recv fuel E t parser data s)"
proof -
  have E: "E = E\<lparr>env_tr := tap T\<rparr>" using assms(1) by simp
  have "kept (fh_good (\<lambda>d. snd d = wlog s)) (fh_recv fuel (E\<lparr>env_tr := tap T\<rparr>) t parser data s)"
    by (rule quiet.recv_good) (simp add: fh_good_def wlog_def assms(2))
  then show ?thesis unfolding E [symmetric]
    by (auto simp: fh_recv_def post_def firehose_read_def wlog_def fh_good_def same_setup_def
        split: option.splits dest: read_loop_mp)
qed

lemma recv_generic_quiet:
  assumes "env_tr E = tap T" "novip (fh_dev s)"
  shows "post (\<lambda>_ s'. wlog s' = wlog s \<and> same_setup s s' \<and> fh_gen s' = fh_gen s \<and> fh_host s' = fh_host s)
           (fh_recv_generic fuel E t s)"
  unfolding fh_recv_generic_def by (rule post_sbind, rule recv_quiet [OF assms]) auto

lemma fh_send_tap:
  assumes "env_tr E = tap T"
  shows "\<exists>n s'. fh_send E buf t s = Some (n, s') \<and> wlog s' = wlog s @ [buf]
    \<and> (novip (fh_dev s) \<longrightarrow> same_setup s s') \<and> fh_gen s' = fh_gen s \<and> fh_host s' = fh_host s"
proof -
  obtain d L where l: "link (fh_dev s) = (d, L)" by fastforce
  obtain n d' where w: "tr_write T d buf t = (n, d')" by fastforce
  show ?thesis
    by (simp add: fh_send_def qdl_write_def assms tap_def l w wlog_def same_setup_def novip_def)
qed

lemma send_packet_tap:
  assumes "env_tr E = tap T" "novip (fh_dev s)"
  shows "post (\<lambda>ret s'. ret = 0 \<longrightarrow> wlog s' = wlog s @ [buf] \<and> same_setup s s'
           \<and> fh_gen s' = fh_gen s \<and> fh_host s' = fh_host s) (send_packet fuel E buf t s)"
proof -
  obtain n s' where s': "fh_send E buf t s = Some (n, s')" "wlog s' = wlog s @ [buf]" "same_setup s s'"
      "fh_gen s' = fh_gen s" "fh_host s' = fh_host s"
    using fh_send_tap [OF assms(1), of buf t s] assms(2) by auto
  have "send_packet fuel E buf t s = (if n < 0 then sbind (fh_recv_generic fuel E 30000) (\<lambda>_. sret (-1)) s'
      else if n \<noteq> int (length buf) then Some (-1, s') else Some (0, s'))"
    using s' send_table_novip [OF assms(2), of fuel E] by (simp add: send_packet_def sbind_def sret_def)
  then show ?thesis using s' by (auto simp: sbind_def sret_def post_def split: option.splits)
qed

text \<open>A request: the document goes out once or, after timeouts, several times.\<close>

lemma write_retry_tap:
  "env_tr E = tap T \<Longrightarrow> novip (fh_dev s) \<Longrightarrow>
   post (\<lambda>_ s'. (\<exists>k. wlog s' = wlog s @ replicate (Suc k) buf) \<and> same_setup s s') (write_retry fuel E buf s)"
proof (induction fuel arbitrary: s)
  case (Suc fuel)
  let ?s0 = "s\<lparr>fh_gen := vip_gen_chunk_update (fh_gen s) buf\<rparr>"
  obtain n s1 where s1: "fh_send E buf 1000 ?s0 = Some (n, s1)" "wlog s1 = wlog s @ [buf]" "same_setup s s1"
    using fh_send_tap [OF Suc.prems(1), of buf 1000 ?s0] Suc.prems(2) by (auto simp: wlog_def same_setup_def)
  have nv: "novip (fh_dev s1)" using s1(3) by (simp add: same_setup_def)
  have r: "post (\<lambda>_ s'. (\<exists>k. wlog s' = wlog s @ replicate (Suc k) buf) \<and> same_setup s s')
      (sbind (fh_recv_generic fuel E 100) (\<lambda>_. write_retry fuel E buf) s1)"
  proof (rule post_sbind, rule recv_generic_quiet [OF Suc.prems(1) nv], goal_cases)
    case (1 a s2)
    have "post (\<lambda>_ s'. (\<exists>k. wlog s' = wlog s2 @ replicate (Suc k) buf) \<and> same_setup s2 s') (write_retry fuel E buf s2)"
      using 1 by (intro Suc.IH Suc.prems(1)) (simp add: same_setup_def)
    then show ?case
    proof (rule post_mono, goal_cases)
      case (1 a s')
      then obtain k where "wlog s' = wlog s2 @ replicate (Suc k) buf" by blast
      then have "wlog s' = wlog s @ replicate (Suc (Suc k)) buf"
        using \<open>wlog s2 = wlog s1 \<and> _\<close> s1(2) by simp
      then show ?case using 1 \<open>wlog s2 = wlog s1 \<and> _\<close> s1(3) unfolding same_setup_def by (metis (no_types))
    qed
  qed
  show ?case
    using r s1 by (auto simp: sbind_def fh_chunk_update_def sret_def intro: exI [of _ 0])
qed simp

lemma firehose_write_tap:
  assumes "env_tr E = tap T" "novip (fh_dev s)"
  shows "post (\<lambda>_ s'. (\<exists>k. wlog s' = wlog s @ replicate (Suc k) buf) \<and> same_setup s s') (firehose_write fuel E buf s)"
proof -
  have w: "post (\<lambda>_ s'. (\<exists>k. wlog s' = wlog s @ replicate (Suc k) buf) \<and> same_setup s s')
      (write_retry fuel E buf (s\<lparr>fh_gen := vip_gen_chunk_init (fh_gen s)\<rparr>))"
    using write_retry_tap [OF assms(1), of "s\<lparr>fh_gen := vip_gen_chunk_init (fh_gen s)\<rparr>" buf fuel] assms(2)
    by (simp add: wlog_def same_setup_def)
  have run: "firehose_write fuel E buf s = sbind (write_retry fuel E buf)
      (\<lambda>n. sbind fh_chunk_store (\<lambda>_. sret (if n < 0 then n else 0))) (s\<lparr>fh_gen := vip_gen_chunk_init (fh_gen s)\<rparr>)"
    using send_table_novip [OF assms(2), of fuel E]
    by (simp add: firehose_write_def sbind_def fh_chunk_init_def)
  show ?thesis unfolding run
    by (rule post_sbind, rule w)
      (auto simp: fh_chunk_store_def sbind_def sret_def wlog_def same_setup_def split: prod.split)
qed

subsection \<open>Streaming a region\<close>

text \<open>
  \<open>sent s pkts s'\<close>: between the two states exactly \<open>pkts\<close> were written, and the generator has
  stored the digest of each.
\<close>

definition sent :: "('d \<times> u8 list list) fh \<Rightarrow> u8 list list \<Rightarrow> ('d \<times> u8 list list) fh \<Rightarrow> bool" where
  "sent s pkts s' \<longleftrightarrow> wlog s' = wlog s @ pkts \<and> same_setup s s'
     \<and> (fh_gen s', fh_host s') = foldl (\<lambda>g p. gen_packet [p] g) (fh_gen s, fh_host s) pkts"

lemma sent_trans: "sent s ps s1 \<Longrightarrow> sent s1 qs s2 \<Longrightarrow> sent s (ps @ qs) s2"
  by (auto simp: sent_def same_setup_def)

lemma one_packet_sent:
  assumes "env_tr E = tap T" "novip (fh_dev s)"
  shows "post (\<lambda>ret s'. ret = (0 :: int) \<longrightarrow> sent s [buf] s')
     (sbind fh_chunk_init (\<lambda>_. sbind (fh_chunk_update buf) (\<lambda>_. sbind (send_packet fuel E buf t) (\<lambda>ret.
        if ret \<noteq> 0 then sret (-1) else sbind fh_chunk_store (\<lambda>_. sret 0)))) s)"
proof -
  let ?s0 = "s\<lparr>fh_gen := vip_gen_chunk_update (vip_gen_chunk_init (fh_gen s)) buf\<rparr>"
  have "post (\<lambda>ret s'. ret = 0 \<longrightarrow> wlog s' = wlog s @ [buf] \<and> same_setup s s'
           \<and> fh_gen s' = fh_gen ?s0 \<and> fh_host s' = fh_host s) (send_packet fuel E buf t ?s0)"
    using send_packet_tap [OF assms(1), of ?s0 buf fuel t] assms(2)
    by (simp add: wlog_def same_setup_def)
  then show ?thesis
    by (auto simp: sbind_def sret_def fh_chunk_init_def fh_chunk_update_def fh_chunk_store_def post_def
        sent_def gen_packet_def wlog_def same_setup_def split: option.splits prod.splits)
qed

text \<open>A successful stream has sent exactly the region, in packets the programmer accepts.\<close>

lemma stream_out_sends:
  "env_tr E = tap T \<Longrightarrow> novip (fh_dev s) \<Longrightarrow> readable f \<Longrightarrow>
   post (\<lambda>(ret, f') s'. ret = 0 \<longrightarrow> (\<exists>pkts. sent s pkts s' \<and> concat pkts = region_bytes (ff_pos f) (left * ss) (ff_data f)
       \<and> (\<forall>p \<in> set pkts. length p \<le> max_payload_size (fh_dev s) \<and> ss dvd length p)))
     (firehose_stream_out fuel E None ss t left f s)"
proof (induction fuel arbitrary: left f s)
  case (Suc fuel)
  show ?case
  proof (cases "left = 0")
    case True
    have "sent s [] s" using Suc.prems(2) by (simp add: sent_def same_setup_def)
    then show ?thesis using True by (auto intro!: exI [of _ "[]"])
  next
    case False
    define k where "k = min (max_payload_size (fh_dev s) div ss) left"
    define buf where "buf = region_bytes (ff_pos f) (k * ss) (ff_data f)"
    define f1 where "f1 = f\<lparr>ff_pos := ff_pos f + min (k * ss) (length (ff_data f) - ff_pos f)\<rparr>"
    have kle: "k * ss \<le> max_payload_size (fh_dev s)"
    proof -
      have "k * ss \<le> (max_payload_size (fh_dev s) div ss) * ss" by (rule mult_le_mono1) (simp add: k_def)
      also have "\<dots> \<le> max_payload_size (fh_dev s)" by simp
      finally show ?thesis .
    qed
    have cd: "chunk_data None f (k * ss) = (Some buf, f1)"
      using chunk_data_file [OF Suc.prems(3), of "k * ss"] by (simp add: buf_def f1_def)
    have split: "region_bytes (ff_pos f) (left * ss) (ff_data f)
        = buf @ region_bytes (ff_pos f1) ((left - k) * ss) (ff_data f1)"
    proof -
      have "left * ss = k * ss + (left - k) * ss"
        by (simp add: k_def add_mult_distrib [symmetric])
      then show ?thesis using region_bytes_split [of "ff_pos f" "k * ss" "(left - k) * ss" "ff_data f"]
        by (simp add: buf_def f1_def)
    qed
    have run: "firehose_stream_out (Suc fuel) E None ss t left f s
        = sbind (sbind fh_chunk_init (\<lambda>_. sbind (fh_chunk_update buf) (\<lambda>_. sbind (send_packet fuel E buf t) (\<lambda>ret.
             if ret \<noteq> 0 then sret (-1) else sbind fh_chunk_store (\<lambda>_. sret (0 :: int))))))
           (\<lambda>ret. if ret \<noteq> 0 then sret (-1, f1) else firehose_stream_out fuel E None ss t (left - k) f1) s"
      using False cd
      by (auto simp: k_def [symmetric] Let_def sbind_def sret_def fh_chunk_init_def fh_chunk_update_def
          fh_chunk_store_def split: option.splits prod.splits)
    show ?thesis unfolding run
    proof (rule post_sbind, rule one_packet_sent [OF Suc.prems(1,2)], goal_cases)
      case (1 ret s1)
      show ?case
      proof (cases "ret = 0")
        case True
        have s1: "sent s [buf] s1" using 1 True by simp
        then have nv: "novip (fh_dev s1)" "max_payload_size (fh_dev s1) = max_payload_size (fh_dev s)"
          by (simp_all add: sent_def same_setup_def)
        have "readable f1" using Suc.prems(3) by (simp add: f1_def)
        note ih = Suc.IH [OF Suc.prems(1) nv(1) this, of "left - k"]
        have "post (\<lambda>(ret, f') s'. ret = 0 \<longrightarrow> (\<exists>pkts. sent s pkts s' \<and> concat pkts = region_bytes (ff_pos f) (left * ss) (ff_data f)
           \<and> (\<forall>p \<in> set pkts. length p \<le> max_payload_size (fh_dev s) \<and> ss dvd length p)))
          (firehose_stream_out fuel E None ss t (left - k) f1 s1)"
        proof (rule post_mono [OF ih], clarsimp simp: nv(2))
          fix s' pkts
          assume p: "sent s1 pkts s'" "concat pkts = region_bytes (ff_pos f1) ((left - k) * ss) (ff_data f1)"
            "\<forall>p\<in>set pkts. length p \<le> max_payload_size (fh_dev s) \<and> ss dvd length p"
          show "\<exists>pkts. sent s pkts s' \<and> concat pkts = region_bytes (ff_pos f) (left * ss) (ff_data f)
              \<and> (\<forall>p\<in>set pkts. length p \<le> max_payload_size (fh_dev s) \<and> ss dvd length p)"
            using sent_trans [OF s1 p(1)] p kle unfolding split
            by (intro exI [of _ "buf # pkts"]) (auto simp: buf_def)
        qed
        then show ?thesis using True by simp
      qed simp
    qed
  qed
qed simp

subsection \<open>Programming a file\<close>

text \<open>
  C8: Programming a plain file. On a device without VIP, when \<open>firehose_program\<close> reports success for
  an operation that is neither sparse nor on the skip-block path, the host has written the
  program request (once, or again after timed-out attempts) and then packets, each a whole number
  of sectors and no larger than the negotiated payload, which together are exactly the sectors
  announced in the request: the file from its offset, padded with zeros. For a member of an archive
  the offset is ignored, because the failing seek is.
\<close>

theorem firehose_program_writes:
  assumes "firehose_program fuel E op s = Some (0, s')" "env_tr E = tap T" "novip (fh_dev s)"
    and "op_filename op = Some name" "qdl_file_open (op_zip op) (env_fs E) name = Some f" "readable f"
    and "\<not> op_sparse op" "\<not> firehose_skipblock_enabled (fh_dev s) op"
    and "ss = eff_sector_size op (fh_dev s)" "num = program_num_sectors op f ss"
    and "unat (op_file_offset op) * unat ss < 2 ^ 63"
  shows "\<exists>k pkts. wlog s' = wlog s @ replicate (Suc k)
        (fh_doc E ''program'' (program_attrs op (op_start_sector op) num ss (fh_dev s) @ nand_attrs op)) @ pkts
    \<and> concat pkts = region_bytes (if op_zip op = None then unat (op_file_offset op) * unat ss else 0)
                      (unat num * unat ss) (ff_data f)
    \<and> (\<forall>p \<in> set pkts. length p \<le> max_payload_size (fh_dev s) \<and> unat ss dvd length p)"
proof -
  let ?doc = "fh_doc E ''program'' (program_attrs op (op_start_sector op) num ss (fh_dev s) @ nand_attrs op)"
  let ?t = "if current_storage_type (fh_dev s) = QDL_STORAGE_SPINOR then 60000 else 10000 :: nat"
  let ?pos = "if op_zip op = None then unat (op_file_offset op) * unat ss else 0"
  define f1 where "f1 = snd (qdl_file_seek f (int (unat (op_file_offset op)) * int (unat ss)) SEEK_SET)"
  have f0: "ff_pos f = 0" "ff_type f = (if op_zip op = None then QDL_FILE_TYPE_POSIX else QDL_FILE_TYPE_ZIP)"
    using assms(5) by (auto simp: qdl_file_open_def split: option.splits)
  have "int (unat (op_file_offset op)) * int (unat ss) = int (unat (op_file_offset op) * unat ss)" by simp
  moreover have "\<not> int (unat (op_file_offset op) * unat ss) \<ge> 2 ^ 63"
    using assms(11) by (simp only: not_le of_nat_less_numeral_power_cancel_iff)
  ultimately have f1: "ff_pos f1 = ?pos" "ff_data f1 = ff_data f" "readable f1"
    using assms(6) f0 unfolding f1_def qdl_file_seek_def lseek_def Let_def
    by (auto simp del: of_nat_mult)
  let ?Q = "\<lambda>ret s'. ret = (0 :: int) \<longrightarrow> (\<exists>k pkts. wlog s' = wlog s @ replicate (Suc k) ?doc @ pkts
    \<and> concat pkts = region_bytes ?pos (unat num * unat ss) (ff_data f)
    \<and> (\<forall>p \<in> set pkts. length p \<le> max_payload_size (fh_dev s) \<and> unat ss dvd length p))"
  have src: "program_source op f ss mp = Some (None, f1)" for mp
    using assms(7) by (simp add: program_source_def f1_def)
  have "post ?Q (firehose_program_plain fuel E op f num ss ?t s)"
    unfolding firehose_program_plain_def
  proof (rule post_sbind, rule firehose_write_tap [OF assms(2,3)], goal_cases)
    case (1 r1 s1)
    then obtain k where k: "wlog s1 = wlog s @ replicate (Suc k) ?doc" by blast
    have s1: "novip (fh_dev s1)" "max_payload_size (fh_dev s1) = max_payload_size (fh_dev s)"
      using 1 by (simp_all add: same_setup_def)
    show ?case
    proof (rule post_if_fun)
      show "post ?Q (sbind (fh_recv_generic fuel E 10000) (\<lambda>ret. if ret \<noteq> 0 then sret (-1)
         else (\<lambda>s1. case program_source op f ss (max_payload_size (fh_dev s1)) of
           None \<Rightarrow> Some (-1, s1)
         | Some (fill, f1) \<Rightarrow>
             sbind (firehose_stream_out fuel E fill (unat ss) ?t (unat num) f1) (\<lambda>(ret, _).
               if ret \<noteq> 0 then sret (-1)
               else sbind (fh_recv_generic fuel E 120000) (\<lambda>ret.
                 if ret \<noteq> FIREHOSE_ACK then sret (-1)
                 else sbind (count_stats (\<lambda>st. st\<lparr>st_flashed := st_flashed st + 1,
                               st_bytes_written := st_bytes_written st + unat ss * unat num\<rparr>))
                      (\<lambda>_. sret 0))) s1)) s1)"
      proof (rule post_sbind, rule recv_generic_quiet [OF assms(2) s1(1)], goal_cases)
        case (1 r2 s2)
        then have s2: "novip (fh_dev s2)" "max_payload_size (fh_dev s2) = max_payload_size (fh_dev s)" "wlog s2 = wlog s1"
          using s1(2) by (simp_all add: same_setup_def)
        have "post ?Q (sbind (firehose_stream_out fuel E None (unat ss) ?t (unat num) f1) (\<lambda>(ret, _).
               if ret \<noteq> 0 then sret (-1)
               else sbind (fh_recv_generic fuel E 120000) (\<lambda>ret.
                 if ret \<noteq> FIREHOSE_ACK then sret (-1)
                 else sbind (count_stats (\<lambda>st. st\<lparr>st_flashed := st_flashed st + 1,
                               st_bytes_written := st_bytes_written st + unat ss * unat num\<rparr>))
                      (\<lambda>_. sret 0))) s2)"
        proof (rule post_sbind, rule stream_out_sends [OF assms(2) s2(1) f1(3)], goal_cases)
          case (1 a s3)
          obtain r3 f3 where a: "a = (r3, f3)" by fastforce
          show ?case
          proof (cases "r3 = 0")
            case True
            then obtain pkts where p: "sent s2 pkts s3" "concat pkts = region_bytes ?pos (unat num * unat ss) (ff_data f)"
              "\<forall>p \<in> set pkts. length p \<le> max_payload_size (fh_dev s) \<and> unat ss dvd length p"
              using 1 a f1 s2(2) by auto
            have nv: "novip (fh_dev s3)" using p(1) by (simp add: sent_def same_setup_def)
            have "wlog s3 = wlog s @ replicate (Suc k) ?doc @ pkts" using p(1) s2(3) k by (simp add: sent_def)
            then have "post (\<lambda>_ s4. wlog s4 = wlog s @ replicate (Suc k) ?doc @ pkts) (fh_recv_generic fuel E 120000 s3)"
              using recv_generic_quiet [OF assms(2) nv, of fuel 120000] by (auto elim: post_mono)
            then show ?thesis using a True p
              by (auto simp: sbind_def sret_def post_def count_stats_def wlog_def split: option.splits if_splits)
          next
            case False
            then show ?thesis using a by simp
          qed
        qed
        then show ?case by (cases "r2 = 0") (simp_all add: src)
      qed
    qed simp
  qed
  then have "?Q 0 s'"
    using assms(1,4,5,8) assms(9,10) by (auto simp: firehose_program_def Let_def split: if_splits dest: postD)
  then show ?thesis by simp
qed

lemma firehose_program_writes_witness:
  "\<exists>s' k pkts. firehose_program 5 (reply_env ''ACK'' (\<lambda>n. if n = ''f'' then Some ([1, 2, 3, 4, 5], \<lambda>_ n. Some n) else None))
        ((firehose_alloc_op FIREHOSE_OP_PROGRAM)\<lparr>op_filename := Some ''f'', op_sector_size := 4\<rparr>) (ex_fh ((0, 0), [])) = Some (0, s')
    \<and> wlog s' = replicate (Suc k) (bytes_of ''program'') @ pkts \<and> concat pkts = [1, 2, 3, 4, 5, 0, 0, 0]"
proof -
  define fs :: file_system where "fs = (\<lambda>n. if n = ''f'' then Some ([1, 2, 3, 4, 5], \<lambda>_ n. Some n) else None)"
  define op where "op = (firehose_alloc_op FIREHOSE_OP_PROGRAM)\<lparr>op_filename := Some ''f'', op_sector_size := 4\<rparr>"
  define f where "f = \<lparr>ff_type = QDL_FILE_TYPE_POSIX, ff_size = 5, ff_data = [1, 2, 3, 4, 5 :: u8], ff_pos = 0,
    ff_get = (\<lambda>_ n. Some n :: nat option)\<rparr>"
  define f1 where "f1 = f\<lparr>ff_pos := 5\<rparr>"
  define s :: "((nat \<times> nat) \<times> u8 list list) fh" where "s = ex_fh ((0, 0), [])"
  let ?E = "reply_env ''ACK'' fs"
  have f: "qdl_file_open (op_zip op) (env_fs ?E) ''f'' = Some f" "readable f"
    by (simp_all add: qdl_file_open_def op_def firehose_alloc_op_def reply_env_def fs_def f_def readable_def)
  have s: "idle s" "novip (fh_dev s)" "link (fh_dev s) = ((0, 0), [])" "max_payload_size (fh_dev s) = 1048576"
      "eff_sector_size op (fh_dev s) = 4" "current_storage_type (fh_dev s) = QDL_STORAGE_UNKNOWN"
      "skipblock (fh_dev s) = QDL_SKIPBLOCK_NONE"
    by (simp_all add: s_def novip_def ex_fh_def fresh_device_def vip_zero_def eff_sector_size_def op_def
        firehose_alloc_op_def idle_def)
  have op: "op_filename op = Some ''f''" "\<not> op_sparse op" "op_file_offset op = 0" "program_num_sectors op f 4 = 2"
    by (simp_all add: op_def firehose_alloc_op_def program_num_sectors_def f_def qdl_file_getsize_def)
  have dump: "fh_doc ?E ''program'' attrs = bytes_of ''program''" for attrs
    by (simp add: fh_doc_def reply_env_def)
  let ?d = "bytes_of ''program''" and ?b = "region_bytes 0 8 (ff_data f)"
  have cd: "chunk_data None f 8 = (Some ?b, f1)"
    using chunk_data_file [OF f(2), of 8] by (simp add: f_def f1_def)
  have sp: "send_packet (Suc (Suc (Suc (Suc 0)))) ?E ?b 10000 (set_link ((0, 100000), [?d]) s) = Some (0, set_link ((Suc 0, 100000), [?d, ?b]) s)"
  proof -
    have "novip (fh_dev (set_link ((0, 100000), [?d]) s))" using s(2) by (simp add: set_link_def novip_def)
    then show ?thesis
      by (simp add: send_packet_def sbind_def sret_def send_table_novip reply_send [where k = 0 and tm = 100000 and L = "[?d]"])
  qed
  have gen: "fh_chunk_init s1 = Some ((), s1)" "fh_chunk_update b s1 = Some ((), s1)" "fh_chunk_store s1 = Some ((), s1)"
    if "idle s1" for s1 :: "((nat \<times> nat) \<times> u8 list list) fh" and b
    using that by (simp_all add: idle_def fh_chunk_init_def fh_chunk_update_def fh_chunk_store_def
        vip_gen_chunk_init_def vip_gen_chunk_update_def vip_gen_chunk_store_def)
  have "firehose_stream_out (Suc (Suc (Suc (Suc (Suc 0))))) ?E None 4 10000 2 f (set_link ((0, 100000), [?d]) s)
      = Some ((0, f1), set_link ((Suc 0, 100000), [?d, ?b]) s)"
    using cd sp s(1,4) by (simp add: Let_def sbind_def gen)
  moreover have "Suc (Suc (Suc (Suc (Suc 0)))) = 5" by simp
  ultimately have st: "firehose_stream_out 5 ?E None 4 10000 2 f (set_link ((0, 100000), [?d]) s)
      = Some ((0, f1), set_link ((Suc 0, 100000), [?d, ?b]) s)" by (simp only:)
  have seek: "program_source op f 4 mp = Some (None, f)" for mp
    using op by (simp add: program_source_def qdl_file_seek_def lseek_def f_def)
  have "\<exists>s'. firehose_program_plain 5 ?E op f 2 4 10000 s = Some (0, s')"
    using s st by (simp add: firehose_program_plain_def sbind_def dump seek
        reply_write [where k = 0 and tm = 0 and L = "[]"] reply_recv [where k = 0 and tm = 0 and L = "[?d]"]
        reply_recv [where k = 0 and tm = 100000 and L = "[?d, ?b]"]
        reply_code_def FIREHOSE_ACK_def count_stats_def sret_def)
  then obtain s' where run: "firehose_program 5 ?E op s = Some (0, s')"
    using s f op by (auto simp: firehose_program_def Let_def firehose_skipblock_enabled_def)
  have "env_tr ?E = tap ack_transport" by (simp add: reply_env_def)
  from firehose_program_writes [OF run this s(2) op(1) f op(2) _ s(5) [symmetric] refl] obtain k pkts where
    "wlog s' = replicate (Suc k) ?d @ pkts" "concat pkts = region_bytes 0 8 (ff_data f)"
    using op s by (auto simp: dump wlog_def firehose_skipblock_enabled_def op_def firehose_alloc_op_def)
  moreover have "region_bytes 0 8 (ff_data f) = [1, 2, 3, 4, 5, 0, 0, 0]"
    by (simp add: region_bytes_def f_def sub_buf_def eval_nat_numeral)
  ultimately show ?thesis using run unfolding op_def fs_def s_def by metis
qed

subsection \<open>The digest of a region\<close>

lemma hash_file_repr:
  "readable f \<Longrightarrow> 0 < mp \<Longrightarrow> ctx_repr ctx m \<Longrightarrow> hashed \<le> region \<Longrightarrow> length m + (region - hashed) < 2 ^ 61 \<Longrightarrow>
   region - hashed < fuel \<Longrightarrow>
   \<exists>ctx' f'. hash_file fuel mp region f hashed ctx
       = Some (Some (ctx', hashed + length (sub_buf (ff_pos f) (region - hashed) (ff_data f))), f')
     \<and> ctx_repr ctx' (m @ sub_buf (ff_pos f) (region - hashed) (ff_data f))"
proof (induction fuel arbitrary: f hashed ctx m)
  case (Suc fuel)
  show ?case
  proof (cases "hashed < region")
    case False
    then show ?thesis using Suc.prems(3,4) by simp
  next
    case True
    define w where "w = min mp (region - hashed)"
    let ?d = "sub_buf (ff_pos f) w (ff_data f)"
    let ?f1 = "f\<lparr>ff_pos := ff_pos f + min w (length (ff_data f) - ff_pos f)\<rparr>"
    have wpos: "0 < w" and wle: "w \<le> region - hashed" using True Suc.prems(2) by (simp_all add: w_def)
    have rd: "qdl_file_read_exact f w = (Some ?d, ?f1)" by (rule qdl_file_read_exact_content [OF Suc.prems(1)])
    define c where "c = (if ?d \<noteq> [] then SHA256Update ctx ?d else ctx)"
    have len: "length m + length ?d < 2 ^ 61" using Suc.prems(5) wle by simp
    have c: "ctx_repr c (m @ ?d)"
    proof (cases "?d = []")
      case True
      then show ?thesis using Suc.prems(3) by (simp add: c_def)
    next
      case False
      then show ?thesis using update_repr [OF Suc.prems(3) len] by (simp add: c_def)
    qed
    show ?thesis
    proof (cases "length ?d < w")
      case short: True
      then have eof: "length (ff_data f) - ff_pos f < w" by simp
      then have "sub_buf (ff_pos f) (region - hashed) (ff_data f) = ?d" using wle by (simp add: sub_buf_def)
      then show ?thesis using True rd short eof c by (simp add: w_def [symmetric] c_def Let_def)
    next
      case full: False
      then have k: "w \<le> length (ff_data f) - ff_pos f" by simp
      have hw: "hashed + w \<le> region" using wle True by linarith
      have fuel: "region - (hashed + w) < fuel" using Suc.prems(6) wpos wle by simp
      have "length (m @ ?d) + (region - (hashed + w)) < 2 ^ 61" using Suc.prems(5) wle k by simp
      from Suc.IH [of ?f1 c "m @ ?d" "hashed + w", OF _ Suc.prems(2) c hw this fuel] obtain ctx' f' where ih:
        "hash_file fuel mp region ?f1 (hashed + w) c
          = Some (Some (ctx', hashed + w + length (sub_buf (ff_pos f + w) (region - (hashed + w)) (ff_data f))), f')"
        "ctx_repr ctx' ((m @ ?d) @ sub_buf (ff_pos f + w) (region - (hashed + w)) (ff_data f))"
        using Suc.prems(1) wle True k by (auto simp: min_def)
      have whole: "sub_buf (ff_pos f) (region - hashed) (ff_data f)
          = ?d @ sub_buf (ff_pos f + w) (region - (hashed + w)) (ff_data f)"
      proof -
        have "region - hashed = w + (region - (hashed + w))" using wle by linarith
        then show ?thesis using sub_buf_append [of "ff_pos f" w "ff_data f" "region - (hashed + w)"] by simp
      qed
      have "hash_file (Suc fuel) mp region f hashed ctx = hash_file fuel mp region ?f1 (hashed + w) c"
        using True rd full k by (simp add: w_def [symmetric] c_def Let_def min_absorb1)
      then show ?thesis using ih k unfolding whole by (simp add: add.assoc)
    qed
  qed
qed simp

lemma hash_zeros_repr:
  "0 < mp \<Longrightarrow> ctx_repr ctx m \<Longrightarrow> hashed \<le> region \<Longrightarrow> length m + (region - hashed) < 2 ^ 61 \<Longrightarrow>
   region - hashed < fuel \<Longrightarrow>
   \<exists>ctx'. hash_zeros fuel mp region hashed ctx = Some ctx' \<and> ctx_repr ctx' (m @ replicate (region - hashed) 0)"
proof (induction fuel arbitrary: hashed ctx m)
  case (Suc fuel)
  show ?case
  proof (cases "hashed < region")
    case False
    then show ?thesis using Suc.prems by simp
  next
    case True
    define w where "w = min mp (region - hashed)"
    have w: "0 < w" "w \<le> region - hashed" using True Suc.prems(1) by (simp_all add: w_def)
    have "ctx_repr (SHA256Update ctx (replicate w 0)) (m @ replicate w 0)"
      using Suc.prems(2,4) w by (intro update_repr) auto
    moreover have "hashed + w \<le> region" "region - (hashed + w) < fuel"
        "length (m @ replicate w 0) + (region - (hashed + w)) < 2 ^ 61"
      using True w Suc.prems(4,5) by auto
    ultimately obtain ctx' where
      "hash_zeros fuel mp region (hashed + w) (SHA256Update ctx (replicate w 0)) = Some ctx'"
      "ctx_repr ctx' ((m @ replicate w 0) @ replicate (region - (hashed + w)) 0)"
      using Suc.IH [OF Suc.prems(1)] by blast
    then show ?thesis using True w
      by (auto simp: w_def [symmetric] Let_def replicate_add [symmetric])
  qed
qed simp

text \<open>
  The digest the skip-block check computes. For a readable file on disk the local digest of a region
  is the SHA-256 of exactly the bytes that programming the region would send, zero padding beyond
  the end of the file included; it always terminates, within as many steps as the region has bytes.
\<close>

theorem skipblock_digest_of_region:
  assumes "readable f" "ff_type f = QDL_FILE_TYPE_POSIX" "0 < mp" "off < 2 ^ 63" "n < 2 ^ 61" "n < fuel"
  shows "\<exists>f'. firehose_region_local_digest fuel mp f (int off) n
      = Some (Some (sha256 (region_bytes off n (ff_data f))), f')"
proof -
  let ?f0 = "f\<lparr>ff_pos := off\<rparr>" and ?d = "sub_buf off n (ff_data f)"
  have "\<not> int off \<ge> 2 ^ 63" using assms(4) by (simp only: not_le of_nat_less_numeral_power_cancel_iff)
  then have seek: "snd (qdl_file_seek f (int off) SEEK_SET) = ?f0"
    using assms(2) by (simp add: qdl_file_seek_def lseek_def Let_def)
  obtain c1 f1 where h: "hash_file fuel mp n ?f0 0 SHA256Init = Some (Some (c1, length ?d), f1)" "ctx_repr c1 ?d"
    using hash_file_repr [of ?f0 mp SHA256Init "[]" 0 n fuel] assms init_repr by auto
  obtain c2 where z: "hash_zeros fuel mp n (length ?d) c1 = Some c2" "ctx_repr c2 (?d @ replicate (n - length ?d) 0)"
  proof -
    have "length ?d \<le> n" "length ?d + (n - length ?d) < 2 ^ 61" "n - length ?d < fuel"
      using assms(5,6) by auto
    then show ?thesis using that hash_zeros_repr [OF assms(3) h(2)] by blast
  qed
  have r: "?d @ replicate (n - length ?d) 0 = region_bytes off n (ff_data f)"
    by (simp add: region_bytes_def min_def)
  have "SHA256Final c2 = sha256 (region_bytes off n (ff_data f))"
    using final_repr [OF z(2)] assms(5) unfolding r by simp
  then show ?thesis using h z by (simp add: firehose_region_local_digest_def seek)
qed

lemma skipblock_digest_of_region_witness:
  "\<exists>f'. firehose_region_local_digest 9 3 \<lparr>ff_type = QDL_FILE_TYPE_POSIX, ff_size = 4, ff_data = [1, 2, 3, 4],
      ff_pos = 0, ff_get = (\<lambda>_ n. Some n)\<rparr> 1 8 = Some (Some (sha256 [2, 3, 4, 0, 0, 0, 0, 0]), f')"
proof -
  let ?f = "\<lparr>ff_type = QDL_FILE_TYPE_POSIX, ff_size = 4, ff_data = [1, 2, 3, 4 :: u8], ff_pos = 0, ff_get = (\<lambda>_ n. Some n)\<rparr>"
  have "region_bytes 1 8 (ff_data ?f) = [2, 3, 4, 0, 0, 0, 0, 0]"
    by (simp add: region_bytes_def sub_buf_def eval_nat_numeral)
  then show ?thesis
    using skipblock_digest_of_region [of ?f 3 1 8 9] by (simp add: readable_def)
qed

subsection \<open>A payload smaller than a sector\<close>

text \<open>
  When the negotiated payload is smaller than a sector, streaming never ends: on a link that
  accepts empty writes the loop sends empty packets for ever, whatever the fuel.
\<close>

theorem stream_out_stuck:
  assumes "max_payload_size (fh_dev s) < ss" "0 < left" "novip (fh_dev s)" "readable f"
    "\<And>d. fst (tr_write (env_tr E) d [] t) = 0"
  shows "firehose_stream_out fuel E None ss t left f s = None"
  using assms(1,3)
proof (induction fuel arbitrary: s)
  case (Suc fuel)
  let ?s0 = "s\<lparr>fh_gen := vip_gen_chunk_update (vip_gen_chunk_init (fh_gen s)) []\<rparr>"
  obtain d where w: "tr_write (env_tr E) (link (fh_dev s)) [] t = (0, d)"
    using assms(5) [of "link (fh_dev s)"] by (metis prod.collapse)
  obtain g h where st: "vip_gen_chunk_store (fh_gen ?s0) (fh_host s) = (g, h)" by fastforce
  let ?s1 = "s\<lparr>fh_dev := (fh_dev s)\<lparr>link := d\<rparr>, fh_gen := g, fh_host := h\<rparr>"
  have cd: "chunk_data None f 0 = (Some [], f)"
    using chunk_data_file [OF assms(4), of 0] by simp
  have nv: "novip (fh_dev ?s0)" using Suc.prems(2) by simp
  have sp: "send_packet fuel E [] t ?s0 = Some (0, ?s0\<lparr>fh_dev := (fh_dev s)\<lparr>link := d\<rparr>\<rparr>)"
    using send_table_novip [OF nv, of fuel E] w
    by (simp add: send_packet_def sbind_def sret_def fh_send_def qdl_write_def)
  have "firehose_stream_out (Suc fuel) E None ss t left f s = firehose_stream_out fuel E None ss t left f ?s1"
    using Suc.prems(1) assms(2) cd sp st
    by (simp add: Let_def sbind_def fh_chunk_init_def fh_chunk_update_def fh_chunk_store_def)
  also have "\<dots> = None" using Suc.prems by (intro Suc.IH) (simp_all add: novip_def)
  finally show ?case .
qed simp

lemma stream_out_stuck_witness:
  "firehose_stream_out 100 (reply_env ''ACK'' (\<lambda>_. None)) None 2000000 10000 1
     \<lparr>ff_type = QDL_FILE_TYPE_POSIX, ff_size = 1, ff_data = [1], ff_pos = 0, ff_get = (\<lambda>_ n. Some n)\<rparr>
     (ex_fh ((0, 0), [])) = None"
  by (rule stream_out_stuck)
    (auto simp: ex_fh_def fresh_device_def novip_def vip_zero_def readable_def reply_env_def tap_def ack_transport_def
      split: prod.split)

end
