(* ===== verification/FhRead.thy ===== *)
theory FhRead
  imports FhLink
begin

text \<open>
  What the host makes of a stream of responses: how messages are packed into reads does not matter,
  and sector data arrives complete however it is fragmented, from a device that answers requests.
\<close>

subsection \<open>Documents in a buffer\<close>

text \<open>A complete document is found whatever follows it.\<close>

definition whole_document :: "u8 list \<Rightarrow> bool" where
  "whole_document d \<longleftrightarrow> (\<forall>rest. next_document (d @ rest) = Some (d, rest))"

text \<open>A text between the two tags, with no NUL and no earlier closing tag, is one.\<close>

lemma find_sub_0: "pat \<noteq> [] \<Longrightarrow> find_sub pat (pat @ xs) = Some 0"
  by (cases pat) auto

lemma c_bytes_append: "0 \<notin> set d \<Longrightarrow> c_bytes (d @ rest) = d @ c_bytes rest"
  unfolding c_bytes_def by (rule takeWhile_append2) auto

lemma find_sub_extend: "find_sub pat xs = Some i \<Longrightarrow> pat \<noteq> [] \<Longrightarrow> find_sub pat (xs @ ys) = Some i"
proof (induction xs arbitrary: i)
  case (Cons x xs)
  show ?case
  proof (cases "take (length pat) (x # xs) = pat")
    case True
    then have "length pat \<le> length (x # xs)" by (metis length_take min.cobounded1)
    then have "take (length pat) ((x # xs) @ ys) = take (length pat) (x # xs)"
      by (simp only: take_append diff_is_0_eq' take0 append_Nil2)
    then show ?thesis using Cons.prems(1) True by simp
  next
    case False
    then obtain j where j: "find_sub pat xs = Some j" "i = Suc j" using Cons.prems by auto
    have "take (length pat) ((x # xs) @ ys) \<noteq> pat"
    proof
      assume a: "take (length pat) ((x # xs) @ ys) = pat"
      have "length pat \<le> length xs" using find_sub_less [OF j(1) Cons.prems(2)] by simp
      then have "take (length pat) ((x # xs) @ ys) = take (length pat) (x # xs)" by (cases pat) auto
      then show False using a False by simp
    qed
    then show ?thesis using Cons.IH [OF j(1) Cons.prems(2)] j(2) by simp
  qed
qed simp

lemma whole_documentI:
  assumes "d = xml_open @ body @ data_close" "0 \<notin> set body" "find_sub data_close d = Some (5 + length body)"
  shows "whole_document d"
proof -
  have nz: "0 \<notin> set d" using assms(1,2) by simp
  have "find_sub xml_open (c_bytes (d @ rest)) = Some 0" for rest
    unfolding c_bytes_append [OF nz] using find_sub_0 [of xml_open "body @ data_close @ c_bytes rest"] assms(1) by simp
  moreover have "find_sub data_close (c_bytes (d @ rest)) = Some (5 + length body)" for rest
    unfolding c_bytes_append [OF nz] by (rule find_sub_extend [OF assms(3)]) simp
  moreover have "5 + length body + 7 = length d" using assms(1) by simp
  ultimately show ?thesis by (simp add: whole_document_def next_document_def Let_def)
qed

lemma whole_ack: "whole_document ack_doc"
  by (rule whole_documentI [of _ "[]"]) (simp_all add: ack_doc_def)

lemma whole_nonempty: "whole_document d \<Longrightarrow> d \<noteq> []"
  using next_ack(2) unfolding whole_document_def by (metis append_Nil option.distinct(1))

subsection \<open>The responses of a read\<close>

text \<open>One response after another: the last value that is none of an error, and the parser's data.\<close>

definition respond :: "'a response_parser \<Rightarrow> int \<times> 'a \<Rightarrow> xml_node \<Rightarrow> int \<times> 'a" where
  "respond parser st node =
     (case st of (resp, data) \<Rightarrow>
        case parser data node False of (ret, data', raw) \<Rightarrow> (if ret \<ge> 0 then ret else resp, data'))"

definition plain_node :: "'a response_parser \<Rightarrow> xml_node \<Rightarrow> bool" where
  "plain_node parser node \<longleftrightarrow> (\<forall>data. \<not> snd (snd (parser data node False)))"

text \<open>A message: its document and the element it parses to.\<close>

definition is_message :: "'d fh_env \<Rightarrow> u8 list \<times> xml_node \<Rightarrow> bool" where
  "is_message E m \<longleftrightarrow> whole_document (fst m) \<and> firehose_response_parse E (fst m) = Inr (snd m)"

lemma walk_messages:
  "list_all (is_message E) ms \<Longrightarrow> list_all (\<lambda>m. plain_node parser (snd m)) ms \<Longrightarrow>
   read_walk E parser (concat (map fst ms) @ tail) resp data q =
     (case foldl (respond parser) (resp, data) (map snd ms) of
        (resp', data') \<Rightarrow> read_walk E parser tail resp' data' (foldl firehose_check_vip_marker q (map snd ms)))"
proof (induction ms arbitrary: resp data q)
  case (Cons m ms)
  have nd: "next_document (fst m @ rest) = Some (fst m, rest)" for rest
    using Cons.prems(1) by (simp add: is_message_def whole_document_def)
  have rp: "firehose_response_parse E (fst m) = Inr (snd m)" using Cons.prems(1) by (simp add: is_message_def)
  obtain ret data' raw where p: "parser data (snd m) False = (ret, data', raw)" by (metis prod_cases3)
  have "\<not> raw" using Cons.prems(2) p by (simp add: plain_node_def) (metis snd_conv)
  then have "read_walk E parser (concat (map fst (m # ms)) @ tail) resp data q
      = read_walk E parser (concat (map fst ms) @ tail) (if ret \<ge> 0 then ret else resp) data'
          (firehose_check_vip_marker q (snd m))"
    by (subst read_walk.simps) (simp add: nd rp p Let_def)
  then show ?case using Cons by (simp add: respond_def p)
qed simp

lemma marker_pending [simp]: "pending_buf (firehose_check_vip_marker q node) = pending_buf q"
  by (auto simp: firehose_check_vip_marker_def upd_vip_def split: option.splits)

lemma markers_frame [simp]:
  "link (foldl firehose_check_vip_marker q nodes) = link q"
  "pending_buf (foldl firehose_check_vip_marker q nodes) = pending_buf q"
  by (induction nodes arbitrary: q) simp_all

lemma foldl_marker_link: "foldl firehose_check_vip_marker (q\<lparr>link := d\<rparr>) nodes = (foldl firehose_check_vip_marker q nodes)\<lparr>link := d\<rparr>"
proof (induction nodes arbitrary: q)
  case (Cons n ns)
  have "firehose_check_vip_marker (q\<lparr>link := d\<rparr>) n = (firehose_check_vip_marker q n)\<lparr>link := d\<rparr>"
    by (simp add: firehose_check_vip_marker_def upd_vip_def split: option.splits)
  then show ?case using Cons by simp
qed simp

text \<open>Groups of messages, one group per read, on a scripted device.\<close>

definition group_bytes :: "(u8 list \<times> xml_node) list \<Rightarrow> u8 list" where
  "group_bytes ms = concat (map fst ms)"

lemma group_nonempty: "list_all (is_message E) ms \<Longrightarrow> ms \<noteq> [] \<Longrightarrow> group_bytes ms \<noteq> []"
  by (cases ms) (auto simp: group_bytes_def is_message_def dest: whole_nonempty)

lemma read_groups:
  "env_tr E = script_transport \<Longrightarrow> pending_buf q = None \<Longrightarrow>
   link q = map (\<lambda>ms. Inr (group_bytes ms)) groups \<Longrightarrow> \<forall>ms \<in> set groups. ms \<noteq> [] \<Longrightarrow>
   list_all (is_message E) (concat groups) \<Longrightarrow> list_all (\<lambda>m. plain_node parser (snd m)) (concat groups) \<Longrightarrow>
   foldl (respond parser) (resp, data) (map snd (concat groups)) = (r, data') \<Longrightarrow> 0 \<le> r \<Longrightarrow> length groups < fuel \<Longrightarrow>
   firehose_read_loop fuel E dl parser resp data q
     = Some (r, data', (foldl firehose_check_vip_marker q (map snd (concat groups)))\<lparr>link := []\<rparr>)"
proof (induction groups arbitrary: q resp data fuel)
  case Nil
  then obtain fu where "fuel = Suc fu" by (cases fuel) auto
  then show ?case using Nil by (simp add: qdl_read_def script_transport_def script_read_def)
next
  case (Cons ms groups)
  then obtain fu where fu: "fuel = Suc fu" by (cases fuel) auto
  let ?rest = "map (\<lambda>ms. Inr (group_bytes ms)) groups"
  let ?q1 = "q\<lparr>link := ?rest\<rparr>" and ?q2 = "foldl firehose_check_vip_marker (q\<lparr>link := ?rest\<rparr>) (map snd ms)"
  have rd: "qdl_read (env_tr E) q 4095 100 = (Inr (group_bytes ms), ?q1)"
    using Cons.prems(1-3) by (simp add: qdl_read_def script_transport_def script_read_def)
  have ne: "group_bytes ms \<noteq> []" using Cons.prems(4,5) by (intro group_nonempty) auto
  obtain r1 data1 where f: "foldl (respond parser) (resp, data) (map snd ms) = (r1, data1)" by fastforce
  have e: "read_walk E parser [] r1 data1 x = (Inr (r1, False), data1, x)" for x
    by (subst read_walk.simps) (simp add: next_ack)
  have w: "read_walk E parser (group_bytes ms) resp data ?q1 = (Inr (r1, False), data1, ?q2)"
    using walk_messages [of E ms parser "[]" resp data ?q1] Cons.prems(5,6) f e by (simp add: group_bytes_def)
  have "firehose_read_loop fuel E dl parser resp data q = firehose_read_loop fu E dl parser r1 data1 ?q2"
    by (simp add: fu rd ne w)
  also have "\<dots> = Some (r, data', (foldl firehose_check_vip_marker ?q2 (map snd (concat groups)))\<lparr>link := []\<rparr>)"
    using Cons.prems f fu by (intro Cons.IH) auto
  also have "\<dots> = Some (r, data', (foldl firehose_check_vip_marker q (map snd (concat (ms # groups))))\<lparr>link := []\<rparr>)"
    by (simp add: foldl_marker_link)
  finally show ?case .
qed

text \<open>
  C19: Message boundaries do not matter. Whatever the parser, and however the transport packs the device's
  messages into reads, \<open>firehose_read\<close> consumes all of them and gives what parsing them one by one
  in order gives: the value of the last one that is a response, log messages before and after it
  included in what the parser collected. The fuel needed is one more than the number of reads.
\<close>

theorem firehose_read_coalesced:
  assumes "env_tr E = script_transport" "pending_buf q = None"
    "link q = map (\<lambda>ms. Inr (group_bytes ms)) groups" "\<forall>ms \<in> set groups. ms \<noteq> []"
    "list_all (is_message E) (concat groups)" "list_all (\<lambda>m. plain_node parser (snd m)) (concat groups)"
    "foldl (respond parser) (- EIO, data) (map snd (concat groups)) = (r, data')" "0 \<le> r" "length groups < fuel"
  shows "\<exists>q'. firehose_read fuel E t parser data q = Some (r, data', q') \<and> link q' = []"
  unfolding firehose_read_def using read_groups [OF assms] by simp

lemma reply_message:
  "env_xml E = reply_xml v \<Longrightarrow> is_message E (ack_doc, ex_node ''response'' [(''value'', v)])"
  by (simp add: is_message_def whole_ack firehose_response_parse_def reply_xml_def ex_node_def)

lemma reply_plain: "plain_node firehose_generic_parser (ex_node ''response'' [(''value'', v)])"
  by (simp add: plain_node_def firehose_generic_parser_def ex_node_def)

lemma reply_respond: "respond firehose_generic_parser (r, ()) (ex_node ''response'' [(''value'', ''ACK'')]) = (0, ())"
  by (simp add: respond_def firehose_generic_parser_def ex_node_def FIREHOSE_ACK_def)

lemma firehose_read_coalesced_witness:
  "\<exists>q'. firehose_read 3 \<lparr>env_tr = script_transport, env_clock = (\<lambda>_. 0), env_xml = reply_xml ''ACK'',
        env_dump = (\<lambda>tag attrs. bytes_of tag), env_fs = (\<lambda>_. None), env_stk = []\<rparr> 100 firehose_generic_parser ()
      (fresh_device QDL_DEVICE_USB [Inr (ack_doc @ ack_doc), Inr ack_doc]) = Some (0, (), q') \<and> link q' = []"
proof -
  let ?E = "\<lparr>env_tr = script_transport, env_clock = (\<lambda>_. 0), env_xml = reply_xml ''ACK'',
        env_dump = (\<lambda>tag attrs. bytes_of tag), env_fs = (\<lambda>_. None), env_stk = []\<rparr>"
  let ?n = "ex_node ''response'' [(''value'', ''ACK'')]"
  let ?gs = "[[(ack_doc, ?n), (ack_doc, ?n)], [(ack_doc, ?n)]]"
  let ?q = "fresh_device QDL_DEVICE_USB [Inr (ack_doc @ ack_doc), Inr ack_doc]"
  have m: "is_message ?E (ack_doc, ?n)" by (rule reply_message) simp
  have "env_tr ?E = script_transport" "pending_buf ?q = None" "link ?q = map (\<lambda>ms. Inr (group_bytes ms)) ?gs"
    "\<forall>ms \<in> set ?gs. ms \<noteq> []" "list_all (is_message ?E) (concat ?gs)"
    "list_all (\<lambda>m. plain_node firehose_generic_parser (snd m)) (concat ?gs)"
    "foldl (respond firehose_generic_parser) (- EIO, ()) (map snd (concat ?gs)) = (0, ())" "(0 :: int) \<le> 0" "length ?gs < 3"
    using m reply_plain [of "''ACK''"] reply_respond by (simp_all add: fresh_device_def group_bytes_def)
  from firehose_read_coalesced [OF this] show ?thesis .
qed

subsection \<open>Sector data in fragments\<close>

text \<open>
  A stream transport: the next fragment is delivered as far as the caller has room for it. Nothing
  left is a timeout. Writes succeed, and the device answers what is written with more fragments.
\<close>

definition frag_link :: "(u8 list \<Rightarrow> u8 list list) \<Rightarrow> u8 list list transport" where
  "frag_link answer =
     \<lparr>tr_read = (\<lambda>ps n t. case ps of
        [] \<Rightarrow> (Inl (- ETIMEDOUT), [])
      | p # ps' \<Rightarrow> if length p \<le> n then (Inr p, ps') else (Inr (take n p), drop n p # ps')),
      tr_write = (\<lambda>ps m t. (int (length m), ps @ answer m))\<rparr>"

text \<open>A device whose fragments are there from the start.\<close>

definition frag_transport :: "u8 list list transport" where
  "frag_transport = frag_link (\<lambda>_. [])"

text \<open>The session differs in the link and the pushback buffer only.\<close>

definition unlinked :: "u8 list list fh \<Rightarrow> u8 list list fh" where
  "unlinked s = s\<lparr>fh_dev := (fh_dev s)\<lparr>pending_buf := None, pending_len := 0, pending_off := 0, link := []\<rparr>\<rparr>"

definition io_only :: "u8 list list fh \<Rightarrow> u8 list list fh \<Rightarrow> bool" where
  "io_only s s' \<longleftrightarrow> unlinked s' = unlinked s"

lemma io_only_refl [simp, intro]: "io_only s s"
  by (simp add: io_only_def)

lemma io_only_trans: "io_only s s1 \<Longrightarrow> io_only s1 s2 \<Longrightarrow> io_only s s2"
  by (simp add: io_only_def)

lemma io_only_max: "io_only s s' \<Longrightarrow> max_payload_size (fh_dev s') = max_payload_size (fh_dev s)"
  unfolding io_only_def unlinked_def by (cases s; cases s'; cases "fh_dev s"; cases "fh_dev s'") simp

lemma io_only_read: "io_only s (s\<lparr>fh_dev := snd (qdl_read T (fh_dev s) n t)\<rparr>)"
  by (simp add: io_only_def unlinked_def qdl_read_def Let_def split: option.splits prod.splits)

text \<open>The unread data: what was pushed back, then the fragments up to \<open>rest\<close>.\<close>

definition unread :: "u8 list list \<Rightarrow> u8 list list fh \<Rightarrow> u8 list \<Rightarrow> nat \<Rightarrow> bool" where
  "unread rest s D n \<longleftrightarrow> pending_ok (fh_dev s) \<and> (\<exists>frs. link (fh_dev s) = frs @ rest \<and> [] \<notin> set frs
     \<and> pending (fh_dev s) @ concat frs = D \<and> n = length frs + (if pending (fh_dev s) = [] then 0 else 1))"

lemma read_step:
  assumes "unread rest s D n" "0 < want" "want \<le> length D"
  shows "\<exists>d s' n'. qdl_read (frag_link answer) (fh_dev s) want t = (Inr d, fh_dev s') \<and> s' = s\<lparr>fh_dev := fh_dev s'\<rparr>
    \<and> io_only s s' \<and> length d \<le> want \<and> d = take (length d) D \<and> unread rest s' (drop (length d) D) n'
    \<and> n' \<le> n \<and> (n' < n \<or> length d = want)"
proof -
  let ?q = "fh_dev s"
  obtain frs where u: "pending_ok ?q" "link ?q = frs @ rest" "pending ?q @ concat frs = D"
      "n = length frs + (if pending ?q = [] then 0 else 1)" "[] \<notin> set frs"
    using assms(1) by (auto simp: unread_def)
  show ?thesis
  proof (cases "pending ?q = []")
    case False
    obtain q1 where q1: "qdl_read (frag_link answer) ?q want t = (Inr (take want (pending ?q)), q1)"
        "pending q1 = drop want (pending ?q)" "link q1 = link ?q"
      using qdl_read_pending [OF u(1) False, of "frag_link answer" want t] by (metis prod.collapse)
    have ok: "pending_ok q1" using qdl_read_pending_ok [OF u(1), of "frag_link answer" want t] q1(1) by simp
    have io: "io_only s (s\<lparr>fh_dev := q1\<rparr>)"
      using io_only_read [of s "frag_link answer" want t] q1(1) by simp
    define d where "d = take want (pending ?q)"
    have d: "length d \<le> want" "d = take (length d) D" "length d = want \<or> pending q1 = []"
      using u(3) q1(2) by (auto simp: d_def min_def)
    have "drop (length d) D = pending q1 @ concat frs"
      using q1(2) u(3) by (auto simp: d_def min_def)
    then have "unread rest (s\<lparr>fh_dev := q1\<rparr>) (drop (length d) D) (length frs + (if pending q1 = [] then 0 else 1))"
      using ok q1(3) u(2,5) by (auto simp: unread_def)
    then show ?thesis using q1(1) io u(4) False d unfolding d_def [symmetric]
      by (intro exI [of _ d] exI [of _ "s\<lparr>fh_dev := q1\<rparr>"]
            exI [of _ "length frs + (if pending q1 = [] then 0 else 1)"]) (cases "pending q1 = []"; simp)
  next
    case True
    then obtain f frs' where frs: "frs = f # frs'" using assms(2,3) u(3) by (cases frs) auto
    have pb: "pending_buf ?q = None"
      using u(1) True by (auto simp: pending_def pending_ok_def split: option.splits)
    define frs1 where "frs1 = (if length f \<le> want then frs' else drop want f # frs')"
    let ?d = "take want f" and ?s1 = "s\<lparr>fh_dev := ?q\<lparr>link := frs1 @ rest\<rparr>\<rparr>"
    have rd: "qdl_read (frag_link answer) ?q want t = (Inr ?d, ?q\<lparr>link := frs1 @ rest\<rparr>)"
      using pb u(2) frs by (simp add: qdl_read_def frag_link_def frs1_def)
    have pend: "pending (?q\<lparr>link := x\<rparr>) = []" "pending_ok (?q\<lparr>link := x\<rparr>)" for x
      using pb u(1) by (simp_all add: pending_def pending_ok_def)
    have D: "D = f @ concat frs'" using u(3) True frs by simp
    have "unread rest ?s1 (drop (length ?d) D) (length frs1)"
      using pend D u(5) frs by (auto simp: unread_def frs1_def)
    moreover have "io_only s ?s1"
      by (simp add: io_only_def unlinked_def)
    ultimately show ?thesis using rd u(4) True frs D
      by (intro exI [of _ ?d] exI [of _ ?s1] exI [of _ "length frs1"]) (auto simp: frs1_def)
  qed
qed

lemma read_chunk_fragments:
  assumes "env_tr E = frag_link answer"
  shows "unread rest s D n \<Longrightarrow> length got \<le> want \<Longrightarrow> want - length got \<le> length D \<Longrightarrow> n + 1 < fuel \<Longrightarrow>
   \<exists>s' n'. read_chunk fuel E want got s = Some (Some (got @ take (want - length got) D), s') \<and> io_only s s'
     \<and> unread rest s' (drop (want - length got) D) n' \<and> n' \<le> n"
proof (induction fuel arbitrary: s D n got)
  case (Suc fuel)
  show ?case
  proof (cases "length got = want")
    case True
    then show ?thesis using Suc.prems(1) by auto
  next
    case False
    define w where "w = want - length got"
    have w: "0 < w" "w \<le> length D" using False Suc.prems(2,3) by (simp_all add: w_def)
    obtain d s1 n1 where s1: "qdl_read (frag_link answer) (fh_dev s) w 30000 = (Inr d, fh_dev s1)" "s1 = s\<lparr>fh_dev := fh_dev s1\<rparr>"
      "io_only s s1" "length d \<le> w" "d = take (length d) D" "unread rest s1 (drop (length d) D) n1" "n1 \<le> n"
      "n1 < n \<or> length d = w"
      using read_step [OF Suc.prems(1) w, where t = 30000 and answer = answer] by blast
    have step: "read_chunk (Suc fuel) E want got s = read_chunk fuel E want (got @ d) s1"
      using s1(1,2) False Suc.prems(2) by (simp add: assms w_def)
    have rest_d: "want - length (got @ d) = w - length d" by (simp add: w_def)
    have whole: "d @ take (w - length d) (drop (length d) D) = take w D"
      using s1(4,5) by (metis add_diff_cancel_left' le_add_diff_inverse take_add)
    have dd: "drop (w - length d) (drop (length d) D) = drop w D" using s1(4) by simp
    show ?thesis
    proof (cases "length d = w")
      case True
      obtain fu where fu: "fuel = Suc fu" using Suc.prems(4) by (cases fuel) auto
      have "length (got @ d) \<ge> want" using True w_def by simp
      then have "read_chunk fuel E want (got @ d) s1 = Some (Some (got @ d), s1)" by (simp add: fu)
      then show ?thesis using step s1 True whole unfolding w_def [symmetric] by auto
    next
      case False
      then have n1: "n1 < n" using s1(8) by simp
      have p: "length (got @ d) \<le> want" "want - length (got @ d) \<le> length (drop (length d) D)" "n1 + 1 < fuel"
        using s1(4,5) w n1 Suc.prems(2,4) by (simp_all add: w_def)
      obtain s' n' where ih: "read_chunk fuel E want (got @ d) s1 = Some (Some ((got @ d) @ take (want - length (got @ d)) (drop (length d) D)), s')"
        "io_only s1 s'" "unread rest s' (drop (want - length (got @ d)) (drop (length d) D)) n'" "n' \<le> n1"
        using Suc.IH [OF s1(6) p] by blast
      then show ?thesis using step io_only_trans [OF s1(3)] n1 whole dd
        unfolding w_def [symmetric] rest_d by auto
    qed
  qed
qed simp

text \<open>All the chunks: the buffer has the data in order, cut to its size.\<close>

lemma read_chunks_fragments:
  assumes "env_tr E = frag_link answer"
  shows "unread rest s D n \<Longrightarrow> length D = left * ss \<Longrightarrow> 0 < ss \<Longrightarrow> ss \<le> max_payload_size (fh_dev s) \<Longrightarrow>
    length out \<le> cap \<Longrightarrow> n + left + 1 < fuel \<Longrightarrow>
   \<exists>s' n'. read_chunks fuel E (To_Buf cap) ss left out s = Some ((0, out @ take (cap - length out) D), s') \<and> io_only s s'
     \<and> unread rest s' [] n'"
proof (induction fuel arbitrary: s D n left out)
  case (Suc fuel)
  show ?case
  proof (cases "left = 0")
    case True
    then show ?thesis using Suc.prems(1,2) by auto
  next
    case False
    define k where "k = min (max_payload_size (fh_dev s) div ss) left"
    have "1 \<le> max_payload_size (fh_dev s) div ss"
      using Suc.prems(3,4) by (metis div_greater_zero_iff less_eq_Suc_le One_nat_def)
    then have k: "0 < k" "k \<le> left" using False by (simp_all add: k_def)
    have kl: "k * ss \<le> length D" using k(2) Suc.prems(2) by simp
    obtain s1 n1 where s1: "read_chunk fuel E (k * ss) [] s = Some (Some (take (k * ss) D), s1)" "io_only s s1"
      "unread rest s1 (drop (k * ss) D) n1" "n1 \<le> n"
      using read_chunk_fragments [OF assms Suc.prems(1), of "[]" "k * ss" fuel] kl Suc.prems(6) False by auto
    define out1 where "out1 = out @ take (cap - length out) (take (k * ss) D)"
    have len1: "length out1 \<le> cap" using Suc.prems(5) by (simp add: out1_def)
    have mp: "ss \<le> max_payload_size (fh_dev s1)" using io_only_max [OF s1(2)] Suc.prems(4) by simp
    have p: "length (drop (k * ss) D) = (left - k) * ss" "n1 + (left - k) + 1 < fuel"
      using Suc.prems(2,6) s1(4) k by (simp_all add: diff_mult_distrib)
    obtain s' n' where ih: "read_chunks fuel E (To_Buf cap) ss (left - k) out1 s1
        = Some ((0, out1 @ take (cap - length out1) (drop (k * ss) D)), s')" "io_only s1 s'" "unread rest s' [] n'"
      using Suc.IH [OF s1(3) p(1) Suc.prems(3) mp len1 p(2)] by blast
    have cat: "out1 @ take (cap - length out1) (drop (k * ss) D) = out @ take (cap - length out) D"
    proof (cases "cap - length out \<le> k * ss")
      case True
      then have "out1 = out @ take (cap - length out) D" "cap - length out1 = 0"
        using kl Suc.prems(5) by (simp add: out1_def min_def, simp add: out1_def min_def, arith?)
      then show ?thesis by simp
    next
      case False
      then have "out1 = out @ take (k * ss) D" "cap - length out1 = cap - length out - k * ss"
        using kl by (simp_all add: out1_def min_def)
      then show ?thesis using False by (simp add: take_add [symmetric])
    qed
    have "read_chunks (Suc fuel) E (To_Buf cap) ss left out s
        = read_chunks fuel E (To_Buf cap) ss (left - k) out1 s1"
      using False s1(1) by (simp add: k_def [symmetric] Let_def sbind_def store_chunk_def out1_def)
    then show ?thesis using ih io_only_trans [OF s1(2)] unfolding cat by auto
  qed
qed simp

text \<open>All read: the link is at what follows the data.\<close>

lemma unread_done: "unread rest s [] n \<Longrightarrow> pending_buf (fh_dev s) = None \<and> link (fh_dev s) = rest"
  by (auto simp: unread_def pending_def pending_ok_def split: option.splits) (case_tac frs; auto)+

lemma io_only_idle: "io_only s s' \<Longrightarrow> pending_buf (fh_dev s') = None \<Longrightarrow> idle s \<Longrightarrow> idle s'"
  unfolding io_only_def unlinked_def idle_def by (cases s; cases s'; cases "fh_dev s"; cases "fh_dev s'") simp

lemma frag_write:
  assumes "env_tr E = frag_link answer" "idle s" "0 < fuel"
  shows "firehose_write fuel E buf s = Some (0, s\<lparr>fh_dev := (fh_dev s)\<lparr>link := link (fh_dev s) @ answer buf\<rparr>\<rparr>)"
proof -
  obtain fu where "fuel = Suc fu" using assms(3) by (cases fuel) auto
  then show ?thesis using assms
    by (auto simp: firehose_write_def firehose_vip_send_table_def vip_transfer_handle_tables_def idle_def
        vip_transfer_status_check_needed_def sbind_def sret_def fh_chunk_init_def fh_chunk_update_def
        fh_chunk_store_def fh_send_def vip_gen_chunk_init_def vip_gen_chunk_update_def vip_gen_chunk_store_def
        qdl_write_def frag_link_def intro!: fh.equality)
qed

text \<open>The response that switches to raw mode: what came with it is kept for the data.\<close>

definition raw_response :: "xml_node \<Rightarrow> bool" where
  "raw_response node \<longleftrightarrow> xn_name node = ''response'' \<and> firehose_generic_parser () node False = (0, (), True)"

lemma recv_raw:
  assumes E: "env_tr E = frag_link answer" and s: "pending_buf (fh_dev s) = None" "pending_len (fh_dev s) = 0"
      "pending_off (fh_dev s) = 0"
    and m: "is_message E (raw, node)" "raw_response node" and l: "link (fh_dev s) = (raw @ tail) # frs @ rest"
      "length (raw @ tail) \<le> 4095" "[] \<notin> set frs" and f: "0 < fuel"
  shows "\<exists>s1. fh_recv_generic fuel E t s = Some (0, s1) \<and> io_only s s1
    \<and> unread rest s1 (tail @ concat frs) (length frs + (if tail = [] then 0 else 1))"
proof -
  obtain fu where fu: "fuel = Suc fu" using f by (cases fuel) auto
  let ?q = "(fh_dev s)\<lparr>link := frs @ rest\<rparr>"
  let ?q1 = "snd (qdl_push_back ?q tail)"
  have rd: "qdl_read (env_tr E) (fh_dev s) 4095 100 = (Inr (raw @ tail), ?q)"
    using s l(1,2) by (simp add: E qdl_read_def frag_link_def)
  have ne: "raw @ tail \<noteq> []" using m(1) whole_nonempty by (auto simp: is_message_def)
  have nd: "next_document (raw @ tail) = Some (raw, tail)" using m(1) by (simp add: is_message_def whole_document_def)
  have mk: "firehose_check_vip_marker q node = q" for q :: "u8 list list qdl_device"
    using m(2) by (simp add: firehose_check_vip_marker_def raw_response_def)
  have w: "read_walk E firehose_generic_parser (raw @ tail) (- EIO) () ?q = (Inr (0, True), (), ?q1)"
    using m by (subst read_walk.simps) (simp add: nd is_message_def raw_response_def mk)
  have r: "fh_recv_generic fuel E t s = Some (0, s\<lparr>fh_dev := ?q1\<rparr>)"
    by (simp add: fu fh_recv_generic_def sbind_def sret_def fh_recv_def firehose_read_def rd ne w del: append_is_Nil_conv)
  have ok: "pending_ok ?q" "pending ?q = []" using s by (simp_all add: pending_ok_def pending_def)
  have "link ?q1 = frs @ rest" by (simp add: qdl_push_back_def Let_def split: option.splits)
  then have "unread rest (s\<lparr>fh_dev := ?q1\<rparr>) (tail @ concat frs) (length frs + (if tail = [] then 0 else 1))"
    using l(3) ok qdl_push_back_pending [OF ok(1), of tail] qdl_push_back_ok [OF ok(1), of tail]
    by (auto simp: unread_def)
  moreover have "io_only s (s\<lparr>fh_dev := ?q1\<rparr>)"
    by (simp add: io_only_def unlinked_def qdl_push_back_def Let_def split: option.splits)
  ultimately show ?thesis using r by blast
qed

text \<open>The response behind the data, the last thing on the link.\<close>

lemma recv_last:
  assumes E: "env_tr E = frag_link answer" and s: "pending_buf (fh_dev s) = None" "link (fh_dev s) = [fin]"
    and m: "is_message E (fin, node)" "firehose_generic_parser () node False = (0, (), False)"
    and l: "length fin \<le> 4095" "1 < fuel"
  shows "\<exists>s1. fh_recv_generic fuel E t s = Some (0, s1)"
proof -
  obtain fu where fu: "fuel = Suc (Suc fu)" using l(2) by (cases fuel; cases "fuel - 1") auto
  let ?q = "(fh_dev s)\<lparr>link := []\<rparr>"
  have rd: "qdl_read (env_tr E) (fh_dev s) 4095 100 = (Inr fin, ?q)"
    using s l(1) by (simp add: E qdl_read_def frag_link_def)
  have ne: "fin \<noteq> []" using m(1) whole_nonempty by (auto simp: is_message_def)
  have nd: "next_document fin = Some (fin, [])"
    using m(1) unfolding is_message_def whole_document_def by (metis append_Nil2 fst_conv)
  have e: "read_walk E firehose_generic_parser [] 0 () q = (Inr (0, False), (), q)" for q :: "u8 list list qdl_device"
    by (subst read_walk.simps) (simp add: next_ack)
  have w: "read_walk E firehose_generic_parser fin (- EIO) () ?q = (Inr (0, False), (), firehose_check_vip_marker ?q node)"
    using m by (subst read_walk.simps) (simp add: nd is_message_def e)
  have rd2: "qdl_read (env_tr E) (firehose_check_vip_marker ?q node) 4095 100
      = (Inl (- ETIMEDOUT), (firehose_check_vip_marker ?q node)\<lparr>link := []\<rparr>)"
    using s by (simp add: E qdl_read_def frag_link_def)
  show ?thesis
    by (simp add: fu fh_recv_generic_def sbind_def sret_def fh_recv_def firehose_read_def rd ne w rd2)
qed

lemma read_buf_fragments:
  assumes "env_tr E = frag_link answer" "idle s" "pending_ok (fh_dev s)"
    "eff_sector_size op (fh_dev s) = ss" "ss \<noteq> 0" "unat ss \<le> max_payload_size (fh_dev s)"
    "is_message E (raw, rawnode)" "raw_response rawnode"
    "is_message E (fin, node)" "firehose_generic_parser () node False = (0, (), False)"
    "link (fh_dev s) @ answer (fh_doc E ''read'' (read_attrs op ss (fh_dev s))) = (raw @ tail) # frs @ [fin]"
    "length (raw @ tail) \<le> 4095" "length fin \<le> 4095" "[] \<notin> set frs"
    "length (tail @ concat frs) = unat (op_num_sectors op) * unat ss"
    "length frs + unat (op_num_sectors op) + 2 < fuel"
  shows "\<exists>s'. firehose_read_buf fuel E op n s = Some ((0, take n (tail @ concat frs)), s')"
proof -
  let ?req = "fh_doc E ''read'' (read_attrs op ss (fh_dev s))"
  define s0 where "s0 = s\<lparr>fh_dev := (fh_dev s)\<lparr>link := link (fh_dev s) @ answer ?req\<rparr>\<rparr>"
  have w: "firehose_write fuel E ?req s = Some (0, s0)"
    using frag_write [OF assms(1,2)] assms(16) by (simp add: s0_def)
  have pend: "pending_buf (fh_dev s0) = None" using assms(2) by (simp add: idle_def s0_def)
  have pend0: "pending_len (fh_dev s0) = 0" "pending_off (fh_dev s0) = 0"
    using assms(2,3) by (simp_all add: pending_ok_def idle_def s0_def)
  have l0: "link (fh_dev s0) = (raw @ tail) # frs @ [fin]" "max_payload_size (fh_dev s0) = max_payload_size (fh_dev s)"
    using assms(11) by (simp_all add: s0_def)
  obtain s1 where s1: "fh_recv_generic fuel E 10000 s0 = Some (0, s1)" "io_only s0 s1"
      "unread [fin] s1 (tail @ concat frs) (length frs + (if tail = [] then 0 else 1))"
    using recv_raw [OF assms(1) pend pend0 assms(7,8) l0(1) assms(12,14), of fuel] assms(16) by fastforce
  have ss: "0 < unat ss" using assms(5) by (simp add: unat_gt_0)
  have fu: "length frs + (if tail = [] then 0 else 1) + unat (op_num_sectors op) + 1 < fuel" using assms(16) by simp
  obtain s2 n2 where s2: "read_chunks fuel E (To_Buf n) (unat ss) (unat (op_num_sectors op)) [] s1
      = Some ((0, take n (tail @ concat frs)), s2)" "io_only s1 s2" "unread [fin] s2 [] n2"
    using read_chunks_fragments [OF assms(1) s1(3) assms(15) ss _ _ fu, of "[]" n] io_only_max [OF s1(2)] l0(2) assms(6)
    by auto
  obtain s3 where s3: "fh_recv_generic fuel E 10000 s2 = Some (0, s3)"
    using recv_last [OF assms(1) _ _ assms(9,10,13), of s2 fuel] unread_done [OF s2(3)] assms(16) by auto
  show ?thesis
    using assms(4,5) by (simp add: firehose_read_buf_def firehose_issue_read_def sbind_def sret_def w s1(1) s2(1) s3 count_read_def)
qed

text \<open>
  C20: Reading sectors from a stream. However the device's data is cut into fragments, and however much
  of it arrives in the same read as the response that switches to raw mode, \<open>firehose_read_buf\<close>
  returns success with exactly the first bytes of the sectors asked for, as many as the buffer holds:
  nothing is lost, repeated or taken from the message around it. The fuel needed is linear in the
  number of fragments and of sectors.
\<close>

theorem firehose_read_buf_fragments:
  assumes "env_tr E = frag_transport" "idle s" "pending_ok (fh_dev s)"
    "eff_sector_size op (fh_dev s) = ss" "ss \<noteq> 0" "unat ss \<le> max_payload_size (fh_dev s)"
    "is_message E (raw, rawnode)" "raw_response rawnode"
    "is_message E (fin, node)" "firehose_generic_parser () node False = (0, (), False)"
    "link (fh_dev s) = (raw @ tail) # frs @ [fin]" "length (raw @ tail) \<le> 4095" "length fin \<le> 4095" "[] \<notin> set frs"
    "length (tail @ concat frs) = unat (op_num_sectors op) * unat ss"
    "length frs + unat (op_num_sectors op) + 2 < fuel"
  shows "\<exists>s'. firehose_read_buf fuel E op n s = Some ((0, take n (tail @ concat frs)), s')"
  by (rule read_buf_fragments [OF assms(1) [unfolded frag_transport_def] assms(2-10) _ assms(12-16)]) (simp add: assms(11))

text \<open>Three sectors of four bytes, two bytes of them behind the raw mode response.\<close>

definition raw_doc :: "u8 list" where "raw_doc = xml_open @ [32] @ data_close"

definition raw_xml :: "u8 list \<Rightarrow> xml_doc option" where
  "raw_xml b = (if b = raw_doc
     then Some [(ex_node ''data'' [], [ex_node ''response'' [(''value'', ''ACK''), (''rawmode'', ''true'')]])]
     else reply_xml ''ACK'' b)"

lemma whole_raw: "whole_document raw_doc"
  by (rule whole_documentI [of _ "[32]"]) (simp_all add: raw_doc_def)

lemma raw_doc_ack: "raw_doc \<noteq> ack_doc"
  by (simp add: raw_doc_def ack_doc_def)

definition frag_env :: "u8 list list fh_env" where
  "frag_env = \<lparr>env_tr = frag_transport, env_clock = (\<lambda>_. 0), env_xml = raw_xml,
     env_dump = (\<lambda>tag attrs. bytes_of tag), env_fs = (\<lambda>_. None), env_stk = []\<rparr>"

lemma firehose_read_buf_fragments_witness:
  "\<exists>s'. firehose_read_buf 20 frag_env
      ((firehose_alloc_op FIREHOSE_OP_READ)\<lparr>op_sector_size := 4, op_num_sectors := 3\<rparr>) 10
      (ex_fh [raw_doc @ [1, 2], [3, 4, 5, 6, 7], [8], [9, 10, 11, 12], ack_doc])
    = Some ((0, [1, 2, 3, 4, 5, 6, 7, 8, 9, 10]), s')"
proof -
  let ?op = "(firehose_alloc_op FIREHOSE_OP_READ)\<lparr>op_sector_size := 4, op_num_sectors := 3\<rparr>"
  let ?frs = "[[3, 4, 5, 6, 7], [8], [9, 10, 11, 12]] :: u8 list list"
  let ?s = "ex_fh ((raw_doc @ [1, 2]) # ?frs @ [ack_doc])"
  let ?rn = "ex_node ''response'' [(''value'', ''ACK''), (''rawmode'', ''true'')]"
  let ?n = "ex_node ''response'' [(''value'', ''ACK'')]"
  have rm: "is_message frag_env (raw_doc, ?rn)"
    by (simp add: is_message_def whole_raw firehose_response_parse_def frag_env_def raw_xml_def ex_node_def)
  have rr: "raw_response ?rn"
    by (simp add: raw_response_def firehose_generic_parser_def ex_node_def FIREHOSE_ACK_def)
  have am: "is_message frag_env (ack_doc, ?n)"
    using raw_doc_ack by (simp add: is_message_def whole_ack firehose_response_parse_def frag_env_def raw_xml_def
        reply_xml_def ex_node_def)
  have ap: "firehose_generic_parser () ?n False = (0, (), False)"
    by (simp add: firehose_generic_parser_def ex_node_def FIREHOSE_ACK_def)
  have ok: "pending_ok (fh_dev ?s)" "max_payload_size (fh_dev ?s) = 1048576"
    by (simp_all add: ex_fh_def fresh_device_def pending_ok_def)
  have mp: "unat (4 :: u32) \<le> max_payload_size (fh_dev ?s)" by (simp only: ok) simp
  have "env_tr frag_env = frag_transport" "idle ?s" "eff_sector_size ?op (fh_dev ?s) = 4" "(4 :: u32) \<noteq> 0"
      "link (fh_dev ?s) = (raw_doc @ [1, 2]) # ?frs @ [ack_doc]" "length (raw_doc @ [1, 2]) \<le> 4095"
      "length ack_doc \<le> 4095" "[] \<notin> set ?frs" "length ([1, 2] @ concat ?frs) = unat (op_num_sectors ?op) * unat (4 :: u32)"
      "length ?frs + unat (op_num_sectors ?op) + 2 < 20"
    by (simp_all add: frag_env_def eff_sector_size_def raw_doc_def ack_doc_def)
  from firehose_read_buf_fragments [OF this(1,2) ok(1) this(3,4) mp rm rr am ap this(5-10), of 10]
  show ?thesis by simp
qed

end
