(* ===== verification/Json.thy ===== *)
theory Json
  imports Complex_Main "HOL-Library.Log_Nat" Gpt
begin

text \<open>
  \<open>src/json.c\<close>: the parser of JSON documents and the accessors. The parser's cursor is the rest of
  its input: \<open>input\<close> takes the first byte off it, \<open>unput\<close> puts it back and does nothing at the end.
  \<open>nesting_depth\<close> is an argument. The error message and allocation failure are left out.
\<close>

subsection \<open>Values and outcomes\<close>

datatype json_value =
    JSON_TRUE | JSON_FALSE | JSON_NULL
  | JSON_NUMBER rat
  | JSON_STRING "u8 list"
  | JSON_ARRAY "json_value list"
  | JSON_OBJECT "(u8 list \<times> json_value) list"

definition JSON_MAX_DEPTH :: nat where "JSON_MAX_DEPTH = 256"

text \<open>What a parse function returns: 0, -1, or 1 with a value and the rest of the input.\<close>

datatype 'a jparse = Absent | Broken | Parsed 'a "u8 list"

subsection \<open>Strings\<close>

definition json_hex_value :: "u8 \<Rightarrow> u32 option" where
  "json_hex_value ch =
     (if 48 \<le> ch \<and> ch \<le> 57 then Some (ucast ch - 48)
      else if 97 \<le> ch \<and> ch \<le> 102 then Some (ucast ch - 97 + 10)
      else if 65 \<le> ch \<and> ch \<le> 70 then Some (ucast ch - 65 + 10)
      else None)"

fun hex_loop4 :: "nat \<Rightarrow> u32 \<Rightarrow> u8 list \<Rightarrow> (u32 \<times> u8 list) option" where
  "hex_loop4 0 code s = Some (code, s)"
| "hex_loop4 (Suc n) code [] = None"
| "hex_loop4 (Suc n) code (ch # s) =
     (case json_hex_value ch of None \<Rightarrow> None | Some digit \<Rightarrow> hex_loop4 n (push_bit 4 code OR digit) s)"

definition json_parse_hex4 :: "u8 list \<Rightarrow> (u32 \<times> u8 list) option" where
  "json_parse_hex4 s = hex_loop4 4 0 s"

definition json_buf_append_utf8 :: "u32 \<Rightarrow> u8 list option" where
  "json_buf_append_utf8 cp =
     (if cp \<le> 0x7f then Some [ucast cp]
      else if cp \<le> 0x7ff then Some [ucast (0xc0 OR drop_bit 6 cp), ucast (0x80 OR (cp AND 0x3f))]
      else if cp \<le> 0xffff then
        Some [ucast (0xe0 OR drop_bit 12 cp), ucast (0x80 OR (drop_bit 6 cp AND 0x3f)), ucast (0x80 OR (cp AND 0x3f))]
      else if cp \<le> 0x10ffff then
        Some [ucast (0xf0 OR drop_bit 18 cp), ucast (0x80 OR (drop_bit 12 cp AND 0x3f)),
              ucast (0x80 OR (drop_bit 6 cp AND 0x3f)), ucast (0x80 OR (cp AND 0x3f))]
      else None)"

definition low_surrogate :: "u32 \<Rightarrow> u8 list \<Rightarrow> (u32 \<times> u8 list) option" where
  "low_surrogate code s =
     (case s of
        a # b # s' \<Rightarrow>
          if a \<noteq> 92 \<or> b \<noteq> 117 then None
          else (case json_parse_hex4 s' of
              None \<Rightarrow> None
            | Some (low, r) \<Rightarrow>
                if low < 0xdc00 \<or> low > 0xdfff then None
                else Some (0x10000 + (push_bit 10 (code - 0xd800) OR (low - 0xdc00)), r))
      | _ \<Rightarrow> None)"

definition json_parse_escape :: "u8 list \<Rightarrow> (u8 list \<times> u8 list) option" where
  "json_parse_escape s =
     (case s of
        [] \<Rightarrow> None
      | ch # r \<Rightarrow>
          if ch = 34 \<or> ch = 92 \<or> ch = 47 then Some ([ch], r)
          else if ch = 98 then Some ([8], r)
          else if ch = 102 then Some ([12], r)
          else if ch = 110 then Some ([10], r)
          else if ch = 114 then Some ([13], r)
          else if ch = 116 then Some ([9], r)
          else if ch = 117 then
            (case json_parse_hex4 r of
               None \<Rightarrow> None
             | Some (code, r1) \<Rightarrow>
                 (case (if 0xd800 \<le> code \<and> code \<le> 0xdbff then low_surrogate code r1
                        else if 0xdc00 \<le> code \<and> code \<le> 0xdfff then None
                        else Some (code, r1)) of
                    None \<Rightarrow> None
                  | Some (cp, r2) \<Rightarrow>
                      (case json_buf_append_utf8 cp of None \<Rightarrow> None | Some bs \<Rightarrow> Some (bs, r2))))
          else None)"

lemma hex_loop4_length: "hex_loop4 n code s = Some (x, r) \<Longrightarrow> length s = length r + n"
  by (induction n code s rule: hex_loop4.induct) (auto split: option.splits)

lemma json_parse_escape_shorter: "json_parse_escape s = Some (bs, r) \<Longrightarrow> length r < length s"
  by (auto simp: json_parse_escape_def low_surrogate_def json_parse_hex4_def
      split: list.splits if_splits option.splits dest!: hex_loop4_length)

text \<open>The body of a string behind its opening quote, with what follows the closing one.\<close>

function string_body :: "u8 list \<Rightarrow> (u8 list \<times> u8 list) option" where
  "string_body s =
     (case s of
        [] \<Rightarrow> None
      | ch # r \<Rightarrow>
          if ch = 34 then Some ([], r)
          else if ch = 92 then
            (case json_parse_escape r of
               None \<Rightarrow> None
             | Some (bs, r') \<Rightarrow> map_option (\<lambda>(str, t). (bs @ str, t)) (string_body r'))
          else if ch < 0x20 then None
          else map_option (\<lambda>(str, t). (ch # str, t)) (string_body r))"
  by pat_completeness auto
termination
  by (relation "measure length") (auto dest: json_parse_escape_shorter)

declare string_body.simps [simp del]

definition json_parse_string :: "u8 list \<Rightarrow> u8 list jparse" where
  "json_parse_string s =
     (case s of
        [] \<Rightarrow> Absent
      | ch # r \<Rightarrow>
          if ch \<noteq> 34 then Absent
          else (case string_body r of None \<Rightarrow> Broken | Some (str, t) \<Rightarrow> Parsed str t))"

subsection \<open>Numbers\<close>

text \<open>
  \<open>strtod\<close> of a decimal numeral: the nearest binary64 value, ties to even, as a rational; \<open>None\<close>
  is an overflow. \<open>exp2 q\<close> is the binary exponent of a positive \<open>q\<close>.
\<close>

definition exp2 :: "rat \<Rightarrow> int" where
  "exp2 q =
     (case quotient_of q of (a, b) \<Rightarrow>
        let k = int (floorlog 2 (nat a)) - int (floorlog 2 (nat b))
        in if 2 powi k \<le> q then k else k - 1)"

definition round_even :: "rat \<Rightarrow> int" where
  "round_even x =
     (let f = \<lfloor>x\<rfloor>; r = x - of_int f
      in if r < 1 / 2 then f else if r > 1 / 2 then f + 1 else if even f then f else f + 1)"

definition dbl_abs :: "rat \<Rightarrow> rat" where
  "dbl_abs q =
     (if q = 0 then 0
      else let ulp = 2 powi (max (-1074) (exp2 q - 52)) in of_int (round_even (q / ulp)) * ulp)"

definition to_double :: "rat \<Rightarrow> rat option" where
  "to_double q =
     (let v = dbl_abs \<bar>q\<bar> in if v \<ge> 2 ^ 1024 then None else Some (if q < 0 then - v else v))"

definition jdigit :: "u8 \<Rightarrow> bool" where
  "jdigit b \<longleftrightarrow> 48 \<le> b \<and> b \<le> 57"

definition digits_val :: "u8 list \<Rightarrow> nat" where
  "digits_val ds = foldl (\<lambda>v d. 10 * v + (unat d - 48)) 0 ds"

definition numeral_val :: "bool \<Rightarrow> u8 list \<Rightarrow> u8 list \<Rightarrow> bool \<Rightarrow> u8 list \<Rightarrow> rat" where
  "numeral_val neg ds fs eneg es =
     (let m = of_nat (digits_val (ds @ fs)) / 10 ^ length fs;
          e = digits_val es;
          q = (if eneg then m / 10 ^ e else m * 10 ^ e)
      in if neg then - q else q)"

text \<open>The integer part: a single zero or digits without a leading one.\<close>

definition int_part :: "u8 list \<Rightarrow> (u8 list \<times> u8 list) option" where
  "int_part s =
     (case s of
        [] \<Rightarrow> None
      | d # r \<Rightarrow>
          if \<not> jdigit d then None
          else if d = 48 then (case r of c # _ \<Rightarrow> if jdigit c then None else Some ([d], r) | [] \<Rightarrow> Some ([d], r))
          else Some (takeWhile jdigit s, dropWhile jdigit s))"

text \<open>At least one digit, and what follows.\<close>

definition digit_run :: "u8 list \<Rightarrow> (u8 list \<times> u8 list) option" where
  "digit_run s = (if takeWhile jdigit s = [] then None else Some (takeWhile jdigit s, dropWhile jdigit s))"

definition frac_part :: "u8 list \<Rightarrow> (u8 list \<times> u8 list) option" where
  "frac_part s = (case s of c # r \<Rightarrow> if c = 46 then digit_run r else Some ([], s) | [] \<Rightarrow> Some ([], s))"

definition exp_sign :: "u8 list \<Rightarrow> bool \<times> u8 list" where
  "exp_sign s = (case s of c # r \<Rightarrow> if c = 43 then (False, r) else if c = 45 then (True, r) else (False, s)
                 | [] \<Rightarrow> (False, s))"

definition exp_part :: "u8 list \<Rightarrow> ((bool \<times> u8 list) \<times> u8 list) option" where
  "exp_part s =
     (case s of
        c # r \<Rightarrow>
          if c = 101 \<or> c = 69 then
            (case exp_sign r of (eneg, r1) \<Rightarrow> map_option (\<lambda>(es, t). ((eneg, es), t)) (digit_run r1))
          else Some ((False, []), s)
      | [] \<Rightarrow> Some ((False, []), s))"

definition number_token :: "u8 list \<Rightarrow> (rat \<times> u8 list) option" where
  "number_token s =
     (let (neg, s0) = (case s of c # r \<Rightarrow> if c = 45 then (True, r) else (False, s) | [] \<Rightarrow> (False, s)) in
      case int_part s0 of
        None \<Rightarrow> None
      | Some (ds, s1) \<Rightarrow>
          (case frac_part s1 of
             None \<Rightarrow> None
           | Some (fs, s2) \<Rightarrow>
               (case exp_part s2 of
                  None \<Rightarrow> None
                | Some ((eneg, es), s3) \<Rightarrow> Some (numeral_val neg ds fs eneg es, s3))))"

definition json_parse_number :: "u8 list \<Rightarrow> rat jparse" where
  "json_parse_number s =
     (case s of
        [] \<Rightarrow> Absent
      | c # _ \<Rightarrow>
          if c \<noteq> 45 \<and> \<not> jdigit c then Absent
          else (case number_token s of
              None \<Rightarrow> Broken
            | Some (q, r) \<Rightarrow> (case to_double q of None \<Rightarrow> Broken | Some v \<Rightarrow> Parsed v r)))"

subsection \<open>Keywords and white space\<close>

fun rest_of_word :: "u8 list \<Rightarrow> u8 list \<Rightarrow> u8 list option" where
  "rest_of_word [] s = Some s"
| "rest_of_word (m # ms) [] = None"
| "rest_of_word (m # ms) (c # s) = (if c = m then rest_of_word ms s else None)"

definition json_parse_keyword :: "u8 list \<Rightarrow> json_value jparse" where
  "json_parse_keyword s =
     (case s of
        [] \<Rightarrow> Absent
      | c # r \<Rightarrow>
          (let word = (\<lambda>v ms. case rest_of_word ms r of None \<Rightarrow> Broken | Some t \<Rightarrow> Parsed v t) in
           if c = 116 then word JSON_TRUE (bytes_of ''rue'')
           else if c = 102 then word JSON_FALSE (bytes_of ''alse'')
           else if c = 110 then word JSON_NULL (bytes_of ''ull'')
           else Absent))"

definition jspace :: "u8 \<Rightarrow> bool" where
  "jspace b \<longleftrightarrow> b = 32 \<or> (9 \<le> b \<and> b \<le> 13)"

definition json_skip_whitespace :: "u8 list \<Rightarrow> u8 list" where
  "json_skip_whitespace s = dropWhile jspace s"

subsection \<open>The recursive descent\<close>

text \<open>
  \<open>depth\<close> is \<open>nesting_depth\<close> on entry; \<open>json_enter_nesting\<close> adds one and every way out takes it off
  again. The loops are entered behind the opening bracket, with the input at the next element. One
  alternative after the other is tried as long as the ones before it do not match.
\<close>

definition or_else :: "'a jparse \<Rightarrow> 'a jparse \<Rightarrow> 'a jparse" where
  "or_else p q = (case p of Absent \<Rightarrow> q | _ \<Rightarrow> p)"

definition map_parse :: "('a \<Rightarrow> 'b) \<Rightarrow> 'a jparse \<Rightarrow> 'b jparse" where
  "map_parse f p = (case p of Absent \<Rightarrow> Absent | Broken \<Rightarrow> Broken | Parsed v r \<Rightarrow> Parsed (f v) r)"

text \<open>The alternatives of \<open>json_parse_value\<close> that do not recurse.\<close>

definition json_parse_scalar :: "u8 list \<Rightarrow> json_value jparse" where
  "json_parse_scalar s =
     or_else (map_parse JSON_STRING (json_parse_string s))
       (or_else (map_parse JSON_NUMBER (json_parse_number s)) (json_parse_keyword s))"

text \<open>The end of a value: nothing that matched is an error, else the white space behind it goes too.\<close>

definition value_end :: "'a jparse \<Rightarrow> 'a jparse" where
  "value_end p = (case p of Parsed v r \<Rightarrow> Parsed v (json_skip_whitespace r) | _ \<Rightarrow> Broken)"

text \<open>The key of a property and its colon.\<close>

definition property_key :: "u8 list \<Rightarrow> (u8 list \<times> u8 list) option" where
  "property_key s =
     (case json_parse_string (json_skip_whitespace s) of
        Parsed key r \<Rightarrow>
          (case json_skip_whitespace r of
             c # t \<Rightarrow> if c = 58 then Some (key, t) else None
           | [] \<Rightarrow> None)
      | _ \<Rightarrow> None)"

function
      json_parse_value :: "nat \<Rightarrow> u8 list \<Rightarrow> json_value jparse"
  and json_parse_array :: "nat \<Rightarrow> u8 list \<Rightarrow> json_value jparse"
  and array_loop :: "nat \<Rightarrow> u8 list \<Rightarrow> json_value list jparse"
  and json_parse_object :: "nat \<Rightarrow> u8 list \<Rightarrow> json_value jparse"
  and object_loop :: "nat \<Rightarrow> u8 list \<Rightarrow> (u8 list \<times> json_value) list jparse"
  and json_parse_property :: "nat \<Rightarrow> u8 list \<Rightarrow> (u8 list \<times> json_value) jparse"
where
  "json_parse_value depth s =
     (let s1 = json_skip_whitespace s in
      value_end (or_else (json_parse_object depth s1) (or_else (json_parse_array depth s1) (json_parse_scalar s1))))"
| "json_parse_array depth s =
     (case s of
        [] \<Rightarrow> Absent
      | c # r \<Rightarrow>
          if c \<noteq> 91 then Absent
          else if depth + 1 > JSON_MAX_DEPTH then Broken
          else let t = json_skip_whitespace r in
               if t \<noteq> [] \<and> hd t = 93 then Parsed (JSON_ARRAY []) (tl t)
               else map_parse JSON_ARRAY (array_loop (depth + 1) t))"
| "array_loop depth s =
     (case json_parse_value depth s of
        Parsed v r \<Rightarrow>
          (case r of
             [] \<Rightarrow> Broken
           | c # t \<Rightarrow> if c = 93 then Parsed [v] t
                      else if c = 44 then map_parse (\<lambda>vs. v # vs) (array_loop depth t)
                      else Broken)
      | _ \<Rightarrow> Broken)"
| "json_parse_object depth s =
     (case s of
        [] \<Rightarrow> Absent
      | c # r \<Rightarrow>
          if c \<noteq> 123 then Absent
          else if depth + 1 > JSON_MAX_DEPTH then Broken
          else let t = json_skip_whitespace r in
               if t \<noteq> [] \<and> hd t = 125 then Parsed (JSON_OBJECT []) (tl t)
               else map_parse JSON_OBJECT (object_loop (depth + 1) t))"
| "object_loop depth s =
     (case json_parse_property depth s of
        Parsed kv r \<Rightarrow>
          (case r of
             [] \<Rightarrow> Broken
           | c # t \<Rightarrow> if c = 125 then Parsed [kv] t
                      else if c = 44 then map_parse (\<lambda>kvs. kv # kvs) (object_loop depth t)
                      else Broken)
      | _ \<Rightarrow> Broken)"
| "json_parse_property depth s =
     (case property_key s of
        None \<Rightarrow> Broken
      | Some (key, t) \<Rightarrow> (case json_parse_value depth t of Parsed v r \<Rightarrow> Parsed (key, v) r | _ \<Rightarrow> Broken))"
  by pat_completeness auto

text \<open>A parse never leaves more input than it was given.\<close>

definition shorter :: "nat \<Rightarrow> 'a jparse \<Rightarrow> bool" where
  "shorter n p = (case p of Parsed _ r \<Rightarrow> length r \<le> n | _ \<Rightarrow> True)"

lemma shorter_simps [simp]:
  "shorter n Absent" "shorter n Broken" "shorter n (Parsed v r) \<longleftrightarrow> length r \<le> n"
  "shorter n (map_parse f p) = shorter n p"
  by (auto simp: shorter_def map_parse_def split: jparse.splits)

lemma shorter_or_else: "shorter n p \<Longrightarrow> shorter n q \<Longrightarrow> shorter n (or_else p q)"
  by (auto simp: or_else_def split: jparse.splits)

lemma shorter_mono: "shorter n p \<Longrightarrow> n \<le> m \<Longrightarrow> shorter m p"
  by (auto simp: shorter_def split: jparse.splits)

lemma shorter_value_end: "shorter n p \<Longrightarrow> shorter n (value_end p)"
  by (auto simp: value_end_def shorter_def json_skip_whitespace_def split: jparse.splits
      intro: order_trans [OF length_dropWhile_le])

lemma length_skip: "length (json_skip_whitespace s) \<le> length s"
  by (simp add: json_skip_whitespace_def length_dropWhile_le)

lemma string_body_shorter: "string_body s = Some (x, r) \<Longrightarrow> length r < length s"
proof (induction s arbitrary: x r rule: string_body.induct)
  case (1 s)
  show ?case
  proof (cases s)
    case Nil
    then show ?thesis using "1.prems" by (simp add: string_body.simps)
  next
    case (Cons ch t)
    consider (quote) "ch = 34" | (escape) bs r' y where "ch = 92" "json_parse_escape t = Some (bs, r')" "string_body r' = Some (y, r)"
      | (plain) y where "ch \<noteq> 34" "ch \<noteq> 92" "\<not> ch < 0x20" "string_body t = Some (y, r)"
      using "1.prems" Cons by (subst (asm) string_body.simps) (auto split: if_splits option.splits)
    then show ?thesis
    proof cases
      case quote
      then show ?thesis using "1.prems" Cons by (simp add: string_body.simps)
    next
      case escape
      then show ?thesis using "1.IH"(1) [OF Cons _ _ _ _ escape(3)] json_parse_escape_shorter [OF escape(2)] Cons by fastforce
    next
      case plain
      then show ?thesis using "1.IH"(2) [OF Cons plain(1-3) plain(4)] Cons by simp
    qed
  qed
qed

lemma json_parse_string_shorter: "json_parse_string s = Parsed v r \<Longrightarrow> length r < length s"
  by (auto simp: json_parse_string_def split: list.splits if_splits option.splits dest!: string_body_shorter)

lemma string_shorter: "shorter (length s) (json_parse_string s)"
  by (auto simp: shorter_def split: jparse.splits dest: json_parse_string_shorter)

lemma rest_of_word_length: "rest_of_word ms s = Some t \<Longrightarrow> length s = length t + length ms"
  by (induction ms s rule: rest_of_word.induct) (auto split: if_splits)

lemma keyword_shorter: "shorter (length s) (json_parse_keyword s)"
  by (auto simp: json_parse_keyword_def Let_def split: list.splits option.splits dest!: rest_of_word_length)

lemma digit_run_shorter: "digit_run s = Some (x, t) \<Longrightarrow> length t \<le> length s"
  by (auto simp: digit_run_def length_dropWhile_le split: if_splits)

lemma number_shorter: "shorter (length s) (json_parse_number s)"
proof -
  have i: "int_part s = Some (x, t) \<Longrightarrow> length t \<le> length s" for s x t
    by (auto simp: int_part_def length_dropWhile_le le_SucI split: list.splits if_splits)
  have f: "frac_part s = Some (x, t) \<Longrightarrow> length t \<le> length s" for s x t
    by (auto simp: frac_part_def split: list.splits if_splits dest: digit_run_shorter)
  have e: "exp_part s = Some (x, t) \<Longrightarrow> length t \<le> length s" for s x t
    by (auto simp: exp_part_def exp_sign_def split: list.splits if_splits prod.splits dest!: digit_run_shorter)
  have "number_token s = Some (q, r) \<Longrightarrow> length r \<le> length s" for q r
    by (auto simp: number_token_def split: list.splits if_splits option.splits dest!: i f e)
  then show ?thesis
    by (auto simp: json_parse_number_def split: list.splits option.splits)
qed

lemma scalar_shorter: "shorter (length s) (json_parse_scalar s)"
  unfolding json_parse_scalar_def
  by (intro shorter_or_else) (simp_all add: keyword_shorter number_shorter string_shorter)

lemma property_key_shorter: "property_key s = Some (k, t) \<Longrightarrow> length t < length s"
proof -
  assume "property_key s = Some (k, t)"
  then obtain r where "json_parse_string (json_skip_whitespace s) = Parsed k r" "json_skip_whitespace r = 58 # t"
    by (auto simp: property_key_def split: jparse.splits list.splits if_splits)
  then show ?thesis
    using json_parse_string_shorter [of "json_skip_whitespace s" k r] length_skip [of s] length_skip [of r] by simp
qed

lemma shorter_loop: "shorter (length (json_skip_whitespace r)) p \<Longrightarrow> shorter (Suc (length r)) p"
  using length_skip [of r] by (auto elim: shorter_mono)

lemma map_parse_Parsed [simp]: "map_parse f p = Parsed v r \<longleftrightarrow> (\<exists>v'. p = Parsed v' r \<and> v = f v')"
  by (auto simp: map_parse_def split: jparse.splits)

lemma descent_shorter:
  "json_parse_value_json_parse_array_array_loop_json_parse_object_object_loop_json_parse_property_dom (Inl (Inl (d, s)))
     \<Longrightarrow> shorter (length s) (json_parse_value d s)"
  "json_parse_value_json_parse_array_array_loop_json_parse_object_object_loop_json_parse_property_dom (Inl (Inr (Inl (d, s))))
     \<Longrightarrow> shorter (length s) (json_parse_array d s)"
  "json_parse_value_json_parse_array_array_loop_json_parse_object_object_loop_json_parse_property_dom (Inl (Inr (Inr (d, s))))
     \<Longrightarrow> shorter (length s) (array_loop d s)"
  "json_parse_value_json_parse_array_array_loop_json_parse_object_object_loop_json_parse_property_dom (Inr (Inl (d, s)))
     \<Longrightarrow> shorter (length s) (json_parse_object d s)"
  "json_parse_value_json_parse_array_array_loop_json_parse_object_object_loop_json_parse_property_dom (Inr (Inr (Inl (d, s))))
     \<Longrightarrow> shorter (length s) (object_loop d s)"
  "json_parse_value_json_parse_array_array_loop_json_parse_object_object_loop_json_parse_property_dom (Inr (Inr (Inr (d, s))))
     \<Longrightarrow> shorter (length s) (json_parse_property d s)"
proof (induction d s and d s and d s and d s and d s and d s
    rule: json_parse_value_json_parse_array_array_loop_json_parse_object_object_loop_json_parse_property.pinduct)
  case (1 depth s)
  then show ?case using length_skip [of s] scalar_shorter [of "json_skip_whitespace s"]
    by (auto simp: json_parse_value.psimps Let_def intro!: shorter_value_end shorter_or_else elim: shorter_mono)
next
  case (2 depth s)
  show ?case
  proof (cases s)
    case (Cons c r)
    have tl: "length (tl (json_skip_whitespace r)) \<le> Suc (length r)" using length_skip [of r] by simp
    have "shorter (Suc (length r)) (array_loop (depth + 1) (json_skip_whitespace r))"
      if "c = 91" "\<not> JSON_MAX_DEPTH < depth + 1" "json_skip_whitespace r = [] \<or> hd (json_skip_whitespace r) \<noteq> 93"
      using shorter_loop [OF 2(2) [OF Cons _ _ refl]] that by simp
    then show ?thesis using 2(1) Cons tl by (auto simp: json_parse_array.psimps Let_def)
  qed (use 2(1) in \<open>simp add: json_parse_array.psimps\<close>)
next
  case (3 depth s)
  show ?case
  proof (cases "json_parse_value depth s")
    case (Parsed v r)
    have r: "length r \<le> length s" using 3(2) Parsed by simp
    have "shorter (length t) (array_loop depth t)" if "r = 44 # t" for t
      using 3(3) [OF Parsed that] by simp
    then show ?thesis using r Parsed 3(1) by (cases r) (auto simp: array_loop.psimps elim!: shorter_mono)
  qed (use 3(1) in \<open>simp_all add: array_loop.psimps\<close>)
next
  case (4 depth s)
  show ?case
  proof (cases s)
    case (Cons c r)
    have tl: "length (tl (json_skip_whitespace r)) \<le> Suc (length r)" using length_skip [of r] by simp
    have "shorter (Suc (length r)) (object_loop (depth + 1) (json_skip_whitespace r))"
      if "c = 123" "\<not> JSON_MAX_DEPTH < depth + 1" "json_skip_whitespace r = [] \<or> hd (json_skip_whitespace r) \<noteq> 125"
      using shorter_loop [OF 4(2) [OF Cons _ _ refl]] that by simp
    then show ?thesis using 4(1) Cons tl by (auto simp: json_parse_object.psimps Let_def)
  qed (use 4(1) in \<open>simp add: json_parse_object.psimps\<close>)
next
  case (5 depth s)
  show ?case
  proof (cases "json_parse_property depth s")
    case (Parsed v r)
    have r: "length r \<le> length s" using 5(2) Parsed by simp
    have "shorter (length t) (object_loop depth t)" if "r = 44 # t" for t
      using 5(3) [OF Parsed that] by simp
    then show ?thesis using r Parsed 5(1) by (cases r) (auto simp: object_loop.psimps elim!: shorter_mono)
  qed (use 5(1) in \<open>simp_all add: object_loop.psimps\<close>)
next
  case (6 depth s)
  show ?case
  proof (cases "property_key s")
    case (Some kt)
    obtain key t where kt: "kt = (key, t)" by fastforce
    have "shorter (length t) (json_parse_value depth t)" using 6(2) [OF Some, of key t] kt by simp
    then have "shorter (length s) (json_parse_value depth t)"
      using property_key_shorter [of s key t] Some kt by (auto elim!: shorter_mono)
    then show ?thesis using 6(1) Some kt by (auto simp: json_parse_property.psimps shorter_def split: jparse.splits)
  qed (use 6(1) in \<open>simp add: json_parse_property.psimps\<close>)
qed

text \<open>Every call is on less input, or on as much and nearer to a value.\<close>

termination json_parse_value
proof (relation "measure (\<lambda>x. case x of
      Inl (Inl (d, s)) \<Rightarrow> 5 * length s + 2 | Inl (Inr (Inl (d, s))) \<Rightarrow> 5 * length s + 1
    | Inl (Inr (Inr (d, s))) \<Rightarrow> 5 * length s + 3 | Inr (Inl (d, s)) \<Rightarrow> 5 * length s + 1
    | Inr (Inr (Inl (d, s))) \<Rightarrow> 5 * length s + 4 | Inr (Inr (Inr (d, s))) \<Rightarrow> 5 * length s + 3)", goal_cases)
  case (2 depth s x) then show ?case using length_skip [of s] by simp
next
  case (3 depth s x) then show ?case using length_skip [of s] by simp
next
  case (4 depth s c r x) then show ?case using length_skip [of r] by simp
next
  case (6 depth s v r c t) then show ?case using descent_shorter(1) [OF 6(5)] by simp
next
  case (7 depth s c r x) then show ?case using length_skip [of r] by simp
next
  case (9 depth s v r c t) then show ?case using descent_shorter(6) [OF 9(5)] by simp
next
  case (10 depth s p key t) then show ?case using property_key_shorter [of s key t] by auto
qed simp_all

declare json_parse_value.simps [simp del] json_parse_array.simps [simp del] array_loop.simps [simp del]
  json_parse_object.simps [simp del] object_loop.simps [simp del] json_parse_property.simps [simp del]

definition json_parse_internal :: "u8 list \<Rightarrow> json_value option" where
  "json_parse_internal json =
     (if length json > 2 ^ 31 - 1 then None
      else case json_parse_value 0 json of
        Parsed v r \<Rightarrow> if json_skip_whitespace r = [] then Some v else None
      | _ \<Rightarrow> None)"

definition json_parse_buf :: "u8 list \<Rightarrow> json_value option" where
  "json_parse_buf json = json_parse_internal json"

subsection \<open>Accessors\<close>

text \<open>
  Keys and strings are C strings, so what a \<open>\u0000\<close> escape leaves behind its NUL is not seen; a
  null pointer argument is \<open>None\<close>.
\<close>

definition c_text :: "u8 list \<Rightarrow> u8 list" where
  "c_text bs = takeWhile (\<lambda>b. b \<noteq> 0) bs"

fun find_key :: "u8 list \<Rightarrow> (u8 list \<times> json_value) list \<Rightarrow> json_value option" where
  "find_key key [] = None"
| "find_key key ((k, v) # kvs) = (if c_text k = c_text key then Some v else find_key key kvs)"

definition json_get_child :: "json_value option \<Rightarrow> u8 list \<Rightarrow> json_value option" where
  "json_get_child object key = (case object of Some (JSON_OBJECT kvs) \<Rightarrow> find_key key kvs | _ \<Rightarrow> None)"

definition json_get_element_object :: "json_value option \<Rightarrow> nat \<Rightarrow> json_value option" where
  "json_get_element_object object idx =
     (case object of
        Some (JSON_ARRAY vs) \<Rightarrow> if idx < length vs then Some (vs ! idx) else None
      | _ \<Rightarrow> None)"

definition json_get_element_string :: "json_value option \<Rightarrow> nat \<Rightarrow> u8 list option" where
  "json_get_element_string object idx =
     (case json_get_element_object object idx of Some (JSON_STRING s) \<Rightarrow> Some (c_text s) | _ \<Rightarrow> None)"

definition json_count_children :: "json_value option \<Rightarrow> int" where
  "json_count_children array = (case array of Some (JSON_ARRAY vs) \<Rightarrow> int (length vs) | _ \<Rightarrow> -1)"

definition json_get_number :: "json_value option \<Rightarrow> u8 list \<Rightarrow> rat option" where
  "json_get_number object key =
     (case json_get_child object key of Some (JSON_NUMBER q) \<Rightarrow> Some q | _ \<Rightarrow> None)"

definition json_get_string :: "json_value option \<Rightarrow> u8 list \<Rightarrow> u8 list option" where
  "json_get_string object key =
     (case json_get_child object key of Some (JSON_STRING s) \<Rightarrow> Some (c_text s) | _ \<Rightarrow> None)"

end
