(* ===== verification/JsonProps.thy ===== *)
theory JsonProps
  imports Json
begin

text \<open>
  The language the JSON parser accepts, and the values it gives: a grammar in the form of
  \<open>RFC 8259\<close>, with the white space of \<open>isspace\<close>, numbers rounded to binary64 and nesting bounded.
\<close>

subsection \<open>The grammar\<close>

definition jws :: "u8 list \<Rightarrow> bool" where
  "jws w \<longleftrightarrow> list_all jspace w"

definition hex_digit_val :: "u8 \<Rightarrow> nat option" where
  "hex_digit_val c =
     (if 48 \<le> c \<and> c \<le> 57 then Some (unat c - 48)
      else if 97 \<le> c \<and> c \<le> 102 then Some (unat c - 87)
      else if 65 \<le> c \<and> c \<le> 70 then Some (unat c - 55) else None)"

text \<open>Four hex digits and the code unit they denote.\<close>

definition hex4 :: "nat \<Rightarrow> u8 list \<Rightarrow> bool" where
  "hex4 u h \<longleftrightarrow> (\<exists>a b c d. map hex_digit_val h = [Some a, Some b, Some c, Some d] \<and> u = ((a * 16 + b) * 16 + c) * 16 + d)"

definition simple_escapes :: "(u8 \<times> u8) list" where
  "simple_escapes = [(34, 34), (92, 92), (47, 47), (98, 8), (102, 12), (110, 10), (114, 13), (116, 9)]"

inductive jescape :: "u8 list \<Rightarrow> u8 list \<Rightarrow> bool" where
  simple: "(e, b) \<in> set simple_escapes \<Longrightarrow> jescape [b] [e]"
| unit: "hex4 u h \<Longrightarrow> u < 0xd800 \<or> 0xe000 \<le> u \<Longrightarrow> jescape (utf8_of (of_nat u)) (117 # h)"
| pair: "hex4 hi h1 \<Longrightarrow> hex4 lo h2 \<Longrightarrow> 0xd800 \<le> hi \<Longrightarrow> hi < 0xdc00 \<Longrightarrow> 0xdc00 \<le> lo \<Longrightarrow> lo < 0xe000 \<Longrightarrow>
    jescape (utf8_of (of_nat (0x10000 + (hi - 0xd800) * 0x400 + (lo - 0xdc00)))) (117 # h1 @ 92 # 117 # h2)"

inductive jchars :: "u8 list \<Rightarrow> u8 list \<Rightarrow> bool" where
  none: "jchars [] []"
| plain: "jchars str t \<Longrightarrow> 0x20 \<le> c \<Longrightarrow> c \<noteq> 34 \<Longrightarrow> c \<noteq> 92 \<Longrightarrow> jchars (c # str) (c # t)"
| escape: "jescape bs e \<Longrightarrow> jchars str t \<Longrightarrow> jchars (bs @ str) (92 # e @ t)"

definition jint :: "u8 list \<Rightarrow> bool" where
  "jint ds \<longleftrightarrow> ds = [48] \<or> (ds \<noteq> [] \<and> hd ds \<noteq> 48 \<and> list_all jdigit ds)"

definition jfrac :: "u8 list \<Rightarrow> u8 list \<Rightarrow> bool" where
  "jfrac fs t \<longleftrightarrow> (fs = [] \<and> t = []) \<or> (fs \<noteq> [] \<and> list_all jdigit fs \<and> t = 46 # fs)"

definition jexp :: "bool \<Rightarrow> u8 list \<Rightarrow> u8 list \<Rightarrow> bool" where
  "jexp eneg es t \<longleftrightarrow> (\<not> eneg \<and> es = [] \<and> t = []) \<or> (es \<noteq> [] \<and> list_all jdigit es \<and>
     (\<exists>e sg. (e = 101 \<or> e = 69) \<and> (if eneg then sg = [45] else sg = [] \<or> sg = [43]) \<and> t = e # sg @ es))"

definition jnumber :: "rat \<Rightarrow> u8 list \<Rightarrow> bool" where
  "jnumber q t \<longleftrightarrow> (\<exists>neg ds fs f eneg es e. jint ds \<and> jfrac fs f \<and> jexp eneg es e
     \<and> t = (if neg then [45] else []) @ ds @ f @ e \<and> q = numeral_val neg ds fs eneg es)"

inductive jvalue :: "nat \<Rightarrow> json_value \<Rightarrow> u8 list \<Rightarrow> bool"
  and jelements :: "nat \<Rightarrow> json_value list \<Rightarrow> u8 list \<Rightarrow> bool"
  and jmembers :: "nat \<Rightarrow> (u8 list \<times> json_value) list \<Rightarrow> u8 list \<Rightarrow> bool" where
  str: "jchars str t \<Longrightarrow> jvalue d (JSON_STRING str) (34 # t @ [34])"
| num: "jnumber q t \<Longrightarrow> to_double q = Some v \<Longrightarrow> jvalue d (JSON_NUMBER v) t"
| tru: "jvalue d JSON_TRUE (bytes_of ''true'')"
| fals: "jvalue d JSON_FALSE (bytes_of ''false'')"
| nul: "jvalue d JSON_NULL (bytes_of ''null'')"
| arr0: "jws w \<Longrightarrow> d < JSON_MAX_DEPTH \<Longrightarrow> jvalue d (JSON_ARRAY []) (91 # w @ [93])"
| arr: "jelements (Suc d) vs t \<Longrightarrow> d < JSON_MAX_DEPTH \<Longrightarrow> jvalue d (JSON_ARRAY vs) (91 # t @ [93])"
| obj0: "jws w \<Longrightarrow> d < JSON_MAX_DEPTH \<Longrightarrow> jvalue d (JSON_OBJECT []) (123 # w @ [125])"
| obj: "jmembers (Suc d) kvs t \<Longrightarrow> d < JSON_MAX_DEPTH \<Longrightarrow> jvalue d (JSON_OBJECT kvs) (123 # t @ [125])"
| elem1: "jvalue d v t \<Longrightarrow> jws w1 \<Longrightarrow> jws w2 \<Longrightarrow> jelements d [v] (w1 @ t @ w2)"
| elems: "jvalue d v t \<Longrightarrow> jws w1 \<Longrightarrow> jws w2 \<Longrightarrow> jelements d vs ts \<Longrightarrow> jelements d (v # vs) (w1 @ t @ w2 @ 44 # ts)"
| mem1: "jchars k kt \<Longrightarrow> jvalue d v t \<Longrightarrow> jws w0 \<Longrightarrow> jws w1 \<Longrightarrow> jws w2 \<Longrightarrow> jws w3 \<Longrightarrow>
    jmembers d [(k, v)] (w0 @ 34 # kt @ 34 # w1 @ 58 # w2 @ t @ w3)"
| mems: "jchars k kt \<Longrightarrow> jvalue d v t \<Longrightarrow> jws w0 \<Longrightarrow> jws w1 \<Longrightarrow> jws w2 \<Longrightarrow> jws w3 \<Longrightarrow> jmembers d kvs ts \<Longrightarrow>
    jmembers d ((k, v) # kvs) (w0 @ 34 # kt @ 34 # w1 @ 58 # w2 @ t @ w3 @ 44 # ts)"

subsection \<open>Escapes\<close>

lemma hex_value_val: "json_hex_value c = map_option of_nat (hex_digit_val c)"
  by (auto simp: json_hex_value_def hex_digit_val_def word_le_nat_alt of_nat_diff)

lemma hex_digit_bound: "hex_digit_val c = Some a \<Longrightarrow> a < 16"
  by (auto simp: hex_digit_val_def word_le_nat_alt split: if_splits)

lemma hex_loop4_Cons:
  "hex_loop4 (Suc n) (of_nat v) (c # s) =
     (case hex_digit_val c of None \<Rightarrow> None | Some a \<Rightarrow> hex_loop4 n (of_nat (v * 16 + a)) s)"
  using shift_nat [of _ 4 v] hex_digit_bound [of c] by (auto simp: hex_value_val split: option.split)

lemma hex4_complete: "hex4 u h \<Longrightarrow> json_parse_hex4 (h @ r) = Some (of_nat u, r)"
proof -
  assume "hex4 u h"
  then obtain a b c d w x y z where h: "h = [w, x, y, z]" "hex_digit_val w = Some a" "hex_digit_val x = Some b"
    "hex_digit_val y = Some c" "hex_digit_val z = Some d" "u = ((a * 16 + b) * 16 + c) * 16 + d"
    by (auto simp: hex4_def)
  have "hex_loop4 (Suc (Suc (Suc (Suc 0)))) (of_nat 0) (h @ r) = Some (of_nat u, r)"
    unfolding h(1) append_Cons append_Nil hex_loop4_Cons h(2-5) option.case mult_zero_left add_0 by (simp add: h(6))
  then show ?thesis by (simp add: json_parse_hex4_def numeral_eq_Suc)
qed

lemma hex_loop4_sound:
  "hex_loop4 (Suc n) (of_nat v) s = Some (x, r) \<Longrightarrow>
   \<exists>c t a. s = c # t \<and> hex_digit_val c = Some a \<and> hex_loop4 n (of_nat (v * 16 + a)) t = Some (x, r)"
  by (cases s) (auto simp: hex_loop4_Cons simp del: hex_loop4.simps(3) split: option.splits)

lemma hex4_sound:
  assumes "json_parse_hex4 s = Some (x, r)"
  shows "\<exists>u h. s = h @ r \<and> hex4 u h \<and> x = of_nat u"
proof -
  have "hex_loop4 (Suc (Suc (Suc (Suc 0)))) (of_nat 0) s = Some (x, r)"
    using assms by (simp add: json_parse_hex4_def numeral_eq_Suc)
  then obtain w t1 a where 1: "s = w # t1" "hex_digit_val w = Some a" "hex_loop4 (Suc (Suc (Suc 0))) (of_nat (0 * 16 + a)) t1 = Some (x, r)"
    using hex_loop4_sound by blast
  obtain y t2 b where 2: "t1 = y # t2" "hex_digit_val y = Some b" "hex_loop4 (Suc (Suc 0)) (of_nat ((0 * 16 + a) * 16 + b)) t2 = Some (x, r)"
    using hex_loop4_sound [OF 1(3)] by blast
  obtain z t3 c where 3: "t2 = z # t3" "hex_digit_val z = Some c" "hex_loop4 (Suc 0) (of_nat (((0 * 16 + a) * 16 + b) * 16 + c)) t3 = Some (x, r)"
    using hex_loop4_sound [OF 2(3)] by blast
  obtain q t4 d where 4: "t3 = q # t4" "hex_digit_val q = Some d" "hex_loop4 0 (of_nat ((((0 * 16 + a) * 16 + b) * 16 + c) * 16 + d)) t4 = Some (x, r)"
    using hex_loop4_sound [OF 3(3)] by blast
  have "hex4 (((a * 16 + b) * 16 + c) * 16 + d) [w, y, z, q]" using 1 2 3 4 by (simp add: hex4_def)
  moreover have "x = of_nat (((a * 16 + b) * 16 + c) * 16 + d)" "r = t4" using 4(3) by simp_all
  ultimately show ?thesis using 1(1) 2(1) 3(1) 4(1) by auto
qed

lemma hex4_bound: "hex4 u h \<Longrightarrow> u < 0x10000"
  by (auto simp: hex4_def dest!: hex_digit_bound)

text \<open>The two encoders of UTF-8 in the program agree.\<close>

lemma and_low: "unat (x :: u32) < 2 ^ n \<Longrightarrow> m = mask n \<Longrightarrow> x AND m = x"
proof -
  assume "unat x < 2 ^ n" "m = mask n"
  then have "unat (take_bit n x) = unat x" by (simp add: unsigned_take_bit_eq take_bit_nat_eq_self)
  then show ?thesis using \<open>m = mask n\<close> by (simp only: take_bit_eq_mask unsigned_word_eqI)
qed

lemma unat_drop: "unat (drop_bit n (c :: u32)) = unat c div 2 ^ n"
  unfolding unat_drop_bit_eq drop_bit_nat_def by simp

lemma append_utf8: "c \<le> 0x10ffff \<Longrightarrow> json_buf_append_utf8 c = Some (utf8_of c)"
proof -
  assume c: "c \<le> 0x10ffff"
  have "unat c \<le> 0x10ffff" using c by (simp add: word_le_nat_alt)
  then have "unat (drop_bit 18 c) < 2 ^ 3" by (simp add: unat_drop)
  then have m3: "drop_bit 18 c AND 7 = drop_bit 18 c" by (rule and_low) (simp add: mask_eq_exp_minus_1)
  have m1: "drop_bit 6 c AND 0x1f = drop_bit 6 c" if "c \<le> 0x7ff"
  proof (rule and_low)
    show "unat (drop_bit 6 c) < 2 ^ 5" using that by (simp add: unat_drop word_le_nat_alt)
  qed (simp add: mask_eq_exp_minus_1)
  have m2: "drop_bit 12 c AND 0x0f = drop_bit 12 c" if "c \<le> 0xffff"
  proof (rule and_low)
    show "unat (drop_bit 12 c) < 2 ^ 4" using that by (simp add: unat_drop word_le_nat_alt)
  qed (simp add: mask_eq_exp_minus_1)
  show ?thesis using c by (auto simp: json_buf_append_utf8_def utf8_of_def m1 m2 m3)
qed

subsection \<open>Strings\<close>

lemma cp_bound: "n \<le> 0x10ffff \<Longrightarrow> of_nat n \<le> (0x10ffff :: u32)"
  by (simp add: word_le_nat_alt u32_of_nat)


lemma low_surrogate_complete:
  assumes "hex4 hi h1" "hex4 lo h2" "0xd800 \<le> hi" "hi < 0xdc00" "0xdc00 \<le> lo" "lo < 0xe000"
  shows "low_surrogate (of_nat hi) (92 # 117 # h2 @ r) = Some (of_nat (0x10000 + (hi - 0xd800) * 0x400 + (lo - 0xdc00)), r)"
proof -
  have l: "unat (of_nat lo :: u32) = lo" using assms(6) by (simp add: u32_of_nat)
  then have "\<not> of_nat lo < (0xdc00 :: u32)" "\<not> of_nat lo > (0xdfff :: u32)"
    using assms(5,6) by (simp_all add: word_less_nat_alt)
  moreover have "(of_nat hi - 0xd800 :: u32) = of_nat (hi - 0xd800)" "(of_nat lo - 0xdc00 :: u32) = of_nat (lo - 0xdc00)"
    using assms(3,5) by (simp_all add: of_nat_diff)
  moreover have "push_bit 10 (of_nat (hi - 0xd800)) OR of_nat (lo - 0xdc00)
      = (of_nat ((hi - 0xd800) * 2 ^ 10 + (lo - 0xdc00)) :: u32)"
    using assms(6) by (intro shift_nat) simp
  ultimately show ?thesis using hex4_complete [OF assms(2), of r] by (simp add: low_surrogate_def)
qed

lemma escape_complete: "jescape bs e \<Longrightarrow> json_parse_escape (e @ r) = Some (bs, r)"
proof (induction rule: jescape.induct)
  case (simple e b)
  then show ?case by (auto simp: simple_escapes_def json_parse_escape_def)
next
  case (unit u h)
  have u: "unat (of_nat u :: u32) = u" using hex4_bound [OF unit(1)] by (simp add: u32_of_nat)
  have "\<not> (0xd800 \<le> (of_nat u :: u32) \<and> of_nat u \<le> (0xdbff :: u32))" "\<not> (0xdc00 \<le> (of_nat u :: u32) \<and> of_nat u \<le> (0xdfff :: u32))"
    "of_nat u \<le> (0x10ffff :: u32)"
    using unit(2) hex4_bound [OF unit(1)] u by (auto simp: word_le_nat_alt)
  then show ?case using hex4_complete [OF unit(1), of r] append_utf8 [of "of_nat u"]
    by (auto simp: json_parse_escape_def)
next
  case (pair hi h1 lo h2)
  let ?c = "0x10000 + (hi - 0xd800) * 0x400 + (lo - 0xdc00)"
  have hi: "unat (of_nat hi :: u32) = hi" using pair(4) by (simp add: u32_of_nat)
  have "0xd800 \<le> (of_nat hi :: u32) \<and> of_nat hi \<le> (0xdbff :: u32)"
    using pair(3,4) hi by (auto simp: word_le_nat_alt)
  moreover have "of_nat ?c \<le> (0x10ffff :: u32)"
    by (rule cp_bound) (use pair in simp)
  ultimately show ?case
    using hex4_complete [OF pair(1), of "92 # 117 # h2 @ r"] low_surrogate_complete [OF pair, of r] append_utf8 [of "of_nat ?c"]
    by (simp add: json_parse_escape_def)
qed

lemma low_surrogate_sound:
  assumes "low_surrogate (of_nat hi) s = Some (cp, r)" "0xd800 \<le> hi" "hi < 0xdc00"
  shows "\<exists>lo h2. s = 92 # 117 # h2 @ r \<and> hex4 lo h2 \<and> 0xdc00 \<le> lo \<and> lo < 0xe000
    \<and> cp = of_nat (0x10000 + (hi - 0xd800) * 0x400 + (lo - 0xdc00))"
proof -
  obtain s' low where s: "s = 92 # 117 # s'" "json_parse_hex4 s' = Some (low, r)" "\<not> low < 0xdc00" "\<not> low > 0xdfff"
    using assms(1) by (auto simp: low_surrogate_def split: list.splits if_splits option.splits)
  obtain lo h2 where h: "s' = h2 @ r" "hex4 lo h2" "low = of_nat lo" using hex4_sound [OF s(2)] by blast
  have "unat (of_nat lo :: u32) = lo" using hex4_bound [OF h(2)] by (simp add: u32_of_nat)
  then have lo: "0xdc00 \<le> lo" "lo < 0xe000" using s(3,4) h(3) by (simp_all add: word_less_nat_alt)
  have "push_bit 10 (of_nat (hi - 0xd800)) OR of_nat (lo - 0xdc00)
      = (of_nat ((hi - 0xd800) * 2 ^ 10 + (lo - 0xdc00)) :: u32)"
    using lo by (intro shift_nat) simp
  moreover have "(of_nat hi - 0xd800 :: u32) = of_nat (hi - 0xd800)" "(of_nat lo - 0xdc00 :: u32) = of_nat (lo - 0xdc00)"
    using assms(2) lo(1) by (simp_all add: of_nat_diff)
  ultimately have "cp = of_nat (0x10000 + (hi - 0xd800) * 0x400 + (lo - 0xdc00))"
    using assms(1) s h(3) by (simp add: low_surrogate_def add.assoc)
  then show ?thesis using s(1) h(1,2) lo by blast
qed

lemma escape_sound: "json_parse_escape s = Some (bs, r) \<Longrightarrow> \<exists>e. s = e @ r \<and> jescape bs e"
proof -
  assume a: "json_parse_escape s = Some (bs, r)"
  then obtain ch t where s: "s = ch # t" by (auto simp: json_parse_escape_def split: list.splits)
  show ?thesis
  proof (cases "ch = 117")
    case False
    then have "(ch, hd bs) \<in> set simple_escapes \<and> bs = [hd bs] \<and> r = t"
      using a s by (auto simp: json_parse_escape_def simple_escapes_def split: if_splits)
    then show ?thesis using s jescape.simple [of ch "hd bs"] by (intro exI [of _ "[ch]"]) simp
  next
    case True
    then obtain code r1 where c: "json_parse_hex4 t = Some (code, r1)"
      using a s by (auto simp: json_parse_escape_def split: option.splits)
    then obtain u h where u: "t = h @ r1" "hex4 u h" "code = of_nat u" using hex4_sound by blast
    have nat: "unat (of_nat u :: u32) = u" using hex4_bound [OF u(2)] by (simp add: u32_of_nat)
    have hi: "0xd800 \<le> code \<and> code \<le> 0xdbff \<longleftrightarrow> 0xd800 \<le> u \<and> u < 0xdc00"
      and lo: "0xdc00 \<le> code \<and> code \<le> 0xdfff \<longleftrightarrow> 0xdc00 \<le> u \<and> u < 0xe000"
      and m: "of_nat u \<le> (0x10ffff :: u32)"
      using nat u(3) hex4_bound [OF u(2)] by (auto simp: word_le_nat_alt)
    show ?thesis
    proof (cases "0xd800 \<le> u \<and> u < 0xdc00")
      case False
      then have nl: "\<not> (0xdc00 \<le> u \<and> u < 0xe000)" "r = r1" "bs = utf8_of (of_nat u)"
        using a s True c hi lo u(3) append_utf8 [OF m]
        by (auto simp: json_parse_escape_def split: if_splits option.splits)
      then have "jescape bs (117 # h)" using False jescape.unit [OF u(2)] by auto
      then show ?thesis using s True u(1) nl(2) by (intro exI [of _ "117 # h"]) simp
    next
      case True
      then obtain cp where cp: "low_surrogate (of_nat u) r1 = Some (cp, r)" "json_buf_append_utf8 cp = Some bs"
        using a s \<open>ch = 117\<close> c hi u(3) by (auto simp: json_parse_escape_def split: option.splits)
      obtain l h2 where l: "r1 = 92 # 117 # h2 @ r" "hex4 l h2" "0xdc00 \<le> l" "l < 0xe000"
        "cp = of_nat (0x10000 + (u - 0xd800) * 0x400 + (l - 0xdc00))"
        using low_surrogate_sound [OF cp(1)] True by blast
      have "cp \<le> 0x10ffff" unfolding l(5) by (rule cp_bound) (use l(3,4) True in auto)
      then have bs: "bs = utf8_of cp" using append_utf8 cp(2) by simp
      have "jescape bs (117 # h @ 92 # 117 # h2)"
        unfolding bs l(5) using True l(2-4) u(2) by (intro jescape.pair) auto
      then show ?thesis using s \<open>ch = 117\<close> u(1) l(1) by (intro exI [of _ "117 # h @ 92 # 117 # h2"]) simp
    qed
  qed
qed

lemma string_body_complete: "jchars str t \<Longrightarrow> string_body (t @ 34 # r) = Some (str, r)"
proof (induction rule: jchars.induct)
  case none
  then show ?case by (subst string_body.simps) simp
next
  case (plain str t c)
  then show ?case by (subst string_body.simps) (simp add: not_less)
next
  case (escape bs e str t)
  then show ?case using escape_complete [OF escape(1), of "t @ 34 # r"] by (subst string_body.simps) simp
qed

lemma string_body_sound: "string_body s = Some (str, r) \<Longrightarrow> \<exists>t. s = t @ 34 # r \<and> jchars str t"
proof (induction s arbitrary: str r rule: string_body.induct)
  case (1 s)
  obtain ch u where s: "s = ch # u" using "1.prems" by (cases s) (auto simp: string_body.simps)
  consider (quote) "ch = 34" | (escape) bs r' y where "ch = 92" "json_parse_escape u = Some (bs, r')" "string_body r' = Some (y, r)"
      "str = bs @ y"
    | (plain) y where "ch \<noteq> 34" "ch \<noteq> 92" "\<not> ch < 0x20" "string_body u = Some (y, r)" "str = ch # y"
    using "1.prems" s by (subst (asm) string_body.simps) (auto split: if_splits option.splits)
  then show ?case
  proof cases
    case quote
    then show ?thesis using "1.prems" s jchars.none by (simp add: string_body.simps)
  next
    case escape
    obtain e where e: "u = e @ r'" "jescape bs e" using escape_sound [OF escape(2)] by blast
    obtain t where "r' = t @ 34 # r" "jchars y t" using "1.IH"(1) [OF s _ escape(1,2) refl escape(3)] escape(1) by auto
    then show ?thesis using s escape e jchars.escape [OF e(2), of y t] by (intro exI [of _ "92 # e @ t"]) simp
  next
    case plain
    obtain t where "u = t @ 34 # r" "jchars y t" using "1.IH"(2) [OF s plain(1-4)] by blast
    then show ?thesis using s plain jchars.plain [of y t ch] by (intro exI [of _ "ch # t"]) (simp add: not_less)
  qed
qed

subsection \<open>Numbers\<close>

text \<open>What may follow a value inside a document.\<close>

definition follow :: "u8 list \<Rightarrow> bool" where
  "follow r \<longleftrightarrow> (case r of [] \<Rightarrow> True | c # _ \<Rightarrow> jspace c \<or> c = 44 \<or> c = 93 \<or> c = 125)"

lemma follow_simps [simp]: "follow []" "follow (44 # r)" "follow (93 # r)" "follow (125 # r)"
  by (simp_all add: follow_def)

lemma follow_ws: "jws w \<Longrightarrow> follow r \<Longrightarrow> follow (w @ r)"
  by (cases w) (auto simp: follow_def jws_def)

text \<open>A text that starts with no byte of \<open>P\<close>.\<close>

definition stops :: "(u8 \<Rightarrow> bool) \<Rightarrow> u8 list \<Rightarrow> bool" where
  "stops P r \<longleftrightarrow> (case r of [] \<Rightarrow> True | c # _ \<Rightarrow> \<not> P c)"

lemma stops_simps [simp]: "stops P []" "stops P (c # r) \<longleftrightarrow> \<not> P c"
  by (simp_all add: stops_def)

lemma take_run: "list_all P ds \<Longrightarrow> stops P r \<Longrightarrow> takeWhile P (ds @ r) = ds \<and> dropWhile P (ds @ r) = r"
  by (induction ds) (auto simp: stops_def split: list.splits)

lemma run_split: "\<exists>ds. s = ds @ dropWhile P s \<and> takeWhile P s = ds \<and> list_all P ds \<and> stops P (dropWhile P s)"
  by (intro exI [of _ "takeWhile P s"])
    (auto simp: stops_def list_all_iff dropWhile_eq_Cons_conv dest: set_takeWhileD split: list.splits)

lemma jdigit_special [simp]: "jdigit 48" "\<not> jdigit 46" "\<not> jdigit 101" "\<not> jdigit 69" "\<not> jdigit 43" "\<not> jdigit 45"
  by (simp_all add: jdigit_def)

lemma follow_stops: "follow r \<Longrightarrow> stops jdigit r" "follow r \<Longrightarrow> stops (\<lambda>c. c = 46) r" "follow r \<Longrightarrow> stops (\<lambda>c. c = 101 \<or> c = 69) r"
  by (auto simp: follow_def stops_def jspace_def jdigit_def word_le_nat_alt split: list.splits)

lemma digit_run_iff:
  "digit_run s = Some (ds, r) \<longleftrightarrow> s = ds @ r \<and> ds \<noteq> [] \<and> list_all jdigit ds \<and> stops jdigit r"
  using run_split [of s jdigit] take_run [of jdigit ds r] by (auto simp: digit_run_def)

lemma exp_complete: "jexp eneg es t \<Longrightarrow> follow r \<Longrightarrow> exp_part (t @ r) = Some ((eneg, es), r)"
proof -
  assume a: "jexp eneg es t" "follow r"
  show ?thesis
  proof (cases "t = []")
    case True
    then have "\<not> eneg" "es = []" using a(1) by (auto simp: jexp_def)
    then show ?thesis using True follow_stops(3) [OF a(2)]
      by (cases r) (auto simp: exp_part_def)
  next
    case False
    then obtain e sg where e: "e = 101 \<or> e = 69" "if eneg then sg = [45] else sg = [] \<or> sg = [43]" "t = e # sg @ es"
        and es: "es \<noteq> []" "list_all jdigit es"
      using a(1) by (auto simp: jexp_def)
    obtain d ds where d: "es = d # ds" "jdigit d" using es by (cases es) auto
    have "d \<noteq> 43" "d \<noteq> 45" using d(2) by auto
    then have "exp_sign (sg @ es @ r) = (eneg, es @ r)"
      using e(2) d(1) by (auto simp: exp_sign_def split: if_splits)
    moreover have "digit_run (es @ r) = Some (es, r)" using es follow_stops(1) [OF a(2)] by (simp add: digit_run_iff)
    ultimately show ?thesis using e(1,3) by (auto simp: exp_part_def)
  qed
qed

lemma exp_sound: "exp_part s = Some ((eneg, es), r) \<Longrightarrow> \<exists>t. s = t @ r \<and> jexp eneg es t"
proof (cases s)
  case (Cons e u)
  assume a: "exp_part s = Some ((eneg, es), r)"
  show ?thesis
  proof (cases "e = 101 \<or> e = 69")
    case True
    obtain n u1 where u1: "exp_sign u = (n, u1)" by fastforce
    then have "eneg = n" "digit_run u1 = Some (es, r)" using a Cons True by (auto simp: exp_part_def)
    then have d: "u1 = es @ r" "es \<noteq> []" "list_all jdigit es" by (simp_all add: digit_run_iff)
    obtain sg where sg: "u = sg @ u1" "if eneg then sg = [45] else sg = [] \<or> sg = [43]"
      using u1 \<open>eneg = n\<close> by (auto simp: exp_sign_def split: list.splits if_splits)
    have "jexp eneg es (e # sg @ es)" using True d(2,3) sg(2) unfolding jexp_def by blast
    then show ?thesis using Cons sg(1) d(1) by (intro exI [of _ "e # sg @ es"]) simp
  next
    case False
    then show ?thesis using a Cons by (auto simp: exp_part_def jexp_def)
  qed
qed (auto simp: exp_part_def jexp_def)

lemma frac_complete: "jfrac fs t \<Longrightarrow> stops (\<lambda>c. c = 46) r \<Longrightarrow> stops jdigit r \<Longrightarrow> frac_part (t @ r) = Some (fs, r)"
  by (cases r) (auto simp: jfrac_def frac_part_def digit_run_iff)

lemma frac_sound: "frac_part s = Some (fs, r) \<Longrightarrow> \<exists>t. s = t @ r \<and> jfrac fs t"
  by (auto simp: jfrac_def frac_part_def digit_run_iff split: list.splits if_splits)

lemma int_complete: "jint ds \<Longrightarrow> stops jdigit r \<Longrightarrow> int_part (ds @ r) = Some (ds, r)"
proof -
  assume a: "jint ds" "stops jdigit r"
  show ?thesis
  proof (cases "ds = [48]")
    case True
    then show ?thesis using a(2) by (cases r) (auto simp: int_part_def)
  next
    case False
    then obtain d t where d: "ds = d # t" "d \<noteq> 48" "jdigit d" "list_all jdigit ds" using a(1) by (cases ds) (auto simp: jint_def)
    then show ?thesis using take_run [OF d(4) a(2)] by (auto simp: int_part_def)
  qed
qed

lemma int_sound: "int_part s = Some (ds, r) \<Longrightarrow> s = ds @ r \<and> jint ds \<and> stops jdigit r"
  using run_split [of s jdigit] by (auto simp: int_part_def jint_def split: list.splits if_splits)

lemma exp_stops: "jexp eneg es e \<Longrightarrow> follow r \<Longrightarrow> stops jdigit (e @ r) \<and> stops (\<lambda>c. c = 46) (e @ r)"
  using follow_stops [of r] by (auto simp: jexp_def)

lemma frac_stops: "jfrac fs f \<Longrightarrow> stops jdigit r \<Longrightarrow> stops jdigit (f @ r)"
  by (auto simp: jfrac_def)

lemma jint_first: "jint ds \<Longrightarrow> \<exists>d ds'. ds = d # ds' \<and> jdigit d"
  by (cases ds) (auto simp: jint_def)

lemma number_complete: "jnumber q t \<Longrightarrow> follow r \<Longrightarrow> number_token (t @ r) = Some (q, r)"
proof -
  assume a: "jnumber q t" "follow r"
  obtain neg ds fs f eneg es e where t: "jint ds" "jfrac fs f" "jexp eneg es e"
    "t = (if neg then [45] else []) @ ds @ f @ e" "q = numeral_val neg ds fs eneg es"
    using a(1) by (auto simp: jnumber_def)
  obtain d ds' where d: "ds = d # ds'" "jdigit d" using jint_first [OF t(1)] by blast
  have "d \<noteq> 45" using d(2) by auto
  then have "(case t @ r of c # r' \<Rightarrow> if c = 45 then (True, r') else (False, t @ r) | [] \<Rightarrow> (False, t @ r))
      = (neg, ds @ f @ e @ r)"
    using t(4) d(1) by simp
  moreover have "int_part (ds @ f @ e @ r) = Some (ds, f @ e @ r)"
    using int_complete [OF t(1)] frac_stops [OF t(2)] exp_stops [OF t(3) a(2)] by blast
  moreover have "frac_part (f @ e @ r) = Some (fs, e @ r)"
    using frac_complete [OF t(2)] exp_stops [OF t(3) a(2)] by blast
  moreover have "exp_part (e @ r) = Some ((eneg, es), r)" by (rule exp_complete [OF t(3) a(2)])
  ultimately show ?thesis by (simp add: number_token_def t(5))
qed

lemma number_sound: "number_token s = Some (q, r) \<Longrightarrow> \<exists>t. s = t @ r \<and> jnumber q t"
proof -
  assume a: "number_token s = Some (q, r)"
  obtain neg s0 where s0: "(case s of c # r' \<Rightarrow> if c = 45 then (True, r') else (False, s) | [] \<Rightarrow> (False, s)) = (neg, s0)"
    by fastforce
  then have s: "s = (if neg then [45] else []) @ s0" by (auto split: list.splits if_splits)
  obtain ds s1 where i: "int_part s0 = Some (ds, s1)" using a s0 by (auto simp: number_token_def split: option.splits)
  obtain fs s2 where f: "frac_part s1 = Some (fs, s2)" using a s0 i by (auto simp: number_token_def split: option.splits)
  obtain eneg es where e: "exp_part s2 = Some ((eneg, es), r)" "q = numeral_val neg ds fs eneg es"
    using a s0 i f by (auto simp: number_token_def split: option.splits)
  obtain f' where f': "s1 = f' @ s2" "jfrac fs f'" using frac_sound [OF f] by blast
  obtain e' where e': "s2 = e' @ r" "jexp eneg es e'" using exp_sound [OF e(1)] by blast
  have "jnumber q ((if neg then [45] else []) @ ds @ f' @ e')"
    unfolding jnumber_def using int_sound [OF i] f'(2) e'(2) e(2) by blast
  then show ?thesis using s int_sound [OF i] f'(1) e'(1)
    by (intro exI [of _ "(if neg then [45] else []) @ ds @ f' @ e'"]) simp
qed

lemma jnumber_first: "jnumber q t \<Longrightarrow> \<exists>c t'. t = c # t' \<and> (c = 45 \<or> jdigit c)"
proof -
  assume "jnumber q t"
  then obtain neg ds u where t: "jint ds" "t = (if neg then [45] else []) @ ds @ u" unfolding jnumber_def by blast
  then show ?thesis using jint_first [OF t(1)] by (cases neg) auto
qed

subsection \<open>Values without nesting\<close>

lemma rest_of_word_iff: "rest_of_word ms s = Some t \<longleftrightarrow> s = ms @ t"
  by (induction ms s rule: rest_of_word.induct) auto

definition value_first :: "u8 \<Rightarrow> bool" where
  "value_first c \<longleftrightarrow> c \<in> {34, 45, 91, 102, 110, 116, 123} \<or> jdigit c"

lemma value_first_space: "value_first c \<Longrightarrow> \<not> jspace c"
  by (auto simp: value_first_def jspace_def jdigit_def word_le_nat_alt)

lemma jvalue_first:
  "jvalue d v t \<Longrightarrow> \<exists>c t'. t = c # t' \<and> value_first c"
  by (erule jvalue.cases) (auto simp: value_first_def bytes_of_def dest!: jnumber_first)

lemma jdigit_range: "jdigit c \<Longrightarrow> c \<noteq> 34 \<and> c \<noteq> 91 \<and> c \<noteq> 102 \<and> c \<noteq> 110 \<and> c \<noteq> 116 \<and> c \<noteq> 123 \<and> c \<noteq> 44 \<and> c \<noteq> 93 \<and> c \<noteq> 125"
  by (auto simp: jdigit_def)

lemma scalar_number:
  assumes "jnumber q t" "to_double q = Some v" "follow r"
  shows "json_parse_scalar (t @ r) = Parsed (JSON_NUMBER v) r"
proof -
  obtain c t' where c: "t = c # t'" "c = 45 \<or> jdigit c" using jnumber_first [OF assms(1)] by blast
  then have "c \<noteq> 34" using jdigit_range [of c] by auto
  moreover have "json_parse_number (t @ r) = Parsed v r"
    using c number_complete [OF assms(1,3)] assms(2) by (auto simp: json_parse_number_def)
  ultimately show ?thesis using c(1) by (simp add: json_parse_scalar_def or_else_def map_parse_def json_parse_string_def)
qed

lemma scalar_string: "jchars str t \<Longrightarrow> json_parse_scalar (34 # t @ 34 # r) = Parsed (JSON_STRING str) r"
  by (simp add: json_parse_scalar_def or_else_def map_parse_def json_parse_string_def string_body_complete)

lemma scalar_keyword:
  "json_parse_scalar (bytes_of ''true'' @ r) = Parsed JSON_TRUE r"
  "json_parse_scalar (bytes_of ''false'' @ r) = Parsed JSON_FALSE r"
  "json_parse_scalar (bytes_of ''null'' @ r) = Parsed JSON_NULL r"
  using rest_of_word_iff [of "bytes_of ''rue''" "bytes_of ''rue'' @ r" r]
    rest_of_word_iff [of "bytes_of ''alse''" "bytes_of ''alse'' @ r" r] rest_of_word_iff [of "bytes_of ''ull''" "bytes_of ''ull'' @ r" r]
  by (simp_all add: json_parse_scalar_def or_else_def map_parse_def json_parse_string_def json_parse_number_def
      json_parse_keyword_def jdigit_def bytes_of_def Let_def)

lemma scalar_sound: "json_parse_scalar s = Parsed v r \<Longrightarrow> \<exists>t. s = t @ r \<and> jvalue d v t"
proof -
  assume a: "json_parse_scalar s = Parsed v r"
  then consider (str) w where "json_parse_string s = Parsed w r" "v = JSON_STRING w"
    | (num) q where "json_parse_number s = Parsed q r" "v = JSON_NUMBER q"
    | (kw) "json_parse_keyword s = Parsed v r"
    by (auto simp: json_parse_scalar_def or_else_def map_parse_def split: jparse.splits)
  then show ?thesis
  proof cases
    case str
    then obtain u where u: "s = 34 # u" "string_body u = Some (w, r)"
      by (auto simp: json_parse_string_def split: list.splits if_splits option.splits)
    then obtain t where "u = t @ 34 # r" "jchars w t" using string_body_sound by blast
    then show ?thesis using u(1) str(2) jvalue_jelements_jmembers.str [of w t d]
      by (intro exI [of _ "34 # t @ [34]"]) simp
  next
    case num
    then obtain p where p: "number_token s = Some (p, r)" "to_double p = Some q"
      by (auto simp: json_parse_number_def split: list.splits if_splits option.splits)
    obtain t where "s = t @ r" "jnumber p t" using number_sound [OF p(1)] by blast
    then show ?thesis using p(2) num(2) jvalue_jelements_jmembers.num [of p t q d] by blast
  next
    case kw
    then have "s = bytes_of ''true'' @ r \<and> v = JSON_TRUE \<or> s = bytes_of ''false'' @ r \<and> v = JSON_FALSE
      \<or> s = bytes_of ''null'' @ r \<and> v = JSON_NULL"
      by (auto simp: json_parse_keyword_def Let_def rest_of_word_iff bytes_of_def split: list.splits if_splits option.splits)
    then show ?thesis using jvalue_jelements_jmembers.tru jvalue_jelements_jmembers.fals jvalue_jelements_jmembers.nul by metis
  qed
qed

subsection \<open>The descent\<close>

lemma skip_ws: "jws w \<Longrightarrow> json_skip_whitespace (w @ s) = json_skip_whitespace s"
  by (induction w) (simp_all add: jws_def json_skip_whitespace_def)

lemma skip_stop: "\<not> jspace c \<Longrightarrow> json_skip_whitespace (c # s) = c # s"
  by (simp add: json_skip_whitespace_def)

lemma skip_split: "\<exists>w. s = w @ json_skip_whitespace s \<and> jws w"
  by (intro exI [of _ "takeWhile jspace s"])
    (auto simp: json_skip_whitespace_def jws_def list_all_iff dest: set_takeWhileD)

lemma not_space [simp]: "\<not> jspace 34" "\<not> jspace 44" "\<not> jspace 58" "\<not> jspace 91" "\<not> jspace 93" "\<not> jspace 123" "\<not> jspace 125"
  by (simp_all add: jspace_def)

lemma property_key_complete:
  "jchars k kt \<Longrightarrow> jws w0 \<Longrightarrow> jws w1 \<Longrightarrow> property_key (w0 @ 34 # kt @ 34 # w1 @ 58 # s) = Some (k, s)"
  by (simp add: property_key_def skip_ws skip_stop json_parse_string_def string_body_complete)

lemma property_key_sound:
  assumes "property_key s = Some (k, r)"
  shows "\<exists>w0 kt w1. s = w0 @ 34 # kt @ 34 # w1 @ 58 # r \<and> jchars k kt \<and> jws w0 \<and> jws w1"
proof -
  obtain u where u: "json_parse_string (json_skip_whitespace s) = Parsed k u" "json_skip_whitespace u = 58 # r"
    using assms by (auto simp: property_key_def split: jparse.splits list.splits if_splits)
  obtain b where b: "json_skip_whitespace s = 34 # b" "string_body b = Some (k, u)"
    using u(1) by (auto simp: json_parse_string_def split: list.splits if_splits option.splits)
  obtain kt where kt: "b = kt @ 34 # u" "jchars k kt" using string_body_sound [OF b(2)] by blast
  obtain w0 where "s = w0 @ 34 # b" "jws w0" using skip_split [of s] b(1) by auto
  moreover obtain w1 where "u = w1 @ 58 # r" "jws w1" using skip_split [of u] u(2) by auto
  ultimately show ?thesis using kt by auto
qed

lemma descent_absent:
  "c \<noteq> 123 \<Longrightarrow> json_parse_object d (c # s) = Absent"
  "c \<noteq> 91 \<Longrightarrow> json_parse_array d (c # s) = Absent"
  by (simp_all add: json_parse_object.simps json_parse_array.simps)

text \<open>A value is recognised by its alternative, and its white space goes with it.\<close>

definition recognised :: "nat \<Rightarrow> json_value \<Rightarrow> u8 list \<Rightarrow> bool" where
  "recognised d v t \<longleftrightarrow> (\<forall>w r. jws w \<longrightarrow> follow r \<longrightarrow> json_parse_value d (w @ t @ r) = Parsed v (json_skip_whitespace r))"

lemma recognised_scalar:
  assumes "\<And>r. follow r \<Longrightarrow> json_parse_scalar (t @ r) = Parsed v r" "t = c # t'" "\<not> jspace c" "c \<noteq> 123" "c \<noteq> 91"
  shows "recognised d v t"
  using assms by (auto simp: recognised_def json_parse_value.simps skip_ws skip_stop descent_absent or_else_def value_end_def Let_def)

lemma recognised_array:
  assumes "\<And>r. json_parse_array d (t @ r) = Parsed v r" "t = 91 # t'"
  shows "recognised d v t"
  using assms by (simp add: recognised_def json_parse_value.simps skip_ws skip_stop descent_absent or_else_def value_end_def Let_def)

lemma recognised_object:
  assumes "\<And>r. json_parse_object d (t @ r) = Parsed v r" "t = 123 # t'"
  shows "recognised d v t"
  using assms by (simp add: recognised_def json_parse_value.simps skip_ws skip_stop or_else_def value_end_def Let_def)

lemma loop_skip:
  "array_loop d (json_skip_whitespace s) = array_loop d s"
  "object_loop d (json_skip_whitespace s) = object_loop d s"
proof -
  have i: "json_skip_whitespace (json_skip_whitespace s) = json_skip_whitespace s"
    unfolding json_skip_whitespace_def by (rule dropWhile_idem)
  have "json_parse_value d (json_skip_whitespace s) = json_parse_value d s"
    by (simp add: json_parse_value.simps i)
  then show "array_loop d (json_skip_whitespace s) = array_loop d s"
    by (subst (1 2) array_loop.simps) simp
  have "property_key (json_skip_whitespace s) = property_key s" by (simp add: property_key_def i)
  then have "json_parse_property d (json_skip_whitespace s) = json_parse_property d s"
    by (simp add: json_parse_property.simps)
  then show "object_loop d (json_skip_whitespace s) = object_loop d s"
    by (subst (1 2) object_loop.simps) simp
qed

text \<open>Behind the opening bracket: the empty form, or the loop.\<close>

lemma array_open:
  assumes "d < JSON_MAX_DEPTH"
  shows "jws w \<Longrightarrow> json_parse_array d (91 # w @ 93 # r) = Parsed (JSON_ARRAY []) r"
    and "array_loop (Suc d) s = Parsed vs r \<Longrightarrow> json_skip_whitespace s = c # s' \<Longrightarrow> c \<noteq> 93
      \<Longrightarrow> json_parse_array d (91 # s) = Parsed (JSON_ARRAY vs) r"
  using assms loop_skip(1) [of "Suc d" s]
  by (simp_all add: json_parse_array.simps skip_ws skip_stop map_parse_def JSON_MAX_DEPTH_def)

lemma object_open:
  assumes "d < JSON_MAX_DEPTH"
  shows "jws w \<Longrightarrow> json_parse_object d (123 # w @ 125 # r) = Parsed (JSON_OBJECT []) r"
    and "object_loop (Suc d) s = Parsed kvs r \<Longrightarrow> json_skip_whitespace s = c # s' \<Longrightarrow> c \<noteq> 125
      \<Longrightarrow> json_parse_object d (123 # s) = Parsed (JSON_OBJECT kvs) r"
  using assms loop_skip(2) [of "Suc d" s]
  by (simp_all add: json_parse_object.simps skip_ws skip_stop map_parse_def JSON_MAX_DEPTH_def)

lemma jelements_first: "jelements d vs t \<Longrightarrow> \<exists>w c t'. t = w @ c # t' \<and> jws w \<and> value_first c"
  by (erule jelements.cases) (fastforce dest!: jvalue_first)+

lemma jmembers_first: "jmembers d kvs t \<Longrightarrow> \<exists>w t'. t = w @ 34 # t' \<and> jws w"
  by (erule jmembers.cases) fastforce+

lemma array_loop_step:
  assumes "recognised d v t" "jws w1" "jws w2"
  shows "array_loop d (w1 @ t @ w2 @ 93 # r) = Parsed [v] r"
    and "array_loop d (w1 @ t @ w2 @ 44 # s) = map_parse (\<lambda>vs. v # vs) (array_loop d s)"
proof -
  have "follow (w2 @ 93 # r)" "follow (w2 @ 44 # s)" using assms(3) by (simp_all add: follow_ws)
  then have "json_parse_value d (w1 @ t @ w2 @ 93 # r) = Parsed v (93 # r)"
    "json_parse_value d (w1 @ t @ w2 @ 44 # s) = Parsed v (44 # s)"
    using assms by (simp_all add: recognised_def skip_ws skip_stop)
  then show "array_loop d (w1 @ t @ w2 @ 93 # r) = Parsed [v] r"
    "array_loop d (w1 @ t @ w2 @ 44 # s) = map_parse (\<lambda>vs. v # vs) (array_loop d s)"
    by (simp_all add: array_loop.simps [of d "w1 @ t @ w2 @ 93 # r"] array_loop.simps [of d "w1 @ t @ w2 @ 44 # s"])
qed

lemma object_loop_step:
  assumes "jchars k kt" "recognised d v t" "jws w0" "jws w1" "jws w2" "jws w3"
  shows "object_loop d (w0 @ 34 # kt @ 34 # w1 @ 58 # w2 @ t @ w3 @ 125 # r) = Parsed [(k, v)] r"
    and "object_loop d (w0 @ 34 # kt @ 34 # w1 @ 58 # w2 @ t @ w3 @ 44 # s) = map_parse (\<lambda>kvs. (k, v) # kvs) (object_loop d s)"
proof -
  have "follow (w3 @ 125 # r)" "follow (w3 @ 44 # s)" using assms(6) by (simp_all add: follow_ws)
  then have "json_parse_value d (w2 @ t @ w3 @ 125 # r) = Parsed v (125 # r)"
    "json_parse_value d (w2 @ t @ w3 @ 44 # s) = Parsed v (44 # s)"
    using assms by (simp_all add: recognised_def skip_ws skip_stop)
  then show "object_loop d (w0 @ 34 # kt @ 34 # w1 @ 58 # w2 @ t @ w3 @ 125 # r) = Parsed [(k, v)] r"
    "object_loop d (w0 @ 34 # kt @ 34 # w1 @ 58 # w2 @ t @ w3 @ 44 # s) = map_parse (\<lambda>kvs. (k, v) # kvs) (object_loop d s)"
    using property_key_complete [OF assms(1,3,4)]
    by (simp_all add: object_loop.simps [of d "w0 @ 34 # kt @ 34 # w1 @ 58 # w2 @ t @ w3 @ 125 # r"]
        object_loop.simps [of d "w0 @ 34 # kt @ 34 # w1 @ 58 # w2 @ t @ w3 @ 44 # s"] json_parse_property.simps)
qed

lemma grammar_complete:
  "jvalue d v t \<Longrightarrow> recognised d v t"
  "jelements d vs t \<Longrightarrow> \<forall>r. array_loop d (t @ 93 # r) = Parsed vs r"
  "jmembers d kvs t \<Longrightarrow> \<forall>r. object_loop d (t @ 125 # r) = Parsed kvs r"
proof (induction rule: jvalue_jelements_jmembers.inducts)
  case (str str t d)
  then show ?case by (intro recognised_scalar [of _ _ 34 "t @ [34]"]) (auto simp: scalar_string)
next
  case (num q t v d)
  obtain c t' where c: "t = c # t'" "c = 45 \<or> jdigit c" using jnumber_first [OF num(1)] by blast
  have "value_first c" using c(2) by (auto simp: value_first_def)
  moreover have "c \<noteq> 123" "c \<noteq> 91" using c(2) jdigit_range [of c] by auto
  ultimately show ?case using scalar_number [OF num] value_first_space
    by (intro recognised_scalar [of _ _ c t']) (auto simp: c(1))
next
  case (tru d)
  show ?case by (rule recognised_scalar [of _ _ 116 "bytes_of ''rue''"]) (simp_all add: scalar_keyword, simp_all add: bytes_of_def jspace_def)
next
  case (fals d)
  show ?case by (rule recognised_scalar [of _ _ 102 "bytes_of ''alse''"]) (simp_all add: scalar_keyword, simp_all add: bytes_of_def jspace_def)
next
  case (nul d)
  show ?case by (rule recognised_scalar [of _ _ 110 "bytes_of ''ull''"]) (simp_all add: scalar_keyword, simp_all add: bytes_of_def jspace_def)
next
  case (arr0 w d)
  then show ?case by (intro recognised_array [of _ _ _ "w @ [93]"]) (simp_all add: array_open)
next
  case (arr d vs t)
  obtain w c t' where c: "t = w @ c # t'" "jws w" "value_first c" using jelements_first [OF arr(1)] by blast
  have "c \<noteq> 93" using c(3) by (auto simp: value_first_def jdigit_def)
  moreover have "json_skip_whitespace (t @ 93 # r) = c # t' @ 93 # r" for r
    using c value_first_space by (simp add: skip_ws skip_stop)
  ultimately have "json_parse_array d ((91 # t @ [93]) @ r) = Parsed (JSON_ARRAY vs) r" for r
    using array_open(2) [OF arr(2), of "t @ 93 # r" vs r c] arr.IH by simp
  then show ?case by (rule recognised_array) simp
next
  case (obj0 w d)
  then show ?case by (intro recognised_object [of _ _ _ "w @ [125]"]) (simp_all add: object_open)
next
  case (obj d kvs t)
  obtain w t' where c: "t = w @ 34 # t'" "jws w" using jmembers_first [OF obj(1)] by blast
  have "json_skip_whitespace (t @ 125 # r) = 34 # t' @ 125 # r" for r
    using c by (simp add: skip_ws skip_stop)
  then have "json_parse_object d ((123 # t @ [125]) @ r) = Parsed (JSON_OBJECT kvs) r" for r
    using object_open(2) [OF obj(2), of "t @ 125 # r" kvs r 34] obj.IH by simp
  then show ?case by (rule recognised_object) simp
next
  case (elem1 d v t w1 w2)
  then show ?case using array_loop_step(1) [of d v t w1 w2] by simp
next
  case (elems d v t w1 w2 vs ts)
  then show ?case using array_loop_step(2) [of d v t w1 w2] by simp
next
  case (mem1 k kt d v t w0 w1 w2 w3)
  then show ?case using object_loop_step(1) [of k kt d v t w0 w1 w2 w3] by simp
next
  case (mems k kt d v t w0 w1 w2 w3 kvs ts)
  then show ?case using object_loop_step(2) [of k kt d v t w0 w1 w2 w3] by simp
qed

text \<open>What is parsed is a text of the grammar.\<close>

lemma jws_append [simp]: "jws (a @ b) \<longleftrightarrow> jws a \<and> jws b"
  by (simp add: jws_def)

lemma jelements_ws: "jws w \<Longrightarrow> jelements d vs t \<Longrightarrow> jelements d vs (w @ t)"
  using jvalue_jelements_jmembers.elem1 [of d _ _ "w @ _"] jvalue_jelements_jmembers.elems [of d _ _ "w @ _"]
  by (erule_tac jelements.cases) auto

lemma jmembers_ws: "jws w \<Longrightarrow> jmembers d kvs t \<Longrightarrow> jmembers d kvs (w @ t)"
  using jvalue_jelements_jmembers.mem1 [of _ _ d _ _ "w @ _"] jvalue_jelements_jmembers.mems [of _ _ d _ _ "w @ _"]
  by (erule_tac jmembers.cases) auto

lemma array_sound_step:
  assumes "json_parse_array d s = Parsed v r"
    and ih: "\<And>u vs. s = 91 # u \<Longrightarrow> d < JSON_MAX_DEPTH \<Longrightarrow>
      \<not> (json_skip_whitespace u \<noteq> [] \<and> hd (json_skip_whitespace u) = 93) \<Longrightarrow>
      array_loop (d + 1) (json_skip_whitespace u) = Parsed vs r \<Longrightarrow>
      \<exists>t. json_skip_whitespace u = t @ 93 # r \<and> jelements (d + 1) vs t"
  shows "\<exists>t. s = t @ r \<and> jvalue d v t"
proof -
  obtain u where s: "s = 91 # u" and d: "d < JSON_MAX_DEPTH"
    using assms(1) by (auto simp: json_parse_array.simps split: list.splits if_splits)
  obtain w where w: "u = w @ json_skip_whitespace u" "jws w" using skip_split by blast
  show ?thesis
  proof (cases "json_skip_whitespace u \<noteq> [] \<and> hd (json_skip_whitespace u) = 93")
    case True
    then have "v = JSON_ARRAY []" "json_skip_whitespace u = 93 # r"
      using assms(1) s d by (auto simp: json_parse_array.simps Let_def) (metis list.collapse)
    then show ?thesis using s w d jvalue_jelements_jmembers.arr0 [OF w(2) d]
      by (intro exI [of _ "91 # w @ [93]"]) simp
  next
    case False
    then obtain vs where vs: "array_loop (d + 1) (json_skip_whitespace u) = Parsed vs r" "v = JSON_ARRAY vs"
      using assms(1) s d by (auto simp: json_parse_array.simps Let_def)
    obtain t where t: "json_skip_whitespace u = t @ 93 # r" "jelements (d + 1) vs t"
      using ih [OF s d False vs(1)] by blast
    have "jelements (Suc d) vs (w @ t)" using jelements_ws [OF w(2)] t(2) by simp
    from jvalue_jelements_jmembers.arr [OF this d] show ?thesis using s w(1) t(1) vs(2)
      by (intro exI [of _ "91 # (w @ t) @ [93]"]) simp
  qed
qed

lemma object_sound_step:
  assumes "json_parse_object d s = Parsed v r"
    and ih: "\<And>u kvs. s = 123 # u \<Longrightarrow> d < JSON_MAX_DEPTH \<Longrightarrow>
      \<not> (json_skip_whitespace u \<noteq> [] \<and> hd (json_skip_whitespace u) = 125) \<Longrightarrow>
      object_loop (d + 1) (json_skip_whitespace u) = Parsed kvs r \<Longrightarrow>
      \<exists>t. json_skip_whitespace u = t @ 125 # r \<and> jmembers (d + 1) kvs t"
  shows "\<exists>t. s = t @ r \<and> jvalue d v t"
proof -
  obtain u where s: "s = 123 # u" and d: "d < JSON_MAX_DEPTH"
    using assms(1) by (auto simp: json_parse_object.simps split: list.splits if_splits)
  obtain w where w: "u = w @ json_skip_whitespace u" "jws w" using skip_split by blast
  show ?thesis
  proof (cases "json_skip_whitespace u \<noteq> [] \<and> hd (json_skip_whitespace u) = 125")
    case True
    then have "v = JSON_OBJECT []" "json_skip_whitespace u = 125 # r"
      using assms(1) s d by (auto simp: json_parse_object.simps Let_def) (metis list.collapse)
    then show ?thesis using s w d jvalue_jelements_jmembers.obj0 [OF w(2) d]
      by (intro exI [of _ "123 # w @ [125]"]) simp
  next
    case False
    then obtain kvs where kvs: "object_loop (d + 1) (json_skip_whitespace u) = Parsed kvs r" "v = JSON_OBJECT kvs"
      using assms(1) s d by (auto simp: json_parse_object.simps Let_def)
    obtain t where t: "json_skip_whitespace u = t @ 125 # r" "jmembers (d + 1) kvs t"
      using ih [OF s d False kvs(1)] by blast
    have "jmembers (Suc d) kvs (w @ t)" using jmembers_ws [OF w(2)] t(2) by simp
    from jvalue_jelements_jmembers.obj [OF this d] show ?thesis using s w(1) t(1) kvs(2)
      by (intro exI [of _ "123 # (w @ t) @ [125]"]) simp
  qed
qed

definition value_text :: "nat \<Rightarrow> json_value \<Rightarrow> u8 list \<Rightarrow> u8 list \<Rightarrow> bool" where
  "value_text d v s r \<longleftrightarrow> (\<exists>w1 t w2. s = w1 @ t @ w2 @ r \<and> jws w1 \<and> jws w2 \<and> jvalue d v t)"

definition member_text :: "nat \<Rightarrow> u8 list \<times> json_value \<Rightarrow> u8 list \<Rightarrow> u8 list \<Rightarrow> bool" where
  "member_text d kv s r \<longleftrightarrow> (\<exists>w0 kt w1 u. s = w0 @ 34 # kt @ 34 # w1 @ 58 # u
     \<and> jchars (fst kv) kt \<and> jws w0 \<and> jws w1 \<and> value_text d (snd kv) u r)"

lemma value_end_text:
  assumes "json_parse_value d s = Parsed v r"
    and "\<And>u r'. json_parse_object d u = Parsed v r' \<Longrightarrow> u = json_skip_whitespace s \<Longrightarrow> \<exists>t. u = t @ r' \<and> jvalue d v t"
    and "\<And>u r'. json_parse_array d u = Parsed v r' \<Longrightarrow> u = json_skip_whitespace s \<Longrightarrow> \<exists>t. u = t @ r' \<and> jvalue d v t"
  shows "value_text d v s r"
proof -
  let ?u = "json_skip_whitespace s"
  obtain r' where r': "or_else (json_parse_object d ?u) (or_else (json_parse_array d ?u) (json_parse_scalar ?u)) = Parsed v r'"
      "r = json_skip_whitespace r'"
    using assms(1) by (auto simp: json_parse_value.simps value_end_def Let_def split: jparse.splits)
  then have "json_parse_object d ?u = Parsed v r' \<or> json_parse_array d ?u = Parsed v r' \<or> json_parse_scalar ?u = Parsed v r'"
    by (auto simp: or_else_def split: jparse.splits)
  then obtain t where t: "?u = t @ r'" "jvalue d v t" using assms(2,3) scalar_sound by blast
  obtain w1 where w1: "s = w1 @ ?u" "jws w1" using skip_split by blast
  obtain w2 where w2: "r' = w2 @ r" "jws w2" using skip_split [of r'] r'(2) by blast
  have "s = w1 @ t @ w2 @ r" using w1(1) w2(1) t(1) by simp
  then show ?thesis unfolding value_text_def using w1(2) w2(2) t(2) by blast
qed

lemma grammar_sound:
  "json_parse_value d s = Parsed v r \<Longrightarrow> value_text d v s r"
  "json_parse_array d s = Parsed v r \<Longrightarrow> \<exists>t. s = t @ r \<and> jvalue d v t"
  "array_loop d s = Parsed vs r \<Longrightarrow> \<exists>t. s = t @ 93 # r \<and> jelements d vs t"
  "json_parse_object d s = Parsed v r \<Longrightarrow> \<exists>t. s = t @ r \<and> jvalue d v t"
  "object_loop d s = Parsed kvs r \<Longrightarrow> \<exists>t. s = t @ 125 # r \<and> jmembers d kvs t"
  "json_parse_property d s = Parsed kv r \<Longrightarrow> member_text d kv s r"
proof (induction d s and d s and d s and d s and d s and d s arbitrary: v r and v r and vs r and v r and kvs r and kv r
    rule: json_parse_value_json_parse_array_array_loop_json_parse_object_object_loop_json_parse_property.induct)
  case (1 depth s)
  show ?case by (rule value_end_text [OF "1.prems"]) (simp_all add: "1.IH")
next
  case (2 depth s)
  show ?case
  proof (rule array_sound_step [OF "2.prems"])
    fix u vs
    assume a: "s = 91 # u" "depth < JSON_MAX_DEPTH" "\<not> (json_skip_whitespace u \<noteq> [] \<and> hd (json_skip_whitespace u) = 93)"
      "array_loop (depth + 1) (json_skip_whitespace u) = Parsed vs r"
    show "\<exists>t. json_skip_whitespace u = t @ 93 # r \<and> jelements (depth + 1) vs t"
      by (rule "2.IH" [OF a(1) _ _ refl a(3,4)]) (use a(2) in simp_all)
  qed
next
  case (3 depth s)
  obtain v r' where v: "json_parse_value depth s = Parsed v r'"
    using "3.prems" by (auto simp: array_loop.simps [of depth s] split: jparse.splits)
  obtain w1 t w2 where t: "s = w1 @ t @ w2 @ r'" "jws w1" "jws w2" "jvalue depth v t"
    using "3.IH"(1) [OF v] by (auto simp: value_text_def)
  consider (last) "r' = 93 # r" "vs = [v]" | (more) u vs' where "r' = 44 # u" "array_loop depth u = Parsed vs' r" "vs = v # vs'"
    using "3.prems" v by (auto simp: array_loop.simps [of depth s] split: list.splits if_splits)
  then show ?case
  proof cases
    case last
    then show ?thesis using t(1) jvalue_jelements_jmembers.elem1 [OF t(4,2,3)] by (intro exI [of _ "w1 @ t @ w2"]) simp
  next
    case more
    obtain ts where ts: "u = ts @ 93 # r" "jelements depth vs' ts" using "3.IH"(2) [OF v more(1) _ refl more(2)] by auto
    show ?thesis using t(1) more(1,3) ts(1) jvalue_jelements_jmembers.elems [OF t(4,2,3) ts(2)]
      by (intro exI [of _ "w1 @ t @ w2 @ 44 # ts"]) simp
  qed
next
  case (4 depth s)
  show ?case
  proof (rule object_sound_step [OF "4.prems"])
    fix u kvs
    assume a: "s = 123 # u" "depth < JSON_MAX_DEPTH" "\<not> (json_skip_whitespace u \<noteq> [] \<and> hd (json_skip_whitespace u) = 125)"
      "object_loop (depth + 1) (json_skip_whitespace u) = Parsed kvs r"
    show "\<exists>t. json_skip_whitespace u = t @ 125 # r \<and> jmembers (depth + 1) kvs t"
      by (rule "4.IH" [OF a(1) _ _ refl a(3,4)]) (use a(2) in simp_all)
  qed
next
  case (5 depth s)
  obtain kv r' where v: "json_parse_property depth s = Parsed kv r'"
    using "5.prems" by (auto simp: object_loop.simps [of depth s] split: jparse.splits)
  obtain w0 kt w1 w2 t w3 where t: "s = w0 @ 34 # kt @ 34 # w1 @ 58 # w2 @ t @ w3 @ r'" "jchars (fst kv) kt"
      "jvalue depth (snd kv) t" "jws w0" "jws w1" "jws w2" "jws w3"
    using "5.IH"(1) [OF v] by (auto simp: member_text_def value_text_def)
  consider (last) "r' = 125 # r" "kvs = [kv]" | (more) u kvs' where "r' = 44 # u" "object_loop depth u = Parsed kvs' r" "kvs = kv # kvs'"
    using "5.prems" v by (auto simp: object_loop.simps [of depth s] split: list.splits if_splits)
  then show ?case
  proof cases
    case last
    then show ?thesis using t(1) jvalue_jelements_jmembers.mem1 [OF t(2-7)]
      by (intro exI [of _ "w0 @ 34 # kt @ 34 # w1 @ 58 # w2 @ t @ w3"]) simp
  next
    case more
    obtain ts where ts: "u = ts @ 125 # r" "jmembers depth kvs' ts" using "5.IH"(2) [OF v more(1) _ refl more(2)] by auto
    show ?thesis using t(1) more(1,3) ts(1) jvalue_jelements_jmembers.mems [OF t(2-7) ts(2)]
      by (intro exI [of _ "w0 @ 34 # kt @ 34 # w1 @ 58 # w2 @ t @ w3 @ 44 # ts"]) simp
  qed
next
  case (6 depth s)
  obtain k u v where k: "property_key s = Some (k, u)" "json_parse_value depth u = Parsed v r" "kv = (k, v)"
    using "6.prems" by (auto simp: json_parse_property.simps split: option.splits jparse.splits)
  show ?case using property_key_sound [OF k(1)] "6.IH" [OF k(1) refl k(2)] k(3) by (auto simp: member_text_def)
qed

lemma json_accept:
  assumes "length s \<le> 2147483647" "s = w1 @ t @ w2" "jws w1" "jws w2" "jvalue 0 v t"
  shows "json_parse_buf s = Some v"
proof -
  have "follow w2" using assms(4) by (cases w2) (auto simp: follow_def jws_def)
  then have "json_parse_value 0 s = Parsed v (json_skip_whitespace w2)"
    using grammar_complete(1) [OF assms(5)] assms(2,3) by (simp add: recognised_def)
  moreover have "json_skip_whitespace w2 = []" using skip_ws [OF assms(4), of "[]"] by (simp add: json_skip_whitespace_def)
  ultimately show ?thesis
    using assms(1) skip_ws [of "[]"] by (simp add: json_parse_buf_def json_parse_internal_def json_skip_whitespace_def [of "[]"])
qed

text \<open>
  C15: The JSON parser decides its grammar. A document of at most \<open>INT_MAX\<close> bytes is accepted with value
  \<open>v\<close> exactly when it is, between white space, a text of \<open>v\<close> in the grammar: strings with their escapes
  decoded to UTF-8 and surrogate pairs joined, numbers without leading zeros rounded to the nearest
  binary64 value and refused when that is infinite, arrays and objects in order with commas between
  elements only, nested at most \<open>JSON_MAX_DEPTH\<close> deep. Nothing else is accepted.
\<close>

theorem json_parse_buf_grammar:
  "json_parse_buf s = Some v \<longleftrightarrow>
     length s \<le> 2147483647 \<and> (\<exists>w1 t w2. s = w1 @ t @ w2 \<and> jws w1 \<and> jws w2 \<and> jvalue 0 v t)"
proof
  assume a: "json_parse_buf s = Some v"
  then obtain r where r: "json_parse_value 0 s = Parsed v r" "json_skip_whitespace r = []" "length s \<le> 2147483647"
    by (auto simp: json_parse_buf_def json_parse_internal_def split: jparse.splits if_splits)
  obtain w1 t w2 where t: "s = w1 @ t @ w2 @ r" "jws w1" "jws w2" "jvalue 0 v t"
    using grammar_sound(1) [OF r(1)] by (auto simp: value_text_def)
  have "jws r" using skip_split [of r] r(2) by simp
  then show "length s \<le> 2147483647 \<and> (\<exists>w1 t w2. s = w1 @ t @ w2 \<and> jws w1 \<and> jws w2 \<and> jvalue 0 v t)"
    using r(3) t by (intro conjI exI [of _ w1] exI [of _ t] exI [of _ "w2 @ r"]) auto
qed (auto intro: json_accept)

subsection \<open>Integers\<close>

lemma round_even_int: "round_even (of_int z) = z"
  by (simp add: round_even_def)

lemma exp2_nat:
  assumes "0 < n" "n < 2 ^ 53"
  shows "- 1 \<le> exp2 (of_nat n)" "exp2 (of_nat n) \<le> 52"
proof -
  have q: "quotient_of (of_nat n) = (int n, 1)" using quotient_of_int [of "int n"] by simp
  have f: "floorlog 2 n \<le> 53" using assms(2) by (intro floorlog_leI) auto
  have "floorlog 2 (Suc 0) = 1" by (simp add: floorlog_def)
  then have e: "exp2 (of_nat n) = int (floorlog 2 n) - 1 \<or> exp2 (of_nat n) = int (floorlog 2 n) - 2"
    by (auto simp: exp2_def q Let_def)
  moreover have "0 < floorlog 2 n" using assms(1) by (simp add: floorlog_def)
  ultimately show "- 1 \<le> exp2 (of_nat n)" "exp2 (of_nat n) \<le> 52" using f by auto
qed

lemma dbl_abs_nat:
  assumes "n < 2 ^ 53"
  shows "dbl_abs (of_nat n) = of_nat n"
proof (cases "n = 0")
  case True
  then show ?thesis by (simp add: dbl_abs_def)
next
  case False
  define j where "j = nat (52 - exp2 (of_nat n))"
  have e: "- 1 \<le> exp2 (of_nat n)" "exp2 (of_nat n) \<le> 52" using exp2_nat [of n] False assms by simp_all
  then have m: "max (- 1074) (exp2 (of_nat n) - 52) = - int j" by (simp add: j_def)
  have ulp: "(2 :: rat) powi (- int j) = 1 / 2 ^ j" by (simp add: power_int_minus inverse_eq_divide)
  have "(of_nat n / (1 / 2 ^ j) :: rat) = of_int (int (n * 2 ^ j))" by simp
  then have "round_even (of_nat n / (1 / 2 ^ j)) = int (n * 2 ^ j)" by (simp only: round_even_int)
  then show ?thesis using False by (simp add: dbl_abs_def m ulp Let_def)
qed

lemma to_double_nat: "n < 2 ^ 53 \<Longrightarrow> to_double (of_nat n) = Some (of_nat n)"
proof -
  assume n: "n < 2 ^ 53"
  have "(of_nat n :: rat) < of_nat (2 ^ 53)" using n by (simp only: of_nat_less_iff)
  also have "\<dots> < 2 ^ 1024" by simp
  finally show ?thesis using dbl_abs_nat [OF n] by (simp add: to_double_def not_le [symmetric])
qed

lemma jdigit_of_char: "c_isdigit c \<Longrightarrow> jdigit (of_char c)"
  by (auto simp: c_isdigit_def jdigit_def word_le_nat_alt unat_of_char)

lemma jnumber_show: "jnumber (of_nat n) (bytes_of (show_dec n))"
proof -
  let ?t = "bytes_of (show_dec n)"
  have dig: "list_all jdigit ?t"
    using show_dec_digits [of _ n] jdigit_of_char by (auto simp: list_all_iff bytes_of_def)
  have "jint ?t"
  proof (cases "n = 0")
    case True
    have "(of_char (char_of (48 :: nat)) :: u8) = 48" by (simp add: word_unat_eq_iff unat_of_char)
    then show ?thesis using True by (simp add: show_dec.simps jint_def bytes_of_def)
  next
    case False
    then obtain c cs where c: "show_dec n = c # cs" "c \<noteq> CHR ''0''"
      using show_dec_hd_not_zero [of n] show_dec_nonempty [of n] by (cases "show_dec n") auto
    have "(of_char c :: nat) \<noteq> of_char (CHR ''0'')" using c(2) unfolding of_char_eq_iff .
    then have "(of_char c :: u8) \<noteq> 48" by (auto simp: word_unat_eq_iff unat_of_char)
    then show ?thesis using c(1) dig by (simp add: jint_def bytes_of_def)
  qed
  moreover have "digits_val ?t = n"
  proof -
    have "foldl (\<lambda>v d. 10 * v + (unat d - 48)) a (bytes_of cs) = foldl (\<lambda>a c. 10 * a + digit_val c) a cs"
      if "\<forall>c \<in> set cs. c_isdigit c" for a cs
      using that by (induction cs arbitrary: a) (auto simp: bytes_of_def digit_val_def unat_of_char)
    then show ?thesis using show_dec_digits show_dec_value by (simp add: digits_val_def)
  qed
  ultimately show ?thesis
    unfolding jnumber_def
    by (intro exI [of _ False] exI [of _ ?t] exI [of _ "[]"] conjI) (auto simp: jfrac_def jexp_def numeral_val_def digits_val_def)
qed

text \<open>
  Integers go through exactly. The decimal numeral of any number below \<open>2 ^ 53\<close> parses to just that
  number, so sector counts and slot numbers in a JSON document are not changed by the detour over
  binary64.
\<close>

theorem json_integer_roundtrip:
  assumes "n < 2 ^ 53"
  shows "json_parse_buf (bytes_of (show_dec n)) = Some (JSON_NUMBER (of_nat n))"
proof (rule json_accept [of _ "[]" _ "[]"])
  have "length (show_dec n) \<le> 16" using show_dec_length [of n 15] assms by simp
  then show "length (bytes_of (show_dec n)) \<le> 2147483647" by simp
  show "jvalue 0 (JSON_NUMBER (of_nat n)) (bytes_of (show_dec n))"
    by (rule jvalue_jelements_jmembers.num [OF jnumber_show to_double_nat [OF assms]])
qed (simp_all add: jws_def)

lemma json_integer_roundtrip_witness:
  "json_parse_buf (bytes_of (show_dec 9007199254740991)) = Some (JSON_NUMBER (of_nat 9007199254740991))"
  by (rule json_integer_roundtrip) simp

subsection \<open>Printing\<close>

text \<open>A printer without white space or escapes, for the values that need neither.\<close>

fun commas :: "u8 list list \<Rightarrow> u8 list" where
  "commas [] = []"
| "commas [t] = t"
| "commas (t # ts) = t @ 44 # commas ts"

lemma size_member: "(k, v) \<in> set kvs \<Longrightarrow> size v < size (JSON_OBJECT kvs)"
  by (induction kvs) auto

lemma size_element: "v \<in> set vs \<Longrightarrow> size v < size (JSON_ARRAY vs)"
  by (induction vs) auto

function json_text :: "json_value \<Rightarrow> u8 list" where
  "json_text JSON_TRUE = bytes_of ''true''"
| "json_text JSON_FALSE = bytes_of ''false''"
| "json_text JSON_NULL = bytes_of ''null''"
| "json_text (JSON_NUMBER q) = bytes_of (show_dec (nat \<lfloor>q\<rfloor>))"
| "json_text (JSON_STRING s) = 34 # s @ [34]"
| "json_text (JSON_ARRAY vs) = 91 # commas (map json_text vs) @ [93]"
| "json_text (JSON_OBJECT kvs) = 123 # commas (map (\<lambda>(k, v). 34 # k @ 34 # 58 # json_text v) kvs) @ [125]"
  by pat_completeness auto
termination by (relation "measure size") (auto simp only: wf_measure in_measure intro: size_member size_element)

definition plain_bytes :: "u8 list \<Rightarrow> bool" where
  "plain_bytes s \<longleftrightarrow> list_all (\<lambda>c. 0x20 \<le> c \<and> c \<noteq> 34 \<and> c \<noteq> 92) s"

function printable :: "nat \<Rightarrow> json_value \<Rightarrow> bool" where
  "printable d JSON_TRUE = True"
| "printable d JSON_FALSE = True"
| "printable d JSON_NULL = True"
| "printable d (JSON_NUMBER q) \<longleftrightarrow> 0 \<le> q \<and> q < 2 ^ 53 \<and> of_int \<lfloor>q\<rfloor> = q"
| "printable d (JSON_STRING s) = plain_bytes s"
| "printable d (JSON_ARRAY vs) \<longleftrightarrow> d < JSON_MAX_DEPTH \<and> (\<forall>v \<in> set vs. printable (Suc d) v)"
| "printable d (JSON_OBJECT kvs) \<longleftrightarrow>
     d < JSON_MAX_DEPTH \<and> (\<forall>(k, v) \<in> set kvs. plain_bytes k \<and> printable (Suc d) v)"
  by pat_completeness auto
termination by (relation "measure (\<lambda>(d, v). size v)")
  (auto simp only: wf_measure in_measure prod.case intro: size_member size_element)

lemma jchars_plain: "plain_bytes t \<Longrightarrow> jchars t t"
  by (induction t) (auto simp: plain_bytes_def intro: jchars.intros)

lemma jws_Nil: "jws []"
  by (simp add: jws_def)

lemma jelements_text:
  "vs \<noteq> [] \<Longrightarrow> \<forall>v \<in> set vs. jvalue d v (json_text v) \<Longrightarrow> jelements d vs (commas (map json_text vs))"
proof (induction vs)
  case (Cons v vs)
  show ?case
  proof (cases vs)
    case Nil
    then show ?thesis using jvalue_jelements_jmembers.elem1 [of d v, OF _ jws_Nil jws_Nil] Cons.prems by simp
  next
    case (Cons w ws)
    then have "jelements d vs (commas (map json_text vs))" using Cons.IH Cons.prems by simp
    with Cons show ?thesis
      using jvalue_jelements_jmembers.elems [of d v, OF _ jws_Nil jws_Nil] Cons.prems by simp
  qed
qed simp

lemma jmembers_text:
  "kvs \<noteq> [] \<Longrightarrow> \<forall>(k, v) \<in> set kvs. plain_bytes k \<and> jvalue d v (json_text v) \<Longrightarrow>
   jmembers d kvs (commas (map (\<lambda>(k, v). 34 # k @ 34 # 58 # json_text v) kvs))"
proof (induction kvs)
  case (Cons kv kvs)
  obtain k v where kv: "kv = (k, v)" by fastforce
  with Cons.prems have 1: "jchars k k" "jvalue d v (json_text v)" by (auto intro: jchars_plain)
  show ?case
  proof (cases kvs)
    case Nil
    then show ?thesis using jvalue_jelements_jmembers.mem1 [OF 1 jws_Nil jws_Nil jws_Nil jws_Nil] kv by simp
  next
    case (Cons lw ws)
    then have "jmembers d kvs (commas (map (\<lambda>(k, v). 34 # k @ 34 # 58 # json_text v) kvs))"
      using Cons.IH Cons.prems by simp
    with Cons show ?thesis
      using jvalue_jelements_jmembers.mems [OF 1 jws_Nil jws_Nil jws_Nil jws_Nil] kv by (cases lw) simp
  qed
qed simp

lemma jvalue_text: "printable d v \<Longrightarrow> jvalue d v (json_text v)"
proof (induction v arbitrary: d)
  case (JSON_NUMBER q)
  have "int (nat \<lfloor>q\<rfloor>) = \<lfloor>q\<rfloor>" using JSON_NUMBER by simp
  then have q: "q = of_nat (nat \<lfloor>q\<rfloor>)" using JSON_NUMBER by (metis of_int_of_nat_eq printable.simps(4))
  then have "nat \<lfloor>q\<rfloor> < 2 ^ 53" using JSON_NUMBER
    by (metis of_nat_less_iff of_nat_numeral of_nat_power printable.simps(4))
  from jvalue_jelements_jmembers.num [OF jnumber_show to_double_nat [OF this], of d] q show ?case by simp
next
  case (JSON_ARRAY vs)
  then show ?case using jelements_text [of vs "Suc d"]
    by (cases "vs = []") (auto intro: jvalue_jelements_jmembers.arr jvalue_jelements_jmembers.arr0 [OF jws_Nil, simplified])
next
  case (JSON_OBJECT kvs)
  then have "\<forall>(k, v) \<in> set kvs. plain_bytes k \<and> jvalue (Suc d) v (json_text v)" by fastforce
  then show ?case using jmembers_text [of kvs "Suc d"] JSON_OBJECT.prems
    by (cases "kvs = []") (auto intro: jvalue_jelements_jmembers.obj jvalue_jelements_jmembers.obj0 [OF jws_Nil, simplified])
qed (auto intro: jvalue_jelements_jmembers.intros jchars_plain)

lemma json_text_parses:
  "printable 0 v \<Longrightarrow> length (json_text v) \<le> 2147483647 \<Longrightarrow> json_parse_buf (json_text v) = Some v"
  using json_accept [OF _ _ jws_Nil jws_Nil jvalue_text] by simp

text \<open>
  Printed documents parse back. Any value nested no deeper than \<open>JSON_MAX_DEPTH\<close>, with strings and
  keys free of control characters, quotes and backslashes and numbers that are integers below \<open>2 ^ 53\<close>,
  is recovered exactly by \<open>json_parse_buf\<close> from its text, members in order and duplicate keys included.
\<close>

theorem json_text_roundtrip:
  assumes "printable 0 v" "length (json_text v) \<le> 2147483647"
  shows "json_parse_buf (json_text v) = Some v"
  using assms by (rule json_text_parses)

lemma json_text_roundtrip_witness:
  "json_parse_buf (json_text (JSON_OBJECT [(bytes_of ''a'', JSON_ARRAY [JSON_NULL, JSON_NUMBER 7]), (bytes_of ''a'', JSON_OBJECT [])]))
    = Some (JSON_OBJECT [(bytes_of ''a'', JSON_ARRAY [JSON_NULL, JSON_NUMBER 7]), (bytes_of ''a'', JSON_OBJECT [])])"
  by (rule json_text_roundtrip)
    (simp_all add: bytes_of_def plain_bytes_def JSON_MAX_DEPTH_def show_dec.simps char_of_def bit_0)

end
