(* ===== verification/FhSize.thy ===== *)
theory FhSize
  imports FhRead FhRun JsonProps
begin

text \<open>
  \<open>src/firehose.c\<close>: the size of a storage device, which the programmer reports as a JSON document
  inside a log message.
\<close>

record firehose_getsize_args =
  gs_sector_size :: nat
  gs_num_sectors :: nat

text \<open>
  A double assigned to a \<open>size_t\<close> is truncated. Outside the range the result is undefined;
  \<open>conv\<close> is what the compiled program does then.
\<close>

definition size_of_double :: "(rat \<Rightarrow> nat) \<Rightarrow> rat \<Rightarrow> nat" where
  "size_of_double conv q = (if -1 < q \<and> q < 2 ^ 64 then nat \<lfloor>q\<rfloor> else conv q)"

abbreviation blocks_key :: string where
  "blocks_key \<equiv> [CHR 0x22] @ ''total_blocks'' @ [CHR 0x22] @ '':''"

definition firehose_getstorageinfo_parser :: "(rat \<Rightarrow> nat) \<Rightarrow> firehose_getsize_args response_parser" where
  "firehose_getstorageinfo_parser conv args node rawmode =
     (case xn_get node ''value'' of
        None \<Rightarrow> (- EINVAL, args, rawmode)
      | Some value \<Rightarrow>
          if xn_name node = ''response'' then (if value = ''ACK'' then 1 else -1, args, rawmode)
          else
            let start = dropWhile (\<lambda>c. c \<noteq> CHR ''{'') value in
            if start = [] \<or> find_sub blocks_key value = None then (0, args, rawmode)
            else (case json_parse_buf (bytes_of start) of
                None \<Rightarrow> (0, args, rawmode)
              | Some json \<Rightarrow>
                  (case json_get_child (Some json) (bytes_of ''storage_info'') of
                     None \<Rightarrow> (0, args, rawmode)
                   | Some info \<Rightarrow>
                       let total = case_option 0 id (json_get_number (Some info) (bytes_of ''total_blocks''));
                           block = case_option 0 id (json_get_number (Some info) (bytes_of ''block_size''))
                       in (0, args\<lparr>gs_sector_size := size_of_double conv block,
                                    gs_num_sectors := size_of_double conv total\<rparr>, rawmode))))"

definition firehose_getstorageinfo ::
  "nat \<Rightarrow> 'd fh_env \<Rightarrow> (rat \<Rightarrow> nat) \<Rightarrow> int \<Rightarrow> firehose_getsize_args \<Rightarrow> ('d, int \<times> firehose_getsize_args) fhm" where
  "firehose_getstorageinfo fuel E conv lun args =
     sbind (firehose_write fuel E (fh_doc E ''getstorageinfo'' [(''physical_partition_number'', show_int lun)])) (\<lambda>ret.
       if ret < 0 then sret (ret, args)
       else fh_recv fuel E 30000 (firehose_getstorageinfo_parser conv) args)"

text \<open>The result and, on success, the sector size and the number of sectors.\<close>

definition firehose_getsize ::
  "nat \<Rightarrow> 'd fh_env \<Rightarrow> (rat \<Rightarrow> nat) \<Rightarrow> int \<Rightarrow> ('d, int \<times> (nat \<times> nat) option) fhm" where
  "firehose_getsize fuel E conv lun =
     sbind (firehose_getstorageinfo fuel E conv lun \<lparr>gs_sector_size = 0, gs_num_sectors = 0\<rparr>) (\<lambda>(ret, args).
       if ret < 0 then sret (ret, None)
       else if gs_sector_size args = 0 \<or> gs_num_sectors args = 0 then sret (-1, None)
       else sret (0, Some (gs_sector_size args, gs_num_sectors args)))"

subsection \<open>The reported size\<close>

text \<open>A log message with the geometry in it: some text without a brace, then the document.\<close>

definition geometry_log :: "nat \<Rightarrow> nat \<Rightarrow> string \<Rightarrow> bool" where
  "geometry_log ss n v \<longleftrightarrow> find_sub blocks_key v \<noteq> None \<and>
     (\<exists>pre doc kvs info. v = pre @ CHR ''{'' # doc \<and> CHR ''{'' \<notin> set pre \<and> length v \<le> 4096
       \<and> jvalue 0 (JSON_OBJECT kvs) (bytes_of (CHR ''{'' # doc))
       \<and> find_key (bytes_of ''storage_info'') kvs = Some (JSON_OBJECT info)
       \<and> find_key (bytes_of ''total_blocks'') info = Some (JSON_NUMBER (of_nat n))
       \<and> find_key (bytes_of ''block_size'') info = Some (JSON_NUMBER (of_nat ss)))"

lemma size_of_nat: "n < 2 ^ 64 \<Longrightarrow> size_of_double conv (of_nat n) = n"
proof -
  assume "n < 2 ^ 64"
  then have "(of_nat n :: rat) < of_nat (2 ^ 64)" by (simp only: of_nat_less_iff)
  moreover have "(-1 :: rat) < of_nat n" using of_nat_0_le_iff [of n] by (rule less_le_trans [rotated]) simp
  ultimately show ?thesis by (simp add: size_of_double_def)
qed

lemma parser_geometry:
  assumes "geometry_log ss n v" "xn_get node ''value'' = Some v" "xn_name node = ''log''" "ss < 2 ^ 64" "n < 2 ^ 64"
  shows "firehose_getstorageinfo_parser conv args node raw
    = (0, args\<lparr>gs_sector_size := ss, gs_num_sectors := n\<rparr>, raw)"
proof -
  obtain pre doc kvs info where v: "find_sub blocks_key v \<noteq> None" "v = pre @ CHR ''{'' # doc" "CHR ''{'' \<notin> set pre" "length v \<le> 4096"
    "jvalue 0 (JSON_OBJECT kvs) (bytes_of (CHR ''{'' # doc))"
    "find_key (bytes_of ''storage_info'') kvs = Some (JSON_OBJECT info)"
    "find_key (bytes_of ''total_blocks'') info = Some (JSON_NUMBER (of_nat n))"
    "find_key (bytes_of ''block_size'') info = Some (JSON_NUMBER (of_nat ss))"
    using assms(1) unfolding geometry_log_def by blast
  have st: "dropWhile (\<lambda>c. c \<noteq> CHR ''{'') v = CHR ''{'' # doc"
    unfolding v(2) by (subst dropWhile_append2) (use v(3) in auto)
  have "json_parse_buf (bytes_of (CHR ''{'' # doc)) = Some (JSON_OBJECT kvs)"
    by (rule json_accept [of _ "[]" _ "[]"]) (use v(2,4,5) in \<open>simp_all add: jws_def\<close>)
  then show ?thesis
    using assms(2,3) v(1,6-8) st size_of_nat [OF assms(4)] size_of_nat [OF assms(5)]
    by (auto simp: firehose_getstorageinfo_parser_def json_get_child_def json_get_number_def)
qed

text \<open>Everything else the device may say meanwhile: logs without a brace and positive responses.\<close>

definition chatter :: "xml_node \<Rightarrow> bool" where
  "chatter node \<longleftrightarrow> (\<exists>v. xn_get node ''value'' = Some v
     \<and> (if xn_name node = ''response'' then v = ''ACK'' else CHR ''{'' \<notin> set v))"

lemma parser_chatter:
  "chatter node \<Longrightarrow> \<exists>r \<in> {0, 1}. firehose_getstorageinfo_parser conv args node raw = (r, args, raw)"
  by (auto simp: chatter_def firehose_getstorageinfo_parser_def dropWhile_eq_Nil_conv split: if_splits)

lemma respond_chatter:
  "\<forall>node \<in> set nodes. chatter node \<Longrightarrow>
   \<exists>r. foldl (respond (firehose_getstorageinfo_parser conv)) (resp, args) nodes = (r, args) \<and> (r = resp \<or> r = 0 \<or> r = 1)"
proof (induction nodes arbitrary: resp)
  case (Cons node nodes)
  obtain r where r: "r = 0 \<or> r = 1" "firehose_getstorageinfo_parser conv args node False = (r, args, False)"
    using parser_chatter [of node conv args False] Cons.prems by auto
  then have "respond (firehose_getstorageinfo_parser conv) (resp, args) node = (r, args)" by (auto simp: respond_def)
  then show ?case using Cons.IH [of r] Cons.prems r(1) by auto
qed simp

lemma script_write:
  assumes "env_tr E = script_transport" "idle s" "0 < fuel"
  shows "firehose_write fuel E buf s = Some (0, s)"
proof -
  obtain fu where "fuel = Suc fu" using assms(3) by (cases fuel) auto
  then show ?thesis using assms
    by (auto simp: firehose_write_def firehose_vip_send_table_def vip_transfer_handle_tables_def idle_def
        vip_transfer_status_check_needed_def sbind_def sret_def fh_chunk_init_def fh_chunk_update_def
        fh_chunk_store_def fh_send_def vip_gen_chunk_init_def vip_gen_chunk_update_def vip_gen_chunk_store_def
        qdl_write_def script_transport_def intro!: fh.equality)
qed

text \<open>
  C18: The device's size is what it reports. When the programmer's answer to \<open>getstorageinfo\<close> has a log
  message with a JSON document whose \<open>storage_info\<close> gives \<open>ss\<close> and \<open>n\<close> as block size and block count,
  with other logs and the acknowledgement around it, in any packing into reads, \<open>firehose_getsize\<close>
  returns success with exactly these two numbers.
\<close>

theorem firehose_getsize_reported:
  assumes "env_tr E = script_transport" "idle s" "link (fh_dev s) = map (\<lambda>ms. Inr (group_bytes ms)) groups"
    "\<forall>ms \<in> set groups. ms \<noteq> []" "list_all (is_message E) (concat groups)" "length groups < fuel"
    "map snd (concat groups) = before @ node # after" "\<forall>nd \<in> set before \<union> set after. chatter nd"
    "xn_name node = ''log''" "xn_get node ''value'' = Some v" "geometry_log ss n v"
    "0 < ss" "ss < 2 ^ 64" "0 < n" "n < 2 ^ 64"
  shows "\<exists>s'. firehose_getsize fuel E conv lun s = Some ((0, Some (ss, n)), s')"
proof -
  let ?p = "firehose_getstorageinfo_parser conv"
  let ?a = "\<lparr>gs_sector_size = 0, gs_num_sectors = 0\<rparr>" and ?b = "\<lparr>gs_sector_size = ss, gs_num_sectors = n\<rparr>"
  have pl: "plain_node ?p nd" if "nd = node \<or> chatter nd" for nd
    unfolding plain_node_def
  proof
    fix data
    show "\<not> snd (snd (?p data nd False))"
    proof (cases "nd = node")
      case True
      then show ?thesis using parser_geometry [OF assms(11,10,9,13,15), of conv data False] by simp
    next
      case False
      then show ?thesis using that parser_chatter [of nd conv data False] by auto
    qed
  qed
  have "\<forall>nd \<in> set (map snd (concat groups)). nd = node \<or> chatter nd" unfolding assms(7) using assms(8) by auto
  then have plain: "list_all (\<lambda>m. plain_node ?p (snd m)) (concat groups)" using pl by (auto simp: list_all_iff)
  obtain r1 where r1: "foldl (respond ?p) (- EIO, ?a) before = (r1, ?a)"
    using respond_chatter [of before conv "- EIO" ?a] assms(8) by auto
  have mid: "respond ?p (r1, ?a) node = (0, ?b)"
    using parser_geometry [OF assms(11,10,9,13,15), of conv ?a False] by (simp add: respond_def)
  obtain r2 where r2: "foldl (respond ?p) (0, ?b) after = (r2, ?b)" "r2 = 0 \<or> r2 = 1"
    using respond_chatter [of after conv 0 ?b] assms(8) by auto
  have f: "foldl (respond ?p) (- EIO, ?a) (map snd (concat groups)) = (r2, ?b)"
    unfolding assms(7) by (simp add: r1 mid r2(1))
  have pend: "pending_buf (fh_dev s) = None" using assms(2) by (simp add: idle_def)
  have "0 \<le> r2" using r2(2) by auto
  then obtain q' where "firehose_read fuel E 30000 ?p ?a (fh_dev s) = Some (r2, ?b, q')"
    unfolding firehose_read_def using read_groups [OF assms(1) pend assms(3,4,5) plain f _ assms(6)] by blast
  moreover have "firehose_write fuel E buf s = Some (0, s)" for buf
    using script_write [OF assms(1,2)] assms(6) by simp
  ultimately show ?thesis using assms(12,14) r2(2)
    by (auto simp: firehose_getsize_def firehose_getstorageinfo_def sbind_def sret_def fh_recv_def)
qed

text \<open>Eight blocks of four bytes, between another log and the acknowledgement.\<close>

definition quoted :: "string \<Rightarrow> string" where
  "quoted s = CHR 0x22 # s @ [CHR 0x22]"

definition ex_geometry :: string where
  "ex_geometry = ''{'' @ quoted ''storage_info'' @ '':{'' @ quoted ''total_blocks'' @ '':8,''
     @ quoted ''block_size'' @ '':4}}''"

lemma ex_member:
  assumes "plain_bytes k" "jvalue d v t"
  shows "jmembers d [(k, v)] (34 # k @ 34 # 58 # t)"
    and "jmembers d kvs ts \<Longrightarrow> jmembers d ((k, v) # kvs) (34 # k @ 34 # 58 # t @ 44 # ts)"
proof -
  have n: "jws []" by (simp add: jws_def)
  show "jmembers d [(k, v)] (34 # k @ 34 # 58 # t)"
    using jvalue_jelements_jmembers.mem1 [OF jchars_plain [OF assms(1)] assms(2) n n n n] by simp
  show "jmembers d kvs ts \<Longrightarrow> jmembers d ((k, v) # kvs) (34 # k @ 34 # 58 # t @ 44 # ts)"
    using jvalue_jelements_jmembers.mems [OF jchars_plain [OF assms(1)] assms(2) n n n n, of kvs ts] by simp
qed

lemma ex_geometry_log: "geometry_log 4 8 (''INFO: '' @ ex_geometry)"
proof -
  let ?tb = "bytes_of ''total_blocks''" and ?bs = "bytes_of ''block_size''" and ?si = "bytes_of ''storage_info''"
  have num: "jvalue d (JSON_NUMBER (of_nat n)) (bytes_of (show_dec n))" if "n < 10" for d n
    by (rule jvalue_jelements_jmembers.num [OF jnumber_show to_double_nat]) (use that in simp)
  let ?info = "[(?tb, JSON_NUMBER (of_nat 8)), (?bs, JSON_NUMBER (of_nat 4))]"
  let ?t4 = "bytes_of (show_dec 4)" and ?t8 = "bytes_of (show_dec 8)"
  have m1: "jmembers (Suc (Suc 0)) [(?bs, JSON_NUMBER (of_nat 4))] (34 # ?bs @ 34 # 58 # ?t4)"
    by (rule ex_member(1) [OF _ num]) (simp_all add: bytes_of_def plain_bytes_def)
  have m2: "jmembers (Suc (Suc 0)) ?info (34 # ?tb @ 34 # 58 # ?t8 @ 44 # 34 # ?bs @ 34 # 58 # ?t4)"
    by (rule ex_member(2) [OF _ num m1]) (simp_all add: bytes_of_def plain_bytes_def)
  have v1: "jvalue (Suc 0) (JSON_OBJECT ?info) (123 # (34 # ?tb @ 34 # 58 # ?t8 @ 44 # 34 # ?bs @ 34 # 58 # ?t4) @ [125])"
    by (rule jvalue_jelements_jmembers.obj [OF m2]) (simp add: JSON_MAX_DEPTH_def)
  have m3: "jmembers (Suc 0) [(?si, JSON_OBJECT ?info)]
      (34 # ?si @ 34 # 58 # 123 # (34 # ?tb @ 34 # 58 # ?t8 @ 44 # 34 # ?bs @ 34 # 58 # ?t4) @ [125])"
    by (rule ex_member(1) [OF _ v1]) (simp add: bytes_of_def plain_bytes_def)
  have "show_dec 4 = ''4''" "show_dec 8 = ''8''" by (simp_all add: show_dec.simps char_of_def bit_0)
  then have "bytes_of ex_geometry = 123 # (34 # ?si @ 34 # 58 # 123 # (34 # ?tb @ 34 # 58 # ?t8 @ 44 # 34 # ?bs @ 34 # 58 # ?t4) @ [125]) @ [125]"
    by (simp add: ex_geometry_def quoted_def bytes_of_def)
  moreover have "jvalue 0 (JSON_OBJECT [(?si, JSON_OBJECT ?info)])
      (123 # (34 # ?si @ 34 # 58 # 123 # (34 # ?tb @ 34 # 58 # ?t8 @ 44 # 34 # ?bs @ 34 # 58 # ?t4) @ [125]) @ [125])"
    by (rule jvalue_jelements_jmembers.obj [OF m3]) (simp add: JSON_MAX_DEPTH_def)
  ultimately have "jvalue 0 (JSON_OBJECT [(?si, JSON_OBJECT ?info)]) (bytes_of ex_geometry)" by simp
  moreover obtain doc where doc: "ex_geometry = CHR ''{'' # doc" by (simp add: ex_geometry_def)
  moreover have "find_sub blocks_key (''INFO: '' @ ex_geometry) \<noteq> None" by (simp add: ex_geometry_def quoted_def)
  moreover have "length (''INFO: '' @ ex_geometry) \<le> 4096" by (simp add: ex_geometry_def quoted_def)
  moreover have "find_key ?si [(?si, JSON_OBJECT ?info)] = Some (JSON_OBJECT ?info)"
    "find_key ?tb ?info = Some (JSON_NUMBER (of_nat 8))" "find_key ?bs ?info = Some (JSON_NUMBER (of_nat 4))"
    by (simp_all add: bytes_of_def c_text_def)
  ultimately show ?thesis unfolding geometry_log_def by (intro conjI exI [of _ "''INFO: ''"] exI [of _ doc]) auto
qed

definition ex_size_xml :: "u8 list \<Rightarrow> xml_doc option" where
  "ex_size_xml b =
     (if b = raw_doc then Some [(ex_node ''data'' [], [ex_node ''log'' [(''value'', ''INFO: '' @ ex_geometry)]])]
      else reply_xml ''ACK'' b)"

lemma firehose_getsize_reported_witness:
  "\<exists>s'. firehose_getsize 5 \<lparr>env_tr = script_transport, env_clock = (\<lambda>_. 0), env_xml = ex_size_xml,
        env_dump = (\<lambda>tag attrs. bytes_of tag), env_fs = (\<lambda>_. None), env_stk = []\<rparr> (\<lambda>_. 0) 0
      (ex_fh [Inr (raw_doc @ ack_doc)]) = Some ((0, Some (4, 8)), s')"
proof -
  let ?E = "\<lparr>env_tr = script_transport, env_clock = (\<lambda>_. 0), env_xml = ex_size_xml,
        env_dump = (\<lambda>tag attrs. bytes_of tag), env_fs = (\<lambda>_. None), env_stk = []\<rparr> :: (int + u8 list) list fh_env"
  let ?g = "ex_node ''log'' [(''value'', ''INFO: '' @ ex_geometry)]" and ?a = "ex_node ''response'' [(''value'', ''ACK'')]"
  let ?gs = "[[(raw_doc, ?g), (ack_doc, ?a)]]"
  have m: "list_all (is_message ?E) (concat ?gs)"
    using raw_doc_ack by (simp add: is_message_def whole_raw whole_ack firehose_response_parse_def ex_size_xml_def
        reply_xml_def ex_node_def)
  have c: "\<forall>nd \<in> set [] \<union> set [?a]. chatter nd" by (simp add: chatter_def ex_node_def)
  have "map snd (concat ?gs) = [] @ ?g # [?a]" "env_tr ?E = script_transport" "length ?gs < 5" "\<forall>ms \<in> set ?gs. ms \<noteq> []"
    "link (fh_dev (ex_fh [Inr (raw_doc @ ack_doc)])) = map (\<lambda>ms. Inr (group_bytes ms)) ?gs"
    "xn_name ?g = ''log''" "xn_get ?g ''value'' = Some (''INFO: '' @ ex_geometry)"
    by (simp_all add: group_bytes_def) (simp_all add: ex_node_def)
  from firehose_getsize_reported [OF this(2) ex_fh_idle(1) this(5,4) m this(3,1) c this(6,7) ex_geometry_log]
  show ?thesis by simp
qed

end
