(* ===== verification/Programmer.thy ===== *)
theory Programmer
  imports Program Host
begin

text \<open>
  \<open>src/programmer.c\<close> and \<open>src/sahara_config.c\<close>: the programmer specifier of the command line, the
  CPIO archives that carry several Sahara images, and the XML files that name them.
\<close>

subsection \<open>C strings\<close>

text \<open>\<open>strtok_r\<close> with one delimiter: the token and what is left behind its delimiter.\<close>

definition c_strtok :: "char \<Rightarrow> string \<Rightarrow> (string \<times> string) option" where
  "c_strtok d s =
     (case dropWhile (\<lambda>c. c = d) s of
        [] \<Rightarrow> None
      | t \<Rightarrow> Some (takeWhile (\<lambda>c. c \<noteq> d) t, tl (dropWhile (\<lambda>c. c \<noteq> d) t)))"

text \<open>The C library's \<open>basename\<close>.\<close>

definition c_basename :: "string \<Rightarrow> string" where
  "c_basename p =
     (let s = strip_slashes p in
      if s = [] then (if p = [] then ''.'' else ''/'')
      else rev (takeWhile (\<lambda>c. c \<noteq> CHR ''/'') (rev s)))"

lemma c_basename_nonempty: "c_basename p \<noteq> []"
proof (cases "strip_slashes p")
  case (Cons c cs)
  have "hd (rev (strip_slashes p)) \<noteq> CHR ''/''"
    using Cons hd_dropWhile [of "\<lambda>c. c = CHR ''/''" "rev p"] by (auto simp: strip_slashes_def)
  then show ?thesis using Cons by (cases "rev (strip_slashes p)") (auto simp: c_basename_def Let_def)
qed (simp add: c_basename_def)

text \<open>\<open>%08x\<close> of an \<open>unsigned int\<close>.\<close>

fun hex_digits :: "nat \<Rightarrow> nat \<Rightarrow> string" where
  "hex_digits 0 n = []"
| "hex_digits (Suc k) n = hex_digits k (n div 16) @ [to_hex (n mod 16)]"

definition show_hex8 :: "nat \<Rightarrow> string" where
  "show_hex8 n = hex_digits 8 (n mod 2 ^ 32)"

subsection \<open>Archives\<close>

abbreviation CPIO_MAGIC :: string where "CPIO_MAGIC \<equiv> ''070701''"
abbreviation TRAILER :: string where "TRAILER \<equiv> ''TRAILER!!!''"

definition CPIO_HDR :: nat where "CPIO_HDR = 110"

definition align4 :: "nat \<Rightarrow> nat" where
  "align4 n = (n + 3) div 4 * 4"

text \<open>\<open>None\<close> is the exit of the program on a character that is no hex digit.\<close>

fun parse_ascii_hex32_loop :: "u32 \<Rightarrow> string \<Rightarrow> u32 option" where
  "parse_ascii_hex32_loop x [] = Some x"
| "parse_ascii_hex32_loop x (c # s) =
     (if c_isxdigit c then parse_ascii_hex32_loop (push_bit 4 x OR of_nat (digit_val c)) s else None)"

definition parse_ascii_hex32 :: "u8 list \<Rightarrow> u32 option" where
  "parse_ascii_hex32 s = parse_ascii_hex32_loop 0 (chars_of (take 8 s))"

text \<open>
  The outcome of a loader: the exit of the program, a read outside the memory it may read, or what it
  returns.
\<close>

datatype 'a loaded = Exits | Faults | Returns 'a

definition released :: "sahara_image \<Rightarrow> sahara_image" where
  "released blob = blob\<lparr>img_ptr := None, img_len := 0\<rparr>"

definition archive_err :: "sahara_image \<Rightarrow> images \<Rightarrow> (int \<times> sahara_image \<times> images) loaded" where
  "archive_err blob imgs = Returns (-1, released blob, sahara_images_free imgs MAPPING_SZ)"

text \<open>
  The loop over the entries. The blob comes from \<open>malloc\<close>, so aligning a pointer into it aligns the
  offset. \<open>beyond\<close> is the memory behind the blob that can be read: the copy of the last image can reach
  it, and faults when there is not enough of it.
\<close>

definition store_entry ::
  "u8 list \<Rightarrow> u8 list \<Rightarrow> images \<Rightarrow> nat \<Rightarrow> string option \<Rightarrow> nat \<Rightarrow> nat \<Rightarrow> images" where
  "store_entry d beyond imgs i nm p n =
     store_image imgs i
       \<lparr>img_name = (case nm of None \<Rightarrow> img_name (imgs ! i) | Some t \<Rightarrow> Some t),
        img_ptr = Some (sub_buf p n (d @ beyond)), img_len = n\<rparr>"

function archive_loop ::
  "u8 list \<Rightarrow> u8 list \<Rightarrow> sahara_image \<Rightarrow> images \<Rightarrow> nat \<Rightarrow> (int \<times> sahara_image \<times> images) loaded" where
  "archive_loop d beyond blob imgs off =
     (if off + CPIO_HDR > length d then archive_err blob imgs
      else if sub_buf off 6 d \<noteq> bytes_of CPIO_MAGIC then archive_err blob imgs
      else case parse_ascii_hex32 (drop (off + 54) d) of
        None \<Rightarrow> Exits
      | Some filesize \<Rightarrow>
          (case parse_ascii_hex32 (drop (off + 94) d) of
             None \<Rightarrow> Exits
           | Some namesize \<Rightarrow>
               let fs = unat filesize; ns = unat namesize; p = off + CPIO_HDR in
               if p + ns > length d \<or> p + fs + ns > length d then archive_err blob imgs
               else if ns = 0 \<or> ns > 128 then archive_err blob imgs
               else if d ! (p + ns - 1) \<noteq> 0 then archive_err blob imgs
               else
                 let name = cstr_of (sub_buf p ns d) in
                 if name = TRAILER then Returns (1, released blob, imgs)
                 else case c_strtok CHR '':'' name of
                   None \<Rightarrow> archive_err blob imgs
                 | Some (tok, save) \<Rightarrow>
                     let id = sint (strtoul_val 0 tok) in
                     if id \<le> 0 \<or> id \<ge> int MAPPING_SZ then archive_err blob imgs
                     else
                       let q = align4 (p + ns) in
                       if fs \<noteq> 0 \<and> q + fs > length d + length beyond then Faults
                       else
                         archive_loop d beyond blob
                           (store_entry d beyond imgs (nat id) (map_option fst (c_strtok CHR '':'' save)) q fs)
                           (align4 (q + fs))))"
  by pat_completeness auto
termination
  by (relation "measure (\<lambda>(d, b, blob, imgs, off). length d - off)") (auto simp: CPIO_HDR_def align4_def)

declare archive_loop.simps [simp del]

definition decode_programmer_archive ::
  "u8 list \<Rightarrow> sahara_image \<Rightarrow> images \<Rightarrow> (int \<times> sahara_image \<times> images) loaded" where
  "decode_programmer_archive beyond blob imgs =
     (case img_ptr blob of
        None \<Rightarrow> Returns (0, blob, imgs)
      | Some d \<Rightarrow>
          if img_len blob < CPIO_HDR \<or> take 6 d \<noteq> bytes_of CPIO_MAGIC then Returns (0, blob, imgs)
          else archive_loop d beyond blob imgs 0)"

subsection \<open>Writing archives\<close>

definition archive_header :: "nat \<Rightarrow> nat \<Rightarrow> nat \<Rightarrow> string" where
  "archive_header ino len namesize =
     CPIO_MAGIC @ concat (map show_hex8 [ino, 33188, 0, 0, 1, 0, len, 0, 0, 0, 0, namesize, 0])"

definition zero_pad :: "nat \<Rightarrow> u8 list" where
  "zero_pad len = replicate (align4 len - len) 0"

text \<open>A sequence of \<open>fwrite\<close> calls, each only made when the ones before it succeeded; empty ones are left out.\<close>

fun f_write_all :: "host \<Rightarrow> string \<Rightarrow> u8 list list \<Rightarrow> bool \<times> host" where
  "f_write_all h p [] = (True, h)"
| "f_write_all h p (b # bs) =
     (if b = [] then f_write_all h p bs
      else case f_write h p b of (ok, h') \<Rightarrow> if ok then f_write_all h' p bs else (False, h'))"

definition sahara_archive_write_entry ::
  "host \<Rightarrow> string \<Rightarrow> nat \<Rightarrow> string \<Rightarrow> u8 list \<Rightarrow> bool \<times> host" where
  "sahara_archive_write_entry h out ino name data =
     (let namesize = length name + 1 in
      if length data > 2 ^ 32 - 1 \<or> namesize > 2 ^ 32 - 1 then (False, h)
      else f_write_all h out
        [bytes_of (archive_header ino (length data) namesize), bytes_of name @ [0],
         zero_pad (CPIO_HDR + namesize), data, zero_pad (length data)])"

definition entry_name :: "nat \<Rightarrow> sahara_image \<Rightarrow> string" where
  "entry_name i im =
     take 127 (case img_name im of
       Some n \<Rightarrow> show_dec i @ '':'' @ c_basename n
     | None \<Rightarrow> show_dec i)"

text \<open>The images at index \<open>i\<close> and up, in order, numbered from \<open>ino\<close>.\<close>

fun write_entries :: "host \<Rightarrow> string \<Rightarrow> nat \<Rightarrow> nat \<Rightarrow> images \<Rightarrow> bool \<times> nat \<times> host" where
  "write_entries h out ino i [] = (True, ino, h)"
| "write_entries h out ino i (im # ims) =
     (case img_ptr im of
        None \<Rightarrow> write_entries h out ino (i + 1) ims
      | Some d \<Rightarrow>
          (case sahara_archive_write_entry h out ino (entry_name i im) (take (img_len im) d) of
             (ok, h') \<Rightarrow> if ok then write_entries h' out (ino + 1) (i + 1) ims else (False, ino + 1, h')))"

text \<open>\<open>fclose_ok\<close>: whether closing the stream succeeds; a file that could not be written is removed.\<close>

definition sahara_archive_write :: "bool \<Rightarrow> host \<Rightarrow> string \<Rightarrow> images \<Rightarrow> int \<times> host" where
  "sahara_archive_write fclose_ok h filename imgs =
     (if \<not> list_ex (\<lambda>im. img_ptr im \<noteq> None) (tl imgs) then (-1, h)
      else case h_create h filename of
        None \<Rightarrow> (-1, h)
      | Some h1 \<Rightarrow>
          (case write_entries h1 filename 1 1 (tl imgs) of
             (ok, ino, h2) \<Rightarrow>
               (case (if ok then sahara_archive_write_entry h2 filename ino TRAILER [] else (False, h2)) of
                  (ok', h3) \<Rightarrow>
                    if ok' \<and> fclose_ok then (0, h3)
                    else (-1, h3\<lparr>h_files := (h_files h3)(filename := None)\<rparr>))))"

subsection \<open>Sahara configuration files\<close>

text \<open>
  \<open>doc\<close> is what libxml2 makes of the blob: the name of the root element and its children, each with
  its own children. \<open>resolve\<close> is the contents database.
\<close>

type_synonym xml_tree = "string \<times> (xml_node \<times> xml_node list) list"

definition config_path :: "(string \<Rightarrow> string option) \<Rightarrow> string \<Rightarrow> string \<Rightarrow> string option" where
  "config_path resolve base image_path =
     (case resolve image_path of
        Some full \<Rightarrow> Some full
      | None \<Rightarrow>
          if take 1 image_path = ''/'' then
            (if length image_path + 1 > PATH_MAX then None else Some image_path)
          else
            (if length base + 1 + length image_path + 1 > PATH_MAX then None
             else Some (base @ ''/'' @ image_path)))"

fun config_images ::
  "(string \<Rightarrow> string option) \<Rightarrow> file_system \<Rightarrow> string \<Rightarrow> nat \<Rightarrow> images \<Rightarrow> xml_node list \<Rightarrow> bool \<times> images" where
  "config_images resolve fs base errors imgs [] = (True, imgs)"
| "config_images resolve fs base errors imgs (node # nodes) =
     (if \<not> xn_element node \<or> xn_name node \<noteq> ''image'' then config_images resolve fs base errors imgs nodes
      else
        let (image_id, e1) = attr_as_unsigned node ''image_id'' errors;
            (image_path, e2) = attr_as_string node ''image_path'' e1
        in if image_id = 0 \<or> unat image_id \<ge> MAPPING_SZ \<or> e2 \<noteq> 0 \<or> image_path = None then (False, imgs)
           else case config_path resolve base (the image_path) of
             None \<Rightarrow> (False, imgs)
           | Some full \<Rightarrow>
               (case load_sahara_image None fs full of
                  None \<Rightarrow> (False, imgs)
                | Some im \<Rightarrow> config_images resolve fs base e2 (store_image imgs (unat image_id) im) nodes))"

definition decode_sahara_config ::
  "(u8 list \<Rightarrow> xml_tree option) \<Rightarrow> (string \<Rightarrow> string option) \<Rightarrow> file_system \<Rightarrow> sahara_image \<Rightarrow> images
    \<Rightarrow> int \<times> sahara_image \<times> images" where
  "decode_sahara_config doc resolve fs blob imgs =
     (case img_ptr blob of
        None \<Rightarrow> (0, blob, imgs)
      | Some d \<Rightarrow>
          if img_len blob < 5 \<or> take 5 d \<noteq> bytes_of ''<?xml'' then (0, blob, imgs)
          else case doc d of
            None \<Rightarrow> (-1, blob, imgs)
          | Some (rootname, children) \<Rightarrow>
              let failed = (-1, released blob, sahara_images_free imgs MAPPING_SZ) in
              if rootname \<noteq> ''sahara_config'' then failed
              else case filter (\<lambda>(n, _). xn_element n \<and> xn_name n = ''images'') children of
                [] \<Rightarrow> failed
              | (_, nodes) # _ \<Rightarrow>
                  (case config_images resolve fs (dirname (case_option [] id (img_name blob))) 0 imgs nodes of
                     (True, imgs') \<Rightarrow> (1, released blob, imgs')
                   | (False, imgs') \<Rightarrow> (-1, released blob, sahara_images_free imgs' MAPPING_SZ)))"

subsection \<open>The programmer specifier\<close>

text \<open>
  The pairs \<open><id>:<filename>\<close>. The name starts one character behind the end of the number, whatever
  that is: when the number ends the token, this is the rest of the specifier, and \<open>after\<close>, the memory
  behind it, when there is no rest.
\<close>

function decode_pairs :: "string \<Rightarrow> file_system \<Rightarrow> images \<Rightarrow> string \<Rightarrow> int \<times> images" where
  "decode_pairs after fs imgs s =
     (case dropWhile (\<lambda>c. c = CHR '','') s of
        [] \<Rightarrow> (0, imgs)
      | t \<Rightarrow>
          let pair = takeWhile (\<lambda>c. c \<noteq> CHR '','') t; rest = dropWhile (\<lambda>c. c \<noteq> CHR '','') t in
          (case c_strtoul 0 pair of
             (v, _, None) \<Rightarrow> (-1, imgs)
           | (v, _, Some tail) \<Rightarrow>
               if sint v \<le> 0 \<or> sint v \<ge> int MAPPING_SZ then (-1, imgs)
               else
                 let filename = (if tail \<noteq> [] then tl tail else if rest \<noteq> [] then tl rest else after) in
                 (case load_sahara_image None fs filename of
                    None \<Rightarrow> (-1, imgs)
                  | Some im \<Rightarrow> decode_pairs after fs (store_image imgs (unat v) im) (tl rest))))"
  by pat_completeness auto
termination
proof (relation "measure (\<lambda>(a, fs, imgs, s). length s)", goal_cases)
  case (2 after fs imgs s c t pair rest)
  have "length (tl rest) < length (c # t)"
    using length_dropWhile_le [of "\<lambda>c. c \<noteq> CHR '','' " "c # t"] 2(3) by auto
  also have "\<dots> \<le> length s" unfolding 2(1) [symmetric] by (rule length_dropWhile_le)
  finally show ?case by simp
qed simp

declare decode_pairs.simps [simp del]

text \<open>
  \<open>decode_programmer\<close>. An image that is neither an archive nor a configuration is the programmer
  itself.
\<close>

definition decode_programmer ::
  "u8 list \<Rightarrow> string \<Rightarrow> (u8 list \<Rightarrow> xml_tree option) \<Rightarrow> file_system \<Rightarrow> string \<Rightarrow> images \<Rightarrow> (int \<times> images) loaded" where
  "decode_programmer beyond after doc fs s imgs =
     (if (case snd (snd (c_strtoul 0 s)) of Some (c # _) \<Rightarrow> c = CHR '':'' | _ \<Rightarrow> False)
      then Returns (decode_pairs after fs imgs s)
      else case load_sahara_image None fs s of
        None \<Rightarrow> Returns (-1, imgs)
      | Some archive \<Rightarrow>
          (case decode_programmer_archive beyond archive imgs of
             Exits \<Rightarrow> Exits
           | Faults \<Rightarrow> Faults
           | Returns (ret, archive1, imgs1) \<Rightarrow>
               if ret < 0 \<or> ret = 1 then Returns (ret, imgs1)
               else
                 (case decode_sahara_config doc (\<lambda>_. None) fs archive1 imgs1 of
                    (ret, archive2, imgs2) \<Rightarrow>
                      if ret < 0 \<or> ret = 1 then Returns (ret, imgs2)
                      else Returns (0, imgs2[SAHARA_ID_EHOSTDL_IMG := archive2]))))"

end
