(* ===== verification/ProgrammerProps.thy ===== *)
theory ProgrammerProps
  imports Programmer
begin

text \<open>
  Programmer archives: what the writer produces the reader takes apart again, loading stays inside its
  memory and the array of images, and the reader's reach behind a truncated archive.
\<close>

subsection \<open>Headers\<close>

lemma to_hex_digit: "d < 16 \<Longrightarrow> c_isxdigit (to_hex d) \<and> digit_val (to_hex d) = d"
proof -
  assume d: "d < 16"
  then have "(48 + d) mod 256 = 48 + d" "(87 + d) mod 256 = 87 + d" by simp_all
  then show ?thesis using d
    by (auto simp: to_hex_def c_isxdigit_def c_isdigit_def digit_val_def Let_def)
qed

lemma parse_hex_append:
  "parse_ascii_hex32_loop x (s @ t) = Option.bind (parse_ascii_hex32_loop x s) (\<lambda>y. parse_ascii_hex32_loop y t)"
  by (induction x s rule: parse_ascii_hex32_loop.induct) auto

lemma length_hex_digits [simp]: "length (hex_digits k n) = k"
  by (induction k arbitrary: n) auto

lemma parse_hex_digits:
  "parse_ascii_hex32_loop (of_nat v) (hex_digits k n) = Some (of_nat (v * 16 ^ k + n mod 16 ^ k))"
proof (induction k arbitrary: n)
  case (Suc k)
  have d: "digit_val (to_hex (n mod 16)) < 2 ^ 4" using to_hex_digit [of "n mod 16"] by simp
  have "parse_ascii_hex32_loop (of_nat v) (hex_digits (Suc k) n)
    = Some (push_bit 4 (of_nat (v * 16 ^ k + n div 16 mod 16 ^ k)) OR of_nat (digit_val (to_hex (n mod 16))))"
    using to_hex_digit [of "n mod 16"] by (simp add: parse_hex_append Suc)
  also have "\<dots> = Some (of_nat ((v * 16 ^ k + n div 16 mod 16 ^ k) * 2 ^ 4 + digit_val (to_hex (n mod 16))))"
    by (simp only: shift_nat [OF d])
  also have "(v * 16 ^ k + n div 16 mod 16 ^ k) * 2 ^ 4 + digit_val (to_hex (n mod 16)) = v * 16 ^ Suc k + n mod 16 ^ Suc k"
    using to_hex_digit [of "n mod 16"] by (simp add: mod_mult2_eq add_mult_distrib)
  finally show ?case .
qed simp

lemma length_show_hex8 [simp]: "length (show_hex8 n) = 8"
  by (simp add: show_hex8_def)

lemma parse_show_hex8: "n < 2 ^ 32 \<Longrightarrow> parse_ascii_hex32 (bytes_of (show_hex8 n) @ r) = Some (of_nat n)"
  using parse_hex_digits [of 0 8 n] by (simp add: parse_ascii_hex32_def show_hex8_def)

lemma length_archive_header [simp]: "length (archive_header ino len ns) = CPIO_HDR"
  by (simp add: archive_header_def CPIO_HDR_def)

lemma archive_header_fields:
  assumes "len < 2 ^ 32" "ns < 2 ^ 32"
  shows "take 6 (bytes_of (archive_header ino len ns) @ r) = bytes_of CPIO_MAGIC"
    and "parse_ascii_hex32 (drop 54 (bytes_of (archive_header ino len ns) @ r)) = Some (of_nat len)"
    and "parse_ascii_hex32 (drop 94 (bytes_of (archive_header ino len ns) @ r)) = Some (of_nat ns)"
proof -
  have ba: "bytes_of (a @ b) = bytes_of a @ bytes_of b" for a b by (simp add: bytes_of_def)
  have bc: "bytes_of (c # a) = of_char c # bytes_of a" "bytes_of [] = []" for c a by (simp_all add: bytes_of_def)
  show "take 6 (bytes_of (archive_header ino len ns) @ r) = bytes_of CPIO_MAGIC"
    by (simp add: archive_header_def bytes_of_def)
  have "drop 54 (bytes_of (archive_header ino len ns) @ r) = bytes_of (show_hex8 len) @
      bytes_of (concat (map show_hex8 [0, 0, 0, 0, ns, 0])) @ r"
    by (simp add: archive_header_def ba bc)
  then show "parse_ascii_hex32 (drop 54 (bytes_of (archive_header ino len ns) @ r)) = Some (of_nat len)"
    using parse_show_hex8 [OF assms(1)] by simp
  have "drop 94 (bytes_of (archive_header ino len ns) @ r) = bytes_of (show_hex8 ns) @ bytes_of (show_hex8 0) @ r"
    by (simp add: archive_header_def ba bc)
  then show "parse_ascii_hex32 (drop 94 (bytes_of (archive_header ino len ns) @ r)) = Some (of_nat ns)"
    using parse_show_hex8 [OF assms(2)] by simp
qed

subsection \<open>One entry\<close>

lemma align4_props: "n \<le> align4 n" "align4 n < n + 4" "4 dvd align4 n"
  by (auto simp: align4_def)

lemma align4_add: "4 dvd a \<Longrightarrow> align4 (a + n) = a + align4 n"
proof -
  assume "4 dvd a"
  then obtain k where a: "a = 4 * k" by (auto elim: dvdE)
  have "(4 * k + n + 3) div 4 = k + (n + 3) div 4" by (metis add.assoc div_mult_self4 zero_neq_numeral)
  then show ?thesis by (simp add: align4_def a)
qed

definition entry_bytes :: "nat \<Rightarrow> string \<Rightarrow> u8 list \<Rightarrow> u8 list" where
  "entry_bytes ino name data =
     bytes_of (archive_header ino (length data) (length name + 1)) @ bytes_of name @ [0]
     @ zero_pad (CPIO_HDR + (length name + 1)) @ data @ zero_pad (length data)"

lemma entry_bytes_length:
  "length (entry_bytes ino name data) = align4 (CPIO_HDR + (length name + 1)) + align4 (length data)"
  using align4_props(1) [of "CPIO_HDR + (length name + 1)"] align4_props(1) [of "length data"]
  by (simp add: entry_bytes_def zero_pad_def)

text \<open>What the reader sees at an entry.\<close>

lemma entry_view:
  fixes pre rest data :: "u8 list" and name :: string and ino :: nat
  assumes "length data < 2 ^ 32" "length name < 128" "CHR 0x00 \<notin> set name"
    and d_def: "d = pre @ entry_bytes ino name data @ rest" and p_def: "p = length pre + CPIO_HDR" and ns_def: "ns = length name + 1"
  shows "sub_buf (length pre) 6 d = bytes_of CPIO_MAGIC"
    and "parse_ascii_hex32 (drop (length pre + 54) d) = Some (of_nat (length data))"
    and "parse_ascii_hex32 (drop (length pre + 94) d) = Some (of_nat ns)"
    and "p + ns \<le> length d" and "p + length data + ns \<le> length d" and "d ! (p + ns - 1) = 0"
    and "cstr_of (sub_buf p ns d) = name"
    and "4 dvd length pre \<Longrightarrow> sub_buf (align4 (p + ns)) (length data) (d @ beyond) = data"
    and "4 dvd length pre \<Longrightarrow> align4 (p + ns) + length data \<le> length d"
    and "4 dvd length pre \<Longrightarrow> align4 (align4 (p + ns) + length data) = length (pre @ entry_bytes ino name data)"
proof -
  let ?h = "bytes_of (archive_header ino (length data) ns)" and ?z = "zero_pad (CPIO_HDR + ns)"
  let ?rest = "?z @ data @ zero_pad (length data) @ rest"
  have d: "d = pre @ ?h @ (bytes_of name @ [0]) @ ?rest" by (simp add: d_def entry_bytes_def ns_def)
  have h: "length ?h = CPIO_HDR" by simp
  have ns: "ns < 2 ^ 32" using assms(2) by (simp add: ns_def)
  have dr: "drop (length pre + k) d = drop k (?h @ (bytes_of name @ [0]) @ ?rest)" for k by (simp add: d)
  show "sub_buf (length pre) 6 d = bytes_of CPIO_MAGIC"
  proof -
    have "drop (length pre) d = ?h @ (bytes_of name @ [0]) @ ?rest" using dr [of 0] by (simp only: add_0_right drop_0)
    then show ?thesis unfolding sub_buf_def by (simp only: archive_header_fields(1) [OF assms(1) ns])
  qed
  show "parse_ascii_hex32 (drop (length pre + 54) d) = Some (of_nat (length data))"
    unfolding dr by (rule archive_header_fields(2) [OF assms(1) ns])
  show "parse_ascii_hex32 (drop (length pre + 94) d) = Some (of_nat ns)"
    unfolding dr by (rule archive_header_fields(3) [OF assms(1) ns])
  show "p + ns \<le> length d" "p + length data + ns \<le> length d"
    using align4_props(1) [of "CPIO_HDR + ns"] by (simp_all add: d p_def ns_def zero_pad_def)
  have dp: "drop p d = (bytes_of name @ [0]) @ ?rest" unfolding p_def dr using h by simp
  have "p \<le> length d" using h by (simp add: d p_def)
  then have "d ! (p + length name) = drop p d ! length name" by simp
  then show "d ! (p + ns - 1) = 0" unfolding dp by (simp add: ns_def nth_append)
  have "sub_buf p ns d = bytes_of name @ [0]" unfolding sub_buf_def dp by (simp add: ns_def)
  moreover have "\<forall>b \<in> set (bytes_of name). b \<noteq> 0"
  proof
    fix b assume "b \<in> set (bytes_of name)"
    then obtain c where c: "c \<in> set name" "b = of_char c" by (auto simp: bytes_of_def)
    then have "(of_char c :: nat) \<noteq> of_char (CHR 0x00)" using assms(3) unfolding of_char_eq_iff by auto
    then show "b \<noteq> 0" using c(2) by (auto simp: word_unat_eq_iff unat_of_char)
  qed
  ultimately show "cstr_of (sub_buf p ns d) = name" by (simp add: cstr_of_def takeWhile_append2)
  assume a4: "4 dvd length pre"
  then have q: "align4 (p + ns) = length pre + align4 (CPIO_HDR + ns)" by (simp add: p_def align4_add add.assoc)
  let ?A = "pre @ ?h @ (bytes_of name @ [0]) @ ?z"
  have A: "length ?A = align4 (p + ns)"
    unfolding q using align4_props(1) [of "CPIO_HDR + ns"] h by (simp add: zero_pad_def ns_def)
  have dA: "d = ?A @ data @ zero_pad (length data) @ rest" by (simp add: d)
  show "sub_buf (align4 (p + ns)) (length data) (d @ beyond) = data"
    unfolding A [symmetric] dA by (simp add: sub_buf_def)
  show "align4 (p + ns) + length data \<le> length d" unfolding A [symmetric] dA by simp
  have "4 dvd align4 (p + ns)" by (rule align4_props(3))
  then have "align4 (align4 (p + ns) + length data) = align4 (p + ns) + align4 (length data)" by (rule align4_add)
  then show "align4 (align4 (p + ns) + length data) = length (pre @ entry_bytes ino name data)"
    unfolding q by (simp add: entry_bytes_length ns_def)
qed

text \<open>The name of an image: its number and, when it has one, the last part of its path.\<close>

definition archivable :: "sahara_image \<Rightarrow> bool" where
  "archivable im \<longleftrightarrow> image_ok im \<and> img_len im < 2 ^ 32 \<and>
     (\<forall>n. img_name im = Some n \<longrightarrow> CHR '':'' \<notin> set (c_basename n) \<and> CHR 0x00 \<notin> set (c_basename n) \<and> length (c_basename n) \<le> 123)"

definition archived :: "sahara_image \<Rightarrow> sahara_image" where
  "archived im = (case img_ptr im of None \<Rightarrow> no_image
     | Some d \<Rightarrow> \<lparr>img_name = map_option c_basename (img_name im), img_ptr = Some d, img_len = img_len im\<rparr>)"

lemma strtok_plain: "d \<notin> set t \<Longrightarrow> t \<noteq> [] \<Longrightarrow> c_strtok d (t @ d # r) = Some (t, r) \<and> c_strtok d t = Some (t, [])"
proof -
  assume a: "d \<notin> set t" "t \<noteq> []"
  obtain c u where t: "t = c # u" "c \<noteq> d" using a by (cases t) auto
  have "d \<notin> set u \<Longrightarrow> takeWhile (\<lambda>c. c \<noteq> d) u = u \<and> dropWhile (\<lambda>c. c \<noteq> d) u = []
      \<and> takeWhile (\<lambda>c. c \<noteq> d) (u @ d # r) = u \<and> dropWhile (\<lambda>c. c \<noteq> d) (u @ d # r) = d # r" for u
    by (induction u) auto
  then have u: "takeWhile (\<lambda>c. c \<noteq> d) t = t" "dropWhile (\<lambda>c. c \<noteq> d) t = []"
    "takeWhile (\<lambda>c. c \<noteq> d) (t @ d # r) = t" "dropWhile (\<lambda>c. c \<noteq> d) (t @ d # r) = d # r"
    using a(1) by blast+
  have "c_strtok d (t @ x) = Some (takeWhile (\<lambda>c. c \<noteq> d) (t @ x), tl (dropWhile (\<lambda>c. c \<noteq> d) (t @ x)))" for x
    using t by (simp add: c_strtok_def)
  from this [of "d # r"] this [of "[]"] show ?thesis by (simp only: u append_Nil2 list.sel simp_thms)
qed

lemma show_dec_no: "\<not> c_isdigit d \<Longrightarrow> d \<notin> set (show_dec n)"
  using show_dec_digits by blast

lemma entry_name_tokens:
  assumes "archivable im" "i < 1000"
  shows "\<exists>save. c_strtok CHR '':'' (entry_name i im) = Some (show_dec i, save)
      \<and> map_option fst (c_strtok CHR '':'' save) = map_option c_basename (img_name im)"
    and "length (entry_name i im) < 128" "CHR 0x00 \<notin> set (entry_name i im)" "entry_name i im \<noteq> TRAILER"
proof -
  have l: "length (show_dec i) \<le> 3" using show_dec_length [of i 2] assms(2) by simp
  have nd: "CHR '':'' \<notin> set (show_dec i)" "CHR 0x00 \<notin> set (show_dec i)" "CHR ''T'' \<notin> set (show_dec i)"
    by (rule show_dec_no; simp add: c_isdigit_def)+
  have en: "entry_name i im = (case img_name im of Some n \<Rightarrow> show_dec i @ '':'' @ c_basename n | None \<Rightarrow> show_dec i)"
    using assms(1) l by (auto simp: entry_name_def archivable_def split: option.splits)
  show "\<exists>save. c_strtok CHR '':'' (entry_name i im) = Some (show_dec i, save)
      \<and> map_option fst (c_strtok CHR '':'' save) = map_option c_basename (img_name im)"
  proof (cases "img_name im")
    case None
    then show ?thesis using strtok_plain [OF nd(1) show_dec_nonempty] by (simp add: en c_strtok_def)
  next
    case (Some n)
    have "CHR '':'' \<notin> set (c_basename n)" using assms(1) Some by (simp add: archivable_def)
    then show ?thesis using Some strtok_plain [OF nd(1) show_dec_nonempty] strtok_plain [OF _ c_basename_nonempty]
      by (simp add: en)
  qed
  show "length (entry_name i im) < 128" by (simp add: entry_name_def)
  show "CHR 0x00 \<notin> set (entry_name i im)" using nd(2) assms(1) by (auto simp: en archivable_def split: option.splits)
  show "entry_name i im \<noteq> TRAILER"
  proof
    assume "entry_name i im = TRAILER"
    then have "hd (entry_name i im) = CHR ''T''" by simp
    moreover have "hd (entry_name i im) = hd (show_dec i)" using show_dec_nonempty by (simp add: en split: option.splits)
    ultimately show False using nd(3) show_dec_nonempty hd_in_set by metis
  qed
qed

lemma strtoul_index:
  assumes "0 < i" "i < 2 ^ 63"
  shows "sint (strtoul_val 0 (show_dec i)) = int i"
proof -
  obtain c cs where c: "show_dec i = c # cs" "c_isdigit c" using show_dec_Cons by blast
  have "c \<noteq> CHR ''0''" using show_dec_hd_not_zero [OF assms(1)] c(1) by simp
  then have p: "scan_prefix 0 (c # cs) = scan_prefix 10 (c # cs)" by (auto simp: scan_prefix_def Let_def split: list.splits)
  have "\<not> c_isspace c" "c \<noteq> CHR ''-''" "c \<noteq> CHR ''+''" using c(2) by (auto simp: c_isdigit_def c_isspace_def)
  then have "scan_number 0 (show_dec i) = scan_number 10 (show_dec i)"
    using p c(1) by (simp add: scan_number_def scan_sign_def)
  then have "c_strtoul 0 (show_dec i) = c_strtoul 10 (show_dec i)" by (simp add: c_strtoul_def)
  also have "\<dots> = (of_nat i, False, Some [])"
    using c_strtoul_dec [of i "[]"] assms(2) by (simp add: no_digit_def)
  finally show ?thesis using assms(2) by (simp add: signed_of_nat take_bit_int_eq_self signed_take_bit_int_eq_self)
qed

subsection \<open>Reading a written archive\<close>

fun archive_body :: "nat \<Rightarrow> nat \<Rightarrow> images \<Rightarrow> u8 list" where
  "archive_body ino i [] = []"
| "archive_body ino i (im # ims) =
     (case img_ptr im of
        None \<Rightarrow> archive_body ino (i + 1) ims
      | Some d \<Rightarrow> entry_bytes ino (entry_name i im) d @ archive_body (ino + 1) (i + 1) ims)"

lemma archive_loop_entry:
  assumes im: "archivable im" "img_ptr im = Some x" and i: "0 < i" "i < MAPPING_SZ" and a4: "4 dvd length pre"
    and d: "d = pre @ entry_bytes ino (entry_name i im) x @ rest" and tbl: "i < length tbl" "tbl ! i = no_image"
  shows "archive_loop d beyond blob tbl (length pre)
    = archive_loop d beyond blob (tbl[i := archived im]) (length (pre @ entry_bytes ino (entry_name i im) x))"
proof -
  let ?name = "entry_name i im"
  have len: "img_len im = length x" "length x < 2 ^ 32" using im by (simp_all add: archivable_def image_ok_def)
  note nm = entry_name_tokens [OF im(1), of i]
  have i1000: "i < 1000" using i(2) by (simp add: MAPPING_SZ_def)
  note v = entry_view [OF len(2) nm(2) [OF i1000] nm(3) [OF i1000] d refl refl]
  obtain save where tok: "c_strtok CHR '':'' ?name = Some (show_dec i, save)"
      "map_option fst (c_strtok CHR '':'' save) = map_option c_basename (img_name im)"
    using nm(1) [OF i1000] by blast
  have id: "sint (strtoul_val 0 (show_dec i)) = int i" using strtoul_index [OF i(1)] i1000 by simp
  have ns: "unat (of_nat (length ?name + 1) :: u32) = length ?name + 1" "unat (of_nat (length x) :: u32) = length x"
    using nm(2) [OF i1000] len(2) by (rule_tac [!] u32_of_nat) simp_all
  have st: "store_entry d beyond tbl i (map_option c_basename (img_name im)) (align4 (length pre + CPIO_HDR + (length ?name + 1))) (length x)
      = tbl[i := archived im]"
    unfolding store_entry_def v(8) [OF a4] using tbl im len by (auto simp: archived_def no_image_def split: option.split)
  have c: "\<not> length d < length pre + CPIO_HDR" "\<not> length d < length pre + CPIO_HDR + (length ?name + 1)"
    "\<not> length d < length pre + CPIO_HDR + length x + (length ?name + 1)"
    "\<not> length d + length beyond < align4 (length pre + CPIO_HDR + (length ?name + 1)) + length x"
    using v(4,5) v(9) [OF a4] by simp_all
  have i': "\<not> int i \<le> 0" "\<not> int MAPPING_SZ \<le> int i" "length ?name + 1 \<noteq> 0" "\<not> 128 < length ?name + 1"
    using i nm(2) [OF i1000] by simp_all
  show ?thesis
    by (subst archive_loop.simps)
      (simp only: c v(1-3) if_False if_True option.case ns Let_def v(6,7) nm(4) [OF i1000]
        tok prod.case id i' nat_int st v(10) [OF a4] simp_thms not_not)
qed

lemma archive_loop_trailer:
  assumes "4 dvd length pre" "d = pre @ entry_bytes ino TRAILER [] @ rest"
  shows "archive_loop d beyond blob tbl (length pre) = Returns (1, released blob, tbl)"
proof -
  have n: "length ([] :: u8 list) < 2 ^ 32" "length TRAILER < 128" "CHR 0x00 \<notin> set TRAILER" by simp_all
  note v = entry_view [OF n assms(2) refl refl]
  have ns: "unat (of_nat (length TRAILER + 1) :: u32) = length TRAILER + 1" "unat (of_nat (length ([] :: u8 list)) :: u32) = length ([] :: u8 list)"
    by simp_all
  have c: "\<not> length d < length pre + CPIO_HDR" "\<not> length d < length pre + CPIO_HDR + (length TRAILER + 1)"
    "\<not> length d < length pre + CPIO_HDR + length ([] :: u8 list) + (length TRAILER + 1)" using v(4,5) by simp_all
  have i': "length TRAILER + 1 \<noteq> 0" "\<not> 128 < length TRAILER + 1" by simp_all
  show ?thesis
    by (subst archive_loop.simps)
      (simp only: c v(1-3) if_False if_True option.case ns Let_def v(6,7) i' simp_thms not_not)
qed

lemma entry_bytes_dvd: "4 dvd length (entry_bytes ino name x)"
  unfolding entry_bytes_length using align4_props(3) by (simp add: dvd_add)

lemma archive_loop_body:
  "list_all archivable ims \<Longrightarrow> 0 < length front \<Longrightarrow> length front + length ims \<le> MAPPING_SZ \<Longrightarrow> 4 dvd length pre \<Longrightarrow>
   d = pre @ archive_body ino (length front) ims @ rest \<Longrightarrow>
   archive_loop d beyond blob (front @ replicate (length ims) no_image) (length pre)
     = archive_loop d beyond blob (front @ map archived ims) (length (pre @ archive_body ino (length front) ims))"
proof (induction ims arbitrary: front pre ino)
  case (Cons im ims)
  have len: "length (front @ [archived im]) = length front + 1" by simp
  have ih: "archive_loop d beyond blob ((front @ [archived im]) @ replicate (length ims) no_image) (length pre')
     = archive_loop d beyond blob ((front @ [archived im]) @ map archived ims)
         (length (pre' @ archive_body ino' (length (front @ [archived im])) ims))"
    if "4 dvd length pre'" "d = pre' @ archive_body ino' (length (front @ [archived im])) ims @ rest" for pre' ino'
    using Cons.prems by (intro Cons.IH that) simp_all
  show ?case
  proof (cases "img_ptr im")
    case None
    then have "archived im = no_image" by (simp add: archived_def)
    then show ?thesis using ih [of pre ino] Cons.prems(4,5) None by simp
  next
    case (Some x)
    let ?e = "entry_bytes ino (entry_name (length front) im) x"
    let ?tbl = "front @ no_image # replicate (length ims) no_image"
    have d: "d = pre @ ?e @ archive_body (ino + 1) (length front + 1) ims @ rest" using Cons.prems(5) Some by simp
    have "archive_loop d beyond blob ?tbl (length pre) = archive_loop d beyond blob (?tbl[length front := archived im]) (length (pre @ ?e))"
      by (rule archive_loop_entry [OF _ Some _ _ Cons.prems(4) d]) (use Cons.prems in \<open>simp_all add: nth_append\<close>)
    also have "?tbl[length front := archived im] = (front @ [archived im]) @ replicate (length ims) no_image"
      by (simp add: list_update_append)
    also have "archive_loop d beyond blob \<dots> (length (pre @ ?e))
        = archive_loop d beyond blob ((front @ [archived im]) @ map archived ims)
            (length ((pre @ ?e) @ archive_body (ino + 1) (length (front @ [archived im])) ims))"
      using Cons.prems(4) entry_bytes_dvd d by (intro ih) (simp_all add: dvd_add)
    finally show ?thesis using Some by simp
  qed
qed simp

subsection \<open>Writing an archive\<close>

lemma f_write_appends: "f_write h p b = (True, h') \<Longrightarrow> h' = h_append h p b"
  by (auto simp: f_write_def split: if_splits)

lemma h_append_nil: "h_files h p \<noteq> None \<Longrightarrow> h_append h p [] = h"
  by (auto simp: h_append_def fun_upd_idem)

lemma h_append_exists [simp]: "\<exists>y. h_files (h_append h p b) p = Some y"
  by (simp add: h_append_def)

lemma f_write_all_appends:
  "f_write_all h p bs = (True, h') \<Longrightarrow> h_files h p \<noteq> None \<Longrightarrow> h' = h_append h p (concat bs)"
proof (induction bs arbitrary: h)
  case (Cons b bs)
  show ?case
  proof (cases "b = []")
    case False
    then obtain h1 where "f_write h p b = (True, h1)" "f_write_all h1 p bs = (True, h')"
      using Cons.prems(1) by (auto split: prod.splits if_splits)
    then show ?thesis using Cons.IH [of h1] f_write_appends [of h p b h1] by (simp add: h_append_append)
  qed (use Cons in simp)
qed (simp add: h_append_nil)

lemma write_entry_appends:
  "sahara_archive_write_entry h out ino name x = (True, h') \<Longrightarrow> h_files h out \<noteq> None \<Longrightarrow>
   h' = h_append h out (entry_bytes ino name x)"
  by (auto simp: sahara_archive_write_entry_def Let_def entry_bytes_def simp del: f_write_all.simps split: if_splits
      dest!: f_write_all_appends)

lemma write_entries_appends:
  "write_entries h out ino i ims = (True, ino', h') \<Longrightarrow> h_files h out \<noteq> None \<Longrightarrow> list_all archivable ims \<Longrightarrow>
   h' = h_append h out (archive_body ino i ims)"
proof (induction ims arbitrary: h ino i)
  case (Cons im ims)
  show ?case
  proof (cases "img_ptr im")
    case (Some x)
    have len: "img_len im = length x" using Cons.prems(3) Some by (simp add: archivable_def image_ok_def)
    obtain h1 where h1: "sahara_archive_write_entry h out ino (entry_name i im) x = (True, h1)"
        "write_entries h1 out (ino + 1) (i + 1) ims = (True, ino', h')"
      using Cons.prems(1) Some len by (auto split: prod.splits if_splits)
    have "h1 = h_append h out (entry_bytes ino (entry_name i im) x)" by (rule write_entry_appends [OF h1(1) Cons.prems(2)])
    then show ?thesis using Cons.IH [OF h1(2)] Cons.prems(3) Some by (simp add: h_append_append)
  qed (use Cons in auto)
qed (simp add: h_append_nil)

lemma entry_magic:
  assumes "length x < 2 ^ 32" "length name + 1 < 2 ^ 32"
  shows "take 6 (entry_bytes n name x @ r) = bytes_of CPIO_MAGIC \<and> CPIO_HDR \<le> length (entry_bytes n name x @ r)"
  using archive_header_fields(1) [OF assms, of n] by (simp add: entry_bytes_def CPIO_HDR_def)

lemma archive_magic:
  "list_all archivable ims \<Longrightarrow>
   take 6 (archive_body m k ims @ entry_bytes n TRAILER []) = bytes_of CPIO_MAGIC
   \<and> CPIO_HDR \<le> length (archive_body m k ims @ entry_bytes n TRAILER [])"
proof (induction ims arbitrary: m k)
  case Nil
  then show ?case using entry_magic [of "[]" TRAILER n "[]"] by simp
next
  case (Cons im ims)
  show ?case
  proof (cases "img_ptr im")
    case (Some x)
    have "length x < 2 ^ 32" "length (entry_name k im) + 1 < 2 ^ 32"
      using Cons.prems Some by (simp_all add: archivable_def image_ok_def entry_name_def)
    from entry_magic [OF this, of m "archive_body (m + 1) (k + 1) ims @ entry_bytes n TRAILER []"]
    show ?thesis by (simp only: archive_body.simps Some option.case append_assoc)
  qed (use Cons in simp)
qed

lemma archive_body_dvd: "4 dvd length (archive_body m k ims)"
  by (induction ims arbitrary: m k) (auto simp: entry_bytes_dvd dvd_add split: option.split)

lemma archive_reads:
  assumes "list_all archivable ims" "length ims + 1 = MAPPING_SZ" "c = archive_body 1 1 ims @ entry_bytes n TRAILER []"
    "img_ptr blob = Some c" "img_len blob = length c"
  shows "decode_programmer_archive beyond blob (replicate MAPPING_SZ no_image)
    = Returns (1, released blob, no_image # map archived ims)"
proof -
  have tbl: "replicate MAPPING_SZ no_image = [no_image] @ replicate (length ims) no_image"
    unfolding assms(2) [symmetric] by simp
  have "archive_loop c beyond blob (replicate MAPPING_SZ no_image) 0
      = archive_loop c beyond blob ([no_image] @ map archived ims) (length (archive_body 1 1 ims))"
    unfolding tbl using archive_loop_body [OF assms(1), of "[no_image]" "[]" c 1 "entry_bytes n TRAILER []" beyond blob] assms(2,3) by simp
  also have "\<dots> = Returns (1, released blob, [no_image] @ map archived ims)"
    by (rule archive_loop_trailer [OF archive_body_dvd, where ino = n and rest = "[]"]) (simp add: assms(3))
  finally show ?thesis
    using archive_magic [OF assms(1), of 1 1 n] assms(3-5) by (simp add: decode_programmer_archive_def)
qed

text \<open>
  C16: An archive brings back the images. Whenever \<open>sahara_archive_write\<close> reports success for a table of
  images whose sizes fit 32 bits and whose file names are short and free of colons, reading the file
  it left with \<open>decode_programmer_archive\<close> into an empty table succeeds and restores every image under
  its number: the same bytes, the same length, the last part of its name; numbers without an image stay
  empty, and nothing behind the file is looked at.
\<close>

theorem sahara_archive_roundtrip:
  assumes "sahara_archive_write fclose_ok h filename imgs = (0, h')" "length imgs = MAPPING_SZ"
    "list_all archivable (tl imgs)"
  shows "\<exists>c. h_files h' filename = Some c \<and>
    decode_programmer_archive beyond \<lparr>img_name = nm, img_ptr = Some c, img_len = length c\<rparr> (replicate MAPPING_SZ no_image)
      = Returns (1, \<lparr>img_name = nm, img_ptr = None, img_len = 0\<rparr>, no_image # map archived (tl imgs))"
proof -
  let ?ims = "tl imgs"
  obtain h1 ino h2 where w: "h_create h filename = Some h1" "write_entries h1 filename 1 1 ?ims = (True, ino, h2)"
      "sahara_archive_write_entry h2 filename ino TRAILER [] = (True, h')"
    using assms(1) by (auto simp: sahara_archive_write_def split: if_splits option.splits prod.splits)
  have h1: "h_files h1 filename = Some []" using w(1) by (auto simp: h_create_def split: if_splits)
  then have h2: "h2 = h_append h1 filename (archive_body 1 1 ?ims)"
    using write_entries_appends [OF w(2) _ assms(3)] by simp
  then have "h' = h_append h2 filename (entry_bytes ino TRAILER [])" using write_entry_appends [OF w(3)] by simp
  then have "h' = h_append h1 filename (archive_body 1 1 ?ims @ entry_bytes ino TRAILER [])"
    by (simp add: h2 h_append_append)
  then have c: "h_files h' filename = Some (archive_body 1 1 ?ims @ entry_bytes ino TRAILER [])" using h1 by (simp add: h_append_def)
  let ?c = "archive_body 1 1 ?ims @ entry_bytes ino TRAILER []"
  show ?thesis using c archive_reads [OF assms(3), of ?c ino "\<lparr>img_name = nm, img_ptr = Some ?c, img_len = length ?c\<rparr>" beyond] assms(2)
    by (intro exI [of _ ?c]) (simp add: released_def MAPPING_SZ_def)
qed

text \<open>One image under number 13.\<close>

definition ex_programmer :: images where
  "ex_programmer = replicate 13 no_image @ \<lparr>img_name = Some ''out/prog.elf'', img_ptr = Some [1, 2, 3], img_len = 3\<rparr>
     # replicate 114 no_image"

lemma write_skip: "write_entries h out ino i (replicate n no_image @ ims) = write_entries h out ino (i + n) ims"
  by (induction n arbitrary: i) (simp_all add: no_image_def)

lemma f_write_all_ok:
  "h_fwrite h = (\<lambda>p n. True) \<Longrightarrow> \<exists>h'. f_write_all h p bs = (True, h') \<and> h_fwrite h' = (\<lambda>p n. True)"
proof (induction bs arbitrary: h)
  case (Cons b bs)
  have "h_fwrite (h_append h p b) = (\<lambda>p n. True)" using Cons.prems by (simp add: h_append_def)
  from Cons.IH [OF this] Cons.IH [OF Cons.prems] show ?case using Cons.prems by (simp add: f_write_def)
qed simp

lemma sahara_archive_roundtrip_witness:
  "\<exists>h'. sahara_archive_write True (ex_host\<lparr>h_open := \<lambda>_. True, h_fwrite := \<lambda>_ _. True\<rparr>) ''a.cpio'' ex_programmer = (0, h')
    \<and> (\<exists>c. h_files h' ''a.cpio'' = Some c \<and>
         decode_programmer_archive [] \<lparr>img_name = None, img_ptr = Some c, img_len = length c\<rparr> (replicate MAPPING_SZ no_image)
           = Returns (1, \<lparr>img_name = None, img_ptr = None, img_len = 0\<rparr>, no_image # map archived (tl ex_programmer)))"
proof -
  let ?h = "ex_host\<lparr>h_open := \<lambda>_. True, h_fwrite := \<lambda>_ _. True\<rparr>"
  let ?h1 = "?h\<lparr>h_files := (h_files ?h)(''a.cpio'' \<mapsto> [])\<rparr>"
  let ?im = "\<lparr>img_name = Some ''out/prog.elf'', img_ptr = Some [1, 2, 3 :: u8], img_len = 3\<rparr>"
  have tl: "tl ex_programmer = replicate 12 no_image @ ?im # replicate 114 no_image @ []"
    by (simp add: ex_programmer_def numeral_eq_Suc)
  have nm: "length (entry_name 13 ?im) < 128" by (simp add: entry_name_def)
  obtain h2 where h2: "sahara_archive_write_entry ?h1 ''a.cpio'' 1 (entry_name 13 ?im) [1, 2, 3] = (True, h2)" "h_fwrite h2 = (\<lambda>p n. True)"
    using f_write_all_ok [of ?h1 "''a.cpio''"] nm by (auto simp: sahara_archive_write_entry_def Let_def simp del: f_write_all.simps)
  obtain h3 where h3: "sahara_archive_write_entry h2 ''a.cpio'' 2 TRAILER [] = (True, h3)"
    using f_write_all_ok [OF h2(2), of "''a.cpio''"] by (auto simp: sahara_archive_write_entry_def Let_def simp del: f_write_all.simps)
  have "write_entries ?h1 ''a.cpio'' 1 1 (tl ex_programmer) = (True, 2, h2)"
    unfolding tl write_skip using h2(1) write_skip [of h2 "''a.cpio''" 2 14 114 "[]"] by (simp add: numeral_2_eq_2)
  moreover have "list_ex (\<lambda>im. img_ptr im \<noteq> None) (tl ex_programmer)" unfolding tl by simp
  ultimately have w: "sahara_archive_write True ?h ''a.cpio'' ex_programmer = (0, h3)"
    using h3 by (simp add: sahara_archive_write_def h_create_def)
  have "c_basename ''out/prog.elf'' = ''prog.elf''" by (simp add: c_basename_def strip_slashes_def)
  then have "archivable ?im" by (simp add: archivable_def image_ok_def)
  moreover have "archivable no_image" by (simp add: archivable_def image_ok_def no_image_def)
  ultimately have a: "list_all archivable (tl ex_programmer)" unfolding tl by (simp add: list_all_iff)
  have "length ex_programmer = MAPPING_SZ" by (simp add: ex_programmer_def MAPPING_SZ_def)
  from sahara_archive_roundtrip [OF w this a, of "[]" None] w show ?thesis by blast
qed

subsection \<open>The image table\<close>

lemma store_entry_ok:
  "images_ok imgs \<Longrightarrow> i < MAPPING_SZ \<Longrightarrow> n = 0 \<or> q + n \<le> length d + length beyond \<Longrightarrow>
   images_ok (store_entry d beyond imgs i nm q n)"
  unfolding store_entry_def by (rule store_image_ok) (auto simp: image_ok_def sub_buf_def)

lemma free_ok: "images_ok imgs \<Longrightarrow> images_ok (sahara_images_free imgs MAPPING_SZ)"
  by (rule images_free_ok) simp_all

text \<open>An archive ends in an error, at its trailer, or goes on behind an entry.\<close>

lemma align4_up: "off < align4 (align4 (off + CPIO_HDR + n) + m)"
  using align4_props(1) [of "off + CPIO_HDR + n"] align4_props(1) [of "align4 (off + CPIO_HDR + n) + m"]
  by (simp add: CPIO_HDR_def)

text \<open>Slot 0 has no image identifier: nothing is ever stored there.\<close>

definition loaded_ok :: "images \<Rightarrow> int \<Rightarrow> images \<Rightarrow> bool" where
  "loaded_ok imgs r imgs' \<longleftrightarrow> images_ok imgs' \<and> (0 \<le> r \<longrightarrow> imgs' ! 0 = imgs ! 0)"

lemma loaded_ok_refl [simp]: "loaded_ok imgs r imgs \<longleftrightarrow> images_ok imgs"
  by (simp add: loaded_ok_def)

lemma loaded_ok_free: "images_ok imgs \<Longrightarrow> r < 0 \<Longrightarrow> loaded_ok imgs' r (sahara_images_free imgs MAPPING_SZ)"
  by (simp add: loaded_ok_def free_ok)

lemma loaded_ok_load:
  "loaded_ok (store_image imgs k im) r imgs' \<Longrightarrow> 0 < k \<Longrightarrow> images_ok imgs \<Longrightarrow> loaded_ok imgs r imgs'"
  using store_image_0 [of k imgs im] by (cases imgs) (auto simp: loaded_ok_def images_ok_def)

text \<open>An archive ends in an error, at its trailer, or goes on behind an entry with an image number.\<close>

lemma archive_loop_cases:
  assumes "archive_loop d beyond blob imgs off = v"
  obtains (exit) "v = Exits"
  | (fault) "v = Faults" "length beyond < 3"
  | (err) "v = Returns (-1, released blob, sahara_images_free imgs MAPPING_SZ)"
  | (trailer) "v = Returns (1, released blob, imgs)"
  | (entry) i nm q n off' where "0 < i" "i < MAPPING_SZ" "n = 0 \<or> q + n \<le> length d + length beyond"
      "length d - off' < length d - off" "archive_loop d beyond blob (store_entry d beyond imgs i nm q n) off' = v"
proof -
  have up: "length d - align4 (align4 (off + CPIO_HDR + n) + m) < length d - off" if "off + CPIO_HDR \<le> length d" for n m
    using align4_up [of off n m] that by (auto simp: CPIO_HDR_def intro: diff_less_mono2)
  have near: "length d + length beyond < align4 k + n \<Longrightarrow> k + n \<le> length d \<Longrightarrow> length beyond < 3" for k n
    using align4_props(2) [of k] by linarith
  show thesis
    using assms
    apply (subst (asm) archive_loop.simps)
    apply (simp add: archive_err_def Let_def split: if_splits option.splits prod.splits)
               apply (erule exit [OF sym] err [OF sym] trailer [OF sym])+
     apply (erule fault [OF sym])
     apply (rule near, simp, simp)
    apply (erule entry [rotated 4])
       apply (simp_all add: nat_less_iff not_le not_less up)
    done
qed

lemma archive_loop_ok:
  "images_ok imgs \<Longrightarrow> archive_loop d beyond blob imgs off = Returns (r, blob', imgs') \<Longrightarrow>
   loaded_ok imgs r imgs' \<and> (r = 1 \<or> r = -1)"
proof (induction "length d - off" arbitrary: imgs off rule: less_induct)
  case less
  from less.prems(2) show ?case
  proof (cases rule: archive_loop_cases)
    case (entry i nm q n off')
    from less.hyps [OF entry(4) store_entry_ok [OF less.prems(1) entry(2,3)] entry(5)]
    show ?thesis using loaded_ok_load [OF _ entry(1) less.prems(1)] by (auto simp: store_entry_def)
  qed (use less.prems(1) loaded_ok_free in auto)
qed

lemma archive_loop_no_fault:
  "3 \<le> length beyond \<Longrightarrow> archive_loop d beyond blob imgs off \<noteq> Faults"
proof (induction "length d - off" arbitrary: imgs off rule: less_induct)
  case less
  show ?case
  proof
    assume "archive_loop d beyond blob imgs off = Faults"
    then show False
    proof (cases rule: archive_loop_cases)
      case (entry i nm q n off')
      from less.hyps [OF entry(4) less.prems] entry(5) show False by metis
    qed (use less.prems in simp_all)
  qed
qed

lemma config_images_ok:
  "config_images resolve fs base e imgs nodes = (ok, imgs') \<Longrightarrow> images_ok imgs \<Longrightarrow>
   images_ok imgs' \<and> imgs' ! 0 = imgs ! 0"
proof (induction resolve fs base e imgs nodes rule: config_images.induct)
  case (2 resolve fs base errors imgs node nodes)
  show ?case
  proof (cases "xn_element node \<and> xn_name node = ''image''")
    case True
    obtain v e1 where v: "attr_as_unsigned node ''image_id'' errors = (v, e1)" by fastforce
    obtain p e2 where p: "attr_as_string node ''image_path'' e1 = (p, e2)" by fastforce
    have 0: "imgs \<noteq> []" using 2(4) by (auto simp: images_ok_def MAPPING_SZ_def)
    show ?thesis
      using 2 True store_image_ok [OF 2(4), of "unat v"] store_image_0 [OF _ 0, of "unat v"] load_sahara_image_ok [of None fs]
      by (auto simp: v p unat_gt_0 not_le split: if_splits option.splits)
  qed (use 2 in auto)
qed simp

lemma decode_sahara_config_ok:
  assumes "decode_sahara_config doc resolve fs blob imgs = (r, blob', imgs')" "images_ok imgs"
  shows "loaded_ok imgs r imgs' \<and> (r = 0 \<and> blob' = blob \<or> r = 1 \<or> r = -1)"
  using assms
  by (auto simp: decode_sahara_config_def Let_def loaded_ok_free loaded_ok_def config_images_ok free_ok
      split: option.splits if_splits prod.splits list.splits bool.splits dest: config_images_ok)

lemma mapping_index:
  assumes "\<not> sint (v :: u64) \<le> 0" "\<not> int MAPPING_SZ \<le> sint v"
  shows "0 < unat v" "unat v < MAPPING_SZ"
proof -
  have "uint v = sint v"
    unfolding uint_sint using assms by (simp add: take_bit_int_eq_self MAPPING_SZ_def)
  then have "int (unat v) = sint v" by simp
  then show "0 < unat v" "unat v < MAPPING_SZ" using assms by linarith+
qed

lemma decode_pairs_ok:
  "decode_pairs after fs imgs s = (r, imgs') \<Longrightarrow> images_ok imgs \<Longrightarrow> loaded_ok imgs r imgs' \<and> (r = 0 \<or> r = -1)"
proof (induction after fs imgs s rule: decode_pairs.induct)
  case (1 after fs imgs s)
  from 1(2,3) show ?case
    by (subst (asm) decode_pairs.simps)
      (auto simp: Let_def split: list.splits prod.splits option.splits if_splits
        dest!: 1(1) intro: store_image_ok mapping_index load_sahara_image_ok loaded_ok_load)
qed

lemma decode_programmer_leaves:
  assumes "images_ok imgs" "decode_programmer beyond after doc fs s imgs = Returns (r, imgs')"
  shows "(r = 0 \<or> r = 1 \<or> r = -1) \<and> images_ok imgs' \<and> (0 \<le> r \<longrightarrow> imgs' ! 0 = imgs ! 0)"
proof (cases "case snd (snd (c_strtoul 0 s)) of Some (c # _) \<Rightarrow> c = CHR '':'' | _ \<Rightarrow> False")
  case True
  with assms(2) have "decode_pairs after fs imgs s = (r, imgs')" by (simp add: decode_programmer_def)
  from decode_pairs_ok [OF this assms(1)] show ?thesis by (auto simp: loaded_ok_def)
next
  case False
  show ?thesis
  proof (cases "load_sahara_image None fs s")
    case None
    with False assms show ?thesis by (simp add: decode_programmer_def)
  next
    case (Some ar)
    have direct: "images_ok im \<Longrightarrow> images_ok (im[13 := ar])" for im by (rule images_update_ok [OF _ Some])
    show ?thesis
      using assms False Some
      by (auto simp: decode_programmer_def decode_programmer_archive_def loaded_ok_def SAHARA_ID_EHOSTDL_IMG_def
          split: loaded.splits option.splits if_splits prod.splits
          intro!: direct dest!: decode_sahara_config_ok archive_loop_ok [rotated])
  qed
qed

lemma decode_programmer_no_fault:
  "3 \<le> length beyond \<Longrightarrow> decode_programmer beyond after doc fs s imgs \<noteq> Faults"
  using archive_loop_no_fault [of beyond]
  by (auto simp: decode_programmer_def decode_programmer_archive_def split: loaded.splits option.splits if_splits prod.splits list.splits)



subsection \<open>The memory behind an archive\<close>

lemma store_entry_inside:
  "q + n \<le> length d \<Longrightarrow> store_entry d b1 imgs i nm q n = store_entry d b2 imgs i nm q n"
  by (simp add: store_entry_def sub_buf_def)

lemma store_entry_length: "i < length imgs \<Longrightarrow> length (store_entry d b imgs i nm q n) = length imgs"
  by (simp add: store_entry_def)

lemma free_full: "length imgs = MAPPING_SZ \<Longrightarrow> sahara_images_free imgs MAPPING_SZ = replicate MAPPING_SZ no_image"
  by (simp add: sahara_images_free_def)

lemma archive_loop_outside:
  "length d < off \<Longrightarrow> length imgs = MAPPING_SZ \<Longrightarrow>
   archive_loop d b blob imgs off = Returns (-1, released blob, replicate MAPPING_SZ no_image)"
  by (subst archive_loop.simps) (simp add: archive_err_def free_full)

text \<open>A copy that leaves the blob is followed by a header that does.\<close>

lemma archive_loop_step:
  assumes "length imgs = MAPPING_SZ" "i < MAPPING_SZ"
    and "\<And>imgs'. length imgs' = MAPPING_SZ \<Longrightarrow> off < off' \<Longrightarrow> off < length d \<Longrightarrow>
      archive_loop d b1 blob imgs' off' = archive_loop d b2 blob imgs' off'"
    and "off' = align4 (q + n)" "off < off'" "off < length d"
  shows "archive_loop d b1 blob (store_entry d b1 imgs i nm q n) off'
    = archive_loop d b2 blob (store_entry d b2 imgs i nm q n) off'"
proof (cases "q + n \<le> length d")
  case True
  from store_entry_inside [OF this, of b1 imgs i nm b2] assms(1-3,5,6) show ?thesis by (simp add: store_entry_length)
next
  case False
  then have "length d < off'" using align4_props(1) [of "q + n"] assms(4) by simp
  then show ?thesis using assms(1,2) by (simp add: archive_loop_outside store_entry_length)
qed

lemma archive_loop_beyond:
  assumes b: "3 \<le> length b1" "3 \<le> length b2"
  shows "length imgs = MAPPING_SZ \<Longrightarrow> archive_loop d b1 blob imgs off = archive_loop d b2 blob imgs off"
proof (induction "length d - off" arbitrary: imgs off rule: less_induct)
  case less
  have step: "archive_loop d b1 blob (store_entry d b1 imgs i nm (align4 (off + CPIO_HDR + ns)) n)
       (align4 (align4 (off + CPIO_HDR + ns) + n))
    = archive_loop d b2 blob (store_entry d b2 imgs i nm (align4 (off + CPIO_HDR + ns)) n)
       (align4 (align4 (off + CPIO_HDR + ns) + n))"
    if "\<not> length d < off + CPIO_HDR" "i < MAPPING_SZ" for i nm ns n
    using that align4_up
    by (intro archive_loop_step [OF less.prems _ less.hyps]) (auto simp: CPIO_HDR_def diff_less_mono2)
  have near: "\<not> length d + length b1 < align4 k + n" "\<not> length d + length b2 < align4 k + n" if "k + n \<le> length d" for k n
    using align4_props(2) [of k] that b by linarith+
  have near: "\<not> length d < off + CPIO_HDR + n + ns \<Longrightarrow> \<not> length d + length b < align4 (off + CPIO_HDR + ns) + n"
    if "3 \<le> length b" for b :: "u8 list" and ns n
    using align4_props(2) [of "off + CPIO_HDR + ns"] that by linarith
  show ?case
    by (subst (1 2) archive_loop.simps)
      (simp add: Let_def step near b nat_less_iff not_le split: option.split prod.split)
qed

text \<open>
  Memory behind an archive never gets into the images. The copy of an entry's data starts at the next
  multiple of four, up to three bytes behind what the bounds check has covered, so it may read past the
  end of a truncated file; but whatever it finds there, \<open>decode_programmer_archive\<close> returns the same
  value and leaves the same table of images, because the header that has to follow is then missing and
  the whole table is freed.
\<close>

theorem decode_programmer_archive_beyond:
  assumes "length imgs = MAPPING_SZ" "3 \<le> length b1" "3 \<le> length b2"
  shows "decode_programmer_archive b1 blob imgs = decode_programmer_archive b2 blob imgs"
  unfolding decode_programmer_archive_def archive_loop_beyond [OF assms(2,3,1)] ..

text \<open>An archive cut off behind one byte of data: the data are copied from two bytes further on.\<close>

definition cut_archive :: sahara_image where
  "cut_archive = (let d = bytes_of (archive_header 1 1 4) @ bytes_of ''1:a'' @ [0, 7]
     in \<lparr>img_name = None, img_ptr = Some d, img_len = length d\<rparr>)"

lemma decode_programmer_archive_beyond_witness:
  "decode_programmer_archive [0, 0, 0] cut_archive (replicate MAPPING_SZ no_image)
    = decode_programmer_archive [255, 255, 255] cut_archive (replicate MAPPING_SZ no_image)"
  by (rule decode_programmer_archive_beyond) simp_all

end
