(* ===== verification/Flashmap.thy ===== *)
theory Flashmap
  imports Program Json
begin

text \<open>
  \<open>src/flashmap.c\<close>: flashmaps, JSON documents that name for each layout of a product the programmer
  images and, per storage device, the program and patch files. What the loader asks of the system is
  the record \<open>fm_env\<close>: the files on disk, whether a path exists, the archive a file is (if it is one),
  and the root element and children libxml2 finds in a document.
\<close>

record fm_env =
  fm_fs :: file_system
  fm_exists :: "string \<Rightarrow> bool"
  fm_zip :: "string \<Rightarrow> file_system option"
  fm_xml :: "u8 list \<Rightarrow> (string \<times> xml_node list) option"

subsection \<open>Programmers\<close>

text \<open>\<open>snprintf\<close> into \<open>char path[PATH_MAX]\<close>.\<close>

definition path_fit :: "string \<Rightarrow> string" where
  "path_fit p = take (PATH_MAX - 1) p"

definition flashmap_resolve_path :: "fm_env \<Rightarrow> string \<Rightarrow> string option \<Rightarrow> string" where
  "flashmap_resolve_path E filename incdir =
     (case incdir of
        Some d \<Rightarrow> let path = path_fit (d @ ''/'' @ filename) in
          if fm_exists E path then path else path_fit filename
      | None \<Rightarrow> path_fit filename)"

definition flashmap_get_legacy_programmer ::
  "fm_env \<Rightarrow> file_system option \<Rightarrow> json_value option \<Rightarrow> images \<Rightarrow> string option \<Rightarrow> int \<times> images" where
  "flashmap_get_legacy_programmer E archive layout imgs incdir =
     (let programmers = json_get_child layout (bytes_of ''programmer'') in
      if programmers = None \<or> json_count_children programmers \<noteq> 1 then (-1, imgs)
      else case json_get_element_string programmers 0 of
        None \<Rightarrow> (-1, imgs)
      | Some filename \<Rightarrow>
          (case load_sahara_image archive (fm_fs E) (flashmap_resolve_path E (chars_of filename) incdir) of
             None \<Rightarrow> (-1, imgs)
           | Some im \<Rightarrow> (0, imgs[SAHARA_ID_EHOSTDL_IMG := im])))"

text \<open>The image number a key of the programmer map stands for.\<close>

definition programmer_id :: "u8 list \<Rightarrow> nat option" where
  "programmer_id key =
     (case c_strtoul 0 (chars_of (c_text key)) of
        (image_id, erange, Some []) \<Rightarrow>
          if erange \<or> image_id = 0 \<or> unat image_id \<ge> MAPPING_SZ then None else Some (unat image_id)
      | _ \<Rightarrow> None)"

fun programmer_map_loop ::
  "fm_env \<Rightarrow> file_system option \<Rightarrow> string option \<Rightarrow> images \<Rightarrow> (u8 list \<times> json_value) list \<Rightarrow> int \<times> images" where
  "programmer_map_loop E archive incdir imgs [] = (0, imgs)"
| "programmer_map_loop E archive incdir imgs ((key, v) # entries) =
     (case programmer_id key of
        None \<Rightarrow> (-1, imgs)
      | Some image_id \<Rightarrow>
          (case v of
             JSON_STRING s \<Rightarrow>
               (case load_sahara_image archive (fm_fs E) (flashmap_resolve_path E (chars_of (c_text s)) incdir) of
                  None \<Rightarrow> (-1, imgs)
                | Some im \<Rightarrow> programmer_map_loop E archive incdir (store_image imgs image_id im) entries)
           | _ \<Rightarrow> (-1, imgs)))"

definition flashmap_get_programmer_map ::
  "fm_env \<Rightarrow> file_system option \<Rightarrow> json_value option \<Rightarrow> images \<Rightarrow> string option \<Rightarrow> int \<times> images" where
  "flashmap_get_programmer_map E archive layout imgs incdir =
     (case json_get_child layout (bytes_of ''programmer'') of
        Some (JSON_OBJECT entries) \<Rightarrow>
          (case programmer_map_loop E archive incdir imgs entries of
             (ret, imgs') \<Rightarrow> if ret \<noteq> 0 then (ret, imgs') else if entries = [] then (-1, imgs') else (0, imgs'))
      | _ \<Rightarrow> (-1, imgs))"

definition flashmap_get_programmers ::
  "fm_env \<Rightarrow> file_system option \<Rightarrow> json_value option \<Rightarrow> images \<Rightarrow> string option \<Rightarrow> bool \<Rightarrow> int \<times> images" where
  "flashmap_get_programmers E archive layout imgs incdir uses_programmer_map =
     (if uses_programmer_map then flashmap_get_programmer_map E archive layout imgs incdir
      else flashmap_get_legacy_programmer E archive layout imgs incdir)"

subsection \<open>Programmables\<close>

definition flashmap_load_xml ::
  "fm_env \<Rightarrow> firehose_op list \<Rightarrow> file_system option \<Rightarrow> string \<Rightarrow> bool \<Rightarrow> string option \<Rightarrow> int \<times> firehose_op list" where
  "flashmap_load_xml E ops archive filename is_nand incdir =
     (case qdl_file_open archive (fm_fs E) filename of
        None \<Rightarrow> (-1, ops)
      | Some file \<Rightarrow>
          (case fst (qdl_file_load file) of
             None \<Rightarrow> (-1, ops)
           | Some xml \<Rightarrow>
               if length xml > 2 ^ 31 - 1 then (-1, ops)
               else case fm_xml E xml of
                 None \<Rightarrow> (-1, ops)
               | Some (rootname, nodes) \<Rightarrow>
                   if rootname = ''patches'' then patch_load_xml ops nodes
                   else if rootname = ''data'' then
                     program_load_xml ops nodes archive (fm_fs E) filename is_nand False (\<lambda>_. None) (fm_exists E) incdir
                   else (-1, ops)))"

text \<open>The files of a programmable, by index.\<close>

fun load_files ::
  "fm_env \<Rightarrow> file_system option \<Rightarrow> string option \<Rightarrow> bool \<Rightarrow> json_value \<Rightarrow> firehose_op list \<Rightarrow> nat list
    \<Rightarrow> int \<times> firehose_op list" where
  "load_files E archive incdir is_nand files ops [] = (0, ops)"
| "load_files E archive incdir is_nand files ops (idx # is) =
     (case json_get_element_string (Some files) idx of
        None \<Rightarrow> (-1, ops)
      | Some file \<Rightarrow>
          (case flashmap_load_xml E ops archive (flashmap_resolve_path E (chars_of file) incdir) is_nand incdir of
             (ret, ops') \<Rightarrow> if ret \<noteq> 0 then (ret, ops') else load_files E archive incdir is_nand files ops' is))"

definition load_programmable ::
  "fm_env \<Rightarrow> file_system option \<Rightarrow> string option \<Rightarrow> firehose_op list \<Rightarrow> json_value option \<Rightarrow> int \<times> firehose_op list" where
  "load_programmable E archive incdir ops programmable =
     (case (json_get_string programmable (bytes_of ''memory''), json_get_number programmable (bytes_of ''slot''),
            json_get_child programmable (bytes_of ''files'')) of
        (Some memory, Some slot, Some files) \<Rightarrow>
          (let is_nand = (chars_of memory = ''nand'');
               op = (firehose_alloc_op FIREHOSE_OP_CONFIGURE)\<lparr>op_storage_type := decode_storage_type (Some (chars_of memory))\<rparr>;
               file_count = json_count_children (Some files)
           in if file_count < 0 then (-1, ops @ [op])
              else load_files E archive incdir is_nand files (ops @ [op]) [0..<nat file_count])
      | _ \<Rightarrow> (-1, ops))"

fun programmables_loop ::
  "fm_env \<Rightarrow> file_system option \<Rightarrow> string option \<Rightarrow> json_value option \<Rightarrow> firehose_op list \<Rightarrow> nat list
    \<Rightarrow> int \<times> firehose_op list" where
  "programmables_loop E archive incdir list ops [] = (0, ops)"
| "programmables_loop E archive incdir list ops (i # is) =
     (case load_programmable E archive incdir ops (json_get_element_object list i) of
        (ret, ops') \<Rightarrow> if ret \<noteq> 0 then (ret, ops') else programmables_loop E archive incdir list ops' is)"

definition flashmap_enumerate_programmables ::
  "fm_env \<Rightarrow> json_value option \<Rightarrow> firehose_op list \<Rightarrow> file_system option \<Rightarrow> string option \<Rightarrow> int \<times> firehose_op list" where
  "flashmap_enumerate_programmables E list ops archive incdir =
     (if json_count_children list \<le> 0 then (-1, ops)
      else programmables_loop E archive incdir list ops [0..<nat (json_count_children list)])"

subsection \<open>The specifier\<close>

definition storage_bit :: "storage_type \<Rightarrow> u32" where
  "storage_bit t = push_bit (case t of QDL_STORAGE_UNKNOWN \<Rightarrow> 0 | QDL_STORAGE_EMMC \<Rightarrow> 1 | QDL_STORAGE_NAND \<Rightarrow> 2
     | QDL_STORAGE_UFS \<Rightarrow> 3 | QDL_STORAGE_NVME \<Rightarrow> 4 | QDL_STORAGE_SPINOR \<Rightarrow> 5) 1"

fun storage_filter_loop :: "u32 \<Rightarrow> string list \<Rightarrow> u32 option" where
  "storage_filter_loop type_filter [] = Some type_filter"
| "storage_filter_loop type_filter (tmp # tmps) =
     (let type = decode_storage_type (Some tmp) in
      if type = QDL_STORAGE_UNKNOWN then None
      else storage_filter_loop (type_filter OR storage_bit type) tmps)"

definition flashmap_decode_storage_filter :: "string \<Rightarrow> u32 option" where
  "flashmap_decode_storage_filter storage_filter = storage_filter_loop 0 (strtok_comma storage_filter)"

text \<open>The storage filter (0 for none) and the layout selector.\<close>

definition flashmap_decode_specifier :: "string option \<Rightarrow> (u32 \<times> string option) option" where
  "flashmap_decode_specifier specifier =
     (case specifier of
        None \<Rightarrow> Some (0, None)
      | Some s \<Rightarrow>
          (case dropWhile (\<lambda>c. c \<noteq> CHR ''/'') s of
             c # storage_filter \<Rightarrow>
               let selector = takeWhile (\<lambda>c. c \<noteq> CHR ''/'') s in
               if selector = [] \<or> storage_filter = [] then None
               else map_option (\<lambda>f. (f, Some selector)) (flashmap_decode_storage_filter storage_filter)
           | [] \<Rightarrow>
               if decode_storage_type (Some s) \<noteq> QDL_STORAGE_UNKNOWN \<or> CHR '','' \<in> set s
               then map_option (\<lambda>f. (f, None)) (flashmap_decode_storage_filter s)
               else Some (0, Some s)))"

text \<open>The layout with the selected name among those from index \<open>i\<close> on.\<close>

fun find_layout :: "json_value option \<Rightarrow> string \<Rightarrow> nat list \<Rightarrow> json_value option" where
  "find_layout layouts selector [] = None"
| "find_layout layouts selector (i # is) =
     (let layout = json_get_element_object layouts i in
      if json_get_string layout (bytes_of ''name'') = Some (bytes_of selector) then layout
      else find_layout layouts selector is)"

definition flashmap_select_layout :: "json_value option \<Rightarrow> string option \<Rightarrow> json_value option" where
  "flashmap_select_layout layouts selector =
     (let count = json_count_children layouts in
      if count \<le> 0 then None
      else case selector of
        None \<Rightarrow> if count = 1 then json_get_element_object layouts 0 else None
      | Some s \<Rightarrow> find_layout layouts s [0..<nat count])"

subsection \<open>Loading\<close>

text \<open>The pass over the loaded operations: those under a selected storage type.\<close>

fun select_ops :: "u32 \<Rightarrow> storage_type \<Rightarrow> firehose_op list \<Rightarrow> firehose_op list" where
  "select_ops type_filter current_type [] = []"
| "select_ops type_filter current_type (op # ops) =
     (let cur = (if op_storage_type op \<noteq> QDL_STORAGE_UNKNOWN then op_storage_type op else current_type) in
      if storage_bit cur AND type_filter \<noteq> 0 then op # select_ops type_filter cur ops
      else select_ops type_filter cur ops)"

text \<open>The part of \<open>flashmap_load\<close> between parsing the JSON document and freeing it.\<close>

definition load_document ::
  "fm_env \<Rightarrow> firehose_op list \<Rightarrow> u32 \<Rightarrow> string option \<Rightarrow> images \<Rightarrow> string option \<Rightarrow> file_system option \<Rightarrow> json_value
    \<Rightarrow> int \<times> firehose_op list \<times> images" where
  "load_document E ops type_filter layout_selector imgs incdir archive json =
     (case json_get_string (Some json) (bytes_of ''version'') of
        None \<Rightarrow> (-1, ops, imgs)
      | Some version \<Rightarrow>
          if version \<noteq> bytes_of ''1.2.0-qdl'' \<and> version \<noteq> bytes_of ''1.1.0'' then (-1, ops, imgs)
          else
            let products = json_get_child (Some json) (bytes_of ''products'') in
            if json_count_children products \<noteq> 1 then (-1, ops, imgs)
            else
              let product = json_get_element_object products 0;
                  layouts = json_get_child product (bytes_of ''layouts'');
                  dir = (if archive = None then incdir else None)
              in case flashmap_select_layout layouts layout_selector of
                   None \<Rightarrow> (-1, ops, imgs)
                 | Some layout \<Rightarrow>
                     (case flashmap_get_programmers E archive (Some layout) imgs dir (version = bytes_of ''1.2.0-qdl'') of
                        (ret, imgs1) \<Rightarrow>
                          if ret \<noteq> 0 then (ret, ops, imgs1)
                          else case json_get_child (Some layout) (bytes_of ''programmable'') of
                            None \<Rightarrow> (-1, ops, sahara_images_free imgs1 MAPPING_SZ)
                          | Some programmable \<Rightarrow>
                              (case flashmap_enumerate_programmables E (Some programmable) [] archive dir of
                                 (ret, flashmap_ops) \<Rightarrow>
                                   if ret < 0 then (ret, ops, sahara_images_free imgs1 MAPPING_SZ)
                                   else let matched = select_ops type_filter QDL_STORAGE_UNKNOWN flashmap_ops in
                                     (if matched = [] then -1 else ret, ops @ matched, imgs1))))"

definition flashmap_load ::
  "fm_env \<Rightarrow> firehose_op list \<Rightarrow> string \<Rightarrow> string option \<Rightarrow> images \<Rightarrow> string option
    \<Rightarrow> int \<times> firehose_op list \<times> images" where
  "flashmap_load E ops filename specifier imgs incdir =
     (case flashmap_decode_specifier specifier of
        None \<Rightarrow> (-1, ops, imgs)
      | Some (type_filter, layout_selector) \<Rightarrow>
          let archive = fm_zip E filename in
          (case qdl_file_open archive (fm_fs E) (if archive \<noteq> None then ''flashmap.json'' else filename) of
             None \<Rightarrow> (-1, ops, imgs)
           | Some flashmap \<Rightarrow>
               (case fst (qdl_file_load flashmap) of
                  None \<Rightarrow> (-1, ops, imgs)
                | Some json_blob \<Rightarrow>
                    (case json_parse_buf json_blob of
                       None \<Rightarrow> (-1, ops, imgs)
                     | Some json \<Rightarrow>
                         load_document E ops (if type_filter = 0 then -1 else type_filter) layout_selector
                           imgs incdir archive json))))"

end
