(* ===== verification/OpGroups.thy ===== *)
theory OpGroups
  imports Program
begin

text \<open>
  What the loaders of program and patch files leave in the queue: operations that neither configure nor
  carry a storage type, in groups that a configuration of a storage type leads; and that what they add
  does not depend on the queue.
\<close>

subsection \<open>What the XML loaders append\<close>

definition data_op :: "firehose_op_type \<Rightarrow> bool" where
  "data_op t \<longleftrightarrow> t \<in> {FIREHOSE_OP_PROGRAM, FIREHOSE_OP_ERASE, FIREHOSE_OP_READ, FIREHOSE_OP_PATCH, FIREHOSE_OP_GET_SHA256_DIGEST}"

definition plain_op :: "firehose_op \<Rightarrow> bool" where
  "plain_op op \<longleftrightarrow> op_storage_type op = QDL_STORAGE_UNKNOWN \<and> data_op (op_type op)"

lemma data_op_simps [simp]:
  "data_op FIREHOSE_OP_PROGRAM" "data_op FIREHOSE_OP_ERASE" "data_op FIREHOSE_OP_READ" "data_op FIREHOSE_OP_PATCH"
  "data_op FIREHOSE_OP_GET_SHA256_DIGEST" "\<not> data_op FIREHOSE_OP_CONFIGURE" "\<not> data_op FIREHOSE_OP_RESET"
  "\<not> data_op FIREHOSE_OP_SET_BOOTABLE" "\<not> data_op FIREHOSE_OP_NONE"
  by (simp_all add: data_op_def)

lemma plain_not: "plain_op op \<Longrightarrow> op_type op \<notin> {FIREHOSE_OP_CONFIGURE, FIREHOSE_OP_RESET, FIREHOSE_OP_SET_BOOTABLE, FIREHOSE_OP_NONE}"
  by (auto simp: plain_op_def)

definition plain_step :: "firehose_op list \<Rightarrow> int \<times> firehose_op list \<Rightarrow> bool" where
  "plain_step ops res \<longleftrightarrow> fst res \<le> 0 \<and> (\<exists>new. snd res = ops @ new \<and> list_all plain_op new)"

lemma plain_stepI: "r \<le> 0 \<Longrightarrow> list_all plain_op new \<Longrightarrow> plain_step ops (r, ops @ new)"
  by (auto simp: plain_step_def)

lemma plain_step_stay: "r \<le> 0 \<Longrightarrow> plain_step ops (r, ops)"
  using plain_stepI [of r "[]" ops] by simp

lemma plain_step_trans: "plain_step ops (0, ops') \<Longrightarrow> plain_step ops' res \<Longrightarrow> plain_step ops res"
  by (auto simp: plain_step_def)

text \<open>Loaders whose operations neither configure nor carry a storage type, and that never return a positive number.\<close>

locale plain_loader =
  fixes load :: "firehose_op list \<Rightarrow> xml_node \<Rightarrow> int \<times> firehose_op list"
  assumes plain: "plain_step ops (load ops node)"
begin

lemma load_nodes_plain: "plain_step ops (load_nodes load ops ns)"
proof (induction ns arbitrary: ops)
  case (Cons n ns)
  obtain r ops1 where l: "load ops n = (r, ops1)" by fastforce
  with plain [of ops n] have "plain_step ops (r, ops1)" by simp
  then show ?case using Cons.IH [of ops] plain_step_trans [OF _ Cons.IH [of ops1]] l by auto
qed (simp add: plain_step_stay)

end

lemma plain_alloc: "data_op t \<Longrightarrow> plain_op (firehose_alloc_op t)"
  by (simp add: plain_op_def firehose_alloc_op_def)

lemma plain_sparse_op: "plain_op (sparse_op p n ck)"
  by (simp add: sparse_op_def plain_op_def firehose_alloc_op_def Let_def)

lemma sparse_chunks_plain:
  "sparse_chunks n h ops p f = (r, ops', p', f') \<Longrightarrow> plain_op p \<Longrightarrow> plain_op p' \<and> plain_step ops (r, ops')"
proof (induction n arbitrary: ops p f)
  case (Suc n)
  have one: "plain_step ops (0, ops @ [sparse_op p m ck])" for m ck
    by (rule plain_stepI) (simp_all add: plain_sparse_op)
  show ?case using Suc.prems
    by (auto simp: Let_def plain_op_def plain_step_stay split: prod.splits sum.splits if_splits
      dest!: Suc.IH intro: plain_step_trans [OF one])
qed (simp add: plain_step_stay)

lemma program_load_sparse_plain:
  "program_load_sparse ops p f = (r, ops', p', f') \<Longrightarrow> plain_op p \<Longrightarrow>
   plain_op p' \<and> (\<exists>new. ops' = ops @ new \<and> list_all plain_op new)"
  by (auto simp: program_load_sparse_def plain_op_def split: prod.splits sum.splits if_splits
      dest!: sparse_chunks_plain) (auto simp: plain_op_def plain_step_def)

lemma program_tag_op_plain: "program_tag_op node n z = (p, e) \<Longrightarrow> plain_op p"
  by (auto simp: program_tag_op_def Let_def plain_op_def firehose_alloc_op_def split: prod.splits if_splits)

lemma resolve_path_plain: "program_resolve_path p pf c x i fn = (r, p') \<Longrightarrow> plain_op p \<Longrightarrow> plain_op p'"
  by (auto simp: program_resolve_path_def Let_def plain_op_def split: option.splits if_splits)

lemma load_program_tag_plain: "plain_step ops (load_program_tag ops node n a z fs pf cr ex inc)"
  by (auto simp: load_program_tag_def Let_def plain_step_def plain_op_def split: prod.splits option.splits
      dest!: program_tag_op_plain resolve_path_plain program_load_sparse_plain)

lemma load_erase_tag_plain: "plain_step ops (load_erase_tag ops node n)"
  by (auto simp: load_erase_tag_def Let_def plain_step_def plain_op_def firehose_alloc_op_def split: prod.split)

interpretation plain_programs: plain_loader
  "\<lambda>ops node. load_program_node node n a z fs pf cr ex inc ops" for n a z fs pf cr ex inc
  by unfold_locales (auto simp: load_program_node_def load_program_tag_plain load_erase_tag_plain plain_step_stay)

interpretation plain_patches: plain_loader "\<lambda>ops node. load_patch_node node ops"
  by unfold_locales
    (auto simp: load_patch_node_def Let_def plain_step_def plain_op_def firehose_alloc_op_def split: prod.split)

interpretation plain_reads: plain_loader "\<lambda>ops node. load_read_node ex inc node ops" for ex inc
  by unfold_locales
    (auto simp: load_read_node_def Let_def plain_step_def plain_op_def firehose_alloc_op_def split: prod.split option.split)

subsection \<open>What the XML loaders make of a file does not depend on the queue\<close>

locale shifting_loader =
  fixes load :: "firehose_op list \<Rightarrow> xml_node \<Rightarrow> int \<times> firehose_op list"
  assumes shift: "load ops node = (r, ops') \<Longrightarrow> load (pre @ ops) node = (r, pre @ ops')"
begin

lemma load_nodes_shift: "load_nodes load ops ns = (r, ops') \<Longrightarrow> load_nodes load (pre @ ops) ns = (r, pre @ ops')"
proof (induction ns arbitrary: ops)
  case (Cons n ns)
  obtain r1 ops1 where l: "load ops n = (r1, ops1)" by fastforce
  then show ?case using Cons shift [OF l, of pre] by (auto split: if_splits)
qed simp

end

lemma sparse_chunks_shift:
  "sparse_chunks n h ops p f = (r, ops', p', f') \<Longrightarrow> sparse_chunks n h (pre @ ops) p f = (r, pre @ ops', p', f')"
proof (induction n arbitrary: ops p f)
  case (Suc n)
  obtain x f1 where h: "sparse_chunk_header_parse f h = (x, f1)" by fastforce
  show ?case
  proof (cases x)
    case (Inr ck)
    define m where "m = ck_size ck mod (ucast (op_sector_size p) :: u64)"
    note run = sparse_chunks.simps(2) h Inr prod.case sum.case Let_def m_def [symmetric]
    show ?thesis
      using Suc.prems Suc.IH [of "ops @ [x]" for x] Suc.IH [of ops] unfolding run by (auto split: if_split_asm)
  qed (use Suc.prems h in simp)
qed simp

lemma program_load_sparse_shift:
  "program_load_sparse ops p f = (r, ops', p', f') \<Longrightarrow> program_load_sparse (pre @ ops) p f = (r, pre @ ops', p', f')"
  by (auto simp: program_load_sparse_def split: prod.splits sum.splits if_splits dest: sparse_chunks_shift [where pre = pre])

lemma load_program_tag_shift:
  "load_program_tag ops node n a z fs pf cr ex inc = (r, ops') \<Longrightarrow>
   load_program_tag (pre @ ops) node n a z fs pf cr ex inc = (r, pre @ ops')"
  by (auto simp: load_program_tag_def Let_def split: prod.splits option.splits if_splits
      dest: program_load_sparse_shift [where pre = pre])

interpretation shifting_programs: shifting_loader
  "\<lambda>ops node. load_program_node node n a z fs pf cr ex inc ops" for n a z fs pf cr ex inc
  by unfold_locales
    (auto simp: load_program_node_def load_program_tag_shift load_erase_tag_def Let_def split: if_splits prod.splits)

interpretation shifting_patches: shifting_loader "\<lambda>ops node. load_patch_node node ops"
  by unfold_locales (auto simp: load_patch_node_def Let_def split: if_splits prod.splits)

lemma program_load_shift:
  "program_load xf ops fs pf n a cr ex inc = (r, ops') \<Longrightarrow> program_load xf (pre @ ops) fs pf n a cr ex inc = (r, pre @ ops')"
  by (auto simp: program_load_def program_load_xml_def shifting_programs.load_nodes_shift split: option.splits)

lemma patch_load_shift: "patch_load xf ops pf = (r, ops') \<Longrightarrow> patch_load xf (pre @ ops) pf = (r, pre @ ops')"
  by (auto simp: patch_load_def patch_load_xml_def shifting_patches.load_nodes_shift split: option.splits)

subsection \<open>Groups\<close>

text \<open>A storage device becomes a configuration of its type and the operations of its files.\<close>

definition group_ops :: "storage_type \<times> firehose_op list \<Rightarrow> firehose_op list" where
  "group_ops g = (firehose_alloc_op FIREHOSE_OP_CONFIGURE)\<lparr>op_storage_type := fst g\<rparr> # snd g"

definition plain_group :: "storage_type \<times> firehose_op list \<Rightarrow> bool" where
  "plain_group g \<longleftrightarrow> list_all plain_op (snd g)"

definition groups_ops :: "(storage_type \<times> firehose_op list) list \<Rightarrow> firehose_op list" where
  "groups_ops gs = concat (map group_ops gs)"

lemma groups_ops_simps [simp]:
  "groups_ops [] = []" "groups_ops (g # gs) = group_ops g @ groups_ops gs" "groups_ops (gs @ hs) = groups_ops gs @ groups_ops hs"
  by (simp_all add: groups_ops_def)

text \<open>The operations of a group.\<close>

definition group_op :: "firehose_op \<Rightarrow> bool" where
  "group_op op \<longleftrightarrow> plain_op op \<or> op_type op = FIREHOSE_OP_CONFIGURE"

lemma groups_group_op: "list_all plain_group gs \<Longrightarrow> list_all group_op (groups_ops gs)"
  by (induction gs) (auto simp: plain_group_def group_ops_def group_op_def firehose_alloc_op_def list_all_iff)

lemma plain_group_op: "list_all plain_op ops \<Longrightarrow> list_all group_op ops"
  by (auto simp: list_all_iff group_op_def)

text \<open>A patch all of whose attributes are \<open>1\<close>, for the examples.\<close>

definition ex_patch_node :: xml_node where
  "ex_patch_node = \<lparr>xn_element = True, xn_name = ''patch'', xn_get = \<lambda>a. Some ''1'', xn_has = \<lambda>a. True\<rparr>"

definition ex_patch :: firehose_op where
  "ex_patch = hd (snd (load_patch_node ex_patch_node []))"

lemma ex_patch_load: "load_patch_node ex_patch_node ops = (0, ops @ [ex_patch])"
  by (simp add: ex_patch_def ex_patch_node_def load_patch_node_def attr_as_unsigned_def attr_as_string_def Let_def)

lemma ex_patch_type: "op_type ex_patch = FIREHOSE_OP_PATCH"
  by (simp add: ex_patch_def ex_patch_node_def load_patch_node_def attr_as_unsigned_def attr_as_string_def Let_def
      firehose_alloc_op_def)

end
