(* ===== verification/FlashmapProps.thy ===== *)
theory FlashmapProps
  imports Flashmap JsonProps OpGroups
begin

text \<open>
  Properties of flashmap loading: what a run leaves in the queue and in the image table, and what the
  storage filter of the specifier selects.
\<close>

subsection \<open>Programmables\<close>

lemma flashmap_load_xml_plain: "plain_step ops (flashmap_load_xml E ops z fn n inc)"
  by (auto simp: flashmap_load_xml_def plain_step_stay patch_load_xml_def program_load_xml_def
      plain_programs.load_nodes_plain plain_patches.load_nodes_plain split: option.split)

lemma load_files_plain: "plain_step ops (load_files E z inc n files ops is)"
proof (induction "is" arbitrary: ops)
  case (Cons i "is")
  then show ?case
    by (auto simp: plain_step_stay split: option.split prod.split)
      (metis flashmap_load_xml_plain plain_step_trans)+
qed (simp add: plain_step_stay)

lemma load_files_appends:
  "load_files E z inc n files ops is = (r, ops') \<Longrightarrow> r \<le> 0 \<and> (\<exists>new. ops' = ops @ new \<and> list_all plain_op new)"
  using load_files_plain [of ops E z inc n files "is"] by (simp add: plain_step_def)

lemma load_programmable_group:
  "load_programmable E z inc ops p = (r, ops') \<Longrightarrow>
   r \<le> 0 \<and> (r = 0 \<longrightarrow> (\<exists>g. plain_group g \<and> ops' = ops @ group_ops g))"
proof (goal_cases)
  case 1
  show ?case
  proof (cases "\<exists>m sl fl. json_get_string p (bytes_of ''memory'') = Some m \<and> json_get_number p (bytes_of ''slot'') = Some sl
      \<and> json_get_child p (bytes_of ''files'') = Some fl \<and> \<not> json_count_children (Some fl) < 0")
    case True
    then obtain m fl where l: "load_files E z inc (chars_of m = ''nand'') fl
        (ops @ [(firehose_alloc_op FIREHOSE_OP_CONFIGURE)\<lparr>op_storage_type := decode_storage_type (Some (chars_of m))\<rparr>])
        [0..<nat (json_count_children (Some fl))] = (r, ops')"
      using 1 by (auto simp: load_programmable_def)
    from load_files_appends [OF this] obtain new where "r \<le> 0" "list_all plain_op new"
        "ops' = ops @ group_ops (decode_storage_type (Some (chars_of m)), new)"
      by (auto simp: group_ops_def)
    then show ?thesis by (auto simp: plain_group_def)
  next
    case False
    with 1 show ?thesis by (auto simp: load_programmable_def Let_def split: option.splits if_splits)
  qed
qed

lemma programmables_loop_groups:
  "programmables_loop E z inc list ops is = (r, ops') \<Longrightarrow>
   r \<le> 0 \<and> (r = 0 \<longrightarrow> (\<exists>gs. list_all plain_group gs \<and> ops' = ops @ groups_ops gs \<and> length gs = length is))"
proof (induction "is" arbitrary: ops)
  case Nil
  then show ?case by (auto intro: exI [of _ "[]"])
next
  case (Cons i "is")
  obtain r1 ops1 where l: "load_programmable E z inc ops (json_get_element_object list i) = (r1, ops1)" by fastforce
  note g = load_programmable_group [OF l]
  show ?case
  proof (cases "r1 = 0")
    case True
    then obtain g where g1: "plain_group g" "ops1 = ops @ group_ops g" using g by blast
    from True l Cons.prems have rest: "programmables_loop E z inc list ops1 is = (r, ops')" by simp
    from Cons.IH [OF this] show ?thesis
    proof (elim conjE, intro conjI impI)
      assume "r = 0" "r = 0 \<longrightarrow> (\<exists>gs. list_all plain_group gs \<and> ops' = ops1 @ groups_ops gs \<and> length gs = length is)"
      then obtain gs where "list_all plain_group gs" "ops' = ops1 @ groups_ops gs" "length gs = length is" by blast
      with g1 show "\<exists>gs. list_all plain_group gs \<and> ops' = ops @ groups_ops gs \<and> length gs = length (i # is)"
        by (intro exI [of _ "g # gs"]) simp
    qed
  qed (use g l Cons.prems in auto)
qed

lemma enumerate_groups:
  "flashmap_enumerate_programmables E list [] z inc = (r, ops') \<Longrightarrow>
   r \<le> 0 \<and> (r = 0 \<longrightarrow> (\<exists>gs. list_all plain_group gs \<and> ops' = groups_ops gs \<and> gs \<noteq> []))"
  by (auto simp: flashmap_enumerate_programmables_def split: if_splits dest!: programmables_loop_groups)

subsection \<open>The storage filter\<close>

lemma storage_bit_and: "storage_bit a AND storage_bit b \<noteq> 0 \<longleftrightarrow> a = b"
  by (cases a; cases b) (simp_all add: storage_bit_def push_bit_eq_mult)

lemma storage_bit_or:
  "storage_bit a AND (f OR g) \<noteq> 0 \<longleftrightarrow> storage_bit a AND f \<noteq> 0 \<or> storage_bit a AND g \<noteq> 0"
  by (simp add: bit.conj_disj_distrib or_eq_0_iff)

lemma storage_bit_nz [simp]: "storage_bit a \<noteq> 0"
  using storage_bit_and [of a a] by auto

lemma select_all: "select_ops (-1) cur ops = ops"
  by (induction ops arbitrary: cur) (simp_all add: Let_def)

definition selected :: "u32 \<Rightarrow> (storage_type \<times> firehose_op list) list \<Rightarrow> (storage_type \<times> firehose_op list) list" where
  "selected f gs = filter (\<lambda>(t, _). storage_bit t AND f \<noteq> 0) gs"

lemma select_plain:
  "list_all plain_op ops \<Longrightarrow>
   select_ops f cur (ops @ r) = (if storage_bit cur AND f \<noteq> 0 then ops else []) @ select_ops f cur r"
  by (induction ops) (auto simp: plain_op_def)

lemma select_groups:
  "list_all plain_group gs \<Longrightarrow> \<forall>g \<in> set gs. fst g \<noteq> QDL_STORAGE_UNKNOWN \<Longrightarrow>
   select_ops f cur (groups_ops gs) = groups_ops (selected f gs)"
proof (induction gs arbitrary: cur)
  case (Cons g gs)
  then show ?case
    by (cases g) (simp add: group_ops_def plain_group_def select_plain selected_def)
qed (simp add: selected_def)

text \<open>A filter made of storage names has the bits of their types.\<close>

definition names_of :: "storage_type list \<Rightarrow> string list" where
  "names_of ts = map (\<lambda>t. the (encode_storage_type t)) ts"

fun comma_list :: "string list \<Rightarrow> string" where
  "comma_list [] = []"
| "comma_list (n # ns) = (if ns = [] then n else n @ CHR '','' # comma_list ns)"

lemma storage_names:
  assumes "t \<noteq> QDL_STORAGE_UNKNOWN"
  obtains n where "encode_storage_type t = Some n" "n \<noteq> []" "CHR '','' \<notin> set n" "CHR ''/'' \<notin> set n"
  using assms by (cases t) (auto simp: encode_storage_type_def storage_types_def)

lemma split_comma_token:
  "CHR '','' \<notin> set n \<Longrightarrow> acc @ n \<noteq> [] \<Longrightarrow>
   split_comma acc n = [acc @ n] \<and> split_comma acc (n @ CHR '','' # s) = (acc @ n) # split_comma [] s"
  by (induction n arbitrary: acc) auto

lemma strtok_names:
  "list_all (\<lambda>t. t \<noteq> QDL_STORAGE_UNKNOWN) ts \<Longrightarrow> strtok_comma (comma_list (names_of ts)) = names_of ts"
proof (induction ts)
  case (Cons t ts)
  then obtain n where n: "encode_storage_type t = Some n" "n \<noteq> []" "CHR '','' \<notin> set n"
    by (auto elim: storage_names)
  show ?case
    using Cons n split_comma_token [OF n(3), of "[]" "comma_list (names_of ts)"]
    by (auto simp: strtok_comma_def names_of_def)
qed (simp add: strtok_comma_def names_of_def)

lemma filter_loop_bits:
  "list_all (\<lambda>t. t \<noteq> QDL_STORAGE_UNKNOWN) ts \<Longrightarrow>
   \<exists>f'. storage_filter_loop f (names_of ts) = Some f'
     \<and> (\<forall>s. storage_bit s AND f' \<noteq> 0 \<longleftrightarrow> storage_bit s AND f \<noteq> 0 \<or> s \<in> set ts)"
proof (induction ts arbitrary: f)
  case (Cons t ts)
  then obtain n where n: "encode_storage_type t = Some n" by (auto elim: storage_names)
  then have d: "decode_storage_type (Some (the (encode_storage_type t))) = t" by (simp add: decode_encode_storage)
  from Cons obtain f' where f': "storage_filter_loop (f OR storage_bit t) (names_of ts) = Some f'"
      "\<forall>s. storage_bit s AND f' \<noteq> 0 \<longleftrightarrow> storage_bit s AND (f OR storage_bit t) \<noteq> 0 \<or> s \<in> set ts" by auto
  have "storage_filter_loop f (names_of (t # ts)) = Some f'"
    using f'(1) d Cons.prems by (simp add: names_of_def Let_def)
  moreover have "\<forall>s. storage_bit s AND f' \<noteq> 0 \<longleftrightarrow> storage_bit s AND f \<noteq> 0 \<or> s \<in> set (t # ts)"
    using f'(2) by (auto simp only: storage_bit_or storage_bit_and list.set insert_iff)
  ultimately show ?case by blast
qed (simp add: names_of_def)

lemma decode_specifier_selection:
  assumes "layout \<noteq> []" "CHR ''/'' \<notin> set layout" "ts \<noteq> []" "list_all (\<lambda>t. t \<noteq> QDL_STORAGE_UNKNOWN) ts"
  shows "\<exists>f. flashmap_decode_specifier (Some (layout @ ''/'' @ comma_list (names_of ts))) = Some (f, Some layout)
    \<and> f \<noteq> 0 \<and> (\<forall>gs. selected f gs = filter (\<lambda>(t, _). t \<in> set ts) gs)"
proof -
  obtain f where f: "storage_filter_loop 0 (names_of ts) = Some f" "\<And>s. storage_bit s AND f \<noteq> 0 \<longleftrightarrow> s \<in> set ts"
    using filter_loop_bits [OF assms(4), of 0] by auto
  obtain t ts' where t: "ts = t # ts'" using assms(3) by (cases ts) auto
  with assms(4) obtain n where "encode_storage_type t = Some n" "n \<noteq> []" by (auto elim: storage_names)
  then have ne: "comma_list (names_of ts) \<noteq> []" by (simp add: t names_of_def)
  have d: "dropWhile (\<lambda>c. c \<noteq> CHR ''/'') (layout @ CHR ''/'' # r) = CHR ''/'' # r"
      "takeWhile (\<lambda>c. c \<noteq> CHR ''/'') (layout @ CHR ''/'' # r) = layout" for r
    using assms(2) by (induction layout) auto
  have "f \<noteq> 0" using f(2) [of t] t by auto
  then show ?thesis
    using f ne assms(1) d by (simp add: flashmap_decode_specifier_def flashmap_decode_storage_filter_def
        strtok_names [OF assms(4)] selected_def Let_def)
qed

subsection \<open>A run as a whole\<close>

lemma legacy_programmer_ok:
  "flashmap_get_legacy_programmer E z l imgs inc = (r, imgs') \<Longrightarrow> images_ok imgs \<Longrightarrow> images_ok imgs'"
  by (auto simp: flashmap_get_legacy_programmer_def Let_def images_update_ok split: if_splits option.splits)

lemma programmer_id_bound: "programmer_id key = Some i \<Longrightarrow> i < MAPPING_SZ"
  by (auto simp: programmer_id_def split: prod.splits option.splits list.splits if_splits)

lemma programmer_map_loop_ok:
  "programmer_map_loop E z inc imgs kvs = (r, imgs') \<Longrightarrow> images_ok imgs \<Longrightarrow> images_ok imgs'"
  by (induction E z inc imgs kvs rule: programmer_map_loop.induct)
    (auto simp: store_image_ok programmer_id_bound load_sahara_image_ok split: option.splits json_value.splits)

lemma programmers_ok:
  "flashmap_get_programmers E z l imgs inc m = (r, imgs') \<Longrightarrow> images_ok imgs \<Longrightarrow> images_ok imgs'"
  by (auto simp: flashmap_get_programmers_def flashmap_get_programmer_map_def
      split: if_splits option.splits json_value.splits prod.splits
      dest: legacy_programmer_ok programmer_map_loop_ok)

text \<open>Everything but the selection is a function of the document and the layout.\<close>

definition load_groups_of ::
  "fm_env \<Rightarrow> string option \<Rightarrow> images \<Rightarrow> string option \<Rightarrow> file_system option \<Rightarrow> json_value
    \<Rightarrow> int \<times> (storage_type \<times> firehose_op list) list \<times> images \<Rightarrow> bool" where
  "load_groups_of E layout imgs inc z json res \<longleftrightarrow>
     (case res of (ret, gs, imgs') \<Rightarrow>
        list_all plain_group gs \<and>
        (\<forall>ops f. load_document E ops f layout imgs inc z json =
           (if ret = 0 then (if select_ops f QDL_STORAGE_UNKNOWN (groups_ops gs) = [] then -1 else 0,
              ops @ select_ops f QDL_STORAGE_UNKNOWN (groups_ops gs), imgs')
            else (ret, ops, imgs'))))"

lemma load_document_groups:
  assumes "images_ok imgs"
  shows "\<exists>ret gs imgs'. load_groups_of E layout imgs inc z json (ret, gs, imgs') \<and> images_ok imgs'"
proof -
  have failed: ?thesis if "\<And>ops f. load_document E ops f layout imgs inc z json = (ret, ops, imgs')" "ret \<noteq> 0" "images_ok imgs'"
    for imgs' ret using that unfolding load_groups_of_def by (intro exI [of _ ret] exI [of _ "[]"] exI [of _ imgs']) simp
  let ?products = "json_get_child (Some json) (bytes_of ''products'')"
  let ?dir = "if z = None then inc else None"
  let ?layouts = "json_get_child (json_get_element_object ?products 0) (bytes_of ''layouts'')"
  show ?thesis
  proof (cases "\<exists>v l. json_get_string (Some json) (bytes_of ''version'') = Some v
      \<and> \<not> (v \<noteq> bytes_of ''1.2.0-qdl'' \<and> v \<noteq> bytes_of ''1.1.0'') \<and> json_count_children ?products = 1
      \<and> flashmap_select_layout ?layouts layout = Some l")
    case False
    then have "load_document E ops f layout imgs inc z json = (-1, ops, imgs)" for ops f
      by (auto simp: load_document_def Let_def split: option.split)
    then show ?thesis using failed [of "-1" imgs] assms by simp
  next
    case True
    then obtain v l where vl: "json_get_string (Some json) (bytes_of ''version'') = Some v"
        "\<not> (v \<noteq> bytes_of ''1.2.0-qdl'' \<and> v \<noteq> bytes_of ''1.1.0'')" "json_count_children ?products = 1"
        "flashmap_select_layout ?layouts layout = Some l" by blast
    obtain r1 imgs1 where p: "flashmap_get_programmers E z (Some l) imgs ?dir (v = bytes_of ''1.2.0-qdl'') = (r1, imgs1)"
      by fastforce
    note ok1 = programmers_ok [OF p assms]
    have ok2: "images_ok (sahara_images_free imgs1 MAPPING_SZ)" by (rule images_free_ok [OF ok1]) simp
    note doc = load_document_def [of E _ _ layout imgs inc z json]
    show ?thesis
    proof (cases "r1 = 0 \<and> json_get_child (Some l) (bytes_of ''programmable'') \<noteq> None")
      case False
      then show ?thesis
      proof (cases "r1 = 0")
        case True
        then have "load_document E ops f layout imgs inc z json = (-1, ops, sahara_images_free imgs1 MAPPING_SZ)" for ops f
          using False vl p by (auto simp: doc Let_def)
        then show ?thesis using failed [of "-1"] ok2 by simp
      next
        case False
        then have "load_document E ops f layout imgs inc z json = (r1, ops, imgs1)" for ops f
          using vl p by (auto simp: doc Let_def)
        then show ?thesis using failed [of r1 imgs1] False ok1 by simp
      qed
    next
      case True
      then obtain pr where r1: "r1 = 0" and pr: "json_get_child (Some l) (bytes_of ''programmable'') = Some pr" by blast
      obtain r2 fo where e: "flashmap_enumerate_programmables E (Some pr) [] z ?dir = (r2, fo)" by fastforce
      note g = enumerate_groups [OF e]
      show ?thesis
      proof (cases "r2 = 0")
        case True
        then obtain gs where "list_all plain_group gs" "fo = groups_ops gs" using g by blast
        then show ?thesis using vl p r1 pr e True ok1
          by (intro exI [of _ 0] exI [of _ gs] exI [of _ imgs1])
            (auto simp: load_groups_of_def doc Let_def)
      next
        case False
        then have "r2 < 0" using g by simp
        then have "load_document E ops f layout imgs inc z json = (r2, ops, sahara_images_free imgs1 MAPPING_SZ)" for ops f
          using vl p r1 pr e by (auto simp: doc Let_def)
        then show ?thesis using failed [of r2] False ok2 by simp
      qed
    qed
  qed
qed

lemma flashmap_load_cases:
  assumes "flashmap_decode_specifier spec = Some (f, layout)"
  obtains "\<And>ops imgs. flashmap_load E ops file spec imgs inc = (-1, ops, imgs)"
        "\<And>s f'. flashmap_decode_specifier s = Some (f', layout) \<Longrightarrow> (\<And>ops imgs. flashmap_load E ops file s imgs inc = (-1, ops, imgs))"
    | z json where
        "\<And>s f' ops imgs. flashmap_decode_specifier s = Some (f', layout) \<Longrightarrow>
           flashmap_load E ops file s imgs inc = load_document E ops (if f' = 0 then -1 else f') layout imgs inc z json"
proof -
  let ?z = "fm_zip E file"
  let ?doc = "case qdl_file_open ?z (fm_fs E) (if ?z \<noteq> None then ''flashmap.json'' else file) of
      None \<Rightarrow> None | Some f \<Rightarrow> (case fst (qdl_file_load f) of None \<Rightarrow> None | Some b \<Rightarrow> json_parse_buf b)"
  show thesis
  proof (cases ?doc)
    case None
    then have "flashmap_load E ops file s imgs inc = (-1, ops, imgs)"
      if "flashmap_decode_specifier s = Some (f', layout)" for s f' ops imgs
      using that by (auto simp: flashmap_load_def Let_def split: option.splits)
    with assms that(1) show thesis by blast
  next
    case (Some json)
    then have "flashmap_load E ops file s imgs inc = load_document E ops (if f' = 0 then -1 else f') layout imgs inc ?z json"
      if "flashmap_decode_specifier s = Some (f', layout)" for s f' ops imgs
      using that by (auto simp: flashmap_load_def Let_def split: option.splits)
    with that(2) show thesis by blast
  qed
qed

text \<open>A flashmap on disk with one layout of two programmables, each with one patch.\<close>

definition ex_memory :: "string \<Rightarrow> json_value" where
  "ex_memory m = JSON_OBJECT [(bytes_of ''memory'', JSON_STRING (bytes_of m)), (bytes_of ''slot'', JSON_NUMBER 0),
     (bytes_of ''files'', JSON_ARRAY [JSON_STRING (bytes_of ''p.xml'')])]"

definition ex_layout :: json_value where
  "ex_layout = JSON_OBJECT [(bytes_of ''name'', JSON_STRING (bytes_of ''std'')),
     (bytes_of ''programmer'', JSON_ARRAY [JSON_STRING (bytes_of ''prog.elf'')]),
     (bytes_of ''programmable'', JSON_ARRAY [ex_memory ''ufs'', ex_memory ''emmc''])]"

definition ex_flashmap :: json_value where
  "ex_flashmap = JSON_OBJECT [(bytes_of ''version'', JSON_STRING (bytes_of ''1.1.0'')),
     (bytes_of ''products'', JSON_ARRAY [JSON_OBJECT [(bytes_of ''layouts'', JSON_ARRAY [ex_layout])]])]"

definition ex_fm :: fm_env where
  "ex_fm = \<lparr>fm_fs = (\<lambda>p. Some (if p = ''f.json'' then json_text ex_flashmap else [0], \<lambda>pos n. Some n)),
     fm_exists = (\<lambda>p. True), fm_zip = (\<lambda>p. None),
     fm_xml = (\<lambda>b. Some (''patches'',
[ex_patch_node]))\<rparr>"

lemma ex_open:
  "map_option (\<lambda>f. fst (qdl_file_load f)) (qdl_file_open None (fm_fs ex_fm) p)
    = Some (Some (if p = ''f.json'' then json_text ex_flashmap else [0]))"
  by (simp add: ex_fm_def qdl_file_open_def qdl_file_load_def os_read_def sub_buf_def Let_def)

lemma ex_text: "json_parse_buf (json_text ex_flashmap) = Some ex_flashmap"
proof (rule json_text_parses)
  show "printable 0 ex_flashmap"
    by (simp add: ex_flashmap_def ex_layout_def ex_memory_def JSON_MAX_DEPTH_def plain_bytes_def bytes_of_def)
  show "length (json_text ex_flashmap) \<le> 2147483647"
    by (simp add: ex_flashmap_def ex_layout_def ex_memory_def bytes_of_def show_dec.simps)
qed

lemma ex_xml: "flashmap_load_xml ex_fm ops None ''p.xml'' n inc = (0, ops @ [ex_patch])"
proof -
  obtain f where f: "qdl_file_open None (fm_fs ex_fm) ''p.xml'' = Some f" "fst (qdl_file_load f) = Some [0]"
    using ex_open [of "''p.xml''"] by auto
  show ?thesis
    by (simp add: flashmap_load_xml_def f)
      (simp add: ex_fm_def patch_load_xml_def ex_patch_load, simp add: ex_patch_node_def)
qed

lemma bytes_eq [simp]: "bytes_of a = bytes_of b \<longleftrightarrow> a = b"
  by (metis chars_bytes)

lemma c_text_bytes: "CHR 0x00 \<notin> set s \<Longrightarrow> c_text (bytes_of s) = bytes_of s"
proof -
  assume s: "CHR 0x00 \<notin> set s"
  have "(of_char c :: u8) \<noteq> 0" if "c \<in> set s" for c
  proof
    assume "(of_char c :: u8) = 0"
    then have "bytes_of [c] = bytes_of [CHR 0x00]" by (simp add: bytes_of_def)
    with that s show False by simp
  qed
  then have "\<forall>b \<in> set (bytes_of s). b \<noteq> 0" by (auto simp: bytes_of_def)
  then show ?thesis unfolding c_text_def takeWhile_eq_all_conv .
qed

lemmas json_lookup = json_get_child_def json_get_string_def json_get_number_def json_count_children_def
  json_get_element_object_def json_get_element_string_def c_text_bytes

lemma ex_programmable:
  assumes "CHR 0x00 \<notin> set m"
  shows "load_programmable ex_fm None None ops (Some (ex_memory m)) = (0, ops @ group_ops (decode_storage_type (Some m), [ex_patch]))"
  using assms ex_xml by (simp add: load_programmable_def ex_memory_def json_lookup group_ops_def flashmap_resolve_path_def path_fit_def PATH_MAX_def Let_def)

lemma ex_document:
  "\<exists>imgs'. load_document ex_fm ops f (Some ''std'') imgs None None ex_flashmap =
     (let k = select_ops f QDL_STORAGE_UNKNOWN (groups_ops [(QDL_STORAGE_UFS, [ex_patch]), (QDL_STORAGE_EMMC, [ex_patch])])
      in (if k = [] then -1 else 0, ops @ k, imgs'))"
proof -
  obtain im where im: "load_sahara_image None (fm_fs ex_fm) ''prog.elf'' = Some im"
    using ex_open [of "''prog.elf''"]
    by (cases "qdl_file_load (the (qdl_file_open None (fm_fs ex_fm) ''prog.elf''))") (auto simp: load_sahara_image_def)
  have "flashmap_select_layout (Some (JSON_ARRAY [ex_layout])) (Some ''std'') = Some ex_layout"
    by (simp add: flashmap_select_layout_def json_lookup ex_layout_def)
  moreover have "flashmap_get_programmers ex_fm None (Some ex_layout) imgs None False = (0, imgs[SAHARA_ID_EHOSTDL_IMG := im])"
    by (simp add: flashmap_get_programmers_def flashmap_get_legacy_programmer_def json_lookup ex_layout_def im
        flashmap_resolve_path_def path_fit_def PATH_MAX_def)
  moreover have "flashmap_enumerate_programmables ex_fm (Some (JSON_ARRAY [ex_memory ''ufs'', ex_memory ''emmc''])) [] None None
      = (0, groups_ops [(QDL_STORAGE_UFS, [ex_patch]), (QDL_STORAGE_EMMC, [ex_patch])])"
    by (simp add: flashmap_enumerate_programmables_def json_lookup ex_programmable upt_rec numeral_2_eq_2)
      (simp add: decode_storage_type_def storage_types_def)
  moreover have "json_get_child (Some ex_layout) (bytes_of ''programmable'') = Some (JSON_ARRAY [ex_memory ''ufs'', ex_memory ''emmc''])"
    by (simp add: ex_layout_def json_lookup)
  ultimately show ?thesis
    by (simp add: load_document_def ex_flashmap_def json_lookup Let_def)
qed

lemma ex_load:
  assumes "flashmap_decode_specifier spec = Some (f, Some ''std'')"
  shows "\<exists>imgs'. flashmap_load ex_fm ops ''f.json'' spec imgs None =
     (let k = select_ops (if f = 0 then -1 else f) QDL_STORAGE_UNKNOWN (groups_ops [(QDL_STORAGE_UFS, [ex_patch]), (QDL_STORAGE_EMMC, [ex_patch])])
      in (if k = [] then -1 else 0, ops @ k, imgs'))"
proof -
  obtain fl where "qdl_file_open None (fm_fs ex_fm) ''f.json'' = Some fl" "fst (qdl_file_load fl) = Some (json_text ex_flashmap)"
    using ex_open [of "''f.json''"] by auto
  moreover have "fm_zip ex_fm ''f.json'' = None" by (simp add: ex_fm_def)
  ultimately show ?thesis using ex_document [of ops "if f = 0 then -1 else f" imgs] assms
    by (simp add: flashmap_load_def ex_text)
qed

lemma ex_images0_ok: "images_ok (replicate MAPPING_SZ no_image)"
  by (simp add: images_ok_def image_ok_def no_image_def list_all_iff)

lemma flashmap_load_leaves:
  assumes "images_ok imgs" "flashmap_load E ops filename specifier imgs incdir = (ret, ops', imgs')"
  shows "images_ok imgs' \<and> (if ret = 0 then \<exists>new. new \<noteq> [] \<and> ops' = ops @ new else ops' = ops)"
proof (cases "flashmap_decode_specifier specifier")
  case None
  with assms show ?thesis by (simp add: flashmap_load_def)
next
  case (Some fl)
  obtain f layout where fl: "flashmap_decode_specifier specifier = Some (f, layout)" using Some by (cases fl) simp
  show ?thesis
  proof (rule flashmap_load_cases [OF fl, of E filename incdir])
    assume "\<And>ops imgs. flashmap_load E ops filename specifier imgs incdir = (-1, ops, imgs)"
    with assms show ?thesis by simp
  next
    fix z json
    assume r: "\<And>s f' ops imgs. flashmap_decode_specifier s = Some (f', layout) \<Longrightarrow>
      flashmap_load E ops filename s imgs incdir = load_document E ops (if f' = 0 then -1 else f') layout imgs incdir z json"
    obtain ret0 gs imgs0 where g: "load_groups_of E layout imgs incdir z json (ret0, gs, imgs0)" "images_ok imgs0"
      using load_document_groups [OF assms(1)] by blast
    show ?thesis using g assms(2) unfolding r [OF fl]
      by (auto simp: load_groups_of_def split: if_splits)
  qed
qed

text \<open>
  C38: A flashmap is loaded whole or not at all. Whatever \<open>flashmap_load\<close> is given, when it reports an
  error the queue of operations is exactly what it was, and when it reports success it has appended at
  least one operation; in both cases the image table is well formed.
\<close>

theorem flashmap_load_all_or_nothing:
  assumes "images_ok imgs" "flashmap_load E ops filename specifier imgs incdir = (ret, ops', imgs')"
  shows "images_ok imgs' \<and> (if ret = 0 then \<exists>new. new \<noteq> [] \<and> ops' = ops @ new else ops' = ops)"
  using assms by (rule flashmap_load_leaves)

lemma flashmap_load_all_or_nothing_witness:
  "\<exists>ret ops' imgs'. flashmap_load ex_fm [ex_patch] ''f.json'' (Some ''std'') (replicate MAPPING_SZ no_image) None = (ret, ops', imgs')
    \<and> images_ok imgs' \<and> (if ret = 0 then \<exists>new. new \<noteq> [] \<and> ops' = [ex_patch] @ new else ops' = [ex_patch])"
proof -
  obtain ret ops' imgs' where r: "flashmap_load ex_fm [ex_patch] ''f.json'' (Some ''std'') (replicate MAPPING_SZ no_image) None = (ret, ops', imgs')"
    by (rule prod_cases3)
  from flashmap_load_all_or_nothing [OF ex_images0_ok r] r show ?thesis by blast
qed

text \<open>
  C6: The storage filter selects whole programmables. Suppose that a flashmap loads with just a layout
  name as the specifier, and that each programmable of that layout names a storage type the tool knows. What
  it queues then falls into one group for each programmable: the configuration of its storage type and the
  operations of its files, which configure nothing. Adding a slash and a comma-separated list of storage
  names to the specifier keeps exactly the groups of these types, in order and complete, together with
  the same programmer images; when there is no such group, it is an error.
\<close>

theorem flashmap_load_selects:
  assumes "flashmap_load E ops filename (Some layout) imgs incdir = (0, ops @ new, imgs')"
    and "layout \<noteq> []" "CHR ''/'' \<notin> set layout" "CHR '','' \<notin> set layout"
      "decode_storage_type (Some layout) = QDL_STORAGE_UNKNOWN"
    and "images_ok imgs"
    and "\<forall>op \<in> set new. op_type op = FIREHOSE_OP_CONFIGURE \<longrightarrow> op_storage_type op \<noteq> QDL_STORAGE_UNKNOWN"
    and "ts \<noteq> []" "list_all (\<lambda>t. t \<noteq> QDL_STORAGE_UNKNOWN) ts"
  shows "\<exists>groups. new = groups_ops groups \<and> list_all plain_group groups \<and>
    (let kept = groups_ops (filter (\<lambda>(t, _). t \<in> set ts) groups)
     in flashmap_load E ops filename (Some (layout @ ''/'' @ comma_list (names_of ts))) imgs incdir
        = (if kept = [] then -1 else 0, ops @ kept, imgs'))"
proof -
  have plain: "flashmap_decode_specifier (Some layout) = Some (0, Some layout)"
  proof -
    have d: "dropWhile (\<lambda>c. c \<noteq> CHR ''/'') layout = []" using assms(3) by (auto simp: dropWhile_eq_Nil_conv)
    from assms(4,5) show ?thesis unfolding flashmap_decode_specifier_def option.case d list.case by simp
  qed
  obtain f where f: "flashmap_decode_specifier (Some (layout @ ''/'' @ comma_list (names_of ts))) = Some (f, Some layout)"
      "f \<noteq> 0" "\<And>gs. selected f gs = filter (\<lambda>(t, _). t \<in> set ts) gs"
    using decode_specifier_selection [OF assms(2,3,8,9)] by blast
  show ?thesis
  proof (rule flashmap_load_cases [OF plain, of E filename incdir])
    assume "\<And>ops imgs. flashmap_load E ops filename (Some layout) imgs incdir = (-1, ops, imgs)"
    with assms(1) show ?thesis by simp
  next
    fix z json
    assume r: "\<And>s f' ops imgs. flashmap_decode_specifier s = Some (f', Some layout) \<Longrightarrow>
      flashmap_load E ops filename s imgs incdir = load_document E ops (if f' = 0 then -1 else f') (Some layout) imgs incdir z json"
    obtain ret0 gs imgs0 where g: "load_groups_of E (Some layout) imgs incdir z json (ret0, gs, imgs0)"
      using load_document_groups [OF assms(6)] by blast
    have all: "ret0 = 0" "new = groups_ops gs" "imgs' = imgs0" "list_all plain_group gs"
      using g assms(1) unfolding r [OF plain] by (auto simp: load_groups_of_def select_all split: if_splits)
    have "\<forall>g \<in> set gs. fst g \<noteq> QDL_STORAGE_UNKNOWN"
      using assms(7) unfolding all(2) by (fastforce simp: groups_ops_def group_ops_def firehose_alloc_op_def)
    then have "select_ops f QDL_STORAGE_UNKNOWN (groups_ops gs) = groups_ops (filter (\<lambda>(t, _). t \<in> set ts) gs)"
      using select_groups [OF all(4)] f(3) by simp
    then have "flashmap_load E ops filename (Some (layout @ ''/'' @ comma_list (names_of ts))) imgs incdir
        = (if groups_ops (filter (\<lambda>(t, _). t \<in> set ts) gs) = [] then -1 else 0,
           ops @ groups_ops (filter (\<lambda>(t, _). t \<in> set ts) gs), imgs')"
      using g f(2) all unfolding r [OF f(1)] by (simp add: load_groups_of_def)
    with all(2,4) show ?thesis unfolding Let_def by blast
  qed
qed

lemma flashmap_load_selects_witness:
  "\<exists>new groups imgs'. flashmap_load ex_fm [] ''f.json'' (Some ''std'') (replicate MAPPING_SZ no_image) None = (0, new, imgs')
    \<and> new = groups_ops groups \<and> list_all plain_group groups
    \<and> (let kept = groups_ops (filter (\<lambda>(t, _). t = QDL_STORAGE_UFS) groups)
       in flashmap_load ex_fm [] ''f.json'' (Some ''std/ufs'') (replicate MAPPING_SZ no_image) None
          = (if kept = [] then -1 else 0, kept, imgs'))"
proof -
  let ?gs = "[(QDL_STORAGE_UFS, [ex_patch]), (QDL_STORAGE_EMMC, [ex_patch])]"
  have spec: "flashmap_decode_specifier (Some ''std'') = Some (0, Some ''std'')"
    by (simp add: flashmap_decode_specifier_def decode_storage_type_def storage_types_def)
  obtain imgs' where run: "flashmap_load ex_fm [] ''f.json'' (Some ''std'') (replicate MAPPING_SZ no_image) None = (0, [] @ groups_ops ?gs, imgs')"
    using ex_load [OF spec, of "[]" "replicate MAPPING_SZ no_image"] by (auto simp: select_all Let_def group_ops_def)
  have k: "\<forall>op \<in> set (groups_ops ?gs). op_type op = FIREHOSE_OP_CONFIGURE \<longrightarrow> op_storage_type op \<noteq> QDL_STORAGE_UNKNOWN"
    by (simp add: group_ops_def ex_patch_type)
  have u: "decode_storage_type (Some ''std'') = QDL_STORAGE_UNKNOWN" by (simp add: decode_storage_type_def storage_types_def)
  from flashmap_load_selects [OF run _ _ _ u ex_images0_ok k, of "[QDL_STORAGE_UFS]"] run show ?thesis
    by (auto simp: names_of_def encode_storage_type_def storage_types_def Let_def)
qed

end
