(* ===== verification/Pathbuf.thy ===== *)
theory Pathbuf
  imports Prelude
begin

text \<open>
  \<open>src/pathbuf.c\<close> on a POSIX system: paths in a fixed buffer. The buffer is its text up to the
  terminating NUL; \<open>len\<close> is the field of that name. A null pointer argument is \<open>None\<close>.
\<close>

record pathbuf =
  pb_buf :: string
  pb_len :: nat

definition pathbuf_zero :: pathbuf where
  "pathbuf_zero = \<lparr>pb_buf = [], pb_len = 0\<rparr>"

definition qdl_path_is_sep :: "char \<Rightarrow> bool" where
  "qdl_path_is_sep ch \<longleftrightarrow> ch = CHR ''/''"

definition path_is_absolute :: "string \<Rightarrow> bool" where
  "path_is_absolute path \<longleftrightarrow> path \<noteq> [] \<and> hd path = CHR ''/''"

definition qdl_pathbuf_reset :: "pathbuf \<Rightarrow> pathbuf" where
  "qdl_pathbuf_reset path = pathbuf_zero"

text \<open>The part of the component that is copied, given the part kept of the path.\<close>

definition push_skip :: "string \<Rightarrow> bool \<Rightarrow> string \<Rightarrow> string" where
  "push_skip pre need_sep component =
     (let c1 = (case component of a # b # r \<Rightarrow> if a = CHR ''.'' \<and> qdl_path_is_sep b then r else component | _ \<Rightarrow> component)
      in if pre \<noteq> [] \<and> \<not> need_sep then dropWhile qdl_path_is_sep c1 else c1)"

definition qdl_pathbuf_push :: "pathbuf \<Rightarrow> string option \<Rightarrow> int \<times> pathbuf" where
  "qdl_pathbuf_push path component =
     (case component of
        None \<Rightarrow> (- EINVAL, path)
      | Some c \<Rightarrow>
          if c = [] then (0, path)
          else
            let pre = (if path_is_absolute c then [] else take (pb_len path) (pb_buf path));
                need_sep = (pre \<noteq> [] \<and> \<not> qdl_path_is_sep (last pre));
                tail = push_skip pre need_sep c
            in if tail = [] then (0, path)
               else if length pre + (if need_sep then 1 else 0) + length tail + 1 > PATH_MAX then (- ENAMETOOLONG, path)
               else let buf = pre @ (if need_sep then ''/'' else []) @ tail
                    in (0, \<lparr>pb_buf = buf, pb_len = length buf\<rparr>))"

text \<open>The loop that takes trailing separators off, down to the root.\<close>

fun strip_trailing :: "nat \<Rightarrow> string \<Rightarrow> nat \<Rightarrow> string" where
  "strip_trailing root_len s 0 = s"
| "strip_trailing root_len s (Suc n) =
     (if Suc n > root_len \<and> qdl_path_is_sep (s ! n) then strip_trailing root_len (take n s) n else s)"

text \<open>\<open>qdl_pathbuf_last_sep\<close>: the index of the last separator.\<close>

definition qdl_pathbuf_last_sep :: "string \<Rightarrow> nat option" where
  "qdl_pathbuf_last_sep s =
     (let r = dropWhile (\<lambda>c. \<not> qdl_path_is_sep c) (rev s) in if r = [] then None else Some (length r - 1))"

definition qdl_pathbuf_dirname :: "pathbuf \<Rightarrow> pathbuf" where
  "qdl_pathbuf_dirname path =
     (if pb_buf path = [] then path
      else
        let root_len = (if hd (pb_buf path) = CHR ''/'' then 1 else 0);
            len = (if pb_len path = 0 then length (pb_buf path) else pb_len path);
            buf = strip_trailing root_len (pb_buf path) len
        in case qdl_pathbuf_last_sep buf of
             None \<Rightarrow> \<lparr>pb_buf = buf, pb_len = length buf\<rparr>
           | Some sep \<Rightarrow>
               if sep < root_len then \<lparr>pb_buf = take root_len buf, pb_len = root_len\<rparr>
               else \<lparr>pb_buf = take sep buf, pb_len = sep\<rparr>)"

text \<open>\<open>exists\<close> tells what \<open>stat\<close> finds.\<close>

definition qdl_path_exists :: "(string \<Rightarrow> bool) \<Rightarrow> pathbuf \<Rightarrow> bool" where
  "qdl_path_exists exists path \<longleftrightarrow> pb_buf path \<noteq> [] \<and> exists (pb_buf path)"

subsection \<open>The buffer is never left\<close>

definition pathbuf_ok :: "pathbuf \<Rightarrow> bool" where
  "pathbuf_ok p \<longleftrightarrow> pb_len p = length (pb_buf p) \<and> length (pb_buf p) < PATH_MAX"

lemma pathbuf_zero_ok [simp]: "pathbuf_ok pathbuf_zero"
  by (simp add: pathbuf_ok_def pathbuf_zero_def PATH_MAX_def)

lemma push_ok: "pathbuf_ok p \<Longrightarrow> qdl_pathbuf_push p c = (r, p') \<Longrightarrow> pathbuf_ok p'"
  by (auto simp: qdl_pathbuf_push_def pathbuf_ok_def Let_def split: option.splits if_splits)

lemma push_error: "qdl_pathbuf_push p c = (r, p') \<Longrightarrow> r \<noteq> 0 \<Longrightarrow> p' = p"
  by (auto simp: qdl_pathbuf_push_def Let_def split: option.splits if_splits)

lemma strip_trailing_prefix: "length s = n \<Longrightarrow> \<exists>k. strip_trailing r s n = take k s \<and> min r n \<le> k \<and> k \<le> n"
proof (induction n arbitrary: s)
  case 0
  then show ?case by auto
next
  case (Suc n)
  show ?case
  proof (cases "Suc n > r \<and> qdl_path_is_sep (s ! n)")
    case True
    obtain k where "strip_trailing r (take n s) n = take k (take n s)" "min r n \<le> k" "k \<le> n"
      using Suc.IH [of "take n s"] Suc.prems by auto
    with True show ?thesis by (intro exI [of _ k]) (auto simp: min_def split: if_splits)
  qed (use Suc.prems in \<open>auto intro!: exI [of _ "Suc n"]\<close>)
qed

lemma dirname_ok: "pathbuf_ok p \<Longrightarrow> pathbuf_ok (qdl_pathbuf_dirname p)"
proof -
  assume p: "pathbuf_ok p"
  show ?thesis
  proof (cases "pb_buf p = []")
    case True
    with p show ?thesis by (simp add: qdl_pathbuf_dirname_def)
  next
    case False
    let ?r = "if hd (pb_buf p) = CHR ''/'' then 1 else 0 :: nat"
    have len: "(if pb_len p = 0 then length (pb_buf p) else pb_len p) = length (pb_buf p)"
      using p by (simp add: pathbuf_ok_def)
    obtain k where k: "strip_trailing ?r (pb_buf p) (length (pb_buf p)) = take k (pb_buf p)" "min ?r (length (pb_buf p)) \<le> k" "k \<le> length (pb_buf p)"
      using strip_trailing_prefix [of "pb_buf p" "length (pb_buf p)" ?r] by auto
    have sep: "i < length s" if "qdl_pathbuf_last_sep s = Some i" for s i
      using that length_dropWhile_le [of "\<lambda>c. \<not> qdl_path_is_sep c" "rev s"]
      by (cases "dropWhile (\<lambda>c. \<not> qdl_path_is_sep c) (rev s)") (auto simp: qdl_pathbuf_last_sep_def Let_def)
    from False have "Suc 0 \<le> length (pb_buf p)" by (cases "pb_buf p") auto
    then show ?thesis
      using False p k len sep [of "take k (pb_buf p)"]
      by (auto simp: qdl_pathbuf_dirname_def Let_def pathbuf_ok_def split: option.split)
  qed
qed

end
