(* ===== verification/Contents.thy ===== *)
theory Contents
  imports Programmer Pathbuf
begin

text \<open>
  \<open>src/contents.c\<close>: the description of a build, \<open>contents.xml\<close>, with its product flavors and its files;
  the selection of storage types and flavors; and the loader of the operations and programmer images.
\<close>

subsection \<open>Documents\<close>

text \<open>An element, the text \<open>xmlNodeGetContent\<close> makes of it, and its children.\<close>

datatype xtree = XTree (xt_node: xml_node) (xt_text: string) (xt_children: "xtree list")

abbreviation xt_named :: "string \<Rightarrow> xtree \<Rightarrow> bool" where
  "xt_named n t \<equiv> xn_element (xt_node t) \<and> xn_name (xt_node t) = n"

text \<open>
  What the loader asks of the system: the files, whether a path exists, and what libxml2 reads from a
  file and from memory (the name of the root element and its children).
\<close>

record ct_env =
  ct_fs :: file_system
  ct_exists :: "string \<Rightarrow> bool"
  ct_xml :: "string \<Rightarrow> (string \<times> xtree list) option"
  ct_mem :: "u8 list \<Rightarrow> (string \<times> xtree list) option"

definition flat_xml :: "ct_env \<Rightarrow> string \<Rightarrow> xml_node list option" where
  "flat_xml E f = map_option (\<lambda>(r, ts). map xt_node ts) (ct_xml E f)"

definition config_xml :: "ct_env \<Rightarrow> u8 list \<Rightarrow> xml_tree option" where
  "config_xml E b = map_option (\<lambda>(r, ts). (r, map (\<lambda>t. (xt_node t, map xt_node (xt_children t))) ts)) (ct_mem E b)"

subsection \<open>State\<close>

datatype contents_file_type =
    CONTENTS_FILE_OTHER | CONTENTS_FILE_PROGRAM | CONTENTS_FILE_PATCH
  | CONTENTS_FILE_DEVICE_PROGRAMMER | CONTENTS_FILE_PROGRAMMER_XML

datatype firehose_type = FIREHOSE_TYPE_NONE | FIREHOSE_TYPE_LITE | FIREHOSE_TYPE_TRUE

record contents_entry =
  ce_file_type :: contents_file_type
  ce_storage_type :: storage_type
  ce_flavor :: "string option"
  ce_filename :: string
  ce_path :: pathbuf
  ce_firehose_type :: firehose_type

record contents =
  ct_entries :: "contents_entry list"
  ct_base_dir :: pathbuf
  ct_flavors :: "string list"

definition contents_empty :: contents where
  "contents_empty = \<lparr>ct_entries = [], ct_base_dir = pathbuf_zero, ct_flavors = []\<rparr>"

subsection \<open>Parsing\<close>

definition contents_node_get_text :: "xtree \<Rightarrow> string" where
  "contents_node_get_text t =
     rev (dropWhile c_isspace (rev (dropWhile c_isspace (xt_text t))))"

definition contents_entry_is_ignored :: "xtree \<Rightarrow> bool" where
  "contents_entry_is_ignored t \<longleftrightarrow> xn_get (xt_node t) ''ignore'' = Some ''true''"

definition contents_parse_pf :: "contents \<Rightarrow> xtree list \<Rightarrow> int \<times> contents" where
  "contents_parse_pf c nodes =
     (case find (xt_named ''name'') nodes of
        None \<Rightarrow> (-1, c)
      | Some t \<Rightarrow> (0, c\<lparr>ct_flavors := ct_flavors c @ [contents_node_get_text t]\<rparr>))"

fun contents_parse_pfs :: "contents \<Rightarrow> xtree list \<Rightarrow> int \<times> contents" where
  "contents_parse_pfs c [] = (0, c)"
| "contents_parse_pfs c (t # ts) =
     (if xt_named ''pf'' t then
        (case contents_parse_pf c (xt_children t) of
           (ret, c') \<Rightarrow> if ret < 0 then (-1, c') else contents_parse_pfs c' ts)
      else contents_parse_pfs c ts)"

definition contents_detect_file_type :: "xtree \<Rightarrow> contents_file_type \<times> firehose_type" where
  "contents_detect_file_type t =
     (let n = xn_name (xt_node t);
          type = (if n = ''device_programmer'' then CONTENTS_FILE_DEVICE_PROGRAMMER
             else if n = ''partition_patch_file'' then CONTENTS_FILE_PATCH
             else if n = ''partition_file'' then CONTENTS_FILE_PROGRAM
             else CONTENTS_FILE_OTHER)
      in case xn_get (xt_node t) ''firehose_type'' of
           None \<Rightarrow> (type, FIREHOSE_TYPE_NONE)
         | Some v \<Rightarrow>
             if v = ''true'' then (CONTENTS_FILE_PROGRAMMER_XML, FIREHOSE_TYPE_TRUE)
             else if v = ''lite'' then (type, FIREHOSE_TYPE_LITE)
             else (type, FIREHOSE_TYPE_NONE))"

definition contents_detect_storage_type :: "xtree \<Rightarrow> storage_type" where
  "contents_detect_storage_type t =
     (case xn_get (xt_node t) ''storage_type'' of
        None \<Rightarrow> QDL_STORAGE_UNKNOWN | Some s \<Rightarrow> decode_storage_type (Some s))"

text \<open>A \<open>${var:default}\<close> at the front: the default and what follows the brace.\<close>

definition path_var :: "string \<Rightarrow> (string \<times> string) option" where
  "path_var s =
     (case s of
        a # b # t \<Rightarrow>
          if a = CHR ''$'' \<and> b = CHR ''{'' then
            (case dropWhile (\<lambda>c. c \<noteq> CHR '':'') t of
               [] \<Rightarrow> None
             | _ # u \<Rightarrow>
                 (case dropWhile (\<lambda>c. c \<noteq> CHR ''}'') u of
                    [] \<Rightarrow> None
                  | _ # r \<Rightarrow> Some (takeWhile (\<lambda>c. c \<noteq> CHR ''}'') u, r)))
          else None
      | _ \<Rightarrow> None)"

lemma path_var_shorter: "path_var s = Some (d, r) \<Longrightarrow> length r < length s"
proof -
  assume p: "path_var s = Some (d, r)"
  then obtain t u1 u v where "s = CHR ''$'' # CHR ''{'' # t" "dropWhile (\<lambda>c. c \<noteq> CHR '':'') t = u1 # u"
      "dropWhile (\<lambda>c. c \<noteq> CHR ''}'') u = v # r"
    by (auto simp: path_var_def split: list.splits if_splits)
  then show ?thesis
    using length_dropWhile_le [of "\<lambda>c. c \<noteq> CHR '':''" t] length_dropWhile_le [of "\<lambda>c. c \<noteq> CHR ''}''" u] by simp
qed

function expand_vars :: "string \<Rightarrow> string" where
  "expand_vars s =
     (case path_var s of
        Some (d, r) \<Rightarrow> d @ expand_vars r
      | None \<Rightarrow> (case s of [] \<Rightarrow> [] | c # t \<Rightarrow> c # expand_vars t))"
  by pat_completeness auto
termination by (relation "measure length") (auto dest: path_var_shorter)

declare expand_vars.simps [simp del]

definition contents_expand_path_vars :: "pathbuf \<Rightarrow> pathbuf" where
  "contents_expand_path_vars path = (let s = expand_vars (pb_buf path) in \<lparr>pb_buf = s, pb_len = length s\<rparr>)"

text \<open>The files of an entry below one \<open>file_path\<close>.\<close>

fun contents_parse_file_names ::
  "contents \<Rightarrow> contents_file_type \<Rightarrow> pathbuf \<Rightarrow> string option \<Rightarrow> storage_type \<Rightarrow> firehose_type \<Rightarrow> xtree list
    \<Rightarrow> int \<times> contents" where
  "contents_parse_file_names c ft current flavor storage fh [] = (0, c)"
| "contents_parse_file_names c ft current flavor storage fh (t # ts) =
     (if \<not> xt_named ''file_name'' t then contents_parse_file_names c ft current flavor storage fh ts
      else
        let filename = contents_node_get_text t in
        if CHR ''*'' \<in> set filename then contents_parse_file_names c ft current flavor storage fh ts
        else case qdl_pathbuf_push current (Some filename) of
          (ret, full_path) \<Rightarrow>
            if ret < 0 then (-1, c)
            else
              let entry = \<lparr>ce_file_type = ft, ce_storage_type = storage, ce_flavor = flavor, ce_filename = filename,
                           ce_path = contents_expand_path_vars full_path, ce_firehose_type = fh\<rparr>
              in contents_parse_file_names (c\<lparr>ct_entries := ct_entries c @ [entry]\<rparr>) ft current flavor storage fh ts)"

text \<open>The \<open>file_path\<close> children of an entry, each with all \<open>file_name\<close> children.\<close>

fun entry_paths ::
  "contents \<Rightarrow> contents_file_type \<Rightarrow> firehose_type \<Rightarrow> storage_type \<Rightarrow> pathbuf \<Rightarrow> xtree list \<Rightarrow> xtree list
    \<Rightarrow> int \<times> contents" where
  "entry_paths c ft fh storage build_root names [] = (0, c)"
| "entry_paths c ft fh storage build_root names (t # ts) =
     (if \<not> xt_named ''file_path'' t then entry_paths c ft fh storage build_root names ts
      else case qdl_pathbuf_push build_root (Some (contents_node_get_text t)) of
        (ret, file_path) \<Rightarrow>
          if ret < 0 then (-1, c)
          else (case contents_parse_file_names c ft file_path (xn_get (xt_node t) ''flavor'') storage fh names of
            (ret, c') \<Rightarrow> if ret < 0 then (ret, c') else entry_paths c' ft fh storage build_root names ts))"

definition contents_parse_entry :: "contents \<Rightarrow> xtree \<Rightarrow> pathbuf option \<Rightarrow> int \<times> contents" where
  "contents_parse_entry c t build_root =
     (case build_root of
        None \<Rightarrow> (-1, c)
      | Some root \<Rightarrow>
          if contents_entry_is_ignored t then (0, c)
          else (case contents_detect_file_type t of
            (ft, fh) \<Rightarrow> entry_paths c ft fh (contents_detect_storage_type t) root (xt_children t) (xt_children t)))"

definition contents_is_entry_node :: "xtree \<Rightarrow> bool" where
  "contents_is_entry_node t \<longleftrightarrow>
     xn_name (xt_node t) \<in> {''download_file'', ''file_ref'', ''partition_file'', ''partition_patch_file'', ''device_programmer''}"

abbreviation ROOT_PATH_TAG :: string where "ROOT_PATH_TAG \<equiv> ''linux_root_path''"

text \<open>The root path of the build is an argument and a result; \<open>None\<close> is a null pointer.\<close>

function contents_parse_builds ::
  "contents \<Rightarrow> pathbuf option \<Rightarrow> xtree list \<Rightarrow> int \<times> contents \<times> pathbuf option" where
  "contents_parse_builds c root_path [] = (0, c, root_path)"
| "contents_parse_builds c root_path (t # ts) =
     (if \<not> xn_element (xt_node t) then contents_parse_builds c root_path ts
      else if xn_name (xt_node t) = ''build'' then
        (case contents_parse_builds c (Some pathbuf_zero) (xt_children t) of
           (ret, c', _) \<Rightarrow> if ret < 0 then (ret, c', root_path) else contents_parse_builds c' root_path ts)
      else if xn_name (xt_node t) = ROOT_PATH_TAG then
        (if root_path = None then (-1, c, root_path)
         else case qdl_pathbuf_push (ct_base_dir c) (Some (contents_node_get_text t)) of
           (ret, p) \<Rightarrow> if ret < 0 then (-1, c, Some p) else contents_parse_builds c (Some p) ts)
      else if contents_is_entry_node t then
        (case contents_parse_entry c t root_path of
           (ret, c') \<Rightarrow> if ret < 0 then (ret, c', root_path) else contents_parse_builds c' root_path ts)
      else contents_parse_builds c root_path ts)"
  by pat_completeness auto
termination
proof (relation "measure (\<lambda>(c, root, ts). size_list size ts)", goal_cases)
  case (3 c root t ts)
  then show ?case by (cases t) simp
qed simp_all

fun contents_parse_nodes :: "contents \<Rightarrow> xtree list \<Rightarrow> int \<times> contents" where
  "contents_parse_nodes c [] = (0, c)"
| "contents_parse_nodes c (t # ts) =
     (if xt_named ''product_flavors'' t then
        (case contents_parse_pfs c (xt_children t) of
           (ret, c') \<Rightarrow> if ret < 0 then (ret, c') else contents_parse_nodes c' ts)
      else if xt_named ''builds_flat'' t then
        (case contents_parse_builds c None (xt_children t) of
           (ret, c', _) \<Rightarrow> if ret < 0 then (ret, c') else contents_parse_nodes c' ts)
      else contents_parse_nodes c ts)"

definition contents_get_base_dir :: "string \<Rightarrow> pathbuf" where
  "contents_get_base_dir filename = qdl_pathbuf_dirname (snd (qdl_pathbuf_push (qdl_pathbuf_reset pathbuf_zero) (Some filename)))"

definition contents_load_xml :: "ct_env \<Rightarrow> contents \<Rightarrow> string \<Rightarrow> int \<times> contents" where
  "contents_load_xml E c filename =
     (case ct_xml E filename of
        None \<Rightarrow> (-1, c)
      | Some (rootname, ts) \<Rightarrow>
          if rootname \<noteq> ''contents'' then (-1, c)
          else
            (case contents_parse_nodes (c\<lparr>ct_base_dir := contents_get_base_dir filename\<rparr>) ts of
               (ret, c') \<Rightarrow> (if ret < 0 then -1 else 0, c')))"

subsection \<open>Filters\<close>

type_synonym contents_selector = "storage_type \<times> string option"

record contents_filter =
  cf_contents :: contents
  cf_storage_type :: storage_type
  cf_flavor :: "string option"

text \<open>The flavor of the entry, if it has one, agrees with the flavor of the filter, if that has one.\<close>

definition flavor_agrees :: "string option \<Rightarrow> string option \<Rightarrow> bool" where
  "flavor_agrees entry_flavor flavor \<longleftrightarrow> entry_flavor = None \<or> flavor = None \<or> entry_flavor = flavor"

definition resolvable :: "contents_filter \<Rightarrow> contents_entry \<Rightarrow> bool" where
  "resolvable f e \<longleftrightarrow> (ce_storage_type e = QDL_STORAGE_UNKNOWN \<or> ce_storage_type e = cf_storage_type f)
     \<and> flavor_agrees (ce_flavor e) (cf_flavor f)"

text \<open>\<open>contents_resolve_path\<close>: an entry of that name, or the name next to an entry.\<close>

definition probe_path :: "string \<Rightarrow> contents_entry \<Rightarrow> pathbuf" where
  "probe_path filename e = snd (qdl_pathbuf_push (qdl_pathbuf_dirname (ce_path e)) (Some filename))"

definition contents_resolve_path :: "(string \<Rightarrow> bool) \<Rightarrow> contents_filter option \<Rightarrow> string \<Rightarrow> string option" where
  "contents_resolve_path exists flt filename =
     (case flt of
        None \<Rightarrow> None
      | Some f \<Rightarrow>
          (let es = filter (resolvable f) (ct_entries (cf_contents f)) in
           case find (\<lambda>e. ce_filename e = filename) es of
             Some e \<Rightarrow> Some (pb_buf (ce_path e))
           | None \<Rightarrow> map_option (\<lambda>e. pb_buf (probe_path filename e))
                      (find (\<lambda>e. exists (pb_buf (probe_path filename e))) es)))"

subsection \<open>Programmers\<close>

definition programmer_eligible :: "contents_filter \<Rightarrow> contents_entry \<Rightarrow> bool" where
  "programmer_eligible f e \<longleftrightarrow>
     (cf_storage_type f = QDL_STORAGE_UNKNOWN \<or> ce_storage_type e = QDL_STORAGE_UNKNOWN \<or> ce_storage_type e = cf_storage_type f)
     \<and> flavor_agrees (ce_flavor e) (cf_flavor f)"

text \<open>The first loop: \<open>Some\<close> when it returned, with the result.\<close>

fun find_programmer_xml :: "ct_env \<Rightarrow> contents_filter \<Rightarrow> images \<Rightarrow> contents_entry list \<Rightarrow> int option \<times> images" where
  "find_programmer_xml E f imgs [] = (None, imgs)"
| "find_programmer_xml E f imgs (e # es) =
     (if ce_file_type e \<noteq> CONTENTS_FILE_PROGRAMMER_XML \<or> \<not> programmer_eligible f e then find_programmer_xml E f imgs es
      else case load_sahara_image None (ct_fs E) (pb_buf (ce_path e)) of
        None \<Rightarrow> find_programmer_xml E f imgs es
      | Some blob \<Rightarrow>
          (case decode_sahara_config (config_xml E) (contents_resolve_path (ct_exists E) (Some f)) (ct_fs E) blob imgs of
             (ret, _, imgs') \<Rightarrow>
               if ret = 0 then find_programmer_xml E f imgs' es
               else if ret < 0 then (Some (-1), imgs')
               else (Some 0, imgs')))"

fun find_device_programmer :: "ct_env \<Rightarrow> contents_filter \<Rightarrow> images \<Rightarrow> contents_entry list \<Rightarrow> int \<times> images" where
  "find_device_programmer E f imgs [] = (-1, imgs)"
| "find_device_programmer E f imgs (e # es) =
     (if ce_file_type e \<noteq> CONTENTS_FILE_DEVICE_PROGRAMMER \<or> \<not> programmer_eligible f e
         \<or> ce_firehose_type e = FIREHOSE_TYPE_LITE then find_device_programmer E f imgs es
      else case load_sahara_image None (ct_fs E) (pb_buf (ce_path e)) of
        None \<Rightarrow> find_device_programmer E f imgs es
      | Some im \<Rightarrow> (0, imgs[SAHARA_ID_EHOSTDL_IMG := im]))"

definition contents_find_programmers :: "ct_env \<Rightarrow> contents \<Rightarrow> contents_filter \<Rightarrow> images \<Rightarrow> int \<times> images" where
  "contents_find_programmers E c f imgs =
     (case find_programmer_xml E f imgs (ct_entries c) of
        (Some ret, imgs') \<Rightarrow> (ret, imgs')
      | (None, imgs') \<Rightarrow> find_device_programmer E f imgs' (ct_entries c))"

subsection \<open>Selectors\<close>

definition flashable :: "contents_entry \<Rightarrow> bool" where
  "flashable e \<longleftrightarrow> ce_file_type e = CONTENTS_FILE_PROGRAM \<or> ce_file_type e = CONTENTS_FILE_PATCH"

definition contents_selector_is_known :: "contents_selector list \<Rightarrow> storage_type \<Rightarrow> string option \<Rightarrow> bool" where
  "contents_selector_is_known selectors storage flavor \<longleftrightarrow> list_ex (\<lambda>(s, f). s = storage \<and> f = flavor) selectors"

definition contents_storage_is_selected :: "contents_selector list \<Rightarrow> storage_type \<Rightarrow> bool" where
  "contents_storage_is_selected selectors storage \<longleftrightarrow> list_ex (\<lambda>(s, f). s = storage) selectors"

definition contents_storage_has_flavored_entries :: "contents \<Rightarrow> storage_type \<Rightarrow> bool" where
  "contents_storage_has_flavored_entries c storage \<longleftrightarrow>
     list_ex (\<lambda>e. flashable e \<and> ce_storage_type e = storage \<and> ce_flavor e \<noteq> None) (ct_entries c)"

fun collect_selectors :: "contents \<Rightarrow> contents_selector list \<Rightarrow> contents_entry list \<Rightarrow> contents_selector list" where
  "collect_selectors c selectors [] = selectors"
| "collect_selectors c selectors (e # es) =
     (if \<not> flashable e \<or> ce_storage_type e = QDL_STORAGE_UNKNOWN
         \<or> (ce_flavor e = None \<and> contents_storage_has_flavored_entries c (ce_storage_type e))
         \<or> contents_selector_is_known selectors (ce_storage_type e) (ce_flavor e)
      then collect_selectors c selectors es
      else collect_selectors c (selectors @ [(ce_storage_type e, ce_flavor e)]) es)"

definition contents_collect_valid_selectors :: "contents \<Rightarrow> contents_selector list" where
  "contents_collect_valid_selectors c = collect_selectors c [] (ct_entries c)"

definition contents_flavor_is_valid :: "contents \<Rightarrow> string \<Rightarrow> bool" where
  "contents_flavor_is_valid c flavor \<longleftrightarrow> flavor \<in> set (ct_flavors c)"

text \<open>The number of valid selectors with a storage type, or a flavor, and the last of them.\<close>

definition contents_select_by_storage :: "contents_selector list \<Rightarrow> storage_type \<Rightarrow> contents_selector list" where
  "contents_select_by_storage valid storage = filter (\<lambda>(s, f). s = storage) valid"

definition contents_select_by_flavor :: "contents_selector list \<Rightarrow> string \<Rightarrow> contents_selector list" where
  "contents_select_by_flavor valid flavor = filter (\<lambda>(s, f). f = Some flavor) valid"

definition decode_token :: "contents \<Rightarrow> contents_selector list \<Rightarrow> string \<Rightarrow> contents_selector option" where
  "decode_token c valid token =
     (let only = (\<lambda>ms. case ms of [m] \<Rightarrow> Some m | _ \<Rightarrow> None) in
      case dropWhile (\<lambda>ch. ch \<noteq> CHR ''/'') token of
        [] \<Rightarrow>
          (let storage = decode_storage_type (Some token) in
           if storage \<noteq> QDL_STORAGE_UNKNOWN then only (contents_select_by_storage valid storage)
           else only (contents_select_by_flavor valid token))
      | _ # flavor \<Rightarrow>
          (let st = takeWhile (\<lambda>ch. ch \<noteq> CHR ''/'') token; storage = decode_storage_type (Some st) in
           if st = [] \<or> flavor = [] \<or> CHR ''/'' \<in> set flavor \<or> \<not> contents_flavor_is_valid c flavor
              \<or> storage = QDL_STORAGE_UNKNOWN \<or> \<not> contents_selector_is_known valid storage (Some flavor)
           then None else Some (storage, Some flavor)))"

fun decode_tokens :: "contents \<Rightarrow> contents_selector list \<Rightarrow> contents_selector list \<Rightarrow> string list \<Rightarrow> contents_selector list option" where
  "decode_tokens c valid selectors [] = Some selectors"
| "decode_tokens c valid selectors (token # tokens) =
     (case decode_token c valid token of
        None \<Rightarrow> None
      | Some sel \<Rightarrow>
          if contents_storage_is_selected selectors (fst sel) then None
          else decode_tokens c valid (selectors @ [sel]) tokens)"

definition contents_decode_selectors :: "contents \<Rightarrow> string option \<Rightarrow> contents_selector list option" where
  "contents_decode_selectors c pattern =
     (let valid = contents_collect_valid_selectors c in
      if valid = [] then None
      else case pattern of
        None \<Rightarrow> if length valid = 1 then Some valid else None
      | Some p \<Rightarrow> if p = [] then None else decode_tokens c valid [] (strtok_comma p))"

subsection \<open>Loading\<close>

definition applies :: "contents_file_type \<Rightarrow> contents_selector \<Rightarrow> contents_entry \<Rightarrow> bool" where
  "applies ft sel e \<longleftrightarrow> ce_file_type e = ft
     \<and> (ce_storage_type e = QDL_STORAGE_UNKNOWN \<or> ce_storage_type e = fst sel)
     \<and> (ce_flavor e = None \<or> ce_flavor e = snd sel)"

fun load_entries :: "(firehose_op list \<Rightarrow> contents_entry \<Rightarrow> int \<times> firehose_op list) \<Rightarrow> int \<Rightarrow> firehose_op list \<Rightarrow> contents_entry list
    \<Rightarrow> int \<times> firehose_op list" where
  "load_entries load ret ops [] = (ret, ops)"
| "load_entries load ret ops (e # es) =
     (case load ops e of (ret', ops') \<Rightarrow> if ret' < 0 then (ret', ops') else load_entries load ret' ops' es)"

fun load_selectors :: "ct_env \<Rightarrow> contents \<Rightarrow> string option \<Rightarrow> int \<Rightarrow> firehose_op list \<Rightarrow> contents_selector list
    \<Rightarrow> int \<times> firehose_op list" where
  "load_selectors E c incdir ret ops [] = (ret, ops)"
| "load_selectors E c incdir ret ops (sel # sels) =
     (let flt = \<lparr>cf_contents = c, cf_storage_type = fst sel, cf_flavor = snd sel\<rparr>;
          op = (firehose_alloc_op FIREHOSE_OP_CONFIGURE)\<lparr>op_storage_type := fst sel\<rparr>;
          program = (\<lambda>ops e. program_load (flat_xml E) ops (ct_fs E) (pb_buf (ce_path e)) (fst sel = QDL_STORAGE_NAND) False
                       (contents_resolve_path (ct_exists E) (Some flt)) (ct_exists E) incdir);
          patch = (\<lambda>ops e. patch_load (flat_xml E) ops (pb_buf (ce_path e)))
      in case load_entries program ret (ops @ [op]) (filter (applies CONTENTS_FILE_PROGRAM sel) (ct_entries c)) of
           (ret1, ops1) \<Rightarrow>
             if ret1 < 0 then (ret1, ops1)
             else case load_entries patch ret1 ops1 (filter (applies CONTENTS_FILE_PATCH sel) (ct_entries c)) of
               (ret2, ops2) \<Rightarrow>
                 if ret2 < 0 then (ret2, ops2) else load_selectors E c incdir ret2 ops2 sels)"

definition contents_load ::
  "ct_env \<Rightarrow> firehose_op list \<Rightarrow> string \<Rightarrow> string option \<Rightarrow> images \<Rightarrow> string option
    \<Rightarrow> int \<times> firehose_op list \<times> images" where
  "contents_load E ops filename specifier imgs incdir =
     (case contents_load_xml E contents_empty filename of
        (ret, c) \<Rightarrow>
          if ret < 0 then (ret, ops, imgs)
          else case contents_decode_selectors c specifier of
            None \<Rightarrow> (-1, ops, imgs)
          | Some selectors \<Rightarrow>
              if selectors = [] then (-1, ops, imgs)
              else case contents_find_programmers E c
                  \<lparr>cf_contents = c, cf_storage_type = QDL_STORAGE_UNKNOWN, cf_flavor = None\<rparr> imgs of
                (ret, imgs') \<Rightarrow>
                  if ret < 0 then (ret, ops, imgs')
                  else case load_selectors E c incdir ret ops selectors of (ret', ops') \<Rightarrow> (ret', ops', imgs'))"

definition contents_load_programmers ::
  "ct_env \<Rightarrow> string \<Rightarrow> string option \<Rightarrow> images \<Rightarrow> int \<times> images" where
  "contents_load_programmers E filename specifier imgs =
     (case contents_load_xml E contents_empty filename of
        (ret, c) \<Rightarrow>
          if ret < 0 then (ret, imgs)
          else case contents_decode_selectors c specifier of
            Some [sel] \<Rightarrow> contents_find_programmers E c
              \<lparr>cf_contents = c, cf_storage_type = fst sel, cf_flavor = snd sel\<rparr> imgs
          | _ \<Rightarrow> (-1, imgs))"

end
