(* ===== verification/ContentsProps.thy ===== *)
theory ContentsProps
  imports Contents OpGroups ProgrammerProps
begin

text \<open>
  Properties of \<open>contents.xml\<close> loading: the directory paths are relative to, the selectors a build
  offers and accepts, and what a run leaves in the queue and in the image table.
\<close>

subsection \<open>The base directory\<close>

lemma last_sep_none: "CHR ''/'' \<notin> set s \<Longrightarrow> qdl_pathbuf_last_sep s = None"
proof -
  assume "CHR ''/'' \<notin> set s"
  then have "dropWhile (\<lambda>c. \<not> qdl_path_is_sep c) (rev s) = []"
    by (auto simp: qdl_path_is_sep_def dropWhile_eq_Nil_conv)
  then show ?thesis by (simp add: qdl_pathbuf_last_sep_def)
qed

lemma last_sep_append: "CHR ''/'' \<notin> set n \<Longrightarrow> qdl_pathbuf_last_sep (d @ CHR ''/'' # n) = Some (length d)"
proof -
  assume n: "CHR ''/'' \<notin> set n"
  have "dropWhile (\<lambda>c. \<not> qdl_path_is_sep c) (rev n @ CHR ''/'' # rev d) = CHR ''/'' # rev d"
    using n by (subst dropWhile_append2) (auto simp: qdl_path_is_sep_def)
  then show ?thesis by (simp add: qdl_pathbuf_last_sep_def)
qed

lemma strip_trailing_stop: "length s = Suc n \<Longrightarrow> \<not> qdl_path_is_sep (last s) \<Longrightarrow> strip_trailing r s (Suc n) = s"
proof -
  assume l: "length s = Suc n" "\<not> qdl_path_is_sep (last s)"
  then have "last s = s ! n" by (subst last_conv_nth) auto
  with l show ?thesis by simp
qed

lemma last_plain: "n \<noteq> [] \<Longrightarrow> c \<notin> set n \<Longrightarrow> last n \<noteq> c"
  using last_in_set by fastforce

lemma dirname_path:
  assumes "pb_buf p = d @ CHR ''/'' # n" "pb_len p = length (pb_buf p)" "n \<noteq> []" "CHR ''/'' \<notin> set n" "d \<noteq> []"
  shows "qdl_pathbuf_dirname p = \<lparr>pb_buf = d, pb_len = length d\<rparr>"
proof -
  have l: "last (d @ CHR ''/'' # n) \<noteq> CHR ''/''" using last_plain [OF assms(3,4)] assms(3) by simp
  have s: "strip_trailing r (d @ CHR ''/'' # n) (length (d @ CHR ''/'' # n)) = d @ CHR ''/'' # n" for r
    using strip_trailing_stop [of "d @ CHR ''/'' # n" "length d + length n" r] l by (simp add: qdl_path_is_sep_def del: strip_trailing.simps)
  show ?thesis using assms s last_sep_append [OF assms(4), of d] by (cases d) (simp_all add: qdl_pathbuf_dirname_def Let_def del: strip_trailing.simps)
qed

lemma dirname_bare:
  assumes "pb_len p = length (pb_buf p)" "pb_buf p \<noteq> []" "CHR ''/'' \<notin> set (pb_buf p)"
  shows "qdl_pathbuf_dirname p = p"
proof -
  obtain c s where b: "pb_buf p = c # s" using assms(2) by (cases "pb_buf p") auto
  have s: "strip_trailing 0 (pb_buf p) (length (pb_buf p)) = pb_buf p"
    using strip_trailing_stop [of "pb_buf p" "length s" 0] last_plain [OF assms(2,3)] b by (simp add: qdl_path_is_sep_def del: strip_trailing.simps last.simps)
  have "hd (pb_buf p) \<noteq> CHR ''/''" using assms(3) b by auto
  then show ?thesis using assms s last_sep_none [OF assms(3)] by (simp add: qdl_pathbuf_dirname_def Let_def del: strip_trailing.simps)
qed

text \<open>A component without a leading separator or dot is appended behind one separator.\<close>

lemma push_plain:
  assumes "c \<noteq> []" "hd c \<noteq> CHR ''/''" "hd c \<noteq> CHR ''.''" "pb_len p = length (pb_buf p)"
    and "length (pb_buf p) + length c + 2 \<le> PATH_MAX"
  shows "qdl_pathbuf_push p (Some c) =
    (0, let b = pb_buf p @ (if pb_buf p \<noteq> [] \<and> last (pb_buf p) \<noteq> CHR ''/'' then ''/'' else []) @ c in \<lparr>pb_buf = b, pb_len = length b\<rparr>)"
proof -
  obtain a r where c: "c = a # r" using assms(1) by (cases c) auto
  then have k: "push_skip pre n (a # r) = a # r" for pre n
    using assms(2,3) by (auto simp: push_skip_def qdl_path_is_sep_def Let_def split: list.split)
  show ?thesis using assms c by (simp add: qdl_pathbuf_push_def path_is_absolute_def k Let_def qdl_path_is_sep_def)
qed

text \<open>
  What paths in a contents file are relative to. For a file named with a directory it is that
  directory, so a relative root path \<open>r\<close> of a build becomes \<open>d/r\<close>. For a file named without a
  directory it is the name of the file itself: \<open>r\<close> becomes \<open>contents.xml/r\<close>, a path below a regular
  file, and no file of the build can be found.
\<close>

theorem contents_base_dir_of_name:
  assumes "name \<noteq> []" "CHR ''/'' \<notin> set name" "hd name \<noteq> CHR ''.''"
    and "r \<noteq> []" "hd r \<noteq> CHR ''/''" "hd r \<noteq> CHR ''.''"
    and "d \<noteq> []" "last d \<noteq> CHR ''/''" "hd d \<noteq> CHR ''.''"
    and "length d + length name + length r + 4 \<le> PATH_MAX"
  shows "pb_buf (snd (qdl_pathbuf_push (contents_get_base_dir (d @ ''/'' @ name)) (Some r))) = d @ ''/'' @ r
    \<and> pb_buf (snd (qdl_pathbuf_push (contents_get_base_dir name) (Some r))) = name @ ''/'' @ r"
proof -
  have z: "qdl_pathbuf_reset pathbuf_zero = pathbuf_zero" by (simp add: qdl_pathbuf_reset_def)
  have push0: "qdl_pathbuf_push pathbuf_zero (Some s) = (0, \<lparr>pb_buf = s, pb_len = length s\<rparr>)"
    if "s \<noteq> []" "hd s \<noteq> CHR ''.''" "length s + 2 \<le> PATH_MAX" for s
    using that by (cases s)
      (auto simp: qdl_pathbuf_push_def pathbuf_zero_def push_skip_def Let_def split: list.split)
  have "contents_get_base_dir (d @ ''/'' @ name) = \<lparr>pb_buf = d, pb_len = length d\<rparr>"
    using push0 [of "d @ ''/'' @ name"] dirname_path [of "\<lparr>pb_buf = d @ CHR ''/'' # name, pb_len = length d + length name + 1\<rparr>" d name] assms
    by (simp add: contents_get_base_dir_def z)
  then have dir: "pb_buf (snd (qdl_pathbuf_push (contents_get_base_dir (d @ ''/'' @ name)) (Some r))) = d @ ''/'' @ r"
    using push_plain [of r "\<lparr>pb_buf = d, pb_len = length d\<rparr>"] assms by (simp add: Let_def)
  have "contents_get_base_dir name = \<lparr>pb_buf = name, pb_len = length name\<rparr>"
    using push0 [of name] dirname_bare [of "\<lparr>pb_buf = name, pb_len = length name\<rparr>"] assms
    by (simp add: contents_get_base_dir_def z)
  moreover have "last name \<noteq> CHR ''/''" using assms(1,2) by (rule last_plain)
  ultimately have "pb_buf (snd (qdl_pathbuf_push (contents_get_base_dir name) (Some r))) = name @ ''/'' @ r"
    using push_plain [of r "\<lparr>pb_buf = name, pb_len = length name\<rparr>"] assms by (simp add: Let_def)
  with dir show ?thesis ..
qed

lemma contents_base_dir_of_name_witness:
  "pb_buf (snd (qdl_pathbuf_push (contents_get_base_dir ''b/contents.xml'') (Some ''out''))) = ''b/out''
   \<and> pb_buf (snd (qdl_pathbuf_push (contents_get_base_dir ''contents.xml'') (Some ''out''))) = ''contents.xml/out''"
  using contents_base_dir_of_name [of "''contents.xml''" "''out''" "''b''"] by (simp add: PATH_MAX_def)

subsection \<open>Selectors\<close>

text \<open>
  What a build offers: the storage type and flavor of a program or patch file, without a flavor only
  when no such file of that storage type has one.
\<close>

definition offered :: "contents \<Rightarrow> contents_selector \<Rightarrow> bool" where
  "offered c sel \<longleftrightarrow> fst sel \<noteq> QDL_STORAGE_UNKNOWN \<and>
     (\<exists>e \<in> set (ct_entries c). flashable e \<and> ce_storage_type e = fst sel \<and> ce_flavor e = snd sel) \<and>
     (snd sel = None \<longrightarrow> (\<forall>e \<in> set (ct_entries c). flashable e \<longrightarrow> ce_storage_type e = fst sel \<longrightarrow> ce_flavor e = None))"

lemma known_iff: "contents_selector_is_known sels s f \<longleftrightarrow> (s, f) \<in> set sels"
  by (auto simp: contents_selector_is_known_def list_ex_iff)

lemma has_flavored_iff:
  "contents_storage_has_flavored_entries c s \<longleftrightarrow>
   (\<exists>e \<in> set (ct_entries c). flashable e \<and> ce_storage_type e = s \<and> ce_flavor e \<noteq> None)"
  by (auto simp: contents_storage_has_flavored_entries_def list_ex_iff)

lemma collect_selectors_set:
  "distinct sels \<Longrightarrow> distinct (collect_selectors c sels es) \<and>
   set (collect_selectors c sels es) = set sels \<union> {(ce_storage_type e, ce_flavor e) | e. e \<in> set es \<and> flashable e
     \<and> ce_storage_type e \<noteq> QDL_STORAGE_UNKNOWN
     \<and> \<not> (ce_flavor e = None \<and> contents_storage_has_flavored_entries c (ce_storage_type e))}"
proof (induction c sels es rule: collect_selectors.induct)
  case (2 c sels e es)
  show ?case
  proof (cases "\<not> flashable e \<or> ce_storage_type e = QDL_STORAGE_UNKNOWN
         \<or> (ce_flavor e = None \<and> contents_storage_has_flavored_entries c (ce_storage_type e))
         \<or> contents_selector_is_known sels (ce_storage_type e) (ce_flavor e)")
    case True
    from 2(1) [OF True 2(3)] True show ?thesis by (auto simp: known_iff)
  next
    case False
    then have "distinct (sels @ [(ce_storage_type e, ce_flavor e)])" using 2(3) by (simp add: known_iff)
    from 2(2) [OF False this] False show ?thesis by auto
  qed
qed simp

lemma collect_valid:
  "distinct (contents_collect_valid_selectors c) \<and> set (contents_collect_valid_selectors c) = {sel. offered c sel}"
  using collect_selectors_set [of "[]" c "ct_entries c"]
  by (auto simp: contents_collect_valid_selectors_def offered_def has_flavored_iff)

text \<open>What one token of the pattern stands for.\<close>

definition token_means :: "contents \<Rightarrow> string \<Rightarrow> contents_selector \<Rightarrow> bool" where
  "token_means c token sel \<longleftrightarrow> offered c sel \<and>
     (if CHR ''/'' \<in> set token then
        (\<exists>st fl. token = st @ ''/'' @ fl \<and> snd sel = Some fl \<and> decode_storage_type (Some st) = fst sel)
      else if decode_storage_type (Some token) \<noteq> QDL_STORAGE_UNKNOWN then
        decode_storage_type (Some token) = fst sel \<and> (\<forall>sel'. offered c sel' \<longrightarrow> fst sel' = fst sel \<longrightarrow> sel' = sel)
      else snd sel = Some token \<and> (\<forall>sel'. offered c sel' \<longrightarrow> snd sel' = Some token \<longrightarrow> sel' = sel))"

lemma only_offered:
  assumes "filter P (contents_collect_valid_selectors c) = [sel]"
  shows "offered c sel" "P sel" "offered c sel' \<Longrightarrow> P sel' \<Longrightarrow> sel' = sel"
proof -
  have "set (filter P (contents_collect_valid_selectors c)) = {sel}" using assms by simp
  then have "{x. offered c x \<and> P x} = {sel}" using collect_valid [of c] by simp
  then show "offered c sel" "P sel" "offered c sel' \<Longrightarrow> P sel' \<Longrightarrow> sel' = sel" by blast+
qed

lemma decode_token_means:
  assumes "decode_token c (contents_collect_valid_selectors c) token = Some sel"
  shows "token_means c token sel"
proof (cases "dropWhile (\<lambda>ch. ch \<noteq> CHR ''/'') token")
  case Nil
  then have n: "CHR ''/'' \<notin> set token" by (auto simp: dropWhile_eq_Nil_conv)
  show ?thesis
  proof (cases "decode_storage_type (Some token) = QDL_STORAGE_UNKNOWN")
    case True
    then have "contents_select_by_flavor (contents_collect_valid_selectors c) token = [sel]"
      using assms Nil by (simp add: decode_token_def split: list.splits)
    note o = only_offered [OF this [unfolded contents_select_by_flavor_def]]
    from o(2) have "snd sel = Some token" by (simp add: split_beta)
    have u: "sel' = sel" if "offered c sel'" "snd sel' = Some token" for sel'
      by (rule o(3)) (use that in \<open>simp_all add: split_beta\<close>)
    have t: "\<not> decode_storage_type (Some token) \<noteq> QDL_STORAGE_UNKNOWN" using True by simp
    show ?thesis
      unfolding token_means_def if_not_P [OF n] if_not_P [OF t] using \<open>snd sel = Some token\<close> o(1) u by blast
  next
    case False
    then have "contents_select_by_storage (contents_collect_valid_selectors c) (decode_storage_type (Some token)) = [sel]"
      using assms Nil by (simp add: decode_token_def split: list.splits)
    note o = only_offered [OF this [unfolded contents_select_by_storage_def]]
    from o(2) have f: "fst sel = decode_storage_type (Some token)" by (simp add: split_beta)
    have u: "sel' = sel" if "offered c sel'" "fst sel' = fst sel" for sel'
      by (rule o(3)) (use that f in \<open>simp_all add: split_beta\<close>)
    show ?thesis
      unfolding token_means_def if_not_P [OF n] if_P [OF False] f
      by (intro conjI allI impI o(1) refl) (rule u [unfolded f])
  qed
next
  case (Cons x fl)
  let ?st = "takeWhile (\<lambda>ch. ch \<noteq> CHR ''/'') token"
  have x: "x = CHR ''/''" using hd_dropWhile [of "\<lambda>ch. ch \<noteq> CHR ''/''" token] Cons by simp
  have t: "token = ?st @ ''/'' @ fl" using takeWhile_dropWhile_id [of "\<lambda>ch. ch \<noteq> CHR ''/''" token] Cons x by simp
  have "CHR ''/'' \<in> set (dropWhile (\<lambda>ch. ch \<noteq> CHR ''/'') token)" unfolding Cons x by simp
  then have i: "CHR ''/'' \<in> set token" by (rule set_dropWhileD)
  have "sel = (decode_storage_type (Some ?st), Some fl)" "sel \<in> set (contents_collect_valid_selectors c)"
    using assms Cons by (auto simp: decode_token_def Let_def known_iff split: if_splits)
  with t i show ?thesis using collect_valid [of c] by (auto simp: token_means_def)
qed

lemma decode_tokens_means:
  "decode_tokens c (contents_collect_valid_selectors c) acc tokens = Some sels \<Longrightarrow> distinct (map fst acc) \<Longrightarrow>
   \<exists>new. sels = acc @ new \<and> distinct (map fst sels) \<and> list_all2 (token_means c) tokens new"
proof (induction tokens arbitrary: acc)
  case (Cons token tokens)
  from Cons.prems(1) obtain sel where d: "decode_token c (contents_collect_valid_selectors c) token = Some sel"
      "\<not> contents_storage_is_selected acc (fst sel)"
      "decode_tokens c (contents_collect_valid_selectors c) (acc @ [sel]) tokens = Some sels"
    by (auto split: option.splits if_splits)
  have "distinct (map fst (acc @ [sel]))"
    using Cons.prems(2) d(2) by (auto simp: contents_storage_is_selected_def list_ex_iff)
  from Cons.IH [OF d(3) this] obtain new where "sels = acc @ sel # new" "distinct (map fst sels)" "list_all2 (token_means c) tokens new"
    by auto
  then show ?case using decode_token_means [OF d(1)] by (intro exI [of _ "sel # new"]) simp
qed simp

lemma distinct_single: "length xs = Suc 0 \<Longrightarrow> distinct (map f xs)"
  by (cases xs) auto

lemma selection_distinct: "contents_decode_selectors c pattern = Some sels \<Longrightarrow> distinct (map fst sels)"
  using distinct_single [of "contents_collect_valid_selectors c" fst]
  by (auto simp: contents_decode_selectors_def Let_def split: option.splits if_splits dest!: decode_tokens_means)

text \<open>
  C39: A selection is exact and unambiguous. When \<open>contents_decode_selectors\<close> accepts a pattern, each
  of its comma-separated tokens has been matched by one storage type and flavor that the build offers: the
  one it spells out, or, when it names just a storage type or just a flavor, the only one there is; and no
  two of them have the same storage type. Without a pattern the build has to offer exactly one.
\<close>

theorem contents_selection_exact:
  assumes "contents_decode_selectors c pattern = Some sels"
  shows "distinct (map fst sels) \<and>
    (case pattern of
       None \<Rightarrow> (\<exists>sel. sels = [sel] \<and> (\<forall>sel'. offered c sel' \<longleftrightarrow> sel' = sel))
     | Some p \<Rightarrow> list_all2 (token_means c) (strtok_comma p) sels)"
proof (cases pattern)
  case None
  then have "length (contents_collect_valid_selectors c) = 1" "sels = contents_collect_valid_selectors c"
    using assms by (auto simp: contents_decode_selectors_def Let_def split: if_splits)
  then obtain sel where "sels = [sel]" "contents_collect_valid_selectors c = [sel]"
    by (metis One_nat_def length_0_conv length_Suc_conv)
  with None collect_valid [of c] show ?thesis by auto
next
  case (Some p)
  then have "decode_tokens c (contents_collect_valid_selectors c) [] (strtok_comma p) = Some sels"
    using assms by (auto simp: contents_decode_selectors_def Let_def split: if_splits)
  from decode_tokens_means [OF this] Some show ?thesis by simp
qed

text \<open>A build with an unflavored and a flavored file, of two storage types.\<close>

definition ex_entry :: "contents_file_type \<Rightarrow> storage_type \<Rightarrow> string option \<Rightarrow> contents_entry" where
  "ex_entry ft st fl = \<lparr>ce_file_type = ft, ce_storage_type = st, ce_flavor = fl, ce_filename = ''f.xml'',
     ce_path = \<lparr>pb_buf = ''f.xml'', pb_len = 5\<rparr>, ce_firehose_type = FIREHOSE_TYPE_NONE\<rparr>"

definition ex_contents :: contents where
  "ex_contents = contents_empty\<lparr>ct_flavors := [''la''], ct_entries :=
     [ex_entry CONTENTS_FILE_PROGRAM QDL_STORAGE_UFS None, ex_entry CONTENTS_FILE_PATCH QDL_STORAGE_EMMC (Some ''la'')]\<rparr>"

lemma contents_selection_exact_witness:
  "\<exists>sels. contents_decode_selectors ex_contents (Some ''emmc/la,ufs'') = Some sels \<and> distinct (map fst sels)
    \<and> list_all2 (token_means ex_contents) (strtok_comma ''emmc/la,ufs'') sels"
proof -
  have "contents_decode_selectors ex_contents (Some ''emmc/la,ufs'')
      = Some [(QDL_STORAGE_EMMC, Some ''la''), (QDL_STORAGE_UFS, None)]"
    by code_simp
  from contents_selection_exact [OF this] this show ?thesis by auto
qed

subsection \<open>A run as a whole\<close>

lemma program_load_plain: "plain_step ops (program_load xf ops fs pf n a r ex inc)"
  by (auto simp: program_load_def program_load_xml_def plain_step_stay plain_programs.load_nodes_plain split: option.split)

lemma patch_load_plain: "plain_step ops (patch_load xf ops pf)"
  by (auto simp: patch_load_def patch_load_xml_def plain_step_stay plain_patches.load_nodes_plain split: option.split)

lemma load_entries_plain:
  assumes "\<And>ops e. plain_step ops (load ops e)"
  shows "ret \<le> 0 \<Longrightarrow> load_entries load ret ops es = (r, ops') \<Longrightarrow>
    r \<le> 0 \<and> (\<exists>new. ops' = ops @ new \<and> list_all plain_op new)"
proof (induction es arbitrary: ret ops)
  case (Cons e es)
  obtain r1 ops1 where l: "load ops e = (r1, ops1)" by fastforce
  then obtain new where n: "r1 \<le> 0" "ops1 = ops @ new" "list_all plain_op new"
    using assms [of ops e] by (auto simp: plain_step_def)
  show ?case
  proof (cases "r1 < 0")
    case False
    then have "load_entries load r1 ops1 es = (r, ops')" using Cons.prems(2) l by simp
    from Cons.IH [OF n(1) this] n show ?thesis by auto
  qed (use Cons.prems(2) l n in auto)
qed auto

text \<open>
  The files of a selector: those of the given kind whose storage type and flavor, where the build gives
  them one, are the ones of the selector. Each is loaded into an empty queue.
\<close>

definition selector_files :: "contents \<Rightarrow> contents_selector \<Rightarrow> contents_file_type \<Rightarrow> contents_entry list" where
  "selector_files c sel ft = [e \<leftarrow> ct_entries c. ce_file_type e = ft
     \<and> ce_storage_type e \<in> {QDL_STORAGE_UNKNOWN, fst sel} \<and> (\<forall>fl. ce_flavor e = Some fl \<longrightarrow> snd sel = Some fl)]"

definition loaded_files :: "ct_env \<Rightarrow> contents \<Rightarrow> string option \<Rightarrow> contents_selector \<Rightarrow> (int \<times> firehose_op list) list" where
  "loaded_files E c incdir sel =
     map (\<lambda>e. program_load (flat_xml E) [] (ct_fs E) (pb_buf (ce_path e)) (fst sel = QDL_STORAGE_NAND) False
            (contents_resolve_path (ct_exists E) (Some \<lparr>cf_contents = c, cf_storage_type = fst sel, cf_flavor = snd sel\<rparr>))
            (ct_exists E) incdir) (selector_files c sel CONTENTS_FILE_PROGRAM)
     @ map (\<lambda>e. patch_load (flat_xml E) [] (pb_buf (ce_path e))) (selector_files c sel CONTENTS_FILE_PATCH)"

text \<open>The group of a selector: its files load without an error, and it has their operations in that order.\<close>

definition group_of :: "ct_env \<Rightarrow> contents \<Rightarrow> string option \<Rightarrow> contents_selector \<Rightarrow> storage_type \<times> firehose_op list \<Rightarrow> bool" where
  "group_of E c incdir sel g \<longleftrightarrow> fst g = fst sel
     \<and> list_all (\<lambda>r. 0 \<le> fst r) (loaded_files E c incdir sel) \<and> snd g = concat (map snd (loaded_files E c incdir sel))"

lemma applies_selector_files: "filter (applies ft sel) (ct_entries c) = selector_files c sel ft"
proof -
  have "(ce_flavor e = None \<or> ce_flavor e = snd sel) = (\<forall>fl. ce_flavor e = Some fl \<longrightarrow> snd sel = Some fl)"
    for e :: contents_entry
    by (cases "ce_flavor e") auto
  then show ?thesis unfolding selector_files_def applies_def insert_iff empty_iff by simp
qed

lemma load_entries_new:
  assumes "\<And>ops e r ops' pre. load ops e = (r, ops') \<Longrightarrow> load (pre @ ops) e = (r, pre @ ops')"
  shows "load_entries load ret ops es = (r, ops') \<Longrightarrow> 0 \<le> r \<Longrightarrow>
    list_all (\<lambda>x. 0 \<le> fst x) (map (load []) es) \<and> ops' = ops @ concat (map snd (map (load []) es))"
proof (induction es arbitrary: ret ops)
  case (Cons e es)
  obtain r1 new where l: "load [] e = (r1, new)" by fastforce
  from assms [OF this, of ops] have "load ops e = (r1, ops @ new)" by simp
  with Cons.prems have "0 \<le> r1" "load_entries load r1 (ops @ new) es = (r, ops')" by (auto split: if_splits)
  with Cons.IH [OF this(2) Cons.prems(2)] l show ?case by simp
qed simp

lemma load_selectors_groups:
  "ret \<le> 0 \<Longrightarrow> load_selectors E c inc ret ops sels = (r, ops') \<Longrightarrow>
   r \<le> 0 \<and> (\<exists>new. ops' = ops @ new) \<and>
   (r = 0 \<longrightarrow> (\<exists>gs. ops' = ops @ groups_ops gs \<and> list_all2 (group_of E c inc) sels gs \<and> list_all plain_group gs))"
proof (induction sels arbitrary: ret ops)
  case (Cons sel sels)
  let ?flt = "\<lparr>cf_contents = c, cf_storage_type = fst sel, cf_flavor = snd sel\<rparr>"
  let ?op = "(firehose_alloc_op FIREHOSE_OP_CONFIGURE)\<lparr>op_storage_type := fst sel\<rparr>"
  let ?program = "\<lambda>ops e. program_load (flat_xml E) ops (ct_fs E) (pb_buf (ce_path e)) (fst sel = QDL_STORAGE_NAND) False
                       (contents_resolve_path (ct_exists E) (Some ?flt)) (ct_exists E) inc"
  let ?patch = "\<lambda>ops e. patch_load (flat_xml E) ops (pb_buf (ce_path e))"
  obtain r1 ops1 where l1: "load_entries ?program ret (ops @ [?op]) (filter (applies CONTENTS_FILE_PROGRAM sel) (ct_entries c)) = (r1, ops1)"
    by fastforce
  obtain new1 where n1: "r1 \<le> 0" "ops1 = (ops @ [?op]) @ new1" "list_all plain_op new1"
    using load_entries_plain [of ?program, OF program_load_plain Cons.prems(1) l1] by blast
  obtain r2 ops2 where l2: "load_entries ?patch r1 ops1 (filter (applies CONTENTS_FILE_PATCH sel) (ct_entries c)) = (r2, ops2)"
    by fastforce
  obtain new2 where n2: "r2 \<le> 0" "ops2 = ops1 @ new2" "list_all plain_op new2"
    using load_entries_plain [of ?patch, OF patch_load_plain n1(1) l2] by blast
  have sel: "group_of E c inc sel (fst sel, new1 @ new2)" if "0 \<le> r1" "0 \<le> r2"
  proof -
    note e1 = load_entries_new [of ?program, OF program_load_shift l1 that(1)]
    note e2 = load_entries_new [of ?patch, OF patch_load_shift l2 that(2)]
    show ?thesis using e1 e2 n1(2) n2(2) by (simp add: group_of_def loaded_files_def applies_selector_files)
  qed
  have run: "(r, ops') = (if r1 < 0 then (r1, ops1) else if r2 < 0 then (r2, ops2) else load_selectors E c inc r2 ops2 sels)"
    using Cons.prems(2) unfolding load_selectors.simps Let_def l1 l2 prod.case by auto
  show ?case
  proof (cases "r1 < 0 \<or> r2 < 0")
    case True
    then show ?thesis using run n1 n2 by (auto split: if_splits)
  next
    case False
    then have "load_selectors E c inc r2 ops2 sels = (r, ops')" using run by simp
    note ih = Cons.IH [OF n2(1) this]
    have o2: "ops2 = ops @ group_ops (fst sel, new1 @ new2)" using n1(2) n2(2) by (simp add: group_ops_def)
    have g: "plain_group (fst sel, new1 @ new2)" using n1(3) n2(3) by (simp add: plain_group_def)
    have "\<exists>gs. ops' = ops @ groups_ops gs \<and> list_all2 (group_of E c inc) (sel # sels) gs \<and> list_all plain_group gs" if "r = 0"
    proof -
      obtain gs where "ops' = ops2 @ groups_ops gs" "list_all2 (group_of E c inc) sels gs" "list_all plain_group gs"
        using ih \<open>r = 0\<close> by auto
      then show ?thesis using o2 g sel False by (intro exI [of _ "(fst sel, new1 @ new2) # gs"]) simp
    qed
    with ih o2 show ?thesis by auto
  qed
qed (auto intro: exI [of _ "[]"])

lemma find_programmer_xml_ok:
  "find_programmer_xml E f imgs es = (r, imgs') \<Longrightarrow> images_ok imgs \<Longrightarrow>
   images_ok imgs' \<and> (r = None \<or> r = Some 0 \<or> r = Some (-1))"
proof (induction E f imgs es rule: find_programmer_xml.induct)
  case (2 E f imgs e es)
  show ?case
  proof (cases "ce_file_type e \<noteq> CONTENTS_FILE_PROGRAMMER_XML \<or> \<not> programmer_eligible f e")
    case True
    with 2 show ?thesis by simp
  next
    case False
    show ?thesis
    proof (cases "load_sahara_image None (ct_fs E) (pb_buf (ce_path e))")
      case None
      with False 2 show ?thesis by simp
    next
      case (Some blob)
      obtain r1 b imgs1 where d: "decode_sahara_config (config_xml E) (contents_resolve_path (ct_exists E) (Some f)) (ct_fs E) blob imgs = (r1, b, imgs1)"
        by (rule prod_cases3)
      then have ok: "images_ok imgs1" using decode_sahara_config_ok [OF d 2(5)] by (simp add: loaded_ok_def)
      show ?thesis
      proof (cases "r1 = 0")
        case True
        then show ?thesis using 2(3) [OF False Some d [symmetric] refl True _ ok] 2(4) False Some d by simp
      qed (use 2(4) False Some d ok in \<open>auto split: if_splits\<close>)
    qed
  qed
qed simp

lemma find_programmers_ok:
  assumes "contents_find_programmers E c f imgs = (r, imgs')" "images_ok imgs"
  shows "images_ok imgs' \<and> (r = 0 \<or> r = -1)"
proof -
  have dev: "find_device_programmer E f i es = (r, imgs') \<Longrightarrow> images_ok i \<Longrightarrow> images_ok imgs' \<and> (r = 0 \<or> r = -1)" for i es
    by (induction E f i es rule: find_device_programmer.induct) (auto simp: images_update_ok split: if_splits option.splits)
  show ?thesis
    using assms dev by (auto simp: contents_find_programmers_def split: prod.splits option.splits dest!: find_programmer_xml_ok)
qed

lemma groups_fst: "list_all2 (group_of E c inc) sels gs \<Longrightarrow> map fst gs = map fst sels"
  by (induction rule: list_all2_induct) (auto simp: group_of_def)

lemma contents_load_leaves:
  assumes "images_ok imgs" "contents_load E ops filename specifier imgs incdir = (ret, ops', imgs')"
  shows "images_ok imgs' \<and> (\<exists>new. ops' = ops @ new) \<and>
    (if ret = 0 then \<exists>c sels groups. c = snd (contents_load_xml E contents_empty filename)
       \<and> contents_decode_selectors c specifier = Some sels \<and> sels \<noteq> [] \<and> ops' = ops @ groups_ops groups
       \<and> map fst groups = map fst sels \<and> distinct (map fst groups) \<and> list_all plain_group groups
       \<and> list_all2 (group_of E c incdir) sels groups
     else ret < 0)"
proof -
  obtain r0 c where x: "contents_load_xml E contents_empty filename = (r0, c)" by fastforce
  have r0: "r0 = 0 \<or> r0 = -1"
    using x by (auto simp: contents_load_xml_def split: option.splits if_splits prod.splits)
  show ?thesis
  proof (cases "r0 = 0 \<and> (\<exists>s. contents_decode_selectors c specifier = Some s \<and> s \<noteq> [])")
    case False
    then show ?thesis using assms x r0 by (auto simp: contents_load_def split: option.splits if_splits)
  next
    case True
    then obtain sels where s: "contents_decode_selectors c specifier = Some sels" "sels \<noteq> []" by blast
    obtain r1 imgs1 where p: "contents_find_programmers E c \<lparr>cf_contents = c, cf_storage_type = QDL_STORAGE_UNKNOWN, cf_flavor = None\<rparr> imgs = (r1, imgs1)"
      by fastforce
    note p1 = find_programmers_ok [OF p assms(1)]
    obtain r2 ops2 where l: "load_selectors E c incdir r1 ops sels = (r2, ops2)" by fastforce
    have "r1 \<le> 0" using p1 by auto
    note g = load_selectors_groups [OF this l]
    have d: "distinct (map fst sels)" using selection_distinct [OF s(1)] .
    have "(ret, ops', imgs') = (if r1 < 0 then (r1, ops, imgs1) else (r2, ops2, imgs1))"
      using assms(2) x True s p l by (auto simp: contents_load_def split: if_splits)
    then show ?thesis using p1 g s d x by (auto simp: groups_fst split: if_splits)
  qed
qed

text \<open>
  C5: Every selected storage device is configured once and then flashed. Whatever \<open>contents_load\<close> is
  given, it only appends to the queue and leaves the image table well formed. When it reports success, what
  it has appended is one group for each selector it accepted, in the order of the selection: the
  configuration of that storage type, once, and behind it exactly the operations of its files. These are
  the program files and then the patch files of the build, in the order it lists them, whose storage type
  and flavor are those of the selector or left open; each has loaded without an error, and gives what it
  gives when it is loaded alone, with names resolved for this selector. None of these operations
  configures anything.
\<close>

theorem contents_load_groups:
  assumes "images_ok imgs" "contents_load E ops filename specifier imgs incdir = (ret, ops', imgs')"
  shows "images_ok imgs' \<and> (\<exists>new. ops' = ops @ new) \<and>
    (if ret = 0 then \<exists>c sels groups. c = snd (contents_load_xml E contents_empty filename)
       \<and> contents_decode_selectors c specifier = Some sels \<and> sels \<noteq> [] \<and> ops' = ops @ groups_ops groups
       \<and> map fst groups = map fst sels \<and> distinct (map fst groups) \<and> list_all plain_group groups
       \<and> list_all2 (group_of E c incdir) sels groups
     else ret < 0)"
  using assms by (rule contents_load_leaves)

text \<open>A build of one storage type with one patch file and a programmer.\<close>

definition ex_tree :: "string \<Rightarrow> (string \<times> string) list \<Rightarrow> string \<Rightarrow> xtree list \<Rightarrow> xtree" where
  "ex_tree name attrs txt kids =
     XTree \<lparr>xn_element = True, xn_name = name, xn_get = map_of attrs, xn_has = \<lambda>a. map_of attrs a \<noteq> None\<rparr> txt kids"

definition ex_build :: "xtree list" where
  "ex_build = [ex_tree ''builds_flat'' [] [] [ex_tree ''build'' [] []
     [ex_tree ''linux_root_path'' [] '' out '' [],
      ex_tree ''partition_patch_file'' [(''storage_type'', ''ufs'')] []
        [ex_tree ''file_name'' [] ''patch.xml'' [], ex_tree ''file_path'' [] ''${v:a}'' []],
      ex_tree ''device_programmer'' [] [] [ex_tree ''file_name'' [] ''prog.elf'' [], ex_tree ''file_path'' [] ''b'' []]]]]"

definition ex_ct :: ct_env where
  "ex_ct = \<lparr>ct_fs = (\<lambda>p. if p = ''d/out/b/prog.elf'' then Some ([1], \<lambda>pos n. Some n) else None), ct_exists = (\<lambda>p. True),
     ct_xml = (\<lambda>f. if f = ''d/contents.xml'' then Some (''contents'', ex_build)
       else if f = ''d/out/a/patch.xml'' then Some (''patches'', [XTree ex_patch_node [] []]) else None),
     ct_mem = (\<lambda>b. None)\<rparr>"

definition ex_ct_contents :: contents where
  "ex_ct_contents = snd (contents_load_xml ex_ct contents_empty ''d/contents.xml'')"

lemma ex_ct_entries:
  "map (\<lambda>e. (ce_file_type e, ce_storage_type e, ce_flavor e, pb_buf (ce_path e))) (ct_entries ex_ct_contents)
    = [(CONTENTS_FILE_PATCH, QDL_STORAGE_UFS, None, ''d/out/a/patch.xml''),
       (CONTENTS_FILE_DEVICE_PROGRAMMER, QDL_STORAGE_UNKNOWN, None, ''d/out/b/prog.elf'')]"
  by code_simp

lemma ex_ct_steps:
  "fst (contents_load_xml ex_ct contents_empty ''d/contents.xml'') = 0"
  "contents_decode_selectors ex_ct_contents None = Some [(QDL_STORAGE_UFS, None)]"
  "fst (contents_find_programmers ex_ct ex_ct_contents
     \<lparr>cf_contents = ex_ct_contents, cf_storage_type = QDL_STORAGE_UNKNOWN, cf_flavor = None\<rparr> (replicate MAPPING_SZ no_image)) = 0"
  by code_simp+

lemma ex_ct_selectors:
  "load_selectors ex_ct ex_ct_contents None 0 ops [(QDL_STORAGE_UFS, None)]
    = (0, ops @ group_ops (QDL_STORAGE_UFS, [ex_patch]))"
proof -
  obtain e1 e2 where e: "ct_entries ex_ct_contents = [e1, e2]" "ce_file_type e1 = CONTENTS_FILE_PATCH" "ce_storage_type e1 = QDL_STORAGE_UFS"
      "ce_flavor e1 = None" "pb_buf (ce_path e1) = ''d/out/a/patch.xml''" "ce_file_type e2 = CONTENTS_FILE_DEVICE_PROGRAMMER"
    using ex_ct_entries by (auto simp: map_eq_Cons_conv)
  have "patch_load (flat_xml ex_ct) ops ''d/out/a/patch.xml'' = (0, ops @ [ex_patch])" for ops
    by (simp add: patch_load_def patch_load_xml_def flat_xml_def ex_ct_def ex_patch_load) (simp add: ex_patch_node_def)
  then show ?thesis using e by (simp add: applies_def group_ops_def)
qed

lemma contents_load_groups_witness:
  "\<exists>ops' imgs'. contents_load ex_ct [] ''d/contents.xml'' None (replicate MAPPING_SZ no_image) None = (0, ops', imgs') \<and> images_ok imgs'
    \<and> (\<exists>g. ops' = group_ops g \<and> group_of ex_ct ex_ct_contents None (QDL_STORAGE_UFS, None) g)"
proof -
  have x: "contents_load_xml ex_ct contents_empty ''d/contents.xml'' = (0, ex_ct_contents)"
    using ex_ct_steps(1) by (simp add: ex_ct_contents_def prod_eq_iff)
  obtain imgs' where p: "contents_find_programmers ex_ct ex_ct_contents
      \<lparr>cf_contents = ex_ct_contents, cf_storage_type = QDL_STORAGE_UNKNOWN, cf_flavor = None\<rparr> (replicate MAPPING_SZ no_image) = (0, imgs')"
    using ex_ct_steps(3) by (metis prod.collapse)
  have r: "contents_load ex_ct [] ''d/contents.xml'' None (replicate MAPPING_SZ no_image) None
      = (0, group_ops (QDL_STORAGE_UFS, [ex_patch]), imgs')"
    using x p ex_ct_steps(2) ex_ct_selectors [of "[]"] by (simp add: contents_load_def)
  have ok: "images_ok (replicate MAPPING_SZ no_image)" by (simp add: images_ok_def image_ok_def no_image_def list_all_iff)
  have "\<exists>sels groups. contents_decode_selectors ex_ct_contents None = Some sels \<and> group_ops (QDL_STORAGE_UFS, [ex_patch]) = groups_ops groups
      \<and> list_all2 (group_of ex_ct ex_ct_contents None) sels groups"
    using contents_load_groups [OF ok r] x by auto
  then have g: "\<exists>g. group_ops (QDL_STORAGE_UFS, [ex_patch]) = group_ops g \<and> group_of ex_ct ex_ct_contents None (QDL_STORAGE_UFS, None) g"
    unfolding ex_ct_steps(2) by (simp add: list_all2_Cons1) (metis append_Nil2 groups_ops_simps(1,2))
  have "images_ok imgs'" using contents_load_groups [OF ok r] by blast
  with r g show ?thesis by blast
qed

end
