(* ===== verification/Cli.thy ===== *)
theory Cli
  imports Contents
begin

text \<open>
  \<open>src/input_type.c\<close> and \<open>src/cli.c\<close>: what a positional argument is, the options of a flashing run, and
  the \<open>--color\<close> option. \<open>getopt_long\<close> belongs to the C library: the options are the sequence of codes
  and arguments it returns. Output (usage, version, verbosity) is left out.
\<close>

subsection \<open>Input types\<close>

datatype input_type =
    QDL_FILE_UNKNOWN | QDL_FILE_PATCH | QDL_FILE_PROGRAM | QDL_FILE_READ | QDL_FILE_UFS | QDL_FILE_CONTENTS
  | QDL_CMD_READ | QDL_CMD_WRITE | QDL_CMD_ERASE | QDL_CMD_FLASH | QDL_CMD_SHA256 | QDL_CMD_RESET

definition is_verb :: "input_type \<Rightarrow> bool" where
  "is_verb t \<longleftrightarrow> t \<in> {QDL_CMD_READ, QDL_CMD_WRITE, QDL_CMD_ERASE, QDL_CMD_FLASH, QDL_CMD_SHA256, QDL_CMD_RESET}"

text \<open>The first element that decides what a \<open>data\<close> document holds.\<close>

fun data_type :: "xtree list \<Rightarrow> input_type" where
  "data_type [] = QDL_FILE_UNKNOWN"
| "data_type (t # ts) =
     (if \<not> xn_element (xt_node t) then data_type ts
      else if xn_name (xt_node t) = ''program'' then QDL_FILE_PROGRAM
      else if xn_name (xt_node t) = ''read'' then QDL_FILE_READ
      else if xn_name (xt_node t) = ''ufs'' then QDL_FILE_UFS
      else data_type ts)"

text \<open>\<open>None\<close> is a negative result.\<close>

definition detect_type :: "ct_env \<Rightarrow> string \<Rightarrow> input_type option" where
  "detect_type E verb =
     (if verb = ''read'' then Some QDL_CMD_READ
      else if verb = ''write'' then Some QDL_CMD_WRITE
      else if verb = ''erase'' then Some QDL_CMD_ERASE
      else if verb = ''flash'' then Some QDL_CMD_FLASH
      else if verb = ''sha256'' then Some QDL_CMD_SHA256
      else if verb = ''reset'' then Some QDL_CMD_RESET
      else if \<not> ct_exists E verb then None
      else case ct_xml E verb of
        None \<Rightarrow> None
      | Some (rootname, ts) \<Rightarrow>
          Some (if rootname = ''patches'' then QDL_FILE_PATCH
                else if rootname = ''data'' then data_type ts
                else if rootname = ''contents'' then QDL_FILE_CONTENTS
                else QDL_FILE_UNKNOWN))"

definition qdl_is_contents_xml :: "ct_env \<Rightarrow> string \<Rightarrow> bool" where
  "qdl_is_contents_xml E filename =
     (case ct_xml E filename of None \<Rightarrow> False | Some (rootname, _) \<Rightarrow> rootname = ''contents'')"

subsection \<open>Options of a flashing run\<close>

record qdl_opts =
  o_storage_type :: storage_type
  o_dev_type :: dev_kind
  o_skipblock_mode :: skipblock_mode
  o_incdir :: "string option"
  o_serial :: "string option"
  o_vip_generate_dir :: "string option"
  o_vip_table_path :: "string option"
  o_out_chunk_size :: int
  o_slot :: u32
  o_finalize_provisioning :: bool
  o_allow_fusing :: bool
  o_allow_missing :: bool
  o_skip_reset :: bool

definition qdl_opts_init :: qdl_opts where
  "qdl_opts_init =
     \<lparr>o_storage_type = QDL_STORAGE_UFS, o_dev_type = QDL_DEVICE_AUTO, o_skipblock_mode = QDL_SKIPBLOCK_NONE,
      o_incdir = None, o_serial = None, o_vip_generate_dir = None, o_vip_table_path = None, o_out_chunk_size = 0,
      o_slot = -1, o_finalize_provisioning = False, o_allow_fusing = False, o_allow_missing = False, o_skip_reset = False\<rparr>"

datatype opt_code = Short char | OPT_BACKEND | OPT_SERIAL | OPT_SKIPBLOCK

text \<open>The outcomes of parsing; \<open>QDL_ARGS_DIES\<close> is the exit on a bad value.\<close>

datatype args_result = QDL_ARGS_OK qdl_opts | QDL_ARGS_DONE | QDL_ARGS_ERROR | QDL_ARGS_DIES

definition parse_option :: "qdl_opts \<Rightarrow> opt_code \<Rightarrow> string \<Rightarrow> args_result" where
  "parse_option o1 code arg =
     (case code of
        OPT_BACKEND \<Rightarrow>
          if o_dev_type o1 = QDL_DEVICE_SIM then QDL_ARGS_OK o1
          else (case decode_backend (Some arg) of None \<Rightarrow> QDL_ARGS_DIES | Some t \<Rightarrow> QDL_ARGS_OK (o1\<lparr>o_dev_type := t\<rparr>))
      | OPT_SKIPBLOCK \<Rightarrow>
          if arg = ''none'' then QDL_ARGS_OK (o1\<lparr>o_skipblock_mode := QDL_SKIPBLOCK_NONE\<rparr>)
          else if arg = ''sha256'' then QDL_ARGS_OK (o1\<lparr>o_skipblock_mode := QDL_SKIPBLOCK_SHA256\<rparr>)
          else QDL_ARGS_DIES
      | OPT_SERIAL \<Rightarrow> QDL_ARGS_ERROR
      | Short c \<Rightarrow>
          if c = CHR ''d'' \<or> c = CHR ''q'' then QDL_ARGS_OK o1
          else if c = CHR ''n'' then QDL_ARGS_OK (o1\<lparr>o_dev_type := QDL_DEVICE_SIM\<rparr>)
          else if c = CHR ''t'' then QDL_ARGS_OK (o1\<lparr>o_vip_generate_dir := Some arg, o_dev_type := QDL_DEVICE_SIM\<rparr>)
          else if c = CHR ''v'' \<or> c = CHR ''h'' then QDL_ARGS_DONE
          else if c = CHR ''f'' then QDL_ARGS_OK (o1\<lparr>o_allow_missing := True\<rparr>)
          else if c = CHR ''i'' then QDL_ARGS_OK (o1\<lparr>o_incdir := Some arg\<rparr>)
          else if c = CHR ''l'' then QDL_ARGS_OK (o1\<lparr>o_finalize_provisioning := True\<rparr>)
          else if c = CHR ''c'' then QDL_ARGS_OK (o1\<lparr>o_allow_fusing := True\<rparr>)
          else if c = CHR ''u'' then QDL_ARGS_OK (o1\<lparr>o_out_chunk_size := fst (c_strtol 10 arg)\<rparr>)
          else if c = CHR ''s'' then
            (let t = decode_storage_type (Some arg) in
             if t = QDL_STORAGE_UNKNOWN then QDL_ARGS_DIES else QDL_ARGS_OK (o1\<lparr>o_storage_type := t\<rparr>))
          else if c = CHR ''S'' then QDL_ARGS_OK (o1\<lparr>o_serial := Some arg\<rparr>)
          else if c = CHR ''D'' then QDL_ARGS_OK (o1\<lparr>o_vip_table_path := Some arg\<rparr>)
          else if c = CHR ''T'' then QDL_ARGS_OK (o1\<lparr>o_slot := ucast (strtoul_val 10 arg)\<rparr>)
          else if c = CHR ''R'' then QDL_ARGS_OK (o1\<lparr>o_skip_reset := True\<rparr>)
          else QDL_ARGS_ERROR)"

fun parse_options :: "qdl_opts \<Rightarrow> (opt_code \<times> string) list \<Rightarrow> args_result" where
  "parse_options o1 [] = QDL_ARGS_OK o1"
| "parse_options o1 ((code, arg) # os) =
     (case parse_option o1 code arg of
        QDL_ARGS_OK o2 \<Rightarrow> parse_options o2 os
      | r \<Rightarrow> r)"

text \<open>\<open>positional\<close> counts the arguments that are no options.\<close>

definition qdl_parse_args :: "(opt_code \<times> string) list \<Rightarrow> nat \<Rightarrow> args_result" where
  "qdl_parse_args os positional =
     (case parse_options qdl_opts_init os of
        QDL_ARGS_OK o1 \<Rightarrow> if positional < 2 then QDL_ARGS_ERROR else QDL_ARGS_OK o1
      | r \<Rightarrow> r)"

subsection \<open>The color option\<close>

text \<open>The arguments behind \<open>argv[0]\<close> that are left, and the mode; \<open>None\<close> for an invalid one.\<close>

fun take_color :: "string list \<Rightarrow> ux_color_mode option \<Rightarrow> (string list \<times> ux_color_mode option) option" where
  "take_color [] mode = Some ([], mode)"
| "take_color (a # as) mode =
     (if a = ''--'' then Some (a # as, mode)
      else if a = ''--color'' \<or> take 8 a = ''--color='' then
        (case decode_color_mode (if a = ''--color'' then None else Some (drop 8 a)) of
           None \<Rightarrow> None
         | Some m \<Rightarrow> take_color as (Some m))
      else map_option (\<lambda>(rest, m). (a # rest, m)) (take_color as mode))"

definition qdl_take_color_option :: "string list \<Rightarrow> (string list \<times> ux_color_mode option) option" where
  "qdl_take_color_option argv =
     (case argv of [] \<Rightarrow> Some ([], None)
      | progname # as \<Rightarrow> map_option (\<lambda>(rest, m). (progname # rest, m)) (take_color as None))"

text \<open>A dry run stays one: no later option selects another backend.\<close>

lemma parse_options_sim:
  "parse_options o1 os = QDL_ARGS_OK o2 \<Longrightarrow> o_dev_type o1 = QDL_DEVICE_SIM \<Longrightarrow> o_dev_type o2 = QDL_DEVICE_SIM"
proof (induction o1 os rule: parse_options.induct)
  case (2 o1 code arg os)
  from 2(2) obtain o3 where o3: "parse_option o1 code arg = QDL_ARGS_OK o3" by (auto split: args_result.splits)
  then have "o_dev_type o3 = QDL_DEVICE_SIM"
    using 2(3) by (auto simp: parse_option_def Let_def split: opt_code.splits if_splits option.splits)
  with 2 o3 show ?case by simp
qed simp

end
