(* ===== verification/Zipper.thy ===== *)
theory Zipper
  imports Programmer FirehoseOp "HOL-Library.AList"
begin

text \<open>
  \<open>src/zipper.c\<close>: \<open>create-zip\<close> writes a queue of operations and its programmer images as an archive
  with a flashmap. libzip, libxml2's writer and the temporary file belong to the environment.
\<close>

subsection \<open>The archive under construction\<close>

text \<open>
  What is behind a member until the archive is closed: bytes in memory, or a part of a file on disk (all of
  it when there is no length).
\<close>

datatype zip_source = Buffer "u8 list" | FilePart string nat "nat option"

type_synonym members = "(string \<times> zip_source) list"

text \<open>
  \<open>zw_add\<close> tells whether libzip takes a member, \<open>zw_dump\<close> is \<open>xmlDocDumpMemory\<close> of a root and its
  elements, \<open>zw_open\<close> tells whether the temporary archive could be made, and \<open>zw_close\<close> is the archive
  that results when it is closed and renamed.
\<close>

type_synonym xml_elem = "string \<times> (string \<times> string) list"

record zip_writer =
  zw_add :: "string \<Rightarrow> zip_source \<Rightarrow> bool"
  zw_dump :: "string \<Rightarrow> xml_elem list \<Rightarrow> u8 list option"
  zw_open :: bool
  zw_close :: "members \<Rightarrow> file_system option"

record storage_ctx =
  sx_type :: storage_type
  sx_memory :: string
  sx_program :: "xml_elem list"
  sx_patch :: "xml_elem list"

record zipper =
  zs_members :: members
  zs_names :: "string list"
  zs_renames :: "((storage_type \<times> string) \<times> string) list"
  zs_raw_idx :: u32
  zs_fill_idx :: u32
  zs_storages :: "storage_ctx list"
  zs_current :: "storage_type option"

definition zipper_init :: zipper where
  "zipper_init = \<lparr>zs_members = [], zs_names = [], zs_renames = [], zs_raw_idx = 0, zs_fill_idx = 0,
     zs_storages = [], zs_current = None\<rparr>"

definition zipper_basename :: "string option \<Rightarrow> string option" where
  "zipper_basename path = (case path of None \<Rightarrow> None | Some p \<Rightarrow> if p = [] then None else Some (c_basename p))"

definition zipper_name_is_used :: "zipper \<Rightarrow> string \<Rightarrow> bool" where
  "zipper_name_is_used s name \<longleftrightarrow> name \<in> set (zs_names s)"

definition zipper_add_name_entry :: "zipper \<Rightarrow> string \<Rightarrow> zipper" where
  "zipper_add_name_entry s name = s\<lparr>zs_names := zs_names s @ [name]\<rparr>"

text \<open>A new member replaces one of the same name.\<close>

definition zip_file_add :: "zip_writer \<Rightarrow> zipper \<Rightarrow> string \<Rightarrow> zip_source \<Rightarrow> zipper option" where
  "zip_file_add W s name src =
     (if zw_add W name src then Some (s\<lparr>zs_members := AList.update name src (zs_members s)\<rparr>) else None)"

definition zipper_add_buffer :: "zip_writer \<Rightarrow> zipper \<Rightarrow> string \<Rightarrow> u8 list \<Rightarrow> zipper option" where
  "zipper_add_buffer W s name data = zip_file_add W s name (Buffer data)"

definition zipper_add_file :: "zip_writer \<Rightarrow> zipper \<Rightarrow> string \<Rightarrow> string \<Rightarrow> zipper option" where
  "zipper_add_file W s name path = zip_file_add W s name (FilePart path 0 None)"

subsection \<open>Storage devices\<close>

definition zipper_find_storage_ctx :: "zipper \<Rightarrow> storage_type \<Rightarrow> storage_ctx option" where
  "zipper_find_storage_ctx s t = find (\<lambda>sx. sx_type sx = t) (zs_storages s)"

definition zipper_create_storage_ctx :: "storage_type \<Rightarrow> storage_ctx option" where
  "zipper_create_storage_ctx t =
     map_option (\<lambda>memory. \<lparr>sx_type = t, sx_memory = memory, sx_program = [], sx_patch = []\<rparr>) (encode_storage_type t)"

definition set_storage :: "(storage_ctx \<Rightarrow> storage_ctx) \<Rightarrow> storage_type \<Rightarrow> zipper \<Rightarrow> zipper" where
  "set_storage f t s = s\<lparr>zs_storages := map (\<lambda>sx. if sx_type sx = t then f sx else sx) (zs_storages s)\<rparr>"

text \<open>The elements appended for an operation.\<close>

definition start_text :: "firehose_op \<Rightarrow> string" where
  "start_text op = (case op_start_sector op of Some t \<Rightarrow> t | None \<Rightarrow> ''0'')"

definition opt_text :: "string option \<Rightarrow> string" where
  "opt_text t = (case t of Some v \<Rightarrow> v | None \<Rightarrow> [])"

definition program_elem :: "firehose_op \<Rightarrow> string \<Rightarrow> u32 \<Rightarrow> xml_elem" where
  "program_elem op filename file_offset =
     (''program'',
      [(''SECTOR_SIZE_IN_BYTES'', show_u32 (op_sector_size op)), (''filename'', filename),
       (''num_partition_sectors'', show_u32 (op_num_sectors op)),
       (''physical_partition_number'', show_int (op_partition op)), (''start_sector'', start_text op)]
      @ (case op_label op of Some l \<Rightarrow> [(''label'', l)] | None \<Rightarrow> [])
      @ (if op_is_nand op
         then [(''PAGES_PER_BLOCK'', show_u32 (op_pages_per_block op)), (''last_sector'', show_u32 (op_last_sector op))]
         else [(''file_sector_offset'', show_u32 file_offset)]))"

definition zipper_storage_append_program :: "storage_type \<Rightarrow> firehose_op \<Rightarrow> string option \<Rightarrow> u32 \<Rightarrow> zipper \<Rightarrow> zipper" where
  "zipper_storage_append_program t op filename file_offset s =
     (case filename of None \<Rightarrow> s
      | Some name \<Rightarrow> set_storage (\<lambda>sx. sx\<lparr>sx_program := sx_program sx @ [program_elem op name file_offset]\<rparr>) t s)"

definition erase_elem :: "firehose_op \<Rightarrow> xml_elem" where
  "erase_elem op =
     (''erase'',
      [(''SECTOR_SIZE_IN_BYTES'', show_u32 (op_sector_size op)), (''num_partition_sectors'', show_u32 (op_num_sectors op)),
       (''physical_partition_number'', show_int (op_partition op)), (''start_sector'', start_text op)]
      @ (if op_is_nand op then [(''PAGES_PER_BLOCK'', show_u32 (op_pages_per_block op))] else []))"

definition zipper_storage_append_erase :: "storage_type \<Rightarrow> firehose_op \<Rightarrow> zipper \<Rightarrow> zipper" where
  "zipper_storage_append_erase t op s = set_storage (\<lambda>sx. sx\<lparr>sx_program := sx_program sx @ [erase_elem op]\<rparr>) t s"

definition patch_elem :: "firehose_op \<Rightarrow> xml_elem" where
  "patch_elem op =
     (''patch'',
      [(''SECTOR_SIZE_IN_BYTES'', show_u32 (op_sector_size op)), (''byte_offset'', show_u32 (op_byte_offset op)),
       (''filename'', opt_text (op_filename op)), (''physical_partition_number'', show_int (op_partition op)),
       (''size_in_bytes'', show_u32 (op_size_in_bytes op)), (''start_sector'', start_text op),
       (''value'', opt_text (op_value op)), (''what'', opt_text (op_what op))])"

definition zipper_storage_append_patch :: "storage_type \<Rightarrow> firehose_op \<Rightarrow> zipper \<Rightarrow> zipper" where
  "zipper_storage_append_patch t op s = set_storage (\<lambda>sx. sx\<lparr>sx_patch := sx_patch sx @ [patch_elem op]\<rparr>) t s"

subsection \<open>Program files\<close>

text \<open>\<open>%06u\<close>.\<close>

definition show_06u :: "u32 \<Rightarrow> string" where
  "show_06u w = (let d = show_u32 w in replicate (6 - length d) CHR ''0'' @ d)"

definition zipper_register_raw_program_file ::
  "zip_writer \<Rightarrow> string \<Rightarrow> firehose_op \<Rightarrow> zipper \<Rightarrow> (zipper \<times> string) option" where
  "zipper_register_raw_program_file W memory op s =
     (if op_sector_size op = 0 \<or> op_num_sectors op = 0 \<or> op_sparse_offset op < 0 then None
      else if unat (op_num_sectors op) > (2 ^ 63 - 1) div unat (op_sector_size op) then None
      else
        let raw_size = unat (op_num_sectors op) * unat (op_sector_size op);
            filename = memory @ ''_raw_'' @ show_06u (zs_raw_idx s) @ ''.bin'';
            s1 = s\<lparr>zs_raw_idx := zs_raw_idx s + 1\<rparr>
        in if zipper_name_is_used s1 filename then None
           else map_option (\<lambda>s2. (zipper_add_name_entry s2 filename, filename))
             (zip_file_add W s1 filename (FilePart (the (op_filename op)) (nat (op_sparse_offset op)) (Some raw_size))))"

definition fill_bytes :: "u32 \<Rightarrow> nat \<Rightarrow> u8 list" where
  "fill_bytes fill n = map (\<lambda>i. put_le32 fill ! (i mod 4)) [0..<n]"

definition zipper_register_fill_program_file ::
  "zip_writer \<Rightarrow> string \<Rightarrow> firehose_op \<Rightarrow> zipper \<Rightarrow> (zipper \<times> string) option" where
  "zipper_register_fill_program_file W memory op s =
     (if op_sector_size op = 0 \<or> op_num_sectors op = 0 then None
      else if unat (op_num_sectors op) > (2 ^ 64 - 1) div unat (op_sector_size op) then None
      else
        let fill_size = unat (op_num_sectors op) * unat (op_sector_size op);
            filename = memory @ ''_fill_'' @ show_06u (zs_fill_idx s) @ ''.bin'';
            s1 = s\<lparr>zs_fill_idx := zs_fill_idx s + 1\<rparr>
        in if zipper_name_is_used s1 filename then None
           else map_option (\<lambda>s2. (zipper_add_name_entry s2 filename, filename))
             (zipper_add_buffer W s1 filename (fill_bytes (op_sparse_fill_value op) fill_size)))"

text \<open>A file that was added for this storage device before keeps its member.\<close>

definition zipper_register_program_file ::
  "zip_writer \<Rightarrow> storage_type \<Rightarrow> string \<Rightarrow> string \<Rightarrow> zipper \<Rightarrow> (zipper \<times> string) option" where
  "zipper_register_program_file W t memory source_name s =
     (case map_of (zs_renames s) (t, source_name) of
        Some name \<Rightarrow> Some (s, name)
      | None \<Rightarrow>
          (case zipper_basename (Some source_name) of
             None \<Rightarrow> None
           | Some base \<Rightarrow>
               let renamed = memory @ ''_'' @ base in
               if zipper_name_is_used s renamed then None
               else map_option (\<lambda>s2. ((zipper_add_name_entry s2 renamed)\<lparr>zs_renames := zs_renames s2 @ [((t, source_name), renamed)]\<rparr>, renamed))
                 (zipper_add_file W s renamed source_name)))"

subsection \<open>The queue\<close>

text \<open>One operation; \<open>None\<close> discards the archive.\<close>

definition zipper_op :: "zip_writer \<Rightarrow> zipper \<Rightarrow> firehose_op \<Rightarrow> zipper option" where
  "zipper_op W s op =
     (if op_type op = FIREHOSE_OP_CONFIGURE then
        let t = op_storage_type op; s1 = s\<lparr>zs_current := Some t\<rparr> in
        (case zipper_find_storage_ctx s1 t of
           Some _ \<Rightarrow> Some s1
         | None \<Rightarrow> map_option (\<lambda>sx. s1\<lparr>zs_storages := zs_storages s1 @ [sx]\<rparr>) (zipper_create_storage_ctx t))
      else case zs_current s of
        None \<Rightarrow> None
      | Some t \<Rightarrow>
          let memory = the (encode_storage_type t) in
          (case op_type op of
             FIREHOSE_OP_PROGRAM \<Rightarrow>
               (case op_filename op of
                  None \<Rightarrow> Some s
                | Some filename \<Rightarrow>
                    if op_zip op \<noteq> None then None
                    else case
                      (if op_sparse op then
                         (case op_sparse_chunk_type op of
                            Some CHUNK_TYPE_RAW \<Rightarrow> map_option (\<lambda>(s1, n). (s1, n, 0)) (zipper_register_raw_program_file W memory op s)
                          | Some CHUNK_TYPE_FILL \<Rightarrow> map_option (\<lambda>(s1, n). (s1, n, 0)) (zipper_register_fill_program_file W memory op s)
                          | _ \<Rightarrow> None)
                       else map_option (\<lambda>(s1, n). (s1, n, op_file_offset op)) (zipper_register_program_file W t memory filename s)) of
                        None \<Rightarrow> None
                      | Some (s1, zip_name, file_offset) \<Rightarrow>
                          Some (zipper_storage_append_program t op (Some zip_name) file_offset s1))
           | FIREHOSE_OP_ERASE \<Rightarrow> Some (zipper_storage_append_erase t op s)
           | FIREHOSE_OP_PATCH \<Rightarrow>
               if op_filename op \<noteq> Some ''DISK'' then Some s else Some (zipper_storage_append_patch t op s)
           | _ \<Rightarrow> Some s))"

fun zipper_ops :: "zip_writer \<Rightarrow> zipper \<Rightarrow> firehose_op list \<Rightarrow> zipper option" where
  "zipper_ops W s [] = Some s"
| "zipper_ops W s (op # ops) = (case zipper_op W s op of None \<Rightarrow> None | Some s1 \<Rightarrow> zipper_ops W s1 ops)"

subsection \<open>Programmer images\<close>

text \<open>The images from index \<open>i\<close> on; the result has the entry of every image that is loaded.\<close>

fun zipper_add_images :: "zip_writer \<Rightarrow> zipper \<Rightarrow> nat \<Rightarrow> images \<Rightarrow> (zipper \<times> (nat \<times> string) list) option" where
  "zipper_add_images W s i [] = Some (s, [])"
| "zipper_add_images W s i (im # ims) =
     (case img_ptr im of
        None \<Rightarrow> zipper_add_images W s (Suc i) ims
      | Some data \<Rightarrow>
          (case zipper_basename (Some (case img_name im of Some n \<Rightarrow> n | None \<Rightarrow> ''programmer.bin'')) of
             None \<Rightarrow> None
           | Some base \<Rightarrow>
               let zip_name = (if zipper_name_is_used s base then ''sahara'' @ show_dec i @ ''_'' @ base else base) in
               if zipper_name_is_used s zip_name then None
               else case zipper_add_buffer W s zip_name (take (img_len im) data) of
                 None \<Rightarrow> None
               | Some s1 \<Rightarrow> map_option (\<lambda>(s2, entries). (s2, (i, zip_name) # entries))
                   (zipper_add_images W (zipper_add_name_entry s1 zip_name) (Suc i) ims)))"

definition zipper_add_programmer_images :: "zip_writer \<Rightarrow> zipper \<Rightarrow> images \<Rightarrow> (zipper \<times> (nat \<times> string) list) option" where
  "zipper_add_programmer_images W s imgs =
     (case zipper_add_images W s 0 imgs of
        None \<Rightarrow> None
      | Some (s1, entries) \<Rightarrow> if entries = [] then None else Some (s1, entries))"

subsection \<open>Documents\<close>

definition program_xml_name :: "storage_ctx \<Rightarrow> string" where
  "program_xml_name sx = sx_memory sx @ ''_rawprogram.xml''"

definition patch_xml_name :: "storage_ctx \<Rightarrow> string" where
  "patch_xml_name sx = sx_memory sx @ ''_patch.xml''"

definition add_document :: "zip_writer \<Rightarrow> string \<Rightarrow> xml_elem list \<Rightarrow> string \<Rightarrow> zipper \<Rightarrow> zipper option" where
  "add_document W rootname elems name s =
     (case zw_dump W rootname elems of
        None \<Rightarrow> None
      | Some data \<Rightarrow> map_option (\<lambda>s1. zipper_add_name_entry s1 name) (zipper_add_buffer W s name data))"

definition zipper_add_storage_xml :: "zip_writer \<Rightarrow> zipper \<Rightarrow> storage_ctx \<Rightarrow> zipper option" where
  "zipper_add_storage_xml W s sx =
     (if zipper_name_is_used s (program_xml_name sx) \<or> zipper_name_is_used s (patch_xml_name sx) then None
      else case add_document W ''data'' (sx_program sx) (program_xml_name sx) s of
        None \<Rightarrow> None
      | Some s1 \<Rightarrow> add_document W ''patches'' (sx_patch sx) (patch_xml_name sx) s1)"

fun add_storages_xml :: "zip_writer \<Rightarrow> zipper \<Rightarrow> storage_ctx list \<Rightarrow> zipper option" where
  "add_storages_xml W s [] = Some s"
| "add_storages_xml W s (sx # sxs) =
     (case zipper_add_storage_xml W s sx of None \<Rightarrow> None | Some s1 \<Rightarrow> add_storages_xml W s1 sxs)"

subsection \<open>The flashmap\<close>

definition escape_char :: "char \<Rightarrow> string" where
  "escape_char c =
     (let n = of_char c :: nat in
      if n = 34 then [CHR 0x5C, CHR 0x22]
      else if n = 92 then [CHR 0x5C, CHR 0x5C]
      else if n = 8 then [CHR 0x5C, CHR ''b'']
      else if n = 12 then [CHR 0x5C, CHR ''f'']
      else if n = 10 then [CHR 0x5C, CHR ''n'']
      else if n = 13 then [CHR 0x5C, CHR ''r'']
      else if n = 9 then [CHR 0x5C, CHR ''t'']
      else if n < 32 then CHR 0x5C # CHR ''u'' # hex_digits 4 n
      else [c])"

definition flashmap_json_append_escaped_string :: "string \<Rightarrow> string" where
  "flashmap_json_append_escaped_string s = CHR 0x22 # concat (map escape_char s) @ [CHR 0x22]"

text \<open>Lines, names in quotes, and items with a comma and a line break between them.\<close>

definition json_line :: "nat \<Rightarrow> string \<Rightarrow> string" where
  "json_line indent s = replicate indent CHR '' '' @ s @ [CHR 0x0A]"

definition json_quoted :: "string \<Rightarrow> string" where
  "json_quoted s = CHR 0x22 # s @ [CHR 0x22]"

fun json_items :: "string list \<Rightarrow> string" where
  "json_items [] = []"
| "json_items (t # ts) = (if ts = [] then t else t @ CHR '','' # CHR 0x0A # json_items ts)"

definition programmer_item :: "nat \<times> string \<Rightarrow> string" where
  "programmer_item e =
     replicate 12 CHR '' '' @ json_quoted (show_dec (fst e)) @ '': '' @ flashmap_json_append_escaped_string (snd e)"

definition storage_item :: "storage_ctx \<Rightarrow> string" where
  "storage_item sx =
     json_line 12 ''{''
     @ json_line 14 (json_quoted ''memory'' @ '': '' @ json_quoted (sx_memory sx) @ '','')
     @ json_line 14 (json_quoted ''slot'' @ '': 0,'')
     @ json_line 14 (json_quoted ''files'' @ '': ['')
     @ replicate 16 CHR '' '' @ flashmap_json_append_escaped_string (program_xml_name sx) @ json_line 0 '',''
     @ replicate 16 CHR '' '' @ flashmap_json_append_escaped_string (patch_xml_name sx) @ json_line 0 []
     @ json_line 14 '']'' @ replicate 12 CHR '' '' @ ''}''"

definition flashmap_build_json :: "(nat \<times> string) list \<Rightarrow> storage_ctx list \<Rightarrow> string" where
  "flashmap_build_json entries storages =
     json_line 0 ''{''
     @ json_line 2 (json_quoted ''version'' @ '': '' @ json_quoted ''1.2.0-qdl'' @ '','')
     @ json_line 2 (json_quoted ''products'' @ '': ['')
     @ json_line 4 ''{''
     @ json_line 6 (json_quoted ''name'' @ '': '' @ json_quoted ''contents'' @ '','')
     @ json_line 6 (json_quoted ''layouts'' @ '': ['')
     @ json_line 8 ''{''
     @ json_line 10 (json_quoted ''name'' @ '': '' @ json_quoted ''layout0'' @ '','')
     @ json_line 10 (json_quoted ''programmer'' @ '': {'')
     @ json_items (map programmer_item entries) @ json_line 0 []
     @ json_line 10 ''},''
     @ json_line 10 (json_quoted ''programmable'' @ '': ['')
     @ json_items (map storage_item storages) @ json_line 0 []
     @ json_line 10 '']'' @ json_line 8 ''}'' @ json_line 6 '']'' @ json_line 4 ''}'' @ json_line 2 '']'' @ json_line 0 ''}''"

subsection \<open>Writing\<close>

text \<open>The members of the archive when it is closed.\<close>

definition zipper_build :: "zip_writer \<Rightarrow> firehose_op list \<Rightarrow> images \<Rightarrow> members option" where
  "zipper_build W ops imgs =
     (case zipper_ops W zipper_init ops of
        None \<Rightarrow> None
      | Some s \<Rightarrow>
          if zs_storages s = [] then None
          else case zipper_add_programmer_images W s imgs of
            None \<Rightarrow> None
          | Some (s1, entries) \<Rightarrow>
              (case add_storages_xml W s1 (zs_storages s) of
                 None \<Rightarrow> None
               | Some s2 \<Rightarrow>
                   map_option zs_members
                     (zipper_add_buffer W s2 ''flashmap.json'' (bytes_of (flashmap_build_json entries (zs_storages s))))))"

text \<open>The return value and the archive in place of the output file, \<open>None\<close> when there is none.\<close>

definition zipper_write :: "zip_writer \<Rightarrow> firehose_op list \<Rightarrow> images \<Rightarrow> int \<times> file_system option" where
  "zipper_write W ops imgs =
     (if \<not> zw_open W then (-1, None)
      else case zipper_build W ops imgs of
        None \<Rightarrow> (-1, None)
      | Some members \<Rightarrow> (case zw_close W members of None \<Rightarrow> (-1, None) | Some Z \<Rightarrow> (0, Some Z)))"

end
