(* ===== verification/QdlMain.thy ===== *)
theory QdlMain
  imports Cli Flashmap VipGen Sahara FhRun Zipper
begin

text \<open>
  \<open>src/qdl.c\<close>: how a command line becomes a programmer, a queue of operations and a provisioning
  description, and how the subcommands put the protocol layers together.
\<close>

subsection \<open>Environment\<close>

text \<open>
  The files and documents of \<open>Contents\<close>, the archives, and the memory behind a loaded file and behind
  the programmer argument.
\<close>

record main_env =
  me_ct :: ct_env
  me_zip :: "string \<Rightarrow> file_system option"
  me_beyond :: "u8 list"
  me_after :: string

definition me_fm :: "main_env \<Rightarrow> fm_env" where
  "me_fm E = \<lparr>fm_fs = ct_fs (me_ct E), fm_exists = ct_exists (me_ct E), fm_zip = me_zip E,
     fm_xml = (\<lambda>b. map_option (\<lambda>(r, ts). (r, map xt_node ts)) (ct_mem (me_ct E) b))\<rparr>"

definition me_programmer :: "main_env \<Rightarrow> string \<Rightarrow> images \<Rightarrow> (int \<times> images) option" where
  "me_programmer E s imgs =
     (case decode_programmer (me_beyond E) (me_after E) (config_xml (me_ct E)) (ct_fs (me_ct E)) s imgs of
        Returns r \<Rightarrow> Some r
      | _ \<Rightarrow> None)"

subsection \<open>The flash verb\<close>

text \<open>\<open>strrchr(s, '.')\<close>.\<close>

definition last_dot :: "string \<Rightarrow> string option" where
  "last_dot s = (if CHR ''.'' \<in> set s then Some (CHR ''.'' # rev (takeWhile (\<lambda>c. c \<noteq> CHR ''.'') (rev s))) else None)"

definition qdl_cmd_flash ::
  "main_env \<Rightarrow> firehose_op list \<Rightarrow> string \<Rightarrow> string option \<Rightarrow> images \<Rightarrow> int \<times> firehose_op list \<times> images" where
  "qdl_cmd_flash E ops arg incdir imgs =
     (case qdl_split_specifier (Some arg) of
        None \<Rightarrow> (-1, ops, imgs)
      | Some (filename, specifier) \<Rightarrow>
          let dot = last_dot (c_basename filename) in
          if dot = Some ''.xml'' then contents_load (me_ct E) ops filename specifier imgs incdir
          else if dot = Some ''.json'' \<or> qdl_file_open (me_zip E filename) (ct_fs (me_ct E)) ''flashmap.json'' \<noteq> None
            then flashmap_load (me_fm E) ops filename specifier imgs incdir
          else (-1, ops, imgs))"

definition qdl_cmd_reset :: "firehose_op list \<Rightarrow> int \<times> firehose_op list" where
  "qdl_cmd_reset ops = (0, ops @ [firehose_alloc_op FIREHOSE_OP_RESET])"

subsection \<open>Building the queue\<close>

record build_state =
  bs_ops :: "firehose_op list"
  bs_images :: images
  bs_ufs :: ufs_provisioning
  bs_skip_reset :: bool

text \<open>What building the queue ends in: a return value with the state, or the exit in \<open>ux_diex\<close>.\<close>

datatype built = Builds int build_state | Dies

definition bs_add :: "build_state \<Rightarrow> int \<times> firehose_op list \<Rightarrow> int \<times> build_state" where
  "bs_add st res = (fst res, st\<lparr>bs_ops := snd res\<rparr>)"

text \<open>An operation file: the state, or \<open>None\<close> for the exit.\<close>

definition build_file ::
  "main_env \<Rightarrow> qdl_opts \<Rightarrow> input_type \<Rightarrow> string \<Rightarrow> build_state \<Rightarrow> build_state option" where
  "build_file E opts type arg st =
     (let C = me_ct E; xml = flat_xml C;
          checked = (\<lambda>(ret, s). if ret < (0 :: int) then None else Some s) in
      case type of
        QDL_FILE_PATCH \<Rightarrow> checked (bs_add st (patch_load xml (bs_ops st) arg))
      | QDL_FILE_PROGRAM \<Rightarrow>
          (case checked (bs_add st (program_load xml (bs_ops st) (ct_fs C) arg (o_storage_type opts = QDL_STORAGE_NAND)
              (o_allow_missing opts) (\<lambda>_. None) (ct_exists C) (o_incdir opts))) of
             None \<Rightarrow> None
           | Some s \<Rightarrow> if \<not> o_allow_fusing opts \<and> program_is_sec_partition_flashed (bs_ops s) then None else Some s)
      | QDL_FILE_READ \<Rightarrow> checked (bs_add st (read_op_load xml (ct_exists C) (bs_ops st) arg (o_incdir opts)))
      | QDL_FILE_UFS \<Rightarrow>
          if o_storage_type opts \<noteq> QDL_STORAGE_UFS then None
          else (case ufs_load (bs_ufs st) (xml arg) (o_finalize_provisioning opts) of
            (ret, u) \<Rightarrow> if ret < 0 then None else Some (st\<lparr>bs_ufs := u\<rparr>))
      | _ \<Rightarrow> None)"

text \<open>
  The loop over the arguments. Each turn takes one argument and what its verb takes with it;
  \<open>saw_file\<close> and \<open>saw_verb\<close> tell what has come before.
\<close>

fun build_loop ::
  "main_env \<Rightarrow> qdl_opts \<Rightarrow> bool \<Rightarrow> bool \<Rightarrow> build_state \<Rightarrow> string list \<Rightarrow> built" where
  "build_loop E opts saw_file saw_verb st [] = Builds 0 st"
| "build_loop E opts saw_file saw_verb st (arg # args) =
     (case detect_type (me_ct E) arg of
        None \<Rightarrow> Dies
      | Some type \<Rightarrow>
          if type = QDL_FILE_UNKNOWN then Dies
          else
            let verb = (saw_verb \<or> is_verb type); file = (saw_file \<or> \<not> is_verb type) in
            if file \<and> verb then Dies
            else if \<not> is_verb type then
              (case build_file E opts type arg st of
                 None \<Rightarrow> Dies
               | Some st' \<Rightarrow> build_loop E opts file verb st' args)
            else if type = QDL_CMD_READ \<or> type = QDL_CMD_WRITE then
              (case args of
                 addr # name # rest \<Rightarrow>
                   (case bs_add st (if type = QDL_CMD_READ then read_cmd_add (bs_ops st) addr name
                                    else program_cmd_add (bs_ops st) addr (Some name)) of
                      (ret, st') \<Rightarrow> if ret < 0 then Dies else build_loop E opts file verb st' rest)
               | _ \<Rightarrow> Dies)
            else if type = QDL_CMD_ERASE \<or> type = QDL_CMD_SHA256 then
              (case args of
                 addr # rest \<Rightarrow>
                   (case bs_add st (if type = QDL_CMD_ERASE then erase_cmd_add (bs_ops st) addr
                                    else sha256_cmd_add (bs_ops st) addr) of
                      (ret, st') \<Rightarrow> if ret < 0 then Dies else build_loop E opts file verb st' rest)
               | _ \<Rightarrow> Dies)
            else if type = QDL_CMD_FLASH then
              (case args of
                 spec # rest \<Rightarrow>
                   (case qdl_cmd_flash E (bs_ops st) spec (o_incdir opts) (bs_images st) of
                      (ret, ops, imgs) \<Rightarrow>
                        let st' = st\<lparr>bs_ops := ops, bs_images := imgs\<rparr> in
                        if ret < 0 then Builds (-1) st' else build_loop E opts file verb st' rest)
               | _ \<Rightarrow> Dies)
            else
              Builds 0 (st\<lparr>bs_skip_reset := True, bs_ops := snd (qdl_cmd_reset (bs_ops st))\<rparr>))"

text \<open>
  \<open>qdl_parse_args\<close> has made sure of two arguments. The first is the programmer unless it is the
  flash verb.
\<close>

definition qdl_build_op_list :: "main_env \<Rightarrow> qdl_opts \<Rightarrow> build_state \<Rightarrow> string list \<Rightarrow> built" where
  "qdl_build_op_list E opts st args =
     (case args of
        [] \<Rightarrow> Dies
      | a # rest \<Rightarrow>
          if a = ''flash'' then build_loop E opts False False st args
          else case me_programmer E a (bs_images st) of
            None \<Rightarrow> Dies
          | Some (ret, imgs) \<Rightarrow>
              if ret < 0 then Builds (-1) (st\<lparr>bs_images := imgs\<rparr>)
              else build_loop E opts False False (st\<lparr>bs_images := imgs\<rparr>) rest)"

definition qdl_ensure_configured :: "firehose_op list \<Rightarrow> storage_type \<Rightarrow> firehose_op list" where
  "qdl_ensure_configured ops storage =
     (case ops of
        [] \<Rightarrow> []
      | op # _ \<Rightarrow>
          if op_type op = FIREHOSE_OP_CONFIGURE then ops
          else (firehose_alloc_op FIREHOSE_OP_CONFIGURE)\<lparr>op_storage_type := storage\<rparr> # ops)"

definition qdl_determine_bootable :: "firehose_op list \<Rightarrow> firehose_op list" where
  "qdl_determine_bootable ops =
     (let bootable = fst (program_find_bootable_partition ops) in
      if bootable < 0 then ops
      else ops @ [(firehose_alloc_op FIREHOSE_OP_SET_BOOTABLE)\<lparr>op_partition := bootable\<rparr>])"

text \<open>
  \<open>qdl_flash\<close> up to opening the device. Loading the VIP tables is \<open>vip_transfer_init\<close> and has no part in the plan;
  tables to use and tables to create exclude each other.
\<close>

definition bs_init :: "qdl_opts \<Rightarrow> build_state" where
  "bs_init opts = \<lparr>bs_ops = [], bs_images = replicate MAPPING_SZ no_image, bs_ufs = ufs_provisioning_init,
     bs_skip_reset = o_skip_reset opts\<rparr>"

definition plan_queue :: "qdl_opts \<Rightarrow> build_state \<Rightarrow> firehose_op list" where
  "plan_queue opts st =
     (let ops = qdl_determine_bootable (qdl_ensure_configured (bs_ops st) (o_storage_type opts))
      in if bs_skip_reset st then ops else snd (qdl_cmd_reset ops))"

definition qdl_plan :: "main_env \<Rightarrow> qdl_opts \<Rightarrow> string list \<Rightarrow> built" where
  "qdl_plan E opts args =
     (if o_vip_table_path opts \<noteq> None \<and> o_vip_generate_dir opts \<noteq> None then Dies
      else case qdl_build_op_list E opts (bs_init opts) args of
        Dies \<Rightarrow> Dies
      | Builds ret st \<Rightarrow> if ret < 0 then Builds ret st else Builds 0 (st\<lparr>bs_ops := plan_queue opts st\<rparr>))"

subsection \<open>The flashing session\<close>

text \<open>
  \<open>qdl_flash\<close> from the opened device on: Sahara sends the images, then the device is provisioned or the
  queue is run; \<open>vip_gen_finalize\<close> ends a run that generates tables. \<open>None\<close> stands for a session
  that does not end within the fuel.
\<close>

definition qdl_flash_session ::
  "nat \<Rightarrow> 'd fh_env \<Rightarrow> qdl_opts \<Rightarrow> build_state \<Rightarrow> 'd fh \<Rightarrow> (int \<times> 'd fh) option" where
  "qdl_flash_session fuel F opts st s =
     (case sahara_run fuel (env_tr F) (Some (bs_images st)) None None (env_stk F) (fh_dev s) (fh_host s) of
        None \<Rightarrow> None
      | Some (ret, q, h) \<Rightarrow>
          let s1 = s\<lparr>fh_dev := q, fh_host := h\<rparr>;
              finish = (\<lambda>(r, s2). Some (if r \<noteq> 0 then 1 else 0,
                 if o_vip_generate_dir opts = None then s2
                 else case vip_gen_finalize (fh_gen s2) (fh_host s2) of (g, h') \<Rightarrow> s2\<lparr>fh_gen := g, fh_host := h'\<rparr>))
          in if ret < 0 then finish (ret, s1)
             else if ufs_need_provisioning (bs_ufs st)
               then (case firehose_provision fuel F (bs_ufs st) (bs_skip_reset st) s1 of
                 None \<Rightarrow> None | Some r \<Rightarrow> finish r)
             else (case firehose_run fuel F (bs_ops st) s1 of
                 None \<Rightarrow> None | Some ((r, ops), s2) \<Rightarrow> finish (r, s2)))"

subsection \<open>Other subcommands\<close>

definition qdl_reset_run :: "nat \<Rightarrow> 'd fh_env \<Rightarrow> 'd fh \<Rightarrow> (int \<times> 'd fh) option" where
  "qdl_reset_run fuel F s =
     (case sahara_device_reset (env_tr F) (fh_dev s) (env_stk F) of
        (ret, q) \<Rightarrow> if ret = 1 then firehose_reset fuel F (s\<lparr>fh_dev := q\<rparr>) else Some (ret, s\<lparr>fh_dev := q\<rparr>))"

definition ks_add_mapping :: "file_system \<Rightarrow> string \<Rightarrow> images \<Rightarrow> int \<times> images" where
  "ks_add_mapping fs arg mappings =
     (let file_id = fst (c_strtol 10 arg) in
      case dropWhile (\<lambda>c. c \<noteq> CHR '':'') arg of
        [] \<Rightarrow> (-1, mappings)
      | _ # filename \<Rightarrow>
          if file_id < 0 \<or> file_id \<ge> int MAPPING_SZ then (-1, mappings)
          else case load_sahara_image None fs filename of
            None \<Rightarrow> (-1, mappings)
          | Some im \<Rightarrow> (0, mappings[nat file_id := im]))"

text \<open>
  The options every subcommand shares set the serial number and the backend; \<open>QDL_OPT_DIES\<close> is the exit on an
  unknown backend.
\<close>

datatype common_opt = QDL_OPT_HANDLED "string option" dev_kind | QDL_OPT_EXIT_OK | QDL_OPT_EXIT_FAIL | QDL_OPT_DIES

definition qdl_common_opt :: "string option \<Rightarrow> dev_kind \<Rightarrow> opt_code \<Rightarrow> string \<Rightarrow> common_opt" where
  "qdl_common_opt serial dev code arg =
     (case code of
        Short c \<Rightarrow>
          if c = CHR ''d'' then QDL_OPT_HANDLED serial dev
          else if c = CHR ''v'' \<or> c = CHR ''h'' then QDL_OPT_EXIT_OK
          else if c = CHR ''S'' then QDL_OPT_HANDLED (Some arg) dev
          else QDL_OPT_EXIT_FAIL
      | OPT_SERIAL \<Rightarrow> QDL_OPT_HANDLED (Some arg) dev
      | OPT_BACKEND \<Rightarrow> (case decode_backend (Some arg) of None \<Rightarrow> QDL_OPT_DIES | Some t \<Rightarrow> QDL_OPT_HANDLED serial t)
      | OPT_SKIPBLOCK \<Rightarrow> QDL_OPT_EXIT_FAIL)"

fun common_options :: "string option \<Rightarrow> dev_kind \<Rightarrow> (opt_code \<times> string) list \<Rightarrow> common_opt" where
  "common_options serial dev [] = QDL_OPT_HANDLED serial dev"
| "common_options serial dev ((code, arg) # os) =
     (case qdl_common_opt serial dev code arg of
        QDL_OPT_HANDLED serial' dev' \<Rightarrow> common_options serial' dev' os
      | r \<Rightarrow> r)"

text \<open>The command line of a subcommand without operands, such as \<open>chipinfo\<close>.\<close>

definition qdl_sahara_cmd :: "(opt_code \<times> string) list \<Rightarrow> string list \<Rightarrow> common_opt" where
  "qdl_sahara_cmd os operands =
     (case common_options None QDL_DEVICE_AUTO os of
        QDL_OPT_HANDLED serial dev \<Rightarrow> if operands \<noteq> [] then QDL_OPT_EXIT_FAIL else QDL_OPT_HANDLED serial dev
      | r \<Rightarrow> r)"

text \<open>That of \<open>ramdump\<close>: the directory, the filter, and what the common options set.\<close>

fun ramdump_options :: "string \<Rightarrow> string option \<Rightarrow> dev_kind \<Rightarrow> (opt_code \<times> string) list \<Rightarrow> string \<times> common_opt" where
  "ramdump_options path serial dev [] = (path, QDL_OPT_HANDLED serial dev)"
| "ramdump_options path serial dev ((code, arg) # os) =
     (if code = Short CHR ''o'' then ramdump_options arg serial dev os
      else case qdl_common_opt serial dev code arg of
        QDL_OPT_HANDLED serial' dev' \<Rightarrow> ramdump_options path serial' dev' os
      | r \<Rightarrow> (path, r))"

definition qdl_ramdump :: "(opt_code \<times> string) list \<Rightarrow> string list \<Rightarrow> string \<times> string option \<times> common_opt" where
  "qdl_ramdump os operands =
     (case ramdump_options ''.'' None QDL_DEVICE_AUTO os of
        (path, QDL_OPT_HANDLED serial dev) \<Rightarrow>
          if length operands > 1 then (path, None, QDL_OPT_EXIT_FAIL)
          else (path, if operands = [] then None else Some (hd operands), QDL_OPT_HANDLED serial dev)
      | (path, r) \<Rightarrow> (path, None, r))"

text \<open>That of \<open>ks\<close>: the images of the \<open>-s\<close> options, and the device node of \<open>-p\<close>.\<close>

record ks_args =
  ks_images :: images
  ks_found :: bool
  ks_node :: "string option"

fun ks_options ::
  "file_system \<Rightarrow> ks_args \<Rightarrow> string option \<Rightarrow> dev_kind \<Rightarrow> (opt_code \<times> string) list \<Rightarrow> ks_args \<times> common_opt" where
  "ks_options fs k serial dev [] = (k, QDL_OPT_HANDLED serial dev)"
| "ks_options fs k serial dev ((code, arg) # os) =
     (if code = Short CHR ''p'' then ks_options fs (k\<lparr>ks_node := Some arg\<rparr>) serial dev os
      else if code = Short CHR ''s'' then
        (case ks_add_mapping fs arg (ks_images k) of
           (ret, m) \<Rightarrow> if ret < 0 then (k, QDL_OPT_EXIT_FAIL)
             else ks_options fs (k\<lparr>ks_images := m, ks_found := True\<rparr>) serial dev os)
      else case qdl_common_opt serial dev code arg of
        QDL_OPT_HANDLED serial' dev' \<Rightarrow> ks_options fs k serial' dev' os
      | r \<Rightarrow> (k, r))"

definition qdl_ks :: "file_system \<Rightarrow> (opt_code \<times> string) list \<Rightarrow> ks_args \<times> common_opt" where
  "qdl_ks fs os =
     (case ks_options fs \<lparr>ks_images = replicate MAPPING_SZ no_image, ks_found = False, ks_node = None\<rparr> None QDL_DEVICE_AUTO os of
        (k, QDL_OPT_HANDLED serial dev) \<Rightarrow>
          if \<not> ks_found k \<or> ks_node k \<noteq> None \<and> (serial \<noteq> None \<or> dev \<noteq> QDL_DEVICE_AUTO) then (k, QDL_OPT_EXIT_FAIL)
          else (k, QDL_OPT_HANDLED serial dev)
      | res \<Rightarrow> res)"

text \<open>\<open>create-sahara-archive\<close>: \<open>None\<close> is the exit inside \<open>decode_programmer\<close>.\<close>

definition qdl_sahara_archive :: "main_env \<Rightarrow> bool \<Rightarrow> host \<Rightarrow> string list \<Rightarrow> (int \<times> host) option" where
  "qdl_sahara_archive E fclose_ok h argv =
     (case argv of
        [_, archive, input] \<Rightarrow>
          (case qdl_split_specifier (Some input) of
             None \<Rightarrow> Some (1, h)
           | Some (filename, specifier) \<Rightarrow>
               let imgs = replicate MAPPING_SZ no_image;
                   loaded = (if qdl_is_contents_xml (me_ct E) filename
                     then Some (contents_load_programmers (me_ct E) filename specifier imgs)
                     else if specifier \<noteq> None then Some (-1, imgs)
                     else me_programmer E filename imgs)
               in case loaded of
                    None \<Rightarrow> None
                  | Some (ret, imgs') \<Rightarrow>
                      if ret < 0 then Some (1, h)
                      else case sahara_archive_write fclose_ok h archive imgs' of
                        (r, h') \<Rightarrow> Some (if r \<noteq> 0 then 1 else 0, h'))
      | _ \<Rightarrow> Some (1, h))"

text \<open>\<open>create-zip\<close>: the exit code and the archive, of which the writer knows the name.\<close>

definition qdl_create_zip :: "main_env \<Rightarrow> zip_writer \<Rightarrow> string list \<Rightarrow> int \<times> file_system option" where
  "qdl_create_zip E W argv =
     (case argv of
        [_, zipfile, input] \<Rightarrow>
          (case qdl_split_specifier (Some input) of
             None \<Rightarrow> (1, None)
           | Some (filename, specifier) \<Rightarrow>
               (case contents_load (me_ct E) [] filename specifier (replicate MAPPING_SZ no_image) None of
                  (ret, ops, imgs) \<Rightarrow>
                    if ret < 0 then (1, None)
                    else case zipper_write W ops imgs of (r, z) \<Rightarrow> (if r \<noteq> 0 then 1 else 0, z)))
      | _ \<Rightarrow> (1, None))"

text \<open>The lines the digests of a run are printed as; \<open>None\<close> for a region without one.\<close>

definition print_sha256_results :: "firehose_op list \<Rightarrow> string option list" where
  "print_sha256_results ops =
     map (\<lambda>op. if op_digest_valid op
        then Some (concat (map (\<lambda>b. [hex_digit (unat b div 16), hex_digit (unat b mod 16)]) (op_digest op))) else None)
       (filter (\<lambda>op. op_type op = FIREHOSE_OP_GET_SHA256_DIGEST) ops)"

subsection \<open>Which subcommand runs\<close>

datatype subcommand = CMD_LIST | CMD_RAMDUMP | CMD_CHIPINFO | CMD_RESET | CMD_KS | CMD_CREATE_ZIP | CMD_CREATE_SAHARA_ARCHIVE

definition subcommands :: "(string \<times> subcommand) list" where
  "subcommands = [(''list'', CMD_LIST), (''ramdump'', CMD_RAMDUMP), (''chipinfo'', CMD_CHIPINFO), (''reset'', CMD_RESET),
     (''ks'', CMD_KS), (''create-zip'', CMD_CREATE_ZIP), (''create-sahara-archive'', CMD_CREATE_SAHARA_ARCHIVE)]"

text \<open>The first argument that is no option decides, and any argument before it that is a subcommand's name.\<close>

fun main_subcommand :: "string list \<Rightarrow> (subcommand \<times> string list) option" where
  "main_subcommand [] = None"
| "main_subcommand (a # as) =
     (case map_of subcommands a of
        Some c \<Rightarrow> Some (c, a # as)
      | None \<Rightarrow> if take 1 a \<noteq> ''-'' then None else main_subcommand as)"

text \<open>\<open>main\<close>: \<open>None\<close> is the exit code 1, \<open>None\<close> for the subcommand a flashing run.\<close>

definition qdl_main :: "string list \<Rightarrow> ((subcommand \<times> string list) option \<times> string list) option" where
  "qdl_main argv =
     (if argv = [] then None
      else case qdl_take_color_option argv of
        None \<Rightarrow> None
      | Some (argv', _) \<Rightarrow> Some (main_subcommand (tl argv'), argv'))"

end
