(* ===== verification/QdlProps.thy ===== *)
theory QdlProps
  imports QdlMain FlashmapProps ContentsProps
begin

text \<open>
  Properties of the command line: the shape of the queue it is turned into, the guard of the security
  partition, and the dry run.
\<close>

subsection \<open>What a step of the loop adds\<close>

text \<open>Operations are only appended, none of them ends the run, the reset at the end is still due if it was,
  and the image table stays well formed.\<close>

definition grows :: "build_state \<Rightarrow> build_state \<Rightarrow> bool" where
  "grows st st' \<longleftrightarrow> bs_skip_reset st' = bs_skip_reset st \<and> (images_ok (bs_images st) \<longrightarrow> images_ok (bs_images st')) \<and> (\<exists>new. bs_ops st' = bs_ops st @ new \<and> list_all group_op new)"

lemma grows_ufs: "grows st (st\<lparr>bs_ufs := u\<rparr>)"
  by (simp add: grows_def)

lemma grows_trans: "grows st st1 \<Longrightarrow> grows st1 st2 \<Longrightarrow> grows st st2"
  by (auto simp: grows_def)

lemma grows_plain: "plain_step (bs_ops st) res \<Longrightarrow> bs_add st res = (r, st') \<Longrightarrow> grows st st'"
  by (auto simp: grows_def plain_step_def bs_add_def plain_group_op)

lemma read_op_load_plain: "plain_step ops (read_op_load xf ex ops pf inc)"
  by (auto simp: read_op_load_def plain_step_stay plain_reads.load_nodes_plain split: option.split)

lemma cmd_add_plain:
  "plain_step ops (program_cmd_add ops a f)" "plain_step ops (erase_cmd_add ops a)"
  "plain_step ops (read_cmd_add ops a n)" "plain_step ops (sha256_cmd_add ops a)"
  by (auto simp: program_cmd_add_def erase_cmd_add_def read_cmd_add_def sha256_cmd_add_def plain_step_def plain_op_def
      firehose_alloc_op_def split: option.split prod.split)

lemma build_file_grows: "build_file E opts type arg st = Some st' \<Longrightarrow> grows st st'"
  by (cases type)
    (auto simp: build_file_def Let_def split: prod.splits if_splits option.splits
      intro: grows_ufs grows_plain [OF patch_load_plain] grows_plain [OF program_load_plain] grows_plain [OF read_op_load_plain])

lemma contents_load_grows:
  assumes "images_ok imgs" "contents_load E ops filename specifier imgs inc = (ret, ops', imgs')" "0 \<le> ret"
  shows "images_ok imgs' \<and> (\<exists>new. ops' = ops @ new \<and> list_all group_op new)"
  using contents_load_leaves [OF assms(1,2)] assms(3) groups_group_op by (auto split: if_splits)

lemma select_ops_subset: "set (select_ops f cur ops) \<subseteq> set ops"
  by (induction ops arbitrary: cur) (auto simp: Let_def)

lemma flashmap_load_grows:
  assumes "images_ok imgs" "flashmap_load E ops filename specifier imgs inc = (ret, ops', imgs')" "0 \<le> ret"
  shows "images_ok imgs' \<and> (\<exists>new. ops' = ops @ new \<and> list_all group_op new)"
proof (cases "ret = 0")
  case False
  then show ?thesis using flashmap_load_leaves [OF assms(1,2)] by (intro conjI exI [of _ "[]"]) auto
next
  case True
  then have ok: "images_ok imgs'" using flashmap_load_leaves [OF assms(1,2)] by simp
  from True assms(2) obtain f layout where fl: "flashmap_decode_specifier specifier = Some (f, layout)"
    by (auto simp: flashmap_load_def split: option.splits)
  show ?thesis
  proof (rule flashmap_load_cases [OF fl, of E filename inc])
    assume "\<And>ops imgs. flashmap_load E ops filename specifier imgs inc = (-1, ops, imgs)"
    with True assms(2) show ?thesis by simp
  next
    fix z json
    assume r: "\<And>s f' ops imgs. flashmap_decode_specifier s = Some (f', layout) \<Longrightarrow>
      flashmap_load E ops filename s imgs inc = load_document E ops (if f' = 0 then -1 else f') layout imgs inc z json"
    obtain ret0 gs imgs0 where g: "load_groups_of E layout imgs inc z json (ret0, gs, imgs0)"
      using load_document_groups [OF assms(1)] by blast
    then have "list_all plain_group gs" by (simp add: load_groups_of_def)
    then have all: "list_all group_op (select_ops w QDL_STORAGE_UNKNOWN (groups_ops gs))" for w
      using groups_group_op [of gs] select_ops_subset [of w QDL_STORAGE_UNKNOWN "groups_ops gs"] by (auto simp: list_all_iff)
    have "\<exists>new. ops' = ops @ new \<and> list_all group_op new"
      using g assms(2) True all unfolding r [OF fl] by (auto simp: load_groups_of_def split: if_splits)
    with ok show ?thesis by simp
  qed
qed

lemma qdl_cmd_flash_grows:
  assumes "images_ok imgs" "qdl_cmd_flash E ops arg inc imgs = (ret, ops', imgs')" "0 \<le> ret"
  shows "images_ok imgs' \<and> (\<exists>new. ops' = ops @ new \<and> list_all group_op new)"
  using assms(2,3) contents_load_grows [OF assms(1)] flashmap_load_grows [OF assms(1)]
  by (auto simp: qdl_cmd_flash_def Let_def split: option.splits if_splits)

subsection \<open>The loop\<close>

lemma data_type_file: "\<not> is_verb (data_type ts)"
  by (induction ts) (auto simp: is_verb_def)

lemma detect_reset: "detect_type C a = Some QDL_CMD_RESET \<Longrightarrow> a = ''reset''"
  using data_type_file by (fastforce simp: detect_type_def is_verb_def split: if_splits option.splits)

text \<open>
  A turn of the loop: it goes on behind what the argument has taken, or it ends at the reset verb.
\<close>

definition built_from :: "build_state \<Rightarrow> string list \<Rightarrow> build_state \<Rightarrow> bool" where
  "built_from st args st' \<longleftrightarrow> grows st st' \<or>
     ''reset'' \<in> set args \<and> bs_skip_reset st'
       \<and> (\<exists>new. bs_ops st' = bs_ops st @ new @ [firehose_alloc_op FIREHOSE_OP_RESET] \<and> list_all group_op new)"

lemma built_from_step: "grows st st1 \<Longrightarrow> built_from st1 args st' \<Longrightarrow> set args \<subseteq> set args' \<Longrightarrow> built_from st args' st'"
  by (auto simp: built_from_def dest: grows_trans) (auto simp: grows_def)

lemma build_loop_turn:
  assumes "build_loop E opts saw_file saw_verb st (arg # args) = Builds r st'" "0 \<le> r" "images_ok (bs_images st)"
  shows "(\<exists>st1 saw_file1 saw_verb1 rest. grows st st1 \<and> build_loop E opts saw_file1 saw_verb1 st1 rest = Builds r st'
      \<and> set rest \<subseteq> set args \<and> length rest \<le> length args)
    \<or> arg = ''reset'' \<and> r = 0 \<and> st' = st\<lparr>bs_skip_reset := True, bs_ops := bs_ops st @ [firehose_alloc_op FIREHOSE_OP_RESET]\<rparr>"
    (is "?goes \<or> ?ends")
proof -
  obtain type where t: "detect_type (me_ct E) arg = Some type" using assms(1) by (auto split: option.splits)
  let ?file = "saw_file \<or> \<not> is_verb type" and ?verb = "saw_verb \<or> is_verb type"
  have on: ?goes if "grows st st1" "build_loop E opts ?file ?verb st1 rest = Builds r st'"
      "set rest \<subseteq> set args" "length rest \<le> length args" for st1 rest
    using that by blast
  show ?thesis
  proof (cases "is_verb type")
    case False
    then obtain st1 where "build_file E opts type arg st = Some st1" "build_loop E opts ?file ?verb st1 args = Builds r st'"
      using assms(1) t by (auto simp: Let_def split: if_splits option.splits)
    then show ?thesis using on [of st1 args] build_file_grows by blast
  next
    case True
    define goes where "goes = ?goes"
    have cmd: goes if "bs_add st res = (q, st1)" "plain_step (bs_ops st) res" "build_loop E opts ?file ?verb st1 rest = Builds r st'"
        "args = b # rest \<or> args = b # c # rest" for res q st1 rest b c
      unfolding goes_def by (rule on [OF grows_plain [OF that(2,1)] that(3)]) (use that(4) in auto)
    consider (add) "type \<in> {QDL_CMD_READ, QDL_CMD_WRITE, QDL_CMD_ERASE, QDL_CMD_SHA256}"
      | (flash) "type = QDL_CMD_FLASH" | (reset) "type = QDL_CMD_RESET"
      using True by (auto simp: is_verb_def)
    then show ?thesis
    proof cases
      case add
      then have goes using assms(1) t True
        by (auto simp: Let_def split: if_splits list.splits prod.splits intro: cmd cmd_add_plain)
      then show ?thesis unfolding goes_def ..
    next
      case flash
      then obtain spec rest ret ops imgs where f: "args = spec # rest"
          "qdl_cmd_flash E (bs_ops st) spec (o_incdir opts) (bs_images st) = (ret, ops, imgs)" "0 \<le> ret"
          "build_loop E opts ?file ?verb (st\<lparr>bs_ops := ops, bs_images := imgs\<rparr>) rest = Builds r st'"
        using assms(1,2) t True by (auto simp: Let_def split: if_splits list.splits prod.splits)
      have "grows st (st\<lparr>bs_ops := ops, bs_images := imgs\<rparr>)"
        using qdl_cmd_flash_grows [OF assms(3) f(2,3)] by (simp add: grows_def)
      then show ?thesis using on [OF _ f(4)] f(1) by auto
    next
      case reset
      then have ?ends using assms(1) t True detect_reset by (auto simp: Let_def qdl_cmd_reset_def split: if_splits)
      then show ?thesis ..
    qed
  qed
qed

lemma build_loop_built:
  "build_loop E opts saw_file saw_verb st args = Builds r st' \<Longrightarrow> 0 \<le> r \<Longrightarrow> images_ok (bs_images st) \<Longrightarrow>
   r = 0 \<and> built_from st args st' \<and> images_ok (bs_images st')"
proof (induction "length args" arbitrary: args st saw_file saw_verb rule: less_induct)
  case less
  show ?case
  proof (cases args)
    case Nil
    with less(2,4) show ?thesis by (auto simp: built_from_def grows_def)
  next
    case (Cons arg args0)
    from build_loop_turn [OF less(2) [unfolded Cons] less(3,4)] show ?thesis
    proof (elim disjE exE conjE)
      fix st1 f v rest
      assume n: "grows st st1" "build_loop E opts f v st1 rest = Builds r st'" "set rest \<subseteq> set args0" "length rest \<le> length args0"
      then have "r = 0 \<and> built_from st1 rest st' \<and> images_ok (bs_images st')"
        using less(1) [OF _ n(2) less(3)] less(4) Cons by (auto simp: grows_def)
      then show ?thesis using built_from_step [OF n(1), of rest st' args] n(3) Cons by auto
    next
      assume "arg = ''reset''" "r = 0" "st' = st\<lparr>bs_skip_reset := True, bs_ops := bs_ops st @ [firehose_alloc_op FIREHOSE_OP_RESET]\<rparr>"
      then show ?thesis using less(4) Cons by (auto simp: built_from_def)
    qed
  qed
qed

subsection \<open>The queue of a run\<close>

text \<open>The operations gathered from the arguments, and the reset the verb has put behind them.\<close>

lemma build_op_list_built:
  assumes "qdl_build_op_list E opts (bs_init opts) args = Builds r st" "0 \<le> r"
  shows "r = 0 \<and> images_ok (bs_images st) \<and> (\<exists>new rst. bs_ops st = new @ rst \<and> list_all group_op new
    \<and> (rst = [] \<and> bs_skip_reset st = o_skip_reset opts
       \<or> rst = [firehose_alloc_op FIREHOSE_OP_RESET] \<and> bs_skip_reset st \<and> ''reset'' \<in> set args))"
proof -
  obtain imgs rest where run: "build_loop E opts False False (bs_init opts\<lparr>bs_images := imgs\<rparr>) rest = Builds r st"
      "images_ok imgs" "set rest \<subseteq> set args"
  proof (cases "hd args = ''flash''")
    case True
    then have "build_loop E opts False False (bs_init opts\<lparr>bs_images := replicate MAPPING_SZ no_image\<rparr>) args = Builds r st"
      using assms by (auto simp: qdl_build_op_list_def bs_init_def split: list.splits)
    then show thesis by (rule that) (simp_all add: ex_images0_ok)
  next
    case False
    then obtain a rest ret imgs where a: "args = a # rest" "me_programmer E a (replicate MAPPING_SZ no_image) = Some (ret, imgs)"
        "build_loop E opts False False (bs_init opts\<lparr>bs_images := imgs\<rparr>) rest = Builds r st"
      using assms by (auto simp: qdl_build_op_list_def bs_init_def split: list.splits option.splits if_splits)
    have "images_ok imgs" using a(2) decode_programmer_leaves [OF ex_images0_ok]
      unfolding me_programmer_def by (fastforce split: loaded.splits)
    with a show thesis using that by auto
  qed
  let ?st = "bs_init opts\<lparr>bs_images := imgs\<rparr>"
  have init: "images_ok (bs_images ?st)" "bs_ops ?st = []" "bs_skip_reset ?st = o_skip_reset opts"
    using run(2) by (simp_all add: bs_init_def)
  from build_loop_built [OF run(1) assms(2) init(1)] have b: "r = 0" "built_from ?st rest st" "images_ok (bs_images st)" by auto
  have "\<exists>new rst. bs_ops st = new @ rst \<and> list_all group_op new \<and> (rst = [] \<and> bs_skip_reset st = o_skip_reset opts
       \<or> rst = [firehose_alloc_op FIREHOSE_OP_RESET] \<and> bs_skip_reset st \<and> ''reset'' \<in> set args)"
    using b(2) run(3) unfolding built_from_def grows_def init(2,3) by auto
  with b show ?thesis by simp
qed

lemma find_partition_skip:
  "op_type op \<noteq> FIREHOSE_OP_PROGRAM \<Longrightarrow> program_find_partition (op # ops) name = program_find_partition ops name"
  "op_type op \<noteq> FIREHOSE_OP_PROGRAM \<Longrightarrow> program_find_partition (ops @ [op]) name = program_find_partition ops name"
  by (induction ops) (simp_all add: program_find_partition_def)

lemma bootable_skip:
  "op_type op \<noteq> FIREHOSE_OP_PROGRAM \<Longrightarrow> program_find_bootable_partition (op # ops) = program_find_bootable_partition ops"
  "op_type op \<noteq> FIREHOSE_OP_PROGRAM \<Longrightarrow> program_find_bootable_partition (ops @ [op]) = program_find_bootable_partition ops"
  unfolding program_find_bootable_partition_def by (simp_all add: find_partition_skip)

lemma alloc_type [simp]: "op_type (firehose_alloc_op t) = t"
  by (simp add: firehose_alloc_op_def)

text \<open>The configured queue: the gathered operations behind a configuration, then the reset of the verb.\<close>

lemma ensure_configured_body:
  assumes "list_all group_op new" "rst = [] \<or> rst = [firehose_alloc_op FIREHOSE_OP_RESET]"
  obtains body where "qdl_ensure_configured (new @ rst) storage = body @ rst" "list_all group_op body"
    "body @ rst = [] \<or> body \<noteq> [] \<and> op_type (hd body) = FIREHOSE_OP_CONFIGURE"
proof (cases "new = [] \<and> rst = [] \<or> new \<noteq> [] \<and> op_type (hd new) = FIREHOSE_OP_CONFIGURE")
  case True
  then show thesis using assms(1) by (intro that [of new]) (cases new; auto simp: qdl_ensure_configured_def)+
next
  case False
  then show thesis using assms
    by (intro that [of "(firehose_alloc_op FIREHOSE_OP_CONFIGURE)\<lparr>op_storage_type := storage\<rparr> # new"])
      (cases new; auto simp: qdl_ensure_configured_def group_op_def firehose_alloc_op_def)+
qed

lemma determine_bootable_ops:
  "qdl_determine_bootable ops = ops @ (if 0 \<le> fst (program_find_bootable_partition ops)
     then [(firehose_alloc_op FIREHOSE_OP_SET_BOOTABLE)\<lparr>op_partition := fst (program_find_bootable_partition ops)\<rparr>] else [])"
  by (simp add: qdl_determine_bootable_def Let_def)

text \<open>
  C1: The shape of a flashing run. Whatever the command line, the queue that planning hands to the device
  has operations that only configure, transfer, erase, patch or digest, led by a configuration, and then at
  most two more: the operation that marks the boot partition, which is there exactly when a boot partition is
  among the former and carries its number, and the reset. The reset is there at most once, and always unless
  the user asked to skip it; the boot partition is marked before the reset, except when the reset comes
  from the reset verb on the command line. The image table is well formed.
\<close>

theorem qdl_plan_queue:
  assumes "qdl_plan E opts args = Builds 0 st"
  shows "images_ok (bs_images st) \<and> (\<exists>body final. bs_ops st = body @ final \<and> list_all group_op body
    \<and> (body = [] \<or> op_type (hd body) = FIREHOSE_OP_CONFIGURE)
    \<and> map op_type final \<in> {[], [FIREHOSE_OP_RESET], [FIREHOSE_OP_SET_BOOTABLE],
         [FIREHOSE_OP_SET_BOOTABLE, FIREHOSE_OP_RESET], [FIREHOSE_OP_RESET, FIREHOSE_OP_SET_BOOTABLE]}
    \<and> (\<not> o_skip_reset opts \<longrightarrow> FIREHOSE_OP_RESET \<in> op_type ` set final)
    \<and> (map op_type final = [FIREHOSE_OP_RESET, FIREHOSE_OP_SET_BOOTABLE] \<longrightarrow> ''reset'' \<in> set args)
    \<and> (FIREHOSE_OP_SET_BOOTABLE \<in> op_type ` set final \<longleftrightarrow> 0 \<le> fst (program_find_bootable_partition body))
    \<and> (\<forall>op \<in> set final. op_type op = FIREHOSE_OP_SET_BOOTABLE \<longrightarrow> op_partition op = fst (program_find_bootable_partition body)))"
proof -
  obtain st0 where b: "qdl_build_op_list E opts (bs_init opts) args = Builds 0 st0" "st = st0\<lparr>bs_ops := plan_queue opts st0\<rparr>"
    using assms build_op_list_built by (fastforce simp: qdl_plan_def split: built.splits if_splits)
  from build_op_list_built [OF b(1)] obtain new rst where n: "bs_ops st0 = new @ rst" "list_all group_op new"
      "rst = [] \<and> bs_skip_reset st0 = o_skip_reset opts
        \<or> rst = [firehose_alloc_op FIREHOSE_OP_RESET] \<and> bs_skip_reset st0 \<and> ''reset'' \<in> set args"
    and ok: "images_ok (bs_images st0)" by auto
  then have "rst = [] \<or> rst = [firehose_alloc_op FIREHOSE_OP_RESET]" by auto
  from ensure_configured_body [OF n(2) this] obtain body where body:
      "qdl_ensure_configured (new @ rst) (o_storage_type opts) = body @ rst" "list_all group_op body"
      "body @ rst = [] \<or> body \<noteq> [] \<and> op_type (hd body) = FIREHOSE_OP_CONFIGURE" by metis
  let ?boot = "fst (program_find_bootable_partition body)"
  let ?mark = "if 0 \<le> ?boot then [(firehose_alloc_op FIREHOSE_OP_SET_BOOTABLE)\<lparr>op_partition := ?boot\<rparr>] else []"
  have boot: "qdl_determine_bootable (body @ rst) = body @ rst @ ?mark"
    using n(3) by (auto simp: determine_bootable_ops bootable_skip)
  have q: "bs_ops st = body @ rst @ ?mark @ (if bs_skip_reset st0 then [] else [firehose_alloc_op FIREHOSE_OP_RESET])"
    unfolding b(2) plan_queue_def n(1) body(1) Let_def boot by (simp add: qdl_cmd_reset_def)
  have mark: "op_type (firehose_alloc_op FIREHOSE_OP_SET_BOOTABLE\<lparr>op_partition := x\<rparr>) = FIREHOSE_OP_SET_BOOTABLE" for x
    by (simp add: firehose_alloc_op_def)
  show ?thesis
    using ok b(2) q body(2,3) n(3)
    by (intro conjI exI [of _ body] exI [of _ "rst @ ?mark @ (if bs_skip_reset st0 then [] else [firehose_alloc_op FIREHOSE_OP_RESET])"])
      (auto simp: mark)
qed

text \<open>A programmer, a write to the boot partition, and the reset verb.\<close>

definition ex_main :: main_env where
  "ex_main = \<lparr>me_ct = \<lparr>ct_fs = (\<lambda>p. Some ([127, 69], \<lambda>pos n. Some n)), ct_exists = (\<lambda>p. False), ct_xml = (\<lambda>p. None),
     ct_mem = (\<lambda>b. None)\<rparr>, me_zip = (\<lambda>p. None), me_beyond = [], me_after = []\<rparr>"

definition ex_args :: "string list" where
  "ex_args = [''prog.elf'', ''write'', ''1/0+8'', ''xbl'', ''reset'']"

lemma ex_main_programmer: "\<exists>imgs. me_programmer ex_main ''prog.elf'' (replicate MAPPING_SZ no_image) = Some (0, imgs)"
proof -
  have "c_strtoul 0 ''prog.elf'' = (0, False, None)" by code_simp
  then show ?thesis
    by (simp add: me_programmer_def ex_main_def decode_programmer_def load_sahara_image_def qdl_file_open_def
        qdl_file_load_def os_read_def decode_programmer_archive_def decode_sahara_config_def CPIO_HDR_def sub_buf_def)
qed

lemma ex_address: "parse_storage_address ''1/0+8'' = Some (1, 0, 8, None)"
proof -
  have "''1/0+8'' = show_dec 1 @ ''/'' @ show_dec 0 @ ''+'' @ show_dec 8"
    by (simp add: show_dec.simps char_of_def bit_0)
  then show ?thesis using parse_storage_address_range [of 1 0 8] by (simp add: to_int_def)
qed

text \<open>The reset verb comes before the boot partition is marked: the device gets the reset first.\<close>

lemma reset_verb_before_bootable:
  "\<exists>st. qdl_plan ex_main qdl_opts_init ex_args = Builds 0 st
     \<and> map op_type (bs_ops st) = [FIREHOSE_OP_CONFIGURE, FIREHOSE_OP_PROGRAM, FIREHOSE_OP_RESET, FIREHOSE_OP_SET_BOOTABLE]"
proof -
  obtain imgs where "me_programmer ex_main ''prog.elf'' (replicate MAPPING_SZ no_image) = Some (0, imgs)"
    using ex_main_programmer by (elim exE)
  then show ?thesis
    by (simp add: qdl_plan_def qdl_build_op_list_def ex_args_def bs_init_def detect_type_def is_verb_def bs_add_def
        program_cmd_add_def ex_address qdl_cmd_reset_def plan_queue_def qdl_ensure_configured_def qdl_determine_bootable_def
        program_find_bootable_partition_def program_find_partition_def firehose_alloc_op_def qdl_opts_init_def Let_def)
qed

lemma qdl_plan_queue_witness:
  "\<exists>st body final. qdl_plan ex_main qdl_opts_init ex_args = Builds 0 st \<and> bs_ops st = body @ final \<and> list_all group_op body
     \<and> map op_type final \<in> {[FIREHOSE_OP_RESET], [FIREHOSE_OP_SET_BOOTABLE, FIREHOSE_OP_RESET], [FIREHOSE_OP_RESET, FIREHOSE_OP_SET_BOOTABLE]}"
proof -
  obtain st where p: "qdl_plan ex_main qdl_opts_init ex_args = Builds 0 st" 
    using reset_verb_before_bootable by (elim exE conjE)
  have "\<not> o_skip_reset qdl_opts_init" by (simp add: qdl_opts_init_def)
  with qdl_plan_queue [OF p] obtain body final where q: "bs_ops st = body @ final" "list_all group_op body"
      "map op_type final \<in> {[], [FIREHOSE_OP_RESET], [FIREHOSE_OP_SET_BOOTABLE],
         [FIREHOSE_OP_SET_BOOTABLE, FIREHOSE_OP_RESET], [FIREHOSE_OP_RESET, FIREHOSE_OP_SET_BOOTABLE]}"
      "FIREHOSE_OP_RESET \<in> op_type ` set final" by (elim conjE exE) simp
  from q(4) have "FIREHOSE_OP_RESET \<in> set (map op_type final)" by simp
  with q(3) have "map op_type final \<in> {[FIREHOSE_OP_RESET], [FIREHOSE_OP_SET_BOOTABLE, FIREHOSE_OP_RESET], [FIREHOSE_OP_RESET, FIREHOSE_OP_SET_BOOTABLE]}"
    by (elim insertE emptyE) simp_all
  with p q(1,2) show ?thesis by (intro exI [of _ st] exI [of _ body] exI [of _ final] conjI)
qed

subsection \<open>The security partition\<close>

lemma load_nodes_keeps:
  assumes "\<And>ops node. Q (snd (load ops node)) = Q ops"
  shows "Q (snd (load_nodes load ops ns)) = Q ops"
proof (induction ns arbitrary: ops)
  case (Cons n ns)
  show ?case using Cons.IH assms [of ops n] by (cases "load ops n") simp
qed simp

lemma patch_load_partition:
  "program_find_partition (snd (patch_load xf ops pf)) name = program_find_partition ops name"
proof -
  have "program_find_partition (snd (load_patch_node node ops)) name = program_find_partition ops name" for node ops
    by (auto simp: load_patch_node_def Let_def find_partition_skip firehose_alloc_op_def split: prod.split)
  from load_nodes_keeps [where Q = "\<lambda>ops. program_find_partition ops name", OF this] show ?thesis
    by (auto simp: patch_load_def patch_load_xml_def split: option.split)
qed

lemma read_load_partition:
  "program_find_partition (snd (read_op_load xf ex ops pf inc)) name = program_find_partition ops name"
proof -
  have "program_find_partition (snd (load_read_node ex inc node ops)) name = program_find_partition ops name" for node ops
    by (auto simp: load_read_node_def Let_def find_partition_skip firehose_alloc_op_def split: prod.split option.split)
  from load_nodes_keeps [where Q = "\<lambda>ops. program_find_partition ops name", OF this] show ?thesis
    by (auto simp: read_op_load_def split: option.split)
qed

lemma build_file_sec:
  assumes "build_file E opts type arg st = Some st'" "\<not> o_allow_fusing opts"
    "\<not> program_is_sec_partition_flashed (bs_ops st)"
  shows "\<not> program_is_sec_partition_flashed (bs_ops st')"
  using assms(1,2) assms(3) [unfolded program_is_sec_partition_flashed_def]
    patch_load_partition [of "flat_xml (me_ct E)" "bs_ops st" arg]
    read_load_partition [of "flat_xml (me_ct E)" "ct_exists (me_ct E)" "bs_ops st" arg "o_incdir opts"]
  by (cases type) (auto simp: build_file_def Let_def bs_add_def program_is_sec_partition_flashed_def
      split: prod.splits if_splits option.splits)

lemma build_loop_sec:
  "build_loop E opts True saw_verb st args = Builds r st' \<Longrightarrow> \<not> o_allow_fusing opts \<Longrightarrow>
   \<not> program_is_sec_partition_flashed (bs_ops st) \<Longrightarrow> \<not> program_is_sec_partition_flashed (bs_ops st')"
proof (induction args arbitrary: st saw_verb)
  case (Cons arg args)
  then obtain type st1 where "build_file E opts type arg st = Some st1"
      "build_loop E opts True False st1 args = Builds r st'"
    by (auto simp: Let_def split: option.splits if_splits)
  with Cons.IH Cons.prems(2,3) build_file_sec show ?case by blast
qed simp

lemma plan_queue_sec:
  "program_is_sec_partition_flashed (plan_queue opts st) = program_is_sec_partition_flashed (bs_ops st)"
proof -
  have "program_find_partition (plan_queue opts st) n = program_find_partition (bs_ops st) n" for n
    by (auto simp: plan_queue_def determine_bootable_ops qdl_cmd_reset_def qdl_ensure_configured_def find_partition_skip
        firehose_alloc_op_def Let_def append_assoc [symmetric] simp del: append_assoc split: list.split)
  then show ?thesis by (simp add: program_is_sec_partition_flashed_def)
qed

text \<open>
  C40: The security partition is guarded when files are flashed. A run whose first input behind the
  programmer is a file and no verb, without the option that allows fusing, is not planned when the first
  program operation labelled secdata has an image: the tool exits before it opens the device.
\<close>

theorem qdl_plan_secdata_guard:
  assumes "qdl_plan E opts (prog # input # inputs) = Builds 0 st"
    and "prog \<noteq> ''flash''" "input \<notin> {''read'', ''write'', ''erase'', ''flash'', ''sha256'', ''reset''}"
    and "\<not> o_allow_fusing opts"
  shows "\<not> program_is_sec_partition_flashed (bs_ops st)"
proof -
  obtain st0 where b: "qdl_build_op_list E opts (bs_init opts) (prog # input # inputs) = Builds 0 st0"
      "st = st0\<lparr>bs_ops := plan_queue opts st0\<rparr>"
    using assms(1) build_op_list_built by (fastforce simp: qdl_plan_def split: built.splits if_splits)
  obtain imgs where l: "build_loop E opts False False (bs_init opts\<lparr>bs_images := imgs\<rparr>) (input # inputs) = Builds 0 st0"
    using b(1) assms(2) by (auto simp: qdl_build_op_list_def simp del: build_loop.simps split: option.splits if_splits)
  obtain type where t: "detect_type (me_ct E) input = Some type" using l by (auto split: option.splits)
  have "\<not> is_verb type" using t assms(3) data_type_file by (auto simp: detect_type_def is_verb_def split: if_splits option.splits)
  then have "build_loop E opts True False (bs_init opts\<lparr>bs_images := imgs\<rparr>) (input # inputs) = Builds 0 st0"
    using l t by (auto simp: Let_def split: option.splits if_splits)
  from build_loop_sec [OF this assms(4)] have "\<not> program_is_sec_partition_flashed (bs_ops st0)"
    by (simp add: bs_init_def program_is_sec_partition_flashed_def program_find_partition_def)
  with b(2) show ?thesis by (simp add: plan_queue_sec)
qed

text \<open>A patch file behind the programmer.\<close>

definition ex_main_files :: main_env where
  "ex_main_files = ex_main\<lparr>me_ct := (me_ct ex_main)\<lparr>ct_exists := (\<lambda>p. True),
     ct_xml := (\<lambda>p. Some (''patches'', [XTree ex_patch_node [] []]))\<rparr>\<rparr>"

lemma qdl_plan_secdata_guard_witness:
  "\<exists>st. qdl_plan ex_main_files qdl_opts_init [''prog.elf'', ''p.xml''] = Builds 0 st \<and> \<not> program_is_sec_partition_flashed (bs_ops st)"
proof -
  obtain imgs where i: "me_programmer ex_main ''prog.elf'' (replicate MAPPING_SZ no_image) = Some (0, imgs)"
    using ex_main_programmer by (elim exE)
  have "me_programmer ex_main_files ''prog.elf'' m = me_programmer ex_main ''prog.elf'' m" for m
  proof -
    have "c_strtoul 0 ''prog.elf'' = (0, False, None)" by code_simp
    then show ?thesis
      by (simp add: me_programmer_def ex_main_files_def ex_main_def decode_programmer_def load_sahara_image_def
          qdl_file_open_def qdl_file_load_def os_read_def decode_programmer_archive_def decode_sahara_config_def CPIO_HDR_def sub_buf_def)
  qed
  moreover have "patch_load (flat_xml (me_ct ex_main_files)) ops ''p.xml'' = (0, ops @ [ex_patch])" for ops
    by (simp add: patch_load_def patch_load_xml_def flat_xml_def ex_main_files_def ex_patch_load) (simp add: ex_patch_node_def)
  moreover have "detect_type (me_ct ex_main_files) ''p.xml'' = Some QDL_FILE_PATCH"
    by (simp add: detect_type_def ex_main_files_def)
  ultimately obtain st where p: "qdl_plan ex_main_files qdl_opts_init [''prog.elf'', ''p.xml''] = Builds 0 st"
    using i by (simp add: qdl_plan_def qdl_build_op_list_def bs_init_def is_verb_def build_file_def bs_add_def qdl_opts_init_def Let_def)
  have "\<not> o_allow_fusing qdl_opts_init" by (simp add: qdl_opts_init_def)
  from qdl_plan_secdata_guard [OF p _ _ this] p show ?thesis by (intro exI [of _ st]) simp
qed

definition with_guards :: "bool \<Rightarrow> bool \<Rightarrow> bool \<Rightarrow> storage_type \<Rightarrow> qdl_opts \<Rightarrow> qdl_opts" where
  "with_guards fusing missing finalize storage opts =
     opts\<lparr>o_allow_fusing := fusing, o_allow_missing := missing, o_finalize_provisioning := finalize, o_storage_type := storage\<rparr>"

lemma with_guards_incdir [simp]: "o_incdir (with_guards a m f t opts) = o_incdir opts"
  by (simp add: with_guards_def)

lemma build_loop_verbs:
  "build_loop E (with_guards a m f t opts) False True st args = build_loop E opts False True st args"
proof (induction "length args" arbitrary: args st rule: less_induct)
  case less
  show ?case
  proof (cases args)
    case (Cons arg rest)
    have ih: "length r < Suc (length rest) \<Longrightarrow>
        build_loop E (with_guards a m f t opts) False True st r = build_loop E opts False True st r" for r st
      using less Cons by simp
    show ?thesis unfolding Cons build_loop.simps(2) [of E _ False True st arg rest]
      by (simp add: Let_def ih del: build_loop.simps split: option.split list.split prod.split)
  qed simp
qed

text \<open>
  The flash verb takes none of the options that guard files. Which storage type is chosen, and whether
  fusing the security partition, skipping missing images or finalizing the provisioning is allowed, makes
  no difference to what a flash command line queues: a contents or flashmap description that programs
  the security partition needs no permission.
\<close>

theorem flash_ignores_guards:
  "qdl_build_op_list E (with_guards fusing missing finalize storage opts) st (''flash'' # args)
     = qdl_build_op_list E opts st (''flash'' # args)"
proof -
  have flash: "detect_type (me_ct E) ''flash'' = Some QDL_CMD_FLASH" by (simp add: detect_type_def)
  have verb: "is_verb QDL_CMD_FLASH" by (simp add: is_verb_def)
  show ?thesis
    by (simp add: qdl_build_op_list_def flash verb build_loop_verbs Let_def split: list.split prod.split)
qed

subsection \<open>Options\<close>

lemma parse_options_sets_sim:
  "parse_options o1 os = QDL_ARGS_OK o2 \<Longrightarrow> (Short CHR ''n'', a) \<in> set os \<or> (Short CHR ''t'', a) \<in> set os \<Longrightarrow>
   o_dev_type o2 = QDL_DEVICE_SIM"
proof (induction o1 os rule: parse_options.induct)
  case (2 o1 code arg os)
  from 2(2) obtain o3 where o3: "parse_option o1 code arg = QDL_ARGS_OK o3" by (auto split: args_result.splits)
  with 2(2) have rest: "parse_options o3 os = QDL_ARGS_OK o2" by simp
  show ?case
  proof (cases "code = Short CHR ''n'' \<or> code = Short CHR ''t''")
    case True
    then have "o_dev_type o3 = QDL_DEVICE_SIM" using o3 by (auto simp: parse_option_def)
    with parse_options_sim [OF rest] show ?thesis .
  next
    case False
    then show ?thesis using 2(1) [OF o3 rest] 2(3) by auto
  qed
qed simp

text \<open>
  A dry run never touches a device. If the dry-run option or the option that creates digests is
  among the options of a flashing run, then the run uses the simulated device, wherever the option stands and
  whatever backend another option selects.
\<close>

theorem dry_run_simulates:
  assumes "qdl_parse_args os positional = QDL_ARGS_OK opts"
    and "(Short CHR ''n'', a) \<in> set os \<or> (Short CHR ''t'', a) \<in> set os"
  shows "o_dev_type opts = QDL_DEVICE_SIM"
  using assms parse_options_sets_sim by (auto simp: qdl_parse_args_def split: args_result.splits if_splits)

lemma dry_run_simulates_witness:
  "\<exists>opts. qdl_parse_args [(Short CHR ''n'', []), (OPT_BACKEND, ''usb''), (Short CHR ''R'', [])] 2 = QDL_ARGS_OK opts
     \<and> o_dev_type opts = QDL_DEVICE_SIM \<and> o_skip_reset opts"
proof -
  obtain opts where p: "qdl_parse_args [(Short CHR ''n'', []), (OPT_BACKEND, ''usb''), (Short CHR ''R'', [])] 2 = QDL_ARGS_OK opts"
      "o_skip_reset opts"
    by (simp add: qdl_parse_args_def parse_option_def qdl_opts_init_def)
  have "(Short CHR ''n'', []) \<in> set [(Short CHR ''n'', []), (OPT_BACKEND, ''usb''), (Short CHR ''R'', [])]" by simp
  with dry_run_simulates [OF p(1)] p show ?thesis by blast
qed

end
