(* ===== verification/ZipperJson.thy ===== *)
theory ZipperJson
  imports Zipper JsonProps
begin

text \<open>
  The flashmap that \<open>create-zip\<close> writes is a JSON document, and the parser reads it back: the text is
  blocks of items, each on a line of its own.
\<close>

subsection \<open>Blocks\<close>

abbreviation spaces :: "nat \<Rightarrow> string" where "spaces n \<equiv> replicate n CHR '' ''"

definition block :: "string \<Rightarrow> string list \<Rightarrow> nat \<Rightarrow> string \<Rightarrow> string" where
  "block open_br items indent close_br = open_br @ CHR 0x0A # json_items items @ CHR 0x0A # spaces indent @ close_br"

definition elem_item :: "nat \<Rightarrow> json_value \<Rightarrow> string \<Rightarrow> bool" where
  "elem_item d v item \<longleftrightarrow> (\<exists>n t. bytes_of item = bytes_of (spaces n) @ t \<and> jvalue d v t)"

definition member_item :: "nat \<Rightarrow> u8 list \<times> json_value \<Rightarrow> string \<Rightarrow> bool" where
  "member_item d kv item \<longleftrightarrow> (\<exists>n kt t. bytes_of item = bytes_of (spaces n) @ 34 # kt @ 34 # 58 # 32 # t
     \<and> jchars (fst kv) kt \<and> jvalue d (snd kv) t)"

lemma bytes_of_append [simp]: "bytes_of (a @ b) = bytes_of a @ bytes_of b"
  by (simp add: bytes_of_def)

lemma bytes_of_Cons: "bytes_of (c # s) = of_char c # bytes_of s"
  by (simp add: bytes_of_def)

lemma jws_spaces: "jws (bytes_of (spaces n))"
  by (induction n) (simp_all add: jws_def bytes_of_def jspace_def)

lemma jws_newline: "jws (10 # b) = jws b"
  by (simp add: jws_def jspace_def)

lemma jelements_items:
  "list_all2 (elem_item d) vs items \<Longrightarrow> vs \<noteq> [] \<Longrightarrow> jws a \<Longrightarrow> jws b \<Longrightarrow>
   jelements d vs (a @ bytes_of (json_items items) @ b)"
proof (induction vs items arbitrary: a rule: list_all2_induct)
  case (Cons v vs item items)
  obtain n t where t: "bytes_of item = bytes_of (spaces n) @ t" "jvalue d v t" using Cons(1) by (auto simp: elem_item_def)
  have w: "jws (a @ bytes_of (spaces n))" using Cons(5) by (simp add: jws_spaces)
  show ?case
  proof (cases "vs = []")
    case True
    then have "items = []" using Cons(2) by simp
    then show ?thesis using jvalue_jelements_jmembers.elem1 [OF t(2) w Cons(6)] t(1) True by simp
  next
    case False
    have "jws [10]" by (simp add: jws_newline jws_Nil)
    from Cons(3) [OF False this Cons(6)] have rest: "jelements d vs (10 # bytes_of (json_items items) @ b)" by simp
    from False Cons(2) have "items \<noteq> []" by auto
    then show ?thesis using jvalue_jelements_jmembers.elems [OF t(2) w jws_Nil rest] t(1) by (simp add: bytes_of_Cons)
  qed
qed simp

lemma jmembers_items:
  "list_all2 (member_item d) kvs items \<Longrightarrow> kvs \<noteq> [] \<Longrightarrow> jws a \<Longrightarrow> jws b \<Longrightarrow>
   jmembers d kvs (a @ bytes_of (json_items items) @ b)"
proof (induction kvs items arbitrary: a rule: list_all2_induct)
  case (Cons kv kvs item items)
  obtain n kt t where t: "bytes_of item = bytes_of (spaces n) @ 34 # kt @ 34 # 58 # 32 # t" "jchars (fst kv) kt" "jvalue d (snd kv) t"
    using Cons(1) by (auto simp: member_item_def)
  have w: "jws (a @ bytes_of (spaces n))" using Cons(5) by (simp add: jws_spaces)
  have sp: "jws [32]" by (simp add: jws_def jspace_def)
  show ?case
  proof (cases "kvs = []")
    case True
    then have "items = []" using Cons(2) by simp
    then show ?thesis using jvalue_jelements_jmembers.mem1 [OF t(2,3) w jws_Nil sp Cons(6)] t(1) True by simp
  next
    case False
    have "jws [10]" by (simp add: jws_newline jws_Nil)
    from Cons(3) [OF False this Cons(6)] have rest: "jmembers d kvs (10 # bytes_of (json_items items) @ b)" by simp
    from False Cons(2) have "items \<noteq> []" by auto
    then show ?thesis using jvalue_jelements_jmembers.mems [OF t(2,3) w jws_Nil sp jws_Nil rest] t(1) by (simp add: bytes_of_Cons)
  qed
qed simp

lemma object_block:
  assumes "list_all2 (member_item (Suc d)) kvs items" "kvs \<noteq> []" "d < JSON_MAX_DEPTH"
  shows "jvalue d (JSON_OBJECT kvs) (bytes_of (block ''{'' items n ''}''))"
proof -
  have "jws [10]" "jws (10 # bytes_of (spaces n))" by (simp_all add: jws_newline jws_Nil jws_spaces)
  from jvalue_jelements_jmembers.obj [OF jmembers_items [OF assms(1,2) this] assms(3)] show ?thesis
    by (simp add: block_def bytes_of_Cons) (simp add: bytes_of_def)
qed

lemma array_block:
  assumes "list_all2 (elem_item (Suc d)) vs items" "vs \<noteq> []" "d < JSON_MAX_DEPTH"
  shows "jvalue d (JSON_ARRAY vs) (bytes_of (block ''['' items n '']''))"
proof -
  have "jws [10]" "jws (10 # bytes_of (spaces n))" by (simp_all add: jws_newline jws_Nil jws_spaces)
  from jvalue_jelements_jmembers.arr [OF jelements_items [OF assms(1,2) this] assms(3)] show ?thesis
    by (simp add: block_def bytes_of_Cons) (simp add: bytes_of_def)
qed

subsection \<open>Strings\<close>

lemma control_table:
  "list_all (\<lambda>n. utf8_of (of_nat n) = [of_nat n]
     \<and> map hex_digit_val (bytes_of (hex_digits 4 n)) = [Some 0, Some 0, Some (n div 16), Some (n mod 16)]) [0..<32]"
  by code_simp

lemma jescape_control: "n < 32 \<Longrightarrow> jescape [of_nat n] (bytes_of (CHR ''u'' # hex_digits 4 n))"
proof -
  assume n: "n < 32"
  then have t: "utf8_of (of_nat n) = [of_nat n]"
      "map hex_digit_val (bytes_of (hex_digits 4 n)) = [Some 0, Some 0, Some (n div 16), Some (n mod 16)]"
    using control_table by (simp_all add: list_all_iff)
  have "hex4 n (bytes_of (hex_digits 4 n))" unfolding hex4_def t(2)
    by (intro exI [of _ 0] exI [of _ "n div 16"] exI [of _ "n mod 16"]) simp
  from jescape.unit [OF this] n show ?thesis by (simp add: t(1) bytes_of_Cons)
qed

lemma jchars_escape_char:
  assumes "jchars bs t"
  shows "jchars (of_char c # bs) (bytes_of (escape_char c) @ t)"
proof -
  let ?n = "of_char c :: nat"
  have c: "(of_char c :: u8) = of_nat ?n" by (rule of_nat_of_char [symmetric])
  have n: "?n < 256" by (rule of_char_mod_256 [THEN subst]) simp
  have simple: ?thesis if "(e, of_nat ?n) \<in> set simple_escapes" "bytes_of (escape_char c) = [92, e]" for e
    using jchars.escape [OF jescape.simple [OF that(1)] assms] that(2) c by simp
  have ctl: ?thesis if "?n < 32" "bytes_of (escape_char c) = 92 # bytes_of (CHR ''u'' # hex_digits 4 ?n)"
    using jchars.escape [OF jescape_control [OF that(1)] assms] that(2) c by simp
  have special: "?n \<in> {8, 9, 10, 12, 13, 34, 92} \<Longrightarrow> ?thesis"
    by (elim insertE emptyE; rule simple) (simp_all add: simple_escapes_def escape_char_def bytes_of_def Let_def)
  show ?thesis
  proof (cases "?n < 32 \<or> ?n = 34 \<or> ?n = 92")
    case True
    show ?thesis
    proof (cases "?n \<in> {8, 9, 10, 12, 13, 34, 92}")
      case False
      with True have "?n < 32" by simp
      with False show ?thesis by (intro ctl) (simp_all add: escape_char_def Let_def bytes_of_Cons)
    qed (rule special)
  next
    case False
    then have "escape_char c = [c]" by (simp add: escape_char_def Let_def)
    moreover have "32 \<le> (of_nat ?n :: u8)" "(of_nat ?n :: u8) \<noteq> 34" "(of_nat ?n :: u8) \<noteq> 92"
      using False n by (simp_all add: word_le_nat_alt unat_of_nat word_unat_eq_iff)
    ultimately show ?thesis using jchars.plain [OF assms, of "of_nat ?n"] c by (simp add: bytes_of_def)
  qed
qed

lemma jchars_escaped: "jchars (bytes_of s) (bytes_of (concat (map escape_char s)))"
  by (induction s) (simp_all add: bytes_of_Cons jchars_escape_char jchars.none bytes_of_def [of "[]"])

lemma escaped_string: "jvalue d (JSON_STRING (bytes_of s)) (bytes_of (flashmap_json_append_escaped_string s))"
  using jvalue_jelements_jmembers.str [OF jchars_escaped]
  by (simp add: flashmap_json_append_escaped_string_def bytes_of_Cons) (simp add: bytes_of_def)

subsection \<open>The document\<close>

definition programmer_member :: "nat \<times> string \<Rightarrow> u8 list \<times> json_value" where
  "programmer_member e = (bytes_of (show_dec (fst e)), JSON_STRING (bytes_of (snd e)))"

definition storage_value :: "storage_ctx \<Rightarrow> json_value" where
  "storage_value sx = JSON_OBJECT
     [(bytes_of ''memory'', JSON_STRING (bytes_of (sx_memory sx))), (bytes_of ''slot'', JSON_NUMBER 0),
      (bytes_of ''files'', JSON_ARRAY [JSON_STRING (bytes_of (program_xml_name sx)), JSON_STRING (bytes_of (patch_xml_name sx))])]"

definition layout_value :: "(nat \<times> string) list \<Rightarrow> storage_ctx list \<Rightarrow> json_value" where
  "layout_value entries storages = JSON_OBJECT
     [(bytes_of ''name'', JSON_STRING (bytes_of ''layout0'')),
      (bytes_of ''programmer'', JSON_OBJECT (map programmer_member entries)),
      (bytes_of ''programmable'', JSON_ARRAY (map storage_value storages))]"

definition flashmap_value :: "(nat \<times> string) list \<Rightarrow> storage_ctx list \<Rightarrow> json_value" where
  "flashmap_value entries storages = JSON_OBJECT
     [(bytes_of ''version'', JSON_STRING (bytes_of ''1.2.0-qdl'')),
      (bytes_of ''products'', JSON_ARRAY [JSON_OBJECT
         [(bytes_of ''name'', JSON_STRING (bytes_of ''contents'')),
          (bytes_of ''layouts'', JSON_ARRAY [layout_value entries storages])]])]"

abbreviation member_text_of :: "nat \<Rightarrow> string \<Rightarrow> string \<Rightarrow> string" where
  "member_text_of n k v \<equiv> spaces n @ json_quoted k @ '': '' @ v"

lemma storage_item_block:
  "storage_item sx = spaces 12 @ block ''{''
     [member_text_of 14 ''memory'' (json_quoted (sx_memory sx)), member_text_of 14 ''slot'' ''0'',
      member_text_of 14 ''files'' (block ''[''
        [spaces 16 @ flashmap_json_append_escaped_string (program_xml_name sx),
         spaces 16 @ flashmap_json_append_escaped_string (patch_xml_name sx)] 14 '']'')] 12 ''}''"
  by (simp add: storage_item_def block_def json_line_def json_quoted_def)

lemma flashmap_block:
  "flashmap_build_json entries storages = block ''{''
     [member_text_of 2 ''version'' (json_quoted ''1.2.0-qdl''),
      member_text_of 2 ''products'' (block ''[''
        [spaces 4 @ block ''{''
          [member_text_of 6 ''name'' (json_quoted ''contents''),
           member_text_of 6 ''layouts'' (block ''[''
             [spaces 8 @ block ''{''
               [member_text_of 10 ''name'' (json_quoted ''layout0''),
                member_text_of 10 ''programmer'' (block ''{'' (map programmer_item entries) 10 ''}''),
                member_text_of 10 ''programmable'' (block ''['' (map storage_item storages) 10 '']'')] 8 ''}''] 6 '']'')] 4 ''}''] 2 '']'')] 0 ''}''
     @ [CHR 0x0A]"
  by (simp add: flashmap_build_json_def block_def json_line_def json_quoted_def)

text \<open>Names that need no escape.\<close>

definition plain_name :: "string \<Rightarrow> bool" where
  "plain_name s \<longleftrightarrow> plain_bytes (bytes_of s)"

lemma plain_quoted: "plain_name s \<Longrightarrow> jvalue d (JSON_STRING (bytes_of s)) (bytes_of (json_quoted s))"
  using jvalue_jelements_jmembers.str [OF jchars_plain]
  by (simp add: plain_name_def json_quoted_def bytes_of_Cons) (simp add: bytes_of_def)

lemma member_itemI:
  assumes "plain_name k" "jvalue d v (bytes_of t)"
  shows "member_item d (bytes_of k, v) (member_text_of n k t)"
proof -
  have k: "jchars (bytes_of k) (bytes_of k)" using assms(1) by (simp add: plain_name_def jchars_plain)
  have e: "bytes_of (member_text_of n k t) = bytes_of (spaces n) @ 34 # bytes_of k @ 34 # 58 # 32 # bytes_of t"
    by (simp add: json_quoted_def bytes_of_Cons)
  show ?thesis unfolding member_item_def e fst_conv snd_conv using k assms(2) by blast
qed

lemma member_items_Cons:
  assumes "plain_name k" "jvalue d v (bytes_of t)" "list_all2 (member_item d) kvs items"
  shows "list_all2 (member_item d) ((bytes_of k, v) # kvs) (member_text_of n k t # items)"
  using member_itemI [OF assms(1,2)] assms(3) by (simp only: list_all2_Cons)

lemma elem_itemI: "jvalue d v (bytes_of t) \<Longrightarrow> elem_item d v (spaces n @ t)"
  unfolding elem_item_def by (intro exI [of _ n] exI [of _ "bytes_of t"]) simp

lemma plain_names:
  "plain_name ''memory''" "plain_name ''slot''" "plain_name ''files''" "plain_name ''version''" "plain_name ''products''"
  "plain_name ''name''" "plain_name ''layouts''" "plain_name ''programmer''" "plain_name ''programmable''"
  "plain_name ''contents''" "plain_name ''layout0''" "plain_name ''1.2.0-qdl''"
  by (simp_all add: plain_name_def plain_bytes_def bytes_of_def)

lemma plain_show_dec: "plain_name (show_dec n)"
proof -
  have "0x20 \<le> b \<and> b \<noteq> 34 \<and> b \<noteq> 92" if "jdigit b" for b
    using that by (auto simp: jdigit_def word_le_nat_alt)
  moreover have "list_all jdigit (bytes_of (show_dec n))"
    using show_dec_digits by (auto simp: list_all_iff bytes_of_def jdigit_of_char)
  ultimately show ?thesis by (auto simp: plain_name_def plain_bytes_def list_all_iff)
qed

lemma storage_item_value:
  assumes "plain_name (sx_memory sx)" "d < 60"
  shows "elem_item d (storage_value sx) (storage_item sx)"
proof -
  have num: "jvalue e (JSON_NUMBER 0) (bytes_of ''0'')" for e
    using jvalue_jelements_jmembers.num [OF jnumber_show to_double_nat, of 0] by (simp add: show_dec.simps char_of_def bit_0)
  show ?thesis unfolding storage_item_block storage_value_def
    by (intro elem_itemI object_block list_all2_Cons [THEN iffD2] conjI list_all2_Nil [THEN iffD2] member_itemI plain_names
        array_block escaped_string plain_quoted num assms)
      (use assms in \<open>simp_all add: JSON_MAX_DEPTH_def\<close>)
qed

lemma programmer_item_value: "member_item d (programmer_member e) (programmer_item e)"
  unfolding programmer_item_def programmer_member_def by (intro member_itemI plain_show_dec escaped_string)

lemma list_all2_map_same: "(\<And>x. x \<in> set xs \<Longrightarrow> P (f x) (g x)) \<Longrightarrow> list_all2 P (map f xs) (map g xs)"
  by (induction xs) simp_all

text \<open>
  The document, when at least one programmer and one storage device are in it and the storage devices have the names of
  storage types.
\<close>

lemma layout_block_value:
  assumes "entries \<noteq> []" "storages \<noteq> []" "\<forall>sx \<in> set storages. plain_name (sx_memory sx)"
  shows "jvalue 4 (layout_value entries storages) (bytes_of (block ''{''
     [member_text_of 10 ''name'' (json_quoted ''layout0''),
      member_text_of 10 ''programmer'' (block ''{'' (map programmer_item entries) 10 ''}''),
      member_text_of 10 ''programmable'' (block ''['' (map storage_item storages) 10 '']'')] 8 ''}''))"
proof -
  have p: "list_all2 (member_item d) (map programmer_member entries) (map programmer_item entries)" for d
    by (intro list_all2_map_same programmer_item_value)
  have st: "list_all2 (elem_item 6) (map storage_value storages) (map storage_item storages)"
    using assms(3) by (intro list_all2_map_same storage_item_value) simp_all
  have a: "jvalue (Suc 4) (JSON_STRING (bytes_of ''layout0'')) (bytes_of (json_quoted ''layout0''))"
    by (intro plain_quoted plain_names)
  have b: "jvalue (Suc 4) (JSON_OBJECT (map programmer_member entries)) (bytes_of (block ''{'' (map programmer_item entries) 10 ''}''))"
    by (rule object_block [OF p]) (use assms(1) in \<open>simp_all add: JSON_MAX_DEPTH_def\<close>)
  have c: "jvalue (Suc 4) (JSON_ARRAY (map storage_value storages)) (bytes_of (block ''['' (map storage_item storages) 10 '']''))"
    by (rule array_block) (use assms(2) st in \<open>simp_all add: JSON_MAX_DEPTH_def\<close>)
  have "list_all2 (member_item (Suc 4))
     [(bytes_of ''name'', JSON_STRING (bytes_of ''layout0'')), (bytes_of ''programmer'', JSON_OBJECT (map programmer_member entries)),
      (bytes_of ''programmable'', JSON_ARRAY (map storage_value storages))]
     [member_text_of 10 ''name'' (json_quoted ''layout0''),
      member_text_of 10 ''programmer'' (block ''{'' (map programmer_item entries) 10 ''}''),
      member_text_of 10 ''programmable'' (block ''['' (map storage_item storages) 10 '']'')]"
    by (intro member_items_Cons plain_names a b c list.rel_intros)
  from object_block [OF this] show ?thesis unfolding layout_value_def by (simp add: JSON_MAX_DEPTH_def)
qed

lemma flashmap_block_value:
  assumes "entries \<noteq> []" "storages \<noteq> []" "\<forall>sx \<in> set storages. plain_name (sx_memory sx)"
  shows "\<exists>t. bytes_of (flashmap_build_json entries storages) = t @ [10] \<and> jvalue 0 (flashmap_value entries storages) t"
proof -
  have four: "Suc (Suc (Suc (Suc 0))) = 4" by simp
  have nl: "bytes_of [CHR 0x0A] = [10]" by (simp add: bytes_of_def)
  show ?thesis unfolding flashmap_block bytes_of_append [of _ "[CHR 0x0A]"] nl flashmap_value_def
    by (rule exI, rule conjI, rule refl)
      (intro object_block array_block list_all2_Cons [THEN iffD2] conjI list_all2_Nil [THEN iffD2] member_itemI elem_itemI
         plain_names plain_quoted layout_block_value [OF assms, folded four], simp_all add: JSON_MAX_DEPTH_def)
qed

lemma flashmap_json_parses:
  assumes "entries \<noteq> []" "storages \<noteq> []" "\<forall>sx \<in> set storages. plain_name (sx_memory sx)"
    "length (flashmap_build_json entries storages) \<le> 2147483647"
  shows "json_parse_buf (bytes_of (flashmap_build_json entries storages)) = Some (flashmap_value entries storages)"
proof -
  obtain t where t: "bytes_of (flashmap_build_json entries storages) = t @ [10]" "jvalue 0 (flashmap_value entries storages) t"
    using flashmap_block_value [OF assms(1-3)] by blast
  have "length (bytes_of (flashmap_build_json entries storages)) \<le> 2147483647" using assms(4) by (simp add: bytes_of_def)
  from json_accept [OF this _ jws_Nil _ t(2), of "[10]"] t(1) show ?thesis by (simp add: jws_newline jws_Nil)
qed

end
