(* ===== verification/ZipperProps.thy ===== *)
theory ZipperProps
  imports ZipperJson FlashmapProps
begin

text \<open>
  An archive that \<open>create-zip\<close> has written is flashed with \<open>flash\<close>: reading it back gives the
  operations and the programmers it was made of.
\<close>

subsection \<open>What becomes of an operation\<close>

text \<open>Operations that are written: erasing, programming an image, and patching the disk.\<close>

definition data_kept :: "firehose_op \<Rightarrow> bool" where
  "data_kept op \<longleftrightarrow> op_type op = FIREHOSE_OP_ERASE \<or> op_type op = FIREHOSE_OP_PROGRAM \<and> op_filename op \<noteq> None"

definition disk_patch :: "firehose_op \<Rightarrow> bool" where
  "disk_patch op \<longleftrightarrow> op_type op = FIREHOSE_OP_PATCH \<and> op_filename op = Some ''DISK''"

text \<open>Where the data of a program operation come from, and its offset into its member, in sectors.\<close>

definition op_source :: "firehose_op \<Rightarrow> zip_source" where
  "op_source op =
     (if op_sparse op then
        (if op_sparse_chunk_type op = Some CHUNK_TYPE_FILL
         then Buffer (fill_bytes (op_sparse_fill_value op) (unat (op_num_sectors op) * unat (op_sector_size op)))
         else FilePart (the (op_filename op)) (nat (op_sparse_offset op)) (Some (unat (op_num_sectors op) * unat (op_sector_size op))))
      else FilePart (the (op_filename op)) 0 None)"

definition op_offset :: "firehose_op \<Rightarrow> u32" where
  "op_offset op = (if op_sparse op then 0 else op_file_offset op)"

definition elem_of :: "(string \<rightharpoonup> zip_source) \<Rightarrow> firehose_op \<Rightarrow> xml_elem \<Rightarrow> bool" where
  "elem_of M op e \<longleftrightarrow>
     (if op_type op = FIREHOSE_OP_ERASE then e = erase_elem op
      else \<exists>name. e = program_elem op name (op_offset op) \<and> name \<noteq> [] \<and> M name = Some (op_source op))"

lemma elem_of_mono: "elem_of M op e \<Longrightarrow> M \<subseteq>\<^sub>m M' \<Longrightarrow> elem_of M' op e"
  by (force simp: elem_of_def map_le_def dom_def)

lemma elems_mono: "list_all2 (elem_of M) ops es \<Longrightarrow> M \<subseteq>\<^sub>m M' \<Longrightarrow> list_all2 (elem_of M') ops es"
  by (erule list_all2_mono) (rule elem_of_mono)

subsection \<open>The members\<close>

definition files_of :: "zipper \<Rightarrow> string \<rightharpoonup> zip_source" where
  "files_of s = map_of (zs_members s)"

text \<open>
  The names in use are those of the members, none of them is empty or the flashmap's, and a renamed file has
  its member.
\<close>

definition zinv :: "zipper \<Rightarrow> bool" where
  "zinv s \<longleftrightarrow> dom (files_of s) = set (zs_names s) \<and> set (zs_names s) \<inter> {[], ''flashmap.json''} = {}
     \<and> (\<forall>k name. map_of (zs_renames s) k = Some name \<longrightarrow> files_of s name = Some (FilePart (snd k) 0 None))"

text \<open>A step keeps the members there are.\<close>

definition adds :: "zipper \<Rightarrow> zipper \<Rightarrow> bool" where
  "adds s s' \<longleftrightarrow> zinv s' \<and> files_of s \<subseteq>\<^sub>m files_of s'"

lemma adds_refl: "zinv s \<Longrightarrow> adds s s"
  by (simp add: adds_def)

lemma adds_trans: "adds s s1 \<Longrightarrow> adds s1 s2 \<Longrightarrow> adds s s2"
  by (auto simp: adds_def intro: map_le_trans)

lemma adds_zinv: "adds s s' \<Longrightarrow> zinv s'"
  by (simp add: adds_def)

text \<open>Adding a member under a name that is free.\<close>

lemma add_member:
  assumes "zip_file_add W s name src = Some s1" "zinv s" "\<not> zipper_name_is_used s name" "name \<notin> {[], ''flashmap.json''}"
  shows "adds s (zipper_add_name_entry s1 name) \<and> files_of (zipper_add_name_entry s1 name) name = Some src
    \<and> zs_storages (zipper_add_name_entry s1 name) = zs_storages s \<and> zs_current (zipper_add_name_entry s1 name) = zs_current s
    \<and> zs_renames (zipper_add_name_entry s1 name) = zs_renames s"
proof -
  have s1: "s1 = s\<lparr>zs_members := AList.update name src (zs_members s)\<rparr>" using assms(1) by (auto simp: zip_file_add_def split: if_splits)
  have f: "files_of (zipper_add_name_entry s1 name) = (files_of s)(name \<mapsto> src)"
    by (simp add: files_of_def s1 zipper_add_name_entry_def update_conv')
  have new: "name \<notin> dom (files_of s)" using assms(2,3) by (simp add: zinv_def zipper_name_is_used_def)
  have r: "zs_renames s1 = zs_renames s" by (simp add: s1)
  have "zinv (zipper_add_name_entry s1 name)"
    using assms(2,4) new unfolding zinv_def f by (auto simp: s1 zipper_add_name_entry_def)
  then show ?thesis using f new by (auto simp: adds_def map_le_def s1 zipper_add_name_entry_def)
qed

lemma storage_name_not_flashmap: "encode_storage_type t = Some m \<Longrightarrow> m @ x \<notin> {[], ''flashmap.json''}"
  by (cases t) (auto simp: encode_storage_type_def storage_types_def)

subsection \<open>An operation\<close>

text \<open>A program operation with an image gets a member with its data.\<close>

definition registered :: "zipper \<Rightarrow> firehose_op \<Rightarrow> zipper \<Rightarrow> string \<Rightarrow> bool" where
  "registered s op s1 name \<longleftrightarrow> adds s s1 \<and> name \<noteq> [] \<and> files_of s1 name = Some (op_source op)
     \<and> zs_storages s1 = zs_storages s \<and> zs_current s1 = zs_current s"

lemma zinv_idx [simp]: "zinv (s\<lparr>zs_raw_idx := i\<rparr>) = zinv s" "zinv (s\<lparr>zs_fill_idx := i\<rparr>) = zinv s"
  "files_of (s\<lparr>zs_raw_idx := i\<rparr>) = files_of s" "files_of (s\<lparr>zs_fill_idx := i\<rparr>) = files_of s"
  by (simp_all add: zinv_def files_of_def)

lemma adds_idx [simp]: "adds (s\<lparr>zs_raw_idx := i\<rparr>) s' = adds s s'" "adds (s\<lparr>zs_fill_idx := i\<rparr>) s' = adds s s'"
  by (simp_all add: adds_def)

lemma registered_raw:
  assumes "zipper_register_raw_program_file W memory op s = Some (s1, name)" "zinv s" "encode_storage_type t = Some memory"
    "op_sparse op" "op_sparse_chunk_type op = Some CHUNK_TYPE_RAW"
  shows "registered s op s1 name"
  using assms add_member [OF _ _ _ storage_name_not_flashmap [OF assms(3)]]
  by (fastforce simp: zipper_register_raw_program_file_def registered_def op_source_def Let_def split: if_splits)

lemma registered_fill:
  assumes "zipper_register_fill_program_file W memory op s = Some (s1, name)" "zinv s" "encode_storage_type t = Some memory"
    "op_sparse op" "op_sparse_chunk_type op = Some CHUNK_TYPE_FILL"
  shows "registered s op s1 name"
  using assms add_member [OF _ _ _ storage_name_not_flashmap [OF assms(3)]]
  by (fastforce simp: zipper_register_fill_program_file_def registered_def op_source_def zipper_add_buffer_def Let_def split: if_splits)

lemma registered_file:
  assumes "zipper_register_program_file W t memory filename s = Some (s1, name)" "zinv s" "encode_storage_type t = Some memory"
    "\<not> op_sparse op" "op_filename op = Some filename"
  shows "registered s op s1 name"
proof (cases "map_of (zs_renames s) (t, filename)")
  case (Some n)
  then have "s1 = s" "name = n" using assms(1) by (auto simp: zipper_register_program_file_def)
  moreover have "files_of s n = Some (FilePart filename 0 None)" "n \<noteq> []" using assms(2) Some unfolding zinv_def by force+
  ultimately show ?thesis using assms(2,4,5) by (simp add: registered_def op_source_def adds_refl)
next
  case None
  then obtain base s2 where b: "zipper_basename (Some filename) = Some base" "name = memory @ ''_'' @ base"
      "\<not> zipper_name_is_used s name" "zip_file_add W s name (FilePart filename 0 None) = Some s2"
      "s1 = (zipper_add_name_entry s2 name)\<lparr>zs_renames := zs_renames s2 @ [((t, filename), name)]\<rparr>"
    using assms(1) by (auto simp: zipper_register_program_file_def zipper_add_file_def Let_def split: option.splits if_splits)
  let ?s = "zipper_add_name_entry s2 name"
  have ne: "name \<notin> {[], ''flashmap.json''}" using storage_name_not_flashmap [OF assms(3)] b(2) by simp
  note m = add_member [OF b(4) assms(2) b(3) ne]
  have r: "zs_renames s2 = zs_renames s" using b(4) by (auto simp: zip_file_add_def split: if_splits)
  have f: "files_of s1 = files_of ?s" "zs_names s1 = zs_names ?s" by (simp_all add: files_of_def b(5))
  have "files_of s1 n = Some (FilePart (snd k) 0 None)" if "map_of (zs_renames s1) k = Some n" for k n
  proof (cases "map_of (zs_renames s) k")
    case None
    then show ?thesis using that m unfolding f by (auto simp: b(5) r map_of_append map_add_def split: if_splits)
  next
    case (Some n')
    then have "n' = n" using that by (simp add: b(5) r map_of_append map_add_def)
    then have "files_of s n = Some (FilePart (snd k) 0 None)" using Some assms(2) unfolding zinv_def by blast
    then show ?thesis using m unfolding f by (force simp: adds_def map_le_def dom_def)
  qed
  then have "zinv s1" using m unfolding zinv_def adds_def f by simp
  with ne show ?thesis using m assms(4,5) unfolding registered_def adds_def f by (simp add: b(5) op_source_def)
qed

lemma zipper_op_program:
  assumes "op_type op = FIREHOSE_OP_PROGRAM" "op_filename op = Some filename" "zs_current s = Some t"
    "encode_storage_type t = Some memory" "zipper_op W s op = Some s'" "zinv s"
  shows "\<exists>name s1. registered s op s1 name \<and>
    s' = set_storage (\<lambda>sx. sx\<lparr>sx_program := sx_program sx @ [program_elem op name (op_offset op)]\<rparr>) t s1"
  using assms registered_raw [OF _ assms(6,4)] registered_fill [OF _ assms(6,4)] registered_file [OF _ assms(6,4)]
  by (fastforce simp: zipper_op_def op_offset_def zipper_storage_append_program_def Let_def
      split: if_splits option.splits chunk_kind.splits)

subsection \<open>The queue\<close>

lemma set_storage_last:
  "zs_storages s = pre @ [sx] \<Longrightarrow> sx_type sx = t \<Longrightarrow> t \<notin> sx_type ` set pre \<Longrightarrow>
   zs_storages (set_storage f t s) = pre @ [f sx]"
  by (auto simp: set_storage_def image_iff intro!: map_idI)

lemma set_storage_simps [simp]:
  "zinv (set_storage f t s) = zinv s" "files_of (set_storage f t s) = files_of s" "zs_current (set_storage f t s) = zs_current s"
  "adds s0 (set_storage f t s) = adds s0 s"
  by (simp_all add: set_storage_def zinv_def files_of_def adds_def)

text \<open>The operations of a storage device extend its documents.\<close>

definition wrote :: "(string \<rightharpoonup> zip_source) \<Rightarrow> firehose_op list \<Rightarrow> storage_ctx \<Rightarrow> storage_ctx \<Rightarrow> bool" where
  "wrote M ops sx sx' \<longleftrightarrow> (\<exists>es. list_all2 (elem_of M) (filter data_kept ops) es \<and>
     sx' = sx\<lparr>sx_program := sx_program sx @ es, sx_patch := sx_patch sx @ map patch_elem (filter disk_patch ops)\<rparr>)"

lemma zipper_op_group:
  assumes "zipper_op W s op = Some s1" "zinv s" "zs_current s = Some t" "encode_storage_type t = Some memory" "plain_op op"
    "zs_storages s = pre @ [sx]" "sx_type sx = t" "t \<notin> sx_type ` set pre"
  shows "\<exists>sx1. wrote (files_of s1) [op] sx sx1 \<and> zs_storages s1 = pre @ [sx1] \<and> sx_type sx1 = t \<and> zs_current s1 = Some t \<and> adds s s1"
proof (cases "op_type op = FIREHOSE_OP_PROGRAM \<and> op_filename op \<noteq> None")
  case True
  then obtain filename name s2 where r: "registered s op s2 name"
      "s1 = set_storage (\<lambda>sx. sx\<lparr>sx_program := sx_program sx @ [program_elem op name (op_offset op)]\<rparr>) t s2"
    using zipper_op_program [OF _ _ assms(3,4,1,2)] by blast
  then have "zs_storages s1 = pre @ [sx\<lparr>sx_program := sx_program sx @ [program_elem op name (op_offset op)]\<rparr>]"
    unfolding r(2) by (intro set_storage_last) (use assms(6-8) r(1) in \<open>auto simp: registered_def\<close>)
  moreover have "elem_of (files_of s1) op (program_elem op name (op_offset op))"
    using r True by (auto simp: elem_of_def registered_def)
  ultimately show ?thesis using r True assms(3,7)
    by (intro exI [of _ "sx\<lparr>sx_program := sx_program sx @ [program_elem op name (op_offset op)]\<rparr>"])
      (auto simp: wrote_def registered_def data_kept_def disk_patch_def)
next
  case False
  have set1: "zs_storages (set_storage f t s) = pre @ [f sx]" for f using set_storage_last [OF assms(6-8)] .
  consider (erase) "op_type op = FIREHOSE_OP_ERASE" | (patch) "disk_patch op"
    | (skip) "\<not> data_kept op" "\<not> disk_patch op"
    using False by (auto simp: data_kept_def)
  then show ?thesis
  proof cases
    case erase
    then have "s1 = set_storage (\<lambda>sx. sx\<lparr>sx_program := sx_program sx @ [erase_elem op]\<rparr>) t s"
      using assms(1,3) by (simp add: zipper_op_def zipper_storage_append_erase_def Let_def)
    then show ?thesis using erase assms(2,3,7) set1
      by (intro exI [of _ "sx\<lparr>sx_program := sx_program sx @ [erase_elem op]\<rparr>"])
        (auto simp: wrote_def data_kept_def disk_patch_def elem_of_def adds_refl intro!: exI [of _ "[erase_elem op]"])
  next
    case patch
    then have "s1 = set_storage (\<lambda>sx. sx\<lparr>sx_patch := sx_patch sx @ [patch_elem op]\<rparr>) t s"
      using assms(1,3) by (simp add: zipper_op_def zipper_storage_append_patch_def disk_patch_def Let_def)
    then show ?thesis using patch assms(2,3,7) set1
      by (intro exI [of _ "sx\<lparr>sx_patch := sx_patch sx @ [patch_elem op]\<rparr>"])
        (auto simp: wrote_def data_kept_def disk_patch_def adds_refl)
  next
    case skip
    then have "s1 = s" using assms(1,3,5) False
      by (auto simp: zipper_op_def Let_def data_kept_def disk_patch_def plain_op_def data_op_def split: if_splits)
    then show ?thesis using skip assms(2,3,6,7) by (intro exI [of _ sx]) (auto simp: wrote_def adds_refl)
  qed
qed

lemma wrote_trans:
  assumes "wrote M1 ops1 sx sx1" "wrote M2 ops2 sx1 sx2" "M1 \<subseteq>\<^sub>m M2"
  shows "wrote M2 (ops1 @ ops2) sx sx2"
proof -
  obtain e1 e2 where e: "list_all2 (elem_of M1) (filter data_kept ops1) e1" "list_all2 (elem_of M2) (filter data_kept ops2) e2"
      "sx1 = sx\<lparr>sx_program := sx_program sx @ e1, sx_patch := sx_patch sx @ map patch_elem (filter disk_patch ops1)\<rparr>"
      "sx2 = sx1\<lparr>sx_program := sx_program sx1 @ e2, sx_patch := sx_patch sx1 @ map patch_elem (filter disk_patch ops2)\<rparr>"
    using assms(1,2) by (auto simp: wrote_def)
  have "list_all2 (elem_of M2) (filter data_kept (ops1 @ ops2)) (e1 @ e2)"
    using elems_mono [OF e(1) assms(3)] e(2) by (simp add: list_all2_appendI)
  with e(3,4) show ?thesis by (auto simp: wrote_def)
qed

lemma zipper_ops_group:
  "zipper_ops W s ops = Some s1 \<Longrightarrow> zinv s \<Longrightarrow> zs_current s = Some t \<Longrightarrow> encode_storage_type t = Some memory \<Longrightarrow>
   list_all plain_op ops \<Longrightarrow> zs_storages s = pre @ [sx] \<Longrightarrow> sx_type sx = t \<Longrightarrow> t \<notin> sx_type ` set pre \<Longrightarrow>
   \<exists>sx1. wrote (files_of s1) ops sx sx1 \<and> zs_storages s1 = pre @ [sx1] \<and> sx_type sx1 = t \<and> adds s s1"
proof (induction ops arbitrary: s sx)
  case Nil
  then show ?case by (intro exI [of _ sx]) (auto simp: wrote_def adds_refl)
next
  case (Cons op ops)
  then obtain s2 where s2: "zipper_op W s op = Some s2" "zipper_ops W s2 ops = Some s1" by (auto split: option.splits)
  obtain sx2 where x: "wrote (files_of s2) [op] sx sx2" "zs_storages s2 = pre @ [sx2]" "sx_type sx2 = t" "zs_current s2 = Some t" "adds s s2"
    using zipper_op_group [OF s2(1) Cons.prems(2-4) _ Cons.prems(6-8)] Cons.prems(5) by auto
  obtain sx1 where y: "wrote (files_of s1) ops sx2 sx1" "zs_storages s1 = pre @ [sx1]" "sx_type sx1 = t" "adds s2 s1"
    using Cons.IH [OF s2(2) adds_zinv [OF x(5)] x(4) Cons.prems(4) _ x(2,3) Cons.prems(8)] Cons.prems(5) by auto
  have "wrote (files_of s1) (op # ops) sx sx1" using wrote_trans [OF x(1) y(1)] y(4) by (simp add: adds_def)
  with y adds_trans [OF x(5) y(4)] show ?case by blast
qed

text \<open>A whole queue: one document pair per storage device, in order.\<close>

definition sx_of :: "(string \<rightharpoonup> zip_source) \<Rightarrow> storage_type \<times> firehose_op list \<Rightarrow> storage_ctx \<Rightarrow> bool" where
  "sx_of M g sx \<longleftrightarrow> sx_type sx = fst g \<and> encode_storage_type (fst g) = Some (sx_memory sx)
     \<and> list_all2 (elem_of M) (filter data_kept (snd g)) (sx_program sx) \<and> sx_patch sx = map patch_elem (filter disk_patch (snd g))"

lemma sx_of_mono: "sx_of M g sx \<Longrightarrow> M \<subseteq>\<^sub>m M' \<Longrightarrow> sx_of M' g sx"
  by (auto simp: sx_of_def dest: elems_mono)

lemma zipper_ops_append:
  "zipper_ops W s (xs @ ys) = (case zipper_ops W s xs of None \<Rightarrow> None | Some s1 \<Rightarrow> zipper_ops W s1 ys)"
  by (induction xs arbitrary: s) (simp_all split: option.split)

lemma zipper_configure:
  assumes "zipper_op W s (hd (group_ops g)) = Some s1" "fst g \<notin> sx_type ` set (zs_storages s)" "zinv s"
  shows "\<exists>memory. encode_storage_type (fst g) = Some memory \<and> zs_current s1 = Some (fst g) \<and> adds s s1
    \<and> zs_storages s1 = zs_storages s @ [\<lparr>sx_type = fst g, sx_memory = memory, sx_program = [], sx_patch = []\<rparr>]"
proof -
  have "find (\<lambda>sx. sx_type sx = fst g) (zs_storages s) = None" using assms(2) by (force simp: find_None_iff)
  then show ?thesis using assms(1,3)
    by (auto simp: zipper_op_def group_ops_def firehose_alloc_op_def zipper_find_storage_ctx_def zipper_create_storage_ctx_def
        Let_def adds_def zinv_def files_of_def)
qed

lemma zipper_ops_groups:
  "zipper_ops W s (groups_ops gs) = Some s1 \<Longrightarrow> zinv s \<Longrightarrow> list_all plain_group gs \<Longrightarrow> distinct (map fst gs) \<Longrightarrow>
   sx_type ` set (zs_storages s) \<inter> fst ` set gs = {} \<Longrightarrow>
   \<exists>sxs. zs_storages s1 = zs_storages s @ sxs \<and> list_all2 (sx_of (files_of s1)) gs sxs \<and> adds s s1"
proof (induction gs arbitrary: s)
  case Nil
  then show ?case by (auto simp: adds_refl)
next
  case (Cons g gs)
  obtain t os where g: "g = (t, os)" by fastforce
  obtain s2 s3 where r: "zipper_op W s (hd (group_ops g)) = Some s2" "zipper_ops W s2 os = Some s3" "zipper_ops W s3 (groups_ops gs) = Some s1"
    using Cons.prems(1) by (auto simp: zipper_ops_append group_ops_def g split: option.splits)
  obtain memory where c: "encode_storage_type t = Some memory" "zs_current s2 = Some t" "adds s s2"
      "zs_storages s2 = zs_storages s @ [\<lparr>sx_type = t, sx_memory = memory, sx_program = [], sx_patch = []\<rparr>]"
    using zipper_configure [OF r(1) _ Cons.prems(2)] Cons.prems(5) g by auto
  obtain sx where x: "wrote (files_of s3) os \<lparr>sx_type = t, sx_memory = memory, sx_program = [], sx_patch = []\<rparr> sx"
      "zs_storages s3 = zs_storages s @ [sx]" "sx_type sx = t" "adds s2 s3"
    using zipper_ops_group [OF r(2) adds_zinv [OF c(3)] c(2,1) _ c(4)] Cons.prems(3,5) g by (auto simp: plain_group_def)
  have disj: "sx_type ` set (zs_storages s3) \<inter> fst ` set gs = {}" using Cons.prems(4,5) x(2,3) g by auto
  obtain sxs where y: "zs_storages s1 = zs_storages s3 @ sxs" "list_all2 (sx_of (files_of s1)) gs sxs" "adds s3 s1"
    using Cons.IH [OF r(3) adds_zinv [OF x(4)] _ _ disj] Cons.prems(3,4) by auto
  have "sx_of (files_of s3) g sx" using x(1) c(1) g by (auto simp: sx_of_def wrote_def)
  then have "sx_of (files_of s1) g sx" using y(3) by (auto simp: adds_def intro: sx_of_mono)
  with y x(2) adds_trans [OF c(3) adds_trans [OF x(4) y(3)]] show ?case by (intro exI [of _ "sx # sxs"]) simp
qed

subsection \<open>Programmers and documents\<close>

text \<open>The entries of the images from index \<open>i\<close> on, and what their members hold.\<close>

fun entries_ok :: "(string \<rightharpoonup> zip_source) \<Rightarrow> nat \<Rightarrow> images \<Rightarrow> (nat \<times> string) list \<Rightarrow> bool" where
  "entries_ok M i [] es \<longleftrightarrow> es = []"
| "entries_ok M i (im # ims) es \<longleftrightarrow>
     (case img_ptr im of None \<Rightarrow> entries_ok M (Suc i) ims es
      | Some d \<Rightarrow> \<exists>name es'. es = (i, name) # es' \<and> M name = Some (Buffer (take (img_len im) d)) \<and> entries_ok M (Suc i) ims es')"

lemma entries_ok_mono: "entries_ok M i ims es \<Longrightarrow> M \<subseteq>\<^sub>m M' \<Longrightarrow> entries_ok M' i ims es"
  by (induction M i ims es rule: entries_ok.induct) (force simp: map_le_def dom_def split: option.splits)+

text \<open>Names of images: no NUL, shorter than a path, and not the flashmap's.\<close>

definition image_name_ok :: "string \<Rightarrow> bool" where
  "image_name_ok n \<longleftrightarrow> CHR 0x00 \<notin> set (c_basename n) \<and> length (c_basename n) < 4000 \<and> c_basename n \<noteq> ''flashmap.json''"

definition entry_name_ok :: "nat \<times> string \<Rightarrow> bool" where
  "entry_name_ok e \<longleftrightarrow> CHR 0x00 \<notin> set (snd e) \<and> length (snd e) < PATH_MAX"

lemma show_dec_short: "i < MAPPING_SZ \<Longrightarrow> length (show_dec i) \<le> 3"
proof -
  have "list_all (\<lambda>i. length (show_dec i) \<le> 3) [0..<128]" by code_simp
  then show "i < MAPPING_SZ \<Longrightarrow> length (show_dec i) \<le> 3" by (simp add: list_all_iff MAPPING_SZ_def)
qed

lemma show_dec_no_nul: "CHR 0x00 \<notin> set (show_dec n)"
  using show_dec_digits [of "CHR 0x00" n] by (auto simp: c_isdigit_def)

lemma entry_name_okI:
  "CHR 0x00 \<notin> set base \<Longrightarrow> length base < 4000 \<Longrightarrow> i < MAPPING_SZ \<Longrightarrow>
   entry_name_ok (i, if used then ''sahara'' @ show_dec i @ ''_'' @ base else base)"
  using show_dec_short [of i] show_dec_no_nul [of i] by (simp add: entry_name_ok_def PATH_MAX_def)

lemma default_name_ok: "image_name_ok ''programmer.bin''"
  by code_simp

lemma add_images:
  "zipper_add_images W s i ims = Some (s1, es) \<Longrightarrow> zinv s \<Longrightarrow> i + length ims \<le> MAPPING_SZ \<Longrightarrow>
   list_all (\<lambda>im. case img_name im of None \<Rightarrow> True | Some n \<Rightarrow> image_name_ok n) ims \<Longrightarrow>
   entries_ok (files_of s1) i ims es \<and> adds s s1 \<and> list_all entry_name_ok es \<and> zs_storages s1 = zs_storages s"
proof (induction ims arbitrary: s i es)
  case Nil
  then show ?case by (auto simp: adds_refl)
next
  case (Cons im ims)
  show ?case
  proof (cases "img_ptr im")
    case None
    then show ?thesis using Cons.IH [of s "Suc i" es] Cons.prems by auto
  next
    case (Some d)
    let ?n = "case img_name im of Some n \<Rightarrow> n | None \<Rightarrow> ''programmer.bin''"
    have n: "image_name_ok ?n"
      using Cons.prems(4) default_name_ok by (cases "img_name im") simp_all
    let ?name = "if zipper_name_is_used s (c_basename ?n) then ''sahara'' @ show_dec i @ ''_'' @ c_basename ?n else c_basename ?n"
    obtain s2 es' where z: "\<not> zipper_name_is_used s ?name" "zip_file_add W s ?name (Buffer (take (img_len im) d)) = Some s2"
        "zipper_add_images W (zipper_add_name_entry s2 ?name) (Suc i) ims = Some (s1, es')" "es = (i, ?name) # es'"
      using Cons.prems(1) Some by (auto simp: zipper_basename_def zipper_add_buffer_def Let_def split: option.splits if_splits)
    have "?name \<notin> {[], ''flashmap.json''}" using n c_basename_nonempty [of ?n] by (auto simp: image_name_ok_def)
    note m = add_member [OF z(2) Cons.prems(2) z(1) this]
    have "zinv (zipper_add_name_entry s2 ?name)" using m by (auto dest: adds_zinv)
    from Cons.IH [OF z(3) this] have ih: "entries_ok (files_of s1) (Suc i) ims es'" "adds (zipper_add_name_entry s2 ?name) s1"
        "list_all entry_name_ok es'" "zs_storages s1 = zs_storages (zipper_add_name_entry s2 ?name)"
      using Cons.prems(3,4) by simp_all
    have "files_of s1 ?name = Some (Buffer (take (img_len im) d))" using m ih(2) by (force simp: adds_def map_le_def dom_def)
    moreover have "entry_name_ok (i, ?name)"
      using n Cons.prems(3) by (intro entry_name_okI) (simp_all add: image_name_ok_def)
    ultimately show ?thesis using ih m z(4) Some by (auto intro: adds_trans)
  qed
qed

definition docs_of :: "zip_writer \<Rightarrow> (string \<rightharpoonup> zip_source) \<Rightarrow> storage_ctx \<Rightarrow> bool" where
  "docs_of W M sx \<longleftrightarrow>
     (\<exists>d. zw_dump W ''data'' (sx_program sx) = Some d \<and> M (program_xml_name sx) = Some (Buffer d))
     \<and> (\<exists>d. zw_dump W ''patches'' (sx_patch sx) = Some d \<and> M (patch_xml_name sx) = Some (Buffer d))"

lemma docs_of_mono: "docs_of W M sx \<Longrightarrow> M \<subseteq>\<^sub>m M' \<Longrightarrow> docs_of W M' sx"
  by (force simp: docs_of_def map_le_def dom_def)

lemma add_document_member:
  assumes "add_document W rootname elems name s = Some s1" "zinv s" "\<not> zipper_name_is_used s name" "name \<notin> {[], ''flashmap.json''}"
  shows "adds s s1 \<and> zs_names s1 = zs_names s @ [name]
    \<and> (\<exists>d. zw_dump W rootname elems = Some d \<and> files_of s1 name = Some (Buffer d))"
proof -
  obtain d s2 where d: "zw_dump W rootname elems = Some d" "zip_file_add W s name (Buffer d) = Some s2"
      "s1 = zipper_add_name_entry s2 name"
    using assms(1) by (auto simp: add_document_def zipper_add_buffer_def split: option.splits)
  have "zs_names s2 = zs_names s" using d(2) by (auto simp: zip_file_add_def split: if_splits)
  with add_member [OF d(2) assms(2-4)] d show ?thesis by (simp add: zipper_add_name_entry_def)
qed

lemma add_storage_docs:
  assumes "zipper_add_storage_xml W s sx = Some s1" "zinv s" "encode_storage_type (sx_type sx) = Some (sx_memory sx)"
  shows "adds s s1 \<and> docs_of W (files_of s1) sx"
proof -
  obtain s2 where a: "\<not> zipper_name_is_used s (program_xml_name sx)" "\<not> zipper_name_is_used s (patch_xml_name sx)"
      "add_document W ''data'' (sx_program sx) (program_xml_name sx) s = Some s2"
      "add_document W ''patches'' (sx_patch sx) (patch_xml_name sx) s2 = Some s1"
    using assms(1) by (auto simp: zipper_add_storage_xml_def split: if_splits option.splits)
  have n: "program_xml_name sx \<notin> {[], ''flashmap.json''}" "patch_xml_name sx \<notin> {[], ''flashmap.json''}"
    using storage_name_not_flashmap [OF assms(3)] unfolding program_xml_name_def patch_xml_name_def by blast+
  note d1 = add_document_member [OF a(3) assms(2) a(1) n(1)]
  have "\<not> zipper_name_is_used s2 (patch_xml_name sx)"
    using a(2) d1 by (simp add: zipper_name_is_used_def program_xml_name_def patch_xml_name_def)
  note d2 = add_document_member [OF a(4) _ this n(2)]
  have "zinv s2" using d1 by (auto dest: adds_zinv)
  from d1 d2 [OF this] show ?thesis by (force simp: docs_of_def adds_def map_le_def dom_def intro: map_le_trans)
qed

lemma add_storages_docs:
  "add_storages_xml W s sxs = Some s1 \<Longrightarrow> zinv s \<Longrightarrow>
   \<forall>sx \<in> set sxs. encode_storage_type (sx_type sx) = Some (sx_memory sx) \<Longrightarrow>
   adds s s1 \<and> (\<forall>sx \<in> set sxs. docs_of W (files_of s1) sx)"
proof (induction sxs arbitrary: s)
  case (Cons sx sxs)
  then obtain s2 where a: "zipper_add_storage_xml W s sx = Some s2" "add_storages_xml W s2 sxs = Some s1" by (auto split: option.splits)
  have d: "adds s s2" "docs_of W (files_of s2) sx" using add_storage_docs [OF a(1) Cons.prems(2)] Cons.prems(3) by auto
  from Cons.IH [OF a(2) adds_zinv [OF d(1)]] Cons.prems(3)
  have r: "adds s2 s1" "\<forall>sx \<in> set sxs. docs_of W (files_of s1) sx" by auto
  have "docs_of W (files_of s1) sx" using d(2) r(1) by (auto simp: adds_def intro: docs_of_mono)
  with adds_trans [OF d(1) r(1)] r(2) show ?case by simp
qed (simp add: adds_refl)

text \<open>All that is in an archive.\<close>

definition archived_as ::
  "zip_writer \<Rightarrow> (storage_type \<times> firehose_op list) list \<Rightarrow> images \<Rightarrow> (string \<rightharpoonup> zip_source) \<Rightarrow> storage_ctx list \<Rightarrow> (nat \<times> string) list \<Rightarrow> bool" where
  "archived_as W gs imgs M sxs es \<longleftrightarrow>
     sxs \<noteq> [] \<and> list_all2 (sx_of M) gs sxs \<and> (\<forall>sx \<in> set sxs. docs_of W M sx)
     \<and> es \<noteq> [] \<and> entries_ok M 0 imgs es \<and> list_all entry_name_ok es
     \<and> M ''flashmap.json'' = Some (Buffer (bytes_of (flashmap_build_json es sxs)))"

lemma zipper_build_archived:
  assumes "zipper_build W (groups_ops gs) imgs = Some members" "list_all plain_group gs" "distinct (map fst gs)"
    "length imgs = MAPPING_SZ" "list_all (\<lambda>im. case img_name im of None \<Rightarrow> True | Some n \<Rightarrow> image_name_ok n) imgs"
  shows "\<exists>sxs es. archived_as W gs imgs (map_of members) sxs es"
proof -
  obtain s s1 es s2 s3 where b: "zipper_ops W zipper_init (groups_ops gs) = Some s" "zs_storages s \<noteq> []"
      "zipper_add_images W s 0 imgs = Some (s1, es)" "es \<noteq> []" "add_storages_xml W s1 (zs_storages s) = Some s2"
      "zip_file_add W s2 ''flashmap.json'' (Buffer (bytes_of (flashmap_build_json es (zs_storages s)))) = Some s3" "members = zs_members s3"
    using assms(1) by (auto simp: zipper_build_def zipper_add_programmer_images_def zipper_add_buffer_def split: option.splits if_splits)
  have i: "zinv zipper_init" "zs_storages zipper_init = []" by (simp_all add: zinv_def zipper_init_def files_of_def)
  obtain sxs where q: "zs_storages s = sxs" "list_all2 (sx_of (files_of s)) gs sxs" "zinv s"
    using zipper_ops_groups [OF b(1) i(1) assms(2,3)] i(2) by (auto dest: adds_zinv)
  have p: "entries_ok (files_of s1) 0 imgs es" "adds s s1" "list_all entry_name_ok es"
    using add_images [OF b(3) q(3) _ assms(5)] assms(4) by auto
  have enc: "\<forall>sx \<in> set sxs. encode_storage_type (sx_type sx) = Some (sx_memory sx)"
    using q(2) by (auto simp: list_all2_conv_all_nth sx_of_def in_set_conv_nth)
  have d: "adds s1 s2" "\<forall>sx \<in> set sxs. docs_of W (files_of s2) sx"
    using add_storages_docs [OF b(5) adds_zinv [OF p(2)]] enc q(1) by auto
  have M: "map_of members = (files_of s2)(''flashmap.json'' \<mapsto> Buffer (bytes_of (flashmap_build_json es sxs)))"
    using b(6,7) q(1) by (auto simp: files_of_def zip_file_add_def update_conv' split: if_splits)
  have "''flashmap.json'' \<notin> dom (files_of s2)" using adds_zinv [OF d(1)] by (simp add: zinv_def)
  then have up: "files_of s2 \<subseteq>\<^sub>m map_of members" unfolding M by (auto simp: map_le_def)
  have up1: "files_of s1 \<subseteq>\<^sub>m map_of members" using d(1) up by (auto simp: adds_def intro: map_le_trans)
  have up0: "files_of s \<subseteq>\<^sub>m map_of members" using p(2) up1 by (auto simp: adds_def intro: map_le_trans)
  have sx: "list_all2 (sx_of (map_of members)) gs sxs"
    using q(2) by (rule list_all2_mono) (rule sx_of_mono [OF _ up0])
  have ds: "\<forall>sx \<in> set sxs. docs_of W (map_of members) sx" using d(2) up by (auto intro: docs_of_mono)
  show ?thesis unfolding archived_as_def
    by (intro exI [of _ sxs] exI [of _ es] conjI sx ds p(3) b(4) entries_ok_mono [OF p(1) up1]) (use b(2) q(1) M in auto)
qed

end
