(* ===== verification/ZipperLoad.thy ===== *)
theory ZipperLoad
  imports ZipperProps
begin

text \<open>
  Reading back an archive that \<open>create-zip\<close> has written.
\<close>

subsection \<open>Elements\<close>

text \<open>What libxml2 shows of an element it has read.\<close>

definition to_node :: "xml_elem \<Rightarrow> xml_node" where
  "to_node e = \<lparr>xn_element = True, xn_name = fst e, xn_get = map_of (snd e), xn_has = \<lambda>a. map_of (snd e) a \<noteq> None\<rparr>"

lemma to_node_element [simp]: "xn_element (to_node e)"
  by (simp add: to_node_def)

text \<open>The operations an archive \<open>Z\<close> gives back.\<close>

definition unpacked_program :: "firehose_op \<Rightarrow> file_system \<Rightarrow> string \<Rightarrow> firehose_op" where
  "unpacked_program op Z name = (firehose_alloc_op FIREHOSE_OP_PROGRAM)
     \<lparr>op_is_nand := op_is_nand op, op_sector_size := op_sector_size op, op_zip := Some Z, op_filename := Some name,
      op_label := op_label op, op_num_sectors := op_num_sectors op, op_partition := op_partition op,
      op_start_sector := Some (start_text op),
      op_pages_per_block := if op_is_nand op then op_pages_per_block op else 0,
      op_last_sector := if op_is_nand op then op_last_sector op else 0,
      op_file_offset := if op_is_nand op then 0 else op_offset op\<rparr>"

definition unpacked_erase :: "firehose_op \<Rightarrow> firehose_op" where
  "unpacked_erase op = (firehose_alloc_op FIREHOSE_OP_ERASE)
     \<lparr>op_is_nand := op_is_nand op, op_sector_size := op_sector_size op, op_num_sectors := op_num_sectors op,
      op_partition := op_partition op, op_start_sector := Some (start_text op),
      op_pages_per_block := if op_is_nand op then op_pages_per_block op else 0\<rparr>"

definition unpacked_patch :: "firehose_op \<Rightarrow> firehose_op" where
  "unpacked_patch op = (firehose_alloc_op FIREHOSE_OP_PATCH)
     \<lparr>op_sector_size := op_sector_size op, op_byte_offset := op_byte_offset op, op_filename := op_filename op,
      op_partition := op_partition op, op_size_in_bytes := op_size_in_bytes op,
      op_start_sector := Some (start_text op), op_value := op_value op, op_what := op_what op\<rparr>"

text \<open>
  What an operation must be like for that: a partition number a signed integer can hold, no empty texts, a
  label on what programs an image, and sectors to erase. The XML loaders of a build make such operations, except that they
  accept an empty label and any partition number.
\<close>

definition packable :: "storage_type \<Rightarrow> firehose_op \<Rightarrow> bool" where
  "packable t op \<longleftrightarrow> 0 \<le> op_partition op \<and> op_partition op < 2 ^ 31 \<and> op_start_sector op \<noteq> Some []
     \<and> (op_type op \<in> {FIREHOSE_OP_PROGRAM, FIREHOSE_OP_ERASE} \<longrightarrow> op_is_nand op = (t = QDL_STORAGE_NAND))
     \<and> (op_type op = FIREHOSE_OP_PROGRAM \<longrightarrow> op_label op \<noteq> None \<and> op_label op \<noteq> Some [])
     \<and> (op_type op = FIREHOSE_OP_ERASE \<longrightarrow> op_num_sectors op \<noteq> 0)
     \<and> (op_type op = FIREHOSE_OP_PATCH \<longrightarrow> op_value op \<noteq> Some [] \<and> op_what op \<noteq> Some [])"

lemma strtoul_partition:
  "0 \<le> p \<Longrightarrow> p < 2 ^ 31 \<Longrightarrow> int_of_u32 (ucast (strtoul_val 0 (show_int p))) = p"
proof -
  assume p: "0 \<le> p" "p < 2 ^ 31"
  have n: "nat p < 2 ^ 64" using p by simp
  have "c_strtoul 0 (show_dec (nat p)) = (of_nat (nat p), False, Some [])"
    using scan_number_dec0 [of "nat p"] n by (simp add: c_strtoul_def ulong_max_def not_less)
  then show ?thesis using p
    by (simp add: show_int_def int_of_u32_def sint_uint uint_word_of_int unsigned_of_int signed_take_bit_int_eq_self take_bit_int_eq_self)
qed

lemma start_text_nonempty: "op_start_sector op \<noteq> Some [] \<Longrightarrow> start_text op \<noteq> []"
  by (auto simp: start_text_def split: option.splits)

lemmas read_attrs_simps = to_node_def attr_as_unsigned_def attr_as_string_def attr_as_bool_def strtoul_show_u32 strtoul_partition
  start_text_nonempty

lemma program_tag_unpacked:
  assumes "packable t op" "op_type op = FIREHOSE_OP_PROGRAM" "name \<noteq> []"
  shows "program_tag_op (to_node (program_elem op name (op_offset op))) (t = QDL_STORAGE_NAND) (Some Z) = (unpacked_program op Z name, 0)"
proof -
  obtain l where l: "op_label op = Some l" "l \<noteq> []" using assms(1,2) by (auto simp: packable_def)
  show ?thesis using assms l
    by (simp add: program_tag_op_def program_elem_def packable_def unpacked_program_def read_attrs_simps firehose_alloc_op_def Let_def)
qed

lemma load_program_unpacked:
  assumes "packable t op" "op_type op = FIREHOSE_OP_PROGRAM" "name \<noteq> []" "Z name \<noteq> None"
  shows "load_program_node (to_node (program_elem op name (op_offset op))) (t = QDL_STORAGE_NAND) a (Some Z) fs pf cr ex inc ops
    = (0, ops @ [unpacked_program op Z name])"
proof -
  have "op_zip (unpacked_program op Z name) = Some Z" "op_filename (unpacked_program op Z name) = Some name"
    "\<not> op_sparse (unpacked_program op Z name)" by (simp_all add: unpacked_program_def firehose_alloc_op_def)
  moreover have "xn_name (to_node (program_elem op name (op_offset op))) = ''program''" by (simp add: to_node_def program_elem_def)
  ultimately show ?thesis using assms(4)
    by (auto simp: load_program_node_def load_program_tag_def program_tag_unpacked [OF assms(1-3)] program_resolve_path_def
        qdl_file_open_def split: option.split)
qed

lemma load_erase_unpacked:
  assumes "packable t op" "op_type op = FIREHOSE_OP_ERASE"
  shows "load_program_node (to_node (erase_elem op)) (t = QDL_STORAGE_NAND) a z fs pf cr ex inc ops = (0, ops @ [unpacked_erase op])"
  using assms
  by (simp add: load_program_node_def load_erase_tag_def erase_elem_def packable_def unpacked_erase_def read_attrs_simps firehose_alloc_op_def Let_def)

lemma load_patch_unpacked:
  assumes "packable t op" "disk_patch op"
  shows "load_patch_node (to_node (patch_elem op)) ops = (0, ops @ [unpacked_patch op])"
  using assms
  by (cases "op_value op"; cases "op_what op")
    (auto simp: load_patch_node_def patch_elem_def disk_patch_def packable_def unpacked_patch_def read_attrs_simps opt_text_def firehose_alloc_op_def Let_def)

subsection \<open>Documents\<close>

text \<open>
  libzip keeps its promise: every member of the closed archive has the bytes of its source, and reads of
  it are served in full.
\<close>

definition source_bytes :: "file_system \<Rightarrow> zip_source \<Rightarrow> u8 list option" where
  "source_bytes fs src =
     (case src of
        Buffer d \<Rightarrow> Some d
      | FilePart path off len \<Rightarrow>
          (case fs path of
             None \<Rightarrow> None
           | Some (d, _) \<Rightarrow>
               (case len of
                  None \<Rightarrow> Some (drop off d)
                | Some n \<Rightarrow> if off + n \<le> length d then Some (sub_buf off n d) else None)))"

definition archive_of :: "file_system \<Rightarrow> (string \<rightharpoonup> zip_source) \<Rightarrow> file_system \<Rightarrow> bool" where
  "archive_of fs M Z \<longleftrightarrow>
     (\<forall>name src. M name = Some src \<longrightarrow> (\<exists>d. source_bytes fs src = Some d \<and> Z name = Some (d, \<lambda>pos n. Some n)))"

text \<open>libxml2 reads back what it has written.\<close>

definition reads_back :: "zip_writer \<Rightarrow> (u8 list \<Rightarrow> (string \<times> xml_node list) option) \<Rightarrow> bool" where
  "reads_back W parse \<longleftrightarrow> (\<forall>rootname elems d. zw_dump W rootname elems = Some d \<longrightarrow>
     length d \<le> 2 ^ 31 - 1 \<and> parse d = Some (rootname, map to_node elems))"

text \<open>An operation and what the archive gives back for it: a program operation programs the same data.\<close>

definition unpacked_op :: "file_system \<Rightarrow> file_system \<Rightarrow> firehose_op \<Rightarrow> firehose_op \<Rightarrow> bool" where
  "unpacked_op fs Z op op' \<longleftrightarrow>
     (if op_type op = FIREHOSE_OP_ERASE then op' = unpacked_erase op
      else \<exists>name d. op' = unpacked_program op Z name \<and> source_bytes fs (op_source op) = Some d \<and> Z name = Some (d, \<lambda>pos n. Some n))"

lemma load_program_elems:
  assumes "list_all2 (elem_of M) os es" "list_all data_kept os" "list_all (packable t) os" "archive_of fs M Z"
  shows "\<exists>new. list_all2 (unpacked_op fs Z) os new
    \<and> (\<forall>ops. program_load_xml ops (map to_node es) (Some Z) dfs pf (t = QDL_STORAGE_NAND) a cr ex inc = (0, ops @ new))"
  using assms(1-3)
proof (induction os es rule: list_all2_induct)
  case Nil
  then show ?case by (simp add: program_load_xml_def)
next
  case (Cons op os e es)
  have "\<exists>op'. unpacked_op fs Z op op'
    \<and> (\<forall>ops. load_program_node (to_node e) (t = QDL_STORAGE_NAND) a (Some Z) dfs pf cr ex inc ops = (0, ops @ [op']))"
  proof (cases "op_type op = FIREHOSE_OP_ERASE")
    case True
    then show ?thesis using Cons(1) load_erase_unpacked [of t op] Cons.prems by (auto simp: elem_of_def unpacked_op_def)
  next
    case False
    then have p: "op_type op = FIREHOSE_OP_PROGRAM" using Cons.prems(1) by (simp add: data_kept_def)
    obtain name where n: "e = program_elem op name (op_offset op)" "name \<noteq> []" "M name = Some (op_source op)"
      using Cons(1) False by (auto simp: elem_of_def)
    obtain d where d: "source_bytes fs (op_source op) = Some d" "Z name = Some (d, \<lambda>pos n. Some n)"
      using assms(4) n(3) by (auto simp: archive_of_def)
    have "load_program_node (to_node e) (t = QDL_STORAGE_NAND) a (Some Z) dfs pf cr ex inc ops = (0, ops @ [unpacked_program op Z name])" for ops
      unfolding n(1) by (rule load_program_unpacked) (use p n(2) d Cons.prems(2) in auto)
    with d False show ?thesis by (auto simp: unpacked_op_def)
  qed
  then obtain op' where o: "\<And>ops. load_program_node (to_node e) (t = QDL_STORAGE_NAND) a (Some Z) dfs pf cr ex inc ops = (0, ops @ [op'])"
    "unpacked_op fs Z op op'" by blast
  obtain new where "\<And>ops. program_load_xml ops (map to_node es) (Some Z) dfs pf (t = QDL_STORAGE_NAND) a cr ex inc = (0, ops @ new)"
      "list_all2 (unpacked_op fs Z) os new"
    using Cons(3) Cons.prems by auto
  then show ?case using o by (intro exI [of _ "op' # new"]) (simp add: program_load_xml_def)
qed

lemma load_patch_elems:
  "list_all (packable t) os \<Longrightarrow> list_all disk_patch os \<Longrightarrow>
   patch_load_xml ops (map to_node (map patch_elem os)) = (0, ops @ map unpacked_patch os)"
proof (induction os arbitrary: ops)
  case (Cons op os)
  then show ?case using load_patch_unpacked [of t op ops] by (simp add: patch_load_xml_def)
qed (simp add: patch_load_xml_def)

lemma open_member:
  assumes "Z name = Some (d, \<lambda>pos n. Some n)"
  obtains f where "qdl_file_open (Some Z) fs name = Some f" "fst (qdl_file_load f) = Some d"
  using assms by (simp add: qdl_file_open_def qdl_file_load_def os_read_def sub_buf_def Let_def)

lemma load_xml_member:
  assumes "Z name = Some (d, \<lambda>pos n. Some n)" "length d \<le> 2 ^ 31 - 1" "fm_xml E d = Some (rootname, nodes)"
  shows "flashmap_load_xml E ops (Some Z) name is_nand incdir =
    (if rootname = ''patches'' then patch_load_xml ops nodes
     else if rootname = ''data'' then program_load_xml ops nodes (Some Z) (fm_fs E) name is_nand False (\<lambda>_. None) (fm_exists E) incdir
     else (-1, ops))"
proof -
  obtain f where "qdl_file_open (Some Z) (fm_fs E) name = Some f" "fst (qdl_file_load f) = Some d"
    using assms(1) by (rule open_member)
  then show ?thesis using assms(2,3) by (simp add: flashmap_load_xml_def)
qed

subsection \<open>Storage devices\<close>

lemma storage_name_facts:
  assumes "encode_storage_type t = Some m"
  shows "plain_name m" "CHR 0x00 \<notin> set m" "length m \<le> 6" "m = ''nand'' \<longleftrightarrow> t = QDL_STORAGE_NAND" "t \<noteq> QDL_STORAGE_UNKNOWN"
  using assms by (cases t; simp add: encode_storage_type_def storage_types_def plain_name_def plain_bytes_def bytes_of_def; auto)+

definition regrouped ::
  "file_system \<Rightarrow> file_system \<Rightarrow> storage_type \<times> firehose_op list \<Rightarrow> storage_type \<times> firehose_op list \<Rightarrow> bool" where
  "regrouped fs Z g g' \<longleftrightarrow> fst g' = fst g \<and>
     (\<exists>data. list_all2 (unpacked_op fs Z) (filter data_kept (snd g)) data
       \<and> snd g' = data @ map unpacked_patch (filter disk_patch (snd g)))"

lemma load_storage:
  assumes "sx_of M g sx" "docs_of W M sx" "list_all (packable (fst g)) (snd g)" "archive_of fs M Z" "reads_back W (fm_xml E)"
  shows "\<exists>g'. regrouped fs Z g g' \<and> (\<forall>ops. load_programmable E (Some Z) None ops (Some (storage_value sx)) = (0, ops @ group_ops g'))"
proof -
  let ?t = "fst g" and ?m = "sx_memory sx"
  have enc: "encode_storage_type ?t = Some ?m" using assms(1) by (simp add: sx_of_def)
  note nm = storage_name_facts [OF enc]
  obtain pd qd where d: "zw_dump W ''data'' (sx_program sx) = Some pd" "M (program_xml_name sx) = Some (Buffer pd)"
      "zw_dump W ''patches'' (sx_patch sx) = Some qd" "M (patch_xml_name sx) = Some (Buffer qd)"
    using assms(2) by (auto simp: docs_of_def)
  have z: "Z (program_xml_name sx) = Some (pd, \<lambda>pos n. Some n)" "Z (patch_xml_name sx) = Some (qd, \<lambda>pos n. Some n)"
    using assms(4) d(2,4) by (fastforce simp: archive_of_def source_bytes_def)+
  have x: "length pd \<le> 2 ^ 31 - 1" "fm_xml E pd = Some (''data'', map to_node (sx_program sx))"
      "length qd \<le> 2 ^ 31 - 1" "fm_xml E qd = Some (''patches'', map to_node (sx_patch sx))"
    using assms(5) d(1,3) unfolding reads_back_def by blast+
  have kept: "list_all (packable ?t) (filter P (snd g))" for P using assms(3) by (auto simp: list_all_iff)
  have "list_all2 (elem_of M) (filter data_kept (snd g)) (sx_program sx)" using assms(1) by (simp add: sx_of_def)
  from load_program_elems [OF this _ kept assms(4), of "fm_fs E" "program_xml_name sx" False "\<lambda>_. None" "fm_exists E" None]
  have "\<exists>new. list_all2 (unpacked_op fs Z) (filter data_kept (snd g)) new \<and>
      (\<forall>ops. program_load_xml ops (map to_node (sx_program sx)) (Some Z) (fm_fs E) (program_xml_name sx) (?t = QDL_STORAGE_NAND) False
        (\<lambda>_. None) (fm_exists E) None = (0, ops @ new))"
    by (simp add: list_all_iff)
  then obtain new where new: "\<And>ops. program_load_xml ops (map to_node (sx_program sx)) (Some Z) (fm_fs E) (program_xml_name sx)
      (?t = QDL_STORAGE_NAND) False (\<lambda>_. None) (fm_exists E) None = (0, ops @ new)" "list_all2 (unpacked_op fs Z) (filter data_kept (snd g)) new"
    by auto
  have patches: "patch_load_xml ops (map to_node (sx_patch sx)) = (0, ops @ map unpacked_patch (filter disk_patch (snd g)))" for ops
    using load_patch_elems [OF kept, of disk_patch ops] assms(1) by (simp add: sx_of_def list_all_iff)
  note docs = load_xml_member [of Z "program_xml_name sx" pd E, OF z(1) x(1,2)] load_xml_member [of Z "patch_xml_name sx" qd E, OF z(2) x(3,4)]
  have pn: "CHR 0x00 \<notin> set (program_xml_name sx)" "CHR 0x00 \<notin> set (patch_xml_name sx)"
      "take 4095 (program_xml_name sx) = program_xml_name sx" "take 4095 (patch_xml_name sx) = patch_xml_name sx"
    using nm(2,3) by (simp_all add: program_xml_name_def patch_xml_name_def)
  let ?g' = "(?t, new @ map unpacked_patch (filter disk_patch (snd g)))"
  have "load_programmable E (Some Z) None ops (Some (storage_value sx)) = (0, ops @ group_ops ?g')" for ops
    using nm decode_encode_storage [OF enc]
    by (simp add: load_programmable_def storage_value_def json_lookup flashmap_resolve_path_def path_fit_def PATH_MAX_def Let_def
      upt_rec numeral_2_eq_2 docs new(1) patches pn group_ops_def)
  then show ?thesis using new(2) by (intro exI [of _ ?g']) (simp add: regrouped_def)
qed

lemma programmables_loop_regrouped:
  assumes "\<forall>i \<in> set is. \<exists>g. P i g \<and> (\<forall>ops. load_programmable E z inc ops (json_get_element_object list i) = (0, ops @ group_ops g))"
  shows "\<exists>gs. list_all2 P is gs \<and> (\<forall>ops. programmables_loop E z inc list ops is = (0, ops @ groups_ops gs))"
  using assms
proof (induction "is")
  case (Cons i "is")
  then obtain g gs where "P i g" "\<And>ops. load_programmable E z inc ops (json_get_element_object list i) = (0, ops @ group_ops g)"
      "list_all2 P is gs" "\<And>ops. programmables_loop E z inc list ops is = (0, ops @ groups_ops gs)"
    by auto
  then show ?case by (intro exI [of _ "g # gs"]) simp
qed simp

lemma enumerate_storages:
  assumes "list_all2 (sx_of M) gs sxs" "\<forall>sx \<in> set sxs. docs_of W M sx" "sxs \<noteq> []"
    "\<forall>g \<in> set gs. list_all (packable (fst g)) (snd g)" "archive_of fs M Z" "reads_back W (fm_xml E)"
  shows "\<exists>gs'. list_all2 (regrouped fs Z) gs gs' \<and>
    flashmap_enumerate_programmables E (Some (JSON_ARRAY (map storage_value sxs))) [] (Some Z) None = (0, groups_ops gs')"
proof -
  let ?list = "Some (JSON_ARRAY (map storage_value sxs))" and ?P = "\<lambda>i. regrouped fs Z (gs ! i)"
  have n: "length gs = length sxs" using assms(1) by (rule list_all2_lengthD)
  have "\<forall>i \<in> set [0..<length sxs]. \<exists>g. ?P i g
      \<and> (\<forall>ops. load_programmable E (Some Z) None ops (json_get_element_object ?list i) = (0, ops @ group_ops g))"
  proof
    fix i assume "i \<in> set [0..<length sxs]"
    then have i: "i < length sxs" by simp
    have "sx_of M (gs ! i) (sxs ! i)" using assms(1) i by (rule list_all2_nthD2)
    moreover have "docs_of W M (sxs ! i)" "list_all (packable (fst (gs ! i))) (snd (gs ! i))"
      using assms(2,4) i n by simp_all
    moreover have "json_get_element_object ?list i = Some (storage_value (sxs ! i))"
      using i by (simp add: json_get_element_object_def storage_value_def)
    ultimately show "\<exists>g. ?P i g \<and> (\<forall>ops. load_programmable E (Some Z) None ops (json_get_element_object ?list i) = (0, ops @ group_ops g))"
      using load_storage [OF _ _ _ assms(5,6)] by simp
  qed
  then obtain gs' where g: "list_all2 ?P [0..<length sxs] gs'"
      "\<And>ops. programmables_loop E (Some Z) None ?list ops [0..<length sxs] = (0, ops @ groups_ops gs')"
    using programmables_loop_regrouped [of "[0..<length sxs]" ?P E "Some Z" None ?list] by blast
  have "list_all2 (regrouped fs Z) gs gs'"
    using g(1) n by (auto simp: list_all2_conv_all_nth)
  with g(2) [of "[]"] assms(3) show ?thesis
    by (intro exI [of _ gs']) (simp add: flashmap_enumerate_programmables_def json_count_children_def)
qed

subsection \<open>Programmers\<close>

lemma programmer_id_show: "0 < i \<Longrightarrow> i < MAPPING_SZ \<Longrightarrow> programmer_id (bytes_of (show_dec i)) = Some i"
proof -
  assume i: "0 < i" "i < MAPPING_SZ"
  then have n: "i < 2 ^ 64" by (simp add: MAPPING_SZ_def)
  have "c_strtoul 0 (show_dec i) = (of_nat i, False, Some [])"
    using scan_number_dec0 [of i] n by (simp add: c_strtoul_def ulong_max_def not_less)
  moreover have "unat (of_nat i :: u64) = i" using n by (simp add: unat_of_nat take_bit_nat_eq_self)
  moreover have "(of_nat i :: u64) \<noteq> 0" using i(1) n by (simp add: word_of_nat_eq_0_iff nat_dvd_not_less)
  ultimately show ?thesis using i by (simp add: programmer_id_def c_text_bytes show_dec_no_nul)
qed

text \<open>The images the map brings back, in place of what was there.\<close>

lemma programmer_map_unpacked:
  "entries_ok M i ims es \<Longrightarrow> list_all entry_name_ok es \<Longrightarrow> archive_of fs M Z \<Longrightarrow> i + length ims = MAPPING_SZ \<Longrightarrow>
   length imgs = MAPPING_SZ \<Longrightarrow> list_all image_ok ims \<Longrightarrow> \<forall>im \<in> set ims. img_ptr im \<noteq> Some [] \<Longrightarrow>
   i = 0 \<longrightarrow> img_ptr (hd ims) = None \<Longrightarrow> \<forall>j \<ge> i. j < MAPPING_SZ \<longrightarrow> img_ptr (imgs ! j) = None \<Longrightarrow>
   \<exists>imgs'. programmer_map_loop E (Some Z) None imgs (map programmer_member es) = (0, imgs') \<and> length imgs' = MAPPING_SZ
     \<and> map img_ptr imgs' = map img_ptr (take i imgs) @ map img_ptr ims"
proof (induction M i ims es arbitrary: imgs rule: entries_ok.induct)
  case (1 M i es)
  then show ?case by simp
next
  case (2 M i im ims es)
  show ?case
  proof (cases "img_ptr im")
    case None
    with 2(3) have e: "entries_ok M (Suc i) ims es" by simp
    have i: "i < length imgs" using 2(6,7) by simp
    then have "take (Suc i) imgs = take i imgs @ [imgs ! i]" by (rule take_Suc_conv_app_nth)
    moreover have "img_ptr (imgs ! i) = img_ptr im" using None 2(6,11) by simp
    ultimately have "map img_ptr (take (Suc i) imgs) @ map img_ptr ims = map img_ptr (take i imgs) @ map img_ptr (im # ims)" by simp
    with 2(1) [OF None e 2(4,5) _ 2(7)] 2(6,8,9,11) show ?thesis by simp
  next
    case (Some d)
    then obtain name es' where e: "es = (i, name) # es'" "M name = Some (Buffer (take (img_len im) d))" "entries_ok M (Suc i) ims es'"
      using 2(3) by auto
    have d: "take (img_len im) d = d" "d \<noteq> []" using 2(8,9) Some by (auto simp: image_ok_def)
    have z: "Z name = Some (d, \<lambda>pos n. Some n)" using 2(5) e(2) d(1) by (fastforce simp: archive_of_def source_bytes_def)
    have nm: "CHR 0x00 \<notin> set name" "length name < PATH_MAX" using 2(4) e(1) by (simp_all add: entry_name_ok_def)
    have i0: "0 < i" using 2(10) Some by (cases i) auto
    have i: "i < MAPPING_SZ" "i < length imgs" using 2(6,7) by simp_all
    let ?im = "\<lparr>img_name = Some name, img_ptr = Some d, img_len = length d\<rparr>"
    obtain f where f: "qdl_file_open (Some Z) (fm_fs E) name = Some f" "fst (qdl_file_load f) = Some d"
      using z by (rule open_member)
    have load: "load_sahara_image (Some Z) (fm_fs E) name = Some ?im"
      using f d(2) by (cases "qdl_file_load f") (simp add: load_sahara_image_def)
    have "map img_ptr (take (Suc i) (imgs[i := ?im])) = map img_ptr (take i imgs) @ [Some d]"
      using i(2) by (simp add: take_Suc_conv_app_nth)
    moreover have "\<exists>imgs'. programmer_map_loop E (Some Z) None (imgs[i := ?im]) (map programmer_member es') = (0, imgs') \<and> length imgs' = MAPPING_SZ
        \<and> map img_ptr imgs' = map img_ptr (take (Suc i) (imgs[i := ?im])) @ map img_ptr ims"
      by (rule 2(2) [OF Some e(3)]) (use 2(4-11) e(1) in auto)
    moreover have "take (PATH_MAX - 1) name = name" using nm(2) by simp
    moreover have "programmer_member (i, name) = (bytes_of (show_dec i), JSON_STRING (bytes_of name))"
      by (simp add: programmer_member_def)
    ultimately show ?thesis
      using e(1) Some load programmer_id_show [OF i0 i(1)]
      by (simp add: flashmap_resolve_path_def path_fit_def c_text_bytes nm(1) store_image_inside [OF i(2)])
  qed
qed

subsection \<open>The round trip\<close>

lemma load_flashmap_value:
  assumes "archived_as W gs imgs M sxs es" "archive_of fs M Z" "reads_back W (fm_xml E)"
    "\<forall>g \<in> set gs. list_all (packable (fst g)) (snd g)"
    "images_ok imgs" "img_ptr (imgs ! 0) = None" "\<forall>im \<in> set imgs. img_ptr im \<noteq> Some []"
  shows "\<exists>gs' imgs'. list_all2 (regrouped fs Z) gs gs' \<and> map img_ptr imgs' = map img_ptr imgs \<and>
    load_document E ops (-1) None (replicate MAPPING_SZ no_image) incdir (Some Z) (flashmap_value es sxs) = (0, ops @ groups_ops gs', imgs')"
proof -
  have a: "sxs \<noteq> []" "list_all2 (sx_of M) gs sxs" "\<forall>sx \<in> set sxs. docs_of W M sx" "es \<noteq> []" "entries_ok M 0 imgs es"
      "list_all entry_name_ok es" using assms(1) by (simp_all add: archived_as_def)
  have len: "length imgs = MAPPING_SZ" "list_all image_ok imgs" using assms(5) by (simp_all add: images_ok_def)
  have hd: "0 = (0 :: nat) \<longrightarrow> img_ptr (hd imgs) = None" using assms(6) len(1) by (cases imgs) (simp_all add: MAPPING_SZ_def)
  obtain imgs' where p: "programmer_map_loop E (Some Z) None (replicate MAPPING_SZ no_image) (map programmer_member es) = (0, imgs')"
      "map img_ptr imgs' = map img_ptr imgs"
    using programmer_map_unpacked [OF a(5,6) assms(2) _ _ len(2) assms(7) hd, of "replicate MAPPING_SZ no_image" E] len(1)
    by (auto simp: no_image_def)
  obtain gs' where g: "list_all2 (regrouped fs Z) gs gs'"
      "flashmap_enumerate_programmables E (Some (JSON_ARRAY (map storage_value sxs))) [] (Some Z) None = (0, groups_ops gs')"
    using enumerate_storages [OF a(2,3,1) assms(4,2,3)] by blast
  have ne: "groups_ops gs' \<noteq> []"
    using g(1) a(1,2) by (cases gs'; cases gs) (auto simp: group_ops_def)
  have layout: "flashmap_select_layout (Some (JSON_ARRAY [layout_value es sxs])) None = Some (layout_value es sxs)"
    by (simp add: flashmap_select_layout_def json_lookup layout_value_def)
  have progs: "flashmap_get_programmers E (Some Z) (Some (layout_value es sxs)) (replicate MAPPING_SZ no_image) None True = (0, imgs')"
    using p(1) a(4) by (simp add: flashmap_get_programmers_def flashmap_get_programmer_map_def json_lookup layout_value_def)
  have prog: "json_get_child (Some (layout_value es sxs)) (bytes_of ''programmable'') = Some (JSON_ARRAY (map storage_value sxs))"
    by (simp add: layout_value_def json_lookup)
  have "load_document E ops (-1) None (replicate MAPPING_SZ no_image) incdir (Some Z) (flashmap_value es sxs) = (0, ops @ groups_ops gs', imgs')"
    using layout progs prog g(2) ne by (simp add: load_document_def flashmap_value_def json_lookup select_all Let_def)
  with g(1) p(2) show ?thesis by blast
qed

text \<open>
  C2: What \<open>create-zip\<close> packs is what \<open>flash\<close> unpacks. Let a queue consist of the groups of distinct
  storage types that a build's contents give, with operations that can be packed, and let the programmer images be
  loaded, with names that fit. If \<open>zipper_write\<close> makes an archive of them, then \<open>flashmap_load\<close> on
  that archive succeeds, whatever the operating system and the XML library do besides keeping their
  promises: it queues one group per storage type in the same order, with the erase and program operations in their
  order and then the patches of the disk, each with its attributes unchanged and each program
  operation with a member that holds exactly the bytes the original would have taken from its file; and it
  brings back every programmer image under its number, byte for byte.
\<close>

theorem zip_flash_roundtrip:
  assumes "zipper_write W (groups_ops gs) imgs = (0, Some Z)"
    and "list_all plain_group gs" "distinct (map fst gs)" "\<forall>g \<in> set gs. list_all (packable (fst g)) (snd g)"
    and "images_ok imgs" "img_ptr (imgs ! 0) = None" "\<forall>im \<in> set imgs. img_ptr im \<noteq> Some []"
      "list_all (\<lambda>im. case img_name im of None \<Rightarrow> True | Some n \<Rightarrow> image_name_ok n) imgs"
    and "\<forall>members. zw_close W members = Some Z \<longrightarrow> archive_of fs (map_of members) Z" "reads_back W (fm_xml E)"
    and "fm_zip E filename = Some Z" "\<forall>d g. Z ''flashmap.json'' = Some (d, g) \<longrightarrow> length d \<le> 2147483647"
  shows "\<exists>gs' imgs'. flashmap_load E ops filename None (replicate MAPPING_SZ no_image) incdir = (0, ops @ groups_ops gs', imgs')
    \<and> list_all2 (regrouped fs Z) gs gs' \<and> map img_ptr imgs' = map img_ptr imgs"
proof -
  obtain members where m: "zipper_build W (groups_ops gs) imgs = Some members" "zw_close W members = Some Z"
    using assms(1) by (auto simp: zipper_write_def split: if_splits option.splits)
  have len: "length imgs = MAPPING_SZ" using assms(5) by (simp add: images_ok_def)
  obtain sxs es where a: "archived_as W gs imgs (map_of members) sxs es"
    using zipper_build_archived [OF m(1) assms(2,3) len assms(8)] by blast
  have Z: "archive_of fs (map_of members) Z" using assms(9) m(2) by blast
  let ?json = "bytes_of (flashmap_build_json es sxs)"
  have j: "Z ''flashmap.json'' = Some (?json, \<lambda>pos n. Some n)"
    using a Z by (fastforce simp: archived_as_def archive_of_def source_bytes_def)
  obtain f where f: "qdl_file_open (Some Z) (fm_fs E) ''flashmap.json'' = Some f" "fst (qdl_file_load f) = Some ?json"
    using j by (rule open_member)
  have ne: "es \<noteq> []" "sxs \<noteq> []" and sx: "list_all2 (sx_of (map_of members)) gs sxs" using a by (simp_all add: archived_as_def)
  have plain: "\<forall>sx \<in> set sxs. plain_name (sx_memory sx)"
    using sx storage_name_facts(1) by (fastforce simp: list_all2_conv_all_nth sx_of_def in_set_conv_nth)
  have "length (flashmap_build_json es sxs) \<le> 2147483647" using assms(12) j by (simp add: bytes_of_def)
  from flashmap_json_parses [OF ne plain this]
  have "flashmap_load E ops filename None (replicate MAPPING_SZ no_image) incdir
      = load_document E ops (-1) None (replicate MAPPING_SZ no_image) incdir (Some Z) (flashmap_value es sxs)"
    using assms(11) f by (simp add: flashmap_load_def flashmap_decode_specifier_def)
  with load_flashmap_value [OF a Z assms(10,4-7), of ops incdir] show ?thesis by auto
qed

text \<open>
  A build may program an image without a label: the attribute is there but empty. Its archive cannot be flashed,
  because the element is written without the attribute.
\<close>

lemma unlabelled_program_refused:
  assumes "op_label op = None"
  shows "load_program_node (to_node (program_elem op name off)) n a z fs pf cr ex inc ops = (-1, ops)"
proof -
  have "0 < snd (program_tag_op (to_node (program_elem op name off)) n z)"
    using assms by (simp add: program_tag_op_def program_elem_def to_node_def attr_as_unsigned_def attr_as_string_def
        attr_as_bool_def Let_def)
  then show ?thesis
    by (cases "program_tag_op (to_node (program_elem op name off)) n z")
      (simp add: load_program_node_def load_program_tag_def, simp add: to_node_def program_elem_def)
qed

text \<open>
  A libzip that fails only when a source cannot be read, and a build of one image, one sparse fill and one patch with a
  programmer.
\<close>

definition ex_zip_fs :: file_system where
  "ex_zip_fs p = (if p = ''out/boot.img'' then Some ([7, 8, 9], \<lambda>pos n. Some n) else None)"

definition ex_zip_of :: "members \<Rightarrow> file_system" where
  "ex_zip_of members name = (case map_of members name of None \<Rightarrow> None
     | Some src \<Rightarrow> map_option (\<lambda>d. (d, \<lambda>pos n. Some n)) (source_bytes ex_zip_fs src))"

definition ex_zip_close :: "members \<Rightarrow> file_system option" where
  "ex_zip_close members =
     (if list_all (\<lambda>(name, src). source_bytes ex_zip_fs src \<noteq> None) members then Some (ex_zip_of members) else None)"

definition ex_zip_ops :: "firehose_op list" where
  "ex_zip_ops =
     [(firehose_alloc_op FIREHOSE_OP_PROGRAM)\<lparr>op_filename := Some ''out/boot.img'', op_label := Some ''boot'', op_start_sector := Some ''6'',
        op_sector_size := 4, op_num_sectors := 2\<rparr>,
      (firehose_alloc_op FIREHOSE_OP_PROGRAM)\<lparr>op_filename := Some ''out/data.img'', op_label := Some ''data'', op_start_sector := Some ''9'',
        op_sector_size := 4, op_num_sectors := 1, op_sparse := True, op_sparse_chunk_type := Some CHUNK_TYPE_FILL, op_sparse_fill_value := 5\<rparr>,
      (firehose_alloc_op FIREHOSE_OP_PATCH)\<lparr>op_filename := Some ''DISK'', op_start_sector := Some ''1'', op_value := Some ''0'', op_what := Some ''x''\<rparr>]"

definition ex_zip_elems :: "xml_elem list" where
  "ex_zip_elems = [program_elem (ex_zip_ops ! 0) ''ufs_boot.img'' 0, program_elem (ex_zip_ops ! 1) ''ufs_fill_000000.bin'' 0]"

definition ex_zip_patches :: "xml_elem list" where
  "ex_zip_patches = [patch_elem (ex_zip_ops ! 2)]"

definition ex_zip_writer :: zip_writer where
  "ex_zip_writer = \<lparr>zw_add = (\<lambda>n src. True),
     zw_dump = (\<lambda>r es. if r = ''data'' \<and> es = ex_zip_elems then Some [0] else if r = ''patches'' \<and> es = ex_zip_patches then Some [1] else None),
     zw_open = True, zw_close = ex_zip_close\<rparr>"

definition ex_zip_image :: sahara_image where
  "ex_zip_image = \<lparr>img_name = Some ''out/prog.elf'', img_ptr = Some [1, 2, 3], img_len = 3\<rparr>"

definition ex_zip_images :: images where
  "ex_zip_images = replicate 13 no_image @ ex_zip_image # replicate 114 no_image"

lemma add_images_none: "zipper_add_images W s i (replicate n no_image @ ims) = zipper_add_images W s (i + n) ims"
  "zipper_add_images W s i (replicate n no_image) = Some (s, [])"
  by (induction n arbitrary: i) (simp_all add: no_image_def)

definition ex_zip_json :: "u8 list" where
  "ex_zip_json = bytes_of (flashmap_build_json [(13, ''prog.elf'')]
     [\<lparr>sx_type = QDL_STORAGE_UFS, sx_memory = ''ufs'', sx_program = ex_zip_elems, sx_patch = ex_zip_patches\<rparr>])"

definition ex_zip_members :: members where
  "ex_zip_members =
     [(''ufs_boot.img'', FilePart ''out/boot.img'' 0 None), (''ufs_fill_000000.bin'', Buffer [5, 0, 0, 0]),
      (''prog.elf'', Buffer [1, 2, 3]), (''ufs_rawprogram.xml'', Buffer [0]), (''ufs_patch.xml'', Buffer [1]),
      (''flashmap.json'', Buffer ex_zip_json)]"

lemma ex_zip_queue:
  "zipper_ops ex_zip_writer zipper_init (groups_ops [(QDL_STORAGE_UFS, ex_zip_ops)]) = Some \<lparr>
     zs_members = [(''ufs_boot.img'', FilePart ''out/boot.img'' 0 None), (''ufs_fill_000000.bin'', Buffer [5, 0, 0, 0])],
     zs_names = [''ufs_boot.img'', ''ufs_fill_000000.bin''], zs_renames = [((QDL_STORAGE_UFS, ''out/boot.img''), ''ufs_boot.img'')],
     zs_raw_idx = 0, zs_fill_idx = 1,
     zs_storages = [\<lparr>sx_type = QDL_STORAGE_UFS, sx_memory = ''ufs'', sx_program = ex_zip_elems, sx_patch = ex_zip_patches\<rparr>],
     zs_current = Some QDL_STORAGE_UFS\<rparr>"
proof -
  have base: "c_basename ''out/boot.img'' = ''boot.img''" by code_simp
  have zero: "show_06u 0 = ''000000''" by (simp add: show_06u_def show_dec.simps char_of_def bit_0) (simp add: numeral_eq_Suc)
  have fill: "fill_bytes 5 4 = [5, 0, 0, 0]" by code_simp
  show ?thesis
    by (simp add: ex_zip_ops_def group_ops_def zipper_op_def firehose_alloc_op_def zipper_init_def zipper_find_storage_ctx_def
        zipper_create_storage_ctx_def encode_storage_type_def storage_types_def zipper_register_program_file_def zipper_basename_def base
        zipper_name_is_used_def zipper_add_file_def zip_file_add_def ex_zip_writer_def zipper_add_name_entry_def
        zipper_register_fill_program_file_def zipper_add_buffer_def zero fill op_offset_def zipper_storage_append_program_def
        zipper_storage_append_patch_def set_storage_def ex_zip_elems_def ex_zip_patches_def Let_def)
qed

lemma ex_zip_build:
  "zipper_build ex_zip_writer (groups_ops [(QDL_STORAGE_UFS, ex_zip_ops)]) ex_zip_images = Some ex_zip_members"
proof -
  have base: "c_basename ''out/prog.elf'' = ''prog.elf''" by code_simp
  show ?thesis unfolding zipper_build_def ex_zip_queue
    by (simp add: zipper_add_programmer_images_def ex_zip_images_def add_images_none ex_zip_image_def zipper_basename_def base
        zipper_name_is_used_def zipper_add_buffer_def zip_file_add_def ex_zip_writer_def zipper_add_name_entry_def Let_def
        zipper_add_storage_xml_def program_xml_name_def patch_xml_name_def add_document_def ex_zip_members_def ex_zip_json_def)
qed

lemma ex_zip_sources: "list_all (\<lambda>(name, src). source_bytes ex_zip_fs src \<noteq> None) ex_zip_members"
  by (simp add: ex_zip_members_def source_bytes_def ex_zip_fs_def)

definition ex_zip_archive :: file_system where
  "ex_zip_archive = ex_zip_of ex_zip_members"

text \<open>The documents of the example and nothing else are XML.\<close>

definition ex_zip_fm :: fm_env where
  "ex_zip_fm = \<lparr>fm_fs = (\<lambda>p. None), fm_exists = (\<lambda>p. False), fm_zip = (\<lambda>p. Some ex_zip_archive),
     fm_xml = (\<lambda>b. if b = [0] then Some (''data'', map to_node ex_zip_elems)
       else if b = [1] then Some (''patches'', map to_node ex_zip_patches) else None)\<rparr>"

lemma ex_zip_close_archive: "ex_zip_close members = Some Z \<Longrightarrow> archive_of ex_zip_fs (map_of members) Z"
  by (fastforce simp: ex_zip_close_def ex_zip_of_def archive_of_def list_all_iff dest: map_of_SomeD split: if_splits)

lemma zip_flash_roundtrip_witness:
  "\<exists>gs' imgs'. flashmap_load ex_zip_fm [] ''out.zip'' None (replicate MAPPING_SZ no_image) None = (0, groups_ops gs', imgs')
    \<and> list_all2 (regrouped ex_zip_fs ex_zip_archive) [(QDL_STORAGE_UFS, ex_zip_ops)] gs' \<and> map img_ptr imgs' = map img_ptr ex_zip_images"
proof -
  have 1: "zipper_write ex_zip_writer (groups_ops [(QDL_STORAGE_UFS, ex_zip_ops)]) ex_zip_images = (0, Some ex_zip_archive)"
  proof -
    have "zw_open ex_zip_writer" "zw_close ex_zip_writer = ex_zip_close" by (simp_all add: ex_zip_writer_def)
    then show ?thesis using ex_zip_sources unfolding zipper_write_def ex_zip_build
      by (simp add: ex_zip_close_def ex_zip_archive_def)
  qed
  have 2: "list_all plain_group [(QDL_STORAGE_UFS, ex_zip_ops)]" "\<forall>g \<in> set [(QDL_STORAGE_UFS, ex_zip_ops)]. list_all (packable (fst g)) (snd g)"
    by (simp_all add: plain_group_def plain_op_def packable_def ex_zip_ops_def firehose_alloc_op_def)
  have 3: "images_ok ex_zip_images" "img_ptr (ex_zip_images ! 0) = None" "\<forall>im \<in> set ex_zip_images. img_ptr im \<noteq> Some []"
    by (simp_all add: images_ok_def image_ok_def ex_zip_images_def ex_zip_image_def no_image_def MAPPING_SZ_def nth_append list_all_iff)
  have "image_name_ok ''out/prog.elf''" by code_simp
  then have 4: "list_all (\<lambda>im. case img_name im of None \<Rightarrow> True | Some n \<Rightarrow> image_name_ok n) ex_zip_images"
    by (simp add: ex_zip_images_def ex_zip_image_def no_image_def list_all_iff)
  have 5: "reads_back ex_zip_writer (fm_xml ex_zip_fm)" by (simp add: reads_back_def ex_zip_writer_def ex_zip_fm_def)
  have "length ex_zip_json \<le> 2147483647"
    by (simp add: ex_zip_json_def bytes_of_def flashmap_build_json_def json_line_def json_quoted_def programmer_item_def storage_item_def
        flashmap_json_append_escaped_string_def show_dec.simps escape_char_def program_xml_name_def patch_xml_name_def Let_def)
  then have 6: "\<forall>d g. ex_zip_archive ''flashmap.json'' = Some (d, g) \<longrightarrow> length d \<le> 2147483647"
    by (simp add: ex_zip_archive_def ex_zip_of_def ex_zip_members_def source_bytes_def)
  have 7: "\<forall>members. zw_close ex_zip_writer members = Some ex_zip_archive \<longrightarrow> archive_of ex_zip_fs (map_of members) ex_zip_archive"
    using ex_zip_close_archive by (simp add: ex_zip_writer_def)
  have 8: "fm_zip ex_zip_fm ''out.zip'' = Some ex_zip_archive" by (simp add: ex_zip_fm_def)
  from zip_flash_roundtrip [OF 1 2(1) _ 2(2) 3 4 7 5 8 6, of "[]" None] show ?thesis by simp
qed

end
