(* ===== verification/Sim.thy ===== *)
theory Sim
  imports FhMsg
begin

text \<open>
  \<open>src/sim.c\<close>: the simulated device of a dry run. It answers every command with canned responses
  from a queue, counts the raw data of programs and reads, and, when digest tables are sent to it,
  checks every packet against them. Parsing of commands (libxml2) is the parameter \<open>parse\<close>; the
  device handle the simulator is embedded in contributes its \<open>vip_data\<close>, the parameter \<open>v\<close> of a write.
  What the code reports with \<open>ux_err_tag\<close> and \<open>ux_debug_tag\<close> is appended to \<open>sim_notes\<close>.
\<close>

subsection \<open>Responses\<close>

definition SIM_ACK :: "u8 list" where
  "SIM_ACK = bytes_of (''<?xml version=\"1.0\" encoding=\"UTF-8\" ?>'' @
     ''<data><response value=\"ACK\" rawmode=\"false\" /></data>'')"

definition SIM_ACK_RAWMODE :: "u8 list" where
  "SIM_ACK_RAWMODE = bytes_of (''<?xml version=\"1.0\" encoding=\"UTF-8\" ?>'' @
     ''<data><response value=\"ACK\" rawmode=\"true\" /></data>'')"

definition SIM_CONFIGURE_ACK :: "u8 list" where
  "SIM_CONFIGURE_ACK = bytes_of (''<?xml version=\"1.0\" encoding=\"UTF-8\" ?>'' @
     ''<data><response value=\"ACK\" MemoryName=\"ufs\"'' @
     '' MinVersionSupported=\"1\" Version=\"1\"'' @
     '' MaxPayloadSizeToTargetInBytes=\"1048576\"'' @
     '' MaxPayloadSizeToTargetInBytesSupported=\"1048576\"'' @
     '' MaxXMLSizeInBytes=\"4096\" /></data>'')"

subsection \<open>State\<close>

datatype sim_state = SIM_STATE_XML | SIM_STATE_RAW_IN | SIM_STATE_RAW_OUT

datatype sim_note =
    Table_unrecognised nat
  | Chain_mismatch "u8 list" "u8 list"
  | Chain_ok
  | Table_overflow nat nat
  | Table_loaded nat bool nat
  | Chunk_no_entry nat nat
  | Chunk_ok nat
  | Chunk_mismatch nat "u8 list" "u8 list"

definition MAX_DIGESTS_PER_SIGNED_FILE :: nat where "MAX_DIGESTS_PER_SIGNED_FILE = 54"
definition MAX_DIGESTS_PER_CHAINED_FILE :: nat where "MAX_DIGESTS_PER_CHAINED_FILE = 256"

definition SIM_VIP_MAX_HASHES :: nat where
  "SIM_VIP_MAX_HASHES =
     (MAX_DIGESTS_PER_SIGNED_FILE - 1) + MAX_CHAINED_FILES * (MAX_DIGESTS_PER_CHAINED_FILE - 1)"

text \<open>
  \<open>struct qdl_device_sim\<close> without its base: the linked list from \<open>resp_head\<close> to \<open>resp_tail\<close> is the
  list of the bytes each entry still holds, and \<open>vip_hashes\<close> the first \<open>vip_hash_count\<close> rows of the
  array.
\<close>

record qdl_device_sim =
  vip_gen :: "vip_table_generator option"
  create_digests :: bool
  resp_queue :: "u8 list list"
  sim_st :: sim_state
  raw_remaining :: nat
  sim_closed :: bool
  vip_hashes :: "u8 list list"
  vip_hash_idx :: nat
  vip_chain_hash :: "u8 list"
  vip_has_chain_hash :: bool
  sim_notes :: "sim_note list"

definition vip_hash_count :: "qdl_device_sim \<Rightarrow> nat" where
  "vip_hash_count s = length (vip_hashes s)"

definition sim_zero :: qdl_device_sim where
  "sim_zero = \<lparr>vip_gen = None, create_digests = False, resp_queue = [], sim_st = SIM_STATE_XML,
     raw_remaining = 0, sim_closed = False, vip_hashes = [], vip_hash_idx = 0,
     vip_chain_hash = replicate 32 0, vip_has_chain_hash = False, sim_notes = []\<rparr>"

definition report :: "sim_note \<Rightarrow> qdl_device_sim \<Rightarrow> qdl_device_sim" where
  "report n s = s\<lparr>sim_notes := sim_notes s @ [n]\<rparr>"

text \<open>Running out of memory, where the code exits, is not modelled.\<close>

definition sim_enqueue :: "u8 list \<Rightarrow> qdl_device_sim \<Rightarrow> qdl_device_sim" where
  "sim_enqueue xml s = s\<lparr>resp_queue := resp_queue s @ [xml]\<rparr>"

definition sim_log_text :: "string \<Rightarrow> u8 list" where
  "sim_log_text handler = bytes_of (take 255 (''<?xml version=\"1.0\" encoding=\"UTF-8\" ?>'' @
     ''<data><log value=\"INFO: Calling handler for '' @ handler @ ''\" /></data>''))"

definition sim_enqueue_log :: "string \<Rightarrow> qdl_device_sim \<Rightarrow> qdl_device_sim" where
  "sim_enqueue_log handler = sim_enqueue (sim_log_text handler)"

definition sim_get_uint_attr :: "xml_node \<Rightarrow> string \<Rightarrow> u32" where
  "sim_get_uint_attr node name =
     (case xn_get node name of None \<Rightarrow> 0 | Some v \<Rightarrow> ucast (strtoul_val 10 v))"

subsection \<open>Digest tables\<close>

text \<open>\<open>struct mbn_header_v5\<close>: the three fields the code looks at, at their byte offsets.\<close>

definition sizeof_mbn_header_v5 :: nat where "sizeof_mbn_header_v5 = 40"
definition mbn_header_version :: "u8 list \<Rightarrow> u32" where "mbn_header_version buf = get_le32 4 buf"
definition mbn_image_size :: "u8 list \<Rightarrow> u32" where "mbn_image_size buf = get_le32 16 buf"
definition mbn_code_size :: "u8 list \<Rightarrow> u32" where "mbn_code_size buf = get_le32 20 buf"

definition MBN_HEADER_VERSION_5 :: u32 where "MBN_HEADER_VERSION_5 = 5"
definition MBN_HEADER_VERSION_6 :: u32 where "MBN_HEADER_VERSION_6 = 6"

definition sim_vip_signed_payload :: "u8 list \<Rightarrow> u8 list option" where
  "sim_vip_signed_payload buf =
     (let version = mbn_header_version buf;
          image_size = unat (mbn_image_size buf);
          code_size = unat (mbn_code_size buf);
          offset = length buf - image_size
      in if length buf < sizeof_mbn_header_v5 then None
         else if version \<noteq> MBN_HEADER_VERSION_5 \<and> version \<noteq> MBN_HEADER_VERSION_6 then None
         else if code_size = 0 \<or> code_size mod 32 \<noteq> 0
              \<or> code_size > MAX_DIGESTS_PER_SIGNED_FILE * 32
              \<or> image_size < code_size \<or> image_size > length buf then None
         else if offset < sizeof_mbn_header_v5 \<or> offset + code_size > length buf then None
         else Some (sub_buf offset code_size buf))"

definition sim_sha256 :: "u8 list \<Rightarrow> u8 list" where
  "sim_sha256 buf = SHA256Final (SHA256Update SHA256Init buf)"

text \<open>The \<open>count\<close> digests at the front of a buffer.\<close>

definition digests_of :: "nat \<Rightarrow> u8 list \<Rightarrow> u8 list list" where
  "digests_of count hashes = map (\<lambda>i. sub_buf (32 * i) 32 hashes) [0..<count]"

definition keep_chain_hash :: "nat \<Rightarrow> u8 list \<Rightarrow> qdl_device_sim \<Rightarrow> qdl_device_sim" where
  "keep_chain_hash count hashes s =
     s\<lparr>vip_chain_hash := sub_buf ((count - 1) * 32) 32 hashes, vip_has_chain_hash := True\<rparr>"

definition check_chain_hash :: "u8 list \<Rightarrow> qdl_device_sim \<Rightarrow> qdl_device_sim" where
  "check_chain_hash buf s =
     (if vip_has_chain_hash s then
        (report (if sim_sha256 buf \<noteq> vip_chain_hash s
               then Chain_mismatch (sim_sha256 buf) (vip_chain_hash s) else Chain_ok) s)
          \<lparr>vip_has_chain_hash := False\<rparr>
      else s)"

definition store_hashes :: "nat \<Rightarrow> u8 list \<Rightarrow> bool \<Rightarrow> qdl_device_sim \<Rightarrow> qdl_device_sim" where
  "store_hashes wanted hashes is_signed s =
     (let over = vip_hash_count s + wanted > SIM_VIP_MAX_HASHES;
          s1 = (if over then report (Table_overflow (vip_hash_count s) wanted) s else s);
          data_count = (if over then SIM_VIP_MAX_HASHES - vip_hash_count s else wanted);
          s2 = s1\<lparr>vip_hashes := vip_hashes s1 @ digests_of data_count hashes\<rparr>
      in report (Table_loaded data_count is_signed (vip_hash_count s2)) s2)"

definition sim_vip_recv_table :: "u8 list \<Rightarrow> bool \<Rightarrow> qdl_device_sim \<Rightarrow> qdl_device_sim" where
  "sim_vip_recv_table buf is_signed s =
     (if is_signed then
        (case sim_vip_signed_payload buf of
           None \<Rightarrow> report (Table_unrecognised (length buf)) s
         | Some hashes \<Rightarrow>
             let count = length hashes div 32;
                 has_chain_hash = (count = MAX_DIGESTS_PER_SIGNED_FILE);
                 s1 = (if has_chain_hash then keep_chain_hash count hashes s else s)
             in store_hashes (if has_chain_hash then count - 1 else count) hashes is_signed s1)
      else
        let s1 = check_chain_hash buf s;
            count = length buf div 32;
            has_chain_hash = (if length buf mod 32 \<noteq> 0 then False else count = MAX_DIGESTS_PER_CHAINED_FILE);
            s2 = (if has_chain_hash then keep_chain_hash count buf s1 else s1)
        in store_hashes (if has_chain_hash then count - 1 else count) buf is_signed s2)"

definition sim_vip_check_chunk :: "u8 list \<Rightarrow> qdl_device_sim \<Rightarrow> qdl_device_sim" where
  "sim_vip_check_chunk buf s =
     (if create_digests s \<or> vip_hash_count s = 0 then s
      else
        let hash = sim_sha256 buf; i = vip_hash_idx s in
        (report (if i \<ge> vip_hash_count s then Chunk_no_entry i (vip_hash_count s)
               else if hash = vip_hashes s ! i then Chunk_ok i
               else Chunk_mismatch i hash (vip_hashes s ! i)) s)\<lparr>vip_hash_idx := i + 1\<rparr>)"

subsection \<open>Reading and writing\<close>

definition sim_read :: "qdl_device_sim \<Rightarrow> nat \<Rightarrow> (int + u8 list) \<times> qdl_device_sim" where
  "sim_read s len =
     (case resp_queue s of
        resp # rest \<Rightarrow>
          let copy_len = min len (length resp) in
          if copy_len < length resp
          then (Inr (take copy_len resp), s\<lparr>resp_queue := drop copy_len resp # rest\<rparr>)
          else (Inr (take copy_len resp), s\<lparr>resp_queue := rest\<rparr>)
      | [] \<Rightarrow>
          if sim_st s = SIM_STATE_RAW_OUT then
            (let copy_len = min len (raw_remaining s);
                 s1 = s\<lparr>raw_remaining := raw_remaining s - copy_len\<rparr>
             in (Inr (replicate copy_len 0),
                 if raw_remaining s1 = 0 then (sim_enqueue SIM_ACK s1)\<lparr>sim_st := SIM_STATE_XML\<rparr> else s1))
          else if sim_closed s then (Inl (- EIO), s)
          else (Inl (- ETIMEDOUT), s))"

definition sim_transfer :: "sim_state \<Rightarrow> xml_node \<Rightarrow> qdl_device_sim \<Rightarrow> qdl_device_sim" where
  "sim_transfer st child s =
     (let num_sectors = sim_get_uint_attr child ''num_partition_sectors'';
          sector_size = sim_get_uint_attr child ''SECTOR_SIZE_IN_BYTES''
      in (sim_enqueue SIM_ACK_RAWMODE (sim_enqueue_log (xn_name child) s))
           \<lparr>sim_st := st, raw_remaining := unat num_sectors * unat sector_size\<rparr>)"

text \<open>The response to a command; 32-bit factors cannot overflow the \<open>size_t\<close> product.\<close>

definition sim_command :: "xml_node \<Rightarrow> qdl_device_sim \<Rightarrow> qdl_device_sim" where
  "sim_command child s =
     (let name = xn_name child; log = (\<lambda>resp. sim_enqueue resp (sim_enqueue_log name s)) in
      if name = ''configure'' then log SIM_CONFIGURE_ACK
      else if name = ''program'' then sim_transfer SIM_STATE_RAW_IN child s
      else if name = ''read'' then sim_transfer SIM_STATE_RAW_OUT child s
      else if name = ''erase'' then log SIM_ACK
      else if name = ''patch'' then log SIM_ACK
      else if name = ''setbootablestoragedrive'' then log SIM_ACK
      else if name = ''power'' then (log SIM_ACK)\<lparr>sim_closed := True\<rparr>
      else if name = ''ufs'' then log SIM_ACK
      else sim_enqueue SIM_ACK s)"

definition sim_raw_in :: "nat \<Rightarrow> qdl_device_sim \<Rightarrow> qdl_device_sim" where
  "sim_raw_in len s =
     (if len \<ge> raw_remaining s
      then (sim_enqueue SIM_ACK s)\<lparr>sim_st := SIM_STATE_XML, raw_remaining := 0\<rparr>
      else s\<lparr>raw_remaining := raw_remaining s - len\<rparr>)"

definition sim_xml :: "xml_doc \<Rightarrow> qdl_device_sim \<Rightarrow> qdl_device_sim" where
  "sim_xml doc s =
     (case find (\<lambda>(n, ch). xn_element n \<and> xn_name n = ''data'') doc of
        None \<Rightarrow> s
      | Some (n, ch) \<Rightarrow> (case find xn_element ch of None \<Rightarrow> s | Some child \<Rightarrow> sim_command child s))"

definition sim_write ::
  "(u8 list \<Rightarrow> xml_doc option) \<Rightarrow> vip_transfer_data \<Rightarrow> qdl_device_sim \<Rightarrow> u8 list \<Rightarrow> int \<times> qdl_device_sim" where
  "sim_write parse v s buf =
     (int (length buf),
      if \<not> create_digests s \<and> sending_table v
      then sim_enqueue SIM_ACK (sim_vip_recv_table buf (vip_st v = VIP_INIT) s)
      else if sim_st s = SIM_STATE_RAW_IN then sim_raw_in (length buf) (sim_vip_check_chunk buf s)
      else case parse buf of None \<Rightarrow> s | Some doc \<Rightarrow> sim_xml doc (sim_vip_check_chunk buf s))"

text \<open>
  The function pointers of the device. A write looks at the \<open>vip_data\<close> of its handle, so the
  transport of a call is the one for the \<open>vip_data\<close> the handle has when the write happens.
\<close>

definition sim_transport ::
  "(u8 list \<Rightarrow> xml_doc option) \<Rightarrow> vip_transfer_data \<Rightarrow> qdl_device_sim transport" where
  "sim_transport parse v =
     \<lparr>tr_read = (\<lambda>s len timeout. sim_read s len), tr_write = (\<lambda>s buf timeout. sim_write parse v s buf)\<rparr>"

text \<open>\<open>sim_open\<close> and \<open>sim_close\<close> do nothing to the state, nor does \<open>sim_set_out_chunk_size\<close>.\<close>

definition sim_init :: "qdl_device_sim qdl_device" where
  "sim_init = \<lparr>dev_type = QDL_DEVICE_SIM, max_payload_size = 1048576, sector_size = 4096,
     current_storage_type = QDL_STORAGE_UNKNOWN, skipblock = QDL_SKIPBLOCK_NONE, slot_id = 0,
     vip_data = vip_zero, pending_buf = None, pending_len = 0, pending_off = 0, link = sim_zero\<rparr>"

definition sim_get_vip_generator :: "qdl_device_sim qdl_device \<Rightarrow> vip_table_generator option" where
  "sim_get_vip_generator q =
     (if dev_type q \<noteq> QDL_DEVICE_SIM then None
      else if \<not> create_digests (link q) then None else vip_gen (link q))"

definition sim_set_digest_generation ::
  "bool \<Rightarrow> qdl_device_sim qdl_device \<Rightarrow> vip_table_generator option \<Rightarrow> bool \<times> qdl_device_sim qdl_device" where
  "sim_set_digest_generation create q gen =
     (if dev_type q \<noteq> QDL_DEVICE_SIM then (False, q)
      else (True, q\<lparr>link := (link q)\<lparr>create_digests := create, vip_gen := gen\<rparr>\<rparr>))"

end
