(* ===== verification/SimVip.thy ===== *)
theory SimVip
  imports Sim VipProps
begin

text \<open>
  The simulator's check of digest tables against the generator and the transfer: which packets of a
  validated dry run it reports; and generator and transfer together, with the signed image in the format
  the simulator reads.
\<close>

subsection \<open>Error reports\<close>

definition is_error :: "sim_note \<Rightarrow> bool" where
  "is_error n = (case n of Chain_ok \<Rightarrow> False | Table_loaded a b c \<Rightarrow> False | Chunk_ok i \<Rightarrow> False | _ \<Rightarrow> True)"

lemma is_error_simps [simp]:
  "\<not> is_error Chain_ok" "\<not> is_error (Table_loaded a b c)" "\<not> is_error (Chunk_ok i)"
  "is_error (Chunk_mismatch i x y)" "is_error (Chunk_no_entry i k)" "is_error (Chain_mismatch x y)"
  "is_error (Table_overflow i k)" "is_error (Table_unrecognised i)"
  by (simp_all add: is_error_def)

definition errors :: "qdl_device_sim \<Rightarrow> sim_note list" where
  "errors s = filter is_error (sim_notes s)"

text \<open>What the check of tables and packets depends on, and that the rest leaves it alone.\<close>

definition vip_part :: "qdl_device_sim \<Rightarrow> bool \<times> u8 list list \<times> nat \<times> (u8 list option) \<times> sim_note list" where
  "vip_part s = (create_digests s, vip_hashes s, vip_hash_idx s,
     (if vip_has_chain_hash s then Some (vip_chain_hash s) else None), errors s)"

lemma vip_part_enqueue [simp]: "vip_part (sim_enqueue x s) = vip_part s" "vip_part (sim_enqueue_log h s) = vip_part s"
  by (simp_all add: vip_part_def sim_enqueue_def sim_enqueue_log_def errors_def)

lemma vip_part_upd [simp]:
  "vip_part (s\<lparr>sim_st := x\<rparr>) = vip_part s" "vip_part (s\<lparr>raw_remaining := n\<rparr>) = vip_part s"
  "vip_part (s\<lparr>sim_closed := b\<rparr>) = vip_part s" "vip_part (s\<lparr>resp_queue := r\<rparr>) = vip_part s"
  by (simp_all add: vip_part_def errors_def)

lemma vip_part_command [simp]: "vip_part (sim_command child s) = vip_part s"
  by (simp add: sim_command_def sim_transfer_def Let_def)

lemma vip_part_read [simp]: "vip_part (snd (sim_read s n)) = vip_part s"
  by (simp add: sim_read_def Let_def split: list.split)

lemma vip_part_raw_in [simp]: "vip_part (sim_raw_in n s) = vip_part s"
  by (simp add: sim_raw_in_def)

lemma vip_part_xml [simp]: "vip_part (sim_xml doc s) = vip_part s"
  by (auto simp: sim_xml_def split: option.split)

text \<open>And the other way round: the command state does not depend on the tables.\<close>

definition command_part :: "qdl_device_sim \<Rightarrow> bool \<times> u8 list list \<times> sim_state \<times> nat \<times> bool" where
  "command_part s = (create_digests s, resp_queue s, sim_st s, raw_remaining s, sim_closed s)"

lemma command_part_check [simp]: "command_part (sim_vip_check_chunk buf s) = command_part s"
  by (simp add: sim_vip_check_chunk_def command_part_def report_def Let_def)

lemma command_part_recv [simp]: "command_part (sim_vip_recv_table buf b s) = command_part s"
  by (auto simp: sim_vip_recv_table_def store_hashes_def check_chain_hash_def keep_chain_hash_def
      command_part_def report_def Let_def split: option.split)

lemma sim_st_check [simp]: "sim_st (sim_vip_check_chunk buf s) = sim_st s"
  using command_part_check [of buf s] unfolding command_part_def by blast

subsection \<open>Receiving the generator's tables\<close>

lemma sim_sha256_eq: "length m < 2 ^ 61 \<Longrightarrow> sim_sha256 m = sha256 m"
  using sha.digest_pieces [of "[m]"] by (simp add: sim_sha256_def)

lemma digests_of_concat: "digests_ok ds \<Longrightarrow> n \<le> length ds \<Longrightarrow> digests_of n (concat ds @ r) = take n ds"
proof (induction ds arbitrary: n)
  case (Cons d ds)
  have d: "length d = 32" and ok: "digests_ok ds" using Cons.prems by (simp_all add: digests_ok_def)
  show ?case
  proof (cases n)
    case (Suc m)
    have "[0..<Suc m] = 0 # map Suc [0..<m]" by (simp add: map_Suc_upt upt_conv_Cons)
    moreover have "sub_buf (32 * Suc i) 32 (concat (d # ds) @ r) = sub_buf (32 * i) 32 (concat ds @ r)" for i
      using d by (simp add: sub_buf_def drop_append)
    moreover have "sub_buf (32 * 0) 32 (concat (d # ds) @ r) = d" using d by (simp add: sub_buf_def)
    ultimately show ?thesis using Cons.IH [OF ok, of m] Cons.prems(2) Suc
      by (simp add: digests_of_def comp_def)
  qed (simp add: digests_of_def)
qed (simp add: digests_of_def)

text \<open>
  The simulator after a table: the digests are there, the chain hash is that of the next table, and
  nothing was reported.
\<close>

definition next_chain :: "u8 list list \<Rightarrow> u8 list option" where
  "next_chain ts = (case ts of [] \<Rightarrow> None | t # _ \<Rightarrow> Some (sha256 t))"

lemma store_hashes_part:
  assumes "vip_part s = (c, hs, i, ch, errs)" "length hs + n \<le> 8213"
  shows "vip_part (store_hashes n buf b s) = (c, hs @ digests_of n buf, i, ch, errs)"
  using assms by (auto simp: store_hashes_def vip_part_def errors_def report_def vip_hash_count_def Let_def
      SIM_VIP_MAX_HASHES_def MAX_DIGESTS_PER_SIGNED_FILE_def MAX_DIGESTS_PER_CHAINED_FILE_def MAX_CHAINED_FILES_def)

lemma keep_chain_part:
  assumes "vip_part s = (c, hs, i, ch, errs)"
  shows "vip_part (keep_chain_hash n buf s) = (c, hs, i, Some (sub_buf ((n - 1) * 32) 32 buf), errs)"
  using assms by (auto simp: keep_chain_hash_def vip_part_def errors_def)

lemma signed_content_cases:
  assumes "digests_ok ds" "ds \<noteq> []"
  shows "signed_content ds = concat (take 53 ds) @ (case next_chain (chain_tables (drop 53 ds)) of None \<Rightarrow> [] | Some d \<Rightarrow> d)"
    and "chain_tables (drop 53 ds) = [] \<longleftrightarrow> length ds \<le> 53"
    and "length (concat (take 53 ds)) = 32 * min 53 (length ds)"
proof -
  show "signed_content ds = concat (take 53 ds) @ (case next_chain (chain_tables (drop 53 ds)) of None \<Rightarrow> [] | Some d \<Rightarrow> d)"
    by (simp add: signed_content_def next_chain_def split: list.split)
  have "payloads xs = [] \<longleftrightarrow> xs = []" for xs by (subst payloads.simps) simp
  then show "chain_tables (drop 53 ds) = [] \<longleftrightarrow> length ds \<le> 53"
    by (metis chain_tables_def length_0_conv length_finals drop_eq_Nil)
  have "digests_ok (take 53 ds)" using assms(1) by (auto simp: digests_ok_def list_all_iff dest: in_set_takeD)
  then show "length (concat (take 53 ds)) = 32 * min 53 (length ds)"
    by (subst length_concat_digests) (simp_all add: min.commute)
qed

lemma recv_signed:
  assumes "sim_vip_signed_payload mbn = Some (signed_content ds)" "digests_ok ds" "ds \<noteq> []"
    "vip_part s = (c, [], i, None, errs)"
  shows "vip_part (sim_vip_recv_table mbn True s)
    = (c, take 53 ds, i, next_chain (chain_tables (drop 53 ds)), errs)"
proof -
  note sc = signed_content_cases [OF assms(2,3)]
  have ok: "digests_ok (take 53 ds)" using assms(2) by (auto simp: digests_ok_def list_all_iff dest: in_set_takeD)
  show ?thesis
  proof (cases "length ds \<le> 53")
    case True
    then have n: "next_chain (chain_tables (drop 53 ds)) = None" using sc(2) by (simp add: next_chain_def)
    have l: "length (signed_content ds) div 32 = length ds" using sc(1,3) n True by simp
    have "digests_of (length ds) (signed_content ds) = take 53 ds"
      using digests_of_concat [OF ok, of "length ds" "[]"] sc(1) n True by simp
    then show ?thesis
      using store_hashes_part [OF assms(4), of "length ds" "signed_content ds" True] assms(1) True l n
      by (simp add: sim_vip_recv_table_def MAX_DIGESTS_PER_SIGNED_FILE_def Let_def)
  next
    case False
    then obtain t ts where t: "chain_tables (drop 53 ds) = t # ts" using sc(2) by (cases "chain_tables (drop 53 ds)") auto
    have sg: "signed_content ds = concat (take 53 ds) @ sha256 t" using sc(1) t by (simp add: next_chain_def)
    have lc: "length (concat (take 53 ds)) = 53 * 32" using sc(3) False by simp
    have l: "length (signed_content ds) div 32 = 54" using sg lc by simp
    have ch: "sub_buf (53 * 32) 32 (signed_content ds) = sha256 t" using sg lc by (simp add: sub_buf_def)
    have dg: "digests_of 53 (signed_content ds) = take 53 ds"
      using digests_of_concat [OF ok, of 53 "sha256 t"] sg False by simp
    show ?thesis
      using store_hashes_part [OF keep_chain_part [OF assms(4), of 54 "signed_content ds"], of 53 "signed_content ds" True]
        assms(1) l ch dg t
      by (simp add: sim_vip_recv_table_def MAX_DIGESTS_PER_SIGNED_FILE_def Let_def next_chain_def)
  qed
qed

lemma check_chain_part:
  assumes "vip_part s = (c, hs, i, Some (sha256 t), errs)" "length t < 2 ^ 61"
  shows "vip_part (check_chain_hash t s) = (c, hs, i, None, errs)"
  using assms by (auto simp: check_chain_hash_def vip_part_def errors_def report_def sim_sha256_eq split: if_splits)

text \<open>A chained table: the first of those for the digests \<open>ds\<close>.\<close>

lemma chain_tables_Cons:
  assumes "digests_ok ds" "chain_tables ds = t # ts"
  shows "ts = chain_tables (drop 255 ds)"
    and "ts = [] \<Longrightarrow> length ds \<le> 255 \<and> t = concat ds @ [0]"
    and "ts \<noteq> [] \<Longrightarrow> length ds > 255 \<and> t = concat (take 255 ds) @ sha256 (hd ts)"
proof -
  have ne: "ds \<noteq> []" using assms(2) by (auto simp: chain_tables_def payloads.simps)
  have p0: "payloads xs = [] \<longleftrightarrow> xs = []" for xs by (subst payloads.simps) simp
  have f0: "finals ps = [] \<longleftrightarrow> ps = []" for ps using length_finals [of ps] by (metis length_0_conv)
  show "ts = chain_tables (drop 255 ds)"
    "ts = [] \<Longrightarrow> length ds \<le> 255 \<and> t = concat ds @ [0]"
    "ts \<noteq> [] \<Longrightarrow> length ds > 255 \<and> t = concat (take 255 ds) @ sha256 (hd ts)"
    using assms(2) ne
    by (auto simp: chain_tables_def payloads.simps [of ds] p0 f0 payloads.simps [of "[]"] split: if_splits list.splits)
qed

lemma recv_chained:
  assumes "digests_ok ds" "chain_tables ds = t # ts" "vip_part s = (c, hs, i, Some (sha256 t), errs)"
    "length hs + min 255 (length ds) \<le> 8213"
  shows "vip_part (sim_vip_recv_table t False s) = (c, hs @ take 255 ds, i, next_chain ts, errs)"
proof -
  note ct = chain_tables_Cons [OF assms(1,2)]
  have ok: "digests_ok (take 255 ds)" using assms(1) by (auto simp: digests_ok_def list_all_iff dest: in_set_takeD)
  have lc: "length (concat (take 255 ds)) = 32 * min 255 (length ds)"
    using length_concat_digests [OF ok] by (simp add: min.commute)
  show ?thesis
  proof (cases "ts = []")
    case True
    have t: "length ds \<le> 255" "t = concat ds @ [0]" using ct(2) [OF True] by simp_all
    have "length t = 1 + 32 * length ds" using lc t by simp
    then have lt: "length t div 32 = length ds" "length t mod 32 = 1" "length t < 2 ^ 61" using t(1) by simp_all
    have dg: "digests_of (length ds) t = take 255 ds" using digests_of_concat [OF assms(1)] t by simp
    show ?thesis
      using store_hashes_part [OF check_chain_part [OF assms(3) lt(3)], of "length ds" t False] assms(4) True t(1) lt dg
      by (simp add: sim_vip_recv_table_def Let_def next_chain_def)
  next
    case False
    have t: "length ds > 255" "t = concat (take 255 ds) @ sha256 (hd ts)" using ct(3) [OF False] by simp_all
    have lt: "length t = 256 * 32" using lc t by simp
    have ch: "sub_buf (255 * 32) 32 t = sha256 (hd ts)" using lc t by (simp add: sub_buf_def)
    have dg: "digests_of 255 t = take 255 ds"
      using digests_of_concat [OF ok, of 255 "sha256 (hd ts)"] t by simp
    have part: "vip_part (check_chain_hash t s) = (c, hs, i, None, errs)"
      using check_chain_part [OF assms(3)] lt by simp
    show ?thesis
      using store_hashes_part [OF keep_chain_part [OF part, of 256 t], of 255 t False] assms(4) t lt ch dg False
      by (simp add: sim_vip_recv_table_def Let_def MAX_DIGESTS_PER_CHAINED_FILE_def next_chain_def min_def
          split: list.split)
  qed
qed

subsection \<open>A dry run\<close>

text \<open>
  A client of the simulator: it sends packets, each after \<open>vip_transfer_handle_tables\<close>, and reads. A
  table that call sends is written while \<open>sending_table\<close> is set and the transfer is still in the state
  it was called in, so that is the \<open>vip_data\<close> the simulator sees.
\<close>

datatype sim_io = Send "u8 list" | Recv nat

fun sends :: "sim_io list \<Rightarrow> u8 list list" where
  "sends [] = []"
| "sends (Send f # ios) = f # sends ios"
| "sends (Recv n # ios) = sends ios"

fun sim_session ::
  "(u8 list \<Rightarrow> xml_doc option) \<Rightarrow> sim_io list \<Rightarrow> qdl_device_sim qdl_device \<Rightarrow> int \<times> qdl_device_sim qdl_device" where
  "sim_session P [] q = (0, q)"
| "sim_session P (Recv n # ios) q = sim_session P ios (snd (qdl_read (sim_transport P (vip_data q)) q n 0))"
| "sim_session P (Send f # ios) q =
     (case vip_transfer_handle_tables (sim_transport P ((vip_data q)\<lparr>sending_table := True\<rparr>)) q of
        (ret, q1) \<Rightarrow> if ret \<noteq> 0 then (ret, q1)
                    else sim_session P ios (snd (qdl_write (sim_transport P (vip_data q1)) q1 f 1000)))"

text \<open>
  A packet is checked when raw data is due or it parses as a command; \<open>checked_packets\<close> follows the
  packets through the simulator's states.
\<close>

definition phase :: "qdl_device_sim \<Rightarrow> nat option" where
  "phase s = (if sim_st s = SIM_STATE_RAW_IN then Some (raw_remaining s) else None)"

fun checked_packets :: "(u8 list \<Rightarrow> xml_doc option) \<Rightarrow> qdl_device_sim \<Rightarrow> u8 list list \<Rightarrow> bool" where
  "checked_packets P s [] = True"
| "checked_packets P s (f # fs) =
     ((sim_st s = SIM_STATE_RAW_IN \<or> P f \<noteq> None) \<and> checked_packets P (snd (sim_write P vip_zero s f)) fs)"

lemma phase_simps [simp]:
  "phase (sim_enqueue x s) = phase s" "phase (sim_enqueue_log h s) = phase s" "phase (sim_vip_check_chunk f s) = phase s"
  "phase (sim_vip_recv_table f b s) = phase s" "phase (snd (sim_read s n)) = phase s"
  using command_part_check [of f s] command_part_recv [of f b s] unfolding command_part_def
  by (auto simp: phase_def sim_enqueue_def sim_enqueue_log_def sim_read_def Let_def split: list.split)

lemma phase_command:
  "phase s = phase s' \<Longrightarrow> phase (sim_command child s) = phase (sim_command child s')"
  by (auto simp: sim_command_def sim_transfer_def Let_def phase_def sim_enqueue_def sim_enqueue_log_def split: if_splits)

lemma phase_write:
  assumes "phase s = phase s'" "\<not> sending_table v" "\<not> sending_table v'"
  shows "phase (snd (sim_write P v s f)) = phase (snd (sim_write P v' s' f))"
proof -
  have raw: "sim_st s = SIM_STATE_RAW_IN \<longleftrightarrow> sim_st s' = SIM_STATE_RAW_IN"
    using assms(1) by (auto simp: phase_def split: if_splits)
  have "phase (sim_vip_check_chunk f s) = phase (sim_vip_check_chunk f s')" using assms(1) by simp
  then have "sim_st s = SIM_STATE_RAW_IN \<Longrightarrow> phase (sim_raw_in n (sim_vip_check_chunk f s)) = phase (sim_raw_in n (sim_vip_check_chunk f s'))" for n
    using raw by (simp add: phase_def sim_raw_in_def sim_enqueue_def)
  moreover have "phase (sim_xml doc (sim_vip_check_chunk f s)) = phase (sim_xml doc (sim_vip_check_chunk f s'))" for doc
    using assms(1) by (auto simp: sim_xml_def split: option.split intro!: phase_command)
  ultimately show ?thesis using assms raw by (simp add: sim_write_def split: option.split)
qed

lemma checked_phase: "phase s = phase s' \<Longrightarrow> checked_packets P s fs = checked_packets P s' fs"
proof (induction fs arbitrary: s s')
  case (Cons f fs)
  have "sim_st s = SIM_STATE_RAW_IN \<longleftrightarrow> sim_st s' = SIM_STATE_RAW_IN"
    using Cons.prems by (auto simp: phase_def split: if_splits)
  moreover have "\<not> sending_table vip_zero" by (simp add: vip_zero_def)
  ultimately show ?case using Cons.IH [OF phase_write [OF Cons.prems]] by simp
qed simp

lemma snd_qdl_write:
  "snd (qdl_write (sim_transport P v) q f t) = q\<lparr>link := snd (sim_write P v (link q) f)\<rparr>"
  by (simp add: qdl_write_def sim_transport_def split: prod.split)

text \<open>What the check of one packet reports.\<close>

definition verdict :: "u8 list list \<Rightarrow> u8 list list \<Rightarrow> nat \<Rightarrow> sim_note list" where
  "verdict ds gs i = (if sha256 (gs ! i) = ds ! i then [] else [Chunk_mismatch i (sha256 (gs ! i)) (ds ! i)])"

lemma check_chunk_part:
  assumes "vip_part s = (False, hs, i, ch, errs)" "i < length hs" "length f < 2 ^ 61"
  shows "vip_part (sim_vip_check_chunk f s)
    = (False, hs, i + 1, ch, errs @ (if sha256 f = hs ! i then [] else [Chunk_mismatch i (sha256 f) (hs ! i)]))"
  using assms by (auto simp: sim_vip_check_chunk_def vip_part_def errors_def report_def vip_hash_count_def
      sim_sha256_eq Let_def)

lemma write_part:
  assumes "\<not> sending_table v" "sim_st s = SIM_STATE_RAW_IN \<or> P f \<noteq> None"
  shows "vip_part (snd (sim_write P v s f)) = vip_part (sim_vip_check_chunk f s)"
  using assms by (auto simp: sim_write_def split: option.split)

lemma table_part:
  assumes "\<not> create_digests s" "sending_table v"
  shows "sim_write P v s t = (int (length t), sim_enqueue SIM_ACK (sim_vip_recv_table t (vip_st v = VIP_INIT) s))"
  using assms by (simp add: sim_write_def)

text \<open>
  The state of a run: \<open>k\<close> packets checked, \<open>f\<close> frames counted, and the tables for the first \<open>cap\<close>
  digests received; and the state before the first table.
\<close>

definition following ::
  "u8 list list \<Rightarrow> u8 list list \<Rightarrow> sim_note list \<Rightarrow> nat \<Rightarrow> nat \<Rightarrow> nat \<Rightarrow> qdl_device_sim qdl_device \<Rightarrow> bool" where
  "following ds gs e0 k f cap q \<longleftrightarrow>
     under_way (vip_data q) \<and> \<not> sending_table (vip_data q) \<and> pending_buf q = None
     \<and> f \<le> cap \<and> allowance (vip_data q) = cap - f
     \<and> (\<exists>more. drop (chained_cur (vip_data q)) (chained_tables (vip_data q))
          = map (Pair 0) (chain_tables (drop cap ds) @ more))
     \<and> vip_part (link q) = (False, take cap ds, k, next_chain (chain_tables (drop cap ds)),
          e0 @ concat (map (verdict ds gs) [0..<k]))"

definition starting :: "u8 list list \<Rightarrow> sim_note list \<Rightarrow> qdl_device_sim qdl_device \<Rightarrow> bool" where
  "starting ds e0 q \<longleftrightarrow>
     vip_st (vip_data q) = VIP_INIT \<and> \<not> sending_table (vip_data q) \<and> pending_buf q = None
     \<and> (\<exists>mbn. signed_table (vip_data q) = (0, mbn) \<and> sim_vip_signed_payload mbn = Some (signed_content ds))
     \<and> (\<exists>more. chained_tables (vip_data q) = map (Pair 0) (chain_tables (drop 53 ds) @ more))
     \<and> chained_cur (vip_data q) = 0
     \<and> vip_part (link q) = (False, [], 0, None, e0)"

lemma read_link:
  assumes "pending_buf q = None"
  shows "snd (qdl_read (sim_transport P v) q n t) = q\<lparr>link := snd (sim_read (link q) n)\<rparr>"
  using assms by (simp add: qdl_read_def sim_transport_def split: prod.split)

lemma handle_following:
  assumes "following ds gs e0 k k cap q" "digests_ok ds" "k < length ds" "length ds \<le> 8213"
  shows "\<exists>q1 cap'. vip_transfer_handle_tables (sim_transport P ((vip_data q)\<lparr>sending_table := True\<rparr>)) q = (0, q1)
    \<and> following ds gs e0 k (Suc k) cap' q1 \<and> phase (link q1) = phase (link q)"
proof -
  let ?T = "sim_transport P ((vip_data q)\<lparr>sending_table := True\<rparr>)" and ?s = "link q"
  note F = assms(1) [unfolded following_def]
  obtain more where tb: "drop (chained_cur (vip_data q)) (chained_tables (vip_data q))
      = map (Pair 0) (chain_tables (drop cap ds) @ more)" using F by blast
  show ?thesis
  proof (cases "allowance (vip_data q)")
    case (Suc r)
    from handle_in_table [OF _ Suc, of ?T] F obtain v where
      v: "vip_transfer_handle_tables ?T q = (0, q\<lparr>vip_data := v\<rparr>)" "under_way v" "allowance v = r"
        "chained_cur v = chained_cur (vip_data q)" "chained_tables v = chained_tables (vip_data q)" "\<not> sending_table v"
      by auto
    then have "following ds gs e0 k (Suc k) cap (q\<lparr>vip_data := v\<rparr>)" using F Suc tb by (auto simp: following_def)
    then show ?thesis using v(1) by auto
  next
    case 0
    then have cap: "cap = k" using F by simp
    have okd: "digests_ok (drop cap ds)" using assms(2) by (rule digests_ok_drop)
    have "payloads (drop cap ds) \<noteq> []" using cap assms(3) by (subst payloads.simps) simp
    then obtain t ts where ct: "chain_tables (drop cap ds) = t # ts"
      unfolding chain_tables_def by (metis length_finals length_0_conv neq_Nil_conv)
    have st: "vip_st (vip_data q) = VIP_SEND_NEXT_TABLE" using F 0 by (auto simp: under_way_def allowance_def)
    have w: "tr_write ?T ?s t 1000 = (int (length t), sim_enqueue SIM_ACK (sim_vip_recv_table t False ?s))"
      using F st by (simp add: sim_transport_def table_part vip_part_def)
    have uw: "under_way (vip_data q)" using F by simp
    have tb': "drop (chained_cur (vip_data q)) (chained_tables (vip_data q)) = (0, t) # map (Pair 0) (ts @ more)"
      using tb ct by simp
    from handle_next_table [OF uw 0 tb' w] obtain v where
      v: "vip_transfer_handle_tables ?T q = (0, q\<lparr>vip_data := v, link := sim_enqueue SIM_ACK (sim_vip_recv_table t False ?s)\<rparr>)"
        "under_way v" "allowance v = 254" "drop (chained_cur v) (chained_tables v) = map (Pair 0) (ts @ more)" "\<not> sending_table v"
      by auto
    have "vip_part (sim_vip_recv_table t False ?s)
        = (False, take cap ds @ take 255 (drop cap ds), k, next_chain ts, e0 @ concat (map (verdict ds gs) [0..<k]))"
      by (rule recv_chained [OF okd ct]) (use F ct cap assms(3,4) in \<open>simp_all add: next_chain_def\<close>)
    moreover have "ts = chain_tables (drop (255 + cap) ds)" using chain_tables_Cons(1) [OF okd ct] by simp
    ultimately have "following ds gs e0 k (Suc k) (255 + cap)
        (q\<lparr>vip_data := v, link := sim_enqueue SIM_ACK (sim_vip_recv_table t False ?s)\<rparr>)"
      using v F cap by (auto simp: following_def take_add [symmetric] add.commute)
    then show ?thesis using v(1) by auto
  qed
qed

lemma handle_starting:
  assumes "starting ds e0 q" "digests_ok ds" "ds \<noteq> []"
  shows "\<exists>q1. vip_transfer_handle_tables (sim_transport P ((vip_data q)\<lparr>sending_table := True\<rparr>)) q = (0, q1)
    \<and> following ds gs e0 0 (Suc 0) 53 q1 \<and> phase (link q1) = phase (link q)"
proof -
  let ?T = "sim_transport P ((vip_data q)\<lparr>sending_table := True\<rparr>)" and ?s = "link q"
  note S = assms(1) [unfolded starting_def]
  obtain mbn more where m: "signed_table (vip_data q) = (0, mbn)" "sim_vip_signed_payload mbn = Some (signed_content ds)"
    "chained_tables (vip_data q) = map (Pair 0) (chain_tables (drop 53 ds) @ more)" using S by blast
  have w: "tr_write ?T ?s mbn 1000 = (int (length mbn), sim_enqueue SIM_ACK (sim_vip_recv_table mbn True ?s))"
    using S by (simp add: sim_transport_def table_part vip_part_def)
  from handle_signed_table [OF _ m(1,3) _ w] S obtain v where
    v: "vip_transfer_handle_tables ?T q = (0, q\<lparr>vip_data := v, link := sim_enqueue SIM_ACK (sim_vip_recv_table mbn True ?s)\<rparr>)"
      "under_way v" "allowance v = 52" "drop (chained_cur v) (chained_tables v) = map (Pair 0) (chain_tables (drop 53 ds) @ more)"
      "\<not> sending_table v"
    by auto
  have "vip_part (sim_vip_recv_table mbn True ?s) = (False, take 53 ds, 0, next_chain (chain_tables (drop 53 ds)), e0)"
    by (rule recv_signed [OF m(2) assms(2,3)]) (use S in simp)
  then have "following ds gs e0 0 (Suc 0) 53
      (q\<lparr>vip_data := v, link := sim_enqueue SIM_ACK (sim_vip_recv_table mbn True ?s)\<rparr>)"
    using v S by (auto simp: following_def)
  then show ?thesis using v(1) by auto
qed

lemma write_following:
  assumes "following ds gs e0 k (Suc k) cap q" "k < length ds" "length (gs ! k) < 2 ^ 61"
    "sim_st (link q) = SIM_STATE_RAW_IN \<or> P (gs ! k) \<noteq> None"
  shows "following ds gs e0 (Suc k) (Suc k) cap (snd (qdl_write (sim_transport P (vip_data q)) q (gs ! k) t))"
proof -
  note F = assms(1) [unfolded following_def]
  have "vip_part (snd (sim_write P (vip_data q) (link q) (gs ! k)))
      = (False, take cap ds, k + 1, next_chain (chain_tables (drop cap ds)),
          (e0 @ concat (map (verdict ds gs) [0..<k])) @ verdict ds gs k)"
    using F assms(2-4) check_chunk_part [of "link q" "take cap ds" k _ _ "gs ! k"]
    by (simp add: write_part verdict_def)
  then show ?thesis using F unfolding snd_qdl_write by (simp add: following_def)
qed

lemma phase_written:
  "phase (link q) = phase s \<Longrightarrow> \<not> sending_table (vip_data q) \<Longrightarrow>
   phase (link (snd (qdl_write (sim_transport P (vip_data q)) q f t))) = phase (snd (sim_write P vip_zero s f))"
  unfolding snd_qdl_write by simp (rule phase_write, auto simp: vip_zero_def)

lemma session_follows:
  "(k = 0 \<and> starting ds e0 q) \<or> (\<exists>cap. following ds gs e0 k k cap q) \<Longrightarrow> digests_ok ds \<Longrightarrow> ds \<noteq> [] \<Longrightarrow>
   length ds \<le> 8213 \<Longrightarrow> length gs \<le> length ds \<Longrightarrow> sends ios = drop k gs \<Longrightarrow> k \<le> length gs \<Longrightarrow> list_all (\<lambda>g. length g < 2 ^ 61) gs \<Longrightarrow>
   checked_packets P (link q) (sends ios) \<Longrightarrow>
   \<exists>q'. sim_session P ios q = (0, q') \<and> errors (link q') = e0 @ concat (map (verdict ds gs) [0..<length gs])"
proof (induction ios arbitrary: k q)
  case Nil
  then show ?case by (auto simp: starting_def following_def vip_part_def)
next
  case (Cons io ios)
  have pb: "pending_buf q = None" using Cons.prems(1) by (auto simp: starting_def following_def)
  show ?case
  proof (cases io)
    case (Recv n)
    let ?q = "q\<lparr>link := snd (sim_read (link q) n)\<rparr>"
    have "(k = 0 \<and> starting ds e0 ?q) \<or> (\<exists>cap. following ds gs e0 k k cap ?q)"
      using Cons.prems(1) by (simp add: starting_def following_def)
    moreover have "checked_packets P (link ?q) (sends ios)"
      using Cons.prems(9) Recv checked_phase [of "link ?q" "link q"] by simp
    ultimately show ?thesis
      using Cons.IH [of k ?q] Cons.prems Recv by (simp add: read_link [OF pb])
  next
    case (Send f)
    have d: "drop k gs = f # sends ios" using Cons.prems(6) Send by simp
    then have kl: "k < length gs" by (metis drop_all linorder_not_le list.distinct(1))
    have k: "k < length gs" "gs ! k = f" "sends ios = drop (Suc k) gs"
      using d kl Cons_nth_drop_Suc [OF kl] by simp_all
    have kd: "k < length ds" using k(1) Cons.prems(5) by simp
    obtain q1 cap where h: "vip_transfer_handle_tables (sim_transport P ((vip_data q)\<lparr>sending_table := True\<rparr>)) q = (0, q1)"
      and F: "following ds gs e0 k (Suc k) cap q1" and ph: "phase (link q1) = phase (link q)"
      using Cons.prems(1) handle_starting [of ds e0 q P gs] handle_following [of ds gs e0 k _ q P] Cons.prems(2-4) kd by blast
    let ?q2 = "snd (qdl_write (sim_transport P (vip_data q1)) q1 f 1000)"
    have ck: "sim_st (link q1) = SIM_STATE_RAW_IN \<or> P f \<noteq> None"
      using Cons.prems(9) Send ph by (auto simp: phase_def split: if_splits)
    have lf: "length (gs ! k) < 2 ^ 61" using Cons.prems(8) k(1) by (simp add: list_all_length)
    have F2: "following ds gs e0 (Suc k) (Suc k) cap ?q2"
      using write_following [OF F kd lf] ck k(2) by simp
    have "phase (link ?q2) = phase (snd (sim_write P vip_zero (link q) f))"
      using F by (intro phase_written ph) (simp add: following_def)
    from checked_phase [OF this, of P "sends ios"] have "checked_packets P (link ?q2) (sends ios)"
      using Cons.prems(9) Send by simp
    then show ?thesis
      using Cons.IH [of "Suc k" ?q2] F2 Cons.prems k(1,3) Send h by auto
  qed
qed

text \<open>
  C4: A validated dry run against the simulator. Let the tables a transfer sends be those the
  generator lays out for the packets \<open>fs\<close> (at most 8213), the table to sign wrapped in an image whose
  payload the simulator finds. When packets \<open>gs\<close>, no more than there are in \<open>fs\<close>, are sent with reads
  in between, and each is raw data that is due or a command that parses, then all of them are sent and
  what the simulator reports as an error is exactly one hash mismatch, with both hashes, for each
  packet whose SHA-256 differs from that of the packet of \<open>fs\<close> at its position: no table, no chain
  hash and no other packet is reported, whichever tables fall between the packets.
\<close>

theorem sim_reports_mismatches:
  assumes "vip_st (vip_data q) = VIP_INIT" "\<not> sending_table (vip_data q)" "chained_cur (vip_data q) = 0"
    "signed_table (vip_data q) = (0, mbn)" "sim_vip_signed_payload mbn = Some (signed_content (map sha256 fs))"
    "chained_tables (vip_data q) = map (Pair 0) (chain_tables (drop 53 (map sha256 fs)) @ extra)"
    "pending_buf q = None" "\<not> create_digests (link q)" "vip_hashes (link q) = []" "vip_hash_idx (link q) = 0"
    "\<not> vip_has_chain_hash (link q)"
    "fs \<noteq> []" "length fs \<le> 8213" "gs = sends ios" "length gs \<le> length fs"
    "list_all (\<lambda>g. length g < 2 ^ 61) gs" "checked_packets P (link q) gs"
  shows "\<exists>q'. sim_session P ios q = (0, q')
    \<and> filter is_error (sim_notes (link q')) = filter is_error (sim_notes (link q))
        @ map (\<lambda>i. Chunk_mismatch i (sha256 (gs ! i)) (sha256 (fs ! i)))
            (filter (\<lambda>i. sha256 (gs ! i) \<noteq> sha256 (fs ! i)) [0..<length gs])"
proof -
  let ?ds = "map sha256 fs"
  have st: "starting ?ds (errors (link q)) q"
    using assms(1-11) by (auto simp: starting_def vip_part_def)
  have ok: "digests_ok ?ds" by (simp add: digests_ok_def list_all_iff)
  have v: "concat (map (verdict ?ds gs) is) = map (\<lambda>i. Chunk_mismatch i (sha256 (gs ! i)) (sha256 (fs ! i)))
      (filter (\<lambda>i. sha256 (gs ! i) \<noteq> sha256 (fs ! i)) is)" if "\<forall>i \<in> set is. i < length fs" for "is"
    using that by (induction "is") (auto simp: verdict_def)
  have sf: "\<exists>q'. sim_session P ios q = (0, q') \<and> errors (link q') = errors (link q) @ concat (map (verdict ?ds gs) [0..<length gs])"
    by (rule session_follows [OF disjI1 [OF conjI [OF refl st]] ok]) (use assms(12-17) in simp_all)
  show ?thesis using sf v [of "[0..<length gs]"] assms(15) unfolding errors_def by simp
qed

text \<open>Tables for one packet, and another packet sent.\<close>

lemma sim_reports_mismatches_witness:
  "\<exists>q'. sim_session (\<lambda>b. Some []) [Recv 100, Send [6], Recv 4095] (sim_init\<lparr>vip_data := vip_zero\<lparr>vip_st := VIP_INIT,
       signed_table := (0, [0, 0, 0, 0, 5, 0, 0, 0, 0, 0, 0, 0, 0, 0, 0, 0, 32, 0, 0, 0, 32, 0, 0, 0, 0, 0, 0, 0, 0, 0, 0, 0, 0, 0, 0, 0, 0, 0, 0, 0] @ sha256 [5])\<rparr>\<rparr>) = (0, q')
    \<and> filter is_error (sim_notes (link q')) =
        (if sha256 [6] = sha256 [5] then [] else [Chunk_mismatch 0 (sha256 [6]) (sha256 [5])])"
proof -
  define mbn where "mbn = [0, 0, 0, 0, 5, 0, 0, 0, 0, 0, 0, 0, 0, 0, 0, 0, 32, 0, 0, 0, 32, 0, 0, 0, 0, 0, 0, 0, 0, 0, 0, 0, 0, 0, 0, 0, 0, 0, 0, 0] @ sha256 [5]"
  define q where "q = sim_init\<lparr>vip_data := vip_zero\<lparr>vip_st := VIP_INIT, signed_table := (0, mbn)\<rparr>\<rparr>"
  have nc: "chain_tables (drop 53 (map sha256 [[5]])) = []" by (simp add: chain_tables_def payloads.simps [of "[]"])
  have pl: "sim_vip_signed_payload mbn = Some (signed_content (map sha256 [[5]]))"
    using nc by (simp add: sim_vip_signed_payload_def mbn_def mbn_header_version_def mbn_image_size_def mbn_code_size_def
        get_le32_def sub_buf_def sizeof_mbn_header_v5_def MBN_HEADER_VERSION_5_def MAX_DIGESTS_PER_SIGNED_FILE_def
        signed_content_def Let_def)
  have "\<exists>q'. sim_session (\<lambda>b. Some []) [Recv 100, Send [6], Recv 4095] q = (0, q')
    \<and> filter is_error (sim_notes (link q')) = filter is_error (sim_notes (link q))
        @ map (\<lambda>i. Chunk_mismatch i (sha256 ([[6]] ! i)) (sha256 ([[5]] ! i)))
            (filter (\<lambda>i. sha256 ([[6]] ! i) \<noteq> sha256 ([[5]] ! i)) [0..<length [[6 :: u8]]])"
    by (rule sim_reports_mismatches [where mbn = mbn and extra = "[]"])
      (use pl nc in \<open>simp_all add: q_def sim_init_def sim_zero_def vip_zero_def\<close>)
  then show ?thesis by (auto simp: q_def mbn_def sim_init_def sim_zero_def)
qed

subsection \<open>Generator and transfer together\<close>

text \<open>
  C26: Generator and transfer fit together. Let the full table hold the digests of the packets \<open>fs\<close>
  (at most 8213), the chain be created from it, \<open>DigestsToSign.bin.mbn\<close> be an image whose payload, where
  its packed header says it is, is the file the generator wrote to be signed, and the other files be the
  ones created. Then the transfer initialises, all the packets are sent, and what the device receives is
  that image and the chained tables, each followed by the packets it covers (53, then 255 at a time).
  What a table says, the payload of the image and the whole of a chained table, is exactly the SHA-256 of
  each of its packets in order, then the SHA-256 of all that the next table says or, in the last chained
  table, a zero byte.
\<close>

theorem vip_generated_tables_cover:
  assumes "host_ok h" "h_files h (path_join (vg_path g) DIGEST_FULL_TABLE_FILE) = Some (concat (map sha256 fs))"
    "vg_num g = length fs" "length (vg_path g) < 4000" "fs \<noteq> []" "length fs \<le> 8213"
    "create_chained_tables g h = (ret, h')"
    "opn (path_join (vg_path g) ''DigestsToSign.bin.mbn'') = Inr mbn"
    "sim_vip_signed_payload mbn = h_files h' (path_join (vg_path g) DIGEST_TABLE_TO_SIGN_FILE)"
    "\<And>j. opn (path_join (vg_path g) (chained_table_name j))
       = (case h_files h' (path_join (vg_path g) (chained_table_name j)) of None \<Rightarrow> Inl ENOENT | Some c \<Rightarrow> Inr c)"
  shows "\<exists>q1 q2 says chain. vip_transfer_init opn (vg_path g) q = (0, q1) \<and> send_packets fs q1 = (0, q2)
    \<and> link q2 = link q @ concat (map (\<lambda>(t, b). t # b) (List.zip (mbn # chain) (covered 53 fs)))
    \<and> sim_vip_signed_payload mbn = Some says
    \<and> length (says # chain) = length (covered 53 fs) \<and> concat (covered 53 fs) = fs
    \<and> (\<forall>i < length (covered 53 fs). (says # chain) ! i = concat (map sha256 (covered 53 fs ! i))
         @ (if Suc i < length (covered 53 fs) then sha256 ((says # chain) ! Suc i) else if i = 0 then [] else [0]))"
proof -
  let ?bs = "covered 255 (drop 53 fs)" and ?says = "signed_content (map sha256 fs)"
  let ?chain = "chain_tables (map sha256 (drop 53 fs))"
  have d: "drop 53 (map sha256 fs) = map sha256 (drop 53 fs)" by (simp add: drop_map)
  note gen = generated_tables_sent [OF assms(1-8,10), unfolded d]
  have cf: "covered 53 fs = take 53 fs # ?bs" using assms(5) by (subst covered.simps) simp
  have l: "length ?chain = length ?bs" by (rule chain_length)
  have says: "?says = concat (map sha256 (take 53 fs)) @ (if ?bs = [] then [] else sha256 (?chain ! 0))"
    using l by (cases ?chain) (auto simp: signed_content_def d take_map split: list.split)
  have "(?says # ?chain) ! i = concat (map sha256 (covered 53 fs ! i))
         @ (if Suc i < length (covered 53 fs) then sha256 ((?says # ?chain) ! Suc i) else if i = 0 then [] else [0])"
    if "i < length (covered 53 fs)" for i
  proof (cases i)
    case 0
    then show ?thesis unfolding cf using says by simp
  next
    case (Suc j)
    then show ?thesis using that chain_covered [of j "drop 53 fs"] unfolding cf by simp
  qed
  moreover obtain q1 q2 where "vip_transfer_init opn (vg_path g) q = (0, q1)" "send_packets fs q1 = (0, q2)"
      "link q2 = link q @ concat (map (\<lambda>(t, b). t # b) (List.zip (mbn # ?chain) (covered 53 fs)))"
    using gen(2) by blast
  ultimately show ?thesis
    using assms(9) gen(1) l concat_covered [of 53 fs]
    by (intro exI [of _ q1] exI [of _ q2] exI [of _ ?says] exI [of _ ?chain]) (simp add: cf)
qed

text \<open>One packet: the image is a header, the digest behind it, and a byte of signature.\<close>

definition ex_mbn :: "u8 list" where
  "ex_mbn = [0, 0, 0, 0, 5, 0, 0, 0, 0, 0, 0, 0, 0, 0, 0, 0, 33, 0, 0, 0, 32, 0, 0, 0, 0, 0, 0, 0, 0, 0, 0, 0, 0, 0, 0, 0, 0, 0, 0, 0]
     @ sha256 [5] @ [1]"

lemma ex_mbn_payload: "sim_vip_signed_payload ex_mbn = Some (sha256 [5])"
  by (simp add: sim_vip_signed_payload_def ex_mbn_def mbn_header_version_def mbn_image_size_def mbn_code_size_def
      get_le32_def sub_buf_def sizeof_mbn_header_v5_def MBN_HEADER_VERSION_5_def MAX_DIGESTS_PER_SIGNED_FILE_def Let_def)

lemma vip_generated_tables_cover_witness:
  "\<exists>q1 q2. vip_transfer_init (\<lambda>p. if p = ''d/DigestsToSign.bin.mbn'' then Inr ex_mbn else Inl ENOENT) ''d''
      (fresh_device QDL_DEVICE_SIM []) = (0, q1) \<and> send_packets [[5]] q1 = (0, q2)
    \<and> link q2 = [ex_mbn, [5]] \<and> sim_vip_signed_payload ex_mbn = Some (sha256 [5])"
proof -
  define fs :: "u8 list list" where "fs = [[5]]"
  define g where "g = \<lparr>vg_ctx = sha_zero, vg_open = True, vg_num = 1, vg_path = ''d''\<rparr>"
  define h where "h = fset ex_host ''d/DIGEST_TABLE.bin'' (sha256 [5])"
  define opn where "opn = (\<lambda>p. if p = ''d/DigestsToSign.bin.mbn'' then Inr ex_mbn else Inl ENOENT :: int + u8 list)"
  have p: "path_join (vg_path g) DIGEST_FULL_TABLE_FILE = ''d/DIGEST_TABLE.bin''"
      "path_join (vg_path g) DIGEST_TABLE_TO_SIGN_FILE = ''d/DigestsToSign.bin''"
      "path_join (vg_path g) ''DigestsToSign.bin.mbn'' = ''d/DigestsToSign.bin.mbn''"
      "length (vg_path g) < 4000"
    by (simp_all add: path_join_fits PATH_MAX_def g_def)
  have ok: "host_ok h" by (simp add: h_def host_ok_def ex_host_def fset_def)
  have full: "h_files h (path_join (vg_path g) DIGEST_FULL_TABLE_FILE) = Some (concat (map sha256 fs))"
    unfolding p by (simp add: h_def fs_def)
  have tbl: "table_path (vg_path g) j \<noteq> ''d/DigestsToSign.bin''" "table_path (vg_path g) j \<noteq> ''d/DIGEST_TABLE.bin''"
      "table_path (vg_path g) j \<noteq> ''d/DigestsToSign.bin.mbn''" for j
    by (simp_all add: table_path_def path_join_def chained_table_name_def g_def PATH_MAX_def take_Cons')
  have dg: "digests_ok (map sha256 fs)" "vg_num g = length (map sha256 fs)" "length (map sha256 fs) < 10 ^ 17"
    by (simp_all add: digests_ok_def fs_def g_def)
  have nc: "chain_tables (drop 53 (map sha256 fs)) = []"
    by (simp add: fs_def chain_tables_def payloads.simps)
  obtain h' where run: "create_chained_tables g h = (0, h')"
    and sign: "h_files h' ''d/DigestsToSign.bin'' = Some (sha256 [5])"
    and same: "\<And>p. p \<noteq> ''d/DigestsToSign.bin'' \<Longrightarrow> h_files h' p = h_files h p"
    using chained_tables_written [OF ok full dg(1,2) p(4) dg(3)] unfolding nc p
    by (auto simp: signed_content_def nc) (simp add: fs_def)
  have opens: "opn (path_join (vg_path g) (chained_table_name j))
       = (case h_files h' (path_join (vg_path g) (chained_table_name j)) of None \<Rightarrow> Inl ENOENT | Some c \<Rightarrow> Inr c)" for j
    using tbl [of j] by (simp add: same opn_def h_def table_path_def ex_host_def)
  have mbn: "opn (path_join (vg_path g) ''DigestsToSign.bin.mbn'') = Inr ex_mbn"
    unfolding p by (simp add: opn_def)
  have pay: "sim_vip_signed_payload ex_mbn = h_files h' (path_join (vg_path g) DIGEST_TABLE_TO_SIGN_FILE)"
    unfolding p sign by (rule ex_mbn_payload)
  have n: "vg_num g = length fs" "fs \<noteq> []" "length fs \<le> 8213" by (simp_all add: g_def fs_def)
  have cv: "covered 53 fs = [fs]" by (simp add: fs_def covered.simps)
  obtain q1 q2 where r: "vip_transfer_init opn (vg_path g) (fresh_device QDL_DEVICE_SIM []) = (0, q1)"
      "send_packets fs q1 = (0, q2)" "link q2 = [ex_mbn, [5]]"
    using vip_generated_tables_cover [OF ok full n(1) p(4) n(2,3) run mbn pay opens, of "fresh_device QDL_DEVICE_SIM []"]
    unfolding cv by (auto simp: fresh_device_def fs_def)
  have path: "vg_path g = ''d''" by (simp add: g_def)
  show ?thesis using r ex_mbn_payload unfolding path by (auto simp: opn_def fs_def)
qed

end
