(* ===== verification/SimRun.thy ===== *)
theory SimRun
  imports SimVip FhRead FhData
begin

text \<open>
  The message exchanges of \<open>src/firehose.c\<close> on the simulated device of \<open>src/sim.c\<close>: requests and their
  responses, the raw data of a program.
\<close>

subsection \<open>The messages of the simulator\<close>

definition sim_doc :: "string \<Rightarrow> xml_attrs \<Rightarrow> xml_doc" where
  "sim_doc tag attrs = [(ex_node ''data'' [], [ex_node tag attrs])]"

definition sim_handlers :: "string list" where
  "sim_handlers = [''configure'', ''program'', ''read'', ''erase'', ''patch'', ''setbootablestoragedrive'', ''power'', ''ufs'']"

text \<open>
  What the dry run relies on libxml2 for: it parses the simulator's fixed responses, and parsing a
  dumped request gives its element back.
\<close>

definition sim_xml_env :: "qdl_device_sim fh_env \<Rightarrow> bool" where
  "sim_xml_env E \<longleftrightarrow>
     (\<forall>h \<in> set sim_handlers.
        env_xml E (sim_log_text h) = Some (sim_doc ''log'' [(''value'', ''INFO: Calling handler for '' @ h)]))
     \<and> env_xml E SIM_ACK = Some (sim_doc ''response'' [(''value'', ''ACK''), (''rawmode'', ''false'')])
     \<and> env_xml E SIM_ACK_RAWMODE = Some (sim_doc ''response'' [(''value'', ''ACK''), (''rawmode'', ''true'')])
     \<and> env_xml E SIM_CONFIGURE_ACK = Some (sim_doc ''response''
          [(''value'', ''ACK''), (''MemoryName'', ''ufs''), (''MinVersionSupported'', ''1''), (''Version'', ''1''),
           (''MaxPayloadSizeToTargetInBytes'', ''1048576''), (''MaxPayloadSizeToTargetInBytesSupported'', ''1048576''),
           (''MaxXMLSizeInBytes'', ''4096'')])
     \<and> (\<forall>tag attrs. distinct (map fst attrs) \<longrightarrow> env_xml E (env_dump E tag attrs) = Some (sim_doc tag attrs))"

text \<open>Documents as texts.\<close>

lemma find_sub_map:
  assumes "inj f"
  shows "find_sub (map f p) (map f xs) = find_sub p xs"
proof (induction xs)
  case (Cons x xs)
  have "take (length p) (map f (x # xs)) = map f p \<longleftrightarrow> take (length p) (x # xs) = p"
    unfolding take_map by (rule inj_map_eq_map [OF assms])
  then show ?case using Cons by simp
qed simp

lemma of_char_inj: "inj (of_char :: char \<Rightarrow> u8)"
proof (rule injI)
  fix a b assume "(of_char a :: u8) = of_char b"
  then have "char_of (unat (of_char a :: u8)) = (char_of (unat (of_char b :: u8)) :: char)" by simp
  then show "a = b" by (simp add: unat_of_char)
qed

lemma find_sub_bytes: "find_sub (bytes_of p) (bytes_of s) = find_sub p s"
  unfolding bytes_of_def by (rule find_sub_map [OF of_char_inj])

lemma tag_texts: "xml_open = bytes_of ''<?xml''" "data_close = bytes_of ''</data>''"
  by (simp_all add: bytes_of_def)

text \<open>A complete document, as a test of its text.\<close>

definition whole_string :: "string \<Rightarrow> bool" where
  "whole_string s \<longleftrightarrow> take 5 s = ''<?xml'' \<and> CHR 0x00 \<notin> set s \<and> length s \<ge> 12 \<and> length s \<le> 4095
     \<and> find_sub ''</data>'' s = Some (length s - 7)"

lemma whole_text:
  assumes "whole_string s"
  shows "whole_document (bytes_of s)" "length (bytes_of s) \<le> 4095"
proof -
  note W = assms [unfolded whole_string_def]
  have "c \<noteq> 0" if c: "c \<in> set (bytes_of s)" for c
  proof -
    obtain x where x: "x \<in> set s" "c = of_char x" using c by (auto simp: bytes_of_def)
    have "x \<noteq> CHR 0x00" using x(1) W by blast
    moreover have "(of_char (CHR 0x00) :: u8) = 0" by simp
    ultimately show ?thesis using x(2) of_char_inj by (metis injD)
  qed
  then have nz: "0 \<notin> set (bytes_of s)" by blast
  have "bytes_of s = bytes_of (''<?xml'' @ drop 5 s)" using W append_take_drop_id [of 5 s] by simp
  then have o: "bytes_of s = xml_open @ bytes_of (drop 5 s)" unfolding tag_texts by (simp add: bytes_of_def)
  have "find_sub xml_open (c_bytes (bytes_of s @ rest)) = Some 0" for rest
    unfolding c_bytes_append [OF nz] unfolding o append_assoc by (rule find_sub_0) simp
  moreover have fs: "find_sub data_close (bytes_of s) = Some (length s - 7)"
    unfolding tag_texts find_sub_bytes using W by simp
  have "find_sub data_close (c_bytes (bytes_of s @ rest)) = Some (length s - 7)" for rest
    unfolding c_bytes_append [OF nz] by (rule find_sub_extend [OF fs]) simp
  moreover have "length s - 7 + 7 = length (bytes_of s)" using W by simp
  ultimately show "whole_document (bytes_of s)" by (simp add: whole_document_def next_document_def Let_def)
  show "length (bytes_of s) \<le> 4095" using W by simp
qed

lemma sim_texts:
  "whole_document SIM_ACK" "whole_document SIM_ACK_RAWMODE" "whole_document SIM_CONFIGURE_ACK"
  "length SIM_ACK \<le> 4095" "length SIM_ACK_RAWMODE \<le> 4095" "length SIM_CONFIGURE_ACK \<le> 4095"
  unfolding SIM_ACK_def SIM_ACK_RAWMODE_def SIM_CONFIGURE_ACK_def
  by (rule whole_text, code_simp)+

lemma sim_log_texts:
  "h \<in> set sim_handlers \<Longrightarrow> whole_document (sim_log_text h) \<and> length (sim_log_text h) \<le> 4095"
proof -
  have "list_all (\<lambda>h. whole_string (take 255 (''<?xml version=\"1.0\" encoding=\"UTF-8\" ?>'' @
     ''<data><log value=\"INFO: Calling handler for '' @ h @ ''\" /></data>''))) sim_handlers"
    by code_simp
  moreover assume "h \<in> set sim_handlers"
  ultimately show ?thesis unfolding sim_log_text_def list_all_iff by (intro conjI whole_text) blast+
qed

subsection \<open>Reading the simulator's responses\<close>

text \<open>An environment whose transport is the simulator, with no table on its way.\<close>

definition sim_env :: "qdl_device_sim fh_env \<Rightarrow> bool" where
  "sim_env E \<longleftrightarrow> sim_xml_env E \<and> (\<exists>v. \<not> sending_table v \<and> env_tr E = sim_transport (env_xml E) v)"

lemma sim_message:
  "env_xml E d = Some (sim_doc tag attrs) \<Longrightarrow> whole_document d \<Longrightarrow> is_message E (d, ex_node tag attrs)"
  by (simp add: is_message_def firehose_response_parse_def sim_doc_def ex_node_def)

definition unmarked :: "xml_node \<Rightarrow> bool" where
  "unmarked node \<longleftrightarrow> (\<forall>q :: qdl_device_sim qdl_device. firehose_check_vip_marker q node = q)"

definition next_resp :: "int \<Rightarrow> int \<Rightarrow> int" where
  "next_resp ret resp = (if ret \<ge> 0 then ret else resp)"

definition with_queue :: "u8 list list \<Rightarrow> qdl_device_sim qdl_device \<Rightarrow> qdl_device_sim qdl_device" where
  "with_queue rest q = q\<lparr>link := (link q)\<lparr>resp_queue := rest\<rparr>\<rparr>"

lemma with_queue_simps [simp]:
  "with_queue r (with_queue r' q) = with_queue r q" "resp_queue (link (with_queue r q)) = r"
  "pending_buf (with_queue r q) = pending_buf q" "sim_st (link (with_queue r q)) = sim_st (link q)"
  "raw_remaining (link (with_queue r q)) = raw_remaining (link q)"
  by (simp_all add: with_queue_def)

lemma sim_env_read:
  assumes "sim_env E" "pending_buf q = None"
  shows "qdl_read (env_tr E) q n t = (case sim_read (link q) n of (r, d) \<Rightarrow> (r, q\<lparr>link := d\<rparr>))"
  using assms by (auto simp: sim_env_def qdl_read_def sim_transport_def)

text \<open>One message of the queue, and the end of the queue.\<close>

lemma read_turn:
  assumes "sim_env E" "pending_buf q = None" "resp_queue (link q) = m # rest" "is_message E (m, node)" "length m \<le> 4095"
    "unmarked node" "parser data node False = (ret, data', raw)"
  shows "firehose_read_loop (Suc fu) E dl parser resp data q =
    (if raw then Some (next_resp ret resp, data', with_queue rest q)
     else firehose_read_loop fu E dl parser (next_resp ret resp) data' (with_queue rest q))"
proof -
  have rd: "qdl_read (env_tr E) q 4095 100 = (Inr m, with_queue rest q)"
    using sim_env_read [OF assms(1,2)] assms(3,5) by (simp add: sim_read_def with_queue_def Let_def)
  have ne: "m \<noteq> []" using assms(4) whole_nonempty by (auto simp: is_message_def)
  have nd: "next_document m = Some (m, [])"
    using assms(4) unfolding is_message_def whole_document_def by (metis append_Nil2 fst_conv)
  have e: "read_walk E parser [] r d x = (Inr (r, False), d, x)" for r d x
    by (subst read_walk.simps) (simp add: next_ack)
  have w: "read_walk E parser m resp data x = (Inr (next_resp ret resp, raw), data', x)" for x
    using assms(4,6,7) by (subst read_walk.simps)
      (simp add: nd is_message_def unmarked_def e next_resp_def Let_def qdl_push_back_def)
  show ?thesis by (simp add: rd ne w)
qed

lemma read_end:
  assumes "sim_env E" "pending_buf q = None" "resp_queue (link q) = []" "sim_st (link q) \<noteq> SIM_STATE_RAW_OUT" "resp \<ge> 0"
  shows "firehose_read_loop (Suc fu) E dl parser resp data q = Some (resp, data, q)"
  using sim_env_read [OF assms(1,2)] assms(3-5) by (simp add: sim_read_def)

text \<open>What the simulator's messages mean to the two parsers.\<close>

lemma find_sub_first: "p \<noteq> [] \<Longrightarrow> hd p \<notin> set xs \<Longrightarrow> find_sub p xs = None"
  by (induction xs) (auto simp: neq_Nil_conv)

abbreviation log_node :: "string \<Rightarrow> xml_node" where
  "log_node h \<equiv> ex_node ''log'' [(''value'', ''INFO: Calling handler for '' @ h)]"

lemma log_unmarked: "h \<in> set sim_handlers \<Longrightarrow> unmarked (log_node h)"
proof -
  have "list_all (\<lambda>h. CHR ''V'' \<notin> set h) sim_handlers" by code_simp
  moreover assume "h \<in> set sim_handlers"
  ultimately have "CHR ''V'' \<notin> set h" by (auto simp: list_all_iff)
  then have "find_sub VIP_PROGRAMMER_MARKER (''INFO: Calling handler for '' @ h) = None"
    by (intro find_sub_first) auto
  then show ?thesis by (simp add: unmarked_def firehose_check_vip_marker_def ex_node_def)
qed

lemma response_unmarked: "unmarked (ex_node ''response'' attrs)"
  by (simp add: unmarked_def firehose_check_vip_marker_def ex_node_def)

lemma generic_parses:
  "firehose_generic_parser d (log_node h) False = (- EAGAIN, d, False)"
  "firehose_generic_parser d (ex_node ''response'' [(''value'', ''ACK''), (''rawmode'', ''false'')]) False = (0, d, False)"
  "firehose_generic_parser d (ex_node ''response'' [(''value'', ''ACK''), (''rawmode'', ''true'')]) False = (0, d, True)"
  by (simp_all add: firehose_generic_parser_def ex_node_def FIREHOSE_ACK_def)

lemma configure_parses:
  "firehose_configure_response_parser d (log_node h) False = (- EAGAIN, d, False)"
  "firehose_configure_response_parser d (ex_node ''response''
     [(''value'', ''ACK''), (''MemoryName'', ''ufs''), (''MinVersionSupported'', ''1''), (''Version'', ''1''),
      (''MaxPayloadSizeToTargetInBytes'', ''1048576''), (''MaxPayloadSizeToTargetInBytesSupported'', ''1048576''),
      (''MaxXMLSizeInBytes'', ''4096'')]) False = (0, 1048576, False)"
proof -
  have "scan_number 10 ''1048576'' = Some (False, 1048576, [])"
    by (simp add: scan_number_def scan_sign_def scan_prefix_def c_isspace_def Let_def digit_val_def c_isdigit_def c_isxdigit_def)
  then have "unat (strtoul_val 10 ''1048576'') = 1048576" by (simp add: c_strtoul_def ulong_max_def)
  then show "firehose_configure_response_parser d (ex_node ''response''
     [(''value'', ''ACK''), (''MemoryName'', ''ufs''), (''MinVersionSupported'', ''1''), (''Version'', ''1''),
      (''MaxPayloadSizeToTargetInBytes'', ''1048576''), (''MaxPayloadSizeToTargetInBytesSupported'', ''1048576''),
      (''MaxXMLSizeInBytes'', ''4096'')]) False = (0, 1048576, False)"
    by (simp add: firehose_configure_response_parser_def ex_node_def FIREHOSE_ACK_def)
qed (simp add: firehose_configure_response_parser_def ex_node_def)

text \<open>The responses to a request, as one wait sees them.\<close>

lemma sim_messages:
  assumes "sim_env E"
  shows "h \<in> set sim_handlers \<Longrightarrow> is_message E (sim_log_text h, log_node h)"
    "is_message E (SIM_ACK, ex_node ''response'' [(''value'', ''ACK''), (''rawmode'', ''false'')])"
    "is_message E (SIM_ACK_RAWMODE, ex_node ''response'' [(''value'', ''ACK''), (''rawmode'', ''true'')])"
    "is_message E (SIM_CONFIGURE_ACK, ex_node ''response''
       [(''value'', ''ACK''), (''MemoryName'', ''ufs''), (''MinVersionSupported'', ''1''), (''Version'', ''1''),
        (''MaxPayloadSizeToTargetInBytes'', ''1048576''), (''MaxPayloadSizeToTargetInBytesSupported'', ''1048576''),
        (''MaxXMLSizeInBytes'', ''4096'')])"
  using assms sim_log_texts [of h] sim_texts by (auto simp: sim_env_def sim_xml_env_def intro!: sim_message)

lemma EAGAIN_neg: "\<not> 0 \<le> - EAGAIN"
  by simp

lemma recv_log_ack:
  assumes "sim_env E" "pending_buf q = None" "h \<in> set sim_handlers" "2 < fuel"
  shows "resp_queue (link q) = [sim_log_text h, SIM_ACK] \<Longrightarrow> sim_st (link q) \<noteq> SIM_STATE_RAW_OUT \<Longrightarrow>
      firehose_read_loop fuel E dl firehose_generic_parser resp () q = Some (0, (), with_queue [] q)"
    and "resp_queue (link q) = [sim_log_text h, SIM_ACK_RAWMODE] \<Longrightarrow>
      firehose_read_loop fuel E dl firehose_generic_parser resp () q = Some (0, (), with_queue [] q)"
    and "resp_queue (link q) = [sim_log_text h, SIM_CONFIGURE_ACK] \<Longrightarrow> sim_st (link q) \<noteq> SIM_STATE_RAW_OUT \<Longrightarrow>
      firehose_read_loop fuel E dl firehose_configure_response_parser resp sz q = Some (0, 1048576, with_queue [] q)"
    and "resp_queue (link q) = [SIM_ACK] \<Longrightarrow> sim_st (link q) \<noteq> SIM_STATE_RAW_OUT \<Longrightarrow>
      firehose_read_loop fuel E dl firehose_generic_parser resp () q = Some (0, (), with_queue [] q)"
proof -
  obtain fu where fu: "fuel = Suc (Suc (Suc fu))" using assms(4) by (metis Suc_lessE gr0_implies_Suc less_Suc_eq_0_disj not_less_eq numeral_2_eq_2)
  note M = sim_messages [OF assms(1)]
  note G = read_turn [where parser = firehose_generic_parser and node = "log_node h", OF assms(1) _ _ M(1) [OF assms(3)] _
      log_unmarked [OF assms(3)] generic_parses(1)]
  note C = read_turn [where parser = firehose_configure_response_parser and node = "log_node h", OF assms(1) _ _
      M(1) [OF assms(3)] _ log_unmarked [OF assms(3)] configure_parses(1)]
  note A = read_turn [where parser = firehose_generic_parser and m = SIM_ACK, OF assms(1) _ _ M(2) _ response_unmarked generic_parses(2)]
  note R = read_turn [where parser = firehose_generic_parser and m = SIM_ACK_RAWMODE, OF assms(1) _ _ M(3) _ response_unmarked generic_parses(3)]
  note K = read_turn [where parser = firehose_configure_response_parser and m = SIM_CONFIGURE_ACK,
      OF assms(1) _ _ M(4) _ response_unmarked configure_parses(2)]
  note T = sim_texts sim_log_texts [OF assms(3)]
  show "resp_queue (link q) = [sim_log_text h, SIM_ACK] \<Longrightarrow> sim_st (link q) \<noteq> SIM_STATE_RAW_OUT \<Longrightarrow>
      firehose_read_loop fuel E dl firehose_generic_parser resp () q = Some (0, (), with_queue [] q)"
    unfolding fu using assms(2) T
    by (simp add: G A
        read_end [OF assms(1)] next_resp_def EAGAIN_neg del: firehose_read_loop.simps)
  show "resp_queue (link q) = [sim_log_text h, SIM_ACK_RAWMODE] \<Longrightarrow>
      firehose_read_loop fuel E dl firehose_generic_parser resp () q = Some (0, (), with_queue [] q)"
    unfolding fu using assms(2) T
    by (simp add: G R
        next_resp_def EAGAIN_neg del: firehose_read_loop.simps)
  show "resp_queue (link q) = [sim_log_text h, SIM_CONFIGURE_ACK] \<Longrightarrow> sim_st (link q) \<noteq> SIM_STATE_RAW_OUT \<Longrightarrow>
      firehose_read_loop fuel E dl firehose_configure_response_parser resp sz q = Some (0, 1048576, with_queue [] q)"
    unfolding fu using assms(2) T
    by (simp add: C K
        read_end [OF assms(1)] next_resp_def EAGAIN_neg del: firehose_read_loop.simps)
  show "resp_queue (link q) = [SIM_ACK] \<Longrightarrow> sim_st (link q) \<noteq> SIM_STATE_RAW_OUT \<Longrightarrow>
      firehose_read_loop fuel E dl firehose_generic_parser resp () q = Some (0, (), with_queue [] q)"
    unfolding fu using assms(2) T
    by (simp add: A
        read_end [OF assms(1)] next_resp_def del: firehose_read_loop.simps)
qed

subsection \<open>Requests to the simulator\<close>

text \<open>
  A session on a simulated device without VIP: sector size, the responses still queued, the
  simulator's state and, in a raw state, the bytes due.
\<close>

definition dry :: "nat \<Rightarrow> u8 list list \<Rightarrow> sim_state \<Rightarrow> nat \<Rightarrow> qdl_device_sim fh \<Rightarrow> bool" where
  "dry S queue st rem s \<longleftrightarrow>
     novip (fh_dev s) \<and> \<not> programmer_requires_vip (vip_data (fh_dev s)) \<and> pending_buf (fh_dev s) = None \<and> dev_type (fh_dev s) = QDL_DEVICE_SIM
     \<and> max_payload_size (fh_dev s) = 1048576 \<and> skipblock (fh_dev s) = QDL_SKIPBLOCK_NONE \<and> sector_size (fh_dev s) = S
     \<and> host_ok (fh_host s) \<and> (\<forall>p n. h_write (fh_host s) p n = int n)
     \<and> resp_queue (link (fh_dev s)) = queue \<and> sim_st (link (fh_dev s)) = st
     \<and> (st \<noteq> SIM_STATE_XML \<longrightarrow> raw_remaining (link (fh_dev s)) = rem)"

lemma host_ok_same: "same_outside UNIV h h' \<Longrightarrow> host_ok h' = host_ok h \<and> h_write h' = h_write h"
  by (auto simp: same_outside_def host_ok_def)

lemma store_same: "vip_gen_chunk_store g h = (g', h') \<Longrightarrow> same_outside UNIV h h'"
  by (auto simp: vip_gen_chunk_store_def Let_def dest: f_write_outside split: option.splits if_splits prod.splits bool.splits)

lemma sim_env_send:
  assumes "sim_env E"
  obtains v where "\<not> sending_table v"
    "\<And>buf t s. fh_send E buf t s = Some (int (length buf),
        s\<lparr>fh_dev := (fh_dev s)\<lparr>link := snd (sim_write (env_xml E) v (link (fh_dev s)) buf)\<rparr>\<rparr>)"
  using assms by (auto simp: sim_env_def fh_send_def qdl_write_def sim_transport_def sim_write_def)

lemma command_cong:
  "command_part s = command_part s' \<Longrightarrow> command_part (sim_command c s) = command_part (sim_command c s')"
  by (auto simp: command_part_def sim_command_def sim_transfer_def sim_enqueue_log_def sim_enqueue_def Let_def)

text \<open>What input and output leave alone beside the device state.\<close>

definition calm :: "qdl_device_sim fh \<Rightarrow> qdl_device_sim fh \<Rightarrow> bool" where
  "calm s s' \<longleftrightarrow> fh_stats s' = fh_stats s \<and> fh_gpt s' = fh_gpt s
     \<and> current_storage_type (fh_dev s') = current_storage_type (fh_dev s)
     \<and> (sim_closed (link (fh_dev s)) \<longrightarrow> sim_closed (link (fh_dev s')))"

lemma calm_trans: "calm s s1 \<Longrightarrow> calm s1 s2 \<Longrightarrow> calm s s2"
  by (simp add: calm_def)

lemma sbind_run: "m s = Some (a, s1) \<Longrightarrow> sbind m f s = f a s1"
  by (simp add: sbind_def)

lemma closed_command: "sim_closed s \<Longrightarrow> sim_closed (sim_command c s)"
  by (simp add: sim_command_def sim_transfer_def sim_enqueue_log_def sim_enqueue_def Let_def)

text \<open>A request outside raw data goes out once, and the simulator has dispatched it.\<close>

lemma dry_write:
  assumes "sim_env E" "dry S queue st rem s" "st \<noteq> SIM_STATE_RAW_IN" "env_xml E buf = Some (sim_doc tag attrs)" "0 < fuel"
    "command_part (sim_command (ex_node tag attrs) (link (fh_dev s))) = (c, queue', st', rem', cl)"
  shows "\<exists>s1. firehose_write fuel E buf s = Some (0, s1) \<and> dry S queue' st' rem' s1 \<and> calm s s1
    \<and> sim_closed (link (fh_dev s1)) = cl"
proof -
  obtain fu where fu: "fuel = Suc fu" using assms(5) by (cases fuel) auto
  obtain v where v: "\<not> sending_table v"
    "\<And>buf t s. fh_send E buf t s = Some (int (length buf),
        s\<lparr>fh_dev := (fh_dev s)\<lparr>link := snd (sim_write (env_xml E) v (link (fh_dev s)) buf)\<rparr>\<rparr>)"
    using sim_env_send [OF assms(1)] by blast
  note D = assms(2) [unfolded dry_def]
  let ?l = "snd (sim_write (env_xml E) v (link (fh_dev s)) buf)"
  have "?l = sim_command (ex_node tag attrs) (sim_vip_check_chunk buf (link (fh_dev s)))"
    using v(1) D assms(3,4) by (simp add: sim_write_def sim_xml_def sim_doc_def ex_node_def)
  then have cp: "command_part ?l = (c, queue', st', rem', cl)"
    using command_cong [OF command_part_check] assms(6) by simp
  define g where "g = vip_gen_chunk_update (vip_gen_chunk_init (fh_gen s)) buf"
  obtain g' h' where st: "vip_gen_chunk_store g (fh_host s) = (g', h')" by fastforce
  have w: "firehose_write fuel E buf s
      = Some (0, s\<lparr>fh_gen := g', fh_host := h', fh_dev := (fh_dev s)\<lparr>link := ?l\<rparr>\<rparr>)"
    using send_table_novip [of s fuel E] D st
    by (simp add: fu firehose_write_def sbind_def sret_def fh_chunk_init_def fh_chunk_update_def fh_chunk_store_def
        v(2) g_def)
  have "dry S queue' st' rem' (s\<lparr>fh_gen := g', fh_host := h', fh_dev := (fh_dev s)\<lparr>link := ?l\<rparr>\<rparr>)"
    using D cp host_ok_same [OF store_same [OF st]] by (simp add: dry_def novip_def command_part_def)
  moreover have "sim_closed ?l = cl" "sim_closed (link (fh_dev s)) \<longrightarrow> cl"
    using cp assms(6) closed_command [of "link (fh_dev s)" "ex_node tag attrs"] by (auto simp: command_part_def)
  ultimately show ?thesis using w by (auto simp: calm_def)
qed

lemma dry_with_queue:
  "dry S queue st rem s \<Longrightarrow> dry S queue' st rem (s\<lparr>fh_dev := with_queue queue' (fh_dev s)\<rparr>)"
  by (simp add: dry_def with_queue_def novip_def)

text \<open>Waiting for the answer to a request.\<close>

lemma recv_loop:
  assumes "firehose_read_loop fuel E (env_clock E (link (fh_dev s)) + 1000 * t) parser (- EIO) data (fh_dev s)
      = Some (r, d, with_queue [] (fh_dev s))"
  shows "fh_recv fuel E t parser data s = Some ((r, d), s\<lparr>fh_dev := with_queue [] (fh_dev s)\<rparr>)"
  using assms by (simp add: fh_recv_def firehose_read_def)

lemma dry_recv:
  assumes "sim_env E" "2 < fuel"
  shows "dry S [sim_log_text h, SIM_ACK] st rem s \<Longrightarrow> h \<in> set sim_handlers \<Longrightarrow> st \<noteq> SIM_STATE_RAW_OUT \<Longrightarrow>
      \<exists>s1. fh_recv_generic fuel E t s = Some (0, s1) \<and> dry S [] st rem s1 \<and> calm s s1"
    and "dry S [sim_log_text h, SIM_ACK_RAWMODE] st rem s \<Longrightarrow> h \<in> set sim_handlers \<Longrightarrow>
      \<exists>s1. fh_recv_generic fuel E t s = Some (0, s1) \<and> dry S [] st rem s1 \<and> calm s s1"
    and "dry S [SIM_ACK] st rem s \<Longrightarrow> st \<noteq> SIM_STATE_RAW_OUT \<Longrightarrow>
      \<exists>s1. fh_recv_generic fuel E t s = Some (0, s1) \<and> dry S [] st rem s1 \<and> calm s s1"
    and "dry S [sim_log_text ''configure'', SIM_CONFIGURE_ACK] st rem s \<Longrightarrow> st \<noteq> SIM_STATE_RAW_OUT \<Longrightarrow>
      \<exists>s1. fh_recv fuel E t firehose_configure_response_parser sz s = Some ((0, 1048576), s1) \<and> dry S [] st rem s1 \<and> calm s s1"
proof -
  have cq: "calm s (s\<lparr>fh_dev := with_queue [] (fh_dev s)\<rparr>)" by (simp add: calm_def with_queue_def)
  have hc: "''configure'' \<in> set sim_handlers" by (simp add: sim_handlers_def)
  have pb: "dry S q st rem s \<Longrightarrow> pending_buf (fh_dev s) = None \<and> resp_queue (link (fh_dev s)) = q \<and> sim_st (link (fh_dev s)) = st" for q
    by (simp add: dry_def)
  note G = fh_recv_generic_def sbind_def sret_def
  show "dry S [sim_log_text h, SIM_ACK] st rem s \<Longrightarrow> h \<in> set sim_handlers \<Longrightarrow> st \<noteq> SIM_STATE_RAW_OUT \<Longrightarrow>
      \<exists>s1. fh_recv_generic fuel E t s = Some (0, s1) \<and> dry S [] st rem s1 \<and> calm s s1"
    using recv_loop [OF recv_log_ack(1) [OF assms(1) _ _ assms(2)]] dry_with_queue pb cq by (simp add: G)
  show "dry S [sim_log_text h, SIM_ACK_RAWMODE] st rem s \<Longrightarrow> h \<in> set sim_handlers \<Longrightarrow>
      \<exists>s1. fh_recv_generic fuel E t s = Some (0, s1) \<and> dry S [] st rem s1 \<and> calm s s1"
    using recv_loop [OF recv_log_ack(2) [OF assms(1) _ _ assms(2)]] dry_with_queue pb cq by (simp add: G)
  show "dry S [SIM_ACK] st rem s \<Longrightarrow> st \<noteq> SIM_STATE_RAW_OUT \<Longrightarrow>
      \<exists>s1. fh_recv_generic fuel E t s = Some (0, s1) \<and> dry S [] st rem s1 \<and> calm s s1"
    using recv_loop [OF recv_log_ack(4) [OF assms(1) _ hc assms(2)]] dry_with_queue pb cq by (simp add: G)
  show "dry S [sim_log_text ''configure'', SIM_CONFIGURE_ACK] st rem s \<Longrightarrow> st \<noteq> SIM_STATE_RAW_OUT \<Longrightarrow>
      \<exists>s1. fh_recv fuel E t firehose_configure_response_parser sz s = Some ((0, 1048576), s1) \<and> dry S [] st rem s1 \<and> calm s s1"
    using recv_loop [OF recv_log_ack(3) [OF assms(1) _ hc assms(2)]] dry_with_queue pb cq by simp
qed

text \<open>A request with a plain answer.\<close>

definition plain_tags :: "string list" where
  "plain_tags = [''erase'', ''patch'', ''setbootablestoragedrive'', ''power'', ''ufs'']"

lemma xml_doc_env: "sim_env E \<Longrightarrow> distinct (map fst attrs) \<Longrightarrow> env_xml E (fh_doc E tag attrs) = Some (sim_doc tag (map (\<lambda>(a, v). (a, take 127 v)) attrs))"
  by (simp add: sim_env_def sim_xml_env_def fh_doc_def case_prod_unfold comp_def)

lemma plain_command:
  assumes "tag \<in> set plain_tags"
  shows "command_part (sim_command (ex_node tag attrs) l)
    = (create_digests l, resp_queue l @ [sim_log_text tag, SIM_ACK], sim_st l, raw_remaining l, sim_closed l \<or> tag = ''power'')"
  using assms by (auto simp: plain_tags_def sim_command_def command_part_def ex_node_def sim_enqueue_log_def sim_enqueue_def Let_def)

lemma plain_exchange:
  assumes "sim_env E" "dry S [] SIM_STATE_XML rem s" "tag \<in> set plain_tags" "distinct (map fst attrs)" "2 < fuel"
  shows "\<exists>s1 s2. firehose_write fuel E (fh_doc E tag attrs) s = Some (0, s1) \<and> fh_recv_generic fuel E t s1 = Some (0, s2)
    \<and> dry S [] SIM_STATE_XML rem s2 \<and> calm s s2 \<and> (tag = ''power'' \<longrightarrow> sim_closed (link (fh_dev s2)))"
proof -
  have f0: "0 < fuel" using assms(5) by simp
  have h: "tag \<in> set sim_handlers" using assms(3) by (auto simp: plain_tags_def sim_handlers_def)
  define cl where "cl \<longleftrightarrow> sim_closed (link (fh_dev s)) \<or> tag = ''power''"
  have cp: "command_part (sim_command (ex_node tag (map (\<lambda>(a, v). (a, take 127 v)) attrs)) (link (fh_dev s)))
      = (create_digests (link (fh_dev s)), [sim_log_text tag, SIM_ACK], SIM_STATE_XML, raw_remaining (link (fh_dev s)), cl)"
    using plain_command [OF assms(3), of "map (\<lambda>(a, v). (a, take 127 v)) attrs" "link (fh_dev s)"] assms(2)
    by (auto simp: dry_def cl_def)
  obtain s1 where s1: "firehose_write fuel E (fh_doc E tag attrs) s = Some (0, s1)"
      "dry S [sim_log_text tag, SIM_ACK] SIM_STATE_XML (raw_remaining (link (fh_dev s))) s1" "calm s s1" "sim_closed (link (fh_dev s1)) = cl"
    using dry_write [OF assms(1,2) _ xml_doc_env [OF assms(1,4)] f0 cp] by blast
  then have "dry S [sim_log_text tag, SIM_ACK] SIM_STATE_XML rem s1" by (simp add: dry_def)
  then obtain s2 where "fh_recv_generic fuel E t s1 = Some (0, s2)" "dry S [] SIM_STATE_XML rem s2" "calm s1 s2"
    using dry_recv(1) [OF assms(1,5) _ h] by blast
  then show ?thesis using s1 calm_trans by (fastforce simp: cl_def calm_def)
qed

subsection \<open>Raw data\<close>

text \<open>The sources a program streams from: a readable file or a pattern as long as the payload.\<close>

definition streams :: "u8 list option \<Rightarrow> qdl_file \<Rightarrow> bool" where
  "streams fill f \<longleftrightarrow> (case fill of None \<Rightarrow> readable f | Some pat \<Rightarrow> length pat = 1048576)"

lemma streams_chunk:
  assumes "streams fill f" "n \<le> 1048576"
  shows "\<exists>buf f'. chunk_data fill f n = (Some buf, f') \<and> length buf = n \<and> streams fill f'"
proof (cases fill)
  case None
  then show ?thesis using assms chunk_data_file [of f n] by (auto simp: streams_def)
next
  case (Some pat)
  then show ?thesis using assms by (simp add: streams_def chunk_data_def)
qed

lemma dry_packet:
  assumes "sim_env E" "dry S [] SIM_STATE_RAW_IN rem s" "0 < rem" "length buf \<le> rem"
  shows "\<exists>s1. sbind fh_chunk_init (\<lambda>_. sbind (fh_chunk_update buf) (\<lambda>_. sbind (send_packet fuel E buf t) (\<lambda>ret.
        if ret \<noteq> 0 then sret (-1) else sbind fh_chunk_store (\<lambda>_. sret (0 :: int))))) s = Some (0, s1) \<and> calm s s1
     \<and> (if length buf = rem then dry S [SIM_ACK] SIM_STATE_XML 0 s1 else dry S [] SIM_STATE_RAW_IN (rem - length buf) s1)"
proof -
  obtain v where v: "\<not> sending_table v"
    "\<And>buf t s. fh_send E buf t s = Some (int (length buf),
        s\<lparr>fh_dev := (fh_dev s)\<lparr>link := snd (sim_write (env_xml E) v (link (fh_dev s)) buf)\<rparr>\<rparr>)"
    using sim_env_send [OF assms(1)] by blast
  note D = assms(2) [unfolded dry_def]
  let ?l = "snd (sim_write (env_xml E) v (link (fh_dev s)) buf)"
  have l: "?l = sim_raw_in (length buf) (sim_vip_check_chunk buf (link (fh_dev s)))"
    using v(1) D by (simp add: sim_write_def)
  define g where "g = vip_gen_chunk_update (vip_gen_chunk_init (fh_gen s)) buf"
  obtain g' h' where st: "vip_gen_chunk_store g (fh_host s) = (g', h')" by fastforce
  define s1 where "s1 = s\<lparr>fh_gen := g', fh_host := h', fh_dev := (fh_dev s)\<lparr>link := ?l\<rparr>\<rparr>"
  have nv: "firehose_vip_send_table fuel E (s\<lparr>fh_gen := g\<rparr>) = Some (0, s\<lparr>fh_gen := g\<rparr>)"
    using D by (intro send_table_novip) simp
  have run: "sbind fh_chunk_init (\<lambda>_. sbind (fh_chunk_update buf) (\<lambda>_. sbind (send_packet fuel E buf t) (\<lambda>ret.
        if ret \<noteq> 0 then sret (-1) else sbind fh_chunk_store (\<lambda>_. sret (0 :: int))))) s = Some (0, s1)"
    using nv st by (simp add: sbind_def sret_def fh_chunk_init_def fh_chunk_update_def send_packet_def v(2) fh_chunk_store_def s1_def g_def)
  have cp: "command_part (sim_vip_check_chunk buf (link (fh_dev s))) = command_part (link (fh_dev s))" by simp
  have "if length buf = rem then dry S [SIM_ACK] SIM_STATE_XML 0 s1 else dry S [] SIM_STATE_RAW_IN (rem - length buf) s1"
    using D cp host_ok_same [OF store_same [OF st]] assms(3,4)
    by (simp add: dry_def s1_def l sim_raw_in_def sim_enqueue_def command_part_def novip_def)
  moreover have "sim_closed ?l = sim_closed (link (fh_dev s))"
    using cp by (simp add: l sim_raw_in_def sim_enqueue_def command_part_def)
  ultimately show ?thesis using run by (auto simp: s1_def calm_def)
qed

lemma stream_turn:
  assumes "chunk_data fill f n = (Some buf, f')"
  shows "sbind fh_chunk_init (\<lambda>_. case chunk_data fill f n of
            (None, f') \<Rightarrow> sret (-1, f')
          | (Some buf, f') \<Rightarrow> sbind (fh_chunk_update buf) (\<lambda>_. sbind (send_packet fuel E buf t) (\<lambda>ret.
                if ret \<noteq> 0 then sret (-1, f') else sbind fh_chunk_store (\<lambda>_. k f'))))
    = sbind (sbind fh_chunk_init (\<lambda>_. sbind (fh_chunk_update buf) (\<lambda>_. sbind (send_packet fuel E buf t) (\<lambda>ret.
             if ret \<noteq> 0 then sret (-1) else sbind fh_chunk_store (\<lambda>_. sret (0 :: int))))))
        (\<lambda>ret. if ret \<noteq> 0 then sret (-1, f') else k f')"
  using assms by (auto simp: sbind_def sret_def fh_chunk_init_def fh_chunk_update_def fh_chunk_store_def fun_eq_iff
      split: option.splits prod.splits)

lemma dry_stream:
  "sim_env E \<Longrightarrow> dry S [] SIM_STATE_RAW_IN (left * ss) s \<Longrightarrow> streams fill f \<Longrightarrow> 0 < ss \<Longrightarrow> ss \<le> 1048576 \<Longrightarrow> 0 < left \<Longrightarrow>
   left < fuel \<Longrightarrow>
   \<exists>f' s1. firehose_stream_out fuel E fill ss t left f s = Some ((0, f'), s1) \<and> dry S [SIM_ACK] SIM_STATE_XML 0 s1 \<and> calm s s1"
proof (induction fuel arbitrary: left f s)
  case (Suc fuel)
  define k where "k = min (1048576 div ss) left"
  have k1: "0 < k" using Suc.prems(4-6) by (simp add: k_def div_greater_zero_iff)
  have kle: "k * ss \<le> 1048576"
  proof -
    have "k * ss \<le> (1048576 div ss) * ss" by (rule mult_le_mono1) (simp add: k_def)
    also have "\<dots> \<le> 1048576" by simp
    finally show ?thesis .
  qed
  obtain buf f1 where c: "chunk_data fill f (k * ss) = (Some buf, f1)" "length buf = k * ss" "streams fill f1"
    using streams_chunk [OF Suc.prems(3) kle] by blast
  have mp: "max_payload_size (fh_dev s) = 1048576" using Suc.prems(2) by (simp add: dry_def)
  have kl: "k \<le> left" by (simp add: k_def)
  have rem: "0 < left * ss" "length buf \<le> left * ss" using Suc.prems(4,6) c(2) kl by simp_all
  obtain s1 where s1: "sbind fh_chunk_init (\<lambda>_. sbind (fh_chunk_update buf) (\<lambda>_. sbind (send_packet fuel E buf t) (\<lambda>ret.
        if ret \<noteq> 0 then sret (-1) else sbind fh_chunk_store (\<lambda>_. sret (0 :: int))))) s = Some (0, s1)" "calm s s1"
      "if length buf = left * ss then dry S [SIM_ACK] SIM_STATE_XML 0 s1 else dry S [] SIM_STATE_RAW_IN (left * ss - length buf) s1"
    using dry_packet [OF Suc.prems(1,2) rem] by blast
  let ?k = "\<lambda>f'. firehose_stream_out fuel E fill ss t (left - k) f'"
  have "firehose_stream_out (Suc fuel) E fill ss t left f s
      = sbind fh_chunk_init (\<lambda>_. case chunk_data fill f (k * ss) of
            (None, f') \<Rightarrow> sret (-1, f')
          | (Some buf, f') \<Rightarrow> sbind (fh_chunk_update buf) (\<lambda>_. sbind (send_packet fuel E buf t) (\<lambda>ret.
                if ret \<noteq> 0 then sret (-1, f') else sbind fh_chunk_store (\<lambda>_. ?k f')))) s"
    using Suc.prems(6) by (simp add: mp k_def [symmetric] Let_def)
  also have "\<dots> = ?k f1 s1"
    unfolding stream_turn [OF c(1)] by (subst sbind_run, rule s1(1)) simp
  finally have run: "firehose_stream_out (Suc fuel) E fill ss t left f s = ?k f1 s1" .
  show ?case
  proof (cases "k = left")
    case True
    obtain fu where fu: "fuel = Suc fu" using Suc.prems(6,7) by (cases fuel) auto
    have "dry S [SIM_ACK] SIM_STATE_XML 0 s1" using s1(3) c(2) True by simp
    then show ?thesis unfolding run using True s1(2) by (simp add: fu)
  next
    case False
    have ne: "k * ss \<noteq> left * ss" using False Suc.prems(4) by simp
    have "dry S [] SIM_STATE_RAW_IN ((left - k) * ss) s1"
      using s1(3) c(2) ne by (simp add: diff_mult_distrib)
    moreover have "0 < left - k" "left - k < fuel" using False kl k1 Suc.prems(7) by linarith+
    ultimately obtain f' s2 where "firehose_stream_out fuel E fill ss t (left - k) f1 s1 = Some ((0, f'), s2)"
        "dry S [SIM_ACK] SIM_STATE_XML 0 s2" "calm s1 s2"
      using Suc.IH [OF Suc.prems(1) _ c(3) Suc.prems(4,5), of "left - k" s1] by blast
    then show ?thesis unfolding run using s1(2) calm_trans by blast
  qed
qed simp

subsection \<open>The attributes of a transfer\<close>

lemma scan_digits_dec: "scan_digits 10 0 0 (show_dec n) = (length (show_dec n), n, [])"
  using scan_show_dec [of "[]" n] by (simp add: no_digit_def)

lemma ucast_of_int: "(ucast (word_of_int i :: u64) :: u32) = word_of_int i"
  by transfer simp

lemma strtoul_fmt_d: "ucast (strtoul_val 10 (fmt_d w)) = w"
proof (cases "0 \<le> int_of_u32 w")
  case True
  have "nat (int_of_u32 w) < 2 ^ 31" using sint_lt [of w] True by (simp add: int_of_u32_def)
  then have "strtoul_val 10 (fmt_d w) = of_nat (nat (int_of_u32 w))"
    using True c_strtoul_dec [of "nat (int_of_u32 w)" "[]"] by (simp add: show_int_def no_digit_def)
  also have "\<dots> = word_of_int (sint w)" using True by (simp add: int_of_u32_def)
  finally show ?thesis using ucast_of_int [of "sint w"] by simp
next
  case False
  let ?n = "nat (- int_of_u32 w)"
  have small: "?n \<le> 2 ^ 31" using sint_ge [of w] by (simp add: int_of_u32_def)
  have sc: "scan_number 10 (CHR ''-'' # show_dec ?n) = Some (True, ?n, [])"
    using scan_digits_dec [of ?n] show_dec_nonempty [of ?n]
    by (simp add: scan_number_def scan_sign_def scan_prefix_def c_isspace_def Let_def)
  then have "strtoul_val 10 (fmt_d w) = - of_nat ?n"
    using False small by (simp add: show_int_def c_strtoul_def ulong_max_def)
  also have "\<dots> = word_of_int (sint w)" using False by (simp add: int_of_u32_def)
  finally show ?thesis using ucast_of_int [of "sint w"] by simp
qed

lemma fmt_d_short: "take 127 (fmt_d w) = fmt_d w"
proof -
  have "nat \<bar>int_of_u32 w\<bar> < 10 ^ Suc 10" using sint_ge [of w] sint_lt [of w] by (simp add: int_of_u32_def nat_less_iff)
  from show_dec_length [OF this] show ?thesis by (simp add: show_int_def abs_if split: if_splits)
qed

lemma uint_attr:
  assumes "map_of attrs a = Some (fmt_d w)"
  shows "sim_get_uint_attr (ex_node tag (map (\<lambda>(a, v). (a, take 127 v)) attrs)) a = w"
proof -
  have "map_of (map (\<lambda>(a, v). (a, take 127 v)) attrs) a = Some (fmt_d w)"
    using assms by (simp add: map_of_map fmt_d_short)
  then show ?thesis by (simp add: sim_get_uint_attr_def ex_node_def strtoul_fmt_d)
qed

lemma transfer_command:
  assumes "map_of attrs ''num_partition_sectors'' = Some (fmt_d num)" "map_of attrs ''SECTOR_SIZE_IN_BYTES'' = Some (fmt_d ss)"
    "(tag, st) \<in> {(''program'', SIM_STATE_RAW_IN), (''read'', SIM_STATE_RAW_OUT)}"
  shows "command_part (sim_command (ex_node tag (map (\<lambda>(a, v). (a, take 127 v)) attrs)) l)
    = (create_digests l, resp_queue l @ [sim_log_text tag, SIM_ACK_RAWMODE], st, unat num * unat ss, sim_closed l)"
  using assms uint_attr [OF assms(1)] uint_attr [OF assms(2)]
  by (auto simp: sim_command_def sim_transfer_def command_part_def sim_enqueue_log_def sim_enqueue_def Let_def) (simp_all add: ex_node_def)

text \<open>The request for a transfer and the response that starts it.\<close>

lemma transfer_exchange:
  assumes "sim_env E" "dry S [] SIM_STATE_XML rem s" "2 < fuel" "distinct (map fst attrs)"
    "map_of attrs ''num_partition_sectors'' = Some (fmt_d num)" "map_of attrs ''SECTOR_SIZE_IN_BYTES'' = Some (fmt_d ss)"
    "(tag, st) \<in> {(''program'', SIM_STATE_RAW_IN), (''read'', SIM_STATE_RAW_OUT)}"
  shows "\<exists>s1 s2. firehose_write fuel E (fh_doc E tag attrs) s = Some (0, s1) \<and> fh_recv_generic fuel E t s1 = Some (0, s2)
    \<and> dry S [] st (unat num * unat ss) s2 \<and> calm s s2"
proof -
  have f0: "0 < fuel" using assms(3) by simp
  have h: "tag \<in> set sim_handlers" using assms(7) by (auto simp: sim_handlers_def)
  have cp: "command_part (sim_command (ex_node tag (map (\<lambda>(a, v). (a, take 127 v)) attrs)) (link (fh_dev s)))
      = (create_digests (link (fh_dev s)), [sim_log_text tag, SIM_ACK_RAWMODE], st, unat num * unat ss, sim_closed (link (fh_dev s)))"
    using transfer_command [OF assms(5-7)] assms(2) by (simp add: dry_def)
  obtain s1 where s1: "firehose_write fuel E (fh_doc E tag attrs) s = Some (0, s1)"
      "dry S [sim_log_text tag, SIM_ACK_RAWMODE] st (unat num * unat ss) s1" "calm s s1"
    using dry_write [OF assms(1,2) _ xml_doc_env [OF assms(1,4)] f0 cp] by blast
  then obtain s2 where "fh_recv_generic fuel E t s1 = Some (0, s2)" "dry S [] st (unat num * unat ss) s2" "calm s1 s2"
    using dry_recv(2) [OF assms(1,3) _ h] by blast
  then show ?thesis using s1 calm_trans by blast
qed

end
