(* ===== verification/SimQueue.thy ===== *)
theory SimQueue
  imports SimRun
begin

text \<open>
  The firehose operations of \<open>src/firehose.c\<close> on the simulated device of \<open>src/sim.c\<close>: a dry run of a
  queue whose files can be read goes through to the end.
\<close>

subsection \<open>Each operation of a queue\<close>

text \<open>The counters a run keeps, and what one operation adds to them.\<close>

definition tally :: "firehose_stats \<Rightarrow> nat \<times> nat \<times> nat \<times> nat \<times> nat" where
  "tally st = (st_flashed st, st_skipped st, st_read st, st_erased st, st_patches st)"

definition op_tally :: "firehose_op \<Rightarrow> nat \<times> nat \<times> nat \<times> nat \<times> nat \<Rightarrow> nat \<times> nat \<times> nat \<times> nat \<times> nat" where
  "op_tally op t = (case t of (f, k, r, e, p) \<Rightarrow>
     (case op_type op of
        FIREHOSE_OP_PROGRAM \<Rightarrow> (if op_filename op = None then t else (f + 1, k, r, e, p))
      | FIREHOSE_OP_READ \<Rightarrow> (f, k, r + 1, e, p)
      | FIREHOSE_OP_ERASE \<Rightarrow> (f, k, r, e + 1, p)
      | FIREHOSE_OP_PATCH \<Rightarrow> (if op_filename op = Some ''DISK'' then (f, k, r, e, p + 1) else t)
      | _ \<Rightarrow> t))"

text \<open>
  What an operation needs for its dry run: a known storage type, a file that opens, reads and has
  something to write, sectors of a size up to the payload.
\<close>

definition dry_op :: "file_system \<Rightarrow> nat \<Rightarrow> firehose_op \<Rightarrow> bool" where
  "dry_op fs S op \<longleftrightarrow>
     (let ss = (if op_sector_size op \<noteq> 0 then op_sector_size op else of_nat S); fits = (ss \<noteq> 0 \<and> unat ss \<le> 1048576) in
      case op_type op of
        FIREHOSE_OP_CONFIGURE \<Rightarrow> encode_storage_type (op_storage_type op) \<noteq> None
      | FIREHOSE_OP_PROGRAM \<Rightarrow>
          (case op_filename op of
             None \<Rightarrow> True
           | Some name \<Rightarrow>
               (case qdl_file_open (op_zip op) fs name of
                  None \<Rightarrow> False
                | Some f \<Rightarrow> fits \<and> readable f \<and> program_num_sectors op f ss \<noteq> 0
                    \<and> (op_sparse op \<longrightarrow> op_gpt_partition op = None
                         \<and> op_sparse_chunk_type op \<in> {Some CHUNK_TYPE_RAW, Some CHUNK_TYPE_FILL})))
      | FIREHOSE_OP_READ \<Rightarrow> op_filename op \<noteq> None \<and> fits \<and> op_num_sectors op \<noteq> 0 \<and> op_gpt_partition op = None
      | FIREHOSE_OP_ERASE \<Rightarrow> True
      | FIREHOSE_OP_PATCH \<Rightarrow> True
      | FIREHOSE_OP_SET_BOOTABLE \<Rightarrow> True
      | FIREHOSE_OP_RESET \<Rightarrow> True
      | _ \<Rightarrow> False)"

definition ready :: "nat \<Rightarrow> qdl_device_sim fh \<Rightarrow> bool" where
  "ready S s \<longleftrightarrow> (\<exists>rem. dry S [] SIM_STATE_XML rem s)"

lemma calm_tally: "calm s s' \<Longrightarrow> tally (fh_stats s') = tally (fh_stats s)"
  by (simp add: calm_def)

lemma ready_stats [simp]: "ready S (s\<lparr>fh_stats := x\<rparr>) = ready S s"
  by (simp add: ready_def dry_def)

lemmas exchange_simps = sbind_def sret_def count_stats_def FIREHOSE_ACK_def

lemma distinct_attrs:
  "distinct (map fst (erase_attrs op q))" "distinct (map fst (patch_attrs op q))"
  "distinct (map fst (read_attrs op ss q))" "distinct (map fst (program_attrs op st num ss q @ nand_attrs op))"
  "distinct (map fst (configure_attrs n b m))"
  by (cases "op_filename op"; cases "op_label op"; cases "op_is_nand op"; cases "op_num_sectors op > 0"; cases "slot_id q \<noteq> - 1";
      simp add: erase_attrs_def patch_attrs_def read_attrs_def program_attrs_def nand_attrs_def configure_attrs_def
        slot_attr_def opt_attr_def)+

lemma dry_erase:
  assumes "sim_env E" "ready S s" "2 < fuel"
  shows "\<exists>s'. firehose_erase fuel E op s = Some (0, s') \<and> ready S s'
    \<and> (\<forall>t. t = tally (fh_stats s) \<longrightarrow> (case t of (f, k, r, e, p) \<Rightarrow> tally (fh_stats s') = (f, k, r, e + 1, p)))"
proof -
  obtain rem where "dry S [] SIM_STATE_XML rem s" using assms(2) by (auto simp: ready_def)
  from plain_exchange [OF assms(1) this, of "''erase''" "erase_attrs op (fh_dev s)" fuel 30000] assms(3)
  obtain s1 s2 where x: "firehose_write fuel E (fh_doc E ''erase'' (erase_attrs op (fh_dev s))) s = Some (0, s1)"
      "fh_recv_generic fuel E 30000 s1 = Some (0, s2)" "dry S [] SIM_STATE_XML rem s2" "calm s s2"
    by (auto simp: plain_tags_def distinct_attrs)
  have "ready S s2" using x(3) by (auto simp: ready_def)
  then show ?thesis using x(1,2,4) calm_tally [OF x(4)]
    by (simp add: firehose_erase_def exchange_simps tally_def)
qed

lemma dry_patch:
  assumes "sim_env E" "ready S s" "2 < fuel"
  shows "\<exists>s'. firehose_apply_patch fuel E op s = Some (0, s') \<and> ready S s' \<and> tally (fh_stats s') = tally (fh_stats s)"
proof (cases "op_filename op = Some ''DISK''")
  case True
  obtain rem where "dry S [] SIM_STATE_XML rem s" using assms(2) by (auto simp: ready_def)
  from plain_exchange [OF assms(1) this, of "''patch''" "patch_attrs op (fh_dev s)" fuel 5000] assms(3)
  obtain s1 s2 where x: "firehose_write fuel E (fh_doc E ''patch'' (patch_attrs op (fh_dev s))) s = Some (0, s1)"
      "fh_recv_generic fuel E 5000 s1 = Some (0, s2)" "dry S [] SIM_STATE_XML rem s2" "calm s s2"
    by (auto simp: plain_tags_def distinct_attrs)
  have "ready S s2" using x(3) by (auto simp: ready_def)
  then show ?thesis using x(1,2) calm_tally [OF x(4)] True by (simp add: firehose_apply_patch_def exchange_simps)
qed (use assms in \<open>simp add: firehose_apply_patch_def\<close>)

lemma dry_bootable:
  assumes "sim_env E" "ready S s" "2 < fuel"
  shows "\<exists>r s'. firehose_set_bootable fuel E part s = Some (r, s') \<and> ready S s' \<and> tally (fh_stats s') = tally (fh_stats s)"
proof -
  obtain rem where "dry S [] SIM_STATE_XML rem s" using assms(2) by (auto simp: ready_def)
  from plain_exchange [OF assms(1) this, of "''setbootablestoragedrive''" "[(''value'', show_int part)]" fuel 5000] assms(3)
  obtain s1 s2 where x: "firehose_write fuel E (fh_doc E ''setbootablestoragedrive'' [(''value'', show_int part)]) s = Some (0, s1)"
      "fh_recv_generic fuel E 5000 s1 = Some (0, s2)" "dry S [] SIM_STATE_XML rem s2" "calm s s2"
    by (auto simp: plain_tags_def)
  have "ready S s2" using x(3) by (auto simp: ready_def)
  then show ?thesis using x(1,2) calm_tally [OF x(4)] by (simp add: firehose_set_bootable_def exchange_simps)
qed

text \<open>After a reset the drain read fails at once.\<close>

lemma dry_reset:
  assumes "sim_env E" "ready S s" "2 < fuel"
  shows "\<exists>s'. firehose_reset fuel E s = Some (0, s') \<and> ready S s' \<and> tally (fh_stats s') = tally (fh_stats s)"
proof -
  let ?a = "[(''value'', ''reset''), (''DelayInSeconds'', ''10'')]"
  obtain rem where "dry S [] SIM_STATE_XML rem s" using assms(2) by (auto simp: ready_def)
  from plain_exchange [OF assms(1) this, of "''power''" ?a fuel 5000] assms(3)
  obtain s1 s2 where x: "firehose_write fuel E (fh_doc E ''power'' ?a) s = Some (0, s1)"
      "fh_recv_generic fuel E 5000 s1 = Some (0, s2)" "dry S [] SIM_STATE_XML rem s2" "calm s s2"
      "sim_closed (link (fh_dev s2))"
    by (auto simp: plain_tags_def)
  obtain fu where fu: "fuel = Suc fu" using assms(3) by (cases fuel) auto
  have rd: "qdl_read (env_tr E) (fh_dev s2) 4095 100 = (Inl (- EIO), fh_dev s2)"
    using sim_env_read [OF assms(1), of "fh_dev s2" 4095 100] x(3,5) by (simp add: dry_def sim_read_def)
  have "fh_recv_generic fuel E 1000 s2 = Some (- EIO, s2)"
    using rd by (simp add: fu fh_recv_generic_def fh_recv_def firehose_read_def sbind_def sret_def)
  moreover have "ready S s2" using x(3) by (auto simp: ready_def)
  ultimately show ?thesis using x(1,2) calm_tally [OF x(4)] by (simp add: firehose_reset_def exchange_simps)
qed

lemma readable_seek: "readable f \<Longrightarrow> readable (snd (qdl_file_seek f off wh))"
  by (auto simp: qdl_file_seek_def lseek_def Let_def split: qdl_file_type.split)

lemma dry_stats: "calm s s' \<Longrightarrow> current_storage_type (fh_dev s') = current_storage_type (fh_dev s)"
  by (simp add: calm_def)

lemma source_streams:
  assumes "readable f" "op_sparse op \<longrightarrow> op_sparse_chunk_type op \<in> {Some CHUNK_TYPE_RAW, Some CHUNK_TYPE_FILL}"
  shows "\<exists>fill f1. program_source op f ss 1048576 = Some (fill, f1) \<and> streams fill f1"
  using assms readable_seek by (auto simp: program_source_def streams_def length_fill_pattern)

text \<open>The raw data of a program and its closing response.\<close>

lemma dry_data:
  assumes "sim_env E" "dry S [] SIM_STATE_RAW_IN (unat num * unat ss) s" "streams fill f" "ss \<noteq> 0" "unat ss \<le> 1048576" "num \<noteq> 0"
    "unat num < fuel" "2 < fuel"
  shows "\<exists>f' s1 s2. firehose_stream_out fuel E fill (unat ss) zt (unat num) f s = Some ((0, f'), s1)
    \<and> fh_recv_generic fuel E t s1 = Some (0, s2) \<and> dry S [] SIM_STATE_XML 0 s2 \<and> calm s s2"
proof -
  have pos: "0 < unat ss" "0 < unat num" using assms(4,6) by (simp_all add: unat_gt_0)
  obtain f' s1 where s1: "firehose_stream_out fuel E fill (unat ss) zt (unat num) f s = Some ((0, f'), s1)"
      "dry S [SIM_ACK] SIM_STATE_XML 0 s1" "calm s s1"
    using dry_stream [OF assms(1-3) pos(1) assms(5) pos(2) assms(7)] by blast
  obtain s2 where "fh_recv_generic fuel E t s1 = Some (0, s2)" "dry S [] SIM_STATE_XML 0 s2" "calm s1 s2"
    using dry_recv(3) [OF assms(1,8) s1(2)] by blast
  then show ?thesis using s1 calm_trans by blast
qed

lemma program_attr_values:
  "map_of (program_attrs op st num ss q @ nand_attrs op) ''num_partition_sectors'' = Some (fmt_d num)"
  "map_of (program_attrs op st num ss q @ nand_attrs op) ''SECTOR_SIZE_IN_BYTES'' = Some (fmt_d ss)"
  "map_of (read_attrs op ss q) ''num_partition_sectors'' = Some (fmt_d (op_num_sectors op))"
  "map_of (read_attrs op ss q) ''SECTOR_SIZE_IN_BYTES'' = Some (fmt_d ss)"
  by (simp_all add: program_attrs_def read_attrs_def)

lemma dry_program_plain:
  assumes "sim_env E" "ready S s" "readable f" "ss \<noteq> 0" "unat ss \<le> 1048576" "num \<noteq> 0"
    "op_sparse op \<longrightarrow> op_sparse_chunk_type op \<in> {Some CHUNK_TYPE_RAW, Some CHUNK_TYPE_FILL}"
    "unat num < fuel" "2 < fuel"
  shows "\<exists>s'. firehose_program_plain fuel E op f num ss zt s = Some (0, s') \<and> ready S s'
    \<and> (case tally (fh_stats s) of (f, k, r, e, p) \<Rightarrow> tally (fh_stats s') = (f + 1, k, r, e, p))"
proof -
  let ?a = "program_attrs op (op_start_sector op) num ss (fh_dev s) @ nand_attrs op"
  obtain rem where d: "dry S [] SIM_STATE_XML rem s" using assms(2) by (auto simp: ready_def)
  obtain s1 s2 where x: "firehose_write fuel E (fh_doc E ''program'' ?a) s = Some (0, s1)"
      "fh_recv_generic fuel E 10000 s1 = Some (0, s2)"
      "dry S [] SIM_STATE_RAW_IN (unat num * unat ss) s2" "calm s s2"
    using transfer_exchange [OF assms(1) d assms(9) distinct_attrs(4) program_attr_values(1,2),
        where tag = "''program''" and st = SIM_STATE_RAW_IN and t = 10000] by blast
  obtain fill f1 where src: "program_source op f ss 1048576 = Some (fill, f1)" "streams fill f1"
    using source_streams [OF assms(3,7)] by blast
  obtain f' s3 s4 where y: "firehose_stream_out fuel E fill (unat ss) zt (unat num) f1 s2 = Some ((0, f'), s3)"
      "fh_recv_generic fuel E 120000 s3 = Some (0, s4)" "dry S [] SIM_STATE_XML 0 s4" "calm s2 s4"
    using dry_data [OF assms(1) x(3) src(2) assms(4-6,8,9)] by blast
  have mp: "max_payload_size (fh_dev s2) = 1048576" using x(3) by (simp add: dry_def)
  have r: "ready S s4" using y(3) by (auto simp: ready_def)
  have t: "tally (fh_stats s4) = tally (fh_stats s)" using calm_tally calm_trans [OF x(4) y(4)] by blast
  show ?thesis using x(1,2) y(1,2) src(1) r t
    by (simp add: firehose_program_plain_def exchange_simps mp tally_def)
qed

lemma dry_program:
  assumes "sim_env E" "ready S s" "op_type op = FIREHOSE_OP_PROGRAM" "dry_op (env_fs E) S op" "2 ^ 32 \<le> fuel"
  shows "\<exists>s'. firehose_program fuel E op s = Some (0, s') \<and> ready S s'
    \<and> tally (fh_stats s') = op_tally op (tally (fh_stats s))"
proof (cases "op_filename op")
  case None
  then show ?thesis using assms(2,3)
    by (simp add: firehose_program_def op_tally_def split: prod.split)
next
  case (Some name)
  let ?ss = "eff_sector_size op (fh_dev s)"
  obtain rem where d: "dry S [] SIM_STATE_XML rem s" using assms(2) by (auto simp: ready_def)
  have ss: "(if op_sector_size op \<noteq> 0 then op_sector_size op else of_nat S) = ?ss"
    using d by (simp add: eff_sector_size_def dry_def)
  obtain f where f: "qdl_file_open (op_zip op) (env_fs E) name = Some f" "readable f" "?ss \<noteq> 0" "unat ?ss \<le> 1048576"
      "program_num_sectors op f ?ss \<noteq> 0" "op_sparse op \<longrightarrow> op_sparse_chunk_type op \<in> {Some CHUNK_TYPE_RAW, Some CHUNK_TYPE_FILL}"
    using assms(4) Some unfolding dry_op_def ss Let_def assms(3) by (auto split: option.splits)
  have f32: "4294967296 \<le> fuel" using assms(5) by simp
  have fu: "unat (program_num_sectors op f ?ss) < fuel" "2 < fuel"
    by (rule less_le_trans [OF unat_u32_less f32]) (use f32 in simp)
  have sk: "\<not> firehose_skipblock_enabled (fh_dev s) op" using d by (simp add: firehose_skipblock_enabled_def dry_def)
  let ?zt = "if current_storage_type (fh_dev s) = QDL_STORAGE_SPINOR then 60000 else 10000 :: nat"
  from dry_program_plain [OF assms(1,2) f(2-6) fu, of ?zt] obtain s' where
    s': "firehose_program_plain fuel E op f (program_num_sectors op f ?ss) ?ss ?zt s = Some (0, s') \<and> ready S s'
      \<and> (case tally (fh_stats s) of (f, k, r, e, p) \<Rightarrow> tally (fh_stats s') = (f + 1, k, r, e, p))" ..
  have "firehose_program fuel E op s = Some (0, s')"
    using f(1,3) sk Some conjunct1 [OF s'] by (simp add: firehose_program_def)
  moreover have "tally (fh_stats s') = op_tally op (tally (fh_stats s))"
    using conjunct2 [OF conjunct2 [OF s']] Some assms(3) by (simp add: op_tally_def split: prod.splits)
  ultimately show ?thesis using conjunct1 [OF conjunct2 [OF s']] by (intro exI conjI)
qed

text \<open>Reading: the simulator serves zeros.\<close>

lemma dry_read_chunk:
  assumes "sim_env E" "dry S [] SIM_STATE_RAW_OUT rem s" "0 < want" "want \<le> rem" "1 < fuel"
  shows "\<exists>s1. read_chunk fuel E want [] s = Some (Some (replicate want 0), s1) \<and> calm s s1
    \<and> (if want = rem then dry S [SIM_ACK] SIM_STATE_XML 0 s1 else dry S [] SIM_STATE_RAW_OUT (rem - want) s1)"
proof -
  obtain fu where fu: "fuel = Suc (Suc fu)" using assms(5) by (cases fuel; cases "fuel - 1") auto
  let ?l = "snd (sim_read (link (fh_dev s)) want)" and ?s1 = "s\<lparr>fh_dev := (fh_dev s)\<lparr>link := snd (sim_read (link (fh_dev s)) want)\<rparr>\<rparr>"
  note D = assms(2) [unfolded dry_def]
  have r: "sim_read (link (fh_dev s)) want = (Inr (replicate want 0), ?l)"
    using D assms(4) by (simp add: sim_read_def Let_def)
  have "qdl_read (env_tr E) (fh_dev s) want 30000 = (Inr (replicate want 0), (fh_dev s)\<lparr>link := ?l\<rparr>)"
    using sim_env_read [OF assms(1), of "fh_dev s" want 30000] D r by (simp split: prod.splits)
  then have "read_chunk fuel E want [] s = Some (Some (replicate want 0), ?s1)" using assms(3) by (simp add: fu)
  moreover have "calm s ?s1" using D by (simp add: calm_def sim_read_def sim_enqueue_def Let_def)
  moreover have "if want = rem then dry S [SIM_ACK] SIM_STATE_XML 0 ?s1 else dry S [] SIM_STATE_RAW_OUT (rem - want) ?s1"
    using D assms(3,4) by (simp add: dry_def novip_def sim_read_def sim_enqueue_def Let_def)
  ultimately show ?thesis by blast
qed

lemma dry_store:
  assumes "dry S q st rem s"
  shows "\<exists>s1. store_chunk (To_File p) out buf s = Some ((0, out), s1) \<and> dry S q st rem s1 \<and> calm s s1"
  using assms by (auto simp: store_chunk_def dry_def calm_def Let_def h_append_def host_ok_def)

lemma dry_read_chunks:
  "sim_env E \<Longrightarrow> dry S [] SIM_STATE_RAW_OUT (left * ss) s \<Longrightarrow> 0 < ss \<Longrightarrow> ss \<le> 1048576 \<Longrightarrow> 0 < left \<Longrightarrow> left + 1 < fuel \<Longrightarrow>
   \<exists>s1. read_chunks fuel E (To_File p) ss left out s = Some ((0, out), s1) \<and> dry S [SIM_ACK] SIM_STATE_XML 0 s1 \<and> calm s s1"
proof (induction fuel arbitrary: left s)
  case (Suc fuel)
  define k where "k = min (1048576 div ss) left"
  have k1: "0 < k" "k \<le> left" using Suc.prems(3-5) by (simp_all add: k_def div_greater_zero_iff)
  have w: "0 < k * ss" "k * ss \<le> left * ss" "1 < fuel" using k1 Suc.prems(3,5,6) by auto
  have mp: "max_payload_size (fh_dev s) = 1048576" using Suc.prems(2) by (simp add: dry_def)
  obtain s1 where s1: "read_chunk fuel E (k * ss) [] s = Some (Some (replicate (k * ss) 0), s1)" "calm s s1"
      "if k * ss = left * ss then dry S [SIM_ACK] SIM_STATE_XML 0 s1 else dry S [] SIM_STATE_RAW_OUT (left * ss - k * ss) s1"
    using dry_read_chunk [OF Suc.prems(1,2) w] by blast
  have turn: "store_chunk (To_File p) out (replicate (k * ss) 0) s1 = Some ((0, out), s2) \<Longrightarrow>
      read_chunks (Suc fuel) E (To_File p) ss left out s = read_chunks fuel E (To_File p) ss (left - k) out s2" for s2
    using Suc.prems(5) s1(1) by (simp add: mp k_def [symmetric] Let_def sbind_def)
  show ?case
  proof (cases "k = left")
    case True
    obtain fu where fu: "fuel = Suc fu" using w(3) by (cases fuel) auto
    have "dry S [SIM_ACK] SIM_STATE_XML 0 s1" using s1(3) True by simp
    from dry_store [OF this] obtain s2 where
      "store_chunk (To_File p) out (replicate (k * ss) 0) s1 = Some ((0, out), s2)" "dry S [SIM_ACK] SIM_STATE_XML 0 s2" "calm s1 s2"
      by blast
    then show ?thesis using turn True s1(2) calm_trans by (auto simp: fu)
  next
    case False
    have "dry S [] SIM_STATE_RAW_OUT ((left - k) * ss) s1"
      using s1(3) False Suc.prems(3) by (simp add: diff_mult_distrib)
    from dry_store [OF this] obtain s2 where
      s2: "store_chunk (To_File p) out (replicate (k * ss) 0) s1 = Some ((0, out), s2)"
        "dry S [] SIM_STATE_RAW_OUT ((left - k) * ss) s2" "calm s1 s2"
      by blast
    have "0 < left - k" "left - k + 1 < fuel" using False k1 Suc.prems(6) by linarith+
    then obtain s3 where s3: "read_chunks fuel E (To_File p) ss (left - k) out s2 = Some ((0, out), s3)"
        "dry S [SIM_ACK] SIM_STATE_XML 0 s3" "calm s2 s3"
      using Suc.IH [OF Suc.prems(1) s2(2) Suc.prems(3,4)] by blast
    have "calm s s3" by (rule calm_trans [OF s1(2) calm_trans [OF s2(3) s3(3)]])
    then show ?thesis unfolding turn [OF s2(1)] using s3(1,2) by blast
  qed
qed simp

lemma dry_read_op:
  assumes "sim_env E" "ready S s" "op_type op = FIREHOSE_OP_READ" "dry_op (env_fs E) S op" "2 ^ 32 + 2 \<le> fuel"
  shows "\<exists>s'. firehose_read_op fuel E op s = Some (0, s') \<and> ready S s'
    \<and> tally (fh_stats s') = op_tally op (tally (fh_stats s))"
proof -
  let ?ss = "eff_sector_size op (fh_dev s)"
  obtain rem where d: "dry S [] SIM_STATE_XML rem s" using assms(2) by (auto simp: ready_def)
  have ss: "(if op_sector_size op \<noteq> 0 then op_sector_size op else of_nat S) = ?ss"
    using d by (simp add: eff_sector_size_def dry_def)
  obtain p where op: "op_filename op = Some p" "?ss \<noteq> 0" "unat ?ss \<le> 1048576" "op_num_sectors op \<noteq> 0"
    using assms(4) unfolding dry_op_def ss Let_def assms(3) by auto
  have pos: "0 < unat ?ss" "0 < unat (op_num_sectors op)" using op(2,4) by (simp_all add: unat_gt_0)
  have f32: "4294967296 + 2 \<le> fuel" using assms(5) by simp
  have fu: "unat (op_num_sectors op) + 1 < fuel" "2 < fuel"
    using unat_u32_less [of "op_num_sectors op"] f32 by linarith+
  obtain h where h1: "h_create (fh_host s) p = Some h" using d by (auto simp: dry_def host_ok_def h_create_def)
  then have h: "h_create (fh_host s) p = Some h" "same_outside UNIV (fh_host s) h"
    using h_create_outside [OF h1] by simp_all
  let ?s = "s\<lparr>fh_host := h\<rparr>" and ?a = "read_attrs op ?ss (fh_dev s)"
  have d0: "dry S [] SIM_STATE_XML rem ?s" using d host_ok_same [OF h(2)] by (simp add: dry_def)
  obtain s1 s2 where x: "firehose_write fuel E (fh_doc E ''read'' ?a) ?s = Some (0, s1)"
      "fh_recv_generic fuel E 10000 s1 = Some (0, s2)"
      "dry S [] SIM_STATE_RAW_OUT (unat (op_num_sectors op) * unat ?ss) s2" "calm ?s s2"
    using transfer_exchange [OF assms(1) d0 fu(2) distinct_attrs(3) program_attr_values(3,4),
        where tag = "''read''" and st = SIM_STATE_RAW_OUT and t = 10000] by blast
  obtain s3 where y: "read_chunks fuel E (To_File p) (unat ?ss) (unat (op_num_sectors op)) [] s2 = Some ((0, []), s3)"
      "dry S [SIM_ACK] SIM_STATE_XML 0 s3" "calm s2 s3"
    using dry_read_chunks [OF assms(1) x(3) pos(1) op(3) pos(2) fu(1)] by blast
  obtain s4 where z: "fh_recv_generic fuel E 10000 s3 = Some (0, s4)" "dry S [] SIM_STATE_XML 0 s4" "calm s3 s4"
    using dry_recv(3) [OF assms(1) fu(2) y(2)] by blast
  let ?s5 = "s4\<lparr>fh_stats := (fh_stats s4)\<lparr>st_read := st_read (fh_stats s4) + 1\<rparr>\<rparr>"
  have run: "firehose_read_op fuel E op s = Some (0, ?s5)"
    using op(1,2) h(1) x(1,2) y(1) z(1)
    by (simp add: firehose_read_op_def firehose_issue_read_def exchange_simps count_read_def Let_def)
  have t: "fh_stats s4 = fh_stats s" using x(4) y(3) z(3) by (simp add: calm_def)
  have "ready S s4" using z(2) by (auto simp: ready_def)
  then have "ready S ?s5" by simp
  moreover have "tally (fh_stats ?s5) = op_tally op (tally (fh_stats s))"
    using assms(3) t by (simp add: op_tally_def tally_def)
  ultimately show ?thesis using run by blast
qed

subsection \<open>Configuration\<close>

lemma configure_command:
  "command_part (sim_command (ex_node ''configure'' attrs) l)
    = (create_digests l, resp_queue l @ [sim_log_text ''configure'', SIM_CONFIGURE_ACK], sim_st l, raw_remaining l, sim_closed l)"
  by (simp add: sim_command_def command_part_def ex_node_def sim_enqueue_log_def sim_enqueue_def Let_def)

text \<open>
  The programmer takes the payload the host proposes, so there is one exchange, and the sector size is
  known, so nothing is probed.
\<close>

lemma dry_configure:
  assumes "sim_env E" "dry S [] SIM_STATE_XML rem s" "S \<noteq> 0" "encode_storage_type storage \<noteq> None" "3 < fuel"
  shows "\<exists>s'. firehose_detect_and_configure fuel E False storage t s = Some (0, s') \<and> ready S s' \<and> fh_stats s' = fh_stats s"
proof -
  obtain fu where fu: "fuel = Suc fu" "2 < fu" using assms(5) by (cases fuel) auto
  then have f0: "0 < fu" by simp
  obtain name where name: "encode_storage_type storage = Some name" using assms(4) by blast
  let ?a = "configure_attrs 1048576 False name"
  let ?s0 = "s\<lparr>fh_dev := (fh_dev s)\<lparr>current_storage_type := storage\<rparr>\<rparr>"
  have d0: "dry S [] SIM_STATE_XML rem ?s0" using assms(2) by (simp add: dry_def novip_def)
  have cp: "command_part (sim_command (ex_node ''configure'' (map (\<lambda>(a, v). (a, take 127 v)) ?a)) (link (fh_dev ?s0)))
      = (create_digests (link (fh_dev ?s0)), [sim_log_text ''configure'', SIM_CONFIGURE_ACK], SIM_STATE_XML,
         raw_remaining (link (fh_dev ?s0)), sim_closed (link (fh_dev ?s0)))"
    using configure_command [of "map (\<lambda>(a, v). (a, take 127 v)) ?a" "link (fh_dev ?s0)"] d0 by (simp add: dry_def)
  obtain s1 where s1: "firehose_write fu E (fh_doc E ''configure'' ?a) ?s0 = Some (0, s1)"
      "dry S [sim_log_text ''configure'', SIM_CONFIGURE_ACK] SIM_STATE_XML (raw_remaining (link (fh_dev ?s0))) s1" "calm ?s0 s1"
    using dry_write [OF assms(1) d0 _ xml_doc_env [OF assms(1) distinct_attrs(5)] f0 cp] by blast
  obtain s2 where s2: "fh_recv fu E 100 firehose_configure_response_parser 0 s1 = Some ((0, 1048576), s2)"
      "dry S [] SIM_STATE_XML (raw_remaining (link (fh_dev ?s0))) s2" "calm s1 s2"
    using dry_recv(4) [OF assms(1) fu(2) s1(2)] by blast
  have mp: "max_payload_size (fh_dev s) = 1048576" using d0 by (simp add: dry_def)
  have pn: "\<not> probe_needed False storage (fh_dev s2)" using s2(2) assms(3) by (simp add: dry_def probe_needed_def)
  have c: "firehose_try_configure fu E False storage ?s0 = Some (0, s2)"
    using s1(1) s2(1) name pn by (simp add: firehose_try_configure_def firehose_send_configure_def exchange_simps mp)
  have nv: "vip_st (vip_data (fh_dev ?s0)) = VIP_DISABLED" "\<not> programmer_requires_vip (vip_data (fh_dev s2))"
    using d0 s2(2) by (simp_all add: dry_def novip_def)
  have "firehose_detect_and_configure fuel E False storage t s = Some (0, s2)"
    using c nv by (simp add: firehose_detect_and_configure_def map_dev_def fu(1) exchange_simps)
  moreover have "ready S s2" using s2(2) by (auto simp: ready_def)
  moreover have "fh_stats s2 = fh_stats s" using s1(3) s2(3) by (simp add: calm_def)
  ultimately show ?thesis by blast
qed

text \<open>Resolving names on a simulated device reads nothing and places everything at 0.\<close>

definition sim_placed :: "firehose_op \<Rightarrow> firehose_op" where
  "sim_placed op = (if gpt_addressed op then gpt_place op (op_partition op, (0, 0)) else op)"

lemma sim_resolve:
  "gpt_resolve_deferrals fuel rd True ss stk s tbl ops = Some (0, map sim_placed ops, tbl, s)"
  by (induction ops) (simp_all add: sim_placed_def gpt_find_by_name_def)

lemma dry_resolve:
  assumes "ready S s"
  shows "\<exists>s'. fh_resolve fuel E ops s = Some ((0, map sim_placed ops), s') \<and> ready S s' \<and> fh_stats s' = fh_stats s"
proof -
  have "dev_type (fh_dev s) = QDL_DEVICE_SIM" using assms by (auto simp: ready_def dry_def)
  moreover have "ready S (s\<lparr>fh_gpt := fh_gpt s\<rparr>)" using assms by simp
  ultimately show ?thesis by (simp add: fh_resolve_def sim_resolve)
qed

lemma placed_sectors:
  "program_num_sectors op f ss \<noteq> 0 \<Longrightarrow> \<not> op_sparse op \<Longrightarrow> program_num_sectors (gpt_place op (p, (st, 0))) f ss \<noteq> 0"
  by (auto simp: program_num_sectors_def gpt_place_def Let_def split: if_splits)

lemma placed_dry: "dry_op fs S op \<Longrightarrow> dry_op fs S (sim_placed op)"
proof (cases "gpt_addressed op")
  case True
  assume d: "dry_op fs S op"
  have ps: "program_num_sectors (gpt_place op (op_partition op, 0, 0)) f ss \<noteq> 0"
    if "program_num_sectors op f ss \<noteq> 0" "\<not> op_sparse op" for f ss
    using placed_sectors that by blast
  show ?thesis using True d ps
    by (auto simp: sim_placed_def dry_op_def gpt_addressed_def Let_def gpt_place_def split: option.splits)
qed (simp add: sim_placed_def)

lemma placed_tally: "op_tally (sim_placed op) t = op_tally op t"
  by (cases t; cases "op_type op") (simp_all add: op_tally_def sim_placed_def gpt_place_def)

lemma placed_tallies: "fold op_tally (map sim_placed ops) t = fold op_tally ops t"
  by (induction ops arbitrary: t) (simp_all add: placed_tally)

subsection \<open>The whole queue\<close>

lemma dry_execute_op:
  assumes "sim_env E" "ready S s" "S \<noteq> 0" "i < length ops" "list_all (dry_op (env_fs E) S) ops" "2 ^ 32 + 4 \<le> fuel"
  shows "\<exists>ops' s'. firehose_execute_op fuel E ops i s = Some ((0, ops'), s') \<and> ready S s'
    \<and> ops' \<in> {ops, map sim_placed ops} \<and> tally (fh_stats s') = op_tally (ops ! i) (tally (fh_stats s))"
proof -
  have d: "dry_op (env_fs E) S (ops ! i)" using assms(4,5) by (simp add: list_all_length)
  have f: "2 < fuel" "3 < fuel" "2 ^ 32 \<le> fuel" "2 ^ 32 + 2 \<le> fuel" using assms(6) by simp_all
  note X = firehose_execute_op_def keep_ops_def exchange_simps op_tally_def
  show ?thesis
  proof (cases "op_type (ops ! i)")
    case FIREHOSE_OP_CONFIGURE
    obtain rem where "dry S [] SIM_STATE_XML rem s" using assms(2) by (auto simp: ready_def)
    moreover have "encode_storage_type (op_storage_type (ops ! i)) \<noteq> None"
      using d FIREHOSE_OP_CONFIGURE by (simp add: dry_op_def)
    ultimately obtain s1 where s1: "firehose_detect_and_configure fuel E False (op_storage_type (ops ! i)) 5 s = Some (0, s1)"
        "ready S s1" "fh_stats s1 = fh_stats s"
      using dry_configure [OF assms(1) _ assms(3) _ f(2)] by blast
    then show ?thesis using dry_resolve [OF s1(2), of fuel E ops] FIREHOSE_OP_CONFIGURE
      by (auto simp: X split: prod.splits)
  next
    case FIREHOSE_OP_PROGRAM
    then show ?thesis using dry_program [OF assms(1,2) _ d f(3)] by (auto simp: X)
  next
    case FIREHOSE_OP_ERASE
    then show ?thesis using dry_erase [OF assms(1,2) f(1), of "ops ! i"] by (auto simp: X split: prod.splits)
  next
    case FIREHOSE_OP_READ
    then show ?thesis using dry_read_op [OF assms(1,2) _ d f(4)] by (auto simp: X)
  next
    case FIREHOSE_OP_PATCH
    obtain s1 where s1: "firehose_apply_patch fuel E (ops ! i) s = Some (0, s1)" "ready S s1" "tally (fh_stats s1) = tally (fh_stats s)"
      using dry_patch [OF assms(1,2) f(1), of "ops ! i"] by blast
    let ?st = "if op_filename (ops ! i) = Some ''DISK'' then (fh_stats s1)\<lparr>st_patches := st_patches (fh_stats s1) + 1\<rparr> else fh_stats s1"
    have "firehose_execute_op fuel E ops i s = Some ((0, ops), s1\<lparr>fh_stats := ?st\<rparr>)"
      using s1(1) FIREHOSE_OP_PATCH by (simp add: firehose_execute_op_def exchange_simps Let_def)
    moreover have "tally ?st = op_tally (ops ! i) (tally (fh_stats s))"
      unfolding s1(3) [symmetric] using FIREHOSE_OP_PATCH by (simp add: op_tally_def tally_def)
    ultimately show ?thesis using s1(2) by (intro exI [of _ ops] exI [of _ "s1\<lparr>fh_stats := ?st\<rparr>"]) simp
  next
    case FIREHOSE_OP_SET_BOOTABLE
    then show ?thesis using dry_bootable [OF assms(1,2) f(1), of "op_partition (ops ! i)"]
      by (auto simp: X split: prod.splits)
  next
    case FIREHOSE_OP_RESET
    then show ?thesis using dry_reset [OF assms(1,2) f(1)] by (auto simp: X split: prod.splits)
  qed (use d in \<open>simp_all add: dry_op_def\<close>)
qed

lemma dry_execute_from:
  "sim_env E \<Longrightarrow> S \<noteq> 0 \<Longrightarrow> 2 ^ 32 + 4 \<le> fuel \<Longrightarrow> ready S s \<Longrightarrow> i + n = length ops \<Longrightarrow> list_all (dry_op (env_fs E) S) ops \<Longrightarrow>
   \<exists>ops' s'. firehose_execute_from fuel E ops i n s = Some ((0, ops'), s') \<and> ready S s'
     \<and> tally (fh_stats s') = fold op_tally (drop i ops) (tally (fh_stats s))"
proof (induction n arbitrary: i s ops)
  case (Suc n)
  have i: "i < length ops" using Suc.prems(5) by simp
  obtain ops1 s1 where x: "firehose_execute_op fuel E ops i s = Some ((0, ops1), s1)" "ready S s1"
      "ops1 \<in> {ops, map sim_placed ops}" "tally (fh_stats s1) = op_tally (ops ! i) (tally (fh_stats s))"
    using dry_execute_op [OF Suc.prems(1,4,2) i Suc.prems(6,3)] by blast
  have ops1: "Suc i + n = length ops1" "list_all (dry_op (env_fs E) S) ops1"
    using x(3) Suc.prems(5,6) placed_dry by (auto simp: list_all_iff)
  have t: "fold op_tally (drop (Suc i) ops1) t = fold op_tally (drop (Suc i) ops) t" for t
    using x(3) placed_tallies [of "drop (Suc i) ops" t] by (auto simp: drop_map)
  from Suc.IH [OF Suc.prems(1-3) x(2) ops1] obtain ops' s' where
    y: "firehose_execute_from fuel E ops1 (Suc i) n s1 = Some ((0, ops'), s')" "ready S s'"
      "tally (fh_stats s') = fold op_tally (drop (Suc i) ops1) (tally (fh_stats s1))" by blast
  have "tally (fh_stats s') = fold op_tally (drop i ops) (tally (fh_stats s))"
    using y(3) x(4) t Cons_nth_drop_Suc [OF i] by (metis fold_simps(2))
  then show ?case using x(1) y(1,2) by (simp add: sbind_def)
qed (simp add: sret_def)

text \<open>
  C3: A dry run goes through. On a simulated device whose sector size is known, with libxml2 giving the
  simulator's messages and the host's requests their elements, a queue of configurations, programs,
  erasures, reads, patches, boot selections and resets, in any order, is executed to the end and
  returns 0, provided that every file to program opens, can be read and is not empty, sectors are no
  larger than the payload, and images addressed by name are not sparse. The counters are exactly those of the
  operations of the queue, nothing is skipped, and the simulator is left with no response unread and
  waiting for a command. Fuel above \<open>2 ^ 32\<close> is enough, as no operation transfers more sectors.
\<close>

theorem dry_run_succeeds:
  assumes "sim_env E" "ready S s" "S \<noteq> 0" "list_all (dry_op (env_fs E) S) ops" "2 ^ 32 + 4 \<le> fuel"
  shows "\<exists>ops' s'. firehose_run fuel E ops s = Some ((0, ops'), s')
    \<and> tally (fh_stats s') = fold op_tally ops (0, 0, 0, 0, 0)
    \<and> resp_queue (link (fh_dev s')) = [] \<and> sim_st (link (fh_dev s')) = SIM_STATE_XML"
proof -
  let ?s = "s\<lparr>fh_stats := stats_zero\<rparr>"
  have "ready S ?s" using assms(2) by simp
  from dry_execute_from [OF assms(1,3,5) this _ assms(4), of 0 "length ops"] obtain ops' s' where
    x: "firehose_execute_from fuel E ops 0 (length ops) ?s = Some ((0, ops'), s')" "ready S s'"
      "tally (fh_stats s') = fold op_tally ops (tally stats_zero)" by auto
  then have "tally (fh_stats s') = fold op_tally ops (0, 0, 0, 0, 0)" by (simp add: tally_def stats_zero_def)
  moreover have "firehose_run fuel E ops s = Some ((0, ops'), s')"
    using x(1) by (simp add: firehose_run_def firehose_execute_ops_def sbind_def count_stats_def)
  ultimately show ?thesis using x(2) by (auto simp: ready_def dry_def)
qed

text \<open>
  An instance: requests are dumped as their strings, each character behind a 1 and each string closed
  by a 0, behind a leading 2.
\<close>

definition enc_string :: "string \<Rightarrow> u8 list" where
  "enc_string s = concat (map (\<lambda>c. [1, of_char c]) s) @ [0]"

fun dec_strings :: "string \<Rightarrow> u8 list \<Rightarrow> string list" where
  "dec_strings cur [] = []"
| "dec_strings cur [b] = [cur]"
| "dec_strings cur (b # c # r) = (if b = 0 then cur # dec_strings [] (c # r) else dec_strings (cur @ [char_of (unat c)]) r)"

fun pairs_of :: "string list \<Rightarrow> xml_attrs" where
  "pairs_of (a # v # r) = (a, v) # pairs_of r"
| "pairs_of r = []"

definition ex_sim_dump :: "string \<Rightarrow> xml_attrs \<Rightarrow> u8 list" where
  "ex_sim_dump tag attrs = 2 # enc_string tag @ concat (map (\<lambda>(a, v). enc_string a @ enc_string v) attrs)"

definition ex_sim_parse :: "u8 list \<Rightarrow> xml_doc option" where
  "ex_sim_parse b =
     (if take 1 b = [2] then (case dec_strings [] (drop 1 b) of [] \<Rightarrow> None | tag # vs \<Rightarrow> Some (sim_doc tag (pairs_of vs)))
      else if b = SIM_ACK then Some (sim_doc ''response'' [(''value'', ''ACK''), (''rawmode'', ''false'')])
      else if b = SIM_ACK_RAWMODE then Some (sim_doc ''response'' [(''value'', ''ACK''), (''rawmode'', ''true'')])
      else if b = SIM_CONFIGURE_ACK then Some (sim_doc ''response''
          [(''value'', ''ACK''), (''MemoryName'', ''ufs''), (''MinVersionSupported'', ''1''), (''Version'', ''1''),
           (''MaxPayloadSizeToTargetInBytes'', ''1048576''), (''MaxPayloadSizeToTargetInBytesSupported'', ''1048576''),
           (''MaxXMLSizeInBytes'', ''4096'')])
      else map_option (\<lambda>h. sim_doc ''log'' [(''value'', ''INFO: Calling handler for '' @ h)])
             (find (\<lambda>h. sim_log_text h = b) sim_handlers))"

definition ex_sim_env :: "qdl_device_sim fh_env" where
  "ex_sim_env = \<lparr>env_tr = sim_transport ex_sim_parse vip_zero, env_clock = (\<lambda>_. 0), env_xml = ex_sim_parse,
     env_dump = ex_sim_dump, env_fs = (\<lambda>p. if p = ''a.bin'' then Some ([1, 2, 3], \<lambda>_ n. Some n) else None), env_stk = []\<rparr>"

lemma dec_enc: "dec_strings cur (enc_string s @ r) = (cur @ s) # dec_strings [] r"
proof (induction s arbitrary: cur)
  case Nil
  then show ?case by (cases r) (simp_all add: enc_string_def)
next
  case (Cons c s)
  then show ?case by (simp add: enc_string_def unat_of_char)
qed

lemma pairs_enc: "pairs_of (dec_strings [] (concat (map (\<lambda>(a, v). enc_string a @ enc_string v) attrs))) = attrs"
  by (induction attrs) (auto simp: dec_enc)

lemma sim_text_bytes:
  "list_all (\<lambda>h. take 1 (sim_log_text h) = [60] \<and> sim_log_text h \<noteq> SIM_ACK \<and> sim_log_text h \<noteq> SIM_ACK_RAWMODE
     \<and> sim_log_text h \<noteq> SIM_CONFIGURE_ACK \<and> find (\<lambda>h'. sim_log_text h' = sim_log_text h) sim_handlers = Some h) sim_handlers"
  "take 1 SIM_ACK = [60]" "take 1 SIM_ACK_RAWMODE = [60]" "take 1 SIM_CONFIGURE_ACK = [60]"
  "SIM_ACK \<noteq> SIM_ACK_RAWMODE" "SIM_ACK \<noteq> SIM_CONFIGURE_ACK" "SIM_ACK_RAWMODE \<noteq> SIM_CONFIGURE_ACK"
  by code_simp+

lemma ex_sim_env_ok: "sim_env ex_sim_env"
proof -
  have "ex_sim_parse (ex_sim_dump tag attrs) = Some (sim_doc tag attrs)" for tag attrs
    by (simp add: ex_sim_parse_def ex_sim_dump_def dec_enc pairs_enc)
  moreover have "ex_sim_parse (sim_log_text h) = Some (sim_doc ''log'' [(''value'', ''INFO: Calling handler for '' @ h)])"
    if "h \<in> set sim_handlers" for h
    using sim_text_bytes(1) that by (auto simp: list_all_iff ex_sim_parse_def)
  moreover have "ex_sim_parse SIM_ACK = Some (sim_doc ''response'' [(''value'', ''ACK''), (''rawmode'', ''false'')])"
    using sim_text_bytes(2) by (simp add: ex_sim_parse_def)
  moreover have "ex_sim_parse SIM_ACK_RAWMODE = Some (sim_doc ''response'' [(''value'', ''ACK''), (''rawmode'', ''true'')])"
    using sim_text_bytes(3,5) by (simp add: ex_sim_parse_def)
  moreover have "ex_sim_parse SIM_CONFIGURE_ACK = Some (sim_doc ''response''
          [(''value'', ''ACK''), (''MemoryName'', ''ufs''), (''MinVersionSupported'', ''1''), (''Version'', ''1''),
           (''MaxPayloadSizeToTargetInBytes'', ''1048576''), (''MaxPayloadSizeToTargetInBytesSupported'', ''1048576''),
           (''MaxXMLSizeInBytes'', ''4096'')])"
    using sim_text_bytes(4,6,7) by (simp add: ex_sim_parse_def)
  moreover have "env_xml ex_sim_env = ex_sim_parse" "env_dump ex_sim_env = ex_sim_dump"
      "env_tr ex_sim_env = sim_transport ex_sim_parse vip_zero" "\<not> sending_table vip_zero"
    by (simp_all add: ex_sim_env_def vip_zero_def)
  ultimately show ?thesis unfolding sim_env_def sim_xml_env_def by (intro conjI ballI allI impI exI [of _ vip_zero]) simp_all
qed

definition ex_sim_fh :: "qdl_device_sim fh" where
  "ex_sim_fh = \<lparr>fh_dev = sim_init, fh_gen = None, fh_host = ex_host, fh_stats = stats_zero, fh_gpt = []\<rparr>"

lemma ex_sim_ready: "ready 4096 ex_sim_fh"
  by (simp add: ready_def dry_def ex_sim_fh_def sim_init_def sim_zero_def novip_def vip_zero_def ex_host_def host_ok_def)

lemma dry_run_succeeds_witness:
  "\<exists>ops' s'. firehose_run (2 ^ 32 + 4) ex_sim_env
      [(firehose_alloc_op FIREHOSE_OP_CONFIGURE)\<lparr>op_storage_type := QDL_STORAGE_UFS\<rparr>,
       (firehose_alloc_op FIREHOSE_OP_PROGRAM)\<lparr>op_filename := Some ''a.bin''\<rparr>,
       firehose_alloc_op FIREHOSE_OP_ERASE, firehose_alloc_op FIREHOSE_OP_RESET] ex_sim_fh = Some ((0, ops'), s')
     \<and> tally (fh_stats s') = (1, 0, 0, 1, 0) \<and> resp_queue (link (fh_dev s')) = []"
proof -
  let ?ops = "[(firehose_alloc_op FIREHOSE_OP_CONFIGURE)\<lparr>op_storage_type := QDL_STORAGE_UFS\<rparr>,
       (firehose_alloc_op FIREHOSE_OP_PROGRAM)\<lparr>op_filename := Some ''a.bin''\<rparr>,
       firehose_alloc_op FIREHOSE_OP_ERASE, firehose_alloc_op FIREHOSE_OP_RESET]"
  have ok: "list_all (dry_op (env_fs ex_sim_env) 4096) ?ops"
    by (simp add: dry_op_def firehose_alloc_op_def encode_storage_type_def storage_types_def ex_sim_env_def
        qdl_file_open_def readable_def program_num_sectors_def qdl_file_getsize_def)
  have t: "fold op_tally ?ops (0, 0, 0, 0, 0) = (1, 0, 0, 1, 0)"
    by (simp add: op_tally_def firehose_alloc_op_def)
  show ?thesis
    using dry_run_succeeds [OF ex_sim_env_ok ex_sim_ready _ ok le_refl] unfolding t by auto
qed

end
