(* ===== verification/Usb.thy ===== *)
theory Usb
  imports FhMsg
begin

text \<open>
  The libusb backend, \<open>src/usb.c\<close>. libusb and the bus behind it are a record of functions over an
  unspecified bus state \<open>'u\<close>; a device and a handle are numbers that only libusb interprets. A
  transfer from the device returns the libusb code and the bytes it stored (their number is
  \<open>actual\<close>), a transfer to the device the code and the number of bytes it accepted. What the code
  prints is not modelled. Lengths are those an \<open>int\<close> holds: no caller transfers 2 GiB at once.
\<close>

subsection \<open>libusb\<close>

abbreviation LIBUSB_ERROR_IO :: int where "LIBUSB_ERROR_IO \<equiv> -1"
abbreviation LIBUSB_ERROR_NO_DEVICE :: int where "LIBUSB_ERROR_NO_DEVICE \<equiv> -4"
abbreviation LIBUSB_ERROR_NOT_FOUND :: int where "LIBUSB_ERROR_NOT_FOUND \<equiv> -5"
abbreviation LIBUSB_ERROR_TIMEOUT :: int where "LIBUSB_ERROR_TIMEOUT \<equiv> -7"
abbreviation LIBUSB_ERROR_PIPE :: int where "LIBUSB_ERROR_PIPE \<equiv> -9"

record usb_device_descriptor =
  idVendor :: u16
  idProduct :: u16
  iProduct :: u8
  iSerialNumber :: u8

record usb_endpoint_descriptor =
  bEndpointAddress :: u8
  bmAttributes :: u8
  wMaxPacketSize :: u16

record usb_interface_descriptor =
  bInterfaceNumber :: u8
  bInterfaceClass :: u8
  bInterfaceSubClass :: u8
  bInterfaceProtocol :: u8
  endpoint :: "usb_endpoint_descriptor list"

text \<open>
  A configuration is the list of its interfaces' first alternate settings, the only ones the code
  looks at. \<open>lu_wait\<close> is \<open>usleep\<close>, during which the bus may change.
\<close>

record 'u libusb =
  lu_init :: "'u \<Rightarrow> int \<times> 'u"
  lu_exit :: "'u \<Rightarrow> 'u"
  lu_device_list :: "'u \<Rightarrow> (int + nat list) \<times> 'u"
  lu_device_descriptor :: "'u \<Rightarrow> nat \<Rightarrow> usb_device_descriptor option"
  lu_open :: "'u \<Rightarrow> nat \<Rightarrow> nat option \<times> 'u"
  lu_close :: "'u \<Rightarrow> nat \<Rightarrow> 'u"
  lu_config :: "'u \<Rightarrow> nat \<Rightarrow> usb_interface_descriptor list option \<times> 'u"
  lu_detach :: "'u \<Rightarrow> nat \<Rightarrow> u8 \<Rightarrow> 'u"
  lu_claim :: "'u \<Rightarrow> nat \<Rightarrow> u8 \<Rightarrow> int \<times> 'u"
  lu_string :: "'u \<Rightarrow> nat \<Rightarrow> u8 \<Rightarrow> nat \<Rightarrow> (int + string) \<times> 'u"
  lu_bulk_in :: "'u \<Rightarrow> nat \<Rightarrow> int \<Rightarrow> nat \<Rightarrow> nat \<Rightarrow> int \<times> u8 list \<times> 'u"
  lu_bulk_out :: "'u \<Rightarrow> nat \<Rightarrow> int \<Rightarrow> u8 list \<Rightarrow> nat \<Rightarrow> int \<times> nat \<times> 'u"
  lu_wait :: "'u \<Rightarrow> nat \<Rightarrow> 'u"

subsection \<open>The device handle\<close>

definition DEFAULT_OUT_CHUNK_SIZE :: u64 where "DEFAULT_OUT_CHUNK_SIZE = 1024 * 1024"

record qdl_device_usb =
  usb_handle :: nat
  in_ep :: int
  out_ep :: int
  in_maxpktsize :: nat
  out_maxpktsize :: nat
  out_chunk_size :: u64
  expect_zlp :: bool

definition usb_init :: qdl_device_usb where
  "usb_init = \<lparr>usb_handle = 0, in_ep = 0, out_ep = 0, in_maxpktsize = 0, out_maxpktsize = 0,
     out_chunk_size = 0, expect_zlp = False\<rparr>"

definition usb_set_out_chunk_size :: "qdl_device_usb \<Rightarrow> int \<Rightarrow> qdl_device_usb" where
  "usb_set_out_chunk_size D sz = D\<lparr>out_chunk_size := of_int sz\<rparr>"

subsection \<open>Candidates\<close>

definition QUALCOMM_VID :: u16 where "QUALCOMM_VID = 0x05c6"

definition qdl_is_edl_device :: "u16 \<Rightarrow> u16 \<Rightarrow> bool" where
  "qdl_is_edl_device vid pid \<longleftrightarrow> vid = QUALCOMM_VID"

definition usb_is_edl_device :: "usb_device_descriptor \<Rightarrow> bool" where
  "usb_is_edl_device desc = qdl_is_edl_device (idVendor desc) (idProduct desc)"

text \<open>
  The loop over the device list with the callback's state and the bus; the callback's first result
  stops it.
\<close>

fun enumerate_loop ::
  "'u libusb \<Rightarrow> (nat \<Rightarrow> usb_device_descriptor \<Rightarrow> 'a \<Rightarrow> 'u \<Rightarrow> bool \<times> 'a \<times> 'u)
   \<Rightarrow> nat list \<Rightarrow> int \<Rightarrow> 'a \<Rightarrow> 'u \<Rightarrow> int \<times> 'a \<times> 'u" where
  "enumerate_loop U cb [] visible a u = (visible, a, u)"
| "enumerate_loop U cb (dev # devs) visible a u =
     (case lu_device_descriptor U u dev of
        None \<Rightarrow> enumerate_loop U cb devs visible a u
      | Some desc \<Rightarrow>
          if \<not> usb_is_edl_device desc then enumerate_loop U cb devs visible a u
          else (case cb dev desc a u of (stop, a', u') \<Rightarrow>
            if stop then (visible + 1, a', u')
            else enumerate_loop U cb devs (visible + 1) a' u'))"

definition usb_enumerate_edl_devices ::
  "'u libusb \<Rightarrow> (nat \<Rightarrow> usb_device_descriptor \<Rightarrow> 'a \<Rightarrow> 'u \<Rightarrow> bool \<times> 'a \<times> 'u)
   \<Rightarrow> 'a \<Rightarrow> 'u \<Rightarrow> int \<times> 'a \<times> 'u" where
  "usb_enumerate_edl_devices U cb a u =
     (case lu_device_list U u of
        (Inl e, u') \<Rightarrow> (- EIO, a, u')
      | (Inr devs, u') \<Rightarrow> enumerate_loop U cb devs 0 a u')"

subsection \<open>Serial numbers\<close>

definition USB_STRING_ATTEMPTS :: nat where "USB_STRING_ATTEMPTS = 3"
definition USB_STRING_RETRY_US :: nat where "USB_STRING_RETRY_US = 20000"

definition usb_string_error_transient :: "int \<Rightarrow> bool" where
  "usb_string_error_transient ret \<longleftrightarrow>
     ret = LIBUSB_ERROR_IO \<or> ret = LIBUSB_ERROR_PIPE \<or> ret = LIBUSB_ERROR_TIMEOUT"

function usb_string_attempts ::
  "'u libusb \<Rightarrow> nat \<Rightarrow> u8 \<Rightarrow> nat \<Rightarrow> nat \<Rightarrow> 'u \<Rightarrow> (int + string) \<times> 'u" where
  "usb_string_attempts U h index len attempt u =
     (case lu_string U u h index len of
        (Inr s, u') \<Rightarrow> (Inr s, u')
      | (Inl ret, u') \<Rightarrow>
          if attempt \<ge> USB_STRING_ATTEMPTS \<or> \<not> usb_string_error_transient ret then (Inl ret, u')
          else usb_string_attempts U h index len (Suc attempt) (lu_wait U u' USB_STRING_RETRY_US))"
  by pat_completeness auto
termination
  by (relation "measure (\<lambda>(U, h, index, len, attempt, u). USB_STRING_ATTEMPTS - attempt)") auto

declare usb_string_attempts.simps [simp del]

definition usb_read_string ::
  "'u libusb \<Rightarrow> nat \<Rightarrow> u8 \<Rightarrow> nat \<Rightarrow> 'u \<Rightarrow> (int + string) \<times> 'u" where
  "usb_read_string U h index len u =
     (if index = 0 then (Inl LIBUSB_ERROR_NOT_FOUND, u)
      else usb_string_attempts U h index len 1 u)"

text \<open>The C string in a buffer, and \<open>p[strcspn(p, " _")] = 0\<close>.\<close>

definition c_string :: "string \<Rightarrow> string" where
  "c_string s = takeWhile (\<lambda>c. c \<noteq> CHR 0x00) s"

definition serial_token :: "string \<Rightarrow> string option" where
  "serial_token buf =
     map_option (\<lambda>i. takeWhile (\<lambda>c. c \<noteq> CHR '' '' \<and> c \<noteq> CHR ''_'') (drop (i + 4) buf))
       (find_sub ''_SN:'' buf)"

text \<open>\<open>None\<close> when it returns false; the caller then overwrites or ignores \<open>out\<close>.\<close>

definition usb_read_serial ::
  "'u libusb \<Rightarrow> nat \<Rightarrow> usb_device_descriptor \<Rightarrow> nat \<Rightarrow> 'u \<Rightarrow> string option \<times> 'u" where
  "usb_read_serial U h desc out_len u =
     (case usb_read_string U h (iProduct desc) 128 u of (product, u1) \<Rightarrow>
        case (case product of Inr s \<Rightarrow> serial_token (c_string s) | Inl _ \<Rightarrow> None) of
          Some p \<Rightarrow> (Some (take (out_len - 1) p), u1)
        | None \<Rightarrow>
            (case usb_read_string U h (iSerialNumber desc) out_len u1 of
               (Inl ret, u2) \<Rightarrow> (None, u2)
             | (Inr s, u2) \<Rightarrow> (if s \<noteq> [] then Some (c_string s) else None, u2)))"

definition c_tolower :: "char \<Rightarrow> char" where
  "c_tolower c = (let n = of_char c :: nat in if 65 \<le> n \<and> n \<le> 90 then char_of (n + 32) else c)"

definition strcaseeq :: "string \<Rightarrow> string \<Rightarrow> bool" where
  "strcaseeq a b \<longleftrightarrow> map c_tolower a = map c_tolower b"

definition usb_match_serial ::
  "'u libusb \<Rightarrow> nat \<Rightarrow> string option \<Rightarrow> usb_device_descriptor \<Rightarrow> 'u \<Rightarrow> bool \<times> 'u" where
  "usb_match_serial U h serial desc u =
     (case serial of
        None \<Rightarrow> (True, u)
      | Some want \<Rightarrow>
          (case usb_read_serial U h desc 64 u of
             (None, u') \<Rightarrow> (False, u')
           | (Some buf, u') \<Rightarrow> (strcaseeq buf want, u')))"

subsection \<open>The EDL interface\<close>

record usb_edl_interface =
  edl_in_ep :: int
  edl_out_ep :: int
  edl_in_maxpktsize :: nat
  edl_out_maxpktsize :: nat

definition LIBUSB_TRANSFER_TYPE_MASK :: u8 where "LIBUSB_TRANSFER_TYPE_MASK = 0x03"
definition LIBUSB_ENDPOINT_TRANSFER_TYPE_BULK :: u8 where "LIBUSB_ENDPOINT_TRANSFER_TYPE_BULK = 2"
definition LIBUSB_ENDPOINT_IN :: u8 where "LIBUSB_ENDPOINT_IN = 0x80"

definition edl_endpoint :: "usb_endpoint_descriptor \<Rightarrow> usb_edl_interface \<Rightarrow> usb_edl_interface" where
  "edl_endpoint e edl =
     (if bmAttributes e AND LIBUSB_TRANSFER_TYPE_MASK \<noteq> LIBUSB_ENDPOINT_TRANSFER_TYPE_BULK then edl
      else if bEndpointAddress e AND LIBUSB_ENDPOINT_IN \<noteq> 0
        then edl\<lparr>edl_in_ep := uint (bEndpointAddress e), edl_in_maxpktsize := unat (wMaxPacketSize e)\<rparr>
        else edl\<lparr>edl_out_ep := uint (bEndpointAddress e), edl_out_maxpktsize := unat (wMaxPacketSize e)\<rparr>)"

definition usb_match_edl_interface :: "usb_interface_descriptor \<Rightarrow> usb_edl_interface option" where
  "usb_match_edl_interface ifc =
     (if bInterfaceClass ifc \<noteq> 0xff then None
      else if bInterfaceSubClass ifc \<noteq> 0xff then None
      else if bInterfaceProtocol ifc \<noteq> 0xff \<and> bInterfaceProtocol ifc \<noteq> 0x10
        \<and> bInterfaceProtocol ifc \<noteq> 0x11 \<and> bInterfaceProtocol ifc \<noteq> 0x13 then None
      else let edl = fold edl_endpoint (endpoint ifc)
                 \<lparr>edl_in_ep = -1, edl_out_ep = -1, edl_in_maxpktsize = 0, edl_out_maxpktsize = 0\<rparr>
           in if edl_in_ep edl < 0 \<or> edl_out_ep edl < 0 \<or> edl_in_maxpktsize edl = 0
                \<or> edl_out_maxpktsize edl = 0
              then None else Some edl)"

fun find_edl_interface ::
  "usb_interface_descriptor list \<Rightarrow> (u8 \<times> usb_edl_interface) option" where
  "find_edl_interface [] = None"
| "find_edl_interface (ifc # ifcs) =
     (case usb_match_edl_interface ifc of
        Some edl \<Rightarrow> Some (bInterfaceNumber ifc, edl)
      | None \<Rightarrow> find_edl_interface ifcs)"

definition usb_match_device ::
  "'u libusb \<Rightarrow> nat \<Rightarrow> usb_device_descriptor \<Rightarrow> string option \<Rightarrow> 'u
   \<Rightarrow> (u8 \<times> usb_edl_interface) option \<times> 'u" where
  "usb_match_device U h desc serial u =
     (case usb_match_serial U h serial desc u of (matches, u1) \<Rightarrow>
        if \<not> matches then (None, u1)
        else (case lu_config U u1 h of
            (None, u2) \<Rightarrow> (None, u2)
          | (Some ifcs, u2) \<Rightarrow> (find_edl_interface ifcs, u2)))"

subsection \<open>Opening\<close>

definition usb_adopt :: "nat \<Rightarrow> usb_edl_interface \<Rightarrow> qdl_device_usb \<Rightarrow> qdl_device_usb" where
  "usb_adopt h edl D =
     (let chunk = out_chunk_size D;
          pkt = of_nat (edl_out_maxpktsize edl)
      in D\<lparr>usb_handle := h, in_ep := edl_in_ep edl, out_ep := edl_out_ep edl,
           in_maxpktsize := edl_in_maxpktsize edl, out_maxpktsize := edl_out_maxpktsize edl,
           expect_zlp := False,
           out_chunk_size := (if chunk \<noteq> 0 \<and> chunk mod pkt \<noteq> 0 then pkt
                              else if chunk = 0 then DEFAULT_OUT_CHUNK_SIZE else chunk)\<rparr>)"

definition usb_open_device ::
  "'u libusb \<Rightarrow> nat \<Rightarrow> usb_device_descriptor \<Rightarrow> string option \<Rightarrow> qdl_device_usb \<Rightarrow> 'u
   \<Rightarrow> bool \<times> qdl_device_usb \<times> 'u" where
  "usb_open_device U dev desc serial D u =
     (case lu_open U u dev of
        (None, u1) \<Rightarrow> (False, D, u1)
      | (Some h, u1) \<Rightarrow>
          (case usb_match_device U h desc serial u1 of
             (None, u2) \<Rightarrow> (False, D, lu_close U u2 h)
           | (Some (ifc_num, edl), u2) \<Rightarrow>
               (case lu_claim U (lu_detach U u2 h ifc_num) h ifc_num of (ret, u3) \<Rightarrow>
                  if ret < 0 then (False, D, lu_close U u3 h)
                  else (True, usb_adopt h edl D, u3))))"

record usb_open_ctx =
  ctx_qdl :: qdl_device_usb
  matched_serial :: string
  matched_pid :: u16
  ctx_found :: bool

definition usb_open_cb ::
  "'u libusb \<Rightarrow> string option \<Rightarrow> nat \<Rightarrow> usb_device_descriptor \<Rightarrow> usb_open_ctx \<Rightarrow> 'u
   \<Rightarrow> bool \<times> usb_open_ctx \<times> 'u" where
  "usb_open_cb U serial dev desc ctx u =
     (case usb_open_device U dev desc serial (ctx_qdl ctx) u of (opened, D, u1) \<Rightarrow>
        if \<not> opened then (False, ctx\<lparr>ctx_qdl := D\<rparr>, u1)
        else (case usb_read_serial U (usb_handle D) desc 64 u1 of (s, u2) \<Rightarrow>
          (True, ctx\<lparr>ctx_qdl := D, ctx_found := True, matched_pid := idProduct desc,
             matched_serial := (case s of None \<Rightarrow> [] | Some t \<Rightarrow> t)\<rparr>, u2)))"

text \<open>The result, \<open>*visible_out\<close>, the handle and the bus.\<close>

definition usb_open_once ::
  "'u libusb \<Rightarrow> string option \<Rightarrow> qdl_device_usb \<Rightarrow> 'u \<Rightarrow> int \<times> int \<times> qdl_device_usb \<times> 'u" where
  "usb_open_once U serial D u =
     (case lu_init U u of (ret, u1) \<Rightarrow>
        if ret < 0 then (- EIO, 0, D, u1)
        else (case usb_enumerate_edl_devices U (usb_open_cb U serial)
                \<lparr>ctx_qdl = D, matched_serial = [], matched_pid = 0, ctx_found = False\<rparr> u1 of
            (visible, ctx, u2) \<Rightarrow>
              if visible < 0 then (- EIO, 0, ctx_qdl ctx, lu_exit U u2)
              else if ctx_found ctx then (0, visible, ctx_qdl ctx, u2)
              else (if visible = 0 then - ENODEV else - EBUSY, visible, ctx_qdl ctx, lu_exit U u2)))"

text \<open>The waiting loop of \<open>usb_open\<close>; \<open>None\<close> when the fuel is used up.\<close>

fun usb_open ::
  "'u libusb \<Rightarrow> nat \<Rightarrow> string option \<Rightarrow> qdl_device_usb \<Rightarrow> 'u \<Rightarrow> (int \<times> qdl_device_usb \<times> 'u) option" where
  "usb_open U 0 serial D u = None"
| "usb_open U (Suc fuel) serial D u =
     (case usb_open_once U serial D u of (ret, visible, D', u') \<Rightarrow>
        if ret = 0 then Some (0, D', u')
        else if ret = - EIO then Some (-1, D', u')
        else usb_open U fuel serial D' (lu_wait U u' 250000))"

definition usb_close :: "'u libusb \<Rightarrow> qdl_device_usb \<Rightarrow> 'u \<Rightarrow> 'u" where
  "usb_close U D u = lu_exit U (lu_close U u (usb_handle D))"

subsection \<open>Listing\<close>

record qdl_device_desc =
  desc_vid :: u16
  desc_pid :: u16
  desc_serial :: string

text \<open>
  The entry's buffer has 16 bytes. The growth of the array, and its failure, is not modelled.
\<close>

definition usb_list_cb ::
  "'u libusb \<Rightarrow> nat \<Rightarrow> usb_device_descriptor \<Rightarrow> qdl_device_desc list \<Rightarrow> 'u
   \<Rightarrow> bool \<times> qdl_device_desc list \<times> 'u" where
  "usb_list_cb U dev desc entries u =
     (case lu_open U u dev of
        (None, u1) \<Rightarrow> (False, entries, u1)
      | (Some h, u1) \<Rightarrow>
          (case usb_read_serial U h desc 16 u1 of (s, u2) \<Rightarrow>
             (False, entries @ [\<lparr>desc_vid = idVendor desc, desc_pid = idProduct desc,
                desc_serial = (case s of None \<Rightarrow> ''(none)'' | Some t \<Rightarrow> t)\<rparr>], lu_close U u2 h)))"

definition usb_list :: "'u libusb \<Rightarrow> 'u \<Rightarrow> qdl_device_desc list option \<times> 'u" where
  "usb_list U u =
     (case lu_init U u of (ret, u1) \<Rightarrow>
        if ret < 0 then (None, u1)
        else (case usb_enumerate_edl_devices U (usb_list_cb U) [] u1 of (ret, entries, u2) \<Rightarrow>
          (if ret < 0 then None else Some entries, lu_exit U u2)))"

subsection \<open>Transfers\<close>

function usb_read ::
  "'u libusb \<Rightarrow> 'u \<times> qdl_device_usb \<Rightarrow> nat \<Rightarrow> nat \<Rightarrow> (int + u8 list) \<times> 'u \<times> qdl_device_usb" where
  "usb_read U (u, D) len timeout =
     (case lu_bulk_in U u (usb_handle D) (in_ep D) len timeout of (ret, data, u') \<Rightarrow>
        if ret \<noteq> 0 \<and> ret \<noteq> LIBUSB_ERROR_TIMEOUT
        then (Inl (if ret = LIBUSB_ERROR_NO_DEVICE then - ENODEV else - EIO), u', D\<lparr>expect_zlp := False\<rparr>)
        else if ret = LIBUSB_ERROR_TIMEOUT \<and> data = [] then (Inl (- ETIMEDOUT), u', D)
        else if \<not> expect_zlp D \<or> data \<noteq> []
        then (Inr data, u', D\<lparr>expect_zlp := length data > 0 \<and> len = length data
                                \<and> length data mod in_maxpktsize D = 0\<rparr>)
        else usb_read U (u', D\<lparr>expect_zlp := False\<rparr>) len timeout)"
  by pat_completeness auto
termination
  by (relation "measure (\<lambda>(U, (u, D), len, timeout). if expect_zlp D then 1 else 0)") auto

declare usb_read.simps [simp del]

text \<open>
  The loop of \<open>usb_write\<close>: the error it returns with, or the number of bytes the device accepted. A
  transfer that succeeds without accepting anything is repeated forever, which is \<open>None\<close>.
\<close>

partial_function (option) usb_write_loop ::
  "'u libusb \<Rightarrow> qdl_device_usb \<Rightarrow> nat \<Rightarrow> u8 list \<Rightarrow> u32 \<Rightarrow> 'u \<Rightarrow> ((int + u32) \<times> 'u) option" where
  "usb_write_loop U D timeout data count u =
     (if data = [] then Some (Inr count, u)
      else let xfer = (if length data > unat (out_chunk_size D) then unat (out_chunk_size D) else length data)
        in (case lu_bulk_out U u (usb_handle D) (out_ep D) (take xfer data) timeout of (ret, actual, u') \<Rightarrow>
          if ret \<noteq> 0 \<and> ret \<noteq> LIBUSB_ERROR_TIMEOUT then Some (Inl (- EIO), u')
          else if ret = LIBUSB_ERROR_TIMEOUT \<and> actual = 0 then Some (Inl (- ETIMEDOUT), u')
          else usb_write_loop U D timeout (drop actual data) (count + of_nat actual) u'))"

definition usb_write ::
  "'u libusb \<Rightarrow> 'u \<times> qdl_device_usb \<Rightarrow> u8 list \<Rightarrow> nat \<Rightarrow> (int \<times> 'u \<times> qdl_device_usb) option" where
  "usb_write U s buf timeout =
     (case s of (u, D) \<Rightarrow>
        (case usb_write_loop U D timeout buf 0 u of
           None \<Rightarrow> None
         | Some (Inl e, u1) \<Rightarrow> Some (e, u1, D)
         | Some (Inr count, u1) \<Rightarrow>
             if length buf mod out_maxpktsize D = 0
             then (case lu_bulk_out U u1 (usb_handle D) (out_ep D) [] timeout of (ret, actual, u2) \<Rightarrow>
               if ret < 0 then Some (- EIO, u2, D) else Some (sint count, u2, D))
             else Some (sint count, u1, D)))"

text \<open>
  The backend as a transport of the protocol layers. \<open>the\<close> says nothing of a write that does not
  return.
\<close>

definition usb_transport :: "'u libusb \<Rightarrow> ('u \<times> qdl_device_usb) transport" where
  "usb_transport U =
     \<lparr>tr_read = (\<lambda>s len timeout. usb_read U s len timeout),
      tr_write = (\<lambda>s buf timeout. the (usb_write U s buf timeout))\<rparr>"

end
