(* ===== verification/UsbProps.thy ===== *)
theory UsbProps
  imports Usb
begin

text \<open>
  What the libusb backend promises: a device that opened is usable, every message written to it
  arrives as one message, and messages of the device are read back whole whether or not it sends
  the zero-length packet that may follow a full buffer.
\<close>

subsection \<open>Bulk packets\<close>

text \<open>
  A bulk transfer travels as packets of the endpoint's maximum size and a last one that may be
  shorter; an empty transfer is one empty packet. A message ends with the first packet that is
  shorter than the maximum.
\<close>

function usb_packets :: "nat \<Rightarrow> u8 list \<Rightarrow> u8 list list" where
  "usb_packets mp xs =
     (if mp = 0 \<or> length xs \<le> mp then [xs] else take mp xs # usb_packets mp (drop mp xs))"
  by pat_completeness auto
termination by (relation "measure (\<lambda>(mp, xs). length xs)") auto

declare usb_packets.simps [simp del]

fun usb_messages :: "nat \<Rightarrow> u8 list \<Rightarrow> u8 list list \<Rightarrow> u8 list list \<times> u8 list" where
  "usb_messages mp acc [] = ([], acc)"
| "usb_messages mp acc (p # ps) =
     (if length p < mp then apfst (Cons (acc @ p)) (usb_messages mp [] ps)
      else usb_messages mp (acc @ p) ps)"

lemma usb_packets_whole:
  assumes "0 < mp" "mp dvd length xs" "xs \<noteq> []"
  shows "usb_messages mp acc (usb_packets mp xs @ ps) = usb_messages mp (acc @ xs) ps"
  using assms
proof (induction mp xs arbitrary: acc rule: usb_packets.induct)
  case (1 mp xs)
  show ?case
  proof (cases "length xs \<le> mp")
    case True
    have "length xs = mp" using True "1.prems" by (simp add: dvd_imp_le eq_iff)
    then show ?thesis by (subst usb_packets.simps) simp
  next
    case False
    have "mp dvd length (drop mp xs)" using "1.prems" False by simp
    moreover have "drop mp xs \<noteq> []" using False by simp
    ultimately show ?thesis using 1 False
      by (subst usb_packets.simps) simp
  qed
qed

lemma usb_packets_short:
  assumes "0 < mp" "\<not> mp dvd length xs \<or> xs = []"
  shows "usb_messages mp acc (usb_packets mp xs @ ps) = apfst (Cons (acc @ xs)) (usb_messages mp [] ps)"
  using assms
proof (induction mp xs arbitrary: acc rule: usb_packets.induct)
  case (1 mp xs)
  show ?case
  proof (cases "length xs \<le> mp")
    case True
    have "length xs < mp" using True "1.prems" by (cases "length xs = mp") auto
    then show ?thesis by (subst usb_packets.simps) simp
  next
    case False
    have "\<not> mp dvd length (drop mp xs)" using "1.prems" False
      by (auto simp: dvd_minus_self)
    then show ?thesis using 1 False
      by (subst usb_packets.simps) simp
  qed
qed

subsection \<open>Writing\<close>

text \<open>
  A working endpoint: a transfer to it is accepted whole and its packets follow those sent before.
  \<open>sent\<close> reads them off the bus.
\<close>

definition bulk_out_works :: "'u libusb \<Rightarrow> qdl_device_usb \<Rightarrow> ('u \<Rightarrow> u8 list list) \<Rightarrow> bool" where
  "bulk_out_works U D sent \<longleftrightarrow>
     (\<forall>u data timeout. \<exists>u'. lu_bulk_out U u (usb_handle D) (out_ep D) data timeout = (0, length data, u')
        \<and> sent u' = sent u @ usb_packets (out_maxpktsize D) data)"

lemma bulk_outD:
  "bulk_out_works U D sent \<Longrightarrow>
   \<exists>u'. lu_bulk_out U u (usb_handle D) (out_ep D) data timeout = (0, length data, u')
     \<and> sent u' = sent u @ usb_packets (out_maxpktsize D) data"
  by (simp add: bulk_out_works_def)

text \<open>The packets of the chunks a message is cut into, and of the whole write.\<close>

function chunk_packets :: "nat \<Rightarrow> nat \<Rightarrow> u8 list \<Rightarrow> u8 list list" where
  "chunk_packets mp c xs =
     (if c = 0 \<or> xs = [] then [] else usb_packets mp (take c xs) @ chunk_packets mp c (drop c xs))"
  by pat_completeness auto
termination by (relation "measure (\<lambda>(mp, c, xs). length xs)") auto

declare chunk_packets.simps [simp del]

definition write_packets :: "nat \<Rightarrow> nat \<Rightarrow> u8 list \<Rightarrow> u8 list list" where
  "write_packets mp c m = chunk_packets mp c m @ (if mp dvd length m then [[]] else [])"

lemma write_loop_sends:
  assumes out: "bulk_out_works U D sent" and chunk: "0 < unat (out_chunk_size D)"
  shows "\<exists>u'. usb_write_loop U D tmo data count u = Some (Inr (count + of_nat (length data)), u')
    \<and> sent u' = sent u @ chunk_packets (out_maxpktsize D) (unat (out_chunk_size D)) data"
proof (induction data arbitrary: count u rule: length_induct)
  case (1 data)
  let ?c = "unat (out_chunk_size D)" and ?mp = "out_maxpktsize D"
  show ?case
  proof (cases "data = []")
    case True
    then show ?thesis by (subst usb_write_loop.simps) (simp add: chunk_packets.simps)
  next
    case False
    define x where "x = take ?c data"
    obtain u1 where u1: "lu_bulk_out U u (usb_handle D) (out_ep D) x tmo = (0, length x, u1)"
      "sent u1 = sent u @ usb_packets ?mp x"
      using bulk_outD [OF out] by blast
    have xfer: "take (if length data > ?c then ?c else length data) data = x" by (simp add: x_def)
    have drop: "drop (length x) data = drop ?c data" by (simp add: x_def min_def)
    have "length (drop ?c data) < length data" using False chunk by simp
    with 1 obtain u2 where ih: "usb_write_loop U D tmo (drop ?c data) (count + of_nat (length x)) u1
         = Some (Inr (count + of_nat (length x) + of_nat (length (drop ?c data))), u2)"
      "sent u2 = sent u1 @ chunk_packets ?mp ?c (drop ?c data)"
      by meson
    have split: "x @ drop ?c data = data" by (simp add: x_def)
    have len: "length x + length (drop ?c data) = length data" using arg_cong [OF split, of length] by simp
    have "usb_write_loop U D tmo data count u = Some (Inr (count + of_nat (length data)), u2)"
      using False u1(1) ih(1) len
      by (subst usb_write_loop.simps) (simp add: xfer drop add.assoc flip: of_nat_add)
    moreover have "sent u2 = sent u @ chunk_packets ?mp ?c data"
      using False chunk u1(2) ih(2) by (subst chunk_packets.simps) (simp add: x_def)
    ultimately show ?thesis by blast
  qed
qed

lemma usb_write_wire:
  assumes out: "bulk_out_works U D sent" and chunk: "0 < unat (out_chunk_size D)"
  shows "\<exists>u'. usb_write U (u, D) m tmo = Some (sint (of_nat (length m) :: u32), u', D)
    \<and> sent u' = sent u @ write_packets (out_maxpktsize D) (unat (out_chunk_size D)) m"
proof -
  obtain u1 where 1: "usb_write_loop U D tmo m 0 u = Some (Inr (of_nat (length m)), u1)"
    "sent u1 = sent u @ chunk_packets (out_maxpktsize D) (unat (out_chunk_size D)) m"
    using write_loop_sends [OF out chunk, of tmo m 0 u] by auto
  obtain u2 where 2: "lu_bulk_out U u1 (usb_handle D) (out_ep D) [] tmo = (0, 0, u2)" "sent u2 = sent u1 @ [[]]"
    using bulk_outD [OF out, of u1 "[]" tmo] by (auto simp: usb_packets.simps)
  show ?thesis using 1 2
    by (cases "out_maxpktsize D dvd length m") (simp_all add: usb_write_def write_packets_def dvd_eq_mod_eq_0)
qed

lemma usb_write_sends:
  assumes "bulk_out_works U D sent" "0 < unat (out_chunk_size D)" "length m < 2 ^ 31"
  shows "\<exists>u'. usb_write U (u, D) m tmo = Some (int (length m), u', D)
    \<and> sent u' = sent u @ write_packets (out_maxpktsize D) (unat (out_chunk_size D)) m"
  using usb_write_wire [OF assms(1,2), of u m tmo] assms(3) by (simp add: signed_of_nat signed_take_bit_int_eq_self)

text \<open>Chunks of whole packets keep a message together.\<close>

lemma chunk_packets_message:
  assumes "0 < mp" "0 < c" "mp dvd c"
  shows "usb_messages mp acc (chunk_packets mp c xs @ ps) =
    (if mp dvd length xs then usb_messages mp (acc @ xs) ps
     else apfst (Cons (acc @ xs)) (usb_messages mp [] ps))"
  using assms
proof (induction mp c xs arbitrary: acc rule: chunk_packets.induct)
  case (1 mp c xs)
  show ?case
  proof (cases "length xs \<le> c")
    case True
    have "chunk_packets mp c xs = (if xs = [] then [] else usb_packets mp xs)"
      using True "1.prems" by (subst chunk_packets.simps) (simp add: chunk_packets.simps)
    then show ?thesis using "1.prems"(1) by (simp add: usb_packets_whole usb_packets_short)
  next
    case False
    then have "mp dvd length (drop c xs) \<longleftrightarrow> mp dvd length xs"
      using "1.prems"(3) by (auto simp: dvd_diff_nat elim: dvd_diffD)
    moreover have "take c xs \<noteq> []" "mp dvd length (take c xs)" "xs \<noteq> []" using "1.prems" False by (auto simp: min_def)
    ultimately show ?thesis using 1 by (subst chunk_packets.simps) (simp add: usb_packets_whole)
  qed
qed

lemma write_packets_message:
  assumes "0 < mp" "0 < c" "mp dvd c"
  shows "usb_messages mp [] (write_packets mp c m @ rest) = apfst (Cons m) (usb_messages mp [] rest)"
  using chunk_packets_message [OF assms, of "[]" m] assms(1) by (simp add: write_packets_def)

text \<open>Other chunks do not: the first one ends a message of its own.\<close>

lemma write_packets_split:
  assumes "0 < mp" "0 < c" "\<not> mp dvd c" "c < length m"
  shows "\<exists>ps. write_packets mp c m = usb_packets mp (take c m) @ ps
    \<and> usb_messages mp [] (write_packets mp c m @ rest) = apfst (Cons (take c m)) (usb_messages mp [] (ps @ rest))"
proof -
  have m: "m \<noteq> []" using assms(4) by auto
  define ps where "ps = chunk_packets mp c (drop c m) @ (if mp dvd length m then [[]] else [])"
  have "write_packets mp c m = usb_packets mp (take c m) @ ps"
    using assms(2) m unfolding write_packets_def ps_def by (subst chunk_packets.simps) simp
  moreover have "\<not> mp dvd length (take c m)" using assms(3,4) by simp
  ultimately show ?thesis using assms(1) usb_packets_short [of mp "take c m" "[]"] by auto
qed

fun usb_write_each ::
  "'u libusb \<Rightarrow> nat \<Rightarrow> u8 list list \<Rightarrow> 'u \<times> qdl_device_usb \<Rightarrow> (int list \<times> 'u \<times> qdl_device_usb) option" where
  "usb_write_each U tmo [] s = Some ([], s)"
| "usb_write_each U tmo (m # ms) s =
     (case usb_write U s m tmo of
        None \<Rightarrow> None
      | Some (r, s') \<Rightarrow> map_option (apfst (Cons r)) (usb_write_each U tmo ms s'))"

lemma usb_write_each_sends:
  assumes out: "bulk_out_works U D sent" and mp: "0 < out_maxpktsize D"
    and chunk: "0 < unat (out_chunk_size D)" "out_maxpktsize D dvd unat (out_chunk_size D)"
  shows "\<forall>m \<in> set ms. length m < 2 ^ 31 \<Longrightarrow>
    \<exists>u' ps. usb_write_each U tmo ms (u, D) = Some (map (\<lambda>m. int (length m)) ms, u', D)
      \<and> sent u' = sent u @ ps \<and> usb_messages (out_maxpktsize D) [] ps = (ms, [])"
proof (induction ms arbitrary: u)
  case Nil
  then show ?case by auto
next
  case (Cons m ms)
  let ?ps = "write_packets (out_maxpktsize D) (unat (out_chunk_size D)) m"
  obtain u1 where 1: "usb_write U (u, D) m tmo = Some (int (length m), u1, D)" "sent u1 = sent u @ ?ps"
    using usb_write_sends [OF out chunk(1), of m u tmo] Cons.prems by auto
  obtain u2 qs where 2: "usb_write_each U tmo ms (u1, D) = Some (map (\<lambda>m. int (length m)) ms, u2, D)"
    "sent u2 = sent u1 @ qs" "usb_messages (out_maxpktsize D) [] qs = (ms, [])"
    using Cons.IH [of u1] Cons.prems by auto
  have "usb_messages (out_maxpktsize D) [] (?ps @ qs) = (m # ms, [])"
    using write_packets_message [OF mp chunk] 2(3) by simp
  then show ?case using 1 2(1,2) by auto
qed

subsection \<open>Opening\<close>

text \<open>
  What opening makes of the handle \<open>D\<close>: a pair of endpoints with packet sizes, no zero-length packet
  outstanding, and a chunk size that is the requested one when that is a multiple of the packet
  size, the packet size when it is not, and the default when none was requested.
\<close>

definition usb_ready :: "qdl_device_usb \<Rightarrow> qdl_device_usb \<Rightarrow> bool" where
  "usb_ready D D' \<longleftrightarrow> 0 \<le> in_ep D' \<and> 0 \<le> out_ep D' \<and> 0 < in_maxpktsize D' \<and> 0 < out_maxpktsize D'
     \<and> out_maxpktsize D' < 65536 \<and> \<not> expect_zlp D'
     \<and> unat (out_chunk_size D') =
         (let c = unat (out_chunk_size D) in
          if c = 0 then 1048576 else if out_maxpktsize D' dvd c then c else out_maxpktsize D')"

lemma edl_endpoints_bound:
  "edl_out_maxpktsize edl < 65536 \<Longrightarrow> edl_out_maxpktsize (fold edl_endpoint es edl) < 65536"
  by (induction es arbitrary: edl) (auto simp: edl_endpoint_def)

lemma match_edl_interface_some:
  assumes "usb_match_edl_interface ifc = Some edl"
  shows "0 \<le> edl_in_ep edl" "0 \<le> edl_out_ep edl" "0 < edl_in_maxpktsize edl" "0 < edl_out_maxpktsize edl"
    "edl_out_maxpktsize edl < 65536"
  using assms edl_endpoints_bound
  by (auto simp: usb_match_edl_interface_def Let_def split: if_splits)

lemma find_edl_interface_some:
  "find_edl_interface ifcs = Some (n, edl) \<Longrightarrow> \<exists>ifc \<in> set ifcs. usb_match_edl_interface ifc = Some edl"
  by (induction ifcs) (auto split: option.splits)

lemma usb_adopt_ready:
  assumes "usb_match_edl_interface ifc = Some edl"
  shows "usb_ready D (usb_adopt h edl D)"
proof -
  note m = match_edl_interface_some [OF assms]
  have "unat (of_nat (edl_out_maxpktsize edl) :: u64) = edl_out_maxpktsize edl"
    using m(5) by (simp add: unsigned_of_nat take_bit_nat_eq_self)
  moreover have "c = 0 \<longleftrightarrow> unat c = 0" for c :: u64 by (simp add: unsigned_eq_0_iff)
  moreover have "unat DEFAULT_OUT_CHUNK_SIZE = 1048576" by (simp add: DEFAULT_OUT_CHUNK_SIZE_def)
  ultimately show ?thesis using m
    by (simp add: usb_ready_def usb_adopt_def Let_def unat_mod dvd_eq_mod_eq_0)
qed

lemma usb_match_device_some:
  "usb_match_device U h desc serial u = (Some (n, edl), u') \<Longrightarrow>
   \<exists>ifc. usb_match_edl_interface ifc = Some edl"
  using find_edl_interface_some
  by (fastforce simp: usb_match_device_def split: prod.splits if_splits option.splits)

lemma usb_open_device_cases:
  assumes "usb_open_device U dev desc serial D u = (opened, D', u')"
  shows "if opened then usb_ready D D' else D' = D"
  using assms usb_match_device_some usb_adopt_ready
  by (fastforce simp: usb_open_device_def split: prod.splits if_splits option.splits)

text \<open>\<open>Q\<close> holds while the enumeration goes on, \<open>P\<close> of what it leaves.\<close>

lemma enumerate_loop_inv:
  assumes "\<And>dev desc a u stop a' u'. Q a \<Longrightarrow> cb dev desc a u = (stop, a', u') \<Longrightarrow> if stop then P a' else Q a'"
    and "\<And>a. Q a \<Longrightarrow> P a"
  shows "Q a \<Longrightarrow> enumerate_loop U cb devs v a u = (v', a', u') \<Longrightarrow> P a'"
proof (induction devs arbitrary: v a u)
  case Nil
  then show ?case using assms(2) by simp
next
  case (Cons dev devs)
  show ?case
  proof (cases "lu_device_descriptor U u dev")
    case None
    then show ?thesis using Cons by simp
  next
    case (Some desc)
    obtain stop a1 u1 where cb: "cb dev desc a u = (stop, a1, u1)" by (cases "cb dev desc a u") auto
    then show ?thesis using Cons Some assms(1) [OF Cons.prems(1) cb] by (auto split: if_splits)
  qed
qed

lemma usb_open_cb_cases:
  assumes "usb_open_cb U serial dev desc c u = (stop, c', u')" "ctx_qdl c = D" "\<not> ctx_found c"
  shows "if stop then ctx_found c' \<and> usb_ready D (ctx_qdl c') else ctx_qdl c' = D \<and> \<not> ctx_found c'"
proof -
  obtain opened D1 u1 where o: "usb_open_device U dev desc serial D u = (opened, D1, u1)"
    by (cases "usb_open_device U dev desc serial D u") auto
  show ?thesis using usb_open_device_cases [OF o] assms o
    by (auto simp: usb_open_cb_def split: prod.splits if_splits)
qed

lemma usb_enumerate_inv:
  assumes "\<And>dev desc a u stop a' u'. Q a \<Longrightarrow> cb dev desc a u = (stop, a', u') \<Longrightarrow> if stop then P a' else Q a'"
    and "\<And>a. Q a \<Longrightarrow> P a" and "Q a" and "usb_enumerate_edl_devices U cb a u = (v', a', u')"
  shows "P a'"
proof (cases "lu_device_list U u")
  case (Pair r u1)
  show ?thesis
  proof (cases r)
    case (Inl e)
    then show ?thesis using Pair assms(2-4) by (simp add: usb_enumerate_edl_devices_def)
  next
    case (Inr devs)
    then have "enumerate_loop U cb devs 0 a u1 = (v', a', u')"
      using Pair assms(4) by (simp add: usb_enumerate_edl_devices_def)
    from enumerate_loop_inv [of Q cb P, OF assms(1,2) assms(3) this] show ?thesis .
  qed
qed

lemma usb_open_once_ready:
  assumes "usb_open_once U serial D u = (0, visible, D', u')"
  shows "usb_ready D D'"
proof -
  let ?c = "\<lparr>ctx_qdl = D, matched_serial = [], matched_pid = 0, ctx_found = False\<rparr>"
  define Q where "Q c \<longleftrightarrow> ctx_qdl c = D \<and> \<not> ctx_found c" for c :: usb_open_ctx
  obtain r u1 where i: "lu_init U u = (r, u1)" by (cases "lu_init U u") auto
  obtain v c u2 where e: "usb_enumerate_edl_devices U (usb_open_cb U serial) ?c u1 = (v, c, u2)"
    by (cases "usb_enumerate_edl_devices U (usb_open_cb U serial) ?c u1") auto
  have "if ctx_found c then usb_ready D (ctx_qdl c) else Q c"
  proof (rule usb_enumerate_inv [of Q "usb_open_cb U serial", OF _ _ _ e])
    show "if stop then if ctx_found c' then usb_ready D (ctx_qdl c') else Q c' else Q c'"
      if "Q c" "usb_open_cb U serial dev desc c u = (stop, c', u')" for dev desc c u stop c' u'
      using usb_open_cb_cases [OF that(2)] that(1) by (cases stop) (simp_all add: Q_def)
  qed (simp_all add: Q_def)
  then show ?thesis using assms i e by (auto simp: usb_open_once_def split: if_splits)
qed

text \<open>A chunk of a device that is ready holds whole packets.\<close>

lemma usb_ready_chunk:
  assumes "usb_ready D D'" "out_maxpktsize D' dvd 1048576"
  shows "0 < out_maxpktsize D' \<and> 0 < unat (out_chunk_size D') \<and> out_maxpktsize D' dvd unat (out_chunk_size D')"
  using assms by (auto simp: usb_ready_def Let_def)

subsection \<open>A session\<close>

text \<open>
  C9: Whatever chunk size was asked for, after the device was opened every message written to it
  arrives as one message: each write returns the length of its message, and the packets on the bus
  fall apart, at the packets shorter than the endpoint's size, into exactly the messages written, in
  order, an empty packet ending those whose length is a multiple of it. A packet size divides the
  default chunk of 1 MiB, as every one that USB allows does.
\<close>

theorem usb_session_messages:
  assumes "usb_open_once U serial D u = (0, visible, D', u')" "out_maxpktsize D' dvd 1048576"
    and "bulk_out_works U D' sent" "\<forall>m \<in> set ms. length m < 2 ^ 31"
  shows "\<exists>u'' ps. usb_write_each U timeout ms (u', D') = Some (map (\<lambda>m. int (length m)) ms, u'', D')
    \<and> sent u'' = sent u' @ ps \<and> usb_messages (out_maxpktsize D') [] ps = (ms, [])"
proof -
  have "usb_ready D D'" using assms(1) by (rule usb_open_once_ready)
  from usb_ready_chunk [OF this assms(2)] show ?thesis
    using usb_write_each_sends [OF assms(3) _ _ _ assms(4)] by simp
qed

text \<open>A bus with one device on it; its state is the list of the packets sent.\<close>

definition ex_interface :: usb_interface_descriptor where
  "ex_interface = \<lparr>bInterfaceNumber = 0, bInterfaceClass = 0xff, bInterfaceSubClass = 0xff,
     bInterfaceProtocol = 0x10,
     endpoint = [\<lparr>bEndpointAddress = 0x81, bmAttributes = 2, wMaxPacketSize = 64\<rparr>,
                 \<lparr>bEndpointAddress = 0x01, bmAttributes = 2, wMaxPacketSize = 64\<rparr>]\<rparr>"

definition ex_libusb :: "u8 list list libusb" where
  "ex_libusb = \<lparr>lu_init = (\<lambda>u. (0, u)), lu_exit = (\<lambda>u. u), lu_device_list = (\<lambda>u. (Inr [7], u)),
     lu_device_descriptor = (\<lambda>u d. Some \<lparr>idVendor = 0x05c6, idProduct = 0x9008, iProduct = 0, iSerialNumber = 0\<rparr>),
     lu_open = (\<lambda>u d. (Some 3, u)), lu_close = (\<lambda>u h. u), lu_config = (\<lambda>u h. (Some [ex_interface], u)),
     lu_detach = (\<lambda>u h i. u), lu_claim = (\<lambda>u h i. (0, u)),
     lu_string = (\<lambda>u h i n. (Inl LIBUSB_ERROR_NOT_FOUND, u)),
     lu_bulk_in = (\<lambda>u h ep n t. (LIBUSB_ERROR_TIMEOUT, [], u)),
     lu_bulk_out = (\<lambda>u h ep data t. (0, length data, u @ usb_packets 64 data)),
     lu_wait = (\<lambda>u t. u)\<rparr>"

definition ex_usb_opened :: "u64 \<Rightarrow> qdl_device_usb" where
  "ex_usb_opened chunk = \<lparr>usb_handle = 3, in_ep = 129, out_ep = 1, in_maxpktsize = 64, out_maxpktsize = 64,
     out_chunk_size = chunk, expect_zlp = False\<rparr>"

lemma ex_edl_interface:
  "usb_match_edl_interface ex_interface
     = Some \<lparr>edl_in_ep = 129, edl_out_ep = 1, edl_in_maxpktsize = 64, edl_out_maxpktsize = 64\<rparr>"
  by (simp add: usb_match_edl_interface_def ex_interface_def edl_endpoint_def LIBUSB_TRANSFER_TYPE_MASK_def
      LIBUSB_ENDPOINT_TRANSFER_TYPE_BULK_def LIBUSB_ENDPOINT_IN_def)

lemmas ex_usb_open_simps = usb_open_once_def usb_enumerate_edl_devices_def ex_libusb_def usb_is_edl_device_def
  qdl_is_edl_device_def QUALCOMM_VID_def usb_open_cb_def usb_open_device_def usb_match_device_def
  usb_match_serial_def ex_edl_interface usb_adopt_def usb_init_def usb_set_out_chunk_size_def
  usb_read_serial_def usb_read_string_def ex_usb_opened_def

lemma ex_usb_open:
  "usb_open_once ex_libusb None (usb_set_out_chunk_size usb_init 100) []
     = (0, 1, ex_usb_opened 64, [])"
  by (simp add: ex_usb_open_simps)

lemma ex_bulk_out: "bulk_out_works ex_libusb (ex_usb_opened c) (\<lambda>u. u)"
  by (simp add: bulk_out_works_def ex_libusb_def ex_usb_opened_def)

lemma usb_session_messages_witness:
  "\<exists>u'' ps. usb_write_each ex_libusb 1000 [replicate 128 1, [], [2, 3]] ([], ex_usb_opened 64)
       = Some ([128, 0, 2], u'', ex_usb_opened 64)
     \<and> u'' = [] @ ps \<and> usb_messages 64 [] ps = ([replicate 128 1, [], [2, 3]], [])"
proof -
  have "\<forall>m \<in> set [replicate 128 1, [], [2, 3 :: u8]]. length m < 2 ^ 31" by simp
  from usb_session_messages [OF ex_usb_open _ ex_bulk_out this, of 1000] show ?thesis
    by (simp add: ex_usb_opened_def)
qed

subsection \<open>Reading\<close>

text \<open>
  What libusb does with a read of \<open>len\<close> bytes, a multiple of the packet size, while packets wait at
  the endpoint: it ends when the buffer is full or with a short packet, and otherwise with the
  timeout and what came until then.
\<close>

fun usb_transfer :: "nat \<Rightarrow> nat \<Rightarrow> u8 list \<Rightarrow> u8 list list \<Rightarrow> int \<times> u8 list \<times> u8 list list" where
  "usb_transfer mp len acc [] = (LIBUSB_ERROR_TIMEOUT, acc, [])"
| "usb_transfer mp len acc (p # ps) =
     (if length p < mp \<or> len \<le> length acc + length p then (0, acc @ p, ps)
      else usb_transfer mp len (acc @ p) ps)"

definition bulk_in_works :: "'u libusb \<Rightarrow> qdl_device_usb \<Rightarrow> ('u \<Rightarrow> u8 list list) \<Rightarrow> bool" where
  "bulk_in_works U D inbox \<longleftrightarrow>
     (\<forall>u len timeout. 0 < len \<and> in_maxpktsize D dvd len \<longrightarrow>
        (\<exists>ret data u'. lu_bulk_in U u (usb_handle D) (in_ep D) len timeout = (ret, data, u')
           \<and> usb_transfer (in_maxpktsize D) len [] (inbox u) = (ret, data, inbox u')))"

text \<open>
  A message of the device: its bytes and whether the device ends it with an empty packet, which only
  matters when its length is a multiple of the packet size. It has to, unless the message fills the
  reader's buffer or nothing follows it.
\<close>

definition device_packets :: "nat \<Rightarrow> u8 list \<times> bool \<Rightarrow> u8 list list" where
  "device_packets mp mz = usb_packets mp (fst mz) @ (if mp dvd length (fst mz) \<and> snd mz then [[]] else [])"

fun device_sends :: "nat \<Rightarrow> nat \<Rightarrow> (u8 list \<times> bool) list \<Rightarrow> bool" where
  "device_sends mp len [] = True"
| "device_sends mp len ((m, z) # ms) =
     (m \<noteq> [] \<and> length m \<le> len \<and> (mp dvd length m \<longrightarrow> z \<or> length m = len \<or> ms = [])
      \<and> device_sends mp len ms)"

lemma usb_transfer_message:
  assumes "0 < mp" "xs \<noteq> []" "mp dvd len" "mp dvd length acc" "length acc + length xs \<le> len"
  shows "usb_transfer mp len acc (usb_packets mp xs @ ps) =
    (if mp dvd length xs \<and> length acc + length xs < len then usb_transfer mp len (acc @ xs) ps
     else (0, acc @ xs, ps))"
  using assms
proof (induction mp xs arbitrary: acc rule: usb_packets.induct)
  case (1 mp xs)
  show ?case
  proof (cases "length xs \<le> mp")
    case True
    then have "mp dvd length xs \<longleftrightarrow> length xs = mp" using "1.prems"(2) by (auto dest: dvd_imp_le)
    then show ?thesis using True "1.prems" by (subst usb_packets.simps) auto
  next
    case False
    have "mp dvd length (drop mp xs) \<longleftrightarrow> mp dvd length xs" using False by (auto simp: dvd_minus_self)
    moreover have "mp dvd length (acc @ take mp xs)" using "1.prems" False by (simp add: min_def)
    ultimately show ?thesis using 1 False by (subst usb_packets.simps) simp
  qed
qed

lemma usb_transfer_device:
  assumes "0 < mp" "mp dvd len" "device_sends mp len ((m, z) # ms)"
  shows "\<exists>ret lead. usb_transfer mp len [] (device_packets mp (m, z) @ concat (map (device_packets mp) ms))
      = (ret, m, lead @ concat (map (device_packets mp) ms))
    \<and> (ret = 0 \<or> ret = LIBUSB_ERROR_TIMEOUT)
    \<and> (lead = [] \<or> lead = [[]] \<and> length m = len \<and> mp dvd length m)"
proof (cases "mp dvd length m \<and> length m < len")
  case True
  then have "z \<or> ms = []" using assms(3) by auto
  then show ?thesis using assms True by (auto simp: device_packets_def usb_transfer_message)
next
  case False
  then show ?thesis using assms by (auto simp: device_packets_def usb_transfer_message)
qed

text \<open>One read: an empty packet left over from the message before is passed over.\<close>

lemma usb_read_message:
  assumes works: "bulk_in_works U D inbox" and mp: "0 < in_maxpktsize D" "0 < len" "in_maxpktsize D dvd len"
    and ms: "device_sends (in_maxpktsize D) len ((m, z) # ms)"
    and inbox: "inbox u = lead @ concat (map (device_packets (in_maxpktsize D)) ((m, z) # ms))"
    and lead: "lead = [] \<or> lead = [[]] \<and> expect_zlp D"
  shows "\<exists>u' b lead'. usb_read U (u, D) len tmo = (Inr m, u', D\<lparr>expect_zlp := b\<rparr>)
    \<and> inbox u' = lead' @ concat (map (device_packets (in_maxpktsize D)) ms)
    \<and> (lead' = [] \<or> lead' = [[]] \<and> b)"
proof -
  let ?mp = "in_maxpktsize D"
  have step: "\<exists>u' b lead'. usb_read U (v, D\<lparr>expect_zlp := e\<rparr>) len tmo = (Inr m, u', D\<lparr>expect_zlp := b\<rparr>)
      \<and> inbox u' = lead' @ concat (map (device_packets ?mp) ms) \<and> (lead' = [] \<or> lead' = [[]] \<and> b)"
    if "inbox v = concat (map (device_packets ?mp) ((m, z) # ms))" for v e
  proof -
    have ib: "inbox v = device_packets ?mp (m, z) @ concat (map (device_packets ?mp) ms)" using that by simp
    obtain ret l where t: "usb_transfer ?mp len [] (inbox v) = (ret, m, l @ concat (map (device_packets ?mp) ms))"
      "ret = 0 \<or> ret = LIBUSB_ERROR_TIMEOUT" "l = [] \<or> l = [[]] \<and> length m = len \<and> ?mp dvd length m"
      using usb_transfer_device [OF mp(1,3) ms] unfolding ib by blast
    obtain ret' data v' where b: "lu_bulk_in U v (usb_handle D) (in_ep D) len tmo = (ret', data, v')"
      "usb_transfer ?mp len [] (inbox v) = (ret', data, inbox v')"
      using works mp unfolding bulk_in_works_def by meson
    have "ret' = ret" "data = m" "inbox v' = l @ concat (map (device_packets ?mp) ms)" using b(2) t(1) by simp_all
    moreover have "m \<noteq> []" using ms by simp
    ultimately show ?thesis using b(1) t(2,3)
      by (intro exI [of _ v'] exI [of _ "length m > 0 \<and> len = length m \<and> length m mod ?mp = 0"] exI [of _ l])
        (subst usb_read.simps, auto simp: dvd_eq_mod_eq_0)
  qed
  show ?thesis
  proof (cases "lead = []")
    case True
    then show ?thesis using step [of u "expect_zlp D"] inbox by simp
  next
    case False
    then have l: "lead = [[]]" "expect_zlp D" using lead by auto
    obtain ret data v where b: "lu_bulk_in U u (usb_handle D) (in_ep D) len tmo = (ret, data, v)"
      "usb_transfer ?mp len [] (inbox u) = (ret, data, inbox v)"
      using works mp unfolding bulk_in_works_def by meson
    have "ret = 0" "data = []" "inbox v = concat (map (device_packets ?mp) ((m, z) # ms))"
      using b(2) inbox l(1) mp(1) by simp_all
    then show ?thesis using step [of v False] b(1) l(2) by (subst usb_read.simps) simp
  qed
qed

fun usb_read_each ::
  "'u libusb \<Rightarrow> nat \<Rightarrow> nat \<Rightarrow> nat \<Rightarrow> 'u \<times> qdl_device_usb \<Rightarrow> (int + u8 list) list \<times> 'u \<times> qdl_device_usb" where
  "usb_read_each U len timeout 0 s = ([], s)"
| "usb_read_each U len timeout (Suc n) s =
     (case usb_read U s len timeout of (r, s') \<Rightarrow> apfst (Cons r) (usb_read_each U len timeout n s'))"

lemma usb_read_each_messages:
  assumes "bulk_in_works U D inbox" "0 < in_maxpktsize D" "0 < len" "in_maxpktsize D dvd len"
  shows "device_sends (in_maxpktsize D) len ms \<Longrightarrow>
    inbox u = lead @ concat (map (device_packets (in_maxpktsize D)) ms) \<Longrightarrow>
    lead = [] \<or> lead = [[]] \<and> b \<Longrightarrow>
    fst (usb_read_each U len tmo (length ms) (u, D\<lparr>expect_zlp := b\<rparr>)) = map (\<lambda>mz. Inr (fst mz)) ms"
proof (induction ms arbitrary: u lead b)
  case Nil
  then show ?case by simp
next
  case (Cons mz ms)
  obtain m z where mz: "mz = (m, z)" by (cases mz)
  let ?D = "D\<lparr>expect_zlp := b\<rparr>"
  have "bulk_in_works U ?D inbox" using assms(1) by (simp add: bulk_in_works_def)
  then obtain u1 b1 l1 where r: "usb_read U (u, ?D) len tmo = (Inr m, u1, ?D\<lparr>expect_zlp := b1\<rparr>)"
    "inbox u1 = l1 @ concat (map (device_packets (in_maxpktsize D)) ms)" "l1 = [] \<or> l1 = [[]] \<and> b1"
    using usb_read_message [of U ?D inbox len m z ms u lead tmo] assms Cons.prems mz by auto
  have "device_sends (in_maxpktsize D) len ms" using Cons.prems(1) mz by simp
  from Cons.IH [OF this r(2,3)] show ?case using r(1) mz by simp
qed

text \<open>
  C10: Reads give the device's messages back whole, each read one message, whether or not the device
  sends the empty packet that ends a message filling the reader's buffer: one that was sent is
  consumed by the read of the message after it and never taken for an empty answer.
\<close>

theorem usb_reads_messages:
  assumes "bulk_in_works U D inbox" "0 < in_maxpktsize D" "0 < len" "in_maxpktsize D dvd len" "\<not> expect_zlp D"
    and "device_sends (in_maxpktsize D) len ms" "inbox u = concat (map (device_packets (in_maxpktsize D)) ms)"
  shows "fst (usb_read_each U len timeout (length ms) (u, D)) = map (\<lambda>mz. Inr (fst mz)) ms"
proof -
  have D: "D\<lparr>expect_zlp := False\<rparr> = D" using assms(5) by simp
  show ?thesis using usb_read_each_messages [OF assms(1-4,6), of u "[]" False] assms(7) unfolding D by simp
qed

definition ex_libusb_in :: "u8 list list libusb" where
  "ex_libusb_in = ex_libusb\<lparr>lu_bulk_in := (\<lambda>u h ep n t. usb_transfer 64 n [] u)\<rparr>"

lemma usb_reads_messages_witness:
  "fst (usb_read_each ex_libusb_in 128 1000 4
       (concat (map (device_packets 64)
          [(replicate 128 1, True), ([2, 3], False), (replicate 128 4, False), (replicate 64 5, True)]),
        ex_usb_opened 64))
     = [Inr (replicate 128 1), Inr [2, 3], Inr (replicate 128 4), Inr (replicate 64 5)]"
proof -
  let ?ms = "[(replicate 128 1, True), ([2, 3], False), (replicate 128 4, False), (replicate 64 5, True)] :: (u8 list \<times> bool) list"
  have works: "bulk_in_works ex_libusb_in (ex_usb_opened 64) (\<lambda>u. u)"
    by (auto simp: bulk_in_works_def ex_libusb_in_def ex_usb_opened_def intro: prod_cases3)
  have sends: "device_sends 64 128 ?ms" by (simp add: dvd_eq_mod_eq_0)
  have D: "in_maxpktsize (ex_usb_opened 64) = 64" "\<not> expect_zlp (ex_usb_opened 64)"
    by (simp_all add: ex_usb_opened_def)
  have "fst (usb_read_each ex_libusb_in 128 1000 (length ?ms) (concat (map (device_packets 64) ?ms), ex_usb_opened 64))
      = map (\<lambda>mz. Inr (fst mz)) ?ms"
    using D sends by (intro usb_reads_messages [OF works]) (simp_all add: dvd_eq_mod_eq_0)
  moreover have "length ?ms = 4" by simp
  ultimately show ?thesis by (simp only: list.map fst_conv)
qed

end
