(* ===== verification/UsbSession.thy ===== *)
theory UsbSession
  imports UsbProps FhSession
begin

text \<open>
  The protocol layer on the libusb backend: the obligations that \<open>guarded_link\<close> puts on a transport
  are discharged for an opened USB device, so what a firehose session writes is what the device
  reads off the bus, message by message.
\<close>

subsection \<open>The bus as a guarded link\<close>

lemma usb_messages_append:
  "usb_messages mp acc (ps @ qs)
     = (fst (usb_messages mp acc ps) @ fst (usb_messages mp (snd (usb_messages mp acc ps)) qs),
        snd (usb_messages mp (snd (usb_messages mp acc ps)) qs))"
  by (induction mp acc ps rule: usb_messages.induct) (simp_all add: prod_eq_iff)

text \<open>Reads send nothing.\<close>

definition bulk_in_silent :: "'u libusb \<Rightarrow> ('u \<Rightarrow> u8 list list) \<Rightarrow> bool" where
  "bulk_in_silent U sent \<longleftrightarrow> (\<forall>u h ep n t. sent (snd (snd (lu_bulk_in U u h ep n t))) = sent u)"

text \<open>
  The packets sent so far are whole messages, each of them acceptable, and the handle is the one
  that was opened but for the note that an empty packet may follow.
\<close>

definition wire_ok ::
  "(u8 list \<Rightarrow> bool) \<Rightarrow> qdl_device_usb \<Rightarrow> ('u \<Rightarrow> u8 list list) \<Rightarrow> 'u \<times> qdl_device_usb \<Rightarrow> bool" where
  "wire_ok msg D sent s \<longleftrightarrow> (\<exists>b. snd s = D\<lparr>expect_zlp := b\<rparr>)
     \<and> (\<exists>ms. usb_messages (out_maxpktsize D) [] (sent (fst s)) = (ms, []) \<and> list_all msg ms)"

lemma bulk_in_silentD:
  "bulk_in_silent U sent \<Longrightarrow> lu_bulk_in U u h ep n t = (ret, data, u') \<Longrightarrow> sent u' = sent u"
  by (metis bulk_in_silent_def snd_conv)

lemma usb_read_silent:
  "bulk_in_silent U sent \<Longrightarrow> usb_read U (u, D) n t = (r, u', D') \<Longrightarrow>
   sent u' = sent u \<and> (\<exists>b. D' = D\<lparr>expect_zlp := b\<rparr>)"
proof (induction U "(u, D)" n t arbitrary: u D rule: usb_read.induct)
  case (1 U u D n t)
  obtain ret data v where b: "lu_bulk_in U u (usb_handle D) (in_ep D) n t = (ret, data, v)" by (metis prod_cases3)
  have v: "sent v = sent u" using "1.prems"(1) b by (rule bulk_in_silentD)
  have keep: "\<exists>e. D = D\<lparr>expect_zlp := e\<rparr>" by (rule exI [of _ "expect_zlp D"]) simp
  show ?case
  proof (cases "ret \<noteq> 0 \<and> ret \<noteq> LIBUSB_ERROR_TIMEOUT \<or> ret = LIBUSB_ERROR_TIMEOUT \<and> data = [] \<or> \<not> expect_zlp D \<or> data \<noteq> []")
    case True
    then show ?thesis using "1.prems"(2) b v keep by (subst (asm) usb_read.simps) (auto split: if_splits)
  next
    case False
    then have "usb_read U (v, D\<lparr>expect_zlp := False\<rparr>) n t = (r, u', D')"
      using "1.prems"(2) b by (subst (asm) usb_read.simps) (auto split: if_splits)
    from "1.hyps" [OF b [symmetric] refl _ _ _ "1.prems"(1) this] False v show ?thesis by fastforce
  qed
qed

lemma wire_ok_write:
  assumes out: "bulk_out_works U D sent" and mp: "0 < out_maxpktsize D"
    and chunk: "0 < unat (out_chunk_size D)" "out_maxpktsize D dvd unat (out_chunk_size D)"
    and ok: "wire_ok msg D sent s" "msg m"
  shows "wire_ok msg D sent (snd (tr_write (usb_transport U) s m t))"
proof -
  obtain u b where s: "s = (u, D\<lparr>expect_zlp := b\<rparr>)" using ok(1) by (cases s) (auto simp: wire_ok_def)
  obtain ms where ms: "usb_messages (out_maxpktsize D) [] (sent u) = (ms, [])" "list_all msg ms"
    using ok(1) s by (auto simp: wire_ok_def)
  have out': "bulk_out_works U (D\<lparr>expect_zlp := b\<rparr>) sent" using out by (simp add: bulk_out_works_def)
  obtain u' where w: "usb_write U (u, D\<lparr>expect_zlp := b\<rparr>) m t = Some (sint (of_nat (length m) :: u32), u', D\<lparr>expect_zlp := b\<rparr>)"
    "sent u' = sent u @ write_packets (out_maxpktsize D) (unat (out_chunk_size D)) m"
    using usb_write_wire [OF out', where m = m and u = u and tmo = t] chunk(1) by auto
  have "usb_messages (out_maxpktsize D) [] (sent u') = (ms @ [m], [])"
    using ms(1) write_packets_message [OF mp chunk, where m = m and rest = "[]"] by (simp add: w(2) usb_messages_append)
  then show ?thesis using w(1) ms(2) ok(2) by (auto simp: s usb_transport_def wire_ok_def)
qed

lemma usb_guarded_link:
  assumes "bulk_out_works U D sent" "bulk_in_silent U sent" "0 < out_maxpktsize D"
    and "0 < unat (out_chunk_size D)" "out_maxpktsize D dvd unat (out_chunk_size D)"
  shows "guarded_link (usb_transport U) (wire_ok msg D sent) msg"
proof unfold_locales
  show "wire_ok msg D sent (snd (tr_read (usb_transport U) s n t))" if "wire_ok msg D sent s" for s n t
  proof (cases s)
    case (Pair u D1)
    obtain r u' D' where rd: "usb_read U (u, D1) n t = (r, u', D')" by (metis prod_cases3)
    then show ?thesis using that Pair usb_read_silent [OF assms(2) rd]
      by (auto simp: usb_transport_def wire_ok_def)
  qed
qed (rule wire_ok_write [OF assms(1,3-5)])

subsection \<open>A firehose session on the bus\<close>

text \<open>
  C11: What a queue that only reads puts on the bus. A device was opened, whatever chunk size was
  asked for, and firehose runs a queue of configure, read, digest and reset operations over the
  libusb backend with VIP inactive. However the device answers and however the run ends, the packets
  on the bus then fall apart into whole messages, none of them cut or merged by the transport and
  every one a configure, read, digest or power request.
\<close>

theorem usb_firehose_read_only:
  assumes "usb_open_once U serial D u = (0, visible, D', u')" "out_maxpktsize D' dvd 1048576"
    and "bulk_out_works U D' sent" "bulk_in_silent U sent" "sent u' = []"
    and "link (fh_dev s) = (u', D')" "env_tr E = usb_transport U" "novip (fh_dev s)" "reading_queue ops"
    and "firehose_run fuel E ops s = Some (r, s')"
  shows "\<exists>ms. usb_messages (out_maxpktsize D') [] (sent (fst (link (fh_dev s')))) = (ms, [])
    \<and> list_all (reading_msg E) ms"
proof -
  have ready: "usb_ready D D'" using assms(1) by (rule usb_open_once_ready)
  have chunk: "0 < unat (out_chunk_size D')" "out_maxpktsize D' dvd unat (out_chunk_size D')" "0 < out_maxpktsize D'"
    using usb_ready_chunk [OF ready assms(2)] by simp_all
  have "\<exists>b. D' = D'\<lparr>expect_zlp := b\<rparr>" by (rule exI [of _ "expect_zlp D'"]) simp
  then have "fh_good (wire_ok (reading_msg E) D' sent) s"
    using assms(5,6,8) by (auto simp: fh_good_def wire_ok_def)
  moreover have "reading_session (usb_transport U) (wire_ok (reading_msg E) D' sent) E"
    using usb_guarded_link [OF assms(3,4) chunk(3,1,2)] assms(7)
    by (simp add: reading_session_def fh_link_def fh_link_axioms_def)
  ultimately have "kept (fh_good (wire_ok (reading_msg E) D' sent)) (firehose_run fuel E ops s)"
    using assms(9) by (intro reading_session.run_good)
  then show ?thesis using assms(10) by (auto simp: post_def fh_good_def wire_ok_def)
qed

text \<open>The device of the examples again, unplugged before it answers the reset.\<close>

definition ex_libusb_gone :: "u8 list list libusb" where
  "ex_libusb_gone = ex_libusb\<lparr>lu_bulk_in := (\<lambda>u h ep n t. (LIBUSB_ERROR_NO_DEVICE, [], u))\<rparr>"

definition ex_usb_env :: "(u8 list list \<times> qdl_device_usb) fh_env" where
  "ex_usb_env = \<lparr>env_tr = usb_transport ex_libusb_gone, env_clock = (\<lambda>_. 0), env_xml = (\<lambda>_. None),
     env_dump = (\<lambda>tag attrs. bytes_of tag), env_fs = (\<lambda>_. None), env_stk = replicate 512 0\<rparr>"

lemma ex_usb_write:
  "usb_write ex_libusb_gone ([], ex_usb_opened 64) (bytes_of ''power'') t = Some (5, [bytes_of ''power''], ex_usb_opened 64)"
  by (simp add: usb_write_def usb_write_loop.simps ex_libusb_gone_def ex_libusb_def ex_usb_opened_def bytes_of_def
      usb_packets.simps)

lemma ex_usb_read:
  "usb_read ex_libusb_gone (u, ex_usb_opened 64) n t = (Inl (- ENODEV), u, ex_usb_opened 64)"
  by (subst usb_read.simps) (simp add: ex_libusb_gone_def ex_libusb_def ex_usb_opened_def)

lemma ex_usb_power:
  "firehose_write (Suc fuel) ex_usb_env (bytes_of ''power'') (ex_fh ([], ex_usb_opened 64))
     = Some (0, set_link ([bytes_of ''power''], ex_usb_opened 64) (ex_fh ([], ex_usb_opened 64)))"
  by (simp add: firehose_write_def firehose_vip_send_table_def vip_transfer_handle_tables_def
      vip_transfer_status_check_needed_def sbind_def sret_def fh_chunk_init_def fh_chunk_update_def
      fh_chunk_store_def fh_send_def vip_gen_chunk_init_def vip_gen_chunk_update_def vip_gen_chunk_store_def
      qdl_write_def ex_usb_env_def usb_transport_def set_link_def ex_fh_def fresh_device_def vip_zero_def ex_usb_write)

lemma ex_usb_recv:
  "fh_recv_generic (Suc fuel) ex_usb_env t (set_link (u, ex_usb_opened 64) (ex_fh d))
     = Some (- ENODEV, set_link (u, ex_usb_opened 64) (ex_fh d))"
  by (simp add: fh_recv_generic_def sbind_def sret_def fh_recv_def firehose_read_def set_link_def ex_fh_def
      fresh_device_def qdl_read_def ex_usb_env_def usb_transport_def ex_usb_read)

lemma ex_usb_reset:
  "firehose_reset (Suc fuel) ex_usb_env (ex_fh ([], ex_usb_opened 64))
     = Some (-1, set_link ([bytes_of ''power''], ex_usb_opened 64) (ex_fh ([], ex_usb_opened 64)))"
  by (simp add: firehose_reset_def fh_doc_def ex_usb_env_def [THEN arg_cong [of _ _ env_dump]] sbind_def sret_def
      ex_usb_power ex_usb_recv)

lemma usb_firehose_read_only_witness:
  "\<exists>s' ms. firehose_run (5) ex_usb_env [firehose_alloc_op FIREHOSE_OP_RESET] (ex_fh ([], ex_usb_opened 64))
        = Some ((-1, [firehose_alloc_op FIREHOSE_OP_RESET]), s')
    \<and> usb_messages 64 [] (fst (link (fh_dev s'))) = (ms, []) \<and> list_all (reading_msg ex_usb_env) ms"
proof -
  let ?ops = "[firehose_alloc_op FIREHOSE_OP_RESET]" 
  let ?s = "ex_fh ([], ex_usb_opened 64) :: (u8 list list \<times> qdl_device_usb) fh"
  have t: "op_type (firehose_alloc_op FIREHOSE_OP_RESET) = FIREHOSE_OP_RESET" by (simp add: firehose_alloc_op_def)
  have "firehose_reset 5 ex_usb_env ?s = Some (-1, set_link ([bytes_of ''power''], ex_usb_opened 64) ?s)"
    using ex_usb_reset [of 4] by simp
  moreover have "count_stats (\<lambda>_. stats_zero) ?s = Some ((), ?s)" by (simp add: count_stats_def ex_fh_def)
  ultimately obtain s' where run: "firehose_run (5) ex_usb_env ?ops ?s = Some ((-1, ?ops), s')"
    by (simp add: firehose_run_def firehose_execute_ops_def firehose_execute_op_def t sbind_def keep_ops_def sret_def)
  have gone: "usb_open_once ex_libusb_gone None (usb_set_out_chunk_size usb_init 100) [] = (0, 1, ex_usb_opened 64, [])"
    by (simp add: ex_libusb_gone_def ex_usb_open_simps)
  have "bulk_out_works ex_libusb_gone (ex_usb_opened 64) (\<lambda>u. u)"
    using ex_bulk_out by (simp add: bulk_out_works_def ex_libusb_gone_def)
  moreover have "bulk_in_silent ex_libusb_gone (\<lambda>u. u)" by (simp add: bulk_in_silent_def ex_libusb_gone_def)
  moreover have "out_maxpktsize (ex_usb_opened 64) = 64" by (simp add: ex_usb_opened_def)
  moreover have "novip (fh_dev ?s)" "reading_queue ?ops" "env_tr ex_usb_env = usb_transport ex_libusb_gone"
    by (simp_all add: novip_def ex_fh_def fresh_device_def vip_zero_def reading_queue_def t reading_op_def ex_usb_env_def)
  ultimately show ?thesis using usb_firehose_read_only [OF gone _ _ _ _ _ _ _ _ run, where sent = "\<lambda>u. u"] run by simp
qed

end
