(* ===== verification/Qud.thy ===== *)
theory Qud
  imports Usb
begin

text \<open>
  The backend for the Windows driver, \<open>src/qud.c\<close>, in the form it is compiled for Windows. The
  Windows API is a record of functions over an unspecified state \<open>'w\<close>; what the code asks the
  registry about a port is a record of the answers, \<open>None\<close> where the query fails. Elsewhere
  \<open>qud_init\<close>, \<open>qud_probe_present\<close> and \<open>qud_list\<close> find nothing.
\<close>

subsection \<open>Windows\<close>

record qud_devinfo =
  di_hardware_id :: "string option"
  di_compatible_ids :: "string list option"
  di_instance_id :: "string option"
  di_port_name :: "string option"
  di_reported_desc :: "string option"

datatype wait_result = WAIT_OBJECT_0 | WAIT_TIMEOUT | WAIT_FAILED

text \<open>
  \<open>w_start\<close> is \<open>ReadFile\<close> with a length or \<open>WriteFile\<close> with the bytes, true when it succeeds or is
  pending; \<open>w_result\<close> gives the bytes an overlapped read stored, and their number or that of the
  bytes written.
\<close>

record 'w win =
  w_ports :: "'w \<Rightarrow> qud_devinfo list option"
  w_create_file :: "'w \<Rightarrow> string \<Rightarrow> nat option \<times> 'w"
  w_get_comm_state :: "'w \<Rightarrow> nat \<Rightarrow> bool"
  w_set_comm_state :: "'w \<Rightarrow> nat \<Rightarrow> bool \<times> 'w"
  w_set_timeouts :: "'w \<Rightarrow> nat \<Rightarrow> nat \<Rightarrow> bool \<times> 'w"
  w_setup_comm :: "'w \<Rightarrow> nat \<Rightarrow> 'w"
  w_purge_tx :: "'w \<Rightarrow> nat \<Rightarrow> 'w"
  w_close :: "'w \<Rightarrow> nat \<Rightarrow> 'w"
  w_event :: "'w \<Rightarrow> bool \<times> 'w"
  w_start :: "'w \<Rightarrow> nat \<Rightarrow> nat + u8 list \<Rightarrow> bool \<times> 'w"
  w_wait :: "'w \<Rightarrow> u32 \<Rightarrow> wait_result \<times> 'w"
  w_cancel :: "'w \<Rightarrow> nat \<Rightarrow> 'w"
  w_result :: "'w \<Rightarrow> nat \<Rightarrow> (u8 list \<times> nat) option \<times> 'w"

subsection \<open>Ports\<close>

definition QCOM_HWID_PREFIX :: string where
  "QCOM_HWID_PREFIX = ''USB'' @ [CHR 0x5C] @ ''VID_05C6&PID_''"

record qud_device_desc =
  qd_pid :: nat
  qd_serial :: string
  qd_path :: string

text \<open>What stands behind the last backslash, cut to the buffer.\<close>

definition win_extract_serial :: "string \<Rightarrow> nat \<Rightarrow> string" where
  "win_extract_serial instance_id out_size =
     (if CHR 0x5C \<notin> set instance_id then []
      else take (out_size - 1) (rev (takeWhile (\<lambda>c. c \<noteq> CHR 0x5C) (rev instance_id))))"

definition win_read_iproduct_sn :: "qud_devinfo \<Rightarrow> nat \<Rightarrow> string option" where
  "win_read_iproduct_sn info out_size =
     (case di_reported_desc info of
        None \<Rightarrow> None
      | Some desc \<Rightarrow>
          (case serial_token desc of
             None \<Rightarrow> None
           | Some s \<Rightarrow> if length s = 0 \<or> length s + 1 > out_size then None else Some s))"

text \<open>A character behind the end of the identifier is the NUL, no digit.\<close>

definition win_parse_pid :: "string \<Rightarrow> nat" where
  "win_parse_pid hwid =
     (let p = take 4 (drop (length QCOM_HWID_PREFIX) hwid)
      in if length p = 4 \<and> list_all c_isxdigit p then foldl (\<lambda>pid c. 16 * pid + digit_val c) 0 p else 0)"

definition edl_id :: "string \<Rightarrow> string" where
  "edl_id prot = ''USB'' @ [CHR 0x5C] @ ''Class_FF&SubClass_FF&Prot_'' @ prot"

definition edl_ids :: "string list" where
  "edl_ids = map edl_id [''10'', ''11'', ''13'', ''FF'']"

definition win_match_edl_interface :: "qud_devinfo \<Rightarrow> bool" where
  "win_match_edl_interface info =
     (case di_compatible_ids info of
        None \<Rightarrow> False
      | Some ids \<Rightarrow> list_ex (\<lambda>p. list_ex (\<lambda>e. strcaseeq p e) edl_ids) ids)"

text \<open>The number of ports that qualify and the descriptions of the first \<open>out_max\<close> of them.\<close>

definition qcom_port :: "qud_devinfo \<Rightarrow> qud_device_desc option" where
  "qcom_port info =
     (case di_hardware_id info of
        None \<Rightarrow> None
      | Some hwid \<Rightarrow>
          if take (length QCOM_HWID_PREFIX) hwid \<noteq> QCOM_HWID_PREFIX then None
          else if \<not> win_match_edl_interface info then None
          else (case di_instance_id info of
            None \<Rightarrow> None
          | Some instance_id \<Rightarrow>
              (case di_port_name info of
                 None \<Rightarrow> None
               | Some port_name \<Rightarrow>
                   Some \<lparr>qd_pid = win_parse_pid hwid,
                     qd_serial = (case win_read_iproduct_sn info 64 of
                        Some s \<Rightarrow> s | None \<Rightarrow> win_extract_serial instance_id 64),
                     qd_path = take 63 ([CHR 0x5C, CHR 0x5C, CHR ''.'', CHR 0x5C] @ port_name)\<rparr>)))"

definition win_enumerate_qcom :: "'w win \<Rightarrow> nat \<Rightarrow> 'w \<Rightarrow> int \<times> qud_device_desc list" where
  "win_enumerate_qcom W out_max w =
     (case w_ports W w of
        None \<Rightarrow> (-1, [])
      | Some infos \<Rightarrow>
          let descs = List.map_filter qcom_port infos in (int (length descs), take out_max descs))"

subsection \<open>The handle\<close>

record qdl_device_qud =
  qud_handle :: "nat option"
  qud_path :: string

definition qud_init :: qdl_device_qud where
  "qud_init = \<lparr>qud_handle = None, qud_path = []\<rparr>"

text \<open>\<open>SetupComm\<close> and \<open>PurgeComm\<close> are called for their effect only.\<close>

definition win_configure_handle :: "'w win \<Rightarrow> nat \<Rightarrow> 'w \<Rightarrow> int \<times> 'w" where
  "win_configure_handle W h w =
     (if \<not> w_get_comm_state W w h then (-1, w)
      else (case w_set_comm_state W w h of (ok, w1) \<Rightarrow>
        if \<not> ok then (-1, w1)
        else (case w_set_timeouts W w1 h 1000 of (ok, w2) \<Rightarrow>
          if \<not> ok then (-1, w2)
          else (0, w_purge_tx W (w_setup_comm W w2 h) h))))"

definition com_path :: "string \<Rightarrow> bool" where
  "com_path serial \<longleftrightarrow>
     (case serial of [] \<Rightarrow> False | c # _ \<Rightarrow> c = CHR 0x5C) \<or>
     (length serial \<ge> 3 \<and> map c_tolower (take 3 serial) = ''com'')"

text \<open>The port that is opened: the path given, or the first port with the serial asked for.\<close>

definition qud_find_path :: "'w win \<Rightarrow> string option \<Rightarrow> 'w \<Rightarrow> string option" where
  "qud_find_path W serial w =
     (if (case serial of None \<Rightarrow> False | Some s \<Rightarrow> com_path s) then serial
      else case win_enumerate_qcom W 16 w of (found, matches) \<Rightarrow>
        if found \<le> 0 then None
        else map_option qd_path (find (\<lambda>d. case serial of None \<Rightarrow> True
            | Some s \<Rightarrow> s = [] \<or> strcaseeq (qd_serial d) s) matches))"

definition qud_open ::
  "'w win \<Rightarrow> string option \<Rightarrow> qdl_device_qud \<Rightarrow> 'w \<Rightarrow> int \<times> qdl_device_qud \<times> 'w" where
  "qud_open W serial Q w =
     (case qud_find_path W serial w of
        None \<Rightarrow> (-1, Q, w)
      | Some path \<Rightarrow>
          (case w_create_file W w path of
             (None, w1) \<Rightarrow> (-1, Q, w1)
           | (Some h, w1) \<Rightarrow>
               (case win_configure_handle W h w1 of (ret, w2) \<Rightarrow>
                  if ret < 0 then (-1, Q, w_close W w2 h)
                  else (0, Q\<lparr>qud_handle := Some h, qud_path := take 4095 path\<rparr>, w2))))"

subsection \<open>Transfers\<close>

definition win_overlapped_io ::
  "'w win \<Rightarrow> nat \<Rightarrow> nat + u8 list \<Rightarrow> u32 \<Rightarrow> 'w \<Rightarrow> (int + u8 list \<times> nat) \<times> 'w" where
  "win_overlapped_io W h io timeout_ms w =
     (case w_event W w of (ok, w1) \<Rightarrow>
        if \<not> ok then (Inl (- EIO), w1)
        else (case w_start W w1 h io of (started, w2) \<Rightarrow>
          if \<not> started then (Inl (- EIO), w2)
          else (case w_wait W w2 timeout_ms of
              (WAIT_TIMEOUT, w3) \<Rightarrow> (Inl (- ETIMEDOUT), snd (w_result W (w_cancel W w3 h) h))
            | (WAIT_FAILED, w3) \<Rightarrow> (Inl (- EIO), w3)
            | (WAIT_OBJECT_0, w3) \<Rightarrow>
                (case w_result W w3 h of
                   (None, w4) \<Rightarrow> (Inl (- EIO), w4)
                 | (Some r, w4) \<Rightarrow> (Inr r, w4)))))"

definition qud_read ::
  "'w win \<Rightarrow> 'w \<times> qdl_device_qud \<Rightarrow> nat \<Rightarrow> nat \<Rightarrow> (int + u8 list) \<times> 'w \<times> qdl_device_qud" where
  "qud_read W s len timeout =
     (case s of (w, Q) \<Rightarrow>
        let h = the (qud_handle Q) in
        (case w_set_timeouts W w h (if timeout = 0 then 1 else timeout) of (ok, w1) \<Rightarrow>
           if \<not> ok then (Inl (- EIO), w1, Q)
           else (case win_overlapped_io W h (Inl len) (of_nat timeout + 250) w1 of
               (Inl e, w2) \<Rightarrow> (Inl e, w2, Q)
             | (Inr (data, n), w2) \<Rightarrow> (if n = 0 then Inl (- ETIMEDOUT) else Inr (take n data), w2, Q))))"

definition qud_write ::
  "'w win \<Rightarrow> 'w \<times> qdl_device_qud \<Rightarrow> u8 list \<Rightarrow> nat \<Rightarrow> int \<times> 'w \<times> qdl_device_qud" where
  "qud_write W s buf timeout =
     (case s of (w, Q) \<Rightarrow>
        (case win_overlapped_io W (the (qud_handle Q)) (Inr buf) (of_nat timeout) w of
           (Inl e, w1) \<Rightarrow> (e, w1, Q)
         | (Inr (_, n), w1) \<Rightarrow> (int n, w1, Q)))"

definition qud_close :: "'w win \<Rightarrow> 'w \<times> qdl_device_qud \<Rightarrow> 'w \<times> qdl_device_qud" where
  "qud_close W s =
     (case s of (w, Q) \<Rightarrow>
        (case qud_handle Q of None \<Rightarrow> (w, Q) | Some h \<Rightarrow> (w_close W w h, Q\<lparr>qud_handle := None\<rparr>)))"

definition qud_transport :: "'w win \<Rightarrow> ('w \<times> qdl_device_qud) transport" where
  "qud_transport W = \<lparr>tr_read = qud_read W, tr_write = qud_write W\<rparr>"

definition qud_probe_present :: "'w win \<Rightarrow> 'w \<Rightarrow> int" where
  "qud_probe_present W w = (let found = fst (win_enumerate_qcom W 16 w) in if found > 0 then found else 0)"

definition qud_list :: "'w win \<Rightarrow> 'w \<Rightarrow> qud_device_desc list" where
  "qud_list W w = snd (win_enumerate_qcom W 16 w)"

subsection \<open>The backends agree\<close>

text \<open>
  Windows names the class, subclass and protocol of an interface by two hexadecimal digits each.
\<close>

definition hex2 :: "u8 \<Rightarrow> string" where
  "hex2 b = map (\<lambda>d. if d < 10 then char_of (48 + d) else char_of (55 + d)) [unat b div 16, unat b mod 16]"

definition interface_id :: "usb_interface_descriptor \<Rightarrow> string" where
  "interface_id ifc = ''USB'' @ [CHR 0x5C] @ ''Class_'' @ hex2 (bInterfaceClass ifc) @ ''&SubClass_''
     @ hex2 (bInterfaceSubClass ifc) @ ''&Prot_'' @ hex2 (bInterfaceProtocol ifc)"

definition usable_endpoints :: "usb_interface_descriptor \<Rightarrow> bool" where
  "usable_endpoints ifc \<longleftrightarrow>
     (let edl = fold edl_endpoint (endpoint ifc)
            \<lparr>edl_in_ep = -1, edl_out_ep = -1, edl_in_maxpktsize = 0, edl_out_maxpktsize = 0\<rparr>
      in 0 \<le> edl_in_ep edl \<and> 0 \<le> edl_out_ep edl \<and> 0 < edl_in_maxpktsize edl \<and> 0 < edl_out_maxpktsize edl)"

lemma u8_nibbles: "(b :: u8) = c \<longleftrightarrow> unat b div 16 = unat c div 16 \<and> unat b mod 16 = unat c mod 16"
  by (metis div_mult_mod_eq word_unat_eq_iff)

definition hexval :: "char \<Rightarrow> nat" where
  "hexval c = (let n = of_char c in if n < 58 then n - 48 else n - 87)"

lemma hexval_digit: "d < 16 \<Longrightarrow> hexval (c_tolower (if d < 10 then char_of (48 + d) else char_of (55 + d))) = d"
  by (simp add: hexval_def c_tolower_def Let_def)

lemma hex2_lower: "map c_tolower (hex2 b) = map c_tolower (hex2 c) \<longleftrightarrow> b = c"
proof
  assume "map c_tolower (hex2 b) = map c_tolower (hex2 c)"
  then have "map (hexval \<circ> c_tolower) (hex2 b) = map (hexval \<circ> c_tolower) (hex2 c)"
    by (metis map_map)
  moreover have "unat b div 16 < 16" "unat c div 16 < 16" by (simp_all add: less_mult_imp_div_less)
  ultimately show "b = c" by (simp add: hex2_def hexval_digit u8_nibbles)
qed simp

lemma length_hex2 [simp]: "length (hex2 b) = 2"
  by (simp add: hex2_def)

lemma edl_ids_hex:
  "edl_ids = map (\<lambda>p. interface_id \<lparr>bInterfaceNumber = 0, bInterfaceClass = 0xff, bInterfaceSubClass = 0xff,
     bInterfaceProtocol = p, endpoint = []\<rparr>) [0x10, 0x11, 0x13, 0xff]"
  by (simp add: edl_ids_def edl_id_def interface_id_def hex2_def) code_simp

lemma interface_id_eq:
  "strcaseeq (interface_id a) (interface_id b) \<longleftrightarrow>
     bInterfaceClass a = bInterfaceClass b \<and> bInterfaceSubClass a = bInterfaceSubClass b
     \<and> bInterfaceProtocol a = bInterfaceProtocol b"
  by (simp add: strcaseeq_def interface_id_def hex2_lower)

lemma length_interface_id: "length (interface_id a) = length (interface_id b)"
  by (simp add: interface_id_def)

lemma shorter_id: "length q < length (interface_id a) \<Longrightarrow> \<not> strcaseeq q (interface_id b)"
  using length_interface_id [of a b] by (auto simp: strcaseeq_def dest: map_eq_imp_length_eq)

text \<open>
  Both backends take the same interfaces. Whatever the class, subclass and protocol of an
  interface whose endpoints are usable, libusb's descriptor of it matches exactly when the
  compatible identifiers Windows derives from the same descriptor do: the full one, in any case,
  followed by its less specific forms.
\<close>

lemma edl_interface_backends_agree:
  assumes "usable_endpoints ifc" "di_compatible_ids info = Some (p # ids)" "strcaseeq p (interface_id ifc)"
    and "\<forall>q \<in> set ids. length q < length p"
  shows "win_match_edl_interface info \<longleftrightarrow> usb_match_edl_interface ifc \<noteq> None"
proof -
  have p: "strcaseeq p e \<longleftrightarrow> strcaseeq (interface_id ifc) e" for e using assms(3) by (simp add: strcaseeq_def)
  have "length p = length (interface_id ifc)" using assms(3) by (auto simp: strcaseeq_def dest: map_eq_imp_length_eq)
  then have "\<forall>q \<in> set ids. \<not> strcaseeq q (interface_id b)" for b using assms(4) shorter_id by metis
  then have "win_match_edl_interface info \<longleftrightarrow> bInterfaceClass ifc = 0xff \<and> bInterfaceSubClass ifc = 0xff
      \<and> (bInterfaceProtocol ifc = 0x10 \<or> bInterfaceProtocol ifc = 0x11 \<or> bInterfaceProtocol ifc = 0x13
        \<or> bInterfaceProtocol ifc = 0xff)"
    using assms(2) p by (auto simp: win_match_edl_interface_def edl_ids_hex interface_id_eq list_ex_iff)
  then show ?thesis using assms(1)
    by (auto simp: usb_match_edl_interface_def usable_endpoints_def Let_def)
qed

lemma edl_interface_backends_agree_witness:
  "let ifc = \<lparr>bInterfaceNumber = 0, bInterfaceClass = 0xff, bInterfaceSubClass = 0xff, bInterfaceProtocol = 0x11,
       endpoint = [\<lparr>bEndpointAddress = 0x81, bmAttributes = 2, wMaxPacketSize = 64\<rparr>,
                   \<lparr>bEndpointAddress = 0x01, bmAttributes = 2, wMaxPacketSize = 64\<rparr>]\<rparr>;
       info = \<lparr>di_hardware_id = None,
         di_compatible_ids = Some [edl_id ''11'', ''USB'' @ [CHR 0x5C] @ ''Class_FF''],
         di_instance_id = None, di_port_name = None, di_reported_desc = None\<rparr>
   in win_match_edl_interface info \<longleftrightarrow> usb_match_edl_interface ifc \<noteq> None"
proof -
  let ?ifc = "\<lparr>bInterfaceNumber = 0, bInterfaceClass = 0xff, bInterfaceSubClass = 0xff, bInterfaceProtocol = 0x11,
       endpoint = [\<lparr>bEndpointAddress = 0x81, bmAttributes = 2, wMaxPacketSize = 64\<rparr>,
                   \<lparr>bEndpointAddress = 0x01, bmAttributes = 2, wMaxPacketSize = 64\<rparr>]\<rparr>"
  have u: "usable_endpoints ?ifc"
    by (simp add: usable_endpoints_def edl_endpoint_def LIBUSB_TRANSFER_TYPE_MASK_def
        LIBUSB_ENDPOINT_TRANSFER_TYPE_BULK_def LIBUSB_ENDPOINT_IN_def)
  have i: "strcaseeq (edl_id ''11'') (interface_id ?ifc)" by code_simp
  have l: "\<forall>q \<in> set [''USB'' @ [CHR 0x5C] @ ''Class_FF'']. length q < length (edl_id ''11'')"
    by (simp add: edl_id_def)
  show ?thesis unfolding Let_def by (rule edl_interface_backends_agree [OF u _ i l]) simp
qed

end
