(* ===== verification/Auto.thy ===== *)
theory Auto
  imports UsbProps Qud Sim
begin

text \<open>
  The automatic backend, \<open>src/auto.c\<close>, which is the default one: it waits until libusb or, on
  Windows, the driver backend reaches a device and forwards to whichever did. The Windows side is
  optional, \<open>None\<close> where it is not compiled in; the state of the two worlds is a pair. Then the
  functions of \<open>src/io.c\<close> that dispatch to a backend.
\<close>

subsection \<open>The handle\<close>

datatype inner_device = Inner_Usb qdl_device_usb | Inner_Qud qdl_device_qud

record qdl_device_auto =
  auto_inner :: "inner_device option"
  pending_chunk_size :: int
  chunk_size_set :: bool

definition auto_init :: qdl_device_auto where
  "auto_init = \<lparr>auto_inner = None, pending_chunk_size = 0, chunk_size_set = False\<rparr>"

text \<open>\<open>qud_set_out_chunk_size\<close> does nothing.\<close>

definition inner_set_out_chunk_size :: "inner_device \<Rightarrow> int \<Rightarrow> inner_device" where
  "inner_set_out_chunk_size dev sz =
     (case dev of Inner_Usb D \<Rightarrow> Inner_Usb (usb_set_out_chunk_size D sz) | Inner_Qud Q \<Rightarrow> Inner_Qud Q)"

text \<open>The payload sizes of all backends are the same, so taking over that of the inner one changes nothing.\<close>

definition auto_bind_inner :: "qdl_device_auto \<Rightarrow> inner_device \<Rightarrow> qdl_device_auto" where
  "auto_bind_inner A dev =
     A\<lparr>auto_inner := Some (if chunk_size_set A then inner_set_out_chunk_size dev (pending_chunk_size A) else dev)\<rparr>"

definition auto_set_out_chunk_size :: "qdl_device_auto \<Rightarrow> int \<Rightarrow> qdl_device_auto" where
  "auto_set_out_chunk_size A sz =
     (case auto_inner A of
        Some dev \<Rightarrow> A\<lparr>auto_inner := Some (inner_set_out_chunk_size dev sz)\<rparr>
      | None \<Rightarrow> A\<lparr>pending_chunk_size := sz, chunk_size_set := True\<rparr>)"

subsection \<open>Opening\<close>

text \<open>
  The waiting loop with the libusb handle it keeps; \<open>None\<close> when the fuel is used up. What is printed
  about the devices seen is not modelled.
\<close>

fun auto_open_loop ::
  "'u libusb \<Rightarrow> 'w win option \<Rightarrow> nat \<Rightarrow> string option \<Rightarrow> qdl_device_auto \<Rightarrow> qdl_device_usb \<Rightarrow> 'u \<times> 'w
   \<Rightarrow> (int \<times> qdl_device_auto \<times> 'u \<times> 'w) option" where
  "auto_open_loop U W 0 serial A D s = None"
| "auto_open_loop U W (Suc fuel) serial A D (u, w) =
     (case usb_open_once U serial D u of (ret, visible, D', u') \<Rightarrow>
        if ret = 0 then Some (0, auto_bind_inner A (Inner_Usb D'), u', w)
        else if ret = - EIO then Some (-1, A, u', w)
        else (case W of
            None \<Rightarrow> auto_open_loop U W fuel serial A D' (lu_wait U u' 250000, w)
          | Some W' \<Rightarrow>
              if qud_probe_present W' w > 0 \<or> ret = - EBUSY then
                (case qud_open W' serial qud_init w of (r, Q, w') \<Rightarrow>
                   if r = 0 then Some (0, auto_bind_inner A (Inner_Qud Q), u', w')
                   else auto_open_loop U W fuel serial A D' (lu_wait U u' 250000, w'))
              else auto_open_loop U W fuel serial A D' (lu_wait U u' 250000, w)))"

definition auto_open ::
  "'u libusb \<Rightarrow> 'w win option \<Rightarrow> nat \<Rightarrow> string option \<Rightarrow> qdl_device_auto \<Rightarrow> 'u \<times> 'w
   \<Rightarrow> (int \<times> qdl_device_auto \<times> 'u \<times> 'w) option" where
  "auto_open U W fuel serial A s = auto_open_loop U W fuel serial A usb_init s"

subsection \<open>Forwarding\<close>

text \<open>Nothing is read or written before the device was opened: there is an inner device.\<close>

definition auto_read ::
  "'u libusb \<Rightarrow> 'w win \<Rightarrow> ('u \<times> 'w) \<times> qdl_device_auto \<Rightarrow> nat \<Rightarrow> nat
   \<Rightarrow> (int + u8 list) \<times> ('u \<times> 'w) \<times> qdl_device_auto" where
  "auto_read U W s len timeout =
     (case s of ((u, w), A) \<Rightarrow>
        (case the (auto_inner A) of
           Inner_Usb D \<Rightarrow> (case usb_read U (u, D) len timeout of (r, u', D') \<Rightarrow>
             (r, (u', w), A\<lparr>auto_inner := Some (Inner_Usb D')\<rparr>))
         | Inner_Qud Q \<Rightarrow> (case qud_read W (w, Q) len timeout of (r, w', Q') \<Rightarrow>
             (r, (u, w'), A\<lparr>auto_inner := Some (Inner_Qud Q')\<rparr>))))"

definition auto_write ::
  "'u libusb \<Rightarrow> 'w win \<Rightarrow> ('u \<times> 'w) \<times> qdl_device_auto \<Rightarrow> u8 list \<Rightarrow> nat
   \<Rightarrow> (int \<times> ('u \<times> 'w) \<times> qdl_device_auto) option" where
  "auto_write U W s buf timeout =
     (case s of ((u, w), A) \<Rightarrow>
        (case the (auto_inner A) of
           Inner_Usb D \<Rightarrow> map_option (\<lambda>(r, u', D'). (r, (u', w), A\<lparr>auto_inner := Some (Inner_Usb D')\<rparr>))
             (usb_write U (u, D) buf timeout)
         | Inner_Qud Q \<Rightarrow> (case qud_write W (w, Q) buf timeout of (r, w', Q') \<Rightarrow>
             Some (r, (u, w'), A\<lparr>auto_inner := Some (Inner_Qud Q')\<rparr>))))"

definition auto_close ::
  "'u libusb \<Rightarrow> 'w win \<Rightarrow> ('u \<times> 'w) \<times> qdl_device_auto \<Rightarrow> ('u \<times> 'w) \<times> qdl_device_auto" where
  "auto_close U W s =
     (case s of ((u, w), A) \<Rightarrow>
        (case auto_inner A of
           None \<Rightarrow> s
         | Some (Inner_Usb D) \<Rightarrow> ((usb_close U D u, w), A\<lparr>auto_inner := None\<rparr>)
         | Some (Inner_Qud Q) \<Rightarrow> ((u, fst (qud_close W (w, Q))), A\<lparr>auto_inner := None\<rparr>)))"

subsection \<open>Dispatch\<close>

text \<open>
  A device of \<open>qdl_init\<close> and the functions of \<open>src/io.c\<close> that call through its pointers. The
  simulator is only a tag here: its state and operations are those of \<open>src/sim.c\<close>.
\<close>

datatype backend = Backend_Usb qdl_device_usb | Backend_Sim | Backend_Qud qdl_device_qud | Backend_Auto qdl_device_auto

text \<open>\<open>qud_init\<close> gives nothing on other systems than Windows.\<close>

definition qdl_init :: "bool \<Rightarrow> dev_kind \<Rightarrow> backend option" where
  "qdl_init windows k =
     (case k of
        QDL_DEVICE_USB \<Rightarrow> Some (Backend_Usb usb_init)
      | QDL_DEVICE_SIM \<Rightarrow> Some Backend_Sim
      | QDL_DEVICE_QUD \<Rightarrow> if windows then Some (Backend_Qud qud_init) else None
      | QDL_DEVICE_AUTO \<Rightarrow> Some (Backend_Auto auto_init))"

definition qdl_set_out_chunk_size :: "backend \<Rightarrow> int \<Rightarrow> backend" where
  "qdl_set_out_chunk_size b sz =
     (case b of
        Backend_Usb D \<Rightarrow> Backend_Usb (usb_set_out_chunk_size D sz)
      | Backend_Auto A \<Rightarrow> Backend_Auto (auto_set_out_chunk_size A sz)
      | _ \<Rightarrow> b)"

definition qdl_open ::
  "'u libusb \<Rightarrow> 'w win option \<Rightarrow> nat \<Rightarrow> string option \<Rightarrow> backend \<Rightarrow> 'u \<times> 'w \<Rightarrow> (int \<times> backend \<times> 'u \<times> 'w) option" where
  "qdl_open U W fuel serial b s =
     (case s of (u, w) \<Rightarrow>
        (case b of
           Backend_Usb D \<Rightarrow> map_option (\<lambda>(r, D', u'). (r, Backend_Usb D', u', w)) (usb_open U fuel serial D u)
         | Backend_Sim \<Rightarrow> Some (0, b, s)
         | Backend_Qud Q \<Rightarrow> (case qud_open (the W) serial Q w of (r, Q', w') \<Rightarrow> Some (r, Backend_Qud Q', u, w'))
         | Backend_Auto A \<Rightarrow> map_option (\<lambda>(r, A', s'). (r, Backend_Auto A', s')) (auto_open U W fuel serial A s)))"

definition qdl_close :: "'u libusb \<Rightarrow> 'w win \<Rightarrow> backend \<Rightarrow> 'u \<times> 'w \<Rightarrow> 'u \<times> 'w" where
  "qdl_close U W b s =
     (case s of (u, w) \<Rightarrow>
        (case b of
           Backend_Usb D \<Rightarrow> (usb_close U D u, w)
         | Backend_Sim \<Rightarrow> s
         | Backend_Qud Q \<Rightarrow> (u, fst (qud_close W (w, Q)))
         | Backend_Auto A \<Rightarrow> fst (auto_close U W (s, A))))"

text \<open>A session of a subcommand, and the transport of \<open>ks\<close> on a device node, over \<open>read\<close> and \<open>write\<close>.\<close>

definition qdl_session_open ::
  "'u libusb \<Rightarrow> 'w win option \<Rightarrow> nat \<Rightarrow> string option \<Rightarrow> dev_kind \<Rightarrow> 'u \<times> 'w \<Rightarrow> (backend option \<times> 'u \<times> 'w) option" where
  "qdl_session_open U W fuel serial k s =
     (case qdl_init (W \<noteq> None) k of
        None \<Rightarrow> Some (None, s)
      | Some b \<Rightarrow> map_option (\<lambda>(r, b', s'). (if r \<noteq> 0 then None else Some b', s')) (qdl_open U W fuel serial b s))"

definition qdl_session_close :: "'u libusb \<Rightarrow> 'w win \<Rightarrow> backend \<Rightarrow> 'u \<times> 'w \<Rightarrow> 'u \<times> 'w" where
  "qdl_session_close U W b s = qdl_close U W b s"

definition ks_transport ::
  "('f \<Rightarrow> nat \<Rightarrow> (int + u8 list) \<times> 'f) \<Rightarrow> ('f \<Rightarrow> u8 list \<Rightarrow> int \<times> 'f) \<Rightarrow> 'f transport" where
  "ks_transport rd wr = \<lparr>tr_read = (\<lambda>f len timeout. rd f len), tr_write = (\<lambda>f buf timeout. wr f buf)\<rparr>"

subsection \<open>The list subcommand\<close>

text \<open>\<open>%04x\<close> of a 16-bit identifier.\<close>

definition hex_lower :: "nat \<Rightarrow> char" where
  "hex_lower d = (if d < 10 then char_of (48 + d) else char_of (87 + d))"

definition show_hex4 :: "nat \<Rightarrow> string" where
  "show_hex4 n = map (\<lambda>i. hex_lower (n div 16 ^ i mod 16)) [3, 2, 1, 0]"

definition tab_line :: "string list \<Rightarrow> string" where
  "tab_line cols = concat (map (\<lambda>f. CHR 0x09 # f) cols) @ [CHR 0x0A]"

definition qdl_list :: "'u libusb \<Rightarrow> 'w win option \<Rightarrow> 'u \<times> 'w \<Rightarrow> string \<times> 'u \<times> 'w" where
  "qdl_list U W s =
     (case s of (u, w) \<Rightarrow>
        (case usb_list U u of (usb, u') \<Rightarrow>
          let devices = (case usb of None \<Rightarrow> [] | Some ds \<Rightarrow> ds);
              ports = (case W of None \<Rightarrow> [] | Some W' \<Rightarrow> qud_list W' w)
          in (if devices = [] \<and> ports = [] then ''No devices found'' @ [CHR 0x0A]
              else concat (map (\<lambda>d. show_hex4 (unat (desc_vid d)) @ '':'' @ show_hex4 (unat (desc_pid d))
                       @ tab_line [desc_serial d]) devices)
                @ concat (map (\<lambda>d. ''05c6:'' @ show_hex4 (qd_pid d) @ tab_line [qd_serial d, qd_path d]) ports),
              u', w)))"

subsection \<open>The chunk size\<close>

lemma usb_open_Suc:
  "usb_open_once U serial D u = (0, visible, D', u') \<Longrightarrow> usb_open U (Suc fuel) serial D u = Some (0, D', u')"
  by simp

text \<open>What \<open>qdl_flash\<close> does with \<open>--out-chunk-size\<close>: set, then open.\<close>

definition open_with_chunk ::
  "'u libusb \<Rightarrow> 'w win option \<Rightarrow> nat \<Rightarrow> string option \<Rightarrow> dev_kind \<Rightarrow> int \<Rightarrow> 'u \<times> 'w
   \<Rightarrow> (int \<times> backend \<times> 'u \<times> 'w) option" where
  "open_with_chunk U W fuel serial k chunk s =
     (case qdl_init (W \<noteq> None) k of
        None \<Rightarrow> None
      | Some b \<Rightarrow> qdl_open U W fuel serial (if chunk \<noteq> 0 then qdl_set_out_chunk_size b chunk else b) s)"

text \<open>
  C32: On the automatic backend, the default one, the chunk size asked for takes effect unchecked,
  because it is set when the device has already been opened. If it is no multiple of the packet
  size, a message longer than it reaches the device in pieces, the first of them a chunk of the
  message, though the write reports the whole length.
\<close>

theorem auto_out_chunk_splits:
  assumes "usb_open_once U serial usb_init u = (0, visible, D, u')"
    and "bulk_out_works U D sent" "0 < chunk" "chunk < 2 ^ 31"
    and "\<not> out_maxpktsize D dvd nat chunk" "nat chunk < length m" "length m < 2 ^ 31"
  shows "\<exists>A s'. open_with_chunk U W (Suc fuel) serial QDL_DEVICE_AUTO chunk (u, w) = Some (0, Backend_Auto A, u', w)
    \<and> auto_write U W' ((u', w), A) m timeout = Some (int (length m), s')
    \<and> (\<exists>ps. sent (fst (fst s')) = sent u' @ ps
        \<and> (\<exists>rest. usb_messages (out_maxpktsize D) [] ps = (take (nat chunk) m # fst rest, snd rest)))"
proof -
  let ?D = "D\<lparr>out_chunk_size := of_int chunk\<rparr>" and ?mp = "out_maxpktsize D"
  have c: "unat (of_int chunk :: u64) = nat chunk"
  proof -
    have "(of_int chunk :: u64) = of_nat (nat chunk)" using assms(3) by simp
    then show ?thesis using assms(4) by (simp add: unsigned_of_nat take_bit_nat_eq_self)
  qed
  have ready: "usb_ready usb_init D" using assms(1) by (rule usb_open_once_ready)
  then have mp: "0 < ?mp" by (simp add: usb_ready_def)
  let ?A = "\<lparr>auto_inner = Some (Inner_Usb ?D), pending_chunk_size = chunk, chunk_size_set = True\<rparr>"
  have opened: "open_with_chunk U W (Suc fuel) serial QDL_DEVICE_AUTO chunk (u, w) = Some (0, Backend_Auto ?A, u', w)"
    using assms(1,3)
    by (simp add: open_with_chunk_def qdl_init_def qdl_open_def auto_open_def qdl_set_out_chunk_size_def
        auto_set_out_chunk_size_def auto_init_def auto_bind_inner_def inner_set_out_chunk_size_def
        usb_set_out_chunk_size_def)
  have "bulk_out_works U ?D sent" using assms(2) by (simp add: bulk_out_works_def)
  then obtain u2 where w: "usb_write U (u', ?D) m timeout = Some (int (length m), u2, ?D)"
    "sent u2 = sent u' @ write_packets ?mp (nat chunk) m"
    using usb_write_sends [of U ?D sent m u' timeout] assms(3,7) c by auto
  obtain ps where "usb_messages ?mp [] (write_packets ?mp (nat chunk) m)
      = apfst (Cons (take (nat chunk) m)) (usb_messages ?mp [] ps)"
    using write_packets_split [OF mp _ assms(5,6), of "[]"] assms(3) by auto
  then have "usb_messages ?mp [] (write_packets ?mp (nat chunk) m)
      = (take (nat chunk) m # fst (usb_messages ?mp [] ps), snd (usb_messages ?mp [] ps))"
    by (simp add: apfst_def map_prod_def split: prod.splits)
  moreover have "auto_write U W' ((u', w), ?A) m timeout = Some (int (length m), (u2, w), ?A)"
    using w(1) by (simp add: auto_write_def)
  ultimately show ?thesis using opened w(2) by fastforce
qed

definition ex_win :: "unit win" where
  "ex_win = \<lparr>w_ports = (\<lambda>w. Some []), w_create_file = (\<lambda>w p. (None, w)), w_get_comm_state = (\<lambda>w h. True),
     w_set_comm_state = (\<lambda>w h. (True, w)), w_set_timeouts = (\<lambda>w h t. (True, w)), w_setup_comm = (\<lambda>w h. w),
     w_purge_tx = (\<lambda>w h. w), w_close = (\<lambda>w h. w), w_event = (\<lambda>w. (True, w)),
     w_start = (\<lambda>w h io. (False, w)), w_wait = (\<lambda>w t. (WAIT_FAILED, w)), w_cancel = (\<lambda>w h. w),
     w_result = (\<lambda>w h. (None, w))\<rparr>"

lemma ex_usb_init_open: "usb_open_once ex_libusb None usb_init [] = (0, 1, ex_usb_opened 1048576, [])"
  by (simp add: usb_open_once_def usb_enumerate_edl_devices_def ex_libusb_def usb_is_edl_device_def
      qdl_is_edl_device_def QUALCOMM_VID_def usb_open_cb_def usb_open_device_def usb_match_device_def
      usb_match_serial_def ex_edl_interface usb_adopt_def usb_init_def usb_set_out_chunk_size_def
      usb_read_serial_def usb_read_string_def ex_usb_opened_def DEFAULT_OUT_CHUNK_SIZE_def)

lemma auto_out_chunk_splits_witness:
  "\<exists>A s'. open_with_chunk ex_libusb (None :: unit win option) 1 None QDL_DEVICE_AUTO 100 ([], ())
       = Some (0, Backend_Auto A, [], ())
     \<and> auto_write ex_libusb ex_win (([], ()), A) (replicate 130 7) 1000 = Some (130, s')
     \<and> (\<exists>ps. fst (fst s') = [] @ ps
         \<and> (\<exists>rest. usb_messages 64 [] ps = (replicate 100 7 # fst rest, snd rest)))"
proof -
  have "\<not> out_maxpktsize (ex_usb_opened 1048576) dvd nat 100" by (simp add: ex_usb_opened_def dvd_eq_mod_eq_0)
  moreover have "nat 100 < length (replicate 130 (7 :: u8))" "length (replicate 130 (7 :: u8)) < 2 ^ 31"
    by (simp_all)
  ultimately show ?thesis
    using auto_out_chunk_splits [OF ex_usb_init_open ex_bulk_out, of 100 "replicate 130 7" "None :: unit win option" 0 "()" ex_win 1000]
    by (simp add: ex_usb_opened_def)
qed

end
