(* ===== verification/Ux.thy ===== *)
theory Ux
  imports Util Json
begin

text \<open>
  Terminal output, \<open>src/ux.c\<close>, as it is compiled for other systems than Windows. A message is the text
  its format and arguments give; what a stream received so far is part of the state. The environment,
  whether a stream is a terminal and the time are parameters. The variable argument lists, the
  registration of the libxml2 error handler and \<open>exit\<close> are not modelled.
\<close>

subsection \<open>State\<close>

datatype ux_style_kind =
    UX_STYLE_NONE | UX_STYLE_RESET | UX_STYLE_HEADING | UX_STYLE_OPTION | UX_STYLE_ERROR | UX_STYLE_WARNING
  | UX_STYLE_LOG | UX_STYLE_TX | UX_STYLE_RX | UX_STYLE_DIM | UX_STYLE_PROGRESS | UX_STYLE_SUCCESS
  | UX_STYLE_SKIPPED

datatype ux_tag =
    UX_TAG_NONE | UX_TAG_SAHARA | UX_TAG_FIREHOSE | UX_TAG_FIREHOSE_RAW | UX_TAG_VIP | UX_TAG_USB | UX_TAG_SPARSE
  | UX_TAG_FLASHMAP | UX_TAG_CONTENTS | UX_TAG_SIM | UX_TAG_QUD | UX_TAG_MINIDUMP

datatype ux_level =
    UX_LEVEL_NONE | UX_LEVEL_ERR | UX_LEVEL_WARN | UX_LEVEL_INFO | UX_LEVEL_DEBUG | UX_LEVEL_LOG

datatype ux_outcome = UX_STATUS_DONE | UX_STATUS_SKIPPED

datatype ux_stream = Ux_Stdout | Ux_Stderr

text \<open>\<open>None\<close> in a colour decision is the \<open>-1\<close> of a stream not decided yet.\<close>

record ux =
  ux_out :: string
  ux_errs :: string
  ux_stdout_bol :: bool
  ux_stderr_bol :: bool
  ux_color :: ux_color_mode
  ux_color_stdout :: "bool option"
  ux_color_stderr :: "bool option"
  ux_quiet :: bool
  ux_debugging :: bool
  ux_width :: nat
  ux_cur_line_length :: nat
  ux_progname_str :: string
  last_progress_update :: nat

text \<open>
  \<open>ux_now\<close> is the formatted local time, or \<open>None\<close> when it cannot be formatted, and the
  microseconds since the epoch at the moment of a call.
\<close>

record ux_env =
  ux_getenv :: "string \<Rightarrow> string option"
  ux_isatty :: "ux_stream \<Rightarrow> bool"
  ux_columns :: "nat option"
  ux_now :: "ux \<Rightarrow> string option \<times> nat"

definition UX_PROGRESS_REFRESH_RATE :: nat where "UX_PROGRESS_REFRESH_RATE = 10"
definition UX_PROGRESS_SIZE_MAX :: nat where "UX_PROGRESS_SIZE_MAX = 80"

definition ux_initial :: ux where
  "ux_initial = \<lparr>ux_out = [], ux_errs = [], ux_stdout_bol = True, ux_stderr_bol = True, ux_color = UX_COLOR_AUTO,
     ux_color_stdout = None, ux_color_stderr = None, ux_quiet = False, ux_debugging = False, ux_width = 0,
     ux_cur_line_length = 0, ux_progname_str = ''qdl'', last_progress_update = 0\<rparr>"

subsection \<open>Styles\<close>

abbreviation sgr :: "string \<Rightarrow> string" where "sgr s \<equiv> [CHR 0x1B, CHR ''[''] @ s @ ''m''"

definition ux_styles :: "ux_style_kind \<Rightarrow> string" where
  "ux_styles st =
     (case st of
        UX_STYLE_NONE \<Rightarrow> [] | UX_STYLE_RESET \<Rightarrow> sgr ''0'' | UX_STYLE_HEADING \<Rightarrow> sgr ''1''
      | UX_STYLE_OPTION \<Rightarrow> sgr ''1;36'' | UX_STYLE_ERROR \<Rightarrow> sgr ''31'' | UX_STYLE_WARNING \<Rightarrow> sgr ''33''
      | UX_STYLE_LOG \<Rightarrow> sgr ''36'' | UX_STYLE_TX \<Rightarrow> sgr ''32'' | UX_STYLE_RX \<Rightarrow> sgr ''36''
      | UX_STYLE_DIM \<Rightarrow> sgr ''2'' | UX_STYLE_PROGRESS \<Rightarrow> sgr ''32'' | UX_STYLE_SUCCESS \<Rightarrow> sgr ''32''
      | UX_STYLE_SKIPPED \<Rightarrow> sgr ''34'')"

definition ux_tags :: "ux_tag \<Rightarrow> string \<times> string" where
  "ux_tags t =
     (case t of
        UX_TAG_NONE \<Rightarrow> ([], []) | UX_TAG_SAHARA \<Rightarrow> (''SAHARA'', sgr ''1;35'') | UX_TAG_FIREHOSE \<Rightarrow> (''FIREHOSE'', sgr ''1;34'')
      | UX_TAG_FIREHOSE_RAW \<Rightarrow> (''FIREHOSE_RAW'', sgr ''34'') | UX_TAG_VIP \<Rightarrow> (''VIP'', sgr ''1;32'')
      | UX_TAG_USB \<Rightarrow> (''USB'', sgr ''1;36'') | UX_TAG_SPARSE \<Rightarrow> (''SPARSE'', sgr ''1'')
      | UX_TAG_FLASHMAP \<Rightarrow> (''FLASHMAP'', sgr ''1'') | UX_TAG_CONTENTS \<Rightarrow> (''CONTENTS'', sgr ''1'')
      | UX_TAG_SIM \<Rightarrow> (''SIM'', sgr ''2'') | UX_TAG_QUD \<Rightarrow> (''QUD'', sgr ''1;36'') | UX_TAG_MINIDUMP \<Rightarrow> (''MINIDUMP'', sgr ''35''))"

definition ux_levels :: "ux_level \<Rightarrow> string \<times> string" where
  "ux_levels l =
     (case l of
        UX_LEVEL_NONE \<Rightarrow> ([], []) | UX_LEVEL_ERR \<Rightarrow> (''ERR'', sgr ''1;31'') | UX_LEVEL_WARN \<Rightarrow> (''WARN'', sgr ''1;33'')
      | UX_LEVEL_INFO \<Rightarrow> (''INFO'', sgr ''1'') | UX_LEVEL_DEBUG \<Rightarrow> (''DEBUG'', sgr ''2'') | UX_LEVEL_LOG \<Rightarrow> (''LOG'', sgr ''36''))"

definition ux_put :: "ux_stream \<Rightarrow> string \<Rightarrow> ux \<Rightarrow> ux" where
  "ux_put fp t s = (case fp of Ux_Stdout \<Rightarrow> s\<lparr>ux_out := ux_out s @ t\<rparr> | Ux_Stderr \<Rightarrow> s\<lparr>ux_errs := ux_errs s @ t\<rparr>)"

definition ux_bol :: "ux_stream \<Rightarrow> ux \<Rightarrow> bool" where
  "ux_bol fp s = (case fp of Ux_Stdout \<Rightarrow> ux_stdout_bol s | Ux_Stderr \<Rightarrow> ux_stderr_bol s)"

definition ux_set_bol :: "ux_stream \<Rightarrow> bool \<Rightarrow> ux \<Rightarrow> ux" where
  "ux_set_bol fp b s = (case fp of Ux_Stdout \<Rightarrow> s\<lparr>ux_stdout_bol := b\<rparr> | Ux_Stderr \<Rightarrow> s\<lparr>ux_stderr_bol := b\<rparr>)"

definition ux_color_detect :: "ux_env \<Rightarrow> ux_stream \<Rightarrow> ux \<Rightarrow> bool" where
  "ux_color_detect E fp s =
     (if ux_color s = UX_COLOR_NEVER then False
      else if ux_color s = UX_COLOR_ALWAYS then True
      else if (case ux_getenv E ''NO_COLOR'' of None \<Rightarrow> False | Some v \<Rightarrow> v \<noteq> []) then False
      else if ux_getenv E ''TERM'' = Some ''dumb'' then False
      else ux_isatty E fp)"

definition ux_color_enabled :: "ux_env \<Rightarrow> ux_stream \<Rightarrow> ux \<Rightarrow> bool \<times> ux" where
  "ux_color_enabled E fp s =
     (case (case fp of Ux_Stdout \<Rightarrow> ux_color_stdout s | Ux_Stderr \<Rightarrow> ux_color_stderr s) of
        Some b \<Rightarrow> (b, s)
      | None \<Rightarrow> let b = ux_color_detect E fp s
          in (b, case fp of Ux_Stdout \<Rightarrow> s\<lparr>ux_color_stdout := Some b\<rparr> | Ux_Stderr \<Rightarrow> s\<lparr>ux_color_stderr := Some b\<rparr>))"

definition ux_style :: "ux_env \<Rightarrow> ux_stream \<Rightarrow> ux_style_kind \<Rightarrow> ux \<Rightarrow> string \<times> ux" where
  "ux_style E fp st s = (case ux_color_enabled E fp s of (b, s') \<Rightarrow> (if b then ux_styles st else [], s'))"

definition ux_set_color_mode :: "ux_color_mode \<Rightarrow> ux \<Rightarrow> ux" where
  "ux_set_color_mode m s = s\<lparr>ux_color := m, ux_color_stdout := None, ux_color_stderr := None\<rparr>"

definition ux_set_quiet :: "bool \<Rightarrow> ux \<Rightarrow> ux" where
  "ux_set_quiet q s = s\<lparr>ux_quiet := q\<rparr>"

definition ux_silenced :: "ux \<Rightarrow> bool" where
  "ux_silenced s \<longleftrightarrow> ux_quiet s \<and> \<not> ux_debugging s"

definition ux_direction :: "ux_env \<Rightarrow> bool \<Rightarrow> ux \<Rightarrow> string \<times> ux" where
  "ux_direction E tx s =
     (case ux_style E Ux_Stdout (if tx then UX_STYLE_TX else UX_STYLE_RX) s of (on, s1) \<Rightarrow>
        case ux_style E Ux_Stdout UX_STYLE_RESET s1 of (off, s2) \<Rightarrow>
          (take 23 (on @ (if tx then ''TX'' else ''RX'') @ '':'' @ off), s2))"

subsection \<open>The program's name\<close>

text \<open>What stands behind the last separator, if anything does.\<close>

definition ux_set_progname :: "string option \<Rightarrow> ux \<Rightarrow> ux" where
  "ux_set_progname name s =
     (case name of
        None \<Rightarrow> s
      | Some n \<Rightarrow>
          let base = rev (takeWhile (\<lambda>c. c \<noteq> CHR ''/'' \<and> c \<noteq> CHR 0x5C) (rev n))
          in if base = [] then s else s\<lparr>ux_progname_str := base\<rparr>)"

subsection \<open>Messages\<close>

definition show_msec :: "nat \<Rightarrow> string" where
  "show_msec n = replicate (3 - length (show_dec n)) CHR ''0'' @ show_dec n"

text \<open>The width is that of the stamp and of the milliseconds behind it.\<close>

definition ux_print_prefix :: "ux_env \<Rightarrow> ux_stream \<Rightarrow> ux \<Rightarrow> nat \<times> ux" where
  "ux_print_prefix E fp s =
     (case ux_now E s of (formatted, us) \<Rightarrow>
        let stamp = (case formatted of None \<Rightarrow> ''00:00:00'' | Some t \<Rightarrow> t) in
        (case ux_style E fp UX_STYLE_DIM s of (on, s1) \<Rightarrow>
         case ux_style E fp UX_STYLE_RESET s1 of (off, s2) \<Rightarrow>
           (length stamp + 5,
            ux_put fp (on @ stamp @ ''.'' @ show_msec (us mod 1000000 div 1000) @ off @ '' '') s2)))"

definition ux_print_label :: "ux_env \<Rightarrow> ux_stream \<Rightarrow> string \<times> string \<Rightarrow> ux \<Rightarrow> ux" where
  "ux_print_label E fp label s =
     (case ux_color_enabled E fp s of (color, s1) \<Rightarrow>
        ux_put fp ((if color then snd label else []) @ fst label @ '':''
          @ (if color then ux_styles UX_STYLE_RESET else []) @ '' '') s1)"

text \<open>The text up to and including the first newline, and the rest.\<close>

definition first_line :: "string \<Rightarrow> string" where
  "first_line t = takeWhile (\<lambda>c. c \<noteq> CHR 0x0A) t @ (if CHR 0x0A \<in> set t then [CHR 0x0A] else [])"

lemma first_line_nonempty [simp]: "first_line t = [] \<longleftrightarrow> t = []"
  by (cases t) (auto simp: first_line_def)

text \<open>One line: its prefix, the label and the tag not printed yet, and the styled text.\<close>

definition ux_line ::
  "ux_env \<Rightarrow> ux_stream \<Rightarrow> string \<Rightarrow> string \<Rightarrow> nat \<Rightarrow> ux_level \<Rightarrow> ux_tag \<Rightarrow> string \<Rightarrow> ux \<Rightarrow> nat \<times> ux" where
  "ux_line E fp on off width level tag line s =
     (let (width1, s1) =
            (if ux_debugging s \<and> ux_bol fp s \<and> hd line \<noteq> CHR 0x0A
             then (if width = 0 then ux_print_prefix E fp s else (width, ux_put fp (replicate width CHR '' '') s))
             else (width, s));
          s2 = (if level \<noteq> UX_LEVEL_NONE then ux_print_label E fp (ux_levels level) s1 else s1);
          s3 = (if tag \<noteq> UX_TAG_NONE then ux_print_label E fp (ux_tags tag) s2 else s2);
          newline = last line = CHR 0x0A;
          text = (if newline then butlast line else line);
          s4 = (if text \<noteq> [] then ux_put fp (on @ text @ off) s3 else s3);
          s5 = (if newline then ux_put fp [CHR 0x0A] s4 else s4)
      in (width1, ux_set_bol fp newline s5))"

function ux_lines ::
  "ux_env \<Rightarrow> ux_stream \<Rightarrow> string \<Rightarrow> string \<Rightarrow> nat \<Rightarrow> ux_level \<Rightarrow> ux_tag \<Rightarrow> string \<Rightarrow> ux \<Rightarrow> ux" where
  "ux_lines E fp on off width level tag text s =
     (if text = [] then s
      else case ux_line E fp on off width level tag (first_line text) s of (width', s') \<Rightarrow>
        ux_lines E fp on off width' UX_LEVEL_NONE UX_TAG_NONE (drop (length (first_line text)) text) s')"
  by pat_completeness auto
termination
  by (relation "measure (\<lambda>(E, fp, on, off, w, l, t, text, s). length text)") auto

declare ux_lines.simps [simp del]

definition ux_vprint :: "ux_env \<Rightarrow> ux_stream \<Rightarrow> ux_style_kind \<Rightarrow> ux_level \<Rightarrow> ux_tag \<Rightarrow> string \<Rightarrow> ux \<Rightarrow> ux" where
  "ux_vprint E fp st level tag text s =
     (case ux_style E fp st s of (on, s1) \<Rightarrow>
        case (if on \<noteq> [] then ux_style E fp UX_STYLE_RESET s1 else ([], s1)) of (off, s2) \<Rightarrow>
          ux_lines E fp on off 0 (if ux_bol fp s2 then level else UX_LEVEL_NONE) tag text s2)"

definition ux_clear_line :: "ux_env \<Rightarrow> ux \<Rightarrow> ux" where
  "ux_clear_line E s =
     (if ux_cur_line_length s = 0 then s
      else case ux_color_enabled E Ux_Stdout s of (color, s1) \<Rightarrow>
        (ux_put Ux_Stdout (if color then [CHR 0x0D, CHR 0x1B] @ ''[2K''
             else replicate (ux_cur_line_length s1) CHR '' '' @ [CHR 0x0D]) s1)\<lparr>ux_cur_line_length := 0\<rparr>)"

definition ux_vmsg :: "ux_env \<Rightarrow> ux_stream \<Rightarrow> ux_style_kind \<Rightarrow> ux_level \<Rightarrow> ux_tag \<Rightarrow> string \<Rightarrow> ux \<Rightarrow> ux" where
  "ux_vmsg E fp st level tag text s = ux_vprint E fp st level tag text (ux_clear_line E s)"

definition ux_quiet_prefix :: "ux \<Rightarrow> ux_level \<Rightarrow> ux_tag \<Rightarrow> ux_level \<times> ux_tag" where
  "ux_quiet_prefix s level tag =
     (if \<not> ux_debugging s then (UX_LEVEL_NONE, UX_TAG_NONE)
      else (if tag = UX_TAG_NONE then level else UX_LEVEL_NONE, tag))"

definition ux_err_tag :: "ux_env \<Rightarrow> ux_tag \<Rightarrow> string \<Rightarrow> ux \<Rightarrow> ux" where
  "ux_err_tag E tag text = ux_vmsg E Ux_Stderr UX_STYLE_ERROR UX_LEVEL_ERR tag text"

definition ux_err :: "ux_env \<Rightarrow> string \<Rightarrow> ux \<Rightarrow> ux" where
  "ux_err E text = ux_vmsg E Ux_Stderr UX_STYLE_ERROR UX_LEVEL_ERR UX_TAG_NONE text"

definition ux_report :: "ux_env \<Rightarrow> ux_style_kind \<Rightarrow> ux_level \<Rightarrow> string \<Rightarrow> ux \<Rightarrow> ux" where
  "ux_report E st level text = ux_vprint E Ux_Stderr st level UX_TAG_NONE text"

text \<open>The last argument is \<open>strerror\<close> of the error when it is reported.\<close>

definition ux_vreport ::
  "ux_env \<Rightarrow> ux_style_kind \<Rightarrow> ux_level \<Rightarrow> ux_tag \<Rightarrow> string option \<Rightarrow> string option \<Rightarrow> ux \<Rightarrow> ux" where
  "ux_vreport E st level tag text errstr s =
     (let s1 = ux_clear_line E s;
          s2 = ux_report E st level (ux_progname_str s1 @ '': '') s1;
          s3 = (case text of
                  None \<Rightarrow> s2
                | Some t \<Rightarrow> let s' = ux_vprint E Ux_Stderr st UX_LEVEL_NONE tag t s2
                    in if errstr \<noteq> None then ux_report E st UX_LEVEL_NONE '': '' s' else s');
          s4 = (case errstr of None \<Rightarrow> s3 | Some e \<Rightarrow> ux_report E st UX_LEVEL_NONE e s3)
      in ux_report E st UX_LEVEL_NONE [CHR 0x0A] s4)"

definition ux_warn_tag :: "ux_env \<Rightarrow> ux_tag \<Rightarrow> string \<Rightarrow> string \<Rightarrow> ux \<Rightarrow> ux" where
  "ux_warn_tag E tag text errstr = ux_vreport E UX_STYLE_WARNING UX_LEVEL_WARN tag (Some text) (Some errstr)"

definition ux_warn :: "ux_env \<Rightarrow> string \<Rightarrow> string \<Rightarrow> ux \<Rightarrow> ux" where
  "ux_warn E text errstr = ux_vreport E UX_STYLE_WARNING UX_LEVEL_WARN UX_TAG_NONE (Some text) (Some errstr)"

definition ux_warnx_tag :: "ux_env \<Rightarrow> ux_tag \<Rightarrow> string \<Rightarrow> ux \<Rightarrow> ux" where
  "ux_warnx_tag E tag text = ux_vreport E UX_STYLE_WARNING UX_LEVEL_WARN tag (Some text) None"

definition ux_warnx :: "ux_env \<Rightarrow> string \<Rightarrow> ux \<Rightarrow> ux" where
  "ux_warnx E text = ux_vreport E UX_STYLE_WARNING UX_LEVEL_WARN UX_TAG_NONE (Some text) None"

text \<open>What is printed before the program exits with a status.\<close>

definition ux_die :: "ux_env \<Rightarrow> string \<Rightarrow> string \<Rightarrow> ux \<Rightarrow> ux" where
  "ux_die E text errstr = ux_vreport E UX_STYLE_ERROR UX_LEVEL_ERR UX_TAG_NONE (Some text) (Some errstr)"

definition ux_diex :: "ux_env \<Rightarrow> string \<Rightarrow> ux \<Rightarrow> ux" where
  "ux_diex E text = ux_vreport E UX_STYLE_ERROR UX_LEVEL_ERR UX_TAG_NONE (Some text) None"

text \<open>Informational messages carry their level or tag in debug mode only.\<close>

definition ux_plain :: "ux_env \<Rightarrow> ux_style_kind \<Rightarrow> ux_level \<Rightarrow> ux_tag \<Rightarrow> string \<Rightarrow> ux \<Rightarrow> ux" where
  "ux_plain E st level tag text s =
     (case ux_quiet_prefix s level tag of (l, t) \<Rightarrow> ux_vmsg E Ux_Stdout st l t text s)"

definition ux_info_tag :: "ux_env \<Rightarrow> ux_tag \<Rightarrow> string \<Rightarrow> ux \<Rightarrow> ux" where
  "ux_info_tag E tag text s = (if ux_silenced s then s else ux_plain E UX_STYLE_NONE UX_LEVEL_INFO tag text s)"

definition ux_info :: "ux_env \<Rightarrow> string \<Rightarrow> ux \<Rightarrow> ux" where
  "ux_info E text s = (if ux_silenced s then s else ux_plain E UX_STYLE_NONE UX_LEVEL_INFO UX_TAG_NONE text s)"

definition ux_result_tag :: "ux_env \<Rightarrow> ux_tag \<Rightarrow> string \<Rightarrow> ux \<Rightarrow> ux" where
  "ux_result_tag E tag text s = ux_plain E UX_STYLE_NONE UX_LEVEL_INFO tag text s"

definition ux_log_tag :: "ux_env \<Rightarrow> ux_tag \<Rightarrow> string \<Rightarrow> ux \<Rightarrow> ux" where
  "ux_log_tag E tag text s = (if \<not> ux_debugging s then s else ux_plain E UX_STYLE_LOG UX_LEVEL_LOG tag text s)"

definition ux_debug_tag :: "ux_env \<Rightarrow> ux_tag \<Rightarrow> string \<Rightarrow> ux \<Rightarrow> ux" where
  "ux_debug_tag E tag text s = (if \<not> ux_debugging s then s else ux_plain E UX_STYLE_NONE UX_LEVEL_DEBUG tag text s)"

definition ux_status ::
  "ux_env \<Rightarrow> ux_tag \<Rightarrow> ux_outcome \<Rightarrow> string \<Rightarrow> string option \<Rightarrow> string \<Rightarrow> ux \<Rightarrow> ux" where
  "ux_status E tag status verb name rest s =
     (if ux_silenced s then s
      else case ux_quiet_prefix s UX_LEVEL_INFO tag of (l, t) \<Rightarrow>
        case ux_style E Ux_Stdout (if status = UX_STATUS_DONE then UX_STYLE_SUCCESS else UX_STYLE_SKIPPED) s of (on, s1) \<Rightarrow>
        case ux_style E Ux_Stdout UX_STYLE_HEADING s1 of (bold, s2) \<Rightarrow>
        case ux_style E Ux_Stdout UX_STYLE_RESET s2 of (off, s3) \<Rightarrow>
          ux_vmsg E Ux_Stdout UX_STYLE_NONE l t (on @ verb @ off @ '' '' @ [CHR 0x22] @ bold
            @ (case name of None \<Rightarrow> [] | Some n \<Rightarrow> n) @ off @ [CHR 0x22] @ take 255 rest @ [CHR 0x0A]) s3)"

subsection \<open>Sizes and progress\<close>

text \<open>\<open>%.1f\<close> and \<open>%.2f\<close> round the binary value, ties to even.\<close>

definition show_fixed :: "nat \<Rightarrow> rat \<Rightarrow> string" where
  "show_fixed places q =
     (let n = nat (round_even (q * 10 ^ places)); frac = show_dec (n mod 10 ^ places)
      in show_dec (n div 10 ^ places) @ ''.'' @ replicate (places - length frac) CHR ''0'' @ frac)"

fun scale_size :: "rat \<Rightarrow> string list \<Rightarrow> rat \<times> string" where
  "scale_size v (u # u' # us) = (if v \<ge> 1024 then scale_size (v / 1024) (u' # us) else (v, u))"
| "scale_size v us = (v, concat us)"

definition ux_format_size :: "nat \<Rightarrow> u64 \<Rightarrow> string" where
  "ux_format_size len bytes =
     take (len - 1)
       (if bytes < 1024 then show_dec (unat bytes) @ '' B''
        else case scale_size (dbl_abs (of_nat (unat bytes)) / 1024) [''KiB'', ''MiB'', ''GiB'', ''TiB''] of (v, u) \<Rightarrow>
          show_fixed 1 v @ '' '' @ u)"

text \<open>A value as a \<open>float\<close>: the nearest binary32 number, ties to even.\<close>

definition flt_abs :: "rat \<Rightarrow> rat" where
  "flt_abs q =
     (if q = 0 then 0
      else let ulp = 2 powi (max (-149) (exp2 q - 23)) in of_int (round_even (q / ulp)) * ulp)"

definition ux_init :: "ux_env \<Rightarrow> ux \<Rightarrow> ux" where
  "ux_init E s = (case ux_columns E of None \<Rightarrow> s | Some c \<Rightarrow> s\<lparr>ux_width := min c UX_PROGRESS_SIZE_MAX\<rparr>)"

text \<open>
  The line drawn and its columns. \<open>max\<close> is not zero; the conversion of the float result of a division by
  zero is undefined.
\<close>

definition progress_line :: "nat \<Rightarrow> string \<Rightarrow> nat \<Rightarrow> nat \<Rightarrow> string \<times> string \<times> string" where
  "progress_line width task v m =
     (let bar = width - (20 + 4 + 6);
          percent = flt_abs (flt_abs (of_nat v) / flt_abs (of_nat m));
          bars = nat \<lfloor>flt_abs (percent * flt_abs (of_nat bar))\<rfloor>;
          name = take 20 task
      in (name @ replicate (20 - length name) CHR '' '' @ '' ['',
          replicate bars CHR ''#'',
          replicate (bar - bars) CHR ''-'' @ ''] '' @ show_fixed 2 (flt_abs (percent * 100)) @ ''%''))"

definition ux_progress :: "ux_env \<Rightarrow> string \<Rightarrow> u32 \<Rightarrow> u32 \<Rightarrow> ux \<Rightarrow> ux" where
  "ux_progress E task v m s =
     (case ux_style E Ux_Stdout UX_STYLE_PROGRESS s of (on, s1) \<Rightarrow>
      case (if on \<noteq> [] then ux_style E Ux_Stdout UX_STYLE_RESET s1 else ([], s1)) of (off, s2) \<Rightarrow>
        if ux_width s2 < 30 \<or> ux_silenced s2 then s2
        else if last_progress_update s2 div 1000000 \<noteq> 0
          \<and> last_progress_update s2 \<le> snd (ux_now E s2)
          \<and> snd (ux_now E s2) - last_progress_update s2 < 1000000 div UX_PROGRESS_REFRESH_RATE then s2
        else
          case progress_line (ux_width s2) (take 31 task) (unat (min v m)) (unat m) of (l, bars, r) \<Rightarrow>
            (ux_put Ux_Stdout (l @ on @ bars @ off @ r @ [CHR 0x0D]) s2)
              \<lparr>ux_cur_line_length := length (l @ bars @ r), last_progress_update := snd (ux_now E s2)\<rparr>)"

subsection \<open>Plain output\<close>

text \<open>A message split into lines, the last of which may lack its newline.\<close>

lemma first_line_append: "CHR 0x0A \<notin> set l \<Longrightarrow> first_line (l @ CHR 0x0A # t) = l @ [CHR 0x0A]"
proof -
  assume "CHR 0x0A \<notin> set l"
  then have "takeWhile (\<lambda>c. c \<noteq> CHR 0x0A) (l @ CHR 0x0A # t) = l @ takeWhile (\<lambda>c. c \<noteq> CHR 0x0A) (CHR 0x0A # t)"
    by (intro takeWhile_append2) auto
  then show ?thesis by (simp add: first_line_def)
qed

lemma first_line_prefix: "first_line t @ drop (length (first_line t)) t = t"
proof (cases "CHR 0x0A \<in> set t")
  case True
  then obtain l r where "t = l @ CHR 0x0A # r" "CHR 0x0A \<notin> set l" by (meson split_list_first)
  then show ?thesis by (simp add: first_line_append)
next
  case False
  then have "takeWhile (\<lambda>c. c \<noteq> CHR 0x0A) t = t" by (auto simp: takeWhile_eq_all_conv)
  then have "first_line t = t" using False by (simp only: first_line_def if_False append_Nil2)
  then show ?thesis by (simp only: drop_all order_refl append_Nil2)
qed

definition ux_same_mode :: "ux \<Rightarrow> ux \<Rightarrow> bool" where
  "ux_same_mode s s' \<longleftrightarrow> ux_debugging s' = ux_debugging s \<and> ux_quiet s' = ux_quiet s
     \<and> ux_cur_line_length s' = ux_cur_line_length s \<and> ux_errs s' = ux_errs s"

lemma ux_line_plain:
  assumes "\<not> ux_debugging s" "line \<noteq> []"
  shows "\<exists>w s'. ux_line E Ux_Stdout [] [] width UX_LEVEL_NONE UX_TAG_NONE line s = (w, s')
    \<and> ux_out s' = ux_out s @ line \<and> ux_same_mode s s'"
  using assms append_butlast_last_id [OF assms(2)]
  by (cases "last line = CHR 0x0A") (auto simp: ux_line_def Let_def ux_put_def ux_set_bol_def ux_same_mode_def)

lemma ux_lines_plain:
  "\<not> ux_debugging s \<Longrightarrow>
   ux_out (ux_lines E Ux_Stdout [] [] width UX_LEVEL_NONE UX_TAG_NONE msg s) = ux_out s @ msg
   \<and> ux_same_mode s (ux_lines E Ux_Stdout [] [] width UX_LEVEL_NONE UX_TAG_NONE msg s)"
proof (induction msg arbitrary: width s rule: length_induct)
  case (1 msg)
  show ?case
  proof (cases "msg = []")
    case True
    then show ?thesis by (subst (1 2) ux_lines.simps) (simp add: ux_same_mode_def)
  next
    case False
    have ne: "first_line msg \<noteq> []" using False by simp
    obtain w s1 where l: "ux_line E Ux_Stdout [] [] width UX_LEVEL_NONE UX_TAG_NONE (first_line msg) s = (w, s1)"
      "ux_out s1 = ux_out s @ first_line msg" "ux_same_mode s s1"
      using ux_line_plain [OF 1(2) ne] by blast
    have "length (drop (length (first_line msg)) msg) < length msg" using ne False by simp
    moreover have "\<not> ux_debugging s1" using l(3) 1(2) by (simp add: ux_same_mode_def)
    ultimately have "ux_out (ux_lines E Ux_Stdout [] [] w UX_LEVEL_NONE UX_TAG_NONE (drop (length (first_line msg)) msg) s1)
        = ux_out s1 @ drop (length (first_line msg)) msg
      \<and> ux_same_mode s1 (ux_lines E Ux_Stdout [] [] w UX_LEVEL_NONE UX_TAG_NONE (drop (length (first_line msg)) msg) s1)"
      using 1(1) by blast
    then show ?thesis using False l first_line_prefix [of msg]
      by (subst (1 2) ux_lines.simps) (simp add: ux_same_mode_def)
  qed
qed

lemma ux_color_same: "ux_color_enabled E fp s = (b, s') \<Longrightarrow> ux_same_mode s s' \<and> ux_out s' = ux_out s \<and> ux_bol x s' = ux_bol x s"
  by (auto simp: ux_color_enabled_def ux_same_mode_def ux_bol_def Let_def split: option.splits ux_stream.splits)

lemma ux_info_tag_verbatim:
  assumes "\<not> ux_debugging s" "\<not> ux_quiet s" "ux_cur_line_length s = 0"
  shows "ux_out (ux_info_tag E tag msg s) = ux_out s @ msg \<and> ux_same_mode s (ux_info_tag E tag msg s)"
proof -
  obtain b s1 where c: "ux_color_enabled E Ux_Stdout s = (b, s1)" by (cases "ux_color_enabled E Ux_Stdout s") auto
  have s1: "ux_same_mode s s1" "ux_out s1 = ux_out s" using ux_color_same [OF c] by simp_all
  then have "ux_info_tag E tag msg s = ux_lines E Ux_Stdout [] [] 0 UX_LEVEL_NONE UX_TAG_NONE msg s1"
    using assms c by (simp add: ux_info_tag_def ux_silenced_def ux_plain_def ux_quiet_prefix_def ux_vmsg_def
        ux_clear_line_def ux_vprint_def ux_style_def ux_styles_def)
  moreover have "\<not> ux_debugging s1" using s1 assms(1) by (simp add: ux_same_mode_def)
  ultimately show ?thesis using ux_lines_plain [of s1 E 0 msg] s1 by (simp add: ux_same_mode_def)
qed

text \<open>
  Without \<open>--debug\<close> and \<open>--quiet\<close> and with no progress bar on the line, informational messages reach
  the standard output verbatim, in order and with nothing between them, on a terminal or not, and
  write nothing to the error stream.
\<close>

lemma ux_infos_verbatim:
  assumes "\<not> ux_debugging s" "\<not> ux_quiet s" "ux_cur_line_length s = 0"
  shows "ux_out (fold (\<lambda>(tag, msg). ux_info_tag E tag msg) msgs s) = ux_out s @ concat (map snd msgs)
    \<and> ux_errs (fold (\<lambda>(tag, msg). ux_info_tag E tag msg) msgs s) = ux_errs s"
  using assms
proof (induction msgs arbitrary: s)
  case Nil
  then show ?case by simp
next
  case (Cons m msgs)
  obtain tag msg where m: "m = (tag, msg)" by (cases m)
  have v: "ux_out (ux_info_tag E tag msg s) = ux_out s @ msg" "ux_same_mode s (ux_info_tag E tag msg s)"
    using ux_info_tag_verbatim [OF Cons.prems] by simp_all
  show ?case using Cons.IH [of "ux_info_tag E tag msg s"] Cons.prems v by (simp add: m ux_same_mode_def)
qed

definition ex_ux_env :: ux_env where
  "ex_ux_env = \<lparr>ux_getenv = (\<lambda>_. None), ux_isatty = (\<lambda>_. True), ux_columns = Some 100,
     ux_now = (\<lambda>_. (Some ''14:03:21'', 123000))\<rparr>"

lemma ux_infos_verbatim_witness:
  "ux_out (fold (\<lambda>(tag, msg). ux_info_tag ex_ux_env tag msg)
       [(UX_TAG_USB, ''one''), (UX_TAG_NONE, '' two'' @ [CHR 0x0A])] ux_initial)
     = ''one two'' @ [CHR 0x0A]"
  using ux_infos_verbatim [of ux_initial ex_ux_env "[(UX_TAG_USB, ''one''), (UX_TAG_NONE, '' two'' @ [CHR 0x0A])]"]
  by (simp add: ux_initial_def)

subsection \<open>Debug output\<close>

text \<open>
  The continuation lines of a message in debug mode are indented by the width of the time stamp; the
  msg of the first line stands behind its label as well, so the columns differ by the label.
\<close>

lemma ux_debug_continuation:
  "ux_out (ux_info ex_ux_env (''a'' @ [CHR 0x0A] @ ''b'' @ [CHR 0x0A])
      (ux_set_color_mode UX_COLOR_NEVER (ux_initial\<lparr>ux_debugging := True\<rparr>)))
    = ''14:03:21.123 INFO: a'' @ [CHR 0x0A] @ ''             b'' @ [CHR 0x0A]"
proof -
  have ms: "show_msec 123 = ''123''" by code_simp
  have fl: "first_line (c # CHR 0x0A # t) = [c, CHR 0x0A]" if "c \<noteq> CHR 0x0A" for c t
    using first_line_append [of "[c]" t] that by simp
  have rep: "replicate 13 c = [c, c, c, c, c, c, c, c, c, c, c, c, c]" for c :: char
    by (simp add: numeral_eq_Suc)
  show ?thesis
    by (simp add: ux_info_def ux_silenced_def ux_plain_def ux_quiet_prefix_def ux_vmsg_def ux_clear_line_def
        ux_vprint_def ux_style_def ux_styles_def ux_set_color_mode_def ux_initial_def ux_color_enabled_def
        ux_color_detect_def ux_bol_def ux_lines.simps ux_line_def fl Let_def ux_print_prefix_def ex_ux_env_def
        ux_put_def ux_print_label_def ux_levels_def ux_set_bol_def ms rep)
qed

end
