(* ===== verification/Nbdkit.thy ===== *)
theory Nbdkit
  imports FhData FhSize Sahara Ux
begin

text \<open>
  The plugin that serves a device's storage as a block device, \<open>src/nbdkit-qdl-plugin.c\<close>. Its static
  variables are a record; the libusb backend it opens is a parameter: \<open>np_connect\<close> is \<open>qdl_init\<close> and
  \<open>qdl_open\<close> on the state of the link, \<open>np_disconnect\<close> is \<open>qdl_close\<close>. nbdkit serialises all calls, so a
  session is the sequence of them. Messages to its log and \<open>errno\<close> are not modelled.
\<close>

subsection \<open>State\<close>

record 'd nbd_plugin =
  config_programmer :: "string option"
  config_storage :: storage_type
  config_lun :: int
  np_debug :: bool
  np_dev :: "'d fh option"
  np_sector_size :: nat
  np_num_sectors :: nat
  np_link :: 'd
  np_host :: host

record 'd nbd_env =
  np_fh :: "'d fh_env"
  np_connect :: "nat \<Rightarrow> 'd \<Rightarrow> (int \<times> 'd) option"
  np_disconnect :: "'d \<Rightarrow> 'd"
  np_absolute_path :: "string \<Rightarrow> string option"
  np_conv :: "rat \<Rightarrow> nat"

definition nbd_initial :: "'d \<Rightarrow> host \<Rightarrow> 'd nbd_plugin" where
  "nbd_initial d h = \<lparr>config_programmer = None, config_storage = QDL_STORAGE_UFS, config_lun = 1, np_debug = False,
     np_dev = None, np_sector_size = 0, np_num_sectors = 0, np_link = d, np_host = h\<rparr>"

subsection \<open>Configuration\<close>

text \<open>\<open>atoi\<close> is \<open>strtol\<close> cut to an \<open>int\<close>.\<close>

definition qdl_plugin_config :: "'d nbd_env \<Rightarrow> string \<Rightarrow> string \<Rightarrow> 'd nbd_plugin \<Rightarrow> int \<times> 'd nbd_plugin" where
  "qdl_plugin_config N key value P =
     (if key = ''programmer'' then
        (let p = np_absolute_path N value
         in (if p = None then -1 else 0, P\<lparr>config_programmer := p\<rparr>))
      else if key = ''storage'' then
        (let t = decode_storage_type (Some value)
         in (if t = QDL_STORAGE_UNKNOWN then -1 else 0, P\<lparr>config_storage := t\<rparr>))
      else if key = ''lun'' then (0, P\<lparr>config_lun := to_int (fst (c_strtol 10 value))\<rparr>)
      else if key = ''debug'' then (0, P\<lparr>np_debug := value = ''true'' \<or> value = ''1''\<rparr>)
      else (-1, P))"

definition qdl_plugin_config_complete :: "'d nbd_plugin \<Rightarrow> int" where
  "qdl_plugin_config_complete P = (if config_programmer P = None then -1 else 0)"

definition qdl_plugin_load :: "ux \<Rightarrow> ux" where
  "qdl_plugin_load s = ux_set_color_mode UX_COLOR_NEVER (ux_set_progname (Some ''nbdkit-qdl-plugin'') s)"

subsection \<open>Setting up the device\<close>

text \<open>\<open>usb_init\<close> clears the handle, so \<open>slot\<close> is 0, not the value that stands for no slot.\<close>

definition nbd_device :: "'d \<Rightarrow> 'd qdl_device" where
  "nbd_device d = \<lparr>dev_type = QDL_DEVICE_USB, max_payload_size = 1048576, sector_size = 0,
     current_storage_type = QDL_STORAGE_UNKNOWN, skipblock = QDL_SKIPBLOCK_NONE, slot_id = 0,
     vip_data = vip_zero, pending_buf = None, pending_len = 0, pending_off = 0, link = d\<rparr>"

lemma nbd_requests_slot: "slot_attr (nbd_device d) = [(''slot'', show_u32 0)]"
  by (simp add: slot_attr_def nbd_device_def)

definition nbd_session :: "'d qdl_device \<Rightarrow> host \<Rightarrow> 'd fh" where
  "nbd_session q h = \<lparr>fh_dev = q, fh_gen = None, fh_host = h, fh_stats = stats_zero, fh_gpt = []\<rparr>"

text \<open>The label \<open>err_close\<close>.\<close>

definition nbd_fail :: "'d nbd_env \<Rightarrow> 'd fh \<Rightarrow> 'd nbd_plugin \<Rightarrow> (int \<times> 'd nbd_plugin) option" where
  "nbd_fail N s P = Some (-1, P\<lparr>np_link := np_disconnect N (link (fh_dev s)), np_host := fh_host s\<rparr>)"

definition qdl_device_setup :: "nat \<Rightarrow> 'd nbd_env \<Rightarrow> 'd nbd_plugin \<Rightarrow> (int \<times> 'd nbd_plugin) option" where
  "qdl_device_setup fuel N P =
     (case np_connect N fuel (np_link P) of
        None \<Rightarrow> None
      | Some (r, d) \<Rightarrow>
          if r \<noteq> 0 then Some (-1, P\<lparr>np_link := d\<rparr>)
          else
            let E = np_fh N; q = nbd_device d; s = nbd_session q (np_host P) in
            (case load_sahara_image None (env_fs E) (the (config_programmer P)) of
               None \<Rightarrow> nbd_fail N s P
             | Some img \<Rightarrow>
                 (case sahara_run fuel (env_tr E) (Some ((replicate MAPPING_SZ no_image)[SAHARA_ID_EHOSTDL_IMG := img]))
                         None None (env_stk E) q (np_host P) of
                    None \<Rightarrow> None
                  | Some (ret, q1, h1) \<Rightarrow>
                      let s1 = nbd_session q1 h1 in
                      if ret < 0 then nbd_fail N s1 P
                      else (case firehose_open fuel E (config_storage P) s1 of
                          None \<Rightarrow> None
                        | Some (ret, s2) \<Rightarrow>
                            if ret < 0 then nbd_fail N s2 P
                            else (case firehose_getsize fuel E (np_conv N) (config_lun P) s2 of
                                None \<Rightarrow> None
                              | Some ((ret, geometry), s3) \<Rightarrow>
                                  if ret < 0 then nbd_fail N s3 P
                                  else Some (0, P\<lparr>np_dev := Some s3, np_sector_size := fst (the geometry),
                                         np_num_sectors := snd (the geometry)\<rparr>))))))"

definition qdl_plugin_open :: "nat \<Rightarrow> 'd nbd_env \<Rightarrow> 'd nbd_plugin \<Rightarrow> (bool \<times> 'd nbd_plugin) option" where
  "qdl_plugin_open fuel N P =
     (if np_dev P \<noteq> None then Some (True, P)
      else map_option (\<lambda>(r, P'). (0 \<le> r, P')) (qdl_device_setup fuel N P))"

definition qdl_plugin_close :: "'d nbd_plugin \<Rightarrow> 'd nbd_plugin" where
  "qdl_plugin_close P = P"

definition qdl_plugin_unload :: "nat \<Rightarrow> 'd nbd_env \<Rightarrow> 'd nbd_plugin \<Rightarrow> 'd nbd_plugin option" where
  "qdl_plugin_unload fuel N P =
     (case np_dev P of
        None \<Rightarrow> Some P
      | Some s \<Rightarrow> map_option (\<lambda>(r, s'). P\<lparr>np_dev := None, np_link := np_disconnect N (link (fh_dev s')),
                                             np_host := fh_host s'\<rparr>)
                    (firehose_reset fuel (np_fh N) s))"

subsection \<open>Requests\<close>

definition qdl_plugin_get_size :: "'d nbd_plugin \<Rightarrow> int" where
  "qdl_plugin_get_size P = sint (of_nat (np_sector_size P) * of_nat (np_num_sectors P) :: u64)"

text \<open>
  The code divides by the sector size, which is not zero once a device is open; \<open>dev\<close> is set then.
\<close>

definition qdl_plugin_pread ::
  "nat \<Rightarrow> 'd nbd_env \<Rightarrow> u32 \<Rightarrow> u64 \<Rightarrow> 'd nbd_plugin \<Rightarrow> ((int \<times> u8 list) \<times> 'd nbd_plugin) option" where
  "qdl_plugin_pread fuel N count offset P =
     (let ss = np_sector_size P in
      if unat offset mod ss \<noteq> 0 \<or> unat count mod ss \<noteq> 0 then Some ((-1, []), P)
      else map_option (\<lambda>((r, out), s). ((if r < 0 then -1 else 0, out), P\<lparr>np_dev := Some s\<rparr>))
             (firehose_pread fuel (np_fh N) (config_lun P) (unat offset div ss) ss (unat count div ss) (the (np_dev P))))"

definition qdl_plugin_pwrite ::
  "nat \<Rightarrow> 'd nbd_env \<Rightarrow> u8 list \<Rightarrow> u32 \<Rightarrow> u64 \<Rightarrow> 'd nbd_plugin \<Rightarrow> (int \<times> 'd nbd_plugin) option" where
  "qdl_plugin_pwrite fuel N buf count offset P =
     (let ss = np_sector_size P in
      if unat offset mod ss \<noteq> 0 \<or> unat count mod ss \<noteq> 0 then Some (-1, P)
      else map_option (\<lambda>(r, s). (if r < 0 then -1 else 0, P\<lparr>np_dev := Some s\<rparr>))
             (firehose_pwrite fuel (np_fh N) (config_lun P) (unat offset div ss) buf ss (unat count div ss) (the (np_dev P))))"

subsection \<open>Sessions\<close>

text \<open>
  What nbdkit calls. It requires the configuration to be complete before the first open, and it does
  not send a request without an open handle.
\<close>

datatype nbd_request =
    Call_Config string string | Call_Open | Call_Close | Call_Read u32 u64 | Call_Write "u8 list" u64 | Call_Unload

definition nbd_call :: "nat \<Rightarrow> 'd nbd_env \<Rightarrow> nbd_request \<Rightarrow> 'd nbd_plugin \<Rightarrow> 'd nbd_plugin option" where
  "nbd_call fuel N c P =
     (case c of
        Call_Config k v \<Rightarrow> Some (snd (qdl_plugin_config N k v P))
      | Call_Open \<Rightarrow> map_option snd (qdl_plugin_open fuel N P)
      | Call_Close \<Rightarrow> Some (qdl_plugin_close P)
      | Call_Read count offset \<Rightarrow>
          if np_dev P = None then Some P else map_option snd (qdl_plugin_pread fuel N count offset P)
      | Call_Write buf offset \<Rightarrow>
          if np_dev P = None then Some P
          else map_option snd (qdl_plugin_pwrite fuel N buf (of_nat (length buf)) offset P)
      | Call_Unload \<Rightarrow> qdl_plugin_unload fuel N P)"

inductive nbd_reaches :: "'d nbd_env \<Rightarrow> 'd nbd_plugin \<Rightarrow> 'd nbd_plugin \<Rightarrow> bool" for N where
  nbd_refl: "nbd_reaches N P P"
| nbd_step: "nbd_reaches N P P' \<Longrightarrow> nbd_call fuel N c P' = Some P'' \<Longrightarrow> nbd_reaches N P P''"

lemma getsize_nonzero:
  "firehose_getsize fuel E conv lun s = Some ((r, g), s') \<Longrightarrow> 0 \<le> r \<Longrightarrow> \<exists>a b. g = Some (a, b) \<and> a \<noteq> 0 \<and> b \<noteq> 0"
  by (auto simp: firehose_getsize_def sbind_def sret_def split: option.splits prod.splits if_splits)

definition nbd_ok :: "'d nbd_plugin \<Rightarrow> bool" where
  "nbd_ok P \<longleftrightarrow> (np_dev P \<noteq> None \<longrightarrow> np_sector_size P \<noteq> 0 \<and> np_num_sectors P \<noteq> 0)"

lemma setup_ok:
  assumes "qdl_device_setup fuel N P = Some (r, P')" "np_dev P = None"
  shows "nbd_ok P' \<and> (0 \<le> r \<longleftrightarrow> np_dev P' \<noteq> None)"
  using assms getsize_nonzero
  by (fastforce simp: qdl_device_setup_def nbd_fail_def nbd_ok_def Let_def split: option.splits prod.splits if_splits)

lemma config_frame [simp]:
  "np_dev (snd (qdl_plugin_config N k v P)) = np_dev P"
  "np_sector_size (snd (qdl_plugin_config N k v P)) = np_sector_size P"
  "np_num_sectors (snd (qdl_plugin_config N k v P)) = np_num_sectors P"
  by (simp_all add: qdl_plugin_config_def Let_def)

lemma nbd_call_ok:
  assumes "nbd_ok P" "nbd_call fuel N c P = Some P'"
  shows "nbd_ok P'"
proof (cases c)
  case (Call_Config k v)
  then show ?thesis using assms by (auto simp: nbd_call_def nbd_ok_def)
next
  case Call_Open
  then show ?thesis using assms setup_ok
    by (fastforce simp: nbd_call_def qdl_plugin_open_def split: if_splits)
next
  case (Call_Read count offset)
  then show ?thesis using assms
    by (auto simp: nbd_call_def qdl_plugin_pread_def nbd_ok_def Let_def split: if_splits)
next
  case (Call_Write buf offset)
  then show ?thesis using assms
    by (auto simp: nbd_call_def qdl_plugin_pwrite_def nbd_ok_def Let_def split: if_splits)
qed (use assms in \<open>auto simp: nbd_call_def qdl_plugin_close_def qdl_plugin_unload_def nbd_ok_def split: option.splits\<close>)

lemma nbd_reaches_ok: "nbd_reaches N P P' \<Longrightarrow> nbd_ok P \<Longrightarrow> nbd_ok P'"
  by (induction rule: nbd_reaches.induct) (auto intro: nbd_call_ok)

lemma nbd_initial_ok: "nbd_ok (nbd_initial d h)"
  by (simp add: nbd_ok_def nbd_initial_def)

text \<open>
  C23: Whatever sequence of configuration, open, close, read, write and unload calls nbdkit makes from
  a sound state, as the initial one is: when a device is open, its sector size and its number of
  sectors are not zero, so that no request divides by zero, and opening once more succeeds and
  touches neither the device nor anything the plugin keeps.
\<close>

theorem nbd_sessions_sound:
  assumes "nbd_reaches N P0 P" "nbd_ok P0" "np_dev P = Some s"
  shows "np_sector_size P \<noteq> 0 \<and> np_num_sectors P \<noteq> 0
    \<and> qdl_plugin_open fuel N P = Some (True, P)"
  using nbd_reaches_ok [OF assms(1,2)] assms(3) by (simp add: nbd_ok_def qdl_plugin_open_def)

subsection \<open>Reading and writing blocks\<close>

definition delivered :: "('d \<times> u8 list list) fh \<Rightarrow> u8 list list \<Rightarrow> ('d \<times> u8 list list) fh \<Rightarrow> bool" where
  "delivered s pkts s' \<longleftrightarrow> wlog s' = wlog s @ pkts \<and> same_setup s s'"

lemma delivered_trans: "delivered s ps s1 \<Longrightarrow> delivered s1 qs s2 \<Longrightarrow> delivered s (ps @ qs) s2"
  by (auto simp: delivered_def same_setup_def)

lemma pwrite_chunks_sends:
  "env_tr E = tap T \<Longrightarrow> novip (fh_dev s) \<Longrightarrow> length p = left * ss \<Longrightarrow>
   post (\<lambda>ret s'. 0 \<le> ret \<longrightarrow> (\<exists>pkts. delivered s pkts s' \<and> concat pkts = p
       \<and> (\<forall>b \<in> set pkts. length b \<le> max_payload_size (fh_dev s) \<and> ss dvd length b)))
     (pwrite_chunks fuel E ss left p s)"
proof (induction fuel arbitrary: left p s)
  case (Suc fuel)
  show ?case
  proof (cases "left = 0")
    case True
    have "delivered s [] s" using Suc.prems(2) by (simp add: delivered_def same_setup_def)
    then show ?thesis using True Suc.prems(3) by (auto intro!: exI [of _ "[]"])
  next
    case False
    define k where "k = min (max_payload_size (fh_dev s) div ss) left"
    have kle: "k * ss \<le> max_payload_size (fh_dev s)"
    proof -
      have "k * ss \<le> (max_payload_size (fh_dev s) div ss) * ss" by (rule mult_le_mono1) (simp add: k_def)
      also have "\<dots> \<le> max_payload_size (fh_dev s)" by simp
      finally show ?thesis .
    qed
    have kl: "k * ss \<le> length p" using Suc.prems(3) by (simp add: k_def)
    obtain n s1 where s1: "fh_send E (take (k * ss) p) 10000 s = Some (n, s1)" "wlog s1 = wlog s @ [take (k * ss) p]"
        "same_setup s s1"
      using fh_send_tap [OF Suc.prems(1), of "take (k * ss) p" 10000 s] Suc.prems(2) by auto
    have sent1: "delivered s [take (k * ss) p] s1" using s1 by (simp add: delivered_def)
    have run: "pwrite_chunks (Suc fuel) E ss left p s = (if n < 0 \<or> n \<noteq> int (k * ss) then Some (-1, s1)
        else pwrite_chunks fuel E ss (left - k) (drop (k * ss) p) s1)"
      using False s1(1) by (simp add: k_def [symmetric] sbind_def sret_def Let_def)
    have nv: "novip (fh_dev s1)" "max_payload_size (fh_dev s1) = max_payload_size (fh_dev s)"
      using s1(3) by (simp_all add: same_setup_def)
    have "length (drop (k * ss) p) = (left - k) * ss" using Suc.prems(3) by (simp add: diff_mult_distrib)
    note ih = Suc.IH [OF Suc.prems(1) nv(1) this]
    have "post (\<lambda>ret s'. 0 \<le> ret \<longrightarrow> (\<exists>pkts. delivered s pkts s' \<and> concat pkts = p
       \<and> (\<forall>b \<in> set pkts. length b \<le> max_payload_size (fh_dev s) \<and> ss dvd length b)))
      (pwrite_chunks fuel E ss (left - k) (drop (k * ss) p) s1)"
    proof (rule post_mono [OF ih], clarsimp simp: nv(2))
      fix s' pkts
      assume p: "delivered s1 pkts s'" "concat pkts = drop (k * ss) p"
        "\<forall>b\<in>set pkts. length b \<le> max_payload_size (fh_dev s) \<and> ss dvd length b"
      show "\<exists>pkts. delivered s pkts s' \<and> concat pkts = p
          \<and> (\<forall>b\<in>set pkts. length b \<le> max_payload_size (fh_dev s) \<and> ss dvd length b)"
        using delivered_trans [OF sent1 p(1)] p kle kl
        by (intro exI [of _ "take (k * ss) p # pkts"]) (auto simp: min_def)
    qed
    then show ?thesis unfolding run by simp
  qed
qed simp

definition pwrite_sent ::
  "'d fh_env \<Rightarrow> xml_attrs \<Rightarrow> nat \<Rightarrow> nat \<Rightarrow> u8 list \<Rightarrow> u8 list list \<Rightarrow> u8 list list \<Rightarrow> bool" where
  "pwrite_sent E attrs ss mp buf before now \<longleftrightarrow>
     (\<exists>k pkts. now = before @ replicate (Suc k) (fh_doc E ''program'' attrs) @ pkts \<and> concat pkts = buf
        \<and> (\<forall>b \<in> set pkts. length b \<le> mp \<and> ss dvd length b))"

lemma firehose_pwrite_sends:
  assumes "env_tr E = tap T" "novip (fh_dev s)" "length buf = num * ss"
  shows "post (\<lambda>ret s'. 0 \<le> ret \<longrightarrow>
      pwrite_sent E (pwrite_attrs lun offset ss num) ss (max_payload_size (fh_dev s)) buf (wlog s) (wlog s'))
    (firehose_pwrite fuel E lun offset buf ss num s)"
  (is "post (\<lambda>ret s'. 0 \<le> ret \<longrightarrow> ?Q (wlog s')) _")
  unfolding firehose_pwrite_def
proof (rule post_sbind, rule firehose_write_tap [OF assms(1,2)], goal_cases)
  case (1 r1 s1)
  then obtain k where k: "wlog s1 = wlog s @ replicate (Suc k) (fh_doc E ''program'' (pwrite_attrs lun offset ss num))"
    by blast
  have s1: "novip (fh_dev s1)" "max_payload_size (fh_dev s1) = max_payload_size (fh_dev s)"
    using 1 by (simp_all add: same_setup_def)
  let ?last = "sbind (fh_recv_generic fuel E 120000) (\<lambda>ret. sret (if ret < 0 then ret else int (num * ss)))"
  have step: "post (\<lambda>ret s'. 0 \<le> ret \<longrightarrow> ?Q (wlog s')) (sbind (pwrite_chunks fuel E ss num buf)
      (\<lambda>ret. if ret < 0 then sret ret else ?last) s2)"
    if s2: "novip (fh_dev s2)" "max_payload_size (fh_dev s2) = max_payload_size (fh_dev s)" "wlog s2 = wlog s1" for s2
  proof (rule post_sbind, rule pwrite_chunks_sends [OF assms(1) s2(1) assms(3)], goal_cases)
    case (1 r3 s3)
    show ?case
    proof (cases "r3 < 0")
      case False
      then obtain pkts where p: "delivered s2 pkts s3" "concat pkts = buf"
        "\<forall>b \<in> set pkts. length b \<le> max_payload_size (fh_dev s) \<and> ss dvd length b"
        using 1 s2(2) by auto
      have nv: "novip (fh_dev s3)" using p(1) by (simp add: delivered_def same_setup_def)
      have "?Q (wlog s3)" using p s2(3) k by (auto simp: delivered_def pwrite_sent_def)
      then have "post (\<lambda>_ s4. ?Q (wlog s4)) (fh_recv_generic fuel E 120000 s3)"
        using recv_generic_quiet [OF assms(1) nv, of fuel 120000] by (auto elim!: post_mono)
      then show ?thesis using False by (auto simp: sbind_def sret_def post_def split: option.splits)
    qed simp
  qed
  have "post (\<lambda>ret s'. 0 \<le> ret \<longrightarrow> ?Q (wlog s')) (sbind (fh_recv_generic fuel E 10000) (\<lambda>ret.
       if ret < 0 then sret ret
       else sbind (pwrite_chunks fuel E ss num buf) (\<lambda>ret. if ret < 0 then sret ret else ?last)) s1)"
  proof (rule post_sbind, rule recv_generic_quiet [OF assms(1) s1(1)], goal_cases)
    case (1 r2 s2)
    then show ?case using step [of s2] s1(2) by (simp add: same_setup_def)
  qed
  then show ?case by (cases "r1 < 0") simp_all
qed

text \<open>
  C21: A block write that nbdkit is told succeeded sent the program request for exactly the sectors of
  the offset and the count, once or again after timed-out attempts, and then exactly the bytes of the
  buffer, in whole sectors and packets the programmer accepts. An offset or a count that is not a
  whole number of sectors never succeeds.
\<close>

theorem nbd_pwrite_sends:
  assumes "qdl_plugin_pwrite fuel N buf count offset P = Some (0, P')" "np_dev P = Some s"
    and "env_tr (np_fh N) = tap T" "novip (fh_dev s)" "length buf = unat count"
  shows "\<exists>s' blk num. np_dev P' = Some s'
    \<and> unat offset = blk * np_sector_size P \<and> unat count = num * np_sector_size P
    \<and> pwrite_sent (np_fh N) (pwrite_attrs (config_lun P) blk (np_sector_size P) num) (np_sector_size P)
        (max_payload_size (fh_dev s)) buf (wlog s) (wlog s')"
proof -
  let ?ss = "np_sector_size P"
  let ?blk = "unat offset div ?ss" and ?num = "unat count div ?ss"
  have al: "unat offset mod ?ss = 0" "unat count mod ?ss = 0"
    using assms(1) by (auto simp: qdl_plugin_pwrite_def Let_def split: if_splits)
  then have n: "unat offset = ?blk * ?ss" "unat count = ?num * ?ss" by auto
  obtain r s' where r: "firehose_pwrite fuel (np_fh N) (config_lun P) ?blk buf ?ss ?num s = Some (r, s')"
    "0 \<le> r" "np_dev P' = Some s'"
    using assms(1,2) al by (auto simp: qdl_plugin_pwrite_def Let_def split: if_splits)
  have "length buf = ?num * ?ss" using n(2) assms(5) by simp
  from postD [OF firehose_pwrite_sends [OF assms(3,4) this] r(1)] show ?thesis
    using n r(2,3) by blast
qed

text \<open>
  C22: A block read gives the blocks. Let the device answer the read request for the configured
  physical partition, the sector of the offset and the number of sectors of the count with just those
  sectors of its disk, behind the response that switches to raw mode and before the closing one. Then,
  however its answer is cut into fragments and whatever it would answer to any other request, an
  aligned read returns success and exactly the bytes of the disk at the offset.
\<close>

theorem nbd_pread_reads:
  assumes "np_dev P = Some s" "ss = np_sector_size P" "0 < ss" "ss < 2 ^ 31" "ss \<le> max_payload_size (fh_dev s)"
    and "unat offset mod ss = 0" "unat count = num * ss" "num < 2 ^ 31" "unat offset + unat count \<le> length disk"
    and "env_tr (np_fh N) = frag_link answer" "idle s" "pending_ok (fh_dev s)" "link (fh_dev s) = []"
    and "is_message (np_fh N) (raw, rawnode)" "raw_response rawnode"
    and "is_message (np_fh N) (fin, node)" "firehose_generic_parser () node False = (0, (), False)"
    and "answer (fh_doc (np_fh N) ''read''
            ([(''SECTOR_SIZE_IN_BYTES'', show_dec ss), (''num_partition_sectors'', show_dec num),
              (''physical_partition_number'', show_int (config_lun P)), (''start_sector'', show_dec (unat offset div ss))]
             @ slot_attr (fh_dev s))) = (raw @ tail) # frs @ [fin]"
    and "length (raw @ tail) \<le> 4095" "length fin \<le> 4095" "[] \<notin> set frs"
    and "tail @ concat frs = sub_buf (unat offset) (unat count) disk" "length frs + num + 2 < fuel"
  shows "\<exists>s'. qdl_plugin_pread fuel N count offset P
    = Some ((0, sub_buf (unat offset) (unat count) disk), P\<lparr>np_dev := Some s'\<rparr>)"
proof -
  let ?op = "pread_op (config_lun P) (unat offset div ss) ss num"
  have w: "unat (of_nat ss :: u32) = ss" "unat (of_nat num :: u32) = num"
    using assms(4,8) by (simp_all add: u32_of_nat)
  have nz: "(of_nat ss :: u32) \<noteq> 0" using w(1) assms(3) by auto
  have op: "eff_sector_size ?op (fh_dev s) = of_nat ss" "op_num_sectors ?op = of_nat num"
    using nz by (simp_all add: pread_op_def eff_sector_size_def)
  have fmt: "fmt_d (of_nat k) = show_dec k" if "k < 2 ^ 31" for k
    using that by (simp add: show_int_def int_of_u32_def signed_of_nat signed_take_bit_int_eq_self)
  have req: "read_attrs ?op (of_nat ss) (fh_dev s)
      = [(''SECTOR_SIZE_IN_BYTES'', show_dec ss), (''num_partition_sectors'', show_dec num),
         (''physical_partition_number'', show_int (config_lun P)), (''start_sector'', show_dec (unat offset div ss))]
        @ slot_attr (fh_dev s)"
    using fmt [OF assms(4)] fmt [OF assms(8)]
    by (simp add: read_attrs_def pread_op_def opt_attr_def firehose_alloc_op_def fmt_s_def)
  have l: "link (fh_dev s) @ answer (fh_doc (np_fh N) ''read'' (read_attrs ?op (of_nat ss) (fh_dev s))) = (raw @ tail) # frs @ [fin]"
    unfolding req assms(13,18) by simp
  have len: "length (tail @ concat frs) = unat count" unfolding assms(22) using assms(9) by (simp add: sub_buf_def)
  obtain s' where "firehose_read_buf fuel (np_fh N) ?op (num * ss) s
      = Some ((0, take (num * ss) (tail @ concat frs)), s')"
    using read_buf_fragments [OF assms(10-12) op(1) nz _ assms(14-17) l assms(19-21), of fuel "num * ss"]
      assms(5,7,23) op(2) w len by auto
  moreover have "unat count div ss = num" "unat count mod ss = 0" using assms(3,7) by simp_all
  moreover have "\<not> int num * int ss < 0" by (simp flip: of_nat_mult)
  ultimately show ?thesis using assms(1,6,7) len unfolding assms(2) [symmetric] assms(22) [symmetric]
    by (auto simp: qdl_plugin_pread_def firehose_pread_def sbind_def sret_def assms(2) [symmetric])
qed

text \<open>A read of three blocks of four bytes, and a write of two.\<close>

definition ex_nbd_plugin :: "'d fh \<Rightarrow> 'd nbd_plugin" where
  "ex_nbd_plugin s = (nbd_initial (link (fh_dev s)) (fh_host s))
     \<lparr>np_dev := Some s, np_sector_size := 4, np_num_sectors := 100\<rparr>"

definition ex_nbd_env :: "'d fh_env \<Rightarrow> 'd nbd_env" where
  "ex_nbd_env E = \<lparr>np_fh = E, np_connect = (\<lambda>n d. Some (0, d)), np_disconnect = (\<lambda>d. d),
     np_absolute_path = Some, np_conv = (\<lambda>q. 0)\<rparr>"

definition ex_nbd_open :: "((nat \<times> nat) \<times> u8 list list) nbd_plugin" where
  "ex_nbd_open = ex_nbd_plugin (ex_fh ((0, 0), []))"

lemma nbd_sessions_sound_witness:
  "nbd_reaches (ex_nbd_env (reply_env ''ACK'' (\<lambda>_. None))) ex_nbd_open ex_nbd_open
     \<and> np_sector_size ex_nbd_open \<noteq> 0 \<and> np_num_sectors ex_nbd_open \<noteq> 0
     \<and> qdl_plugin_open 5 (ex_nbd_env (reply_env ''ACK'' (\<lambda>_. None))) ex_nbd_open = Some (True, ex_nbd_open)"
proof -
  let ?N = "ex_nbd_env (reply_env ''ACK'' (\<lambda>_. None))"
  have "nbd_call 1 ?N (Call_Read 4 2) ex_nbd_open = Some ex_nbd_open"
    by (simp add: nbd_call_def qdl_plugin_pread_def ex_nbd_open_def ex_nbd_plugin_def)
  from nbd_step [OF nbd_refl this] have r: "nbd_reaches ?N ex_nbd_open ex_nbd_open" .
  have "nbd_ok ex_nbd_open" "np_dev ex_nbd_open = Some (ex_fh ((0, 0), []))"
    by (simp_all add: ex_nbd_open_def ex_nbd_plugin_def nbd_ok_def)
  from nbd_sessions_sound [OF r this, of 5] r show ?thesis by simp
qed

text \<open>
  A device with a disk of twenty bytes that knows the request for sectors 2 to 4 of physical partition 1,
  in an environment that prints the attributes of a request one after the other.
\<close>

definition ex_disk :: "u8 list" where
  "ex_disk = [0, 0, 0, 0, 0, 0, 0, 0, 1, 2, 3, 4, 5, 6, 7, 8, 9, 10, 11, 12]"

definition ex_answer :: "u8 list \<Rightarrow> u8 list list" where
  "ex_answer m = (if m = bytes_of ''read4312'' then [raw_doc @ [1, 2], [3, 4, 5, 6, 7], [8], [9, 10, 11, 12], ack_doc] else [])"

definition ex_disk_env :: "u8 list list fh_env" where
  "ex_disk_env = \<lparr>env_tr = frag_link ex_answer, env_clock = (\<lambda>_. 0), env_xml = raw_xml,
     env_dump = (\<lambda>tag attrs. bytes_of (tag @ concat (map snd attrs))), env_fs = (\<lambda>_. None), env_stk = []\<rparr>"

lemma nbd_pread_reads_witness:
  "\<exists>s'. qdl_plugin_pread 20 (ex_nbd_env ex_disk_env) 12 8 (ex_nbd_plugin (ex_fh []))
    = Some ((0, [1, 2, 3, 4, 5, 6, 7, 8, 9, 10, 11, 12]), (ex_nbd_plugin (ex_fh []))\<lparr>np_dev := Some s'\<rparr>)"
proof -
  let ?frs = "[[3, 4, 5, 6, 7], [8], [9, 10, 11, 12]] :: u8 list list"
  let ?s = "ex_fh [] :: u8 list list fh"
  let ?P = "ex_nbd_plugin ?s" and ?N = "ex_nbd_env ex_disk_env"
  let ?rn = "ex_node ''response'' [(''value'', ''ACK''), (''rawmode'', ''true'')]"
  let ?n = "ex_node ''response'' [(''value'', ''ACK'')]"
  have fh: "np_fh ?N = ex_disk_env" by (simp add: ex_nbd_env_def)
  have rm: "is_message (np_fh ?N) (raw_doc, ?rn)"
    unfolding fh by (simp add: is_message_def whole_raw firehose_response_parse_def ex_disk_env_def raw_xml_def ex_node_def)
  have rr: "raw_response ?rn"
    by (simp add: raw_response_def firehose_generic_parser_def ex_node_def FIREHOSE_ACK_def)
  have am: "is_message (np_fh ?N) (ack_doc, ?n)"
    unfolding fh using raw_doc_ack by (simp add: is_message_def whole_ack firehose_response_parse_def ex_disk_env_def raw_xml_def
        reply_xml_def ex_node_def)
  have ap: "firehose_generic_parser () ?n False = (0, (), False)"
    by (simp add: firehose_generic_parser_def ex_node_def FIREHOSE_ACK_def)
  have P: "np_dev ?P = Some ?s" "4 = np_sector_size ?P" "config_lun ?P = 1"
    by (simp_all add: ex_nbd_plugin_def nbd_initial_def)
  have s0: "env_tr (np_fh ?N) = frag_link ex_answer" unfolding fh by (simp add: ex_disk_env_def)
  have s: "idle ?s" "pending_ok (fh_dev ?s)" "link (fh_dev ?s) = []" "max_payload_size (fh_dev ?s) = 1048576"
      "length (raw_doc @ [1, 2]) \<le> 4095" "length ack_doc \<le> 4095" "[] \<notin> set ?frs" "slot_attr (fh_dev ?s) = []"
    by (simp_all add: ex_fh_def fresh_device_def pending_ok_def idle_def raw_doc_def ack_doc_def vip_zero_def slot_attr_def)
  have n: "(0 :: nat) < 4" "(4 :: nat) < 2 ^ 31" "unat (8 :: u64) mod 4 = 0"
      "unat (12 :: u32) = 3 * 4" "(3 :: nat) < 2 ^ 31" "length ?frs + 3 + 2 < 20"
    by simp_all
  have d: "unat (8 :: u64) + unat (12 :: u32) \<le> length ex_disk"
      "[1, 2] @ concat ?frs = sub_buf (unat (8 :: u64)) (unat (12 :: u32)) ex_disk"
    by (simp_all add: ex_disk_def sub_buf_def)
  have sd: "show_dec 4 = ''4''" "show_dec 3 = ''3''" "show_dec 2 = ''2''" "show_int 1 = ''1''" by code_simp+
  have an: "ex_answer (fh_doc (np_fh ?N) ''read''
            ([(''SECTOR_SIZE_IN_BYTES'', show_dec 4), (''num_partition_sectors'', show_dec 3),
              (''physical_partition_number'', show_int (config_lun ?P)), (''start_sector'', show_dec (unat (8 :: u64) div 4))]
             @ slot_attr (fh_dev ?s))) = (raw_doc @ [1, 2]) # ?frs @ [ack_doc]"
    unfolding fh P(3) s(8) by (simp add: sd fh_doc_def ex_disk_env_def ex_answer_def)
  have mp: "4 \<le> max_payload_size (fh_dev ?s)" by (simp only: s(4))
  from nbd_pread_reads [OF P(1,2) n(1,2) mp n(3-5) d(1) s0 s(1-3) rm rr am ap an s(5-7) d(2) n(6)] d(2)
  show ?thesis by simp
qed

lemma nbd_pwrite_sends_witness:
  "\<exists>P' s' blk num. qdl_plugin_pwrite 5 (ex_nbd_env (reply_env ''ACK'' (\<lambda>_. None))) [1, 2, 3, 4, 5, 6, 7, 8] 8 12 ex_nbd_open
        = Some (0, P')
    \<and> np_dev P' = Some s' \<and> 12 = blk * 4 \<and> 8 = num * (4 :: nat)
    \<and> pwrite_sent (reply_env ''ACK'' (\<lambda>_. None)) (pwrite_attrs 1 blk 4 num) 4 1048576 [1, 2, 3, 4, 5, 6, 7, 8] [] (wlog s')"
proof -
  let ?E = "reply_env ''ACK'' (\<lambda>_. None)" and ?N = "ex_nbd_env (reply_env ''ACK'' (\<lambda>_. None))"
  let ?b = "[1, 2, 3, 4, 5, 6, 7, 8 :: u8]" and ?d = "bytes_of ''program''"
  define s :: "((nat \<times> nat) \<times> u8 list list) fh" where "s = ex_fh ((0, 0), [])"
  have s: "idle s" "novip (fh_dev s)" "link (fh_dev s) = ((0, 0), [])" "max_payload_size (fh_dev s) = 1048576"
    by (simp_all add: s_def novip_def ex_fh_def fresh_device_def vip_zero_def idle_def)
  have dump: "fh_doc ?E ''program'' attrs = ?d" for attrs
    by (simp add: fh_doc_def reply_env_def)
  have "pwrite_chunks (Suc (Suc (Suc (Suc (Suc 0))))) ?E 4 2 ?b (set_link ((0, 100000), [?d]) s)
      = Some (0, set_link ((Suc 0, 100000), [?d, ?b]) s)"
    using s(1,4) by (simp add: Let_def sbind_def reply_send [where k = 0 and tm = 100000 and L = "[?d]"])
  moreover have "Suc (Suc (Suc (Suc (Suc 0)))) = 5" by simp
  ultimately have st: "pwrite_chunks 5 ?E 4 2 ?b (set_link ((0, 100000), [?d]) s)
      = Some (0, set_link ((Suc 0, 100000), [?d, ?b]) s)" by (simp only:)
  have "\<exists>s'. firehose_pwrite 5 ?E 1 3 ?b 4 2 s = Some (8, s')"
    using s st by (simp add: firehose_pwrite_def sbind_def dump
        reply_write [where k = 0 and tm = 0 and L = "[]"] reply_recv [where k = 0 and tm = 0 and L = "[?d]"]
        reply_recv [where k = 0 and tm = 100000 and L = "[?d, ?b]"]
        reply_code_def FIREHOSE_ACK_def sret_def)
  then obtain s' where "firehose_pwrite 5 ?E 1 3 ?b 4 2 s = Some (8, s')" by blast
  then have run: "qdl_plugin_pwrite 5 ?N ?b 8 12 ex_nbd_open = Some (0, ex_nbd_open\<lparr>np_dev := Some s'\<rparr>)"
    by (simp add: qdl_plugin_pwrite_def ex_nbd_open_def ex_nbd_plugin_def ex_nbd_env_def nbd_initial_def Let_def flip: s_def)
  have P: "np_dev ex_nbd_open = Some s" by (simp add: ex_nbd_open_def ex_nbd_plugin_def s_def)
  have tap: "env_tr (np_fh ?N) = tap ack_transport" by (simp add: ex_nbd_env_def reply_env_def)
  have len: "length ?b = unat (8 :: u32)" by simp
  from nbd_pwrite_sends [OF run P tap s(2) len] obtain s1 blk num where
    "np_dev (ex_nbd_open\<lparr>np_dev := Some s'\<rparr>) = Some s1" "unat (12 :: u64) = blk * np_sector_size ex_nbd_open"
    "unat (8 :: u32) = num * np_sector_size ex_nbd_open"
    "pwrite_sent (np_fh ?N) (pwrite_attrs (config_lun ex_nbd_open) blk (np_sector_size ex_nbd_open) num)
       (np_sector_size ex_nbd_open) (max_payload_size (fh_dev s)) ?b (wlog s) (wlog s1)" by blast
  moreover have "np_sector_size ex_nbd_open = 4" "config_lun ex_nbd_open = 1" "wlog s = []" "np_fh ?N = ?E"
    using s(3) by (simp_all add: ex_nbd_open_def ex_nbd_plugin_def nbd_initial_def wlog_def ex_nbd_env_def)
  ultimately show ?thesis using run s(4) by auto
qed

end
