(* ===== verification/Spec2Isabelle.thy ===== *)
theory Spec2Isabelle
  imports SaharaProps SaharaLive ProgramProps GptProps VipProps UfsProps FhSession FhData FhRead FhSize ProgrammerProps
    FlashmapProps ContentsProps QdlProps ZipperLoad SimQueue UsbSession Auto Nbdkit
begin

text \<open>
  A verification development for qdl, the host-side tool that flashes Qualcomm devices in emergency
  download mode.

  The program. \<open>src/qdl.c\<close> turns a command line into a programmer (Sahara images), a queue of Firehose
  operations and possibly a UFS description; it opens a device, uploads the programmer with Sahara
  (\<open>src/sahara.c\<close>) and runs the queue with Firehose (\<open>src/firehose.c\<close>). Queues come from XML files
  (\<open>src/program.c\<close>, \<open>src/patch.c\<close>, \<open>src/read.c\<close>), from build descriptions (\<open>src/contents.c\<close>), from
  archives (\<open>src/flashmap.c\<close>, written by \<open>src/zipper.c\<close>) and from verbs. Operations addressed by a
  partition's name are resolved with the tables on the device (\<open>src/gpt.c\<close>). Packets can be covered by
  digest tables (\<open>src/vip.c\<close>, \<open>src/sha2.c\<close>). A device is reached over libusb (\<open>src/usb.c\<close>), the
  Windows driver (\<open>src/qud.c\<close>), whichever comes first (\<open>src/auto.c\<close>), or it is the simulator of a dry run
  (\<open>src/sim.c\<close>); \<open>src/io.c\<close> puts a pushback buffer in front of it. The nbdkit plugin
  (\<open>src/nbdkit-qdl-plugin.c\<close>) serves a device's storage as a block device on the same layers.
\<close>

section \<open>How the code is modelled\<close>

text \<open>
  Structures are records and enumerations datatypes with the names of the code; machine integers whose
  width matters are words, buffers are lists of bytes, C strings lists of characters without the
  terminating NUL. A function that fails returns the code's value, or an option where the code returns a
  pointer. State that a function changes is passed and returned: the device handle \<open>qdl_device\<close> with the
  state \<open>'d\<close> of its transport behind \<open>link\<close>, the Firehose session \<open>fh\<close> (device, digest generator, host
  files, statistics, loaded partition tables), the \<open>host\<close>'s files, the image table. Code that waits for
  a device is a state transformer \<open>som\<close> with fuel, and \<open>None\<close> is a wait that did not end within it; a loop
  that need not end for another reason is fuelled as well or a partial function. An index from the input is
  not taken to be in range: a store behind the array of images leaves a table that is too long, and a read
  behind a loaded archive and the bytes known to follow it is the outcome \<open>Faults\<close>.

  Parameters, which stand for code that is not under \<open>src\<close>: libxml2 is a function from bytes to an
  optional node tree and one from a tree to bytes (\<open>env_xml\<close>, \<open>env_dump\<close>, fields of the loaders'
  environments); libzip is the file system of an archive and a \<open>zip_writer\<close>; the operating system gives
  \<open>file_system\<close> and the results of writes in \<open>host\<close>; getopt gives the list of options and arguments;
  libusb is the record \<open>libusb\<close>, the Windows API the record \<open>win\<close>, nbdkit's path function a field of
  \<open>nbd_env\<close>; \<open>gettimeofday\<close> is a clock read off the transport's state; what an uninitialised buffer or
  memory behind a blob holds is a list; a double outside the range of \<open>size_t\<close> converts by \<open>np_conv\<close>. \<open>strtod\<close> is modelled
  as the nearest binary64 number. No hypothesis is made about a parameter but those a theorem names.
\<close>

section \<open>Theories\<close>

text \<open>
  Base. \<open>Prelude\<close>: types, buffers, little-endian fields, \<open>strtoul\<close>, \<open>strtol\<close> and \<open>%u\<close>, the monad \<open>som\<close>
  with its rules. \<open>Device\<close>: \<open>struct qdl_device\<close>, the transport and the pushback buffer (locale
  \<open>pushback_reader\<close>). \<open>Host\<close>, \<open>FileIo\<close>, \<open>Sparse\<close>, \<open>Pathbuf\<close>, \<open>QdlList\<close> (locale \<open>node_queue\<close>), \<open>Util\<close>,
  \<open>Json\<close>, \<open>Ux\<close>: the host's files, \<open>src/file.c\<close>, \<open>src/sparse.c\<close>, \<open>src/pathbuf.c\<close>, \<open>src/list.h\<close>,
  \<open>src/util.c\<close>, \<open>src/json.c\<close>, \<open>src/ux.c\<close>. \<open>JsonProps\<close> proves the parser equivalent to a grammar and
  printing followed by parsing to be the identity. \<open>Sha2\<close> proves both block transforms equal to the
  standard's and the streaming interface equal to the digest of the concatenation (locale
  \<open>streaming_hash\<close>).

  Transports. \<open>Usb\<close> and \<open>UsbProps\<close>: \<open>src/usb.c\<close>; an opened handle is usable, the messages written are the
  messages received at the level of bulk packets, and reads give the device's messages back whether or
  not it sends the empty packet after a full buffer. \<open>UsbSession\<close>: the backend discharges the locale
  \<open>guarded_link\<close>, so a firehose session over it puts only whole firehose messages on the bus. \<open>Qud\<close>: \<open>src/qud.c\<close>, and that both backends accept the
  same interfaces. \<open>Auto\<close>: \<open>src/auto.c\<close>, the dispatch of \<open>src/io.c\<close>, the device list; what the
  automatic backend does with a chunk size. \<open>Sim\<close>: \<open>src/sim.c\<close>.

  Sahara. \<open>SaharaPkt\<close> (packets and the handlers that answer one request, locales \<open>guarded_link\<close> and
  \<open>sahara_link\<close>), \<open>SaharaDump\<close> (memory dumps), \<open>Sahara\<close> (sessions, command mode, reset).
  \<open>SaharaProps\<close>: what may reach the device and the file system, what a request is answered with on every
  branch, the glob matcher, the reset. \<open>SaharaLive\<close>: a device that delivers at most \<open>n\<close> packets is done with within fuel
  \<open>n + 3\<close> (locale \<open>draining_link\<close>), and a silent one on two transports never is.

  Inputs. \<open>FirehoseOp\<close> (operations, locale \<open>appending_loader\<close>), \<open>Program\<close>, \<open>Programmer\<close>, \<open>Contents\<close>,
  \<open>Flashmap\<close>, \<open>Cli\<close>, \<open>Zipper\<close>, \<open>QdlMain\<close>: the loaders, the programmer files, the archive writer, the
  options and the plan of a run. \<open>ProgramProps\<close>: a sparse image's operations store the expanded image.
  \<open>ProgrammerProps\<close>: archives round trip, and loading one stays inside its memory and the array of images.
  \<open>OpGroups\<close> (locales \<open>plain_loader\<close> and \<open>shifting_loader\<close>: what a file adds does not depend on the
  queue), \<open>ContentsProps\<close>, \<open>FlashmapProps\<close>: which groups of operations a description or a
  flashmap queues under a selection, and that a failed load leaves the queue alone. \<open>QdlProps\<close>: the shape
  of the planned queue and its guards. \<open>ZipperJson\<close>, \<open>ZipperProps\<close>, \<open>ZipperLoad\<close>: the archive that
  create-zip writes is flashed as the same operations with the same data.

  Firehose. \<open>FhMsg\<close>, \<open>FhCmd\<close>, \<open>FhProgram\<close>, \<open>FhRun\<close>, \<open>FhSize\<close>: messages, configuration, reading,
  programming, the queue, block access, the storage size. \<open>Gpt\<close>, \<open>GptProps\<close>: partition names against
  the UTF-8 encoding in arithmetic, tables, and the entry a name stands for, given as a position in the
  tables, with the placing of operations. \<open>Ufs\<close>, \<open>UfsProps\<close>: provisioning descriptions and the two passes. \<open>Vip\<close>,
  \<open>VipGen\<close>, \<open>VipProps\<close>: digest tables, their generation and transfer. \<open>FhLink\<close> (locale \<open>fh_link\<close>),
  \<open>FhSession\<close> (locales \<open>kept_reader\<close>, \<open>reading_session\<close>): what a session may send. \<open>FhData\<close>: the
  packets of a programmed region and its digest. \<open>FhRead\<close>: message and fragment boundaries do not matter.
  \<open>FhEx\<close>: an acknowledging device for examples. \<open>Nbdkit\<close>: the plugin; block reads from a device that
  answers the request for the sectors, block writes, and its sessions.

  Dry runs. \<open>SimVip\<close>: a validated dry run reports exactly the packets whose digest differs from the
  table's; and, with the image format the simulator reads, that the generator's tables are what is sent in
  front of the packets they cover. \<open>SimRun\<close>, \<open>SimQueue\<close>: exchanges with the simulator, and that a queue whose files can be read
  runs to success with exact counters.
\<close>

section \<open>Fuel and bounds\<close>

text \<open>
  Every theorem that code returns names its fuel: the number of reads plus one for a response, a number
  linear in fragments and sectors for sector data, \<open>n + 3\<close> for a Sahara session, \<open>2 ^ 32 + 4\<close> for the
  operations of a dry run, because a transfer has at most \<open>2 ^ 32 - 1\<close> sectors and each turn of its loop
  moves at least one. Theorems about what was sent hold for every fuel with which the code returns.
  SHA-256 is correct for inputs below \<open>2 ^ 61\<close> bytes, offsets into files are below \<open>2 ^ 63\<close>, the messages
  of a bulk endpoint below \<open>2 ^ 31\<close> bytes, a file copy ends at the end of its source or when the disk, whose
  room in blocks \<open>h_room\<close> of \<open>host\<close> gives, is full, the buffers of paths and of responses have the sizes of the
  code. The operations on one operation list are the queue's Isabelle list, which \<open>QdlList\<close> relates to
  the linked nodes.
\<close>

section \<open>Not modelled\<close>

text \<open>
  Memory: allocation failure, freeing, and ownership of strings; a failing \<open>calloc\<close> is assumed away
  except where it only returns an error. libzip (\<open>src/file_zip.c\<close>, \<open>src/file_nozip.c\<close>), libxml2, getopt
  and the operating system are parameters because their code is not here. Help texts, version and
  progress messages, the rate reports of \<open>src/firehose.c\<close> and the tables of status texts of
  \<open>src/sahara.c\<close> are output only and are left out of the functions that print them; \<open>src/ux.c\<close> itself is
  modelled on formatted text, for other systems than Windows, without the libxml2 callback. Of
  \<open>src/qud.c\<close> the registry queries are reduced to their answers and the line settings to their success.
  UNC paths of Windows in \<open>src/pathbuf.c\<close>, and the Windows forms of \<open>src/oscompat.h\<close>, are left out.
  Signals, threads and the interleaving of other programs do not occur: the program is sequential and
  nbdkit serialises the plugin's calls. The tests under \<open>tests\<close> are not part of the program.
\<close>

end
